(* ===== verification/Kernel_Prelude.thy ===== *)
theory Kernel_Prelude
  imports Complex_Main "HOL-Library.List_Lexorder" "HOL-Library.Char_ord" "HOL-Library.AList"
    "HOL-Library.Sorting_Algorithms" "HOL-Library.Sublist"
begin

text \<open>
  What every component of the kernel shares: JavaScript strings and the few library calls on
  them, results that may be a thrown error, insertion-ordered sets and maps, numbers, and the
  two interfaces that several components implement (an append-only log and a lifecycle).

  A JavaScript string is a list of code units; the model's \<open>string\<close> holds the code units
  0..255. A thrown error is the left side of a sum. Values are immutable here, so the source's
  defensive copies (\<open>{ ...x }\<close>, \<open>[...xs]\<close>, \<open>structuredClone\<close>) are the identity.
\<close>

section \<open>Results\<close>

named_theorems result_simps "equations that take a fallible computation apart"
named_theorems operation_defs "the definitions of the kernel's operations"

definition rbind :: "'e + 'a \<Rightarrow> ('a \<Rightarrow> 'e + 'b) \<Rightarrow> 'e + 'b" where
  "rbind m f = (case m of Inl e \<Rightarrow> Inl e | Inr x \<Rightarrow> f x)"

text \<open>\<open>if (c) throw e;\<close>\<close>

definition throw_if :: "bool \<Rightarrow> 'e \<Rightarrow> 'e + unit" where
  "throw_if c e = (if c then Inl e else Inr ())"

text \<open>\<open>xs.map(f)\<close> and \<open>for (const x of xs) f(x)\<close> where \<open>f\<close> may throw.\<close>

primrec map_res :: "('a \<Rightarrow> 'e + 'b) \<Rightarrow> 'a list \<Rightarrow> 'e + 'b list" where
  "map_res f [] = Inr []"
| "map_res f (x # xs) = rbind (f x) (\<lambda>y. rbind (map_res f xs) (\<lambda>ys. Inr (y # ys)))"

primrec each_res :: "('a \<Rightarrow> 'e + unit) \<Rightarrow> 'a list \<Rightarrow> 'e + unit" where
  "each_res f [] = Inr ()"
| "each_res f (x # xs) = rbind (f x) (\<lambda>_. each_res f xs)"

lemma rbind_simps [simp]:
  "rbind (Inl e) f = Inl e"
  "rbind (Inr x) f = f x"
  by (simp_all add: rbind_def)

lemma rbind_Inr_iff [result_simps]: "rbind m f = Inr y \<longleftrightarrow> (\<exists>x. m = Inr x \<and> f x = Inr y)"
  by (cases m) auto

lemma rbind_Inl_iff [result_simps]:
  "rbind m f = Inl e \<longleftrightarrow> m = Inl e \<or> (\<exists>x. m = Inr x \<and> f x = Inl e)"
  by (cases m) auto

lemma rbind_cong [fundef_cong]:
  "m = m' \<Longrightarrow> (\<And>x. m' = Inr x \<Longrightarrow> f x = g x) \<Longrightarrow> rbind m f = rbind m' g"
  by (cases m') auto

lemma throw_if_iff [simp, result_simps]:
  "throw_if c e = Inr u \<longleftrightarrow> \<not> c"
  "throw_if c e = Inl e' \<longleftrightarrow> c \<and> e' = e"
  by (auto simp: throw_if_def)

lemma throw_if_bool [simp]: "throw_if True e = Inl e" "throw_if False e = Inr ()"
  by (simp_all add: throw_if_def)

lemma each_res_Inr_iff [result_simps]: "each_res f xs = Inr u \<longleftrightarrow> (\<forall>x\<in>set xs. f x = Inr ())"
  by (induction xs) (auto simp: rbind_Inr_iff)

lemma each_res_Inl_D: "each_res f xs = Inl e \<Longrightarrow> \<exists>x\<in>set xs. f x = Inl e"
  by (induction xs) (auto simp: rbind_Inl_iff)

lemma map_res_Inr_iff [result_simps]:
  "map_res f xs = Inr ys \<longleftrightarrow> list_all2 (\<lambda>x y. f x = Inr y) xs ys"
proof (induction xs arbitrary: ys)
  case Nil
  then show ?case by auto
next
  case (Cons x xs)
  then show ?case by (cases ys) (auto simp: rbind_Inr_iff list_all2_Cons1)
qed

lemma map_res_Inl_D: "map_res f xs = Inl e \<Longrightarrow> \<exists>x\<in>set xs. f x = Inl e"
  by (induction xs) (auto simp: rbind_Inl_iff)

lemma map_res_set: "map_res f xs = Inr ys \<Longrightarrow> y \<in> set ys \<Longrightarrow> \<exists>x\<in>set xs. f x = Inr y"
  by (induction xs arbitrary: ys) (auto simp: rbind_Inr_iff)

lemma map_res_length: "map_res f xs = Inr ys \<Longrightarrow> length ys = length xs"
  by (simp add: map_res_Inr_iff list_all2_lengthD)

section \<open>Strings\<close>

text \<open>\<open>String.prototype.trim\<close>: the white space and line terminators among the code units 0..255.\<close>

definition js_space :: "char \<Rightarrow> bool" where
  "js_space c \<longleftrightarrow> (of_char c :: nat) \<in> set [9, 10, 11, 12, 13, 32, 160]"

definition trim :: "string \<Rightarrow> string" where
  "trim s = rev (dropWhile js_space (rev (dropWhile js_space s)))"

text \<open>The character class of the validators: \<open>/[\u0000-\u001f\u007f]/\<close>.\<close>

definition js_control :: "char \<Rightarrow> bool" where
  "js_control c \<longleftrightarrow> (of_char c :: nat) < 32 \<or> (of_char c :: nat) = 127"

lemma trim_Nil [simp]: "trim [] = []"
  by (simp add: trim_def)

lemma dropWhile_rev_dropWhile:
  assumes "dropWhile P ys = ys"
  shows "dropWhile P (rev (dropWhile P (rev ys))) = rev (dropWhile P (rev ys))"
proof (cases ys)
  case (Cons z zs)
  with assms have "\<not> P z" by (metis dropWhile_eq_Cons_conv)
  with Cons show ?thesis by (simp add: dropWhile_append)
qed simp

lemma trim_trim [simp]: "trim (trim s) = trim s"
  by (simp add: trim_def dropWhile_rev_dropWhile dropWhile_idem)

lemma length_trim: "length (trim s) \<le> length s"
  by (metis length_dropWhile_le length_rev order_trans trim_def)

lemma set_trim: "set (trim s) \<subseteq> set s"
  by (auto simp: trim_def dest!: set_dropWhileD)

text \<open>
  The validators of many components are one function under several names: trim, then refuse an
  empty, too long or control-character text.
\<close>

definition clean_within :: "nat \<Rightarrow> 'e \<Rightarrow> string \<Rightarrow> 'e + string" where
  "clean_within limit e s =
     (let normalized = trim s in
      if normalized = [] \<or> length normalized > limit \<or> list_ex js_control normalized then Inl e
      else Inr normalized)"

definition clean_text :: "nat \<Rightarrow> string \<Rightarrow> bool" where
  "clean_text limit s \<longleftrightarrow> trim s = s \<and> s \<noteq> [] \<and> length s \<le> limit \<and> \<not> list_ex js_control s"

lemma clean_within_Inr [result_simps]: "clean_within limit e s = Inr n \<longleftrightarrow> n = trim s \<and> clean_text limit n"
  by (auto simp: clean_within_def clean_text_def Let_def)

lemma clean_within_Inl: "clean_within limit e s = Inl e' \<longleftrightarrow> e' = e \<and> \<not> clean_text limit (trim s)"
  by (auto simp: clean_within_def clean_text_def Let_def)

lemma clean_text_trim: "clean_text limit s \<Longrightarrow> trim s = s"
  by (simp add: clean_text_def)

section \<open>Insertion-ordered sets and maps\<close>

text \<open>\<open>[...new Set(xs)]\<close> keeps the first occurrence of each element.\<close>

primrec uniq :: "'a list \<Rightarrow> 'a list" where
  "uniq [] = []"
| "uniq (x # xs) = x # filter (\<lambda>y. y \<noteq> x) (uniq xs)"

lemma set_uniq [simp]: "set (uniq xs) = set xs"
  by (induction xs) auto

lemma distinct_uniq [simp]: "distinct (uniq xs)"
  by (induction xs) auto

lemma uniq_distinct: "distinct xs \<Longrightarrow> uniq xs = xs"
  by (induction xs) (auto simp: filter_id_conv)

lemma length_uniq_le: "length (uniq xs) \<le> length xs"
proof -
  have "length (uniq xs) = card (set xs)"
    by (metis distinct_card distinct_uniq set_uniq)
  then show ?thesis by (simp add: card_length)
qed

text \<open>The sources' duplicate test, \<open>new Set(xs).size !== xs.length\<close>.\<close>

lemma length_uniq_eq [simp]: "length (uniq xs) = length xs \<longleftrightarrow> distinct xs"
  by (metis card_distinct distinct_card distinct_uniq set_uniq)

lemma uniq_eq_Nil [simp]: "uniq xs = [] \<longleftrightarrow> xs = []"
  by (cases xs) auto

text \<open>\<open>xs.sort()\<close> sorts by code units, which is the lexicographic order on \<open>string\<close>.\<close>

definition sort_units :: "string list \<Rightarrow> string list" where
  "sort_units xs = sort_key (\<lambda>x. x) xs"

text \<open>
  \<open>xs.sort((a, b) => a.k.localeCompare(b.k))\<close>: the collation is a parameter, a \<open>comparator\<close> of
  \<open>HOL-Library.Sorting_Algorithms\<close>, whose type carries what the language promises of it (a
  total preorder); the sort is stable.
\<close>

abbreviation sort_by :: "'a comparator \<Rightarrow> 'a list \<Rightarrow> 'a list" where
  "sort_by \<equiv> Sorting_Algorithms.sort"

lemma sort_by_head:
  assumes "sort_by c xs = y # ys"
  shows "y \<in> set xs" and "\<forall>x\<in>set xs. compare c y x \<noteq> Greater"
proof -
  have mset: "mset xs = mset (y # ys)" using assms by (metis mset_sort)
  then have set: "set xs = set (y # ys)" by (metis set_mset_mset)
  then show "y \<in> set xs" by simp
  have "Sorting_Algorithms.sorted c (y # ys)" using assms by (metis sorted_sort)
  then have "compare c y x \<noteq> Greater" if "x \<in> set ys" for x
    using that
  proof (induction ys arbitrary: y)
    case (Cons z zs)
    then have "compare c y z \<noteq> Greater" and "x = z \<or> compare c z x \<noteq> Greater" by auto
    then show ?case using compare.trans_less compare.trans_equiv
      by (metis (full_types) comp.exhaust compare.trans_equiv_less compare.trans_less_equiv comp.distinct)
  qed simp
  with set show "\<forall>x\<in>set xs. compare c y x \<noteq> Greater" by simp
qed

lemma sort_by_Nil [simp]: "sort_by c xs = [] \<longleftrightarrow> xs = []"
  by (metis mset_sort mset_zero_iff)

text \<open>\<open>compareA(x, y) || compareB(x, y)\<close>: the second comparison decides where the first is zero.\<close>

lift_definition or_else :: "'a comparator \<Rightarrow> 'a comparator \<Rightarrow> 'a comparator"
  is "\<lambda>c d x y. case c x y of Equiv \<Rightarrow> d x y | r \<Rightarrow> r"
proof -
  fix c d :: "'a \<Rightarrow> 'a \<Rightarrow> comp"
  assume c: "comparator c" and d: "comparator d"
  show "comparator (\<lambda>x y. case c x y of Equiv \<Rightarrow> d x y | r \<Rightarrow> r)"
  proof (rule comparator.intro, goal_cases)
    case (1 x)
    then show ?case by (simp add: comparator.refl [OF c] comparator.refl [OF d])
  next
    case (2 x y z)
    then show ?case
      by (auto split: comp.splits intro: comparator.trans_equiv [OF d] dest: comparator.trans_equiv [OF c])
  next
    case (3 x y z)
    then show ?case
      by (auto split: comp.splits intro: comparator.trans_less [OF d])
        (metis comp.distinct comparator.trans_equiv [OF c] comparator.trans_less [OF c]
          comparator.trans_less_equiv [OF c] comparator.trans_equiv_less [OF c])+
  next
    case (4 y x)
    then show ?case
      using comparator.greater_iff_sym_less [OF c, of x y] comparator.greater_iff_sym_less [OF d, of x y]
        comparator.greater_iff_sym_less [OF d, of y x]
        comparator.greater_iff_sym_less [OF c, of y x] comparator.sym [OF c, of x y]
      by (auto split: comp.splits)
  qed
qed

lemma compare_or_else:
  "compare (or_else c d) x y = (case compare c x y of Equiv \<Rightarrow> compare d x y | r \<Rightarrow> r)"
  by transfer simp

lemma set_sort_units [simp]: "set (sort_units xs) = set xs"
  by (simp add: sort_units_def)

lemma distinct_sort_units [simp]: "distinct (sort_units xs) = distinct xs"
  by (simp add: sort_units_def)

lemma length_sort_units [simp]: "length (sort_units xs) = length xs"
  by (simp add: sort_units_def)

lemma sort_units_eq_Nil [simp]: "sort_units xs = [] \<longleftrightarrow> xs = []"
  by (metis length_0_conv length_sort_units)

lemma sort_uniq_eq_iff: "sort_units (uniq xs) = sort_units (uniq ys) \<longleftrightarrow> set xs = set ys"
proof
  assume "sort_units (uniq xs) = sort_units (uniq ys)"
  then have "set (sort_units (uniq xs)) = set (sort_units (uniq ys))" by simp
  then show "set xs = set ys" by simp
next
  assume "set xs = set ys"
  then show "sort_units (uniq xs) = sort_units (uniq ys)"
    unfolding sort_units_def by (intro sorted_distinct_set_unique) simp_all
qed

text \<open>\<open>m.get(k)\<close> is \<open>map_of\<close>; \<open>m.set(k, v)\<close> overwrites in place or appends, as \<open>AList.update\<close>.\<close>

lemma map_of_alist_update: "map_of (AList.update k v m) = (map_of m)(k \<mapsto> v)"
  by (simp add: update_conv')

lemma find_append_stable: "List.find P xs = Some x \<Longrightarrow> List.find P (xs @ ys) = Some x"
  by (induction xs) auto

lemma find_prefix_stable: "prefix xs ys \<Longrightarrow> List.find P xs = Some x \<Longrightarrow> List.find P ys = Some x"
  by (auto simp: prefix_def find_append_stable)

lemma find_Some_D: "List.find P xs = Some x \<Longrightarrow> x \<in> set xs \<and> P x"
  by (auto simp: find_Some_iff)

lemma find_None_D: "List.find P xs = None \<Longrightarrow> x \<in> set xs \<Longrightarrow> \<not> P x"
  by (auto simp: find_None_iff)

section \<open>Numbers\<close>

text \<open>
  A JavaScript number is a double: a finite one is a rational. The code that receives a number
  from outside tests \<open>Number.isFinite\<close>, \<open>Number.isInteger\<close> or \<open>Number.isSafeInteger\<close> first;
  comparisons with \<open>NaN\<close> are false.
\<close>

datatype js_number = Fin rat | PosInf | NegInf | NaN

definition is_finite_num :: "js_number \<Rightarrow> bool" where
  "is_finite_num n \<longleftrightarrow> (case n of Fin _ \<Rightarrow> True | _ \<Rightarrow> False)"

definition is_integer_num :: "js_number \<Rightarrow> bool" where
  "is_integer_num n \<longleftrightarrow> (case n of Fin r \<Rightarrow> of_int \<lfloor>r\<rfloor> = r | _ \<Rightarrow> False)"

definition is_safe_integer :: "js_number \<Rightarrow> bool" where
  "is_safe_integer n \<longleftrightarrow>
     (case n of Fin r \<Rightarrow> of_int \<lfloor>r\<rfloor> = r \<and> \<bar>r\<bar> \<le> 9007199254740991 | _ \<Rightarrow> False)"

fun num_lt :: "js_number \<Rightarrow> js_number \<Rightarrow> bool" where
  "num_lt NaN _ = False"
| "num_lt _ NaN = False"
| "num_lt (Fin a) (Fin b) = (a < b)"
| "num_lt (Fin a) PosInf = True"
| "num_lt NegInf (Fin b) = True"
| "num_lt NegInf PosInf = True"
| "num_lt _ _ = False"

definition num_le :: "js_number \<Rightarrow> js_number \<Rightarrow> bool" where
  "num_le a b \<longleftrightarrow> num_lt a b \<or> (a = b \<and> a \<noteq> NaN)"

text \<open>\<open>n + 1\<close> on a safe integer, where it is exact.\<close>

definition num_succ :: "js_number \<Rightarrow> js_number" where
  "num_succ n = (case n of Fin r \<Rightarrow> Fin (r + 1) | _ \<Rightarrow> n)"

text \<open>\<open>!Number.isFinite(n) || n < 0 || n > 1\<close>, the sources' test of a confidence.\<close>

definition bad_unit_num :: "js_number \<Rightarrow> bool" where
  "bad_unit_num n \<longleftrightarrow> \<not> is_finite_num n \<or> num_lt n (Fin 0) \<or> num_lt (Fin 1) n"

lemma is_finite_num_simps [simp]:
  "is_finite_num (Fin r)" "\<not> is_finite_num PosInf" "\<not> is_finite_num NegInf" "\<not> is_finite_num NaN"
  by (simp_all add: is_finite_num_def)

lemma num_le_simps [simp]: "num_le (Fin a) (Fin b) \<longleftrightarrow> a \<le> b" "\<not> num_le NaN m" "\<not> num_le m NaN"
  by (cases m; auto simp: num_le_def)+

lemma num_succ_Fin [simp]: "num_succ (Fin r) = Fin (r + 1)"
  by (simp add: num_succ_def)

lemma bad_unit_num_iff: "\<not> bad_unit_num n \<longleftrightarrow> (\<exists>r. n = Fin r \<and> 0 \<le> r \<and> r \<le> 1)"
  by (cases n) (auto simp: bad_unit_num_def)

section \<open>Decimal numerals\<close>

text \<open>\<open>`${n}`\<close> for a natural number.\<close>

definition digit_char :: "nat \<Rightarrow> char" where
  "digit_char n = char_of (48 + n)"

fun show_nat :: "nat \<Rightarrow> string" where
  "show_nat n = (if n < 10 then [digit_char n] else show_nat (n div 10) @ [digit_char (n mod 10)])"

declare show_nat.simps [simp del]

definition is_digit :: "char \<Rightarrow> bool" where
  "is_digit c \<longleftrightarrow> 48 \<le> (of_char c :: nat) \<and> (of_char c :: nat) \<le> 57"

definition numeral_value :: "string \<Rightarrow> nat" where
  "numeral_value s = foldl (\<lambda>a c. 10 * a + (of_char c - 48)) 0 s"

lemma of_char_digit: "d < 10 \<Longrightarrow> (of_char (digit_char d) :: nat) = 48 + d"
  by (simp add: digit_char_def)

lemma numeral_value_show_nat: "numeral_value (show_nat n) = n"
proof (induction n rule: show_nat.induct)
  case (1 n)
  then show ?case
    by (subst show_nat.simps) (auto simp: numeral_value_def of_char_digit)
qed

lemma show_nat_inject: "show_nat m = show_nat n \<longleftrightarrow> m = n"
  by (metis numeral_value_show_nat)

lemma show_nat_digits: "c \<in> set (show_nat n) \<Longrightarrow> is_digit c"
proof (induction n rule: show_nat.induct)
  case (1 n)
  then show ?case
    by (subst (asm) show_nat.simps) (auto simp: is_digit_def of_char_digit split: if_splits)
qed

lemma show_nat_not_Nil: "show_nat n \<noteq> []"
  by (subst show_nat.simps) simp

text \<open>A numeral after a character that is not a digit can be read back.\<close>

lemma numeral_suffix_inject:
  assumes "xs @ c # show_nat m = ys @ c # show_nat n" and "\<not> is_digit c"
  shows "xs = ys \<and> m = n"
proof -
  have num: "takeWhile is_digit (rev (zs @ c # show_nat k)) = rev (show_nat k)" for zs k
    using assms(2) show_nat_digits [of _ k] by (simp add: takeWhile_append)
  from num [of xs m] num [of ys n] assms(1) have "rev (show_nat m) = rev (show_nat n)" by metis
  then have "m = n" by (simp add: show_nat_inject)
  with assms(1) show ?thesis by simp
qed

section \<open>Numbered lists\<close>

text \<open>The entries of a history carry the numbers 1, 2, 3, ... in order.\<close>

definition numbered :: "('a \<Rightarrow> nat) \<Rightarrow> 'a list \<Rightarrow> bool" where
  "numbered f xs \<longleftrightarrow> (\<forall>k<length xs. f (xs ! k) = Suc k)"

lemma numbered_Nil [simp]: "numbered f []"
  by (simp add: numbered_def)

lemma numbered_snoc [simp]: "numbered f (xs @ [x]) \<longleftrightarrow> numbered f xs \<and> f x = Suc (length xs)"
  by (auto simp: numbered_def nth_append less_Suc_eq)

lemma numbered_last: "numbered f xs \<Longrightarrow> xs \<noteq> [] \<Longrightarrow> f (last xs) = length xs"
  by (cases xs rule: rev_cases) simp_all

lemma numbered_distinct: "numbered f xs \<Longrightarrow> distinct (map f xs)"
  by (simp add: distinct_conv_nth numbered_def)

text \<open>\<open>xs.sort((a, b) => b.n - a.n)[0]\<close> is the last entry of a numbered list.\<close>

lemma numbered_newest:
  assumes "numbered f xs"
  shows "(case sort_by (reversed (key f default)) xs of [] \<Rightarrow> None | y # _ \<Rightarrow> Some y)
    = (if xs = [] then None else Some (last xs))"
proof (cases "sort_by (reversed (key f default)) xs")
  case (Cons y ys)
  note head = sort_by_head [OF Cons]
  then have ne: "xs \<noteq> []" by auto
  then have "compare (reversed (key f default)) y (last xs) \<noteq> Greater" using head(2) by simp
  then have "f (last xs) \<le> f y" by simp
  moreover obtain k where k: "k < length xs" "y = xs ! k" using head(1) by (auto simp: in_set_conv_nth)
  ultimately have "k = length xs - 1" using assms numbered_last [OF assms ne] by (auto simp: numbered_def)
  with k ne have "y = last xs" by (simp add: last_conv_nth)
  with Cons ne show ?thesis by simp
next
  case Nil
  then have "xs = []" by (simp only: sort_by_Nil)
  then show ?thesis by simp
qed

section \<open>Append-only logs\<close>

text \<open>
  The stores of the kernel (plans, approvals, executions, receipts, notifications) are lists that
  an operation extends or leaves alone. The interface: whatever the operation, the log before it
  is a prefix of the log after it. What clients rely on follows once for all stores.
\<close>

locale append_log =
  fixes log :: "'s \<Rightarrow> 'r list" and step :: "'op \<Rightarrow> 's \<Rightarrow> 's"
  assumes step_extends: "prefix (log s) (log (step op s))"
begin

lemma run_extends: "prefix (log s) (log (fold step ops s))"
  by (induction ops arbitrary: s) (auto intro: step_extends prefix_order.trans)

lemma entry_persists: "r \<in> set (log s) \<Longrightarrow> r \<in> set (log (fold step ops s))"
  using run_extends [of s ops] by (auto simp: prefix_def)

lemma entry_at_persists: "i < length (log s) \<Longrightarrow> log (fold step ops s) ! i = log s ! i"
  using run_extends [of s ops] by (auto simp: prefix_def nth_append)

lemma first_match_persists:
  "List.find P (log s) = Some r \<Longrightarrow> List.find P (log (fold step ops s)) = Some r"
  by (rule find_prefix_stable [OF run_extends])

end

text \<open>
  A log with an invariant that every operation keeps, under which no key occurs twice.
\<close>

locale keyed_log = append_log +
  fixes inv :: "'a \<Rightarrow> bool" and key :: "'b \<Rightarrow> 'k"
  assumes step_inv: "inv s \<Longrightarrow> inv (step op s)"
    and inv_distinct: "inv s \<Longrightarrow> distinct (map key (log s))"
begin

lemma run_inv: "inv s \<Longrightarrow> inv (fold step ops s)"
  by (induction ops arbitrary: s) (auto intro: step_inv)

lemma key_unique:
  assumes "inv s" and "r \<in> set (log (fold step ops s))" and "r' \<in> set (log (fold step ops s))"
    and "key r = key r'"
  shows "r = r'"
proof -
  from inv_distinct [OF run_inv [OF assms(1)]] have "inj_on key (set (log (fold step ops s)))"
    by (simp add: distinct_map)
  with assms(2-4) show ?thesis by (auto dest: inj_onD)
qed

text \<open>A key read now reads the same entry after any further operations.\<close>

lemma lookup_stable:
  assumes "inv s" and "r \<in> set (log s)" and "r' \<in> set (log (fold step ops s))" and "key r' = key r"
  shows "r' = r"
  using key_unique [OF assms(1), of r' ops r] entry_persists [OF assms(2)] assms(3,4) by simp

end

section \<open>Lifecycles\<close>

text \<open>
  Several components move a status along a table of allowed successors, with a set of terminal
  statuses. The interface: a terminal status is one with no successor.
\<close>

locale lifecycle =
  fixes successors :: "'s \<Rightarrow> 's list" and terminal :: "'s \<Rightarrow> bool"
  assumes terminal_iff: "terminal s \<longleftrightarrow> successors s = []"
begin

lemma terminal_no_step: "terminal s \<Longrightarrow> t \<notin> set (successors s)"
  by (simp add: terminal_iff)

lemma terminal_stuck: "(\<lambda>a b. b \<in> set (successors a))\<^sup>*\<^sup>* s t \<Longrightarrow> terminal s \<Longrightarrow> t = s"
  by (induction rule: converse_rtranclp_induct) (auto simp: terminal_iff)

end

text \<open>A lifecycle with a rank that every step raises cannot revisit a status.\<close>

locale ranked_lifecycle = lifecycle +
  fixes rank :: "'a \<Rightarrow> nat"
  assumes step_rank: "t \<in> set (successors s) \<Longrightarrow> rank s < rank t"
begin

lemma path_rank: "(\<lambda>a b. b \<in> set (successors a))\<^sup>+\<^sup>+ s t \<Longrightarrow> rank s < rank t"
  by (induction rule: tranclp_induct) (auto dest: step_rank)

lemma no_return: "\<not> (\<lambda>a b. b \<in> set (successors a))\<^sup>+\<^sup>+ s s"
  using path_rank by blast

end

end
