(* ===== verification/Mission_Types.thy ===== *)
theory Mission_Types
  imports Kernel_Prelude
begin

text \<open>
  Missions, plans and tasks (\<open>mission/mission-types.ts\<close>), and the graph of task dependencies that
  both the mission engine and the plan manager search for cycles: edges, the order in which a
  depth-first search finishes nodes, and why a graph with such an order is acyclic.
\<close>

datatype mission_status = Draft | Planned | Active | Completed | Failed | Cancelled
datatype task_status = TaskPending | TaskReady | TaskActive | TaskCompleted | TaskFailed
datatype constraint_kind = Required | Forbidden | Limit

record mission_constraint =
  mc_kind :: constraint_kind
  mc_description :: string

record evidence_requirement =
  er_key :: string
  er_description :: string
  er_required :: bool

record mission_task =
  task_id :: string
  task_title :: string
  task_objective :: string
  task_status :: task_status
  depends_on :: "string list"
  evidence_requirements :: "evidence_requirement list"

record mission_plan =
  plan_summary :: string
  plan_tasks :: "mission_task list"
  plan_success_criteria :: "string list"
  plan_stop_conditions :: "string list"

record mission =
  mission_id :: string
  mission_title :: string
  mission_objective :: string
  mission_status :: mission_status
  mission_constraints :: "mission_constraint list"
  mission_plan :: "mission_plan option"
  failure_reason :: "string option"
  mission_created_at :: string
  mission_updated_at :: string

record create_mission_input =
  cm_id :: string
  cm_title :: string
  cm_objective :: string
  cm_constraints :: "mission_constraint list option"
  cm_created_at :: string

section \<open>The dependency graph\<close>

text \<open>\<open>new Map(tasks.map(task => [task.id, task]))\<close>: a later entry replaces an earlier one.\<close>

definition tasks_by_id :: "mission_task list \<Rightarrow> string \<Rightarrow> mission_task option" where
  "tasks_by_id tasks = map_of (rev (map (\<lambda>t. (task_id t, t)) tasks))"

text \<open>\<open>tasksById.get(taskId)?.dependsOn ?? []\<close>.\<close>

definition deps_of :: "mission_task list \<Rightarrow> string \<Rightarrow> string list" where
  "deps_of tasks i = (case tasks_by_id tasks i of None \<Rightarrow> [] | Some t \<Rightarrow> depends_on t)"

definition task_ids :: "mission_task list \<Rightarrow> string list" where
  "task_ids tasks = map task_id tasks"

definition edge :: "mission_task list \<Rightarrow> string \<Rightarrow> string \<Rightarrow> bool" where
  "edge tasks a b \<longleftrightarrow> b \<in> set (deps_of tasks a)"

definition acyclic_tasks :: "mission_task list \<Rightarrow> bool" where
  "acyclic_tasks tasks \<longleftrightarrow> (\<forall>a. \<not> (edge tasks)\<^sup>+\<^sup>+ a a)"

lemma tasks_by_id_Some: "tasks_by_id tasks i = Some t \<Longrightarrow> t \<in> set tasks \<and> task_id t = i"
  by (auto simp: tasks_by_id_def dest!: map_of_SomeD)

lemma tasks_by_id_None: "tasks_by_id tasks i = None \<longleftrightarrow> i \<notin> set (task_ids tasks)"
  by (auto simp: tasks_by_id_def task_ids_def map_of_eq_None_iff image_iff)

lemma tasks_by_id_distinct:
  "distinct (task_ids tasks) \<Longrightarrow> t \<in> set tasks \<Longrightarrow> tasks_by_id tasks (task_id t) = Some t"
  unfolding tasks_by_id_def task_ids_def
  by (rule map_of_is_SomeI) (auto simp: rev_map comp_def distinct_map)

lemma edge_source: "edge tasks a b \<Longrightarrow> a \<in> set (task_ids tasks)"
  using tasks_by_id_None [of tasks a] by (auto simp: edge_def deps_of_def split: option.splits)

text \<open>
  A finishing order, last finished first: each node comes before its dependencies, and all of
  them are in the list.
\<close>

fun finished :: "mission_task list \<Rightarrow> string list \<Rightarrow> bool" where
  "finished tasks [] = True"
| "finished tasks (x # xs) = (x \<notin> set xs \<and> set (deps_of tasks x) \<subseteq> set xs \<and> finished tasks xs)"

definition position :: "string list \<Rightarrow> string \<Rightarrow> nat" where
  "position vs a = length (dropWhile (\<lambda>x. x \<noteq> a) vs)"

lemma finished_edge:
  "finished tasks vs \<Longrightarrow> a \<in> set vs \<Longrightarrow> edge tasks a b \<Longrightarrow> b \<in> set vs \<and> position vs b < position vs a"
proof (induction vs)
  case (Cons x xs)
  have len: "position xs b \<le> length xs" by (simp add: position_def length_dropWhile_le)
  from Cons show ?case
    using len by (cases "a = x") (auto simp: edge_def position_def)
qed simp

lemma finished_path:
  "(edge tasks)\<^sup>+\<^sup>+ a b \<Longrightarrow> finished tasks vs \<Longrightarrow> a \<in> set vs \<Longrightarrow> b \<in> set vs \<and> position vs b < position vs a"
  by (induction rule: tranclp_induct) (auto dest: finished_edge)

lemma finished_acyclic:
  assumes "finished tasks vs" and "set (task_ids tasks) \<subseteq> set vs"
  shows "acyclic_tasks tasks"
proof -
  have "\<not> (edge tasks)\<^sup>+\<^sup>+ a a" for a
  proof
    assume path: "(edge tasks)\<^sup>+\<^sup>+ a a"
    then have "a \<in> set vs" using assms(2) by (auto dest: tranclpD edge_source)
    with finished_path [OF path assms(1)] show False by simp
  qed
  then show ?thesis by (simp add: acyclic_tasks_def)
qed

text \<open>
  The nodes being visited form a chain of edges, most recent first; meeting one of them again
  closes a cycle.
\<close>

definition chain :: "mission_task list \<Rightarrow> string list \<Rightarrow> bool" where
  "chain tasks path \<longleftrightarrow> successively (\<lambda>a b. edge tasks b a) path"

lemma chain_Cons: "chain tasks (a # b # path) \<longleftrightarrow> edge tasks b a \<and> chain tasks (b # path)"
  by (simp add: chain_def)

lemma chain_reaches: "chain tasks (a # path) \<Longrightarrow> b \<in> set path \<Longrightarrow> (edge tasks)\<^sup>+\<^sup>+ b a"
proof (induction path arbitrary: a)
  case (Cons x path)
  from Cons.prems have "edge tasks x a" and "chain tasks (x # path)" by (simp_all add: chain_Cons)
  with Cons show ?case by (cases "b = x") (auto intro: tranclp.trancl_into_trancl)
qed simp

end
