(* ===== verification/Mission_Engine.thy ===== *)
theory Mission_Engine
  imports Mission_Types
begin

text \<open>
  The mission engine (\<open>mission/mission-engine.ts\<close>): creating a mission, planning it with an
  injected planner whose plan is validated, and moving it along its lifecycle. Times are ISO strings
  compared by code units, as the source compares them.
\<close>

section \<open>Errors\<close>

datatype plan_defect =
  SummaryRequired
| NoTasks
| NoSuccessCriteria
| DuplicateTask string
| SelfDependency string
| TaskTitleRequired
| TaskObjectiveRequired
| RequirementIncomplete
| DuplicateRequirement string
| DependencyCycle string
| FieldRequired string
| TooFewSuccessCriteria
| DuplicateTaskKey string
| MissingTaskId string
| UnknownTaskKey string string
| NoEvidenceRequirements string
| KeyWithoutLetters

datatype mission_error =
  InvalidMissionInput string
| InvalidMissionTransition string mission_status mission_status
| InvalidMissionPlan plan_defect
| MissionTaskDependency string string
| PlannerFailure string

section \<open>Lifecycle\<close>

fun mission_transitions :: "mission_status \<Rightarrow> mission_status list" where
  "mission_transitions Draft = [Planned, Cancelled]"
| "mission_transitions Planned = [Active, Cancelled]"
| "mission_transitions Active = [Completed, Failed, Cancelled]"
| "mission_transitions Completed = []"
| "mission_transitions Failed = []"
| "mission_transitions Cancelled = []"

definition assertTransition :: "mission \<Rightarrow> mission_status \<Rightarrow> mission_error + unit" where
  "assertTransition m next =
     throw_if (next \<notin> set (mission_transitions (mission_status m)))
       (InvalidMissionTransition (mission_id m) (mission_status m) next)"

definition assertFresh :: "mission \<Rightarrow> string \<Rightarrow> mission_error + unit" where
  "assertFresh m updated_at = throw_if (updated_at \<le> mission_updated_at m) (InvalidMissionInput ''updatedAt'')"

definition transition :: "mission \<Rightarrow> mission_status \<Rightarrow> string \<Rightarrow> mission_error + mission" where
  "transition m next updated_at =
     rbind (assertTransition m next) (\<lambda>_.
     rbind (assertFresh m updated_at) (\<lambda>_.
     Inr (m\<lparr>mission_status := next, mission_updated_at := updated_at\<rparr>)))"

definition normalizeRequired :: "string \<Rightarrow> string \<Rightarrow> mission_error + string" where
  "normalizeRequired field s =
     (let normalized = trim s in
      if normalized = [] then Inl (InvalidMissionInput field) else Inr normalized)"

definition start_mission :: "mission \<Rightarrow> string \<Rightarrow> mission_error + mission" where
  "start_mission m updated_at = transition m Active updated_at"

definition complete_mission :: "mission \<Rightarrow> string \<Rightarrow> mission_error + mission" where
  "complete_mission m updated_at = transition m Completed updated_at"

definition fail_mission :: "mission \<Rightarrow> string \<Rightarrow> string \<Rightarrow> mission_error + mission" where
  "fail_mission m reason updated_at =
     rbind (normalizeRequired ''failureReason'' reason) (\<lambda>r.
     rbind (transition m Failed updated_at) (\<lambda>m'.
     Inr (m'\<lparr>failure_reason := Some r\<rparr>)))"

definition cancel_mission :: "mission \<Rightarrow> string \<Rightarrow> mission_error + mission" where
  "cancel_mission m updated_at = transition m Cancelled updated_at"

section \<open>Creation\<close>

definition normalizeConstraints :: "mission_constraint list option \<Rightarrow> mission_error + mission_constraint list" where
  "normalizeConstraints cs =
     map_res (\<lambda>c. rbind (normalizeRequired ''constraint.description'' (mc_description c)) (\<lambda>d.
       Inr \<lparr>mc_kind = mc_kind c, mc_description = d\<rparr>)) (case cs of None \<Rightarrow> [] | Some xs \<Rightarrow> xs)"

definition create_mission :: "create_mission_input \<Rightarrow> mission_error + mission" where
  "create_mission input =
     rbind (normalizeRequired ''title'' (cm_title input)) (\<lambda>title.
     rbind (normalizeRequired ''objective'' (cm_objective input)) (\<lambda>objective.
     rbind (normalizeConstraints (cm_constraints input)) (\<lambda>cs.
     Inr \<lparr>mission_id = cm_id input, mission_title = title, mission_objective = objective,
       mission_status = Draft, mission_constraints = cs, mission_plan = None, failure_reason = None,
       mission_created_at = cm_created_at input, mission_updated_at = cm_created_at input\<rparr>)))"

section \<open>Plan validation\<close>

fun check_requirements :: "string list \<Rightarrow> evidence_requirement list \<Rightarrow> mission_error + unit" where
  "check_requirements keys [] = Inr ()"
| "check_requirements keys (r # rs) =
     (let k = trim (er_key r) in
      if k = [] \<or> trim (er_description r) = [] then Inl (InvalidMissionPlan RequirementIncomplete)
      else if k \<in> set keys then Inl (InvalidMissionPlan (DuplicateRequirement k))
      else check_requirements (k # keys) rs)"

definition validateTask :: "mission_task \<Rightarrow> mission_error + unit" where
  "validateTask t =
     (if trim (task_title t) = [] then Inl (InvalidMissionPlan TaskTitleRequired)
      else if trim (task_objective t) = [] then Inl (InvalidMissionPlan TaskObjectiveRequired)
      else check_requirements [] (evidence_requirements t))"

text \<open>The first loop of \<open>validatePlan\<close>, which collects the ids.\<close>

fun check_tasks :: "string list \<Rightarrow> mission_task list \<Rightarrow> mission_error + string list" where
  "check_tasks ids [] = Inr ids"
| "check_tasks ids (t # ts) =
     rbind (validateTask t) (\<lambda>_.
       if task_id t \<in> set ids then Inl (InvalidMissionPlan (DuplicateTask (task_id t)))
       else check_tasks (task_id t # ids) ts)"

definition check_dependency :: "string list \<Rightarrow> mission_task \<Rightarrow> string \<Rightarrow> mission_error + unit" where
  "check_dependency ids t d =
     (if d \<notin> set ids then Inl (MissionTaskDependency (task_id t) d)
      else if d = task_id t then Inl (InvalidMissionPlan (SelfDependency (task_id t)))
      else Inr ())"

text \<open>
  The depth-first search of \<open>assertAcyclic\<close>. \<open>visiting\<close> holds exactly the nodes on the current path
  (a node is added before its dependencies and removed after them), so it is a parameter; \<open>visited\<close>
  is threaded through. The recursion stops because each level adds a task to the path.
\<close>

function (sequential) visit ::
    "mission_task list \<Rightarrow> string list \<Rightarrow> string list \<Rightarrow> string \<Rightarrow> mission_error + string list"
  and visit_all ::
    "mission_task list \<Rightarrow> string list \<Rightarrow> string list \<Rightarrow> string list \<Rightarrow> mission_error + string list" where
  "visit tasks visiting visited i =
     (if i \<in> set visited then Inr visited
      else if i \<in> set visiting then Inl (InvalidMissionPlan (DependencyCycle i))
      else rbind (visit_all tasks (i # visiting) visited (deps_of tasks i)) (\<lambda>visited'. Inr (i # visited')))"
| "visit_all tasks visiting visited [] = Inr visited"
| "visit_all tasks visiting visited (d # ds) =
     rbind (visit tasks visiting visited d) (\<lambda>visited'. visit_all tasks visiting visited' ds)"
  by pat_completeness auto
termination
proof (relation "measures [\<lambda>x. case x of Inl (tasks, visiting, visited, i) \<Rightarrow> card (set (task_ids tasks) - set visiting)
      | Inr (tasks, visiting, visited, ds) \<Rightarrow> card (set (task_ids tasks) - set visiting),
    \<lambda>x. case x of Inl _ \<Rightarrow> 1 | Inr (tasks, visiting, visited, ds) \<Rightarrow> 2 * length ds]", goal_cases)
  case 1
  show ?case by simp
next
  case (2 tasks visiting visited i)
  show ?case
  proof (cases "i \<in> set (task_ids tasks)")
    case True
    then have "set (task_ids tasks) - set (i # visiting) \<subset> set (task_ids tasks) - set visiting"
      using 2 by auto
    then have "card (set (task_ids tasks) - set (i # visiting)) < card (set (task_ids tasks) - set visiting)"
      by (intro psubset_card_mono) simp_all
    then show ?thesis by simp
  next
    case False
    then have "deps_of tasks i = []"
      using tasks_by_id_None [of tasks i] by (simp add: deps_of_def)
    moreover from False have "set (task_ids tasks) - set (i # visiting) = set (task_ids tasks) - set visiting"
      by auto
    ultimately show ?thesis by simp
  qed
qed simp_all

definition assertAcyclic :: "mission_task list \<Rightarrow> mission_error + unit" where
  "assertAcyclic tasks = rbind (visit_all tasks [] [] (task_ids tasks)) (\<lambda>_. Inr ())"

definition validatePlan :: "mission_plan \<Rightarrow> mission_error + unit" where
  "validatePlan p =
     rbind (throw_if (trim (plan_summary p) = []) (InvalidMissionPlan SummaryRequired)) (\<lambda>_.
     rbind (throw_if (plan_tasks p = []) (InvalidMissionPlan NoTasks)) (\<lambda>_.
     rbind (throw_if (plan_success_criteria p = []) (InvalidMissionPlan NoSuccessCriteria)) (\<lambda>_.
     rbind (check_tasks [] (plan_tasks p)) (\<lambda>ids.
     rbind (each_res (\<lambda>t. each_res (check_dependency ids t) (depends_on t)) (plan_tasks p)) (\<lambda>_.
     assertAcyclic (plan_tasks p))))))"

text \<open>\<open>plan\<close> calls the injected planner; what the planner throws is passed on.\<close>

definition plan_mission ::
  "(mission \<Rightarrow> mission_error + mission_plan) \<Rightarrow> mission \<Rightarrow> string \<Rightarrow> mission_error + mission" where
  "plan_mission planner m updated_at =
     rbind (assertTransition m Planned) (\<lambda>_.
     rbind (assertFresh m updated_at) (\<lambda>_.
     rbind (planner m) (\<lambda>p.
     rbind (validatePlan p) (\<lambda>_.
     Inr (m\<lparr>mission_status := Planned, mission_plan := Some p, mission_updated_at := updated_at\<rparr>)))))"

section \<open>The cycle search\<close>

declare visit.simps [simp del]

text \<open>A search that returns has listed its nodes in finishing order.\<close>

lemma visit_finished:
  "visit tasks visiting visited i = Inr vs \<Longrightarrow> finished tasks visited \<Longrightarrow> set visiting \<inter> set visited = {} \<Longrightarrow>
     finished tasks vs \<and> set visited \<subseteq> set vs \<and> i \<in> set vs \<and> set visiting \<inter> set vs = {}"
  "visit_all tasks visiting visited ds = Inr vs \<Longrightarrow> finished tasks visited \<Longrightarrow> set visiting \<inter> set visited = {} \<Longrightarrow>
     finished tasks vs \<and> set visited \<subseteq> set vs \<and> set ds \<subseteq> set vs \<and> set visiting \<inter> set vs = {}"
proof (induction tasks visiting visited i and tasks visiting visited ds arbitrary: vs and vs
    rule: visit_visit_all.induct)
  case (1 tasks visiting visited i)
  show ?case
  proof (cases "i \<in> set visited")
    case True
    with "1.prems" show ?thesis by (simp add: visit.simps)
  next
    case False
    with "1.prems"(1) obtain vs' where new: "i \<notin> set visiting"
      and all: "visit_all tasks (i # visiting) visited (deps_of tasks i) = Inr vs'" and vs: "vs = i # vs'"
      by (auto simp: visit.simps [of tasks visiting] rbind_Inr_iff split: if_splits)
    from "1.IH" [OF False new all "1.prems"(2)] "1.prems"(3) False
    have "finished tasks vs'" "set visited \<subseteq> set vs'" "set (deps_of tasks i) \<subseteq> set vs'"
      "set (i # visiting) \<inter> set vs' = {}"
      by auto
    with new vs show ?thesis by auto
  qed
next
  case (2 tasks visiting visited)
  then show ?case by simp
next
  case (3 tasks visiting visited d ds)
  from "3.prems"(1) obtain us where one: "visit tasks visiting visited d = Inr us"
    and rest: "visit_all tasks visiting us ds = Inr vs"
    by (auto simp: rbind_Inr_iff)
  from "3.IH"(1) [OF one "3.prems"(2,3)] have us: "finished tasks us" "set visited \<subseteq> set us" "d \<in> set us"
    "set visiting \<inter> set us = {}" by auto
  from "3.IH"(2) [OF one rest us(1) us(4)] us show ?case by auto
qed

text \<open>A search that throws has closed a cycle.\<close>

lemma visit_cycle:
  "visit tasks visiting visited i = Inl e \<Longrightarrow> chain tasks (i # visiting) \<Longrightarrow>
     \<exists>c. e = InvalidMissionPlan (DependencyCycle c) \<and> (edge tasks)\<^sup>+\<^sup>+ c c"
  "visit_all tasks visiting visited ds = Inl e \<Longrightarrow> (\<forall>d\<in>set ds. chain tasks (d # visiting)) \<Longrightarrow>
     \<exists>c. e = InvalidMissionPlan (DependencyCycle c) \<and> (edge tasks)\<^sup>+\<^sup>+ c c"
proof (induction tasks visiting visited i and tasks visiting visited ds rule: visit_visit_all.induct)
  case (1 tasks visiting visited i)
  from "1.prems"(1) have new: "i \<notin> set visited" by (auto simp: visit.simps)
  show ?case
  proof (cases "i \<in> set visiting")
    case True
    with "1.prems" new show ?thesis by (auto simp: visit.simps dest: chain_reaches)
  next
    case False
    with "1.prems"(1) new have "visit_all tasks (i # visiting) visited (deps_of tasks i) = Inl e"
      by (auto simp: visit.simps [of tasks visiting] rbind_Inl_iff)
    moreover have "\<forall>d\<in>set (deps_of tasks i). chain tasks (d # i # visiting)"
      using "1.prems"(2) by (simp add: chain_Cons edge_def)
    ultimately show ?thesis using "1.IH" [OF new False] by blast
  qed
qed (auto simp: rbind_Inl_iff)

lemma assertAcyclic_iff: "assertAcyclic tasks = Inr () \<longleftrightarrow> acyclic_tasks tasks"
proof
  assume "assertAcyclic tasks = Inr ()"
  then obtain vs where "visit_all tasks [] [] (task_ids tasks) = Inr vs"
    by (auto simp: assertAcyclic_def rbind_Inr_iff)
  from visit_finished(2) [OF this] show "acyclic_tasks tasks"
    by (auto intro: finished_acyclic)
next
  assume acyclic: "acyclic_tasks tasks"
  show "assertAcyclic tasks = Inr ()"
  proof (cases "visit_all tasks [] [] (task_ids tasks)")
    case (Inl e)
    from visit_cycle(2) [OF Inl] acyclic show ?thesis by (auto simp: chain_def acyclic_tasks_def)
  qed (simp add: assertAcyclic_def)
qed

lemma check_tasks_Inr:
  "check_tasks ids ts = Inr ids' \<longleftrightarrow>
     ids' = rev (task_ids ts) @ ids \<and> (\<forall>t\<in>set ts. validateTask t = Inr ()) \<and> distinct (task_ids ts)
     \<and> set (task_ids ts) \<inter> set ids = {}"
  by (induction ts arbitrary: ids) (auto simp: rbind_Inr_iff task_ids_def)

lemma check_dependency_Inr: "check_dependency ids t d = Inr u \<longleftrightarrow> d \<in> set ids \<and> d \<noteq> task_id t"
  by (auto simp: check_dependency_def)

text \<open>What a validated plan is.\<close>

definition well_formed_plan :: "mission_plan \<Rightarrow> bool" where
  "well_formed_plan p \<longleftrightarrow>
     trim (plan_summary p) \<noteq> [] \<and> plan_tasks p \<noteq> [] \<and> plan_success_criteria p \<noteq> []
     \<and> (\<forall>t\<in>set (plan_tasks p). validateTask t = Inr ())
     \<and> distinct (task_ids (plan_tasks p))
     \<and> (\<forall>t\<in>set (plan_tasks p). set (depends_on t) \<subseteq> set (task_ids (plan_tasks p)) - {task_id t})
     \<and> acyclic_tasks (plan_tasks p)"

lemma validatePlan_Inr: "validatePlan p = Inr () \<longleftrightarrow> well_formed_plan p"
  by (auto simp: validatePlan_def well_formed_plan_def rbind_Inr_iff check_tasks_Inr each_res_Inr_iff
      check_dependency_Inr assertAcyclic_iff)


text \<open>
  The cycle search reports a cycle only where there is one: the task it names reaches itself.
\<close>

theorem assertAcyclic_reports_cycles:
  assumes "assertAcyclic tasks = Inl e"
  shows "\<exists>c. e = InvalidMissionPlan (DependencyCycle c) \<and> (edge tasks)\<^sup>+\<^sup>+ c c"
  using assms visit_cycle(2) [of tasks "[]" "[]" "task_ids tasks" e]
  by (auto simp: assertAcyclic_def rbind_Inl_iff chain_def)

definition simple_task :: "string \<Rightarrow> string list \<Rightarrow> mission_task" where
  "simple_task i ds = \<lparr>task_id = i, task_title = ''t'', task_objective = ''o'', task_status = TaskPending,
     depends_on = ds, evidence_requirements = []\<rparr>"

theorem assertAcyclic_reports_cycles_witness:
  "\<exists>c. (edge [simple_task ''a'' [''b''], simple_task ''b'' [''a'']])\<^sup>+\<^sup>+ c c"
proof -
  have "assertAcyclic [simple_task ''a'' [''b''], simple_task ''b'' [''a'']]
      = Inl (InvalidMissionPlan (DependencyCycle ''a''))"
    by (simp add: assertAcyclic_def visit.simps task_ids_def simple_task_def deps_of_def tasks_by_id_def)
  from assertAcyclic_reports_cycles [OF this] show ?thesis by blast
qed

section \<open>Missions in use\<close>

text \<open>One step of a mission: a call of the engine that returned.\<close>

inductive mission_step :: "mission \<Rightarrow> mission \<Rightarrow> bool" where
  step_plan: "plan_mission planner m now = Inr m' \<Longrightarrow> mission_step m m'"
| step_start: "start_mission m now = Inr m' \<Longrightarrow> mission_step m m'"
| step_complete: "complete_mission m now = Inr m' \<Longrightarrow> mission_step m m'"
| step_fail: "fail_mission m reason now = Inr m' \<Longrightarrow> mission_step m m'"
| step_cancel: "cancel_mission m now = Inr m' \<Longrightarrow> mission_step m m'"

lemma transition_Inr:
  "transition m next now = Inr m' \<longleftrightarrow>
     next \<in> set (mission_transitions (mission_status m)) \<and> mission_updated_at m < now
     \<and> m' = m\<lparr>mission_status := next, mission_updated_at := now\<rparr>"
  by (auto simp: transition_def assertTransition_def assertFresh_def rbind_Inr_iff not_le)

lemma plan_mission_Inr:
  "plan_mission planner m now = Inr m' \<longleftrightarrow>
     (\<exists>p. planner m = Inr p \<and> well_formed_plan p \<and> Planned \<in> set (mission_transitions (mission_status m))
        \<and> mission_updated_at m < now
        \<and> m' = m\<lparr>mission_status := Planned, mission_plan := Some p, mission_updated_at := now\<rparr>)"
  by (auto simp: plan_mission_def assertTransition_def assertFresh_def rbind_Inr_iff not_le validatePlan_Inr)

lemma normalizeRequired_Inr: "normalizeRequired f s = Inr n \<longleftrightarrow> n = trim s \<and> n \<noteq> []"
  by (auto simp: normalizeRequired_def Let_def)

lemma fail_mission_Inr:
  "fail_mission m reason now = Inr m' \<longleftrightarrow>
     trim reason \<noteq> [] \<and> mission_status m = Active \<and> mission_updated_at m < now
     \<and> m' = m\<lparr>mission_status := Failed, failure_reason := Some (trim reason), mission_updated_at := now\<rparr>"
  by (cases "mission_status m") (auto simp: fail_mission_def rbind_Inr_iff transition_Inr normalizeRequired_Inr)

lemmas mission_operations =
  plan_mission_Inr fail_mission_Inr transition_Inr start_mission_def complete_mission_def cancel_mission_def

inductive_cases mission_stepE: "mission_step m m'"

definition mission_terminal :: "mission_status \<Rightarrow> bool" where
  "mission_terminal s \<longleftrightarrow> s \<in> {Completed, Failed, Cancelled}"

fun mission_rank :: "mission_status \<Rightarrow> nat" where
  "mission_rank Draft = 0"
| "mission_rank Planned = 1"
| "mission_rank Active = 2"
| "mission_rank _ = 3"

interpretation mission_life: ranked_lifecycle mission_transitions mission_terminal mission_rank
proof
  fix s t :: mission_status
  show "mission_terminal s \<longleftrightarrow> mission_transitions s = []"
    by (cases s) (simp_all add: mission_terminal_def)
  show "t \<in> set (mission_transitions s) \<Longrightarrow> mission_rank s < mission_rank t"
    by (cases s) auto
qed

text \<open>
  The invariant of a mission: what has been planned is a validated plan, a failed mission carries a
  reason and only a failed one does, and the time of the last change is not before the creation.
\<close>

definition mission_inv :: "mission \<Rightarrow> bool" where
  "mission_inv m \<longleftrightarrow>
     (mission_status m = Draft \<longrightarrow> mission_plan m = None)
     \<and> (mission_status m \<in> {Planned, Active, Completed, Failed} \<longrightarrow> mission_plan m \<noteq> None)
     \<and> (\<forall>p. mission_plan m = Some p \<longrightarrow> well_formed_plan p)
     \<and> (mission_status m = Failed \<longleftrightarrow> failure_reason m \<noteq> None)
     \<and> (\<forall>r. failure_reason m = Some r \<longrightarrow> r \<noteq> [])
     \<and> mission_created_at m \<le> mission_updated_at m"

lemma create_mission_inv: "create_mission input = Inr m \<Longrightarrow> mission_inv m \<and> mission_status m = Draft"
  by (auto simp: create_mission_def rbind_Inr_iff mission_inv_def)

lemma mission_step_status:
  "mission_step m m' \<Longrightarrow> mission_status m' \<in> set (mission_transitions (mission_status m))
     \<and> mission_updated_at m < mission_updated_at m' \<and> mission_id m' = mission_id m"
  by (auto elim!: mission_stepE simp: mission_operations)

lemma mission_step_inv:
  assumes "mission_step m m'" and "mission_inv m"
  shows "mission_inv m'"
proof -
  from mission_step_status [OF assms(1)] assms(2)
  have "mission_created_at m \<le> mission_updated_at m'" by (auto simp: mission_inv_def)
  then show ?thesis using assms
    by (cases "mission_status m") (auto elim!: mission_stepE simp: mission_operations mission_inv_def)
qed

lemma mission_steps_life:
  "mission_step\<^sup>*\<^sup>* m m' \<Longrightarrow>
     (\<lambda>a b. b \<in> set (mission_transitions a))\<^sup>*\<^sup>* (mission_status m) (mission_status m')"
  by (induction rule: rtranclp_induct) (auto dest: mission_step_status intro: rtranclp.rtrancl_into_rtrancl)

lemma mission_reach_inv: "mission_step\<^sup>*\<^sup>* m m' \<Longrightarrow> mission_inv m \<Longrightarrow> mission_inv m'"
  by (induction rule: rtranclp_induct) (auto intro: mission_step_inv)

text \<open>
  Every mission the engine can produce satisfies the invariant: whatever calls follow its
  creation, a mission that is planned, active, completed or failed has a validated (hence acyclic)
  plan, and exactly the failed missions carry a failure reason, never an empty one.
\<close>

theorem mission_reachable_inv:
  assumes "create_mission input = Inr m" and "mission_step\<^sup>*\<^sup>* m m'"
  shows "mission_inv m'"
  using mission_reach_inv [OF assms(2)] create_mission_inv [OF assms(1)] by blast

text \<open>
  The lifecycle is one way: a step moves the status along the table and the clock strictly
  forward, no status is ever met twice, and a completed, failed or cancelled mission takes no step.
\<close>

theorem mission_one_way:
  assumes "mission_step m m'"
  shows "mission_rank (mission_status m) < mission_rank (mission_status m')
    \<and> mission_updated_at m < mission_updated_at m'
    \<and> \<not> mission_terminal (mission_status m)
    \<and> (\<forall>m''. mission_step\<^sup>*\<^sup>* m' m'' \<longrightarrow> mission_status m'' \<noteq> mission_status m)"
proof -
  note step = mission_step_status [OF assms]
  have "mission_status m'' \<noteq> mission_status m" if "mission_step\<^sup>*\<^sup>* m' m''" for m''
    using step mission_steps_life [OF that] mission_life.no_return [of "mission_status m"]
    by (metis (mono_tags, lifting) rtranclp_into_tranclp2)
  with step mission_life.step_rank mission_life.terminal_no_step show ?thesis by blast
qed

definition sample_plan :: mission_plan where
  "sample_plan = \<lparr>plan_summary = ''s'', plan_tasks = [simple_task ''a'' [], simple_task ''b'' [''a'']],
     plan_success_criteria = [''c''], plan_stop_conditions = []\<rparr>"

definition sample_mission :: mission where
  "sample_mission = \<lparr>mission_id = ''m'', mission_title = ''t'', mission_objective = ''o'',
     mission_status = Draft, mission_constraints = [], mission_plan = None, failure_reason = None,
     mission_created_at = ''1'', mission_updated_at = ''1''\<rparr>"

lemma sample_plan_ok: "validatePlan sample_plan = Inr ()"
  by (simp add: validatePlan_def sample_plan_def simple_task_def validateTask_def check_dependency_def
      assertAcyclic_def visit.simps task_ids_def deps_of_def tasks_by_id_def trim_def js_space_def)

lemma sample_created:
  "create_mission \<lparr>cm_id = ''m'', cm_title = '' t '', cm_objective = ''o'', cm_constraints = None,
     cm_created_at = ''1''\<rparr> = Inr sample_mission"
  by code_simp

lemma sample_step:
  "mission_step sample_mission
     (sample_mission\<lparr>mission_status := Planned, mission_plan := Some sample_plan, mission_updated_at := ''2''\<rparr>)"
  by (rule step_plan [where planner = "\<lambda>_. Inr sample_plan" and now = "''2''"])
    (simp add: plan_mission_Inr sample_plan_ok [unfolded validatePlan_Inr], simp add: sample_mission_def)

theorem mission_reachable_inv_witness:
  "mission_inv (sample_mission\<lparr>mission_status := Planned, mission_plan := Some sample_plan,
     mission_updated_at := ''2''\<rparr>)"
  using mission_reachable_inv [OF sample_created] sample_step by blast

theorem mission_one_way_witness: "\<not> mission_terminal (mission_status sample_mission)"
  using mission_one_way [OF sample_step] by blast

end
