(* ===== verification/Goal_Contract.thy ===== *)
theory Goal_Contract
  imports Kernel_Prelude
begin

text \<open>
  The Goal contract (\<open>goal/goal-contract.ts\<close>): what a user has allowed and forbidden. Optional
  lists are \<open>option\<close>s, since the readers write \<open>xs ?? []\<close>. Numbers that no modelled operation
  reads (budgets, durations, retention) stay as \<open>js_number\<close>. The free-form \<open>metadata\<close> and the
  revision diffs, which no operation reads, are left out.
\<close>

datatype goal_status = GoalActive | GoalPaused | GoalCompleted | GoalFailed | GoalCancelled
datatype autonomy_level = Assisted | SemiAutonomous | FullyAutonomous
datatype approval_policy = PolicyNone | PolicyCheckpoints | PolicyAllActions | PolicyCustom
datatype notification_policy = NotifyNone | NotifyOnCompletion | NotifyOnCheckpoint | NotifyAll
datatype memory_policy = MemoryNone | LearnPreferences | FullContext

record goal_constraints =
  max_budget :: "js_number option"
  max_duration_ms :: "js_number option"
  max_missions :: "js_number option"
  max_concurrent_missions :: "js_number option"
  allowed_domains :: "string list option"
  forbidden_domains :: "string list option"
  constrained_capabilities :: "string list option"
  constrained_forbidden_capabilities :: "string list option"
  constrained_data_scopes :: "string list option"
  constrained_forbidden_data_scopes :: "string list option"
  constrained_forbidden_actions :: "string list option"

record goal_approval_config =
  approval_policy :: approval_policy
  required_approvers :: "string list option"
  checkpoint_ids :: "string list option"
  custom_policy_ref :: "string option"

record goal_notification_config =
  notification_policy :: notification_policy
  notification_channels :: "string list option"
  notification_on_events :: "string list option"

record goal_memory_config =
  memory_policy :: memory_policy
  memory_scope_ids :: "string list option"
  memory_retention_ms :: "js_number option"

datatype termination_kind =
  Deadline | BudgetExhausted | MaxMissions | SuccessCriteriaMet | Manual | ErrorThreshold

datatype termination_value = TermString string | TermNumber js_number

record goal_termination =
  term_kind :: termination_kind
  term_value :: "termination_value option"

record goal_revision =
  goal_rev :: nat
  goal_rev_changed_at :: string
  goal_rev_changed_by :: string

datatype goal_frequency = Once | Daily | Weekly | Monthly | Cron

record universal_goal =
  goal_contract_version :: nat
  goal_id :: string
  goal_title :: string
  goal_description :: "string option"
  desired_outcome :: string
  success_criteria :: "string list"
  goal_constraints :: goal_constraints
  goal_deadline :: "string option"
  goal_budget :: "js_number option"
  goal_frequency :: "goal_frequency option"
  allowed_capabilities :: "string list"
  forbidden_capabilities :: "string list"
  allowed_data_scopes :: "string list"
  forbidden_actions :: "string list"
  autonomy_level :: autonomy_level
  approval_config :: goal_approval_config
  notification_config :: goal_notification_config
  memory_config :: goal_memory_config
  termination_conditions :: "goal_termination list"
  created_revision :: goal_revision
  current_revision :: goal_revision
  goal_status :: goal_status
  goal_created_at :: string
  goal_updated_at :: string

text \<open>A list the source reads as \<open>xs ?? []\<close>.\<close>

definition or_nil :: "'a list option \<Rightarrow> 'a list" where
  "or_nil xs = (case xs of None \<Rightarrow> [] | Some ys \<Rightarrow> ys)"

lemma or_nil_simps [simp]: "or_nil None = []" "or_nil (Some xs) = xs"
  by (simp_all add: or_nil_def)

definition no_constraints :: goal_constraints where
  "no_constraints = \<lparr>max_budget = None, max_duration_ms = None, max_missions = None,
     max_concurrent_missions = None, allowed_domains = None, forbidden_domains = None,
     constrained_capabilities = None, constrained_forbidden_capabilities = None,
     constrained_data_scopes = None, constrained_forbidden_data_scopes = None,
     constrained_forbidden_actions = None\<rparr>"

section \<open>Legacy goals\<close>

datatype legacy_status = LegacyActive | LegacyPaused | LegacyCompleted

record legacy_goal =
  legacy_id :: string
  legacy_title :: string
  legacy_categories :: "string list"
  legacy_keywords :: "string list"
  legacy_location :: "string option"
  legacy_priority :: js_number
  legacy_status :: legacy_status
  legacy_created_at :: string
  legacy_revision :: "nat option"
  legacy_revised_at :: "string option"

definition status_of_legacy :: "legacy_status \<Rightarrow> goal_status" where
  "status_of_legacy s = (case s of LegacyActive \<Rightarrow> GoalActive | LegacyPaused \<Rightarrow> GoalPaused
     | LegacyCompleted \<Rightarrow> GoalCompleted)"

text \<open>\<open>now\<close> is the clock reading \<open>new Date().toISOString()\<close>.\<close>

definition migrateLegacyToUniversal :: "string \<Rightarrow> legacy_goal \<Rightarrow> string \<Rightarrow> universal_goal" where
  "migrateLegacyToUniversal now legacy changed_by =
     \<lparr>goal_contract_version = 2,
      goal_id = legacy_id legacy,
      goal_title = legacy_title legacy,
      goal_description = None,
      desired_outcome = legacy_title legacy,
      success_criteria = [''Any relevant public finding returned and verified''],
      goal_constraints = no_constraints\<lparr>constrained_capabilities := Some [''public_web_research''],
        constrained_forbidden_capabilities := Some []\<rparr>,
      goal_deadline = None,
      goal_budget = None,
      goal_frequency = Some Once,
      allowed_capabilities = [''public_web_research''],
      forbidden_capabilities = [],
      allowed_data_scopes = [''public_web''],
      forbidden_actions = [''purchase'', ''submit'', ''login'', ''outreach'', ''download'', ''destructive''],
      autonomy_level = Assisted,
      approval_config = \<lparr>approval_policy = PolicyNone, required_approvers = None,
        checkpoint_ids = None, custom_policy_ref = None\<rparr>,
      notification_config = \<lparr>notification_policy = NotifyNone, notification_channels = None,
        notification_on_events = None\<rparr>,
      memory_config = \<lparr>memory_policy = LearnPreferences, memory_scope_ids = None,
        memory_retention_ms = None\<rparr>,
      termination_conditions =
        [\<lparr>term_kind = MaxMissions, term_value = Some (TermNumber (Fin 1))\<rparr>,
         \<lparr>term_kind = SuccessCriteriaMet, term_value = None\<rparr>],
      created_revision = \<lparr>goal_rev = 1, goal_rev_changed_at = legacy_created_at legacy,
        goal_rev_changed_by = ''legacy''\<rparr>,
      current_revision = \<lparr>goal_rev = 1, goal_rev_changed_at = now, goal_rev_changed_by = changed_by\<rparr>,
      goal_status = status_of_legacy (legacy_status legacy),
      goal_created_at = legacy_created_at legacy,
      goal_updated_at = now\<rparr>"

end
