(* ===== verification/Capability.thy ===== *)
theory Capability
  imports Goal_Contract
begin

text \<open>
  The capability registry (\<open>capability/capability-registry.ts\<close>) and the authorization contexts
  its callers build from a Goal (\<open>capability-gated-proposed-plan-service.ts\<close>,
  \<open>plan-risk-assessor.ts\<close>, \<open>execution-engine.ts\<close>). The registry is an insertion-ordered map from
  capability ids to validated definitions.
\<close>

section \<open>Data\<close>

datatype capability_risk = R0_observe | R1_reversible | R2_external | R3_irreversible
datatype capability_health = Available | Degraded | Unavailable
datatype consent_policy = ConsentNone | ConsentPolicy | ConsentAlways

record capability_definition =
  cap_id :: string
  cap_version :: string
  cap_provider :: string
  cap_risk :: capability_risk
  cap_consent :: consent_policy
  cap_data_scopes :: "string list"
  cap_credential_scopes :: "string list"
  cap_health :: capability_health
  cap_description :: "string option"

record capability_request =
  req_capability :: string
  req_version :: "string option"

record authorization_context =
  ctx_plan_id :: string
  ctx_allowed_capabilities :: "string list"
  ctx_forbidden_capabilities :: "string list"
  ctx_allowed_scopes :: "string list"
  ctx_forbidden_scopes :: "string list"

record authorized_capability =
  auth_definition :: capability_definition
  auth_requires_consent :: bool

datatype denial_reason =
  NotAllowedByGoal | ForbiddenByGoal | ForbiddenDataScope string | DataScopeNotAllowed string

datatype capability_error =
  CapabilityNotFound string
| CapabilityVersionMismatch string string string
| CapabilityUnavailable string capability_health
| CapabilityDenied string denial_reason
| InvalidCapabilityDefinition string

type_synonym capability_registry = "(string \<times> capability_definition) list"

section \<open>Validation\<close>

definition clean_capability :: "string \<Rightarrow> string \<Rightarrow> capability_error + string" where
  "clean_capability s field =
     (let normalized = trim s in
      if normalized = [] \<or> length normalized > 200 \<or> list_ex js_control normalized
      then Inl (InvalidCapabilityDefinition field)
      else Inr normalized)"

definition uniqueClean :: "string list \<Rightarrow> string \<Rightarrow> capability_error + string list" where
  "uniqueClean values field =
     rbind (map_res (\<lambda>v. clean_capability v field) values) (\<lambda>normalized.
       if length (uniq normalized) \<noteq> length normalized
       then Inl (InvalidCapabilityDefinition field)
       else Inr normalized)"

text \<open>
  The membership tests of risk, consent and health in the enumerations always succeed on the typed
  values of the model.
\<close>

definition validateAndCloneDefinition :: "capability_definition \<Rightarrow> capability_error + capability_definition" where
  "validateAndCloneDefinition d =
     rbind (clean_capability (cap_id d) ''id'') (\<lambda>cid.
     rbind (clean_capability (cap_version d) ''version'') (\<lambda>ver.
     rbind (clean_capability (cap_provider d) ''provider'') (\<lambda>prov.
     rbind (uniqueClean (cap_data_scopes d) ''allowedDataScopes'') (\<lambda>scopes.
     rbind (uniqueClean (cap_credential_scopes d) ''credentialScopes'') (\<lambda>creds.
     rbind (case cap_description d of None \<Rightarrow> Inr None
            | Some t \<Rightarrow> rbind (clean_capability t ''description'') (\<lambda>t'. Inr (Some t'))) (\<lambda>descr.
     Inr \<lparr>cap_id = cid, cap_version = ver, cap_provider = prov, cap_risk = cap_risk d,
       cap_consent = cap_consent d, cap_data_scopes = scopes, cap_credential_scopes = creds,
       cap_health = cap_health d, cap_description = descr\<rparr>))))))"

section \<open>Registry operations\<close>

definition register :: "capability_definition \<Rightarrow> capability_registry \<Rightarrow> capability_error + capability_registry" where
  "register d reg =
     rbind (validateAndCloneDefinition d) (\<lambda>n.
       if map_of reg (cap_id n) \<noteq> None then Inl (InvalidCapabilityDefinition ''id'')
       else Inr (AList.update (cap_id n) n reg))"

text \<open>The constructor registers its definitions one by one.\<close>

primrec register_all :: "capability_definition list \<Rightarrow> capability_registry \<Rightarrow> capability_error + capability_registry" where
  "register_all [] reg = Inr reg"
| "register_all (d # ds) reg = rbind (register d reg) (register_all ds)"

definition get_capability :: "string \<Rightarrow> capability_registry \<Rightarrow> capability_error + capability_definition option" where
  "get_capability c reg = rbind (clean_capability c ''capabilityId'') (\<lambda>cid. Inr (map_of reg cid))"

definition list_capabilities :: "string comparator \<Rightarrow> capability_registry \<Rightarrow> capability_definition list" where
  "list_capabilities lc reg = sort_by (key cap_id lc) (map snd reg)"

text \<open>The loop over the scopes a capability uses.\<close>

definition check_scope :: "string \<Rightarrow> authorization_context \<Rightarrow> string \<Rightarrow> capability_error + unit" where
  "check_scope cid ctx scope =
     (if scope \<in> set (ctx_forbidden_scopes ctx) then Inl (CapabilityDenied cid (ForbiddenDataScope scope))
      else if ctx_allowed_scopes ctx \<noteq> [] \<and> scope \<notin> set (ctx_allowed_scopes ctx)
      then Inl (CapabilityDenied cid (DataScopeNotAllowed scope))
      else Inr ())"

definition authorize ::
  "capability_registry \<Rightarrow> capability_request \<Rightarrow> authorization_context \<Rightarrow> capability_error + authorized_capability" where
  "authorize reg request ctx =
     rbind (clean_capability (req_capability request) ''capabilityId'') (\<lambda>cid.
     case map_of reg cid of
       None \<Rightarrow> Inl (CapabilityNotFound cid)
     | Some d \<Rightarrow>
         rbind (case req_version request of
             None \<Rightarrow> Inr ()
           | Some v \<Rightarrow> rbind (clean_capability v ''version'') (\<lambda>v'.
               throw_if (v' \<noteq> cap_version d) (CapabilityVersionMismatch cid v (cap_version d)))) (\<lambda>_.
         rbind (throw_if (cap_health d \<noteq> Available) (CapabilityUnavailable cid (cap_health d))) (\<lambda>_.
         rbind (throw_if (cid \<notin> set (ctx_allowed_capabilities ctx)) (CapabilityDenied cid NotAllowedByGoal)) (\<lambda>_.
         rbind (throw_if (cid \<in> set (ctx_forbidden_capabilities ctx)) (CapabilityDenied cid ForbiddenByGoal)) (\<lambda>_.
         rbind (each_res (check_scope cid ctx) (cap_data_scopes d)) (\<lambda>_.
         Inr \<lparr>auth_definition = d, auth_requires_consent = cap_consent d \<noteq> ConsentNone\<rparr>))))))"

section \<open>The authorization contexts of the callers\<close>

text \<open>\<open>CapabilityGatedProposedPlanService\<close>.\<close>

definition intersection_cap :: "string list \<Rightarrow> string list \<Rightarrow> string list" where
  "intersection_cap primary constrained =
     (if constrained = [] then uniq primary else uniq (filter (\<lambda>v. v \<in> set constrained) primary))"

definition gated_context :: "string \<Rightarrow> universal_goal \<Rightarrow> authorization_context" where
  "gated_context plan_id goal =
     \<lparr>ctx_plan_id = plan_id,
      ctx_allowed_capabilities = intersection_cap (allowed_capabilities goal)
        (or_nil (constrained_capabilities (goal_constraints goal))),
      ctx_forbidden_capabilities = uniq (forbidden_capabilities goal
        @ or_nil (constrained_forbidden_capabilities (goal_constraints goal))),
      ctx_allowed_scopes = intersection_cap (allowed_data_scopes goal)
        (or_nil (constrained_data_scopes (goal_constraints goal))),
      ctx_forbidden_scopes = uniq (or_nil (constrained_forbidden_data_scopes (goal_constraints goal)))\<rparr>"

definition authorizeRequests ::
  "capability_registry \<Rightarrow> capability_request list \<Rightarrow> universal_goal \<Rightarrow> string \<Rightarrow> capability_error + unit" where
  "authorizeRequests reg requests goal plan_id =
     each_res (\<lambda>r. rbind (authorize reg r (gated_context plan_id goal)) (\<lambda>_. Inr ())) requests"

text \<open>\<open>PlanRiskAssessor\<close> and \<open>ExecutionEngine\<close> each have a copy of the same function.\<close>

definition constrained_list :: "string list \<Rightarrow> string list \<Rightarrow> string list" where
  "constrained_list primary constrained =
     (if constrained = [] then primary else filter (\<lambda>v. v \<in> set constrained) primary)"

definition authorizationContext :: "string \<Rightarrow> universal_goal \<Rightarrow> authorization_context" where
  "authorizationContext plan_id goal =
     \<lparr>ctx_plan_id = plan_id,
      ctx_allowed_capabilities = constrained_list (allowed_capabilities goal)
        (or_nil (constrained_capabilities (goal_constraints goal))),
      ctx_forbidden_capabilities = uniq (forbidden_capabilities goal
        @ or_nil (constrained_forbidden_capabilities (goal_constraints goal))),
      ctx_allowed_scopes = constrained_list (allowed_data_scopes goal)
        (or_nil (constrained_data_scopes (goal_constraints goal))),
      ctx_forbidden_scopes = uniq (or_nil (constrained_forbidden_data_scopes (goal_constraints goal)))\<rparr>"

section \<open>Validated names\<close>

lemma clean_capability_Inr [result_simps]:
  "clean_capability s f = Inr n \<longleftrightarrow>
     n = trim s \<and> n \<noteq> [] \<and> length n \<le> 200 \<and> \<not> list_ex js_control n"
  unfolding clean_capability_def Let_def by (auto split: if_split_asm)

lemma clean_capability_fixpoint: "clean_capability s f = Inr n \<Longrightarrow> clean_capability n g = Inr n"
  by (auto simp: clean_capability_Inr)

lemma map_res_fixpoint:
  assumes "map_res f xs = Inr ys" and "\<And>x y. f x = Inr y \<Longrightarrow> f y = Inr y"
  shows "map_res f ys = Inr ys"
  using assms by (induction xs arbitrary: ys) (auto simp: rbind_Inr_iff)

lemma uniqueClean_Inr:
  "uniqueClean vs f = Inr ns \<longleftrightarrow> map_res (\<lambda>v. clean_capability v f) vs = Inr ns \<and> distinct ns"
  by (auto simp: uniqueClean_def rbind_Inr_iff)

lemma uniqueClean_fixpoint: "uniqueClean vs f = Inr ns \<Longrightarrow> uniqueClean ns f = Inr ns"
  by (auto simp: uniqueClean_Inr intro: map_res_fixpoint clean_capability_fixpoint)

text \<open>A definition is in normal form when validating it again changes nothing.\<close>

definition normal_definition :: "capability_definition \<Rightarrow> bool" where
  "normal_definition d \<longleftrightarrow> validateAndCloneDefinition d = Inr d"

lemma validateAndCloneDefinition_normal:
  "validateAndCloneDefinition d = Inr n \<Longrightarrow> normal_definition n"
  unfolding normal_definition_def validateAndCloneDefinition_def
  by (auto simp: rbind_Inr_iff dest: clean_capability_fixpoint uniqueClean_fixpoint split: option.splits)

lemma normal_definition_id: "normal_definition d \<Longrightarrow> trim (cap_id d) = cap_id d"
  unfolding normal_definition_def validateAndCloneDefinition_def
  by (auto simp: rbind_Inr_iff clean_capability_Inr dest!: arg_cong [where f = cap_id])

section \<open>The registry invariant\<close>

definition registry_inv :: "capability_registry \<Rightarrow> bool" where
  "registry_inv reg \<longleftrightarrow>
     distinct (map fst reg) \<and> (\<forall>k d. map_of reg k = Some d \<longrightarrow> cap_id d = k \<and> normal_definition d)"

lemma registry_inv_Nil [simp]: "registry_inv []"
  by (simp add: registry_inv_def)

lemma registry_invD:
  "registry_inv reg \<Longrightarrow> map_of reg k = Some d \<Longrightarrow> cap_id d = k \<and> normal_definition d"
  by (simp add: registry_inv_def)

lemma register_inv: "registry_inv reg \<Longrightarrow> register d reg = Inr reg' \<Longrightarrow> registry_inv reg'"
  by (auto simp: registry_inv_def register_def rbind_Inr_iff map_of_alist_update
      validateAndCloneDefinition_normal distinct_update split: if_splits)

lemma register_all_inv: "registry_inv reg \<Longrightarrow> register_all ds reg = Inr reg' \<Longrightarrow> registry_inv reg'"
  by (induction ds arbitrary: reg) (auto simp: rbind_Inr_iff intro: register_inv)

lemma register_lookup:
  assumes "register d reg = Inr reg'"
  shows "map_of reg (trim (cap_id d)) = None"
    and "\<exists>n. validateAndCloneDefinition d = Inr n \<and> map_of reg' = (map_of reg)(trim (cap_id d) \<mapsto> n)"
proof -
  from assms obtain n where n: "validateAndCloneDefinition d = Inr n"
    and new: "map_of reg (cap_id n) = None" and reg': "reg' = AList.update (cap_id n) n reg"
    by (auto simp: register_def rbind_Inr_iff split: if_splits)
  from n have nid: "cap_id n = trim (cap_id d)"
    by (auto simp: validateAndCloneDefinition_def rbind_Inr_iff clean_capability_Inr)
  show "map_of reg (trim (cap_id d)) = None" using new nid by simp
  show "\<exists>n. validateAndCloneDefinition d = Inr n \<and> map_of reg' = (map_of reg)(trim (cap_id d) \<mapsto> n)"
    using n nid reg' by (auto simp: map_of_alist_update)
qed

section \<open>Authorization\<close>

lemma check_scope_Inr:
  "check_scope cid ctx s = Inr u \<longleftrightarrow>
     s \<notin> set (ctx_forbidden_scopes ctx) \<and> (ctx_allowed_scopes ctx = [] \<or> s \<in> set (ctx_allowed_scopes ctx))"
  by (auto simp: check_scope_def)

text \<open>What a request must satisfy, in one line per check.\<close>

definition authorizable ::
  "capability_registry \<Rightarrow> capability_request \<Rightarrow> authorization_context \<Rightarrow> capability_definition \<Rightarrow> bool" where
  "authorizable reg request ctx d \<longleftrightarrow>
     (let cid = trim (req_capability request) in
      clean_capability (req_capability request) ''capabilityId'' = Inr cid
      \<and> map_of reg cid = Some d
      \<and> (\<forall>v. req_version request = Some v \<longrightarrow> clean_capability v ''version'' = Inr (cap_version d))
      \<and> cap_health d = Available
      \<and> cid \<in> set (ctx_allowed_capabilities ctx)
      \<and> cid \<notin> set (ctx_forbidden_capabilities ctx)
      \<and> set (cap_data_scopes d) \<inter> set (ctx_forbidden_scopes ctx) = {}
      \<and> (ctx_allowed_scopes ctx = [] \<or> set (cap_data_scopes d) \<subseteq> set (ctx_allowed_scopes ctx)))"

lemma authorize_Inr_iff:
  "authorize reg r ctx = Inr a \<longleftrightarrow>
     (\<exists>d. authorizable reg r ctx d
        \<and> a = \<lparr>auth_definition = d, auth_requires_consent = cap_consent d \<noteq> ConsentNone\<rparr>)"
proof -
  have version: "(case req_version r of None \<Rightarrow> Inr ()
      | Some v \<Rightarrow> rbind (clean_capability v ''version'') (\<lambda>v'.
          throw_if (v' \<noteq> cap_version d) (CapabilityVersionMismatch cid v (cap_version d)))) = Inr u
    \<longleftrightarrow> (\<forall>v. req_version r = Some v \<longrightarrow> clean_capability v ''version'' = Inr (cap_version d))" for d cid u
    by (auto simp: rbind_Inr_iff split: option.splits)
  show ?thesis
    unfolding authorize_def authorizable_def Let_def
    by (cases "map_of reg (trim (req_capability r))")
      (auto simp: rbind_Inr_iff each_res_Inr_iff check_scope_Inr version clean_capability_Inr)
qed

lemma authorize_same_sets:
  assumes "set (ctx_allowed_capabilities c) = set (ctx_allowed_capabilities c')"
    and "set (ctx_forbidden_capabilities c) = set (ctx_forbidden_capabilities c')"
    and "set (ctx_allowed_scopes c) = set (ctx_allowed_scopes c')"
    and "set (ctx_forbidden_scopes c) = set (ctx_forbidden_scopes c')"
  shows "authorize reg r c = authorize reg r c'"
proof -
  from assms(3) have "ctx_allowed_scopes c = [] \<longleftrightarrow> ctx_allowed_scopes c' = []"
    by (metis set_empty)
  then have "check_scope cid c = check_scope cid c'" for cid
    using assms by (auto simp: check_scope_def fun_eq_iff)
  then show ?thesis using assms(1,2) by (simp add: authorize_def cong: option.case_cong)
qed

section \<open>Properties\<close>

text \<open>
  The registry keeps its invariant under registration: the definitions are stored under their
  own id, once, and validating a stored definition again would change nothing. A registration
  either throws or adds exactly one definition, at an id that was free.
\<close>

theorem register_preserves_registry:
  assumes "registry_inv reg" and "register d reg = Inr reg'"
  shows "registry_inv reg' \<and> map_of reg (trim (cap_id d)) = None
    \<and> (\<exists>n. validateAndCloneDefinition d = Inr n \<and> map_of reg' = (map_of reg)(trim (cap_id d) \<mapsto> n))"
  using register_inv [OF assms] register_lookup [OF assms(2)] by blast

definition web_search :: capability_definition where
  "web_search = \<lparr>cap_id = ''web.search'', cap_version = ''1'', cap_provider = ''native'',
     cap_risk = R0_observe, cap_consent = ConsentNone, cap_data_scopes = [''public_web''],
     cap_credential_scopes = [], cap_health = Available, cap_description = None\<rparr>"

lemma register_web_search:
  "register (web_search\<lparr>cap_id := '' web.search''\<rparr>) [] = Inr [(''web.search'', web_search)]"
  by code_simp

theorem register_preserves_registry_witness:
  "registry_inv [(''web.search'', web_search)]"
  using register_preserves_registry [OF registry_inv_Nil register_web_search] by blast


text \<open>
  The plan service and the risk assessor / execution engine build their authorization contexts
  with different code; every request gets the same answer (result or error) under both.
\<close>

theorem gated_context_equivalent:
  "authorize reg r (gated_context plan_id goal) = authorize reg r (authorizationContext plan_id goal)"
  by (rule authorize_same_sets)
    (simp_all add: gated_context_def authorizationContext_def intersection_cap_def constrained_list_def)

text \<open>
  The two restrictions of a Goal are read differently when they do not intersect. If no
  capability is both allowed and inside the constraints, nothing is authorized. If no data scope is
  both allowed and inside the constraints, the list of allowed scopes becomes empty, which
  \<open>authorize\<close> reads as no restriction: a scope in neither list passes the check.
\<close>

theorem disjoint_goal_restrictions:
  assumes "constrained_capabilities (goal_constraints g) = Some cs" and "cs \<noteq> []"
    and "constrained_data_scopes (goal_constraints g) = Some ss" and "ss \<noteq> []"
    and "set (allowed_data_scopes g) \<inter> set ss = {}"
  shows "(set (allowed_capabilities g) \<inter> set cs = {} \<longrightarrow>
      (\<forall>reg r a. authorize reg r (gated_context pid g) \<noteq> Inr a))
    \<and> (\<forall>cid s. s \<notin> set (or_nil (constrained_forbidden_data_scopes (goal_constraints g))) \<longrightarrow>
      check_scope cid (gated_context pid g) s = Inr ())"
proof -
  from assms have "ctx_allowed_scopes (gated_context pid g) = []"
    by (auto simp: gated_context_def intersection_cap_def filter_empty_conv)
  moreover have "set (ctx_allowed_capabilities (gated_context pid g)) = set (allowed_capabilities g) \<inter> set cs"
    using assms(1,2) by (auto simp: gated_context_def intersection_cap_def)
  ultimately show ?thesis
    by (auto simp: authorize_Inr_iff authorizable_def Let_def check_scope_Inr gated_context_def)
qed

definition scoped_goal :: universal_goal where
  "scoped_goal = (migrateLegacyToUniversal ''2026-01-02'' \<lparr>legacy_id = ''g1'', legacy_title = ''t'',
      legacy_categories = [], legacy_keywords = [], legacy_location = None, legacy_priority = Fin 1,
      legacy_status = LegacyActive, legacy_created_at = ''2026-01-01'', legacy_revision = None,
      legacy_revised_at = None\<rparr> ''migration'')
    \<lparr>goal_constraints := no_constraints\<lparr>constrained_capabilities := Some [''public_web_research''],
        constrained_data_scopes := Some [''intranet'']\<rparr>\<rparr>"

theorem disjoint_goal_restrictions_witness:
  "check_scope ''web.search'' (gated_context ''p1'' scoped_goal) ''owner_private'' = Inr ()"
proof -
  have "constrained_capabilities (goal_constraints scoped_goal) = Some [''public_web_research'']"
    and "constrained_data_scopes (goal_constraints scoped_goal) = Some [''intranet'']"
    and "set (allowed_data_scopes scoped_goal) \<inter> set [''intranet''] = {}"
    and "''owner_private'' \<notin> set (or_nil (constrained_forbidden_data_scopes (goal_constraints scoped_goal)))"
    by (simp_all add: scoped_goal_def migrateLegacyToUniversal_def no_constraints_def)
  then show ?thesis
    using disjoint_goal_restrictions [of scoped_goal "[''public_web_research'']" "[''intranet'']" "''p1''"] by blast
qed

end
