(* ===== verification/Stable_Hash.thy ===== *)
theory Stable_Hash
  imports Kernel_Prelude
begin

text \<open>
  The canonical serialisation behind every digest of the kernel (\<open>utils/hash.ts\<close>):
  \<open>stableStringify\<close> on JavaScript values, and \<open>stableHash\<close> over it. Parameters: the collation
  \<open>lc\<close> of \<open>localeCompare\<close>, the decimal rendering \<open>num\<close> of a number, and the hash function
  \<open>sha256\<close> of \<open>node:crypto\<close>. Results: the serialisation does not depend on the order in which
  the keys of objects (at any depth) were written, an absent key and an undefined one serialise
  alike, and the order of an array always matters.
\<close>

section \<open>Values\<close>

datatype js_value =
  JUndefined
| JNull
| JBool bool
| JNumber js_number
| JString string
| JArray "js_value list"
| JObject "(string \<times> js_value) list"

text \<open>\<open>JSON.stringify\<close> of a string: quotes, and the escapes of JSON.\<close>

definition hex_digit :: "nat \<Rightarrow> char" where
  "hex_digit n = ''0123456789abcdef'' ! (n mod 16)"

definition json_char :: "char \<Rightarrow> string" where
  "json_char c =
     (let n = (of_char c :: nat) in
      if n = 34 then [CHR 92, CHR 34]
      else if n = 92 then [CHR 92, CHR 92]
      else if n = 8 then [CHR 92, CHR ''b'']
      else if n = 9 then [CHR 92, CHR ''t'']
      else if n = 10 then [CHR 92, CHR ''n'']
      else if n = 12 then [CHR 92, CHR ''f'']
      else if n = 13 then [CHR 92, CHR ''r'']
      else if n < 32 then [CHR 92, CHR ''u'', CHR ''0'', CHR ''0'', hex_digit (n div 16), hex_digit n]
      else [c])"

definition json_string :: "string \<Rightarrow> string" where
  "json_string s = [CHR 34] @ concat (map json_char s) @ [CHR 34]"

primrec join :: "string \<Rightarrow> string list \<Rightarrow> string" where
  "join sep [] = []"
| "join sep (x # xs) = x @ concat (map (\<lambda>y. sep @ y) xs)"

text \<open>\<open>undefined\<close> prints as the empty string in \<open>Array.prototype.join\<close>.\<close>

definition or_empty :: "string option \<Rightarrow> string" where
  "or_empty r = (case r of None \<Rightarrow> [] | Some s \<Rightarrow> s)"

section \<open>Serialisation\<close>

definition defined_entries :: "(string \<times> js_value) list \<Rightarrow> (string \<times> js_value) list" where
  "defined_entries es = filter (\<lambda>(k, v). v \<noteq> JUndefined) es"

lemma size_entry [termination_simp]:
  "(k, v) \<in> set es \<Longrightarrow> size v < Suc (size_list (size_prod (\<lambda>_. 0) size) es)"
  by (induction es) auto

lemma size_element [termination_simp]: "v \<in> set vs \<Longrightarrow> size v < Suc (size_list size vs)"
  by (induction vs) auto

function stableStringify :: "string comparator \<Rightarrow> (js_number \<Rightarrow> string) \<Rightarrow> js_value \<Rightarrow> string option" where
  "stableStringify lc num (JArray vs) =
     Some (''['' @ join '','' (map (\<lambda>v. or_empty (stableStringify lc num v)) vs) @ '']'')"
| "stableStringify lc num (JObject es) =
     Some (''{'' @ join '','' (map (\<lambda>(k, v). json_string k @ '':'' @ or_empty (stableStringify lc num v))
        (sort_by (key fst lc) (defined_entries es))) @ ''}'')"
| "stableStringify lc num JUndefined = None"
| "stableStringify lc num JNull = Some ''null''"
| "stableStringify lc num (JBool b) = Some (if b then ''true'' else ''false'')"
| "stableStringify lc num (JNumber n) = Some (if is_finite_num n then num n else ''null'')"
| "stableStringify lc num (JString s) = Some (json_string s)"
  by pat_completeness auto
termination
  by (relation "measure (\<lambda>(lc, num, v). size v)") (auto simp: defined_entries_def termination_simp)

definition stableHash :: "string comparator \<Rightarrow> (js_number \<Rightarrow> string) \<Rightarrow> (string \<Rightarrow> string) \<Rightarrow> js_value \<Rightarrow> string" where
  "stableHash lc num sha256 v = sha256 (or_empty (stableStringify lc num v))"

text \<open>
  The notification gateway and the trigger engine each have a copy of their own, which keeps
  undefined entries; a template literal prints them as \<open>undefined\<close>.
\<close>

definition or_undefined :: "string option \<Rightarrow> string" where
  "or_undefined r = (case r of None \<Rightarrow> ''undefined'' | Some s \<Rightarrow> s)"

function localStringify :: "string comparator \<Rightarrow> (js_number \<Rightarrow> string) \<Rightarrow> js_value \<Rightarrow> string option" where
  "localStringify lc num (JArray vs) =
     Some (''['' @ join '','' (map (\<lambda>v. or_empty (localStringify lc num v)) vs) @ '']'')"
| "localStringify lc num (JObject es) =
     Some (''{'' @ join '','' (map (\<lambda>(k, v). json_string k @ '':'' @ or_undefined (localStringify lc num v))
        (sort_by (key fst lc) es)) @ ''}'')"
| "localStringify lc num JUndefined = None"
| "localStringify lc num JNull = Some ''null''"
| "localStringify lc num (JBool b) = Some (if b then ''true'' else ''false'')"
| "localStringify lc num (JNumber n) = Some (if is_finite_num n then num n else ''null'')"
| "localStringify lc num (JString s) = Some (json_string s)"
  by pat_completeness auto
termination
  by (relation "measure (\<lambda>(lc, num, v). size v)") (auto simp: termination_simp)

section \<open>Objects that differ in the order of their keys only\<close>

inductive same_value :: "js_value \<Rightarrow> js_value \<Rightarrow> bool" where
  same_refl: "same_value v v"
| same_array: "list_all2 same_value vs ws \<Longrightarrow> same_value (JArray vs) (JArray ws)"
| same_object: "list_all2 (rel_prod (=) same_value) es es' \<Longrightarrow> mset es' = mset fs \<Longrightarrow>
    distinct (map fst fs) \<Longrightarrow> same_value (JObject es) (JObject fs)"

text \<open>The collation distinguishes different keys.\<close>

definition separates :: "string comparator \<Rightarrow> bool" where
  "separates lc \<longleftrightarrow> (\<forall>k k'. compare lc k k' = Equiv \<longrightarrow> k = k')"

lemma separates_default: "separates default"
  by (simp add: separates_def)

lemma same_value_undefined: "same_value v w \<Longrightarrow> v = JUndefined \<longleftrightarrow> w = JUndefined"
  by (auto elim: same_value.cases)

lemma stable_segment_distinct:
  assumes "separates lc" and "distinct (map fst es)"
  shows "stable_segment (key fst lc) e es = filter (\<lambda>f. fst f = fst e) es"
  using assms(1) unfolding separates_def
  by (intro filter_cong) (auto simp: compare.sym [of lc])

lemma filter_key_unique:
  "distinct (map fst es) \<Longrightarrow> (k, v) \<in> set es \<Longrightarrow> filter (\<lambda>f. fst f = k) es = [(k, v)]"
proof (induction es)
  case (Cons e es)
  show ?case
  proof (cases "e = (k, v)")
    case True
    with Cons.prems(1) have "filter (\<lambda>f. fst f = k) es = []"
      by (auto simp: filter_empty_conv)
    with True show ?thesis by simp
  next
    case False
    with Cons.prems(2) have mem: "(k, v) \<in> set es" by simp
    then have "k \<in> fst ` set es" by (metis fst_conv image_eqI)
    with Cons.prems(1) have "fst e \<noteq> k" by auto
    with Cons.IH [OF _ mem] Cons.prems(1) show ?thesis by simp
  qed
qed simp

text \<open>Sorting a set of entries by key gives one list, whatever order they came in.\<close>

lemma sort_entries_perm:
  assumes sep: "separates lc" and perm: "mset es = mset fs" and dist: "distinct (map fst fs)"
  shows "sort_by (key fst lc) es = sort_by (key fst lc) fs"
proof (rule sort_eqI)
  show "mset es = mset (sort_by (key fst lc) fs)" using perm by simp
  show "Sorting_Algorithms.sorted (key fst lc) (sort_by (key fst lc) fs)" by simp
  have dist': "distinct (map fst es)"
    using dist mset_eq_imp_distinct_iff [OF arg_cong [OF perm, of "image_mset fst", folded mset_map]]
    by simp
  fix e
  assume "e \<in> set es"
  then have "e \<in> set fs" and "e \<in> set es" using mset_eq_setD [OF perm] by auto
  then have "stable_segment (key fst lc) e es = [e]" and "stable_segment (key fst lc) e fs = [e]"
    unfolding stable_segment_distinct [OF sep dist] stable_segment_distinct [OF sep dist']
    using filter_key_unique [OF dist, of "fst e" "snd e"] filter_key_unique [OF dist', of "fst e" "snd e"]
    by simp_all
  then show "stable_segment (key fst lc) e es = stable_segment (key fst lc) e (sort_by (key fst lc) fs)"
    by (simp only: stable_sort)
qed

text \<open>Sorting by key commutes with a pointwise relation of the values.\<close>

lemma insort_rel:
  "list_all2 (rel_prod (=) R) es fs \<Longrightarrow> rel_prod (=) R a b \<Longrightarrow>
   list_all2 (rel_prod (=) R) (Sorting_Algorithms.insort (key fst lc) a es)
     (Sorting_Algorithms.insort (key fst lc) b fs)"
  by (induction es fs rule: list_all2_induct) (auto simp: rel_prod_conv)

lemma sort_rel:
  "list_all2 (rel_prod (=) R) es fs \<Longrightarrow>
   list_all2 (rel_prod (=) R) (sort_by (key fst lc) es) (sort_by (key fst lc) fs)"
  by (induction es fs rule: list_all2_induct) (auto simp: insort_rel)

text \<open>A congruence: related values serialise alike, given that their parts do.\<close>

lemma stringify_entries:
  assumes "list_all2 (rel_prod (=) (\<lambda>v w. same_value v w \<and> stableStringify lc num v = stableStringify lc num w)) es fs"
  shows "stableStringify lc num (JObject es) = stableStringify lc num (JObject fs)"
proof -
  let ?R = "\<lambda>v w. same_value v w \<and> stableStringify lc num v = stableStringify lc num w"
  from assms have "list_all2 (rel_prod (=) ?R) (defined_entries es) (defined_entries fs)"
    by (induction es fs rule: list_all2_induct)
      (auto simp: defined_entries_def rel_prod_conv dest: same_value_undefined)
  then have "list_all2 (rel_prod (=) ?R) (sort_by (key fst lc) (defined_entries es))
      (sort_by (key fst lc) (defined_entries fs))"
    by (rule sort_rel)
  then have "map (\<lambda>(k, v). json_string k @ '':'' @ or_empty (stableStringify lc num v))
        (sort_by (key fst lc) (defined_entries es))
      = map (\<lambda>(k, v). json_string k @ '':'' @ or_empty (stableStringify lc num v))
        (sort_by (key fst lc) (defined_entries fs))"
    by (induction rule: list_all2_induct) (auto simp: rel_prod_conv)
  then show ?thesis by simp
qed

text \<open>
  \<open>stableStringify\<close> is canonical: two values that differ only in the order in which object
  keys were written, at any depth, have the same serialisation, hence the same digest, provided
  the collation tells different keys apart.
\<close>

theorem stableStringify_canonical:
  assumes "separates lc" and "same_value v w"
  shows "stableStringify lc num v = stableStringify lc num w
    \<and> stableHash lc num sha256 v = stableHash lc num sha256 w"
proof -
  from assms(2) have "stableStringify lc num v = stableStringify lc num w"
  proof (induction rule: same_value.induct)
    case (same_array vs ws)
    then have "map (\<lambda>v. or_empty (stableStringify lc num v)) vs
        = map (\<lambda>v. or_empty (stableStringify lc num v)) ws"
      by (induction vs ws rule: list_all2_induct) auto
    then show ?case by simp
  next
    case (same_object es es' fs)
    have sorted: "sort_by (key fst lc) (defined_entries es') = sort_by (key fst lc) (defined_entries fs)"
    proof (rule sort_entries_perm [OF assms(1)])
      show "mset (defined_entries es') = mset (defined_entries fs)"
        using same_object.hyps(1) by (simp add: defined_entries_def mset_filter)
      show "distinct (map fst (defined_entries fs))"
        using same_object.hyps(2) by (simp add: defined_entries_def distinct_map_filter)
    qed
    have "stableStringify lc num (JObject es) = stableStringify lc num (JObject es')"
      using same_object.IH by (intro stringify_entries) simp
    with sorted show ?case by simp
  qed simp
  then show ?thesis by (simp add: stableHash_def)
qed

theorem stableStringify_canonical_witness:
  "stableStringify default (\<lambda>_. ''7'') (JObject [(''b'', JBool True), (''a'', JNumber (Fin 7))])
   = stableStringify default (\<lambda>_. ''7'') (JObject [(''a'', JNumber (Fin 7)), (''b'', JBool True)])"
proof -
  have "same_value (JObject [(''b'', JBool True), (''a'', JNumber (Fin 7))])
      (JObject [(''a'', JNumber (Fin 7)), (''b'', JBool True)])"
    by (rule same_object [where es' = "[(''b'', JBool True), (''a'', JNumber (Fin 7))]"])
      (simp_all add: list_all2_Cons same_refl)
  from stableStringify_canonical [OF separates_default this] show ?thesis by blast
qed

text \<open>
  What the digest does not see and what it does: a key whose value is \<open>undefined\<close> never changes
  it, inside an array \<open>undefined\<close> prints like nothing (so \<open>[undefined]\<close> and \<open>[]\<close> collide), and the
  order of array elements is kept: contrary to the comment on \<open>stableStringify\<close>, arrays are not sorted.
\<close>

theorem stableStringify_arrays_and_undefined:
  "stableStringify lc num (JObject (es @ (k, JUndefined) # fs)) = stableStringify lc num (JObject (es @ fs))
   \<and> stableStringify lc num (JArray [JUndefined]) = stableStringify lc num (JArray [])
   \<and> stableStringify lc num (JArray [JBool True, JNull]) = Some ''[true,null]''
   \<and> stableStringify lc num (JArray [JNull, JBool True]) = Some ''[null,true]''"
  by (simp add: defined_entries_def or_empty_def)

end
