(* ===== verification/Proposed_Plan.thy ===== *)
theory Proposed_Plan
  imports Capability Mission_Types Stable_Hash
begin

text \<open>
  Proposed plans (\<open>proposed-plan/proposed-plan-contract.ts\<close>, \<open>proposed-plan-manager.ts\<close>): an
  append-only store of immutable revisions. The injected goal lookup, the bounds and the digest are
  fields of \<open>plan_env\<close>; the clock reading and the generated id are arguments of the operations. A
  transaction that throws writes nothing, so an error result stands for an unchanged store. The
  content fields, which the source spreads into the plan, are the record \<open>plan_content\<close>.
\<close>

section \<open>Data\<close>

datatype proposed_plan_status = PlanDraft | PlanValidated | PlanApproved | PlanRejected

record expected_evidence =
  ee_key :: string
  ee_description :: string

record plan_checkpoint =
  cp_description :: string
  cp_depends_on :: "string list"

record plan_content =
  ct_summary :: string
  ct_tasks :: "mission_task list"
  ct_capabilities :: "capability_request list"
  ct_evidence :: "expected_evidence list"
  ct_approval_checkpoints :: "plan_checkpoint list"
  ct_completion_conditions :: "plan_checkpoint list"

record create_plan_input =
  in_goal_id :: string
  in_content :: plan_content
  in_id :: "string option"
  in_changed_by :: "string option"

record update_plan_input =
  up_expected_revision :: string
  up_summary :: "string option"
  up_tasks :: "mission_task list option"
  up_capabilities :: "capability_request list option"
  up_evidence :: "expected_evidence list option"
  up_approval_checkpoints :: "plan_checkpoint list option"
  up_completion_conditions :: "plan_checkpoint list option"
  up_changed_by :: "string option"

record plan_revision =
  rv_revision :: nat
  rv_changed_at :: string
  rv_changed_by :: string

record proposed_plan =
  pp_contract_version :: nat
  pp_id :: string
  pp_goal_id :: string
  pp_content :: plan_content
  pp_status :: proposed_plan_status
  pp_revision_number :: nat
  pp_previous_revision :: "string option"
  pp_revision_id :: string
  pp_content_hash :: string
  pp_created_at :: string
  pp_updated_at :: string
  pp_created_revision :: plan_revision
  pp_current_revision :: plan_revision

datatype dependency_defect =
  UnknownDependency string | DepthExceeded int | CycleDetected | CheckpointUnknownTask string

datatype plan_error =
  PlanNotFound string
| GoalNotFoundForPlan string string
| InvalidPlanInput string
| PlanCapabilityDenied string string
| PlanDependency string string dependency_defect
| PlanRevisionConflict string string string

record plan_env =
  env_max_depth :: int
  env_max_tasks :: int
  env_get_goal :: "string \<Rightarrow> universal_goal option"
  env_hash :: "js_value \<Rightarrow> string"

type_synonym plan_store = "proposed_plan list"

section \<open>The content digest\<close>

definition nat_value :: "nat \<Rightarrow> js_value" where
  "nat_value n = JNumber (Fin (of_nat n))"

definition strings_value :: "string list \<Rightarrow> js_value" where
  "strings_value xs = JArray (map JString xs)"

definition option_value :: "string option \<Rightarrow> js_value" where
  "option_value x = (case x of None \<Rightarrow> JUndefined | Some s \<Rightarrow> JString s)"

definition task_status_name :: "task_status \<Rightarrow> string" where
  "task_status_name s = (case s of TaskPending \<Rightarrow> ''pending'' | TaskReady \<Rightarrow> ''ready''
     | TaskActive \<Rightarrow> ''active'' | TaskCompleted \<Rightarrow> ''completed'' | TaskFailed \<Rightarrow> ''failed'')"

definition requirement_value :: "evidence_requirement \<Rightarrow> js_value" where
  "requirement_value r = JObject [(''key'', JString (er_key r)),
     (''description'', JString (er_description r)), (''required'', JBool (er_required r))]"

definition task_value :: "mission_task \<Rightarrow> js_value" where
  "task_value t = JObject [(''id'', JString (task_id t)), (''title'', JString (task_title t)),
     (''objective'', JString (task_objective t)), (''status'', JString (task_status_name (task_status t))),
     (''dependsOn'', strings_value (depends_on t)),
     (''evidenceRequirements'', JArray (map requirement_value (evidence_requirements t)))]"

definition request_value :: "capability_request \<Rightarrow> js_value" where
  "request_value r = JObject [(''capabilityId'', JString (req_capability r)),
     (''version'', option_value (req_version r))]"

definition checkpoint_value :: "plan_checkpoint \<Rightarrow> js_value" where
  "checkpoint_value c = JObject [(''description'', JString (cp_description c)),
     (''dependsOn'', strings_value (cp_depends_on c))]"

definition computeProposedPlanHash :: "(js_value \<Rightarrow> string) \<Rightarrow> string \<Rightarrow> plan_content \<Rightarrow> string" where
  "computeProposedPlanHash hash goal c = hash (JObject
     [(''goalId'', JString goal),
      (''planSummary'', JString (ct_summary c)),
      (''planTasks'', JArray (map task_value (ct_tasks c))),
      (''requestedCapabilities'', JArray (map request_value (ct_capabilities c))),
      (''expectedEvidence'', JArray (map (\<lambda>e. JObject [(''key'', JString (ee_key e)),
         (''description'', JString (ee_description e))]) (ct_evidence c))),
      (''approvalCheckpoints'', JArray (map checkpoint_value (ct_approval_checkpoints c))),
      (''completionConditions'', JArray (map checkpoint_value (ct_completion_conditions c)))])"

section \<open>Content validation\<close>

definition cleanRequired :: "string \<Rightarrow> string \<Rightarrow> plan_error + string" where
  "cleanRequired s field =
     (let cleaned = trim s in if cleaned = [] then Inl (InvalidPlanInput field) else Inr cleaned)"

definition cleanActor :: "string option \<Rightarrow> plan_error + string" where
  "cleanActor a = (case a of None \<Rightarrow> Inr ''system'' | Some s \<Rightarrow> cleanRequired s ''changedBy'')"

definition assertUnique :: "string list \<Rightarrow> string \<Rightarrow> plan_error + unit" where
  "assertUnique vs field = throw_if (length (uniq vs) \<noteq> length vs) (InvalidPlanInput field)"

definition cloneCheckpoint :: "plan_checkpoint \<Rightarrow> plan_checkpoint" where
  "cloneCheckpoint c = c\<lparr>cp_description := trim (cp_description c)\<rparr>"

text \<open>\<open>clonePlan\<close> copies a plan; the copy of a checkpoint trims its description.\<close>

definition clonePlan :: "proposed_plan \<Rightarrow> proposed_plan" where
  "clonePlan p = p\<lparr>pp_content := (pp_content p)
     \<lparr>ct_approval_checkpoints := map cloneCheckpoint (ct_approval_checkpoints (pp_content p)),
      ct_completion_conditions := map cloneCheckpoint (ct_completion_conditions (pp_content p))\<rparr>\<rparr>"

text \<open>
  The closure \<open>visit\<close> of \<open>validateTaskGraph\<close>: the depth test comes first, then the nodes already
  done, then the nodes on the path.
\<close>

function (sequential) visit_depth ::
    "int \<Rightarrow> string \<Rightarrow> mission_task list \<Rightarrow> string list \<Rightarrow> string list \<Rightarrow> string \<Rightarrow> int \<Rightarrow> plan_error + string list"
  and visit_depth_all ::
    "int \<Rightarrow> string \<Rightarrow> mission_task list \<Rightarrow> string list \<Rightarrow> string list \<Rightarrow> string list \<Rightarrow> int \<Rightarrow> plan_error + string list" where
  "visit_depth maxd pid tasks visiting visited i depth =
     (if depth > maxd then Inl (PlanDependency pid i (DepthExceeded maxd))
      else if i \<in> set visited then Inr visited
      else if i \<in> set visiting then Inl (PlanDependency pid i CycleDetected)
      else rbind (visit_depth_all maxd pid tasks (i # visiting) visited (deps_of tasks i) (depth + 1))
        (\<lambda>visited'. Inr (i # visited')))"
| "visit_depth_all maxd pid tasks visiting visited [] depth = Inr visited"
| "visit_depth_all maxd pid tasks visiting visited (d # ds) depth =
     rbind (visit_depth maxd pid tasks visiting visited d depth)
       (\<lambda>visited'. visit_depth_all maxd pid tasks visiting visited' ds depth)"
  by pat_completeness auto
termination
  by (relation "measures [\<lambda>x. case x of Inl (maxd, pid, tasks, visiting, visited, i, depth) \<Rightarrow> nat (maxd + 1 - depth)
        | Inr (maxd, pid, tasks, visiting, visited, ds, depth) \<Rightarrow> nat (maxd + 1 - depth),
      \<lambda>x. case x of Inl _ \<Rightarrow> 1 | Inr (maxd, pid, tasks, visiting, visited, ds, depth) \<Rightarrow> 2 * length ds]")
    auto

definition validateTaskGraph :: "plan_env \<Rightarrow> string \<Rightarrow> mission_task list \<Rightarrow> plan_error + unit" where
  "validateTaskGraph env pid tasks =
     rbind (assertUnique (task_ids tasks) ''planTasks.id'') (\<lambda>_.
     rbind (each_res (\<lambda>t. each_res (\<lambda>d. throw_if (tasks_by_id tasks d = None)
         (PlanDependency pid (task_id t) (UnknownDependency d))) (depends_on t)) tasks) (\<lambda>_.
     rbind (visit_depth_all (env_max_depth env) pid tasks [] [] (task_ids tasks) 1) (\<lambda>_. Inr ())))"

definition validateCheckpoints ::
  "string \<Rightarrow> mission_task list \<Rightarrow> plan_checkpoint list \<Rightarrow> string \<Rightarrow> plan_error + unit" where
  "validateCheckpoints pid tasks cps field =
     each_res (\<lambda>c. rbind (cleanRequired (cp_description c) (field @ ''.description'')) (\<lambda>_.
       each_res (\<lambda>d. throw_if (d \<notin> set (task_ids tasks)) (PlanDependency pid d (CheckpointUnknownTask field)))
         (cp_depends_on c))) cps"

definition capability_permitted :: "universal_goal \<Rightarrow> string \<Rightarrow> bool" where
  "capability_permitted g c \<longleftrightarrow>
     c \<in> set (allowed_capabilities g)
     \<and> (or_nil (constrained_capabilities (goal_constraints g)) = []
        \<or> c \<in> set (or_nil (constrained_capabilities (goal_constraints g))))
     \<and> c \<notin> set (forbidden_capabilities g @ or_nil (constrained_forbidden_capabilities (goal_constraints g)))"

definition validateRequestedCapabilities ::
  "capability_request list \<Rightarrow> universal_goal \<Rightarrow> string \<Rightarrow> plan_error + unit" where
  "validateRequestedCapabilities rs g pid =
     each_res (\<lambda>r. throw_if (\<not> capability_permitted g (req_capability r))
       (PlanCapabilityDenied pid (req_capability r))) rs"

definition clean_request :: "capability_request \<Rightarrow> plan_error + capability_request" where
  "clean_request r =
     rbind (cleanRequired (req_capability r) ''capabilityId'') (\<lambda>c.
     rbind (case req_version r of None \<Rightarrow> Inr None
            | Some v \<Rightarrow> rbind (cleanRequired v ''capabilityVersion'') (\<lambda>v'. Inr (Some v'))) (\<lambda>v.
     Inr \<lparr>req_capability = c, req_version = v\<rparr>))"

definition clean_evidence :: "expected_evidence \<Rightarrow> plan_error + expected_evidence" where
  "clean_evidence e =
     rbind (cleanRequired (ee_key e) ''expectedEvidence.key'') (\<lambda>k.
     rbind (cleanRequired (ee_description e) ''expectedEvidence.description'') (\<lambda>d.
     Inr \<lparr>ee_key = k, ee_description = d\<rparr>))"

definition validateAndCloneContent ::
  "plan_env \<Rightarrow> string \<Rightarrow> universal_goal \<Rightarrow> plan_content \<Rightarrow> plan_error + plan_content" where
  "validateAndCloneContent env pid g c =
     rbind (cleanRequired (ct_summary c) ''planSummary'') (\<lambda>summary.
     rbind (throw_if (length summary < 3) (InvalidPlanInput ''planSummary'')) (\<lambda>_.
     rbind (throw_if (int (length (ct_tasks c)) > env_max_tasks env) (InvalidPlanInput ''planTasks'')) (\<lambda>_.
     rbind (validateTaskGraph env pid (ct_tasks c)) (\<lambda>_.
     rbind (validateCheckpoints pid (ct_tasks c) (ct_approval_checkpoints c) ''approvalCheckpoints'') (\<lambda>_.
     rbind (validateCheckpoints pid (ct_tasks c) (ct_completion_conditions c) ''completionConditions'') (\<lambda>_.
     rbind (map_res clean_request (ct_capabilities c)) (\<lambda>caps.
     rbind (validateRequestedCapabilities caps g pid) (\<lambda>_.
     rbind (map_res clean_evidence (ct_evidence c)) (\<lambda>evidence.
     rbind (assertUnique (map ee_key evidence) ''expectedEvidence.key'') (\<lambda>_.
     Inr \<lparr>ct_summary = summary, ct_tasks = ct_tasks c, ct_capabilities = caps, ct_evidence = evidence,
       ct_approval_checkpoints = map cloneCheckpoint (ct_approval_checkpoints c),
       ct_completion_conditions = map cloneCheckpoint (ct_completion_conditions c)\<rparr>))))))))))"

section \<open>Operations of the manager\<close>

definition revision_id :: "string \<Rightarrow> nat \<Rightarrow> string" where
  "revision_id i n = i @ '':rev:'' @ show_nat n"

definition buildRevision ::
  "plan_env \<Rightarrow> string \<Rightarrow> string \<Rightarrow> proposed_plan_status \<Rightarrow> string \<Rightarrow> string \<Rightarrow> nat \<Rightarrow> string option \<Rightarrow> string
   \<Rightarrow> plan_content \<Rightarrow> plan_revision option \<Rightarrow> proposed_plan" where
  "buildRevision env i goal status created updated n previous by content first =
     (let revision = \<lparr>rv_revision = n, rv_changed_at = updated, rv_changed_by = by\<rparr> in
      \<lparr>pp_contract_version = 2, pp_id = i, pp_goal_id = goal, pp_content = content, pp_status = status,
       pp_revision_number = n, pp_previous_revision = previous, pp_revision_id = revision_id i n,
       pp_content_hash = computeProposedPlanHash (env_hash env) goal content,
       pp_created_at = created, pp_updated_at = updated,
       pp_created_revision = (case first of None \<Rightarrow> revision | Some r \<Rightarrow> r),
       pp_current_revision = revision\<rparr>)"

definition latestRevision :: "proposed_plan list \<Rightarrow> proposed_plan option" where
  "latestRevision plans = foldl (\<lambda>latest candidate. case latest of None \<Rightarrow> Some candidate
     | Some l \<Rightarrow> if pp_revision_number candidate > pp_revision_number l then Some candidate else latest) None plans"

definition requireGoal :: "plan_env \<Rightarrow> string \<Rightarrow> string \<Rightarrow> plan_error + universal_goal" where
  "requireGoal env pid goal =
     (case env_get_goal env goal of None \<Rightarrow> Inl (GoalNotFoundForPlan pid goal) | Some g \<Rightarrow> Inr g)"

definition createProposedPlan ::
  "plan_env \<Rightarrow> string \<Rightarrow> string \<Rightarrow> create_plan_input \<Rightarrow> plan_store \<Rightarrow> plan_error + (proposed_plan \<times> plan_store)" where
  "createProposedPlan env now fresh input plans =
     rbind (cleanRequired (case in_id input of None \<Rightarrow> fresh | Some i \<Rightarrow> i) ''id'') (\<lambda>i.
     rbind (cleanRequired (in_goal_id input) ''goalId'') (\<lambda>goal_ref.
     rbind (requireGoal env i goal_ref) (\<lambda>g.
     rbind (validateAndCloneContent env i g (in_content input)) (\<lambda>content.
     rbind (cleanActor (in_changed_by input)) (\<lambda>by.
     let plan = buildRevision env i goal_ref PlanDraft now now 1 None by content None in
     if list_ex (\<lambda>p. pp_id p = i) plans then Inl (InvalidPlanInput ''id'')
     else Inr (clonePlan plan, plans @ [clonePlan plan]))))))"

definition getProposedPlan :: "string \<Rightarrow> plan_store \<Rightarrow> proposed_plan option" where
  "getProposedPlan i plans = map_option clonePlan (latestRevision (filter (\<lambda>p. pp_id p = i) plans))"

definition getProposedPlanHistory :: "string \<Rightarrow> plan_store \<Rightarrow> proposed_plan list" where
  "getProposedPlanHistory i plans =
     map clonePlan (sort_by (key pp_revision_number default) (filter (\<lambda>p. pp_id p = i) plans))"

definition listProposedPlansForGoal :: "string comparator \<Rightarrow> string \<Rightarrow> plan_store \<Rightarrow> proposed_plan list" where
  "listProposedPlansForGoal lc goal plans =
     (let latestById = foldl (\<lambda>m p. if pp_goal_id p \<noteq> goal then m
          else (case map_of m (pp_id p) of
              None \<Rightarrow> AList.update (pp_id p) p m
            | Some current \<Rightarrow> if pp_revision_number p > pp_revision_number current
                then AList.update (pp_id p) p m else m)) [] plans
      in map clonePlan (sort_by (or_else (reversed (key pp_updated_at lc)) (key pp_id lc)) (map snd latestById)))"

definition updated_content :: "update_plan_input \<Rightarrow> plan_content \<Rightarrow> plan_content" where
  "updated_content u c =
     \<lparr>ct_summary = case_option (ct_summary c) id (up_summary u),
      ct_tasks = case_option (ct_tasks c) id (up_tasks u),
      ct_capabilities = case_option (ct_capabilities c) id (up_capabilities u),
      ct_evidence = case_option (ct_evidence c) id (up_evidence u),
      ct_approval_checkpoints = case_option (ct_approval_checkpoints c) id (up_approval_checkpoints u),
      ct_completion_conditions = case_option (ct_completion_conditions c) id (up_completion_conditions u)\<rparr>"

definition updateProposedPlan ::
  "plan_env \<Rightarrow> string \<Rightarrow> string \<Rightarrow> update_plan_input \<Rightarrow> plan_store \<Rightarrow> plan_error + (proposed_plan \<times> plan_store)" where
  "updateProposedPlan env now i u plans =
     rbind (cleanRequired (up_expected_revision u) ''expectedRevisionId'') (\<lambda>expected.
     case latestRevision (filter (\<lambda>p. pp_id p = i) plans) of
       None \<Rightarrow> Inl (PlanNotFound i)
     | Some current \<Rightarrow>
         if pp_revision_id current \<noteq> expected
         then Inl (PlanRevisionConflict i expected (pp_revision_id current))
         else rbind (requireGoal env i (pp_goal_id current)) (\<lambda>g.
           rbind (validateAndCloneContent env i g (updated_content u (pp_content current))) (\<lambda>content.
           rbind (cleanActor (up_changed_by u)) (\<lambda>by.
           let next = buildRevision env (pp_id current) (pp_goal_id current) (pp_status current)
                 (pp_created_at current) now (pp_revision_number current + 1) (Some (pp_revision_id current))
                 by content (Some (pp_created_revision current)) in
           Inr (clonePlan next, plans @ [clonePlan next])))))"

section \<open>The task graph check\<close>

declare visit_depth.simps [simp del]

lemma visit_depth_finished:
  "visit_depth maxd pid tasks visiting visited i depth = Inr vs \<Longrightarrow> finished tasks visited \<Longrightarrow>
     set visiting \<inter> set visited = {} \<Longrightarrow>
     finished tasks vs \<and> set visited \<subseteq> set vs \<and> i \<in> set vs \<and> set visiting \<inter> set vs = {}"
  "visit_depth_all maxd pid tasks visiting visited ds depth = Inr vs \<Longrightarrow> finished tasks visited \<Longrightarrow>
     set visiting \<inter> set visited = {} \<Longrightarrow>
     finished tasks vs \<and> set visited \<subseteq> set vs \<and> set ds \<subseteq> set vs \<and> set visiting \<inter> set vs = {}"
proof (induction maxd pid tasks visiting visited i depth and maxd pid tasks visiting visited ds depth
    arbitrary: vs and vs rule: visit_depth_visit_depth_all.induct)
  case (1 maxd pid tasks visiting visited i depth)
  from "1.prems"(1) have depth: "\<not> depth > maxd" by (auto simp: visit_depth.simps)
  show ?case
  proof (cases "i \<in> set visited")
    case True
    with "1.prems" depth show ?thesis by (simp add: visit_depth.simps)
  next
    case False
    with "1.prems"(1) depth obtain us where new: "i \<notin> set visiting"
      and all: "visit_depth_all maxd pid tasks (i # visiting) visited (deps_of tasks i) (depth + 1) = Inr us"
      and vs: "vs = i # us"
      by (auto simp: visit_depth.simps [of maxd pid tasks visiting] rbind_Inr_iff split: if_splits)
    from "1.IH" [OF depth False new all "1.prems"(2)] "1.prems"(3) False
    have "finished tasks us" "set visited \<subseteq> set us" "set (deps_of tasks i) \<subseteq> set us"
      "set (i # visiting) \<inter> set us = {}"
      by auto
    with new vs show ?thesis by auto
  qed
next
  case (3 maxd pid tasks visiting visited d ds depth)
  from "3.prems"(1) obtain us where one: "visit_depth maxd pid tasks visiting visited d depth = Inr us"
    and rest: "visit_depth_all maxd pid tasks visiting us ds depth = Inr vs"
    by (auto simp: rbind_Inr_iff)
  from "3.IH"(1) [OF one "3.prems"(2,3)] have us: "finished tasks us" "set visited \<subseteq> set us" "d \<in> set us"
    "set visiting \<inter> set us = {}" by auto
  from "3.IH"(2) [OF one rest us(1) us(4)] us show ?case by auto
qed simp

definition graph_ok :: "mission_task list \<Rightarrow> bool" where
  "graph_ok tasks \<longleftrightarrow> distinct (task_ids tasks)
     \<and> (\<forall>t\<in>set tasks. set (depends_on t) \<subseteq> set (task_ids tasks)) \<and> acyclic_tasks tasks"

lemma validateTaskGraph_known:
  "each_res (\<lambda>t. each_res (\<lambda>d. throw_if (tasks_by_id tasks d = None)
       (PlanDependency pid (task_id t) (UnknownDependency d))) (depends_on t)) tasks = Inr ()
   \<longleftrightarrow> (\<forall>t\<in>set tasks. set (depends_on t) \<subseteq> set (task_ids tasks))"
  by (auto simp: each_res_Inr_iff tasks_by_id_None)

lemma validateTaskGraph_sound: "validateTaskGraph env pid tasks = Inr () \<Longrightarrow> graph_ok tasks"
proof -
  assume ok: "validateTaskGraph env pid tasks = Inr ()"
  then obtain vs where
    "visit_depth_all (env_max_depth env) pid tasks [] [] (task_ids tasks) 1 = Inr vs"
    by (auto simp: validateTaskGraph_def rbind_Inr_iff)
  from visit_depth_finished(2) [OF this] have "acyclic_tasks tasks"
    by (auto intro: finished_acyclic)
  with ok show ?thesis
    by (simp add: graph_ok_def validateTaskGraph_def rbind_Inr_iff assertUnique_def validateTaskGraph_known)
qed

lemma visit_depth_visited:
  "i \<in> set visited \<Longrightarrow> depth \<le> maxd \<Longrightarrow> visit_depth maxd pid tasks visiting visited i depth = Inr visited"
  by (subst visit_depth.simps) simp

lemma visit_all_visited:
  "set ds \<subseteq> set visited \<Longrightarrow> depth \<le> maxd \<Longrightarrow>
     visit_depth_all maxd pid tasks visiting visited ds depth = Inr visited"
  by (induction ds) (simp_all add: visit_depth_visited)

lemma visit_depth_dependencies_first:
  "finished tasks (rev ds @ visited) \<Longrightarrow> 2 \<le> maxd \<Longrightarrow>
     visit_depth_all maxd pid tasks [] visited ds 1 = Inr (rev ds @ visited)"
proof (induction ds arbitrary: visited)
  case (Cons d ds)
  have suffix: "finished tasks (xs @ ys) \<Longrightarrow> finished tasks ys" for xs ys
    by (induction xs) auto
  have "finished tasks (d # visited)"
    using suffix [of "rev ds" "d # visited"] Cons.prems(1) by simp
  then have "d \<notin> set visited" and "set (deps_of tasks d) \<subseteq> set visited" by auto
  with Cons.prems(2) have "visit_depth maxd pid tasks [] visited d 1 = Inr (d # visited)"
    by (subst visit_depth.simps) (simp add: visit_all_visited)
  with Cons show ?case by simp
qed simp

section \<open>Content\<close>

lemma cleanRequired_Inr: "cleanRequired s f = Inr n \<longleftrightarrow> n = trim s \<and> n \<noteq> []"
  by (auto simp: cleanRequired_def Let_def)

lemma cloneCheckpoint_idem [simp]: "cloneCheckpoint (cloneCheckpoint c) = cloneCheckpoint c"
  by (simp add: cloneCheckpoint_def)

lemma assertUnique_Inr: "assertUnique vs f = Inr u \<longleftrightarrow> distinct vs"
  by (simp add: assertUnique_def)

lemma validateAndCloneContent_Inr:
  assumes "validateAndCloneContent env pid g c = Inr c'"
  shows "graph_ok (ct_tasks c')" and "ct_tasks c' = ct_tasks c"
    and "3 \<le> length (ct_summary c')" and "int (length (ct_tasks c')) \<le> env_max_tasks env"
    and "\<forall>r\<in>set (ct_capabilities c'). capability_permitted g (req_capability r)"
    and "distinct (map ee_key (ct_evidence c'))"
    and "\<forall>cp\<in>set (ct_approval_checkpoints c' @ ct_completion_conditions c').
      cp_description cp \<noteq> [] \<and> set (cp_depends_on cp) \<subseteq> set (task_ids (ct_tasks c'))"
    and "map cloneCheckpoint (ct_approval_checkpoints c') = ct_approval_checkpoints c'"
    and "map cloneCheckpoint (ct_completion_conditions c') = ct_completion_conditions c'"
  using assms unfolding validateAndCloneContent_def
  by (auto simp: rbind_Inr_iff validateTaskGraph_sound validateRequestedCapabilities_def each_res_Inr_iff
      assertUnique_Inr validateCheckpoints_def cleanRequired_Inr cloneCheckpoint_def)

end
