(* ===== verification/Plan_Store.thy ===== *)
theory Plan_Store
  imports Proposed_Plan
begin

text \<open>
  What the plan manager keeps of its store: the revisions of a plan are numbered without gaps, each
  names its predecessor, all are bound to one Goal and keep the first revision's identity, every
  stored content is a validated one under its own digest, and no revision id occurs twice. From it:
  revisions are immutable, a stale update is refused, and an update based on the current revision
  can succeed only once.
\<close>

section \<open>The invariant\<close>

definition revisions_of :: "string \<Rightarrow> plan_store \<Rightarrow> plan_store" where
  "revisions_of i plans = filter (\<lambda>p. pp_id p = i) plans"

definition plan_ok :: "(js_value \<Rightarrow> string) \<Rightarrow> proposed_plan \<Rightarrow> bool" where
  "plan_ok hash p \<longleftrightarrow>
     pp_contract_version p = 2 \<and> pp_status p = PlanDraft
     \<and> pp_revision_id p = revision_id (pp_id p) (pp_revision_number p)
     \<and> pp_previous_revision p = (if pp_revision_number p = 1 then None
          else Some (revision_id (pp_id p) (pp_revision_number p - 1)))
     \<and> pp_content_hash p = computeProposedPlanHash hash (pp_goal_id p) (pp_content p)
     \<and> rv_revision (pp_current_revision p) = pp_revision_number p
     \<and> rv_revision (pp_created_revision p) = 1
     \<and> graph_ok (ct_tasks (pp_content p))
     \<and> distinct (map ee_key (ct_evidence (pp_content p)))
     \<and> (\<forall>cp\<in>set (ct_approval_checkpoints (pp_content p) @ ct_completion_conditions (pp_content p)).
          cp_description cp \<noteq> [] \<and> set (cp_depends_on cp) \<subseteq> set (task_ids (ct_tasks (pp_content p))))"

definition same_lineage :: "proposed_plan \<Rightarrow> proposed_plan \<Rightarrow> bool" where
  "same_lineage p q \<longleftrightarrow> pp_goal_id p = pp_goal_id q \<and> pp_created_at p = pp_created_at q
     \<and> pp_created_revision p = pp_created_revision q"

lemma same_lineage_refl [simp]: "same_lineage p p"
  by (simp add: same_lineage_def)

lemma same_lineage_sym: "same_lineage p q \<Longrightarrow> same_lineage q p"
  by (simp add: same_lineage_def)

definition lineage_ok :: "plan_store \<Rightarrow> bool" where
  "lineage_ok ps \<longleftrightarrow> numbered pp_revision_number ps
     \<and> (\<forall>p\<in>set ps. \<forall>q\<in>set ps. same_lineage p q)"

definition plan_store_inv :: "(js_value \<Rightarrow> string) \<Rightarrow> plan_store \<Rightarrow> bool" where
  "plan_store_inv hash plans \<longleftrightarrow>
     (\<forall>p\<in>set plans. plan_ok hash p) \<and> (\<forall>i. lineage_ok (revisions_of i plans))"

lemma plan_store_inv_Nil [simp]: "plan_store_inv hash []"
  by (simp add: plan_store_inv_def revisions_of_def lineage_ok_def)

text \<open>On gap-free revisions the \<open>reduce\<close> of \<open>latestRevision\<close> finds the last one.\<close>

lemma latestRevision_snoc:
  "latestRevision (ps @ [p]) = (case latestRevision ps of None \<Rightarrow> Some p
     | Some l \<Rightarrow> if pp_revision_number p > pp_revision_number l then Some p else Some l)"
  by (simp add: latestRevision_def split: option.splits)

lemma latestRevision_last:
  "numbered pp_revision_number ps \<Longrightarrow> latestRevision ps = (if ps = [] then None else Some (last ps))"
proof (induction ps rule: rev_induct)
  case (snoc p ps)
  then show ?case by (simp add: latestRevision_snoc numbered_last)
qed (simp add: latestRevision_def)

lemma latest_in_lineage:
  assumes "lineage_ok (revisions_of i plans)" and "latestRevision (revisions_of i plans) = Some c"
  shows "c \<in> set plans" and "pp_id c = i" and "c \<in> set (revisions_of i plans)"
    and "pp_revision_number c = length (revisions_of i plans)"
proof -
  let ?ps = "revisions_of i plans"
  from assms(1) have nums: "numbered pp_revision_number ?ps" by (simp add: lineage_ok_def)
  from latestRevision_last [OF nums] assms(2) have ne: "?ps \<noteq> []" and c: "c = last ?ps"
    by (auto split: if_splits)
  then show mem: "c \<in> set ?ps" by simp
  then show "c \<in> set plans" and "pp_id c = i" by (auto simp: revisions_of_def)
  from c numbered_last [OF nums ne] show "pp_revision_number c = length ?ps" by simp
qed

lemma plan_store_inv_snoc:
  assumes "plan_store_inv hash plans" and "plan_ok hash p"
    and "pp_revision_number p = Suc (length (revisions_of (pp_id p) plans))"
    and "\<forall>q\<in>set (revisions_of (pp_id p) plans). same_lineage p q"
  shows "plan_store_inv hash (plans @ [p])"
proof -
  have "lineage_ok (revisions_of i (plans @ [p]))" for i
  proof (cases "i = pp_id p")
    case True
    let ?ps = "revisions_of (pp_id p) plans"
    have "lineage_ok ?ps" using assms(1) by (simp add: plan_store_inv_def)
    then have "numbered pp_revision_number ?ps" and "\<forall>q\<in>set ?ps. \<forall>r\<in>set ?ps. same_lineage q r"
      unfolding lineage_ok_def by blast+
    with assms(3,4) have "lineage_ok (?ps @ [p])"
      unfolding lineage_ok_def numbered_snoc by (simp add: same_lineage_sym ball_Un)
    with True show ?thesis by (simp add: revisions_of_def)
  next
    case False
    with assms(1) show ?thesis by (simp add: plan_store_inv_def revisions_of_def)
  qed
  with assms(1,2) show ?thesis by (simp add: plan_store_inv_def)
qed

section \<open>The operations keep it\<close>

lemma createProposedPlan_Inr:
  assumes "createProposedPlan env now fresh input plans = Inr (p, plans')"
  shows "plans' = plans @ [p]" and "plan_ok (env_hash env) p" and "revisions_of (pp_id p) plans = []"
    and "pp_revision_number p = 1" and "pp_goal_id p = trim (in_goal_id input)"
    and "\<exists>g. env_get_goal env (pp_goal_id p) = Some g
      \<and> (\<forall>r\<in>set (ct_capabilities (pp_content p)). capability_permitted g (req_capability r))"
proof -
  from assms obtain i goal_ref g content actor where
    i: "cleanRequired (case in_id input of None \<Rightarrow> fresh | Some i \<Rightarrow> i) ''id'' = Inr i"
    and gr: "cleanRequired (in_goal_id input) ''goalId'' = Inr goal_ref"
    and g: "env_get_goal env goal_ref = Some g"
    and content: "validateAndCloneContent env i g (in_content input) = Inr content"
    and fresh: "\<not> list_ex (\<lambda>p. pp_id p = i) plans"
    and p: "p = clonePlan (buildRevision env i goal_ref PlanDraft now now 1 None actor content None)"
    and plans': "plans' = plans @ [p]"
    by (auto simp: createProposedPlan_def rbind_Inr_iff Let_def requireGoal_def
        split: if_splits option.splits)
  note c = validateAndCloneContent_Inr [OF content]
  have p_eq: "p = buildRevision env i goal_ref PlanDraft now now 1 None actor content None"
    using p c(8,9) by (simp add: clonePlan_def buildRevision_def Let_def)
  show "plans' = plans @ [p]" by (rule plans')
  show "plan_ok (env_hash env) p"
    using c by (simp add: p_eq plan_ok_def buildRevision_def Let_def)
  show "revisions_of (pp_id p) plans = []"
    using fresh by (auto simp: p_eq buildRevision_def Let_def revisions_of_def filter_empty_conv list_ex_iff)
  show "pp_revision_number p = 1" and "pp_goal_id p = trim (in_goal_id input)"
    using gr by (simp_all add: p_eq buildRevision_def Let_def cleanRequired_Inr)
  show "\<exists>g. env_get_goal env (pp_goal_id p) = Some g
      \<and> (\<forall>r\<in>set (ct_capabilities (pp_content p)). capability_permitted g (req_capability r))"
    using g c(5) by (simp add: p_eq buildRevision_def Let_def)
qed

lemma updateProposedPlan_Inr:
  assumes inv: "plan_store_inv hash plans" and env: "env_hash env = hash"
    and ok: "updateProposedPlan env now i u plans = Inr (p, plans')"
  obtains current where "latestRevision (revisions_of i plans) = Some current"
    and "pp_revision_id current = trim (up_expected_revision u)"
    and "plans' = plans @ [p]" and "plan_ok hash p" and "pp_id p = i"
    and "pp_revision_number p = Suc (pp_revision_number current)"
    and "same_lineage p current"
    and "\<exists>g. env_get_goal env (pp_goal_id p) = Some g
      \<and> (\<forall>r\<in>set (ct_capabilities (pp_content p)). capability_permitted g (req_capability r))"
proof -
  from ok obtain current g content actor where
    latest: "latestRevision (revisions_of i plans) = Some current"
    and rev: "pp_revision_id current = trim (up_expected_revision u)"
    and g: "env_get_goal env (pp_goal_id current) = Some g"
    and content: "validateAndCloneContent env i g (updated_content u (pp_content current)) = Inr content"
    and p: "p = clonePlan (buildRevision env (pp_id current) (pp_goal_id current) (pp_status current)
        (pp_created_at current) now (pp_revision_number current + 1) (Some (pp_revision_id current))
        actor content (Some (pp_created_revision current)))"
    and plans': "plans' = plans @ [p]"
    by (auto simp: updateProposedPlan_def rbind_Inr_iff Let_def requireGoal_def revisions_of_def
        cleanRequired_Inr split: if_splits option.splits)
  note c = validateAndCloneContent_Inr [OF content]
  have p_eq: "p = buildRevision env (pp_id current) (pp_goal_id current) (pp_status current)
        (pp_created_at current) now (pp_revision_number current + 1) (Some (pp_revision_id current))
        actor content (Some (pp_created_revision current))"
    using p c(8,9) by (simp add: clonePlan_def buildRevision_def Let_def)
  have lineage: "lineage_ok (revisions_of i plans)" using inv by (simp add: plan_store_inv_def)
  note cur = latest_in_lineage [OF this latest]
  then have cur_ok: "plan_ok hash current" using inv by (simp add: plan_store_inv_def)
  have pos: "pp_revision_number current \<noteq> 0"
    using cur(3,4) by (metis length_0_conv list.set(1) empty_iff)
  show ?thesis
  proof (rule that [OF latest rev plans'])
    show "plan_ok hash p"
      using c cur_ok pos env by (simp add: p_eq plan_ok_def buildRevision_def Let_def)
    show "pp_id p = i" and "pp_revision_number p = Suc (pp_revision_number current)"
      and "same_lineage p current"
      using cur(2) by (simp_all add: p_eq buildRevision_def Let_def same_lineage_def)
    show "\<exists>g. env_get_goal env (pp_goal_id p) = Some g
      \<and> (\<forall>r\<in>set (ct_capabilities (pp_content p)). capability_permitted g (req_capability r))"
      using g c(5) by (simp add: p_eq buildRevision_def Let_def)
  qed
qed

text \<open>A call of the manager, with the bounds, the goals and the clock of its moment.\<close>

datatype plan_call =
  CreateCall plan_env string string create_plan_input
| UpdateCall plan_env string string update_plan_input

fun plan_call_step :: "(js_value \<Rightarrow> string) \<Rightarrow> plan_call \<Rightarrow> plan_store \<Rightarrow> plan_store" where
  "plan_call_step hash (CreateCall env now fresh input) plans =
     (case createProposedPlan (env\<lparr>env_hash := hash\<rparr>) now fresh input plans of
        Inl _ \<Rightarrow> plans | Inr (_, plans') \<Rightarrow> plans')"
| "plan_call_step hash (UpdateCall env now i u) plans =
     (case updateProposedPlan (env\<lparr>env_hash := hash\<rparr>) now i u plans of
        Inl _ \<Rightarrow> plans | Inr (_, plans') \<Rightarrow> plans')"

lemma plan_call_step_extends: "prefix plans (plan_call_step hash call plans)"
proof (cases call)
  case (CreateCall env now fresh input)
  then show ?thesis by (auto split: sum.splits dest: createProposedPlan_Inr(1))
next
  case (UpdateCall env now i u)
  then show ?thesis
    by (auto simp: updateProposedPlan_def rbind_Inr_iff Let_def split: sum.splits option.splits if_splits)
qed

lemma plan_call_step_inv:
  assumes inv: "plan_store_inv hash plans"
  shows "plan_store_inv hash (plan_call_step hash call plans)"
proof (cases call)
  case (CreateCall env now fresh input)
  show ?thesis
  proof (cases "createProposedPlan (env\<lparr>env_hash := hash\<rparr>) now fresh input plans")
    case (Inr r)
    then obtain p plans' where r: "createProposedPlan (env\<lparr>env_hash := hash\<rparr>) now fresh input plans = Inr (p, plans')"
      by (cases r) simp
    note c = createProposedPlan_Inr [OF r]
    have "plan_store_inv hash (plans @ [p])"
      using inv c by (intro plan_store_inv_snoc) simp_all
    with CreateCall r c(1) show ?thesis by simp
  qed (simp add: CreateCall inv)
next
  case (UpdateCall env now i u)
  show ?thesis
  proof (cases "updateProposedPlan (env\<lparr>env_hash := hash\<rparr>) now i u plans")
    case (Inr r)
    then obtain p plans' where r: "updateProposedPlan (env\<lparr>env_hash := hash\<rparr>) now i u plans = Inr (p, plans')"
      by (cases r) simp
    from updateProposedPlan_Inr [OF inv _ r] obtain current where
      latest: "latestRevision (revisions_of i plans) = Some current"
      and p: "plans' = plans @ [p]" "plan_ok hash p" "pp_id p = i"
      and num: "pp_revision_number p = Suc (pp_revision_number current)"
      and same: "same_lineage p current"
      by auto
    have lineage: "lineage_ok (revisions_of i plans)" using inv by (simp add: plan_store_inv_def)
    note cur = latest_in_lineage [OF this latest]
    have "\<forall>q\<in>set (revisions_of i plans). same_lineage current q"
      using lineage cur(3) unfolding lineage_ok_def by blast
    with same have "\<forall>q\<in>set (revisions_of i plans). same_lineage p q"
      by (simp add: same_lineage_def)
    then have "plan_store_inv hash (plans @ [p])"
      using inv p num cur(4) by (intro plan_store_inv_snoc) simp_all
    with UpdateCall r p show ?thesis by simp
  qed (simp add: UpdateCall inv)
qed

lemma revision_id_inject: "revision_id i m = revision_id j n \<longleftrightarrow> i = j \<and> m = n"
  using numeral_suffix_inject [of "i @ '':rev''" "CHR '':''" m "j @ '':rev''" n]
  by (auto simp: revision_id_def is_digit_def)

lemma plan_store_distinct:
  assumes inv: "plan_store_inv hash plans"
  shows "distinct (map pp_revision_id plans)"
proof -
  have "distinct (map pp_revision_id plans)"
    if "\<forall>p\<in>set plans. pp_revision_id p = revision_id (pp_id p) (pp_revision_number p)"
      and "\<forall>i. distinct (map pp_revision_number (revisions_of i plans))" for plans
    using that
  proof (induction plans)
    case (Cons p ps)
    have "pp_revision_id p \<noteq> pp_revision_id q" if "q \<in> set ps" for q
    proof
      assume "pp_revision_id p = pp_revision_id q"
      with Cons.prems(1) that have "pp_id q = pp_id p" "pp_revision_number q = pp_revision_number p"
        by (auto simp: revision_id_inject)
      with that Cons.prems(2) [rule_format, of "pp_id p"] show False
        by (auto simp: revisions_of_def image_iff)
    qed
    moreover have "distinct (map pp_revision_number (revisions_of i ps))" for i
      using Cons.prems(2) [rule_format, of i] by (auto simp: revisions_of_def split: if_splits)
    ultimately show ?case using Cons by auto
  qed simp
  then show ?thesis
    using inv by (auto simp: plan_store_inv_def plan_ok_def lineage_ok_def numbered_distinct)
qed

interpretation plan_log: keyed_log "\<lambda>s. s" "plan_call_step hash" "plan_store_inv hash" pp_revision_id for hash
  by unfold_locales (simp_all add: plan_call_step_extends plan_call_step_inv plan_store_distinct)

section \<open>Properties\<close>


text \<open>
  A revision is immutable: the revision found under a revision id now is the one found under
  it after any later calls.
\<close>

theorem plan_revision_immutable:
  assumes "plan_store_inv hash plans" and "p \<in> set plans"
    and "q \<in> set (fold (plan_call_step hash) calls plans)" and "pp_revision_id q = pp_revision_id p"
  shows "q = p"
  by (rule plan_log.lookup_stable [OF assms])

text \<open>
  No update is lost: of two updates that expect the same current revision, in any contents and
  at any time, only the first can succeed; the second is refused with the revision the first wrote.
\<close>

theorem stale_update_refused:
  assumes inv: "plan_store_inv hash plans" and env: "env_hash env = hash"
    and first: "updateProposedPlan env now i u plans = Inr (p, plans')"
    and same: "trim (up_expected_revision u') = trim (up_expected_revision u)"
  shows "updateProposedPlan env' now' i u' plans'
    = Inl (PlanRevisionConflict i (trim (up_expected_revision u)) (pp_revision_id p))"
proof -
  from updateProposedPlan_Inr [OF inv env first] obtain current where
    latest: "latestRevision (revisions_of i plans) = Some current"
    and rev: "pp_revision_id current = trim (up_expected_revision u)"
    and p: "plans' = plans @ [p]" "plan_ok hash p" "pp_id p = i"
      "pp_revision_number p = Suc (pp_revision_number current)" by blast
  have "lineage_ok (revisions_of i plans)" using inv by (simp add: plan_store_inv_def)
  note cur = latest_in_lineage [OF this latest]
  have new: "latestRevision (filter (\<lambda>q. pp_id q = i) plans') = Some p"
    using latest p by (simp add: latestRevision_snoc revisions_of_def)
  have "plan_ok hash current" using inv cur(1) by (simp add: plan_store_inv_def)
  with cur(2) p have "pp_revision_id p \<noteq> pp_revision_id current"
    by (simp add: plan_ok_def revision_id_inject)
  moreover have "trim (up_expected_revision u) \<noteq> []"
    using first by (auto simp: updateProposedPlan_def rbind_Inr_iff cleanRequired_Inr)
  ultimately show ?thesis
    using new rev same by (auto simp: updateProposedPlan_def cleanRequired_def Let_def)
qed

text \<open>
  A successful update is based on the plan's current revision, appends exactly one revision,
  keeps the plan's identity and Goal, and asks only for capabilities the Goal permits at that moment.
\<close>

theorem update_extends_lineage:
  assumes "plan_store_inv hash plans" and "env_hash env = hash"
    and "updateProposedPlan env now i u plans = Inr (p, plans')"
  shows "\<exists>current g. latestRevision (revisions_of i plans) = Some current
    \<and> pp_revision_id current = trim (up_expected_revision u) \<and> plans' = plans @ [p]
    \<and> pp_id p = i \<and> pp_revision_number p = Suc (pp_revision_number current) \<and> same_lineage p current
    \<and> env_get_goal env (pp_goal_id p) = Some g
    \<and> (\<forall>r\<in>set (ct_capabilities (pp_content p)). capability_permitted g (req_capability r))"
  using updateProposedPlan_Inr [OF assms] by metis

text \<open>
  The depth bound of the task graph depends on the order in which the tasks are listed: a task
  counts from the first task that leads to it, and a visited task is not entered again. Any list in
  which every task comes after its dependencies passes with a bound of 2, however deep the graph is.
\<close>

theorem depth_bound_needs_order:
  assumes "distinct (task_ids tasks)" and "finished tasks (rev (task_ids tasks))"
    and "\<forall>t\<in>set tasks. set (depends_on t) \<subseteq> set (task_ids tasks)" and "2 \<le> env_max_depth env"
  shows "validateTaskGraph env pid tasks = Inr ()"
  using assms visit_depth_dependencies_first [of tasks "task_ids tasks" "[]"]
  by (simp add: validateTaskGraph_def assertUnique_Inr rbind_Inr_iff validateTaskGraph_known)

subsection \<open>The properties at a concrete store\<close>

definition chain_task :: "string \<Rightarrow> string list \<Rightarrow> mission_task" where
  "chain_task i ds = \<lparr>task_id = i, task_title = i, task_objective = i, task_status = TaskPending,
     depends_on = ds, evidence_requirements = []\<rparr>"

definition chain_tasks :: "mission_task list" where
  "chain_tasks = [chain_task ''a'' [], chain_task ''b'' [''a''], chain_task ''c'' [''b''], chain_task ''d'' [''c'']]"

definition sample_env :: plan_env where
  "sample_env = \<lparr>env_max_depth = 2, env_max_tasks = 50,
     env_get_goal = (\<lambda>i. if i = ''g1'' then Some scoped_goal else None), env_hash = (\<lambda>_. ''h'')\<rparr>"

definition sample_input :: create_plan_input where
  "sample_input = \<lparr>in_goal_id = '' g1'', in_content = \<lparr>ct_summary = ''do it'', ct_tasks = chain_tasks,
       ct_capabilities = [\<lparr>req_capability = ''public_web_research'', req_version = None\<rparr>],
       ct_evidence = [], ct_approval_checkpoints = [], ct_completion_conditions = []\<rparr>,
     in_id = Some ''p1'', in_changed_by = None\<rparr>"

definition sample_update :: update_plan_input where
  "sample_update = \<lparr>up_expected_revision = ''p1:rev:1'', up_summary = Some ''do more'', up_tasks = None,
     up_capabilities = None, up_evidence = None, up_approval_checkpoints = None,
     up_completion_conditions = None, up_changed_by = Some ''owner''\<rparr>"

definition sample_plans :: plan_store where
  "sample_plans = plan_call_step (\<lambda>_. ''h'') (CreateCall sample_env ''t1'' ''fresh'' sample_input) []"

lemma sample_plans_inv: "plan_store_inv (\<lambda>_. ''h'') sample_plans"
  unfolding sample_plans_def by (rule plan_call_step_inv) simp

lemma sample_plans_ids: "map pp_revision_id sample_plans = [''p1:rev:1'']"
  by code_simp

lemma sample_update_ok:
  "map_sum id (\<lambda>(p, plans'). (pp_revision_id p, map pp_revision_id plans'))
     (updateProposedPlan sample_env ''t2'' ''p1'' sample_update sample_plans)
   = Inr (''p1:rev:2'', [''p1:rev:1'', ''p1:rev:2''])"
  by code_simp

lemma sample_update_Inr:
  obtains p plans' where "updateProposedPlan sample_env ''t2'' ''p1'' sample_update sample_plans = Inr (p, plans')"
    and "pp_revision_id p = ''p1:rev:2''"
  using sample_update_ok
  by (cases "updateProposedPlan sample_env ''t2'' ''p1'' sample_update sample_plans") auto

theorem plan_revision_immutable_witness:
  "\<not> (\<exists>q. q \<in> set (fold (plan_call_step (\<lambda>_. ''h'')) [UpdateCall sample_env ''t2'' ''p1'' sample_update] sample_plans)
     \<and> pp_revision_id q = pp_revision_id (hd sample_plans) \<and> q \<noteq> hd sample_plans)"
proof -
  have "hd sample_plans \<in> set sample_plans" using sample_plans_ids by (metis hd_in_set list.map_disc_iff list.distinct(1))
  from plan_revision_immutable [OF sample_plans_inv this] show ?thesis by blast
qed

theorem stale_update_refused_witness:
  "\<exists>p plans'. updateProposedPlan sample_env ''t2'' ''p1'' sample_update sample_plans = Inr (p, plans')
     \<and> updateProposedPlan sample_env ''t3'' ''p1'' (sample_update\<lparr>up_summary := Some ''other''\<rparr>) plans'
       = Inl (PlanRevisionConflict ''p1'' ''p1:rev:1'' ''p1:rev:2'')"
proof -
  obtain p plans' where ok: "updateProposedPlan sample_env ''t2'' ''p1'' sample_update sample_plans = Inr (p, plans')"
    and p: "pp_revision_id p = ''p1:rev:2''" by (rule sample_update_Inr)
  have "trim (up_expected_revision sample_update) = ''p1:rev:1''" by code_simp
  with stale_update_refused [OF sample_plans_inv _ ok, of "sample_update\<lparr>up_summary := Some ''other''\<rparr>"] ok p
  show ?thesis by (auto simp: sample_env_def sample_update_def)
qed

theorem update_extends_lineage_witness:
  "\<exists>p plans'. updateProposedPlan sample_env ''t2'' ''p1'' sample_update sample_plans = Inr (p, plans')
     \<and> plans' = sample_plans @ [p] \<and> pp_id p = ''p1''"
proof -
  obtain p plans' where ok: "updateProposedPlan sample_env ''t2'' ''p1'' sample_update sample_plans = Inr (p, plans')"
    by (rule sample_update_Inr)
  with update_extends_lineage [OF sample_plans_inv _ ok] show ?thesis by (auto simp: sample_env_def)
qed

lemma chain_tasks_listed: "distinct (task_ids chain_tasks)" "finished chain_tasks (rev (task_ids chain_tasks))"
  "\<forall>t\<in>set chain_tasks. set (depends_on t) \<subseteq> set (task_ids chain_tasks)"
  by code_simp+

theorem depth_bound_needs_order_witness:
  "validateTaskGraph sample_env ''p1'' chain_tasks = Inr ()
    \<and> validateTaskGraph sample_env ''p1'' (rev chain_tasks)
      = Inl (PlanDependency ''p1'' ''b'' (DepthExceeded 2))"
proof
  show "validateTaskGraph sample_env ''p1'' chain_tasks = Inr ()"
    by (rule depth_bound_needs_order [OF chain_tasks_listed]) (simp add: sample_env_def)
  show "validateTaskGraph sample_env ''p1'' (rev chain_tasks) = Inl (PlanDependency ''p1'' ''b'' (DepthExceeded 2))"
    by code_simp
qed

end
