(* ===== verification/Gated_Plans.thy ===== *)
theory Gated_Plans
  imports Plan_Store
begin

text \<open>
  The plan service in front of the plan manager
  (\<open>capability/capability-gated-proposed-plan-service.ts\<close>): it looks the Goal up, asks the
  capability registry for every requested capability, and only then calls the manager.
\<close>

datatype gated_error = GatePlan plan_error | GateCapability capability_error

definition of_plan :: "plan_error + 'a \<Rightarrow> gated_error + 'a" where
  "of_plan r = map_sum GatePlan id r"

definition of_capability :: "capability_error + 'a \<Rightarrow> gated_error + 'a" where
  "of_capability r = map_sum GateCapability id r"

lemma of_plan_Inr [simp]: "of_plan r = Inr x \<longleftrightarrow> r = Inr x"
  by (cases r) (simp_all add: of_plan_def)

lemma of_capability_Inr [simp]: "of_capability r = Inr x \<longleftrightarrow> r = Inr x"
  by (cases r) (simp_all add: of_capability_def)

section \<open>The service\<close>

definition gated_create ::
  "capability_registry \<Rightarrow> plan_env \<Rightarrow> string \<Rightarrow> string \<Rightarrow> create_plan_input \<Rightarrow> plan_store
   \<Rightarrow> gated_error + (proposed_plan \<times> plan_store)" where
  "gated_create reg env now fresh input plans =
     (case env_get_goal env (in_goal_id input) of
        None \<Rightarrow> Inl (GatePlan (GoalNotFoundForPlan (case_option ''unknown'' id (in_id input)) (in_goal_id input)))
      | Some goal \<Rightarrow>
          rbind (of_capability (authorizeRequests reg (ct_capabilities (in_content input)) goal
            (case_option ''pending'' id (in_id input)))) (\<lambda>_.
          of_plan (createProposedPlan env now fresh input plans)))"

definition gated_update ::
  "capability_registry \<Rightarrow> plan_env \<Rightarrow> string \<Rightarrow> string \<Rightarrow> update_plan_input \<Rightarrow> plan_store
   \<Rightarrow> gated_error + (proposed_plan \<times> plan_store)" where
  "gated_update reg env now i u plans =
     (case getProposedPlan i plans of
        None \<Rightarrow> Inl (GatePlan (PlanNotFound i))
      | Some current \<Rightarrow> (case env_get_goal env (pp_goal_id current) of
          None \<Rightarrow> Inl (GatePlan (GoalNotFoundForPlan i (pp_goal_id current)))
        | Some goal \<Rightarrow>
            rbind (of_capability (authorizeRequests reg
              (case_option (ct_capabilities (pp_content current)) id (up_capabilities u)) goal i)) (\<lambda>_.
            of_plan (updateProposedPlan env now i u plans))))"

section \<open>What the gate adds\<close>

text \<open>
  The gate asks about the requests as the caller wrote them, the manager stores them cleaned; the
  answer is the same.
\<close>

lemma clean_capability_trim: "clean_capability (trim s) f = clean_capability s f"
  by (simp add: clean_capability_def Let_def)

lemma clean_request_Inr:
  "clean_request r = Inr r' \<Longrightarrow>
     req_capability r' = trim (req_capability r) \<and> req_version r' = map_option trim (req_version r)"
  by (auto simp: clean_request_def rbind_Inr_iff cleanRequired_Inr split: option.splits)

lemma authorizable_clean:
  "clean_request r = Inr r' \<Longrightarrow> authorizable reg r' ctx d = authorizable reg r ctx d"
  using clean_request_Inr [of r r']
  by (auto simp: authorizable_def Let_def clean_capability_trim)

lemma authorizeRequests_Inr:
  "authorizeRequests reg rs g pid = Inr u \<longleftrightarrow> (\<forall>r\<in>set rs. \<exists>d. authorizable reg r (gated_context pid g) d)"
  by (auto simp: authorizeRequests_def each_res_Inr_iff rbind_Inr_iff authorize_Inr_iff)

lemma content_authorized:
  assumes "authorizeRequests reg (ct_capabilities c) g pid = Inr u"
    and "validateAndCloneContent env i g' c = Inr c'" and "r \<in> set (ct_capabilities c')"
  shows "\<exists>d. authorizable reg r (gated_context pid g) d"
proof -
  from assms(2) have "map_res clean_request (ct_capabilities c) = Inr (ct_capabilities c')"
    by (auto simp: validateAndCloneContent_def rbind_Inr_iff)
  from map_res_set [OF this assms(3)] obtain r0 where "r0 \<in> set (ct_capabilities c)"
    and "clean_request r0 = Inr r" by blast
  with assms(1) show ?thesis by (auto simp: authorizeRequests_Inr authorizable_clean)
qed

lemma createProposedPlan_content:
  assumes "createProposedPlan env now fresh input plans = Inr (p, plans')"
  shows "\<exists>i g c. validateAndCloneContent env i g (in_content input) = Inr c
    \<and> ct_capabilities (pp_content p) = ct_capabilities c"
  using assms
  by (auto simp: createProposedPlan_def rbind_Inr_iff Let_def clonePlan_def buildRevision_def
      split: if_splits intro!: exI)

lemma updateProposedPlan_content:
  assumes "updateProposedPlan env now i u plans = Inr (p, plans')"
    and "latestRevision (filter (\<lambda>p. pp_id p = i) plans) = Some current"
  shows "\<exists>g c. validateAndCloneContent env i g (updated_content u (pp_content current)) = Inr c
    \<and> ct_capabilities (pp_content p) = ct_capabilities c \<and> pp_goal_id p = pp_goal_id current"
  using assms
  by (auto simp: updateProposedPlan_def rbind_Inr_iff Let_def clonePlan_def buildRevision_def
      split: if_splits) blast

section \<open>Properties\<close>

text \<open>
  Through the gate, a plan is stored only if the registry authorizes each capability the stored
  revision asks for, under the Goal the gate looked up: on creation, and on every update, whether the
  update names capabilities or keeps those of the current revision.
\<close>

theorem gated_plan_authorized:
  assumes "gated_create reg env now fresh input plans = Inr (p, plans')
    \<or> gated_update reg env now i u plans = Inr (p, plans')"
  shows "plans' = plans @ [p] \<and> (\<exists>g pid. (env_get_goal env (in_goal_id input) = Some g \<or> env_get_goal env (pp_goal_id p) = Some g)
    \<and> (\<forall>r\<in>set (ct_capabilities (pp_content p)). \<exists>d. authorizable reg r (gated_context pid g) d))"
  using assms
proof
  assume "gated_create reg env now fresh input plans = Inr (p, plans')"
  then obtain g where g: "env_get_goal env (in_goal_id input) = Some g"
    and auth: "authorizeRequests reg (ct_capabilities (in_content input)) g (case_option ''pending'' id (in_id input)) = Inr ()"
    and create: "createProposedPlan env now fresh input plans = Inr (p, plans')"
    by (auto simp: gated_create_def rbind_Inr_iff split: option.splits)
  from createProposedPlan_content [OF create] g content_authorized [OF auth] createProposedPlan_Inr(1) [OF create]
  show ?thesis by metis
next
  assume "gated_update reg env now i u plans = Inr (p, plans')"
  then obtain current g where latest: "latestRevision (filter (\<lambda>p. pp_id p = i) plans) = Some current"
    and g: "env_get_goal env (pp_goal_id current) = Some g"
    and auth: "authorizeRequests reg (ct_capabilities (updated_content u (pp_content current))) g i = Inr ()"
    and update: "updateProposedPlan env now i u plans = Inr (p, plans')"
    by (auto simp: gated_update_def getProposedPlan_def rbind_Inr_iff clonePlan_def updated_content_def
        split: option.splits)
  have "plans' = plans @ [p]"
    using update by (auto simp: updateProposedPlan_def rbind_Inr_iff Let_def split: option.splits if_splits)
  with updateProposedPlan_content [OF update latest] g content_authorized [OF auth]
  show ?thesis by metis
qed

definition sample_registry :: capability_registry where
  "sample_registry = [(''public_web_research'', web_search\<lparr>cap_id := ''public_web_research''\<rparr>)]"

lemma gated_sample_ok:
  "map_sum id (\<lambda>(p, plans'). (pp_revision_id p, ct_capabilities (pp_content p)))
     (gated_create sample_registry
       (sample_env\<lparr>env_get_goal := \<lambda>_. Some (scoped_goal\<lparr>goal_constraints := no_constraints\<rparr>)\<rparr>)
       ''t'' ''fresh'' sample_input [])
   = Inr (''p1:rev:1'', [\<lparr>req_capability = ''public_web_research'', req_version = None\<rparr>])"
  by code_simp

theorem gated_plan_authorized_witness:
  "\<exists>pid g d. authorizable sample_registry \<lparr>req_capability = ''public_web_research'', req_version = None\<rparr>
     (gated_context pid g) d"
proof -
  let ?env = "sample_env\<lparr>env_get_goal := \<lambda>_. Some (scoped_goal\<lparr>goal_constraints := no_constraints\<rparr>)\<rparr>"
  obtain p plans' where ok: "gated_create sample_registry ?env ''t'' ''fresh'' sample_input [] = Inr (p, plans')"
    and p: "ct_capabilities (pp_content p) = [\<lparr>req_capability = ''public_web_research'', req_version = None\<rparr>]"
    using gated_sample_ok by (cases "gated_create sample_registry ?env ''t'' ''fresh'' sample_input []") auto
  have "\<exists>g pid. \<forall>r\<in>set (ct_capabilities (pp_content p)). \<exists>d. authorizable sample_registry r (gated_context pid g) d"
    using gated_plan_authorized [of sample_registry ?env, OF disjI1 [OF ok]] by blast
  then show ?thesis by (simp add: p) blast
qed

end
