(* ===== verification/Approval.thy ===== *)
theory Approval
  imports Gated_Plans
begin

text \<open>
  Risk and approval (\<open>approval/plan-risk-assessor.ts\<close>, \<open>approval-manager.ts\<close>,
  \<open>approval-contract.ts\<close>, \<open>approval-errors.ts\<close>). The assessor derives, from the registry and the
  Goal, how much approval each capability of a plan needs. The manager records a decision on one
  revision of a plan as a receipt whose id is a digest of what was decided. Parameters: the digest
  \<open>hash\<close> (\<open>stableHash\<close>) and the clock reading.
\<close>

section \<open>Data\<close>

datatype approval_requirement = ApprovalNone | ApprovalPolicy | ApprovalExplicit
datatype approval_decision = Approved | Rejected

record capability_risk_assessment =
  ra_capability :: string
  ra_risk :: capability_risk
  ra_requirement :: approval_requirement
  ra_reasons :: "string list"

record plan_risk_assessment =
  pa_plan_id :: string
  pa_highest_risk :: capability_risk
  pa_requirement :: approval_requirement
  pa_capabilities :: "capability_risk_assessment list"

record approval_receipt =
  ar_id :: string
  ar_plan_id :: string
  ar_revision_id :: string
  ar_decision :: approval_decision
  ar_capabilities :: "string list"
  ar_decided_by :: string
  ar_decided_at :: string

record approval_decision_input =
  ad_plan_id :: string
  ad_revision_id :: string
  ad_decision :: approval_decision
  ad_capabilities :: "string list"
  ad_decided_by :: string

datatype approval_error =
  InvalidApprovalInput string
| ApprovalCapabilityMismatch string
| ApprovalRevisionMismatch string

text \<open>\<open>RISK_ORDER\<close> and \<open>APPROVAL_ORDER\<close>: the position in the array is the order.\<close>

definition RISK_ORDER :: "capability_risk \<Rightarrow> nat" where
  "RISK_ORDER r = (case r of R0_observe \<Rightarrow> 0 | R1_reversible \<Rightarrow> 1 | R2_external \<Rightarrow> 2 | R3_irreversible \<Rightarrow> 3)"

definition APPROVAL_ORDER :: "approval_requirement \<Rightarrow> nat" where
  "APPROVAL_ORDER r = (case r of ApprovalNone \<Rightarrow> 0 | ApprovalPolicy \<Rightarrow> 1 | ApprovalExplicit \<Rightarrow> 2)"

lemma RISK_ORDER_inject [simp]: "RISK_ORDER r = RISK_ORDER s \<longleftrightarrow> r = s"
  by (cases r; cases s) (simp_all add: RISK_ORDER_def)

lemma APPROVAL_ORDER_inject [simp]: "APPROVAL_ORDER r = APPROVAL_ORDER s \<longleftrightarrow> r = s"
  by (cases r; cases s) (simp_all add: APPROVAL_ORDER_def)

instantiation capability_risk :: linorder
begin

definition less_eq_capability_risk :: "capability_risk \<Rightarrow> capability_risk \<Rightarrow> bool" where
  "less_eq_capability_risk r s \<longleftrightarrow> RISK_ORDER r \<le> RISK_ORDER s"

definition less_capability_risk :: "capability_risk \<Rightarrow> capability_risk \<Rightarrow> bool" where
  "less_capability_risk r s \<longleftrightarrow> RISK_ORDER r < RISK_ORDER s"

instance
  by standard (auto simp: less_eq_capability_risk_def less_capability_risk_def dest: antisym)

end

instantiation approval_requirement :: linorder
begin

definition less_eq_approval_requirement :: "approval_requirement \<Rightarrow> approval_requirement \<Rightarrow> bool" where
  "less_eq_approval_requirement r s \<longleftrightarrow> APPROVAL_ORDER r \<le> APPROVAL_ORDER s"

definition less_approval_requirement :: "approval_requirement \<Rightarrow> approval_requirement \<Rightarrow> bool" where
  "less_approval_requirement r s \<longleftrightarrow> APPROVAL_ORDER r < APPROVAL_ORDER s"

instance
  by standard (auto simp: less_eq_approval_requirement_def less_approval_requirement_def dest: antisym)

end

section \<open>Risk assessment\<close>

definition riskRequirement :: "capability_risk \<Rightarrow> approval_requirement" where
  "riskRequirement r = (case r of R0_observe \<Rightarrow> ApprovalNone | R1_reversible \<Rightarrow> ApprovalPolicy
     | R2_external \<Rightarrow> ApprovalExplicit | R3_irreversible \<Rightarrow> ApprovalExplicit)"

definition goalApprovalRequirement :: "approval_policy \<Rightarrow> approval_requirement" where
  "goalApprovalRequirement p = (case p of PolicyNone \<Rightarrow> ApprovalNone | PolicyCheckpoints \<Rightarrow> ApprovalPolicy
     | PolicyCustom \<Rightarrow> ApprovalPolicy | PolicyAllActions \<Rightarrow> ApprovalExplicit)"

definition maxApproval :: "approval_requirement \<Rightarrow> approval_requirement \<Rightarrow> approval_requirement" where
  "maxApproval l r = (if APPROVAL_ORDER r > APPROVAL_ORDER l then r else l)"

definition risk_name :: "capability_risk \<Rightarrow> string" where
  "risk_name r = (case r of R0_observe \<Rightarrow> ''r0_observe'' | R1_reversible \<Rightarrow> ''r1_reversible''
     | R2_external \<Rightarrow> ''r2_external'' | R3_irreversible \<Rightarrow> ''r3_irreversible'')"

definition policy_name :: "approval_policy \<Rightarrow> string" where
  "policy_name p = (case p of PolicyNone \<Rightarrow> ''none'' | PolicyCheckpoints \<Rightarrow> ''checkpoints''
     | PolicyAllActions \<Rightarrow> ''all_actions'' | PolicyCustom \<Rightarrow> ''custom'')"

text \<open>The body of the \<open>map\<close> over the requested capabilities.\<close>

definition assess_capability ::
  "capability_registry \<Rightarrow> authorization_context \<Rightarrow> universal_goal \<Rightarrow> capability_request
   \<Rightarrow> capability_error + capability_risk_assessment" where
  "assess_capability reg ctx goal request =
     rbind (authorize reg request ctx) (\<lambda>a.
       let d = auth_definition a;
           by_risk = riskRequirement (cap_risk d);
           (by_consent, consent_reasons) = (case cap_consent d of
               ConsentAlways \<Rightarrow> (maxApproval by_risk ApprovalExplicit, [''capability_consent:always''])
             | ConsentPolicy \<Rightarrow> (maxApproval by_risk ApprovalPolicy, [''capability_consent:policy''])
             | ConsentNone \<Rightarrow> (by_risk, []));
           by_goal = goalApprovalRequirement (approval_policy (approval_config goal)) in
       Inr \<lparr>ra_capability = cap_id d, ra_risk = cap_risk d,
         ra_requirement = maxApproval by_consent by_goal,
         ra_reasons = [''risk:'' @ risk_name (cap_risk d)] @ consent_reasons
           @ (if by_goal \<noteq> ApprovalNone
              then [''goal_approval:'' @ policy_name (approval_policy (approval_config goal))] else [])\<rparr>)"

definition assess :: "capability_registry \<Rightarrow> proposed_plan \<Rightarrow> universal_goal \<Rightarrow> capability_error + plan_risk_assessment" where
  "assess reg plan goal =
     rbind (map_res (assess_capability reg (authorizationContext (pp_id plan) goal) goal)
        (ct_capabilities (pp_content plan))) (\<lambda>assessments.
     Inr \<lparr>pa_plan_id = pp_id plan,
       pa_highest_risk = foldl (\<lambda>highest a. if RISK_ORDER (ra_risk a) > RISK_ORDER highest then ra_risk a
          else highest) R0_observe assessments,
       pa_requirement = foldl (\<lambda>highest a. maxApproval highest (ra_requirement a))
          (goalApprovalRequirement (approval_policy (approval_config goal))) assessments,
       pa_capabilities = assessments\<rparr>)"

section \<open>Decisions\<close>

definition clean_approval :: "string \<Rightarrow> string \<Rightarrow> approval_error + string" where
  "clean_approval s field = clean_within 240 (InvalidApprovalInput field) s"

definition decision_name :: "approval_decision \<Rightarrow> string" where
  "decision_name d = (case d of Approved \<Rightarrow> ''approved'' | Rejected \<Rightarrow> ''rejected'')"

definition approval_id ::
  "(js_value \<Rightarrow> string) \<Rightarrow> string \<Rightarrow> string \<Rightarrow> approval_decision \<Rightarrow> string list \<Rightarrow> string \<Rightarrow> string" where
  "approval_id hash plan revision decision caps actor = ''approval:'' @ hash (JObject
     [(''planId'', JString plan), (''revisionId'', JString revision),
      (''decision'', JString (decision_name decision)), (''approvedCapabilities'', strings_value caps),
      (''decidedBy'', JString actor)])"

definition requested_capabilities :: "proposed_plan \<Rightarrow> string list" where
  "requested_capabilities plan = sort_units (uniq (map req_capability (ct_capabilities (pp_content plan))))"

definition decide ::
  "(js_value \<Rightarrow> string) \<Rightarrow> string \<Rightarrow> proposed_plan \<Rightarrow> approval_decision_input \<Rightarrow> approval_receipt list
   \<Rightarrow> approval_error + (approval_receipt \<times> approval_receipt list)" where
  "decide hash now plan input receipts =
     rbind (clean_approval (ad_plan_id input) ''planId'') (\<lambda>pid.
     rbind (clean_approval (ad_revision_id input) ''revisionId'') (\<lambda>rid.
     rbind (clean_approval (ad_decided_by input) ''decidedBy'') (\<lambda>actor.
     if pid \<noteq> pp_id plan \<or> rid \<noteq> pp_revision_id plan then Inl (ApprovalRevisionMismatch (pp_id plan))
     else
       let requested = requested_capabilities plan in
       rbind (map_res (\<lambda>c. clean_approval c ''approvedCapabilities'') (ad_capabilities input)) (\<lambda>caps.
       let approved = sort_units (uniq caps) in
       if ad_decision input = Approved \<and> requested \<noteq> approved
       then Inl (ApprovalCapabilityMismatch (pp_id plan))
       else if ad_decision input = Rejected \<and> length approved > 0
       then Inl (InvalidApprovalInput ''approvedCapabilities'')
       else
         let rid_digest = approval_id hash pid rid (ad_decision input) approved actor;
             receipt = \<lparr>ar_id = rid_digest, ar_plan_id = pid, ar_revision_id = rid,
               ar_decision = ad_decision input, ar_capabilities = approved, ar_decided_by = actor,
               ar_decided_at = now\<rparr> in
         case List.find (\<lambda>c. ar_id c = rid_digest) receipts of
           Some existing \<Rightarrow> Inr (existing, receipts)
         | None \<Rightarrow>
             if list_ex (\<lambda>c. ar_plan_id c = pid \<and> ar_revision_id c = rid \<and> ar_decision c \<noteq> ad_decision input)
               receipts
             then Inl (InvalidApprovalInput ''decision'')
             else Inr (receipt, receipts @ [receipt])))))"

definition listForPlan :: "string \<Rightarrow> approval_receipt list \<Rightarrow> approval_error + approval_receipt list" where
  "listForPlan plan receipts =
     rbind (clean_approval plan ''planId'') (\<lambda>normalized. Inr (filter (\<lambda>r. ar_plan_id r = normalized) receipts))"

section \<open>The orders\<close>

lemmas approval_order = less_eq_approval_requirement_def less_approval_requirement_def APPROVAL_ORDER_def

lemma maxApproval_max: "maxApproval l r = max l r"
  by (simp add: maxApproval_def max_def less_eq_approval_requirement_def)

lemma fold_max:
  fixes start :: "'b::linorder"
  shows "foldl (\<lambda>h a. if f a > h then f a else h) start xs = Max (set (start # map f xs))"
proof (induction xs arbitrary: start)
  case (Cons x xs)
  then show ?case by (cases "xs = []") (auto simp: max_def not_less Max_insert2 max.assoc)
qed simp

lemma fold_highest_risk:
  "foldl (\<lambda>h a. if RISK_ORDER (ra_risk a) > RISK_ORDER h then ra_risk a else h) r xs
     = Max (set (r # map ra_risk xs))"
  using fold_max [of ra_risk r xs] by (simp only: less_capability_risk_def)

lemma fold_highest_approval:
  "foldl (\<lambda>h a. maxApproval h (ra_requirement a)) r xs = Max (set (r # map ra_requirement xs))"
  using fold_max [of ra_requirement r xs]
  by (simp only: maxApproval_def less_approval_requirement_def)

lemma ApprovalExplicit_top [simp]: "r \<le> ApprovalExplicit" "max ApprovalExplicit r = ApprovalExplicit"
  "max r ApprovalExplicit = ApprovalExplicit"
  by (cases r; simp add: approval_order max_def)+

lemma ApprovalNone_bot [simp]: "ApprovalNone \<le> r" "max ApprovalNone r = r" "max r ApprovalNone = r"
  by (cases r; simp add: approval_order max_def)+

lemma max_explicit: "max a b = ApprovalExplicit \<longleftrightarrow> a = ApprovalExplicit \<or> b = ApprovalExplicit"
  by (cases a; cases b) (simp_all add: approval_order max_def)

lemma max_none: "max a b = ApprovalNone \<longleftrightarrow> a = ApprovalNone \<and> b = ApprovalNone"
  by (cases a; cases b) (simp_all add: approval_order max_def)

definition consentRequirement :: "consent_policy \<Rightarrow> approval_requirement" where
  "consentRequirement c = (case c of ConsentNone \<Rightarrow> ApprovalNone | ConsentPolicy \<Rightarrow> ApprovalPolicy
     | ConsentAlways \<Rightarrow> ApprovalExplicit)"

text \<open>The assessment of an authorized capability, in closed form.\<close>

definition assessment_of :: "universal_goal \<Rightarrow> capability_definition \<Rightarrow> capability_risk_assessment" where
  "assessment_of goal d = (let by_goal = goalApprovalRequirement (approval_policy (approval_config goal)) in
     \<lparr>ra_capability = cap_id d, ra_risk = cap_risk d,
      ra_requirement = max (riskRequirement (cap_risk d)) (max (consentRequirement (cap_consent d)) by_goal),
      ra_reasons = [''risk:'' @ risk_name (cap_risk d)]
        @ (case cap_consent d of ConsentAlways \<Rightarrow> [''capability_consent:always'']
           | ConsentPolicy \<Rightarrow> [''capability_consent:policy''] | ConsentNone \<Rightarrow> [])
        @ (if by_goal \<noteq> ApprovalNone
           then [''goal_approval:'' @ policy_name (approval_policy (approval_config goal))] else [])\<rparr>)"

lemma assess_capability_eq:
  "assess_capability reg ctx goal r =
     rbind (authorize reg r ctx) (\<lambda>a. Inr (assessment_of goal (auth_definition a)))"
proof -
  have "assess_capability reg ctx goal r = rbind (authorize reg r ctx) (\<lambda>a. Inr (assessment_of goal (auth_definition a)))"
    if "authorize reg r ctx = Inr a" for a
    unfolding assess_capability_def that assessment_of_def
    by (cases "cap_consent (auth_definition a)")
      (simp_all add: Let_def maxApproval_max consentRequirement_def max.assoc)
  then show ?thesis by (cases "authorize reg r ctx") (simp_all add: assess_capability_def)
qed

lemma assess_capability_Inr:
  "assess_capability reg ctx goal r = Inr c \<longleftrightarrow> (\<exists>d. authorizable reg r ctx d \<and> c = assessment_of goal d)"
  by (auto simp: assess_capability_eq rbind_Inr_iff authorize_Inr_iff)

lemma assess_Inr:
  "assess reg plan goal = Inr a \<longleftrightarrow>
     (\<exists>caps. map_res (assess_capability reg (authorizationContext (pp_id plan) goal) goal)
          (ct_capabilities (pp_content plan)) = Inr caps
       \<and> a = \<lparr>pa_plan_id = pp_id plan, pa_highest_risk = Max (set (R0_observe # map ra_risk caps)),
          pa_requirement = Max (set (goalApprovalRequirement (approval_policy (approval_config goal))
            # map ra_requirement caps)), pa_capabilities = caps\<rparr>)"
  by (auto simp: assess_def rbind_Inr_iff fold_highest_risk fold_highest_approval)

lemma assess_capabilities:
  assumes "assess reg plan goal = Inr a"
  shows "list_all2 (\<lambda>r c. assess_capability reg (authorizationContext (pp_id plan) goal) goal r = Inr c)
    (ct_capabilities (pp_content plan)) (pa_capabilities a)"
  using assms by (auto simp: assess_Inr map_res_Inr_iff)

section \<open>The receipts\<close>

text \<open>
  What the manager keeps of its receipts: each is filed under the digest of what it says, no digest
  occurs twice, no revision of a plan is both approved and rejected, and a rejection approves nothing.
\<close>

definition receipt_ok :: "(js_value \<Rightarrow> string) \<Rightarrow> approval_receipt \<Rightarrow> bool" where
  "receipt_ok hash r \<longleftrightarrow>
     ar_id r = approval_id hash (ar_plan_id r) (ar_revision_id r) (ar_decision r) (ar_capabilities r) (ar_decided_by r)
     \<and> clean_text 240 (ar_plan_id r) \<and> clean_text 240 (ar_revision_id r) \<and> clean_text 240 (ar_decided_by r)
     \<and> distinct (ar_capabilities r) \<and> (ar_decision r = Rejected \<longrightarrow> ar_capabilities r = [])"

definition agreeing :: "approval_receipt \<Rightarrow> approval_receipt \<Rightarrow> bool" where
  "agreeing r s \<longleftrightarrow> (ar_plan_id r = ar_plan_id s \<and> ar_revision_id r = ar_revision_id s
     \<longrightarrow> ar_decision r = ar_decision s)"

lemma agreeing_refl [simp]: "agreeing r r"
  by (simp add: agreeing_def)

lemma agreeing_sym: "agreeing r s \<Longrightarrow> agreeing s r"
  by (simp add: agreeing_def)

definition approvals_inv :: "(js_value \<Rightarrow> string) \<Rightarrow> approval_receipt list \<Rightarrow> bool" where
  "approvals_inv hash rs \<longleftrightarrow> (\<forall>r\<in>set rs. receipt_ok hash r) \<and> distinct (map ar_id rs)
     \<and> (\<forall>r\<in>set rs. \<forall>s\<in>set rs. agreeing r s)"

lemma approvals_inv_Nil [simp]: "approvals_inv hash []"
  by (simp add: approvals_inv_def)

lemma approvals_inv_snoc:
  assumes "approvals_inv hash rs" and "receipt_ok hash r" and "ar_id r \<notin> ar_id ` set rs"
    and "\<forall>s\<in>set rs. agreeing s r"
  shows "approvals_inv hash (rs @ [r])"
  using assms by (simp add: approvals_inv_def ball_Un agreeing_sym)

text \<open>What a successful decision was given, and the two ways in which it succeeds.\<close>

definition decided_caps :: "approval_decision_input \<Rightarrow> string list" where
  "decided_caps input = sort_units (uniq (map trim (ad_capabilities input)))"

definition decided_id :: "(js_value \<Rightarrow> string) \<Rightarrow> approval_decision_input \<Rightarrow> string" where
  "decided_id hash input = approval_id hash (trim (ad_plan_id input)) (trim (ad_revision_id input))
     (ad_decision input) (decided_caps input) (trim (ad_decided_by input))"

definition decision_allowed :: "proposed_plan \<Rightarrow> approval_decision_input \<Rightarrow> bool" where
  "decision_allowed plan input \<longleftrightarrow>
     trim (ad_plan_id input) = pp_id plan \<and> trim (ad_revision_id input) = pp_revision_id plan
     \<and> clean_text 240 (pp_id plan) \<and> clean_text 240 (pp_revision_id plan)
     \<and> clean_text 240 (trim (ad_decided_by input))
     \<and> (\<forall>c\<in>set (ad_capabilities input). clean_text 240 (trim c))
     \<and> (case ad_decision input of
          Approved \<Rightarrow> set (map trim (ad_capabilities input)) = set (map req_capability (ct_capabilities (pp_content plan)))
        | Rejected \<Rightarrow> ad_capabilities input = [])"

definition decided_receipt :: "(js_value \<Rightarrow> string) \<Rightarrow> string \<Rightarrow> approval_decision_input \<Rightarrow> approval_receipt" where
  "decided_receipt hash now input = \<lparr>ar_id = decided_id hash input, ar_plan_id = trim (ad_plan_id input),
     ar_revision_id = trim (ad_revision_id input), ar_decision = ad_decision input,
     ar_capabilities = decided_caps input, ar_decided_by = trim (ad_decided_by input), ar_decided_at = now\<rparr>"

lemma map_res_clean_approval:
  "map_res (\<lambda>c. clean_approval c f) cs = Inr ds \<longleftrightarrow> ds = map trim cs \<and> (\<forall>c\<in>set cs. clean_text 240 (trim c))"
  by (induction cs arbitrary: ds) (auto simp: rbind_Inr_iff clean_approval_def clean_within_Inr)

lemma clean_approval_Inr: "clean_approval s f = Inr n \<longleftrightarrow> n = trim s \<and> clean_text 240 n"
  by (simp add: clean_approval_def clean_within_Inr)

lemma clean_approval_ok: "clean_text 240 (trim s) \<Longrightarrow> clean_approval s f = Inr (trim s)"
  by (simp add: clean_approval_def clean_within_Inr)

lemma decide_allowed:
  assumes "decision_allowed plan input"
  shows "decide hash now plan input receipts =
    (case List.find (\<lambda>c. ar_id c = decided_id hash input) receipts of
       Some e \<Rightarrow> Inr (e, receipts)
     | None \<Rightarrow> if list_ex (\<lambda>c. ar_plan_id c = pp_id plan \<and> ar_revision_id c = pp_revision_id plan
          \<and> ar_decision c \<noteq> ad_decision input) receipts
        then Inl (InvalidApprovalInput ''decision'')
        else Inr (decided_receipt hash now input, receipts @ [decided_receipt hash now input]))"
proof -
  have fields: "trim (ad_plan_id input) = pp_id plan" "trim (ad_revision_id input) = pp_revision_id plan"
    "clean_approval (ad_plan_id input) ''planId'' = Inr (pp_id plan)"
    "clean_approval (ad_revision_id input) ''revisionId'' = Inr (pp_revision_id plan)"
    "clean_approval (ad_decided_by input) ''decidedBy'' = Inr (trim (ad_decided_by input))"
    "map_res (\<lambda>c. clean_approval c ''approvedCapabilities'') (ad_capabilities input)
      = Inr (map trim (ad_capabilities input))"
    using assms clean_approval_ok [of "ad_plan_id input"] clean_approval_ok [of "ad_revision_id input"]
    by (simp_all add: decision_allowed_def clean_approval_ok map_res_clean_approval)
  moreover have "ad_decision input = Approved \<Longrightarrow> requested_capabilities plan = sort_units (uniq (map trim (ad_capabilities input)))"
    and "ad_decision input = Rejected \<Longrightarrow> ad_capabilities input = []"
    using assms by (auto simp: decision_allowed_def requested_capabilities_def sort_uniq_eq_iff)
  ultimately show ?thesis
    by (cases "ad_decision input")
      (simp_all add: decide_def Let_def decided_id_def decided_caps_def decided_receipt_def cong: option.case_cong)
qed

lemma decide_refused:
  assumes "decide hash now plan input receipts = Inr x"
  shows "decision_allowed plan input"
proof -
  let ?caps = "sort_units (uniq (map trim (ad_capabilities input)))"
  from assms have "trim (ad_plan_id input) = pp_id plan" "trim (ad_revision_id input) = pp_revision_id plan"
    "clean_text 240 (pp_id plan)" "clean_text 240 (pp_revision_id plan)"
    "clean_text 240 (trim (ad_decided_by input))"
    "\<forall>c\<in>set (ad_capabilities input). clean_text 240 (trim c)"
    "ad_decision input = Approved \<longrightarrow> requested_capabilities plan = ?caps"
    "ad_decision input = Rejected \<longrightarrow> ?caps = []"
    unfolding decide_def Let_def
    by (auto simp: rbind_Inr_iff clean_approval_Inr map_res_clean_approval split: if_split_asm)
  then show ?thesis
    by (auto simp: decision_allowed_def requested_capabilities_def sort_uniq_eq_iff split: approval_decision.splits)
qed

lemma decide_Inr_iff:
  "decide hash now plan input receipts = Inr (r, receipts') \<longleftrightarrow>
     decision_allowed plan input
     \<and> (case List.find (\<lambda>c. ar_id c = decided_id hash input) receipts of
          Some e \<Rightarrow> r = e \<and> receipts' = receipts
        | None \<Rightarrow> r = decided_receipt hash now input \<and> receipts' = receipts @ [r]
            \<and> (\<forall>c\<in>set receipts. ar_plan_id c = pp_id plan \<longrightarrow> ar_revision_id c = pp_revision_id plan
                \<longrightarrow> ar_decision c = ad_decision input))"
proof (cases "decision_allowed plan input")
  case True
  then show ?thesis
    by (auto simp: decide_allowed list_ex_iff split: option.split)
next
  case False
  then show ?thesis using decide_refused by blast
qed

lemma decided_receipt_ok:
  assumes "decision_allowed plan input"
  shows "receipt_ok hash (decided_receipt hash now input)"
  using assms
  by (auto simp: receipt_ok_def decided_receipt_def decided_id_def decided_caps_def decision_allowed_def)

text \<open>One call of the manager; a decision that throws leaves the store as it was.\<close>

fun approval_step ::
  "(js_value \<Rightarrow> string) \<Rightarrow> string \<times> proposed_plan \<times> approval_decision_input \<Rightarrow> approval_receipt list \<Rightarrow> approval_receipt list" where
  "approval_step hash (now, plan, input) receipts =
     (case decide hash now plan input receipts of Inl _ \<Rightarrow> receipts | Inr (_, receipts') \<Rightarrow> receipts')"

lemma approval_step_cases:
  "approval_step hash (now, plan, input) receipts = receipts
   \<or> (decision_allowed plan input
      \<and> List.find (\<lambda>c. ar_id c = decided_id hash input) receipts = None
      \<and> (\<forall>c\<in>set receipts. ar_plan_id c = pp_id plan \<longrightarrow> ar_revision_id c = pp_revision_id plan
            \<longrightarrow> ar_decision c = ad_decision input)
      \<and> approval_step hash (now, plan, input) receipts = receipts @ [decided_receipt hash now input])"
proof (cases "decide hash now plan input receipts")
  case (Inr x)
  then obtain r receipts' where r: "decide hash now plan input receipts = Inr (r, receipts')" by (cases x) simp
  with decide_Inr_iff [of hash now plan input receipts r receipts'] show ?thesis
    by (simp split: option.split_asm)
qed simp

lemma approval_step_extends: "prefix receipts (approval_step hash op receipts)"
  by (cases op) (metis approval_step_cases prefixI prefix_order.refl)

lemma approval_step_inv:
  assumes inv: "approvals_inv hash receipts"
  shows "approvals_inv hash (approval_step hash op receipts)"
proof -
  obtain now plan input where op: "op = (now, plan, input)" by (cases op) simp
  let ?r = "decided_receipt hash now input"
  consider "approval_step hash op receipts = receipts"
    | "decision_allowed plan input" "List.find (\<lambda>c. ar_id c = decided_id hash input) receipts = None"
      "\<forall>c\<in>set receipts. ar_plan_id c = pp_id plan \<longrightarrow> ar_revision_id c = pp_revision_id plan
         \<longrightarrow> ar_decision c = ad_decision input"
      "approval_step hash op receipts = receipts @ [?r]"
    using approval_step_cases [of hash now plan input receipts] unfolding op by (elim disjE conjE)
  then show ?thesis
  proof cases
    case 2
    have fields: "ar_id ?r = decided_id hash input" "ar_plan_id ?r = pp_id plan"
      "ar_revision_id ?r = pp_revision_id plan" "ar_decision ?r = ad_decision input"
      using 2(1) by (simp_all add: decided_receipt_def decision_allowed_def)
    have "ar_id ?r \<notin> ar_id ` set receipts"
      using 2(2) by (auto simp: fields dest!: find_None_D)
    moreover have "\<forall>s\<in>set receipts. agreeing s ?r"
      using 2(3) by (simp add: fields agreeing_def)
    ultimately show ?thesis
      unfolding 2(4) using inv decided_receipt_ok [OF 2(1)] by (intro approvals_inv_snoc)
  qed (simp add: inv)
qed

interpretation approvals: keyed_log "\<lambda>s. s" "approval_step hash" "approvals_inv hash" ar_id for hash
  by unfold_locales (rule approval_step_extends, erule approval_step_inv, simp add: approvals_inv_def)

section \<open>Properties\<close>

text \<open>
  The risk assessment of a plan never understates: its highest risk is the maximum of the risks
  of its capabilities, its requirement the maximum of the Goal's and of every capability's, and each
  capability's requirement the maximum of what its risk, its consent policy and the Goal ask for.
\<close>

theorem assess_is_maximum:
  assumes "assess reg plan goal = Inr a"
  shows "pa_highest_risk a = Max (set (R0_observe # map ra_risk (pa_capabilities a)))
    \<and> pa_requirement a = Max (set (goalApprovalRequirement (approval_policy (approval_config goal))
        # map ra_requirement (pa_capabilities a)))
    \<and> list_all2 (\<lambda>r c. \<exists>d. authorizable reg r (authorizationContext (pp_id plan) goal) d
          \<and> ra_capability c = cap_id d \<and> ra_risk c = cap_risk d
          \<and> ra_requirement c = max (riskRequirement (cap_risk d)) (max (consentRequirement (cap_consent d))
              (goalApprovalRequirement (approval_policy (approval_config goal)))))
        (ct_capabilities (pp_content plan)) (pa_capabilities a)"
proof (intro conjI)
  show "list_all2 (\<lambda>r c. \<exists>d. authorizable reg r (authorizationContext (pp_id plan) goal) d
          \<and> ra_capability c = cap_id d \<and> ra_risk c = cap_risk d
          \<and> ra_requirement c = max (riskRequirement (cap_risk d)) (max (consentRequirement (cap_consent d))
              (goalApprovalRequirement (approval_policy (approval_config goal)))))
        (ct_capabilities (pp_content plan)) (pa_capabilities a)"
    by (rule list_all2_mono [OF assess_capabilities [OF assms]])
      (auto simp: assess_capability_Inr assessment_of_def Let_def)
qed (use assms in \<open>auto simp: assess_Inr\<close>)

text \<open>
  C25. A decision succeeds only for the current revision of the plan it names, by a clean actor; an
  approval names exactly the capabilities the plan requests, a rejection none. A first decision
  appends the receipt that says so; a repeated one answers the receipt filed under the same digest
  and writes nothing.
\<close>

theorem decide_exact:
  "decide hash now plan input receipts = Inr (r, receipts') \<longleftrightarrow>
     decision_allowed plan input
     \<and> (case List.find (\<lambda>c. ar_id c = decided_id hash input) receipts of
          Some e \<Rightarrow> r = e \<and> receipts' = receipts
        | None \<Rightarrow> r = decided_receipt hash now input \<and> receipts' = receipts @ [r]
            \<and> \<not> (\<exists>c\<in>set receipts. ar_plan_id c = pp_id plan \<and> ar_revision_id c = pp_revision_id plan
                \<and> ar_decision c \<noteq> ad_decision input))"
  unfolding decide_Inr_iff by (simp split: option.split) blast

text \<open>
  Whatever decisions are made, in any order: no receipt id occurs twice, no revision of a plan
  is both approved and rejected, receipts are never changed or removed, and a rejection approves
  no capability.
\<close>

theorem approvals_reachable:
  "approvals_inv hash (fold (approval_step hash) ops [])
    \<and> prefix (fold (approval_step hash) ops [])
        (fold (approval_step hash) later (fold (approval_step hash) ops []))"
  using approvals.run_inv [OF approvals_inv_Nil] approvals.run_extends by blast

text \<open>
  Deciding is idempotent: the same decision, repeated at any later time and after any other
  decisions, answers the receipt of the first one and leaves the store as it is.
\<close>

theorem decide_idempotent:
  assumes "decide hash now plan input receipts = Inr (r, receipts')"
  shows "decide hash now' plan input (fold (approval_step hash) ops receipts')
    = Inr (r, fold (approval_step hash) ops receipts')"
proof -
  have "List.find (\<lambda>c. ar_id c = decided_id hash input) receipts' = Some r"
    using assms
    by (cases "List.find (\<lambda>c. ar_id c = decided_id hash input) receipts")
      (auto simp: decide_Inr_iff find_None_iff find_Some_iff nth_append decided_receipt_def
        intro!: exI [of _ "length receipts"])
  from approvals.first_match_persists [OF this] decide_refused [OF assms] show ?thesis
    by (simp add: decide_allowed)
qed

subsection \<open>The properties at a concrete plan\<close>

definition open_goal :: universal_goal where
  "open_goal = scoped_goal\<lparr>goal_id := ''g1'', goal_constraints := no_constraints,
     approval_config := (approval_config scoped_goal)\<lparr>approval_policy := PolicyCheckpoints\<rparr>\<rparr>"

definition sample_decision :: approval_decision_input where
  "sample_decision = \<lparr>ad_plan_id = '' p1 '', ad_revision_id = ''p1:rev:1'', ad_decision = Approved,
     ad_capabilities = [''public_web_research'', '' public_web_research''], ad_decided_by = ''owner''\<rparr>"

lemma assess_sample:
  "map_sum id (\<lambda>a. (pa_highest_risk a, pa_requirement a)) (assess sample_registry (hd sample_plans) open_goal)
     = Inr (R0_observe, ApprovalPolicy)"
  by code_simp

lemma decide_sample:
  "decide (\<lambda>_. ''d'') ''t5'' (hd sample_plans) sample_decision []
     = Inr (decided_receipt (\<lambda>_. ''d'') ''t5'' sample_decision, [decided_receipt (\<lambda>_. ''d'') ''t5'' sample_decision])"
  by code_simp

theorem assess_is_maximum_witness:
  "\<exists>a. assess sample_registry (hd sample_plans) open_goal = Inr a
     \<and> Max (set (goalApprovalRequirement PolicyCheckpoints # map ra_requirement (pa_capabilities a))) = ApprovalPolicy"
proof -
  obtain a where a: "assess sample_registry (hd sample_plans) open_goal = Inr a" "pa_requirement a = ApprovalPolicy"
    using assess_sample by (cases "assess sample_registry (hd sample_plans) open_goal") auto
  have "approval_policy (approval_config open_goal) = PolicyCheckpoints" by (simp add: open_goal_def)
  with a assess_is_maximum [OF a(1)] show ?thesis by metis
qed

theorem decide_idempotent_witness:
  "decide (\<lambda>_. ''d'') ''t9'' (hd sample_plans) sample_decision [decided_receipt (\<lambda>_. ''d'') ''t5'' sample_decision]
     = Inr (decided_receipt (\<lambda>_. ''d'') ''t5'' sample_decision, [decided_receipt (\<lambda>_. ''d'') ''t5'' sample_decision])"
  using decide_idempotent [OF decide_sample, of "''t9''" "[]"] by simp

end
