(* ===== verification/Execution.thy ===== *)
theory Execution
  imports Approval
begin

text \<open>
  The execution engine (\<open>execution/execution-engine.ts\<close>, \<open>execution-contract.ts\<close>,
  \<open>execution-errors.ts\<close>): a capability of an approved plan is run through an adapter, under an
  idempotency key, with a reservation written before the adapter is called and a terminal record
  after it. Parameters: the digest \<open>hash\<close> (\<open>stableHash\<close>), the clock readings, and the adapters,
  each a function from its input to a result, \<open>None\<close> when it throws. Payloads and results are
  JavaScript values.
\<close>

section \<open>Data\<close>

datatype execution_status = ExReserved | ExCompleted | ExFailed | ExInDoubt

record execute_input =
  xi_plan_id :: string
  xi_revision_id :: string
  xi_capability :: string
  xi_version :: "string option"
  xi_key :: string
  xi_payload :: js_value
  xi_actor :: string

record execution_record =
  ex_id :: string
  ex_sequence :: nat
  ex_plan_id :: string
  ex_revision_id :: string
  ex_capability :: string
  ex_version :: "string option"
  ex_key :: string
  ex_request_hash :: string
  ex_status :: execution_status
  ex_reserved_at :: string
  ex_completed_at :: "string option"
  ex_failed_at :: "string option"
  ex_actor :: string
  ex_result :: "js_value option"
  ex_failure_code :: "string option"

datatype denied_reason = PlanOrRevisionMismatch | CapabilityNotInPlan | RequestedVersionMismatch | RiskAssessmentMissing

datatype execution_error =
  InvalidExecutionInput string
| ExecutionCapabilityDenied string denied_reason
| ExecutionApprovalRequired string string
| ExecutionIdempotencyConflict string
| ExecutionInDoubt string
| ExecutionAdapterNotFound string
| ExecutionCapability capability_error

text \<open>\<open>executionId\<close>, \<open>idempotencyKey\<close> and \<open>payload\<close> to the result.\<close>

type_synonym adapter = "string \<Rightarrow> string \<Rightarrow> js_value \<Rightarrow> js_value option"

type_synonym execution_store = "execution_record list"

section \<open>Input and authority\<close>

definition clean_execution :: "string \<Rightarrow> string \<Rightarrow> execution_error + string" where
  "clean_execution s field = clean_within 240 (InvalidExecutionInput field) s"

definition registerAdapter ::
  "string \<Rightarrow> adapter \<Rightarrow> (string \<times> adapter) list \<Rightarrow> execution_error + (string \<times> adapter) list" where
  "registerAdapter cap a adapters =
     rbind (clean_execution cap ''capabilityId'') (\<lambda>c.
       if map_of adapters c \<noteq> None then Inl (InvalidExecutionInput ''capabilityId'')
       else Inr (AList.update c a adapters))"

definition normalizeInput :: "execute_input \<Rightarrow> execution_error + execute_input" where
  "normalizeInput i =
     rbind (clean_execution (xi_plan_id i) ''planId'') (\<lambda>pid.
     rbind (clean_execution (xi_revision_id i) ''revisionId'') (\<lambda>rid.
     rbind (clean_execution (xi_capability i) ''capabilityId'') (\<lambda>cap.
     rbind (case xi_version i of None \<Rightarrow> Inr None
            | Some v \<Rightarrow> rbind (clean_execution v ''capabilityVersion'') (\<lambda>v'. Inr (Some v'))) (\<lambda>ver.
     rbind (clean_execution (xi_key i) ''idempotencyKey'') (\<lambda>key.
     rbind (clean_execution (xi_actor i) ''actor'') (\<lambda>actor.
     Inr \<lparr>xi_plan_id = pid, xi_revision_id = rid, xi_capability = cap, xi_version = ver, xi_key = key,
       xi_payload = xi_payload i, xi_actor = actor\<rparr>))))))"

text \<open>The engine's own copy of the authorization context.\<close>

definition execution_context :: "string \<Rightarrow> universal_goal \<Rightarrow> authorization_context" where
  "execution_context plan_id goal =
     (let constrained_caps = or_nil (constrained_capabilities (goal_constraints goal));
          constrained_scopes = or_nil (constrained_data_scopes (goal_constraints goal)) in
      \<lparr>ctx_plan_id = plan_id,
       ctx_allowed_capabilities = (if length constrained_caps = 0 then allowed_capabilities goal
         else filter (\<lambda>c. c \<in> set constrained_caps) (allowed_capabilities goal)),
       ctx_forbidden_capabilities = uniq (forbidden_capabilities goal
         @ or_nil (constrained_forbidden_capabilities (goal_constraints goal))),
       ctx_allowed_scopes = (if length constrained_scopes = 0 then allowed_data_scopes goal
         else filter (\<lambda>s. s \<in> set constrained_scopes) (allowed_data_scopes goal)),
       ctx_forbidden_scopes = uniq (or_nil (constrained_forbidden_data_scopes (goal_constraints goal)))\<rparr>)"

definition of_capability_error :: "capability_error + 'a \<Rightarrow> execution_error + 'a" where
  "of_capability_error r = map_sum ExecutionCapability id r"

definition approval_covers :: "approval_receipt option \<Rightarrow> proposed_plan \<Rightarrow> string \<Rightarrow> bool" where
  "approval_covers approval plan cap \<longleftrightarrow> (case approval of None \<Rightarrow> False
     | Some a \<Rightarrow> ar_decision a = Approved \<and> ar_plan_id a = pp_id plan
         \<and> ar_revision_id a = pp_revision_id plan \<and> cap \<in> set (ar_capabilities a))"

definition validateAuthority ::
  "capability_registry \<Rightarrow> execute_input \<Rightarrow> proposed_plan \<Rightarrow> universal_goal \<Rightarrow> approval_receipt option
   \<Rightarrow> execution_error + unit" where
  "validateAuthority reg i plan goal approval =
     (let cap = xi_capability i in
      if xi_plan_id i \<noteq> pp_id plan \<or> xi_revision_id i \<noteq> pp_revision_id plan \<or> pp_goal_id plan \<noteq> goal_id goal
      then Inl (ExecutionCapabilityDenied cap PlanOrRevisionMismatch)
      else case List.find (\<lambda>r. req_capability r = cap) (ct_capabilities (pp_content plan)) of
        None \<Rightarrow> Inl (ExecutionCapabilityDenied cap CapabilityNotInPlan)
      | Some requested \<Rightarrow>
          if req_version requested \<noteq> None \<and> xi_version i \<noteq> req_version requested
          then Inl (ExecutionCapabilityDenied cap RequestedVersionMismatch)
          else
            rbind (of_capability_error (authorize reg \<lparr>req_capability = cap, req_version = xi_version i\<rparr>
              (execution_context (pp_id plan) goal))) (\<lambda>_.
            rbind (of_capability_error (assess reg plan goal)) (\<lambda>assessment.
            case List.find (\<lambda>a. ra_capability a = cap) (pa_capabilities assessment) of
              None \<Rightarrow> Inl (ExecutionCapabilityDenied cap RiskAssessmentMissing)
            | Some a \<Rightarrow> throw_if (ra_requirement a \<noteq> ApprovalNone \<and> \<not> approval_covers approval plan cap)
                (ExecutionApprovalRequired (pp_id plan) cap))))"

section \<open>The record store\<close>

definition newest_first :: "execution_record comparator" where
  "newest_first = reversed (key ex_sequence default)"

definition latestByIdempotencyKey :: "execution_store \<Rightarrow> string \<Rightarrow> execution_record option" where
  "latestByIdempotencyKey records k =
     (case sort_by newest_first (filter (\<lambda>r. ex_key r = k) records) of [] \<Rightarrow> None | r # _ \<Rightarrow> Some r)"

definition latestByExecutionId :: "execution_store \<Rightarrow> string \<Rightarrow> execution_record option" where
  "latestByExecutionId records i =
     (case sort_by newest_first (filter (\<lambda>r. ex_id r = i) records) of [] \<Rightarrow> None | r # _ \<Rightarrow> Some r)"

definition request_hash :: "(js_value \<Rightarrow> string) \<Rightarrow> execute_input \<Rightarrow> string" where
  "request_hash hash i = hash (JObject
     [(''planId'', JString (xi_plan_id i)), (''revisionId'', JString (xi_revision_id i)),
      (''capabilityId'', JString (xi_capability i)), (''capabilityVersion'', option_value (xi_version i)),
      (''idempotencyKey'', JString (xi_key i)), (''payload'', xi_payload i), (''actor'', JString (xi_actor i))])"

definition execution_id :: "(js_value \<Rightarrow> string) \<Rightarrow> string \<Rightarrow> string \<Rightarrow> string" where
  "execution_id hash k plan =
     ''execution:'' @ hash (JObject [(''idempotencyKey'', JString k), (''planId'', JString plan)])"

datatype reservation = Replay execution_record | Reserved execution_record

text \<open>The first transaction of \<open>execute\<close>, on a normalized input.\<close>

definition reserve ::
  "(js_value \<Rightarrow> string) \<Rightarrow> string \<Rightarrow> execute_input \<Rightarrow> execution_store \<Rightarrow> execution_error + (reservation \<times> execution_store)" where
  "reserve hash now i records =
     (case latestByIdempotencyKey records (xi_key i) of
        Some previous \<Rightarrow>
          if ex_request_hash previous \<noteq> request_hash hash i then Inl (ExecutionIdempotencyConflict (xi_key i))
          else if ex_status previous = ExCompleted then Inr (Replay previous, records)
          else Inl (ExecutionInDoubt (ex_id previous))
      | None \<Rightarrow>
          let record = \<lparr>ex_id = execution_id hash (xi_key i) (xi_plan_id i), ex_sequence = 1,
            ex_plan_id = xi_plan_id i, ex_revision_id = xi_revision_id i, ex_capability = xi_capability i,
            ex_version = xi_version i, ex_key = xi_key i, ex_request_hash = request_hash hash i,
            ex_status = ExReserved, ex_reserved_at = now, ex_completed_at = None, ex_failed_at = None,
            ex_actor = xi_actor i, ex_result = None, ex_failure_code = None\<rparr> in
          Inr (Reserved record, records @ [record]))"

text \<open>
  \<open>appendTerminal\<close>: \<open>Some result\<close> for \<open>completed\<close>, \<open>None\<close> for \<open>in_doubt\<close>.
\<close>

definition appendTerminal ::
  "string \<Rightarrow> execution_record \<Rightarrow> js_value option \<Rightarrow> execution_store
   \<Rightarrow> execution_error + (execution_record \<times> execution_store)" where
  "appendTerminal now base outcome records =
     (case latestByExecutionId records (ex_id base) of
        None \<Rightarrow> Inl (InvalidExecutionInput ''executionId'')
      | Some current \<Rightarrow>
          let next = (case outcome of
              Some result \<Rightarrow> current\<lparr>ex_sequence := ex_sequence current + 1, ex_status := ExCompleted,
                ex_completed_at := Some now, ex_result := Some result\<rparr>
            | None \<Rightarrow> current\<lparr>ex_sequence := ex_sequence current + 1, ex_status := ExInDoubt\<rparr>) in
          Inr (next, records @ [next]))"

datatype reconcile_outcome = ReconcileCompleted "js_value option" | ReconcileFailed "string option"

definition reconcile ::
  "string \<Rightarrow> string \<Rightarrow> reconcile_outcome \<Rightarrow> execution_store \<Rightarrow> execution_error + (execution_record \<times> execution_store)" where
  "reconcile now execution outcome records =
     rbind (clean_execution execution ''executionId'') (\<lambda>i.
     case latestByExecutionId records i of
       None \<Rightarrow> Inl (InvalidExecutionInput ''executionId'')
     | Some current \<Rightarrow>
         if ex_status current = ExCompleted \<or> ex_status current = ExFailed then Inr (current, records)
         else if ex_status current \<noteq> ExInDoubt then Inl (InvalidExecutionInput ''status'')
         else rbind (case outcome of
             ReconcileCompleted result \<Rightarrow> Inr (current\<lparr>ex_sequence := ex_sequence current + 1,
               ex_status := ExCompleted, ex_completed_at := Some now,
               ex_result := Some (case_option (JObject []) id result)\<rparr>)
           | ReconcileFailed code \<Rightarrow>
               rbind (clean_execution (case_option ''reconciled_failure'' id code) ''failureCode'') (\<lambda>c.
               Inr (current\<lparr>ex_sequence := ex_sequence current + 1, ex_status := ExFailed,
                 ex_failed_at := Some now, ex_failure_code := Some c\<rparr>))) (\<lambda>next.
           Inr (next, records @ [next])))"

text \<open>What \<open>execute\<close> checks before its first transaction.\<close>

definition prepare ::
  "capability_registry \<Rightarrow> (string \<times> adapter) list \<Rightarrow> execute_input \<Rightarrow> proposed_plan \<Rightarrow> universal_goal
   \<Rightarrow> approval_receipt option \<Rightarrow> execution_error + (execute_input \<times> adapter)" where
  "prepare reg adapters input plan goal approval =
     rbind (normalizeInput input) (\<lambda>i.
     rbind (validateAuthority reg i plan goal approval) (\<lambda>_.
     case map_of adapters (xi_capability i) of
       None \<Rightarrow> Inl (ExecutionAdapterNotFound (xi_capability i))
     | Some a \<Rightarrow> Inr (i, a)))"

text \<open>
  \<open>execute\<close> with nothing running beside it. An error does not undo what was written before it, so
  the store is returned in every case.
\<close>

definition execute ::
  "(js_value \<Rightarrow> string) \<Rightarrow> capability_registry \<Rightarrow> (string \<times> adapter) list \<Rightarrow> string \<Rightarrow> string \<Rightarrow> execute_input
   \<Rightarrow> proposed_plan \<Rightarrow> universal_goal \<Rightarrow> approval_receipt option \<Rightarrow> execution_store
   \<Rightarrow> (execution_error + execution_record) \<times> execution_store" where
  "execute hash reg adapters now later input plan goal approval records =
     (case rbind (prepare reg adapters input plan goal approval) (\<lambda>(i, a).
             rbind (reserve hash now i records) (\<lambda>r. Inr (i, a, r))) of
        Inl e \<Rightarrow> (Inl e, records)
      | Inr (i, a, Replay r, records') \<Rightarrow> (Inr r, records')
      | Inr (i, a, Reserved base, records') \<Rightarrow>
          (case a (ex_id base) (xi_key i) (xi_payload i) of
             Some result \<Rightarrow> (case appendTerminal later base (Some result) records' of
                 Inl e \<Rightarrow> (Inl e, records') | Inr (r, records'') \<Rightarrow> (Inr r, records''))
           | None \<Rightarrow> (case appendTerminal later base None records' of
                 Inl e \<Rightarrow> (Inl e, records') | Inr (_, records'') \<Rightarrow> (Inl (ExecutionInDoubt (ex_id base)), records''))))"

section \<open>The history of a key\<close>

lemma execution_context_eq: "execution_context = authorizationContext"
  by (simp add: fun_eq_iff execution_context_def authorizationContext_def constrained_list_def Let_def)

text \<open>
  The life of one execution: reserved, then completed or in doubt; an execution in doubt is
  reconciled to completed or failed.
\<close>

definition execution_successors :: "execution_status \<Rightarrow> execution_status list" where
  "execution_successors s = (case s of ExReserved \<Rightarrow> [ExCompleted, ExInDoubt]
     | ExInDoubt \<Rightarrow> [ExCompleted, ExFailed] | ExCompleted \<Rightarrow> [] | ExFailed \<Rightarrow> [])"

definition settled :: "execution_status \<Rightarrow> bool" where
  "settled s \<longleftrightarrow> s = ExCompleted \<or> s = ExFailed"

definition execution_rank :: "execution_status \<Rightarrow> nat" where
  "execution_rank s = (case s of ExReserved \<Rightarrow> 0 | ExInDoubt \<Rightarrow> 1 | _ \<Rightarrow> 2)"

interpretation execution_life: ranked_lifecycle execution_successors settled execution_rank
proof
  show "settled s \<longleftrightarrow> execution_successors s = []" for s
    by (cases s) (simp_all add: settled_def execution_successors_def)
  show "t \<in> set (execution_successors s) \<Longrightarrow> execution_rank s < execution_rank t" for s t
    by (cases s) (auto simp: execution_successors_def execution_rank_def)
qed

definition course_ok :: "execution_status list \<Rightarrow> bool" where
  "course_ok ss \<longleftrightarrow> ss = [] \<or> hd ss = ExReserved \<and> successively (\<lambda>a b. b \<in> set (execution_successors a)) ss"

lemma course_ok_Nil [simp]: "course_ok []"
  by (simp add: course_ok_def)

lemma course_ok_snoc:
  "course_ok (ss @ [t]) \<longleftrightarrow>
     (if ss = [] then t = ExReserved else course_ok ss \<and> t \<in> set (execution_successors (last ss)))"
  by (auto simp: course_ok_def successively_append_iff)

text \<open>No status is met twice, so there are at most three records, the first of them reserved.\<close>

lemma course_ok_reserved: "course_ok ss \<Longrightarrow> length (filter (\<lambda>s. s = ExReserved) ss) \<le> 1"
proof (induction ss rule: rev_induct)
  case (snoc t ss)
  then show ?case by (auto simp: course_ok_snoc execution_successors_def split: if_splits execution_status.splits)
qed simp

lemma course_ok_length: "course_ok ss \<Longrightarrow> ss \<noteq> [] \<Longrightarrow> length ss \<le> Suc (execution_rank (last ss))"
proof (induction ss rule: rev_induct)
  case (snoc t ss)
  then show ?case
    using execution_life.step_rank [of t "last ss"] by (auto simp: course_ok_snoc split: if_splits)
qed simp

definition history :: "string \<Rightarrow> execution_store \<Rightarrow> execution_store" where
  "history k records = filter (\<lambda>r. ex_key r = k) records"

lemma history_snoc [simp]:
  "history k (records @ [r]) = (if ex_key r = k then history k records @ [r] else history k records)"
  by (simp add: history_def)

text \<open>What the records of one execution have in common.\<close>

definition same_execution :: "execution_record \<Rightarrow> execution_record \<Rightarrow> bool" where
  "same_execution r s \<longleftrightarrow> ex_id r = ex_id s \<and> ex_key r = ex_key s \<and> ex_plan_id r = ex_plan_id s
     \<and> ex_revision_id r = ex_revision_id s \<and> ex_capability r = ex_capability s \<and> ex_version r = ex_version s
     \<and> ex_request_hash r = ex_request_hash s \<and> ex_reserved_at r = ex_reserved_at s \<and> ex_actor r = ex_actor s"

lemma same_execution_refl [simp]: "same_execution r r"
  by (simp add: same_execution_def)

lemma same_execution_sym: "same_execution r s \<Longrightarrow> same_execution s r"
  by (simp add: same_execution_def)

lemma same_execution_trans: "same_execution r s \<Longrightarrow> same_execution s t \<Longrightarrow> same_execution r t"
  by (simp add: same_execution_def)

definition history_ok :: "(js_value \<Rightarrow> string) \<Rightarrow> execution_store \<Rightarrow> bool" where
  "history_ok hash h \<longleftrightarrow> numbered ex_sequence h \<and> course_ok (map ex_status h)
     \<and> (\<forall>r\<in>set h. same_execution r (hd h))
     \<and> (\<forall>r\<in>set h. ex_id r = execution_id hash (ex_key r) (ex_plan_id r))"

definition records_inv :: "(js_value \<Rightarrow> string) \<Rightarrow> execution_store \<Rightarrow> bool" where
  "records_inv hash records \<longleftrightarrow> (\<forall>k. history_ok hash (history k records))"

lemma records_inv_Nil [simp]: "records_inv hash []"
  by (simp add: records_inv_def history_ok_def history_def)

lemma records_inv_snoc:
  assumes inv: "records_inv hash records" and new: "history_ok hash (history (ex_key r) records @ [r])"
  shows "records_inv hash (records @ [r])"
  unfolding records_inv_def
proof
  fix k
  show "history_ok hash (history k (records @ [r]))"
    using inv new by (cases "ex_key r = k") (simp_all add: records_inv_def)
qed

lemma history_ok_first:
  "history_ok hash [r] \<longleftrightarrow> ex_sequence r = 1 \<and> ex_status r = ExReserved
     \<and> ex_id r = execution_id hash (ex_key r) (ex_plan_id r)"
  using numbered_snoc [of ex_sequence "[]" r] course_ok_snoc [of "[]" "ex_status r"]
  by (simp add: history_ok_def)

lemma history_ok_next:
  assumes ok: "history_ok hash h" and ne: "h \<noteq> []" and same: "same_execution r (last h)"
    and "ex_sequence r = ex_sequence (last h) + 1"
    and "ex_status r \<in> set (execution_successors (ex_status (last h)))"
  shows "history_ok hash (h @ [r])"
proof -
  have last: "last h \<in> set h" using ne by simp
  then have "same_execution r (hd h)"
    using ok same same_execution_trans unfolding history_ok_def by blast
  moreover have "ex_id r = execution_id hash (ex_key r) (ex_plan_id r)"
    using ok same last by (auto simp: history_ok_def same_execution_def)
  moreover have "course_ok (map ex_status h @ [ex_status r])"
    unfolding course_ok_snoc using ok ne assms(5) by (simp add: history_ok_def last_map)
  ultimately show ?thesis
    using ok ne assms(4) by (auto simp: history_ok_def numbered_last)
qed

text \<open>
  The digest of the execution id tells idempotency keys apart: the collision freedom of SHA-256,
  which the engine relies on.
\<close>

definition separates_keys :: "(js_value \<Rightarrow> string) \<Rightarrow> bool" where
  "separates_keys hash \<longleftrightarrow> (\<forall>k p k' p'. execution_id hash k p = execution_id hash k' p' \<longrightarrow> k = k')"

lemma latest_by_key:
  assumes "records_inv hash records"
  shows "latestByIdempotencyKey records k
    = (if history k records = [] then None else Some (last (history k records)))"
  using assms numbered_newest [of ex_sequence "history k records"]
  by (simp add: latestByIdempotencyKey_def newest_first_def records_inv_def history_ok_def history_def)

lemma records_id:
  assumes "records_inv hash records" and "r \<in> set records"
  shows "ex_id r = execution_id hash (ex_key r) (ex_plan_id r)"
  using assms by (auto simp: records_inv_def history_ok_def history_def)

lemma records_same:
  assumes "records_inv hash records" and "r \<in> set records" and "s \<in> set records" and "ex_key r = ex_key s"
  shows "same_execution r s"
proof -
  from assms have "r \<in> set (history (ex_key s) records)" "s \<in> set (history (ex_key s) records)"
    by (simp_all add: history_def)
  with assms(1) show ?thesis
    unfolding records_inv_def history_ok_def using same_execution_sym same_execution_trans by blast
qed

lemma by_id_is_history:
  assumes inv: "records_inv hash records" and sep: "separates_keys hash" and r: "r \<in> set records"
  shows "filter (\<lambda>s. ex_id s = ex_id r) records = history (ex_key r) records"
  unfolding history_def
proof (rule filter_cong [OF refl])
  fix s
  assume s: "s \<in> set records"
  show "ex_id s = ex_id r \<longleftrightarrow> ex_key s = ex_key r"
  proof
    assume "ex_id s = ex_id r"
    then have "execution_id hash (ex_key s) (ex_plan_id s) = execution_id hash (ex_key r) (ex_plan_id r)"
      by (simp only: records_id [OF inv r] records_id [OF inv s])
    with sep show "ex_key s = ex_key r" unfolding separates_keys_def by blast
  next
    assume "ex_key s = ex_key r"
    from records_same [OF inv s r this] show "ex_id s = ex_id r" by (simp add: same_execution_def)
  qed
qed

lemma latest_by_id:
  assumes inv: "records_inv hash records" and sep: "separates_keys hash" and r: "r \<in> set records"
  shows "latestByExecutionId records (ex_id r) = Some (last (history (ex_key r) records))"
    and "history (ex_key r) records \<noteq> []"
proof -
  show ne: "history (ex_key r) records \<noteq> []" using r by (auto simp: history_def filter_empty_conv)
  have "numbered ex_sequence (history (ex_key r) records)"
    using inv by (simp add: records_inv_def history_ok_def)
  from numbered_newest [OF this] ne
  show "latestByExecutionId records (ex_id r) = Some (last (history (ex_key r) records))"
    by (simp add: latestByExecutionId_def newest_first_def by_id_is_history [OF inv sep r])
qed

lemma latest_by_id_Some:
  assumes "latestByExecutionId records i = Some c"
  shows "c \<in> set records" and "ex_id c = i"
proof -
  from assms obtain rest where "sort_by newest_first (filter (\<lambda>r. ex_id r = i) records) = c # rest"
    unfolding latestByExecutionId_def by (simp split: list.split_asm)
  from sort_by_head(1) [OF this] show "c \<in> set records" and "ex_id c = i" by simp_all
qed

lemma last_history: "history k records \<noteq> [] \<Longrightarrow> last (history k records) \<in> set records \<and> ex_key (last (history k records)) = k"
  using last_in_set [of "history k records"] by (auto simp: history_def)

section \<open>The transactions keep the histories\<close>

lemma reserve_Reserved:
  assumes inv: "records_inv hash records" and ok: "reserve hash now i records = Inr (Reserved base, records')"
  shows "records' = records @ [base]" and "history (ex_key base) records = []"
    and "ex_key base = xi_key i" and "ex_status base = ExReserved" and "ex_request_hash base = request_hash hash i"
    and "records_inv hash records'"
proof -
  from ok have none: "latestByIdempotencyKey records (xi_key i) = None"
    by (auto simp: reserve_def split: option.splits if_splits)
  with ok have base: "ex_sequence base = 1" "ex_key base = xi_key i" "ex_status base = ExReserved"
    "ex_request_hash base = request_hash hash i"
    "ex_id base = execution_id hash (ex_key base) (ex_plan_id base)" and records': "records' = records @ [base]"
    by (auto simp: reserve_def Let_def)
  from none have new: "history (ex_key base) records = []"
    by (simp add: latest_by_key [OF inv] base split: if_splits)
  show "records' = records @ [base]" "history (ex_key base) records = []" "ex_key base = xi_key i"
    "ex_status base = ExReserved" "ex_request_hash base = request_hash hash i"
    by (rule records' new base)+
  show "records_inv hash records'"
    unfolding records' using inv by (rule records_inv_snoc)
      (unfold new append_Nil history_ok_first, simp add: base(1,3) base(5) [symmetric])
qed

lemma reserve_unchanged:
  "reserve hash now i records = Inr (Replay r, records') \<Longrightarrow> records' = records"
  by (auto simp: reserve_def Let_def split: option.splits if_splits)

text \<open>A follow-up record: next in sequence, its status a successor of the current one.\<close>

definition follows :: "execution_record \<Rightarrow> execution_record \<Rightarrow> bool" where
  "follows next current \<longleftrightarrow> same_execution next current \<and> ex_sequence next = ex_sequence current + 1
     \<and> ex_status next \<in> set (execution_successors (ex_status current))"

lemma records_inv_follows:
  assumes inv: "records_inv hash records" and ne: "history k records \<noteq> []"
    and nxt: "follows r (last (history k records))"
  shows "records_inv hash (records @ [r])"
proof (rule records_inv_snoc [OF inv])
  have k: "ex_key r = k" using nxt last_history [OF ne] by (auto simp: follows_def same_execution_def)
  show "history_ok hash (history (ex_key r) records @ [r])"
    unfolding k using inv ne nxt by (intro history_ok_next) (auto simp: records_inv_def follows_def)
qed

lemma appendTerminal_Inr:
  assumes inv: "records_inv hash records" and sep: "separates_keys hash"
    and base: "history (ex_key base) records = [base]" and reserved: "ex_status base = ExReserved"
  shows "\<exists>r. appendTerminal now base outcome records = Inr (r, records @ [r]) \<and> follows r base
    \<and> ex_status r = (if outcome = None then ExInDoubt else ExCompleted) \<and> ex_result r = (if outcome = None then ex_result base else outcome)"
proof -
  have "base \<in> set (history (ex_key base) records)" using base by simp
  then have "base \<in> set records" by (simp add: history_def)
  from latest_by_id(1) [OF inv sep this] base have "latestByExecutionId records (ex_id base) = Some base" by simp
  then show ?thesis
    using reserved
    by (cases outcome) (auto simp: appendTerminal_def Let_def follows_def same_execution_def execution_successors_def)
qed

lemma reconcile_Inr:
  assumes "reconcile now i outcome records = Inr (r, records')"
  shows "records' = records \<or> (\<exists>current. latestByExecutionId records (trim i) = Some current
    \<and> ex_status current = ExInDoubt \<and> records' = records @ [r] \<and> follows r current)"
  using assms unfolding reconcile_def
  by (auto simp: rbind_Inr_iff clean_execution_def clean_within_Inr follows_def same_execution_def
      execution_successors_def split: option.split_asm if_split_asm reconcile_outcome.split_asm)

section \<open>Executions beside each other\<close>

text \<open>
  Between the two transactions of \<open>execute\<close> the adapter runs, and other calls go on. The state is
  the store and the reservations whose adapter is running; \<open>Begin\<close> reserves and calls the adapter,
  \<open>End\<close> records what it answered (\<open>None\<close> when it threw), \<open>Crash\<close> is the end of a process before
  the second transaction, \<open>Settle\<close> is a reconciliation. Adapters may answer anything.
\<close>

record engine_state =
  es_records :: execution_store
  es_running :: execution_store

inductive engine_step :: "(js_value \<Rightarrow> string) \<Rightarrow> engine_state \<Rightarrow> engine_state \<Rightarrow> bool" for hash where
  Begin: "reserve hash now i (es_records s) = Inr (Reserved base, records') \<Longrightarrow>
    engine_step hash s \<lparr>es_records = records', es_running = base # es_running s\<rparr>"
| End: "base \<in> set (es_running s) \<Longrightarrow> appendTerminal now base outcome (es_records s) = Inr (r, records') \<Longrightarrow>
    engine_step hash s \<lparr>es_records = records', es_running = remove1 base (es_running s)\<rparr>"
| Crash: "base \<in> set (es_running s) \<Longrightarrow>
    engine_step hash s (s\<lparr>es_running := remove1 base (es_running s)\<rparr>)"
| Settle: "reconcile now i outcome (es_records s) = Inr (r, records') \<Longrightarrow>
    engine_step hash s (s\<lparr>es_records := records'\<rparr>)"

inductive_cases engine_stepE: "engine_step hash s t"

definition engine_inv :: "(js_value \<Rightarrow> string) \<Rightarrow> engine_state \<Rightarrow> bool" where
  "engine_inv hash s \<longleftrightarrow> records_inv hash (es_records s) \<and> distinct (es_running s)
     \<and> (\<forall>b\<in>set (es_running s). history (ex_key b) (es_records s) = [b] \<and> ex_status b = ExReserved)"

definition idle_engine :: engine_state where
  "idle_engine = \<lparr>es_records = [], es_running = []\<rparr>"

lemma engine_inv_idle: "engine_inv hash idle_engine"
  by (simp add: engine_inv_def idle_engine_def)

lemma engine_step_inv:
  assumes step: "engine_step hash s t" and inv: "engine_inv hash s" and sep: "separates_keys hash"
  shows "engine_inv hash t"
  using step
proof cases
  case (Begin now i base records')
  have records: "records_inv hash (es_records s)" using inv by (simp add: engine_inv_def)
  note r = reserve_Reserved [OF records Begin(2)]
  have "b \<noteq> base \<and> ex_key b \<noteq> ex_key base" if "b \<in> set (es_running s)" for b
    using inv that r(2) by (auto simp: engine_inv_def)
  then show ?thesis using inv r by (auto simp: Begin(1) engine_inv_def)
next
  case (End base now outcome r records')
  have records: "records_inv hash (es_records s)" and base: "history (ex_key base) (es_records s) = [base]"
    "ex_status base = ExReserved"
    using inv End(2) by (auto simp: engine_inv_def)
  have r: "records' = es_records s @ [r]" "follows r base"
    using appendTerminal_Inr [OF records sep base, of now outcome] End(3) by auto
  have key: "ex_key r = ex_key base" using r(2) by (simp add: follows_def same_execution_def)
  have "records_inv hash records'"
    unfolding r(1) using records_inv_follows [OF records, of "ex_key base" r] base(1) r(2) by simp
  moreover have "history (ex_key b) (es_records s @ [r]) = [b] \<and> ex_status b = ExReserved"
    if "b \<in> set (remove1 base (es_running s))" for b
  proof -
    from inv that have b: "b \<noteq> base" "b \<in> set (es_running s)" by (auto simp: engine_inv_def)
    with inv have "history (ex_key b) (es_records s) = [b]" "ex_status b = ExReserved"
      by (simp_all add: engine_inv_def)
    moreover from this(1) base(1) key b(1) have "ex_key r \<noteq> ex_key b" by auto
    ultimately show ?thesis by simp
  qed
  moreover have "distinct (remove1 base (es_running s))" using inv by (simp add: engine_inv_def)
  ultimately show ?thesis
    unfolding End(1) engine_inv_def r(1) by simp
next
  case (Crash base)
  then show ?thesis using inv by (auto simp: engine_inv_def dest: notin_set_remove1)
next
  case (Settle now i outcome r records')
  have records: "records_inv hash (es_records s)" using inv by (simp add: engine_inv_def)
  from reconcile_Inr [OF Settle(2)] show ?thesis
  proof (elim disjE exE conjE)
    fix c
    assume c: "latestByExecutionId (es_records s) (trim i) = Some c" "ex_status c = ExInDoubt"
      "records' = es_records s @ [r]" "follows r c"
    from latest_by_id_Some [OF c(1)] have mem: "c \<in> set (es_records s)" and id: "ex_id c = trim i" .
    from latest_by_id [OF records sep mem] c(1) id
    have last: "last (history (ex_key c) (es_records s)) = c" and ne: "history (ex_key c) (es_records s) \<noteq> []"
      by simp_all
    have "records_inv hash records'"
      unfolding c(3) using records_inv_follows [OF records ne] last c(4) by simp
    moreover have key: "ex_key r = ex_key c" using c(4) by (simp add: follows_def same_execution_def)
    moreover have "history (ex_key b) (es_records s @ [r]) = [b]" if "b \<in> set (es_running s)" for b
    proof -
      from inv that have b: "history (ex_key b) (es_records s) = [b]" "ex_status b = ExReserved"
        by (simp_all add: engine_inv_def)
      have "ex_key b \<noteq> ex_key c"
      proof
        assume "ex_key b = ex_key c"
        with last b(1) have "c = b" by simp
        with b(2) c(2) show False by simp
      qed
      with b(1) key show ?thesis by simp
    qed
    ultimately show ?thesis using inv unfolding Settle(1) engine_inv_def c(3) by simp
  qed (use inv Settle in \<open>simp add: engine_inv_def\<close>)
qed

lemma engine_reach_inv: "(engine_step hash)\<^sup>*\<^sup>* s t \<Longrightarrow> engine_inv hash s \<Longrightarrow> separates_keys hash \<Longrightarrow> engine_inv hash t"
  by (induction rule: rtranclp_induct) (auto intro: engine_step_inv)

section \<open>Prefixes and settled histories\<close>

lemma engine_step_grows: "engine_step hash s t \<Longrightarrow> prefix (es_records s) (es_records t)"
  by (erule engine_stepE)
    (auto simp: appendTerminal_def reserve_def Let_def dest!: reconcile_Inr split: option.split_asm if_split_asm)

lemma engine_reach_grows: "(engine_step hash)\<^sup>*\<^sup>* s t \<Longrightarrow> prefix (es_records s) (es_records t)"
  by (induction rule: rtranclp_induct) (auto dest: engine_step_grows intro: prefix_order.trans)

lemma history_prefix: "prefix records records' \<Longrightarrow> prefix (history k records) (history k records')"
  by (auto simp: prefix_def history_def)

lemma engine_invD: "engine_inv hash s \<Longrightarrow> history_ok hash (history k (es_records s))"
  by (simp add: engine_inv_def records_inv_def)

text \<open>A settled history does not grow.\<close>

lemma successively_settled:
  "successively (\<lambda>a b. b \<in> set (execution_successors a)) (ss @ ts) \<Longrightarrow> ss \<noteq> [] \<Longrightarrow> settled (last ss) \<Longrightarrow> ts = []"
  by (cases ts) (auto simp: successively_append_iff dest: execution_life.terminal_no_step)

lemma settled_history:
  assumes "(engine_step hash)\<^sup>*\<^sup>* s t" and "engine_inv hash s" and "separates_keys hash"
    and ne: "history k (es_records s) \<noteq> []" and last: "settled (ex_status (last (history k (es_records s))))"
  shows "history k (es_records t) = history k (es_records s)"
proof -
  obtain more where more: "history k (es_records t) = history k (es_records s) @ more"
    using history_prefix [OF engine_reach_grows [OF assms(1)], of k] by (auto simp: prefix_def)
  have "course_ok (map ex_status (history k (es_records t)))"
    using engine_invD [OF engine_reach_inv [OF assms(1-3)]] by (simp add: history_ok_def)
  then have "successively (\<lambda>a b. b \<in> set (execution_successors a))
      (map ex_status (history k (es_records s)) @ map ex_status more)"
    using more ne by (simp add: course_ok_def)
  from successively_settled [OF this] ne last have "more = []" by (simp add: last_map)
  with more show ?thesis by simp
qed

text \<open>A reservation whose process is gone, and which no step can change any more.\<close>

definition stuck_reservation :: "execution_record \<Rightarrow> engine_state \<Rightarrow> bool" where
  "stuck_reservation b s \<longleftrightarrow> history (ex_key b) (es_records s) = [b] \<and> ex_status b = ExReserved
     \<and> b \<notin> set (es_running s)"

lemma singleton_histories:
  assumes "history (ex_key a) records = [a]" and "history (ex_key b) records = [b]" and "a \<noteq> b"
  shows "ex_key a \<noteq> ex_key b"
  using assms by (metis list.inject)

lemma stuck_step:
  assumes step: "engine_step hash s t" and inv: "engine_inv hash s" and sep: "separates_keys hash"
    and stuck: "stuck_reservation b s"
  shows "stuck_reservation b t"
proof -
  have b: "history (ex_key b) (es_records s) = [b]" "ex_status b = ExReserved" "b \<notin> set (es_running s)"
    using stuck by (simp_all add: stuck_reservation_def)
  have records: "records_inv hash (es_records s)" using inv by (simp add: engine_inv_def)
  from step show ?thesis
  proof cases
    case (Begin now i base records')
    note r = reserve_Reserved [OF records Begin(2)]
    with b have "ex_key base \<noteq> ex_key b" by auto
    with b r(1) Begin(1) show ?thesis by (auto simp: stuck_reservation_def)
  next
    case (End base now outcome r records')
    have base: "history (ex_key base) (es_records s) = [base]" "ex_status base = ExReserved"
      using inv End(2) by (simp_all add: engine_inv_def)
    have r: "records' = es_records s @ [r]" "follows r base"
      using appendTerminal_Inr [OF records sep base, of now outcome] End(3) by auto
    have "base \<noteq> b" using b(3) End(2) by blast
    with base(1) b(1) have "ex_key base \<noteq> ex_key b" by (rule singleton_histories)
    with r(2) have "ex_key r \<noteq> ex_key b" by (simp add: follows_def same_execution_def)
    with b r(1) End(1) show ?thesis by (auto simp: stuck_reservation_def dest: notin_set_remove1)
  next
    case (Crash base)
    with b show ?thesis by (auto simp: stuck_reservation_def dest: notin_set_remove1)
  next
    case (Settle now i outcome r records')
    from reconcile_Inr [OF Settle(2)] show ?thesis
    proof (elim disjE exE conjE)
      fix c
      assume c: "latestByExecutionId (es_records s) (trim i) = Some c" "ex_status c = ExInDoubt"
        "records' = es_records s @ [r]" "follows r c"
      from latest_by_id_Some [OF c(1)] have mem: "c \<in> set (es_records s)" and "ex_id c = trim i" .
      with latest_by_id [OF records sep mem] c(1) have "last (history (ex_key c) (es_records s)) = c" by simp
      with b c(2) have "ex_key c \<noteq> ex_key b" by auto
      with c(4) have "ex_key r \<noteq> ex_key b" by (simp add: follows_def same_execution_def)
      with b c(3) Settle(1) show ?thesis by (auto simp: stuck_reservation_def)
    qed (use stuck Settle in \<open>simp add: stuck_reservation_def\<close>)
  qed
qed

lemma stuck_reach:
  "(engine_step hash)\<^sup>*\<^sup>* s t \<Longrightarrow> engine_inv hash s \<Longrightarrow> separates_keys hash \<Longrightarrow> stuck_reservation b s
     \<Longrightarrow> stuck_reservation b t"
  by (induction rule: rtranclp_induct) (auto intro: stuck_step engine_reach_inv)

section \<open>Properties\<close>

text \<open>
  C1. No adapter is called without authority. The checks of \<open>execute\<close> pass only if the input names
  the plan, its current revision and its Goal; the plan requests the capability (and the version);
  the registry authorizes it under the Goal; every capability of the plan can be assessed; and,
  unless the assessment asks for no approval, the receipt given approves this capability for this
  revision of this plan.
\<close>

theorem prepare_needs_authority:
  assumes "prepare reg adapters input plan goal approval = Inr (i, a)"
  shows "xi_plan_id i = pp_id plan \<and> xi_revision_id i = pp_revision_id plan \<and> pp_goal_id plan = goal_id goal
    \<and> (\<exists>r\<in>set (ct_capabilities (pp_content plan)). req_capability r = xi_capability i
        \<and> (req_version r = None \<or> req_version r = xi_version i))
    \<and> (\<exists>d. authorizable reg \<lparr>req_capability = xi_capability i, req_version = xi_version i\<rparr>
          (authorizationContext (pp_id plan) goal) d)
    \<and> (\<exists>assessment c. assess reg plan goal = Inr assessment
        \<and> c \<in> set (pa_capabilities assessment) \<and> ra_capability c = xi_capability i
        \<and> (ra_requirement c = ApprovalNone \<or> approval_covers approval plan (xi_capability i)))
    \<and> map_of adapters (xi_capability i) = Some a"
proof -
  from assms have auth: "validateAuthority reg i plan goal approval = Inr ()"
    and a: "map_of adapters (xi_capability i) = Some a"
    by (auto simp: prepare_def rbind_Inr_iff split: option.splits)
  from auth obtain r assessment c authorized where
    ids: "xi_plan_id i = pp_id plan" "xi_revision_id i = pp_revision_id plan" "pp_goal_id plan = goal_id goal"
    and r: "List.find (\<lambda>r. req_capability r = xi_capability i) (ct_capabilities (pp_content plan)) = Some r"
    and version: "req_version r = None \<or> req_version r = xi_version i"
    and authorized: "of_capability_error (authorize reg \<lparr>req_capability = xi_capability i, req_version = xi_version i\<rparr>
      (execution_context (pp_id plan) goal)) = Inr authorized"
    and assessment: "of_capability_error (assess reg plan goal) = Inr assessment"
    and c: "List.find (\<lambda>a. ra_capability a = xi_capability i) (pa_capabilities assessment) = Some c"
    and approval: "ra_requirement c = ApprovalNone \<or> approval_covers approval plan (xi_capability i)"
    unfolding validateAuthority_def Let_def
    by (auto simp: rbind_Inr_iff split: if_split_asm option.split_asm)
  from authorized have "\<exists>d. authorizable reg \<lparr>req_capability = xi_capability i, req_version = xi_version i\<rparr>
      (authorizationContext (pp_id plan) goal) d"
    by (cases "authorize reg \<lparr>req_capability = xi_capability i, req_version = xi_version i\<rparr>
        (execution_context (pp_id plan) goal)")
      (auto simp: of_capability_error_def execution_context_eq authorize_Inr_iff)
  moreover from assessment have "assess reg plan goal = Inr assessment"
    by (cases "assess reg plan goal") (simp_all add: of_capability_error_def)
  ultimately show ?thesis
    using ids version approval a find_Some_D [OF r] find_Some_D [OF c] by blast
qed

text \<open>
  C2. At most once: however calls, adapters, crashes and reconciliations interleave, the records of
  an idempotency key are numbered without gaps, belong to one execution, follow its life, and contain
  at most one reservation. Since an adapter is called only by the call that reserved, it is called at
  most once for a key.
\<close>

theorem adapter_at_most_once:
  assumes "separates_keys hash" and "(engine_step hash)\<^sup>*\<^sup>* idle_engine s"
  shows "numbered ex_sequence (history k (es_records s)) \<and> course_ok (map ex_status (history k (es_records s)))
    \<and> (\<forall>r\<in>set (history k (es_records s)). same_execution r (hd (history k (es_records s))))
    \<and> length (filter (\<lambda>r. ex_status r = ExReserved) (history k (es_records s))) \<le> 1"
proof -
  have "history_ok hash (history k (es_records s))"
    using engine_invD [OF engine_reach_inv [OF assms(2) engine_inv_idle assms(1)]] .
  then show ?thesis
    using course_ok_reserved [of "map ex_status (history k (es_records s))"]
    by (simp add: history_ok_def filter_map comp_def)
qed

text \<open>
  A completed execution is final: after any further steps, the same request is answered with the
  completed record, without a reservation and without a write; a different request under the same key
  is refused, and a request under a key whose execution failed stays in doubt.
\<close>

theorem completed_execution_replays:
  assumes "engine_inv hash s" and "separates_keys hash" and "(engine_step hash)\<^sup>*\<^sup>* s t"
    and "latestByIdempotencyKey (es_records s) (xi_key i) = Some r" and "settled (ex_status r)"
  shows "reserve hash now i (es_records t) =
    (if ex_request_hash r \<noteq> request_hash hash i then Inl (ExecutionIdempotencyConflict (xi_key i))
     else if ex_status r = ExCompleted then Inr (Replay r, es_records t)
     else Inl (ExecutionInDoubt (ex_id r)))"
proof -
  have records: "records_inv hash (es_records s)" "records_inv hash (es_records t)"
    using assms(1) engine_reach_inv [OF assms(3,1,2)] by (simp_all add: engine_inv_def)
  from assms(4) have h: "history (xi_key i) (es_records s) \<noteq> []" "r = last (history (xi_key i) (es_records s))"
    by (auto simp: latest_by_key [OF records(1)] split: if_splits)
  with settled_history [OF assms(3,1,2) h(1)] assms(5)
  have "latestByIdempotencyKey (es_records t) (xi_key i) = Some r"
    by (simp add: latest_by_key [OF records(2)])
  then show ?thesis by (simp add: reserve_def)
qed

text \<open>
  A reservation left behind by a crash can never be settled. Whatever happens afterwards its key
  has this one record; every request under the key is refused, the same request with "requires
  reconciliation"; and every reconciliation is refused, because the record is reserved, not in doubt.
\<close>

theorem crashed_reservation_stays:
  assumes sep: "separates_keys hash" and inv: "engine_inv hash s" and stuck: "stuck_reservation b s"
    and reach: "(engine_step hash)\<^sup>*\<^sup>* s t" and clean: "clean_text 240 (ex_id b)" and key: "xi_key i = ex_key b"
  shows "reserve hash now i (es_records t) = Inl (if ex_request_hash b = request_hash hash i
      then ExecutionInDoubt (ex_id b) else ExecutionIdempotencyConflict (ex_key b))
    \<and> reconcile now' (ex_id b) outcome (es_records t) = Inl (InvalidExecutionInput ''status'')"
proof -
  have b: "history (ex_key b) (es_records t) = [b]" "ex_status b = ExReserved"
    using stuck_reach [OF reach inv sep stuck] by (simp_all add: stuck_reservation_def)
  have records: "records_inv hash (es_records t)"
    using engine_reach_inv [OF reach inv sep] by (simp add: engine_inv_def)
  have mem: "b \<in> set (es_records t)" using b(1) by (auto simp: history_def filter_eq_Cons_iff)
  have "latestByIdempotencyKey (es_records t) (xi_key i) = Some b"
    by (simp add: latest_by_key [OF records] b key)
  moreover have "latestByExecutionId (es_records t) (ex_id b) = Some b"
    using latest_by_id(1) [OF records sep mem] b by simp
  moreover have "clean_execution (ex_id b) f = Inr (ex_id b)" for f
    using clean by (simp add: clean_execution_def clean_within_Inr clean_text_trim)
  ultimately show ?thesis
    using b(2) key by (simp add: reserve_def reconcile_def)
qed

subsection \<open>The properties at a concrete engine\<close>

text \<open>A digest that keeps the first field of an object, which is the idempotency key.\<close>

definition first_field :: "js_value \<Rightarrow> string" where
  "first_field v = (case v of JObject ((_, JString s) # _) \<Rightarrow> s | _ \<Rightarrow> [])"

lemma separates_first_field: "separates_keys first_field"
  by (simp add: separates_keys_def execution_id_def first_field_def)

definition sample_input_execution :: execute_input where
  "sample_input_execution = \<lparr>xi_plan_id = ''p1'', xi_revision_id = ''p1:rev:1'',
     xi_capability = ''public_web_research'', xi_version = None, xi_key = ''k1'',
     xi_payload = JObject [], xi_actor = ''owner''\<rparr>"

definition sample_base :: execution_record where
  "sample_base = \<lparr>ex_id = ''execution:k1'', ex_sequence = 1, ex_plan_id = ''p1'', ex_revision_id = ''p1:rev:1'',
     ex_capability = ''public_web_research'', ex_version = None, ex_key = ''k1'', ex_request_hash = ''p1'',
     ex_status = ExReserved, ex_reserved_at = ''t1'', ex_completed_at = None, ex_failed_at = None,
     ex_actor = ''owner'', ex_result = None, ex_failure_code = None\<rparr>"

lemma sample_reserve:
  "reserve first_field ''t1'' sample_input_execution [] = Inr (Reserved sample_base, [sample_base])"
  by code_simp

definition running_engine :: engine_state where
  "running_engine = \<lparr>es_records = [sample_base], es_running = [sample_base]\<rparr>"

definition crashed_engine :: engine_state where
  "crashed_engine = \<lparr>es_records = [sample_base], es_running = []\<rparr>"

definition sample_done :: execution_record where
  "sample_done = sample_base\<lparr>ex_sequence := 2, ex_status := ExCompleted, ex_completed_at := Some ''t2'',
     ex_result := Some JNull\<rparr>"

definition done_engine :: engine_state where
  "done_engine = \<lparr>es_records = [sample_base, sample_done], es_running = []\<rparr>"

lemma running_reachable: "(engine_step first_field)\<^sup>*\<^sup>* idle_engine running_engine"
proof -
  have "engine_step first_field idle_engine running_engine"
    using Begin [of first_field "''t1''" sample_input_execution idle_engine sample_base "[sample_base]"] sample_reserve
    by (simp add: idle_engine_def running_engine_def)
  then show ?thesis by (rule r_into_rtranclp)
qed

lemma crash_reachable: "(engine_step first_field)\<^sup>*\<^sup>* idle_engine crashed_engine"
proof -
  have "engine_step first_field running_engine crashed_engine"
    using Crash [of sample_base running_engine first_field] by (simp add: running_engine_def crashed_engine_def)
  with running_reachable show ?thesis by (rule rtranclp.rtrancl_into_rtrancl)
qed

lemma sample_append:
  "appendTerminal ''t2'' sample_base (Some JNull) [sample_base] = Inr (sample_done, [sample_base, sample_done])"
  by code_simp

lemma done_reachable: "(engine_step first_field)\<^sup>*\<^sup>* idle_engine done_engine"
proof -
  have "engine_step first_field running_engine done_engine"
    using End [of sample_base running_engine "''t2''" "Some JNull" sample_done "[sample_base, sample_done]" first_field]
      sample_append by (simp add: running_engine_def done_engine_def)
  with running_reachable show ?thesis by (rule rtranclp.rtrancl_into_rtrancl)
qed

lemma prepare_sample:
  "map_sum id fst (prepare sample_registry [(''public_web_research'', \<lambda>_ _ _. None)]
     (sample_input_execution\<lparr>xi_actor := '' owner''\<rparr>) (hd sample_plans) open_goal
     (Some (decided_receipt (\<lambda>_. ''d'') ''t5'' sample_decision)))
   = Inr sample_input_execution"
  by code_simp

theorem prepare_needs_authority_witness:
  "\<exists>assessment. assess sample_registry (hd sample_plans) open_goal = Inr assessment
     \<and> approval_covers (Some (decided_receipt (\<lambda>_. ''d'') ''t5'' sample_decision)) (hd sample_plans) ''public_web_research''"
proof -
  obtain i a where ok: "prepare sample_registry [(''public_web_research'', \<lambda>_ _ _. None)]
     (sample_input_execution\<lparr>xi_actor := '' owner''\<rparr>) (hd sample_plans) open_goal
     (Some (decided_receipt (\<lambda>_. ''d'') ''t5'' sample_decision)) = Inr (i, a)"
    using prepare_sample
    by (cases "prepare sample_registry [(''public_web_research'', \<lambda>_ _ _. None)]
      (sample_input_execution\<lparr>xi_actor := '' owner''\<rparr>) (hd sample_plans) open_goal
      (Some (decided_receipt (\<lambda>_. ''d'') ''t5'' sample_decision))") auto
  have "approval_covers (Some (decided_receipt (\<lambda>_. ''d'') ''t5'' sample_decision)) (hd sample_plans) ''public_web_research''"
    by code_simp
  with prepare_needs_authority [OF ok] show ?thesis by blast
qed

theorem adapter_at_most_once_witness:
  "length (filter (\<lambda>r. ex_status r = ExReserved) (history ''k1'' (es_records done_engine))) \<le> 1"
  using adapter_at_most_once [OF separates_first_field done_reachable] by blast

theorem completed_execution_replays_witness:
  "reserve first_field ''t9'' sample_input_execution (es_records done_engine)
     = Inr (Replay sample_done, es_records done_engine)"
proof -
  have "engine_inv first_field done_engine"
    using engine_reach_inv [OF done_reachable engine_inv_idle separates_first_field] .
  moreover have "latestByIdempotencyKey (es_records done_engine) (xi_key sample_input_execution) = Some sample_done"
    by code_simp
  moreover have "settled (ex_status sample_done)" by code_simp
  ultimately have "reserve first_field ''t9'' sample_input_execution (es_records done_engine) =
    (if ex_request_hash sample_done \<noteq> request_hash first_field sample_input_execution
     then Inl (ExecutionIdempotencyConflict (xi_key sample_input_execution))
     else if ex_status sample_done = ExCompleted then Inr (Replay sample_done, es_records done_engine)
     else Inl (ExecutionInDoubt (ex_id sample_done)))"
    using completed_execution_replays [OF _ separates_first_field rtranclp.rtrancl_refl] by blast
  moreover have "ex_request_hash sample_done = request_hash first_field sample_input_execution"
    and "ex_status sample_done = ExCompleted" by code_simp+
  ultimately show ?thesis by simp
qed

theorem crashed_reservation_stays_witness:
  "reserve first_field ''t9'' sample_input_execution (es_records crashed_engine) = Inl (ExecutionInDoubt ''execution:k1'')
   \<and> reconcile ''t9'' ''execution:k1'' (ReconcileFailed None) (es_records crashed_engine)
       = Inl (InvalidExecutionInput ''status'')"
proof -
  have inv: "engine_inv first_field crashed_engine"
    using engine_reach_inv [OF crash_reachable engine_inv_idle separates_first_field] .
  have "stuck_reservation sample_base crashed_engine"
    by (simp add: stuck_reservation_def crashed_engine_def history_def sample_base_def)
  moreover have "clean_text 240 (ex_id sample_base)" and "xi_key sample_input_execution = ex_key sample_base"
    by code_simp+
  moreover have "ex_request_hash sample_base = request_hash first_field sample_input_execution"
    and "ex_id sample_base = ''execution:k1''" by code_simp+
  ultimately show ?thesis
    using crashed_reservation_stays [OF separates_first_field inv _ rtranclp.rtrancl_refl, of sample_base
        sample_input_execution "''t9''" "''t9''" "ReconcileFailed None"] by simp
qed

end
