(* ===== verification/Memory_Authority.thy ===== *)
theory Memory_Authority
  imports Kernel_Prelude
begin

text \<open>
  The authority lifecycle of a memory (\<open>memory/memory-authority-lifecycle.ts\<close>): which state may
  follow which, and what proof each transition needs. A validation is \<open>Inr ()\<close> for \<open>{ ok: true }\<close>
  and \<open>Inl code\<close> for a failure.
\<close>

section \<open>Data\<close>

datatype memory_state = MemProposed | MemQuarantined | MemAdmitted | MemRejected | MemSuperseded | MemRevoked
datatype actor_type = ActorKernel | ActorHuman | ActorFounder | ActorRecovery
datatype approval_outcome = OutcomeApproved | OutcomeRejected

record memory_actor =
  actor_id :: string
  actor_type :: actor_type

record memory_approval =
  ma_decision_id :: string
  ma_approver :: memory_actor
  ma_outcome :: approval_outcome
  ma_policy_version :: string

record transition_request =
  tr_from :: memory_state
  tr_to :: memory_state
  tr_executor :: memory_actor
  tr_policy_version :: string
  tr_approvals :: "memory_approval list option"
  tr_quarantine_signal :: "bool option"
  tr_admission_record :: "bool option"
  tr_contradictions_resolved :: "bool option"
  tr_replacement :: "string option"
  tr_replacement_admitted :: "bool option"
  tr_hard_failure :: "bool option"
  tr_high_impact :: "bool option"

datatype transition_failure =
  InvalidTransition | InvalidExecutor | MissingPolicyVersion | MissingApproval | ApprovalPolicyMismatch
| FounderApprovalRequired | MissingQuarantineSignal | MissingAdmissionProof | UnresolvedContradictions
| MissingReplacement | ReplacementNotAdmitted

section \<open>The table\<close>

definition TERMINAL_STATES :: "memory_state list" where
  "TERMINAL_STATES = [MemRejected, MemSuperseded, MemRevoked]"

definition VALID_TRANSITIONS :: "memory_state \<Rightarrow> memory_state list" where
  "VALID_TRANSITIONS s = (case s of
     MemProposed \<Rightarrow> [MemQuarantined, MemAdmitted, MemRejected]
   | MemQuarantined \<Rightarrow> [MemProposed, MemAdmitted, MemRejected]
   | MemAdmitted \<Rightarrow> [MemQuarantined, MemSuperseded, MemRevoked]
   | MemRejected \<Rightarrow> [] | MemSuperseded \<Rightarrow> [] | MemRevoked \<Rightarrow> [])"

definition allowedMemoryAuthorityTransitions :: "memory_state \<Rightarrow> memory_state list" where
  "allowedMemoryAuthorityTransitions s = VALID_TRANSITIONS s"

definition isTerminalMemoryAuthorityState :: "memory_state \<Rightarrow> bool" where
  "isTerminalMemoryAuthorityState s \<longleftrightarrow> s \<in> set TERMINAL_STATES"

interpretation memory_life: lifecycle VALID_TRANSITIONS isTerminalMemoryAuthorityState
proof
  show "isTerminalMemoryAuthorityState s \<longleftrightarrow> VALID_TRANSITIONS s = []" for s
    by (cases s) (simp_all add: isTerminalMemoryAuthorityState_def TERMINAL_STATES_def VALID_TRANSITIONS_def)
qed

section \<open>Validation\<close>

definition is_approver :: "actor_type \<Rightarrow> bool" where
  "is_approver t \<longleftrightarrow> t \<in> set [ActorHuman, ActorFounder]"

definition is_executor :: "actor_type \<Rightarrow> bool" where
  "is_executor t \<longleftrightarrow> t \<in> set [ActorKernel, ActorHuman, ActorFounder]"

definition validateApproval :: "transition_request \<Rightarrow> bool \<Rightarrow> transition_failure + unit" where
  "validateApproval r founder_required =
     (let approvals = (case tr_approvals r of None \<Rightarrow> [] | Some ds \<Rightarrow> ds);
          matching = filter (\<lambda>d. ma_outcome d = OutcomeApproved \<and> ma_policy_version d = tr_policy_version r) approvals in
      if list_ex (\<lambda>d. ma_policy_version d \<noteq> tr_policy_version r) approvals then Inl ApprovalPolicyMismatch
      else if length matching = 0 then Inl MissingApproval
      else if founder_required \<and> \<not> list_ex (\<lambda>d. actor_type (ma_approver d) = ActorFounder) matching
        then Inl FounderApprovalRequired
      else if \<not> list_ex (\<lambda>d. is_approver (actor_type (ma_approver d))) matching then Inl MissingApproval
      else if \<not> is_executor (actor_type (tr_executor r)) then Inl InvalidExecutor
      else Inr ())"

text \<open>\<open>request.flag\<close> as a condition, and \<open>request.flag === true\<close>: an absent flag is false.\<close>

definition flag :: "bool option \<Rightarrow> bool" where
  "flag b \<longleftrightarrow> b = Some True"

definition validateMemoryAuthorityTransition :: "transition_request \<Rightarrow> transition_failure + unit" where
  "validateMemoryAuthorityTransition r =
     (if trim (tr_policy_version r) = [] then Inl MissingPolicyVersion
      else if tr_to r \<notin> set (VALID_TRANSITIONS (tr_from r)) then Inl InvalidTransition
      else if actor_type (tr_executor r) = ActorRecovery then Inl InvalidExecutor
      else case tr_to r of
        MemQuarantined \<Rightarrow>
          if \<not> flag (tr_quarantine_signal r) then Inl MissingQuarantineSignal
          else if \<not> is_executor (actor_type (tr_executor r)) then Inl InvalidExecutor
          else Inr ()
      | MemAdmitted \<Rightarrow>
          if \<not> flag (tr_admission_record r) then Inl MissingAdmissionProof
          else if \<not> flag (tr_contradictions_resolved r) then Inl UnresolvedContradictions
          else validateApproval r (flag (tr_high_impact r))
      | MemSuperseded \<Rightarrow>
          if trim (case_option [] id (tr_replacement r)) = [] then Inl MissingReplacement
          else if \<not> flag (tr_replacement_admitted r) then Inl ReplacementNotAdmitted
          else validateApproval r (flag (tr_high_impact r))
      | MemRevoked \<Rightarrow> validateApproval r (flag (tr_high_impact r))
      | MemProposed \<Rightarrow> validateApproval r False
      | MemRejected \<Rightarrow>
          if actor_type (tr_executor r) = ActorKernel \<and> flag (tr_hard_failure r) then Inr ()
          else validateApproval r (flag (tr_high_impact r)))"

section \<open>What a valid transition has\<close>

definition approved_by :: "transition_request \<Rightarrow> (actor_type \<Rightarrow> bool) \<Rightarrow> bool" where
  "approved_by r who \<longleftrightarrow> (\<exists>d\<in>set (case_option [] id (tr_approvals r)). ma_outcome d = OutcomeApproved
     \<and> ma_policy_version d = tr_policy_version r \<and> who (actor_type (ma_approver d)))"

lemma validateApproval_iff:
  "validateApproval r founder = Inr u \<longleftrightarrow>
     (\<forall>d\<in>set (case_option [] id (tr_approvals r)). ma_policy_version d = tr_policy_version r)
     \<and> approved_by r (\<lambda>t. if founder then t = ActorFounder else is_approver t)
     \<and> actor_type (tr_executor r) \<noteq> ActorRecovery"
proof -
  have exec: "is_executor t \<longleftrightarrow> t \<noteq> ActorRecovery" for t
    by (cases t) (simp_all add: is_executor_def)
  show ?thesis
    by (cases "tr_approvals r")
      (auto simp: validateApproval_def approved_by_def Let_def list_ex_iff filter_empty_conv exec is_approver_def)
qed

text \<open>The evidence each target state asks for.\<close>

definition transition_proof :: "transition_request \<Rightarrow> bool" where
  "transition_proof r \<longleftrightarrow> (case tr_to r of
     MemQuarantined \<Rightarrow> flag (tr_quarantine_signal r)
   | MemAdmitted \<Rightarrow> flag (tr_admission_record r) \<and> flag (tr_contradictions_resolved r)
   | MemSuperseded \<Rightarrow> trim (case_option [] id (tr_replacement r)) \<noteq> [] \<and> flag (tr_replacement_admitted r)
   | _ \<Rightarrow> True)"

text \<open>Whether the transition may go without an approval.\<close>

definition needs_no_approval :: "transition_request \<Rightarrow> bool" where
  "needs_no_approval r \<longleftrightarrow> tr_to r = MemQuarantined
     \<or> (tr_to r = MemRejected \<and> actor_type (tr_executor r) = ActorKernel \<and> flag (tr_hard_failure r))"

definition founder_needed :: "transition_request \<Rightarrow> bool" where
  "founder_needed r \<longleftrightarrow> flag (tr_high_impact r) \<and> tr_to r \<noteq> MemProposed"

section \<open>Properties\<close>

text \<open>
  A transition is valid exactly when: it names a policy version, the table allows it, the
  executor is not a recovery actor, the target state's proof is there, and, except for quarantine and
  the kernel's own rejection of a hard failure, every approval binds to that policy version and a
  human or the founder (the founder, when the impact is high) approved.
\<close>

theorem valid_transition_iff:
  "validateMemoryAuthorityTransition r = Inr () \<longleftrightarrow>
     trim (tr_policy_version r) \<noteq> [] \<and> tr_to r \<in> set (VALID_TRANSITIONS (tr_from r))
     \<and> actor_type (tr_executor r) \<noteq> ActorRecovery \<and> transition_proof r
     \<and> (needs_no_approval r
        \<or> ((\<forall>d\<in>set (case_option [] id (tr_approvals r)). ma_policy_version d = tr_policy_version r)
            \<and> approved_by r (\<lambda>t. if founder_needed r then t = ActorFounder else is_approver t)))"
proof -
  have exec: "is_executor t \<longleftrightarrow> t \<noteq> ActorRecovery" for t
    by (cases t) (simp_all add: is_executor_def)
  show ?thesis
    by (cases "tr_to r")
      (auto simp: validateMemoryAuthorityTransition_def transition_proof_def needs_no_approval_def
        founder_needed_def validateApproval_iff exec)
qed

text \<open>A high-impact revocation by the kernel under a founder's approval.\<close>

definition sample_revocation :: transition_request where
  "sample_revocation = \<lparr>tr_from = MemAdmitted, tr_to = MemRevoked, tr_executor = \<lparr>actor_id = ''k'', actor_type = ActorKernel\<rparr>,
     tr_policy_version = ''v1'', tr_approvals = Some [\<lparr>ma_decision_id = ''d'', ma_approver = \<lparr>actor_id = ''f'', actor_type = ActorFounder\<rparr>,
       ma_outcome = OutcomeApproved, ma_policy_version = ''v1''\<rparr>], tr_quarantine_signal = None, tr_admission_record = None,
     tr_contradictions_resolved = None, tr_replacement = None, tr_replacement_admitted = None, tr_hard_failure = None,
     tr_high_impact = Some True\<rparr>"

theorem valid_transition_iff_witness: "validateMemoryAuthorityTransition sample_revocation = Inr ()"
proof -
  have "trim ''v1'' \<noteq> []" by code_simp
  then show ?thesis
    using valid_transition_iff [of sample_revocation]
    by (simp add: sample_revocation_def VALID_TRANSITIONS_def transition_proof_def approved_by_def founder_needed_def flag_def)
qed

end
