(* ===== verification/Receipt_Repository.thy ===== *)
theory Receipt_Repository
  imports Memory_Authority Stable_Hash
begin

text \<open>
  The authority receipts (\<open>memory/memory-authority-receipt-repository.ts\<close>,
  \<open>durable-memory-authority-receipt-repository.ts\<close>): append-only chains of transition receipts, one
  per memory, each bound to a request id. The interface \<open>receipt_repository\<close> is what the transition
  service relies on; both the in-memory and the durable repository are shown to provide it.
  Parameters: \<open>digest\<close> (SHA-256 over the stable serialisation) and the collation \<open>lc\<close>. A revision
  that comes from outside is a \<open>js_number\<close>.
\<close>

section \<open>Data\<close>

record receipt_payload =
  mp_memory_id :: string
  mp_from :: memory_state
  mp_to :: memory_state
  mp_request_id :: string
  mp_expected_revision :: js_number
  mp_executor :: memory_actor
  mp_policy_version :: string
  mp_approvals :: "memory_approval list option"
  mp_evidence :: "string list option"
  mp_contradictions :: "string list option"
  mp_admissions :: "string list option"
  mp_signals :: "string list option"
  mp_replacement :: "string option"
  mp_reason_code :: string
  mp_reason :: string

record authority_receipt =
  mr_payload :: receipt_payload
  mr_receipt_id :: string
  mr_resulting_revision :: js_number
  mr_occurred_at :: string
  mr_payload_digest :: string
  mr_integrity_digest :: string

datatype append_result = Appended authority_receipt | Replayed authority_receipt

definition receipt_of :: "append_result \<Rightarrow> authority_receipt" where
  "receipt_of a = (case a of Appended r \<Rightarrow> r | Replayed r \<Rightarrow> r)"

lemma receipt_of_simps [simp]: "receipt_of (Appended r) = r" "receipt_of (Replayed r) = r"
  by (simp_all add: receipt_of_def)

datatype receipt_conflict = AlteredReplay | RevisionConflict | StateConflict | InvalidRevision | InvalidInput

section \<open>Normal form\<close>

definition required :: "string \<Rightarrow> receipt_conflict + string" where
  "required s = (let n = trim s in if n = [] then Inl InvalidInput else Inr n)"

definition normalizeActor :: "memory_actor \<Rightarrow> receipt_conflict + memory_actor" where
  "normalizeActor a = rbind (required (actor_id a)) (\<lambda>i. Inr \<lparr>actor_id = i, actor_type = actor_type a\<rparr>)"

definition normalize_approval :: "memory_approval \<Rightarrow> receipt_conflict + memory_approval" where
  "normalize_approval d =
     rbind (required (ma_decision_id d)) (\<lambda>i.
     rbind (normalizeActor (ma_approver d)) (\<lambda>a.
     rbind (required (ma_policy_version d)) (\<lambda>p.
     Inr \<lparr>ma_decision_id = i, ma_approver = a, ma_outcome = ma_outcome d, ma_policy_version = p\<rparr>)))"

definition normalizeApprovals ::
  "string comparator \<Rightarrow> memory_approval list option \<Rightarrow> receipt_conflict + memory_approval list option" where
  "normalizeApprovals lc ds = (case ds of None \<Rightarrow> Inr None
     | Some xs \<Rightarrow> rbind (map_res normalize_approval xs) (\<lambda>ys. Inr (Some (sort_by (key ma_decision_id lc) ys))))"

definition normalizeIds :: "string list option \<Rightarrow> receipt_conflict + string list option" where
  "normalizeIds vs = (case vs of None \<Rightarrow> Inr None
     | Some xs \<Rightarrow> rbind (map_res required xs) (\<lambda>ys. Inr (Some (sort_units (uniq ys)))))"

definition normalize_replacement :: "string option \<Rightarrow> string option" where
  "normalize_replacement r = (case r of None \<Rightarrow> None | Some s \<Rightarrow> if trim s = [] then None else Some (trim s))"

definition normalizePayload :: "string comparator \<Rightarrow> receipt_payload \<Rightarrow> receipt_conflict + receipt_payload" where
  "normalizePayload lc p =
     (if \<not> is_safe_integer (mp_expected_revision p) \<or> num_lt (mp_expected_revision p) (Fin 0)
      then Inl InvalidRevision
      else
        rbind (required (mp_memory_id p)) (\<lambda>memory.
        rbind (required (mp_request_id p)) (\<lambda>request.
        rbind (normalizeActor (mp_executor p)) (\<lambda>executor.
        rbind (required (mp_policy_version p)) (\<lambda>policy.
        rbind (normalizeApprovals lc (mp_approvals p)) (\<lambda>approvals.
        rbind (normalizeIds (mp_evidence p)) (\<lambda>evidence.
        rbind (normalizeIds (mp_contradictions p)) (\<lambda>contradictions.
        rbind (normalizeIds (mp_admissions p)) (\<lambda>admissions.
        rbind (normalizeIds (mp_signals p)) (\<lambda>signals.
        rbind (required (mp_reason_code p)) (\<lambda>code.
        rbind (required (mp_reason p)) (\<lambda>reason.
        Inr \<lparr>mp_memory_id = memory, mp_from = mp_from p, mp_to = mp_to p, mp_request_id = request,
          mp_expected_revision = mp_expected_revision p, mp_executor = executor, mp_policy_version = policy,
          mp_approvals = approvals, mp_evidence = evidence, mp_contradictions = contradictions,
          mp_admissions = admissions, mp_signals = signals,
          mp_replacement = normalize_replacement (mp_replacement p), mp_reason_code = code,
          mp_reason = reason\<rparr>))))))))))))"

section \<open>Digests\<close>

definition state_name :: "memory_state \<Rightarrow> string" where
  "state_name s = (case s of MemProposed \<Rightarrow> ''proposed'' | MemQuarantined \<Rightarrow> ''quarantined''
     | MemAdmitted \<Rightarrow> ''admitted'' | MemRejected \<Rightarrow> ''rejected'' | MemSuperseded \<Rightarrow> ''superseded''
     | MemRevoked \<Rightarrow> ''revoked'')"

definition actor_value :: "memory_actor \<Rightarrow> js_value" where
  "actor_value a = JObject [(''id'', JString (actor_id a)), (''type'', JString (case actor_type a of
     ActorKernel \<Rightarrow> ''kernel'' | ActorHuman \<Rightarrow> ''human'' | ActorFounder \<Rightarrow> ''founder'' | ActorRecovery \<Rightarrow> ''recovery''))]"

definition approval_value :: "memory_approval \<Rightarrow> js_value" where
  "approval_value d = JObject [(''decisionId'', JString (ma_decision_id d)), (''approver'', actor_value (ma_approver d)),
     (''outcome'', JString (case ma_outcome d of OutcomeApproved \<Rightarrow> ''approved'' | OutcomeRejected \<Rightarrow> ''rejected'')),
     (''policyVersion'', JString (ma_policy_version d))]"

definition ids_value :: "string list option \<Rightarrow> js_value" where
  "ids_value vs = (case vs of None \<Rightarrow> JUndefined | Some xs \<Rightarrow> JArray (map JString xs))"

definition payload_fields :: "receipt_payload \<Rightarrow> (string \<times> js_value) list" where
  "payload_fields p =
     [(''memoryId'', JString (mp_memory_id p)), (''from'', JString (state_name (mp_from p))),
      (''to'', JString (state_name (mp_to p))), (''requestId'', JString (mp_request_id p)),
      (''expectedRevision'', JNumber (mp_expected_revision p)), (''executor'', actor_value (mp_executor p)),
      (''policyVersion'', JString (mp_policy_version p)),
      (''approvalDecisions'', case mp_approvals p of None \<Rightarrow> JUndefined | Some ds \<Rightarrow> JArray (map approval_value ds)),
      (''evidenceIds'', ids_value (mp_evidence p)),
      (''contradictionDecisionIds'', ids_value (mp_contradictions p)),
      (''admissionRecordIds'', ids_value (mp_admissions p)), (''quarantineSignalIds'', ids_value (mp_signals p)),
      (''replacementMemoryId'', case mp_replacement p of None \<Rightarrow> JUndefined | Some s \<Rightarrow> JString s),
      (''reasonCode'', JString (mp_reason_code p)), (''reason'', JString (mp_reason p))]"

definition receipt_base :: "receipt_payload \<Rightarrow> js_number \<Rightarrow> string \<Rightarrow> string \<Rightarrow> js_value" where
  "receipt_base p revision occurred payload_digest = JObject (payload_fields p
     @ [(''resultingRevision'', JNumber revision), (''occurredAt'', JString occurred),
        (''payloadDigest'', JString payload_digest)])"

definition verifyMemoryAuthorityReceiptIntegrity :: "(js_value \<Rightarrow> string) \<Rightarrow> authority_receipt \<Rightarrow> bool" where
  "verifyMemoryAuthorityReceiptIntegrity digest r \<longleftrightarrow>
     digest (receipt_base (mr_payload r) (mr_resulting_revision r) (mr_occurred_at r) (mr_payload_digest r))
       = mr_integrity_digest r"

definition make_receipt :: "(js_value \<Rightarrow> string) \<Rightarrow> receipt_payload \<Rightarrow> string \<Rightarrow> authority_receipt" where
  "make_receipt digest p occurred =
     (let payload_digest = digest (JObject (payload_fields p));
          revision = num_succ (mp_expected_revision p);
          integrity = digest (receipt_base p revision occurred payload_digest) in
      \<lparr>mr_payload = p, mr_receipt_id = ''memory-authority-receipt:'' @ integrity,
       mr_resulting_revision = revision, mr_occurred_at = occurred, mr_payload_digest = payload_digest,
       mr_integrity_digest = integrity\<rparr>)"

section \<open>The in-memory repository\<close>

record memory_receipts =
  by_memory :: "(string \<times> authority_receipt list) list"
  by_request :: "(string \<times> authority_receipt) list"

definition no_receipts :: memory_receipts where
  "no_receipts = \<lparr>by_memory = [], by_request = []\<rparr>"

definition chain_of :: "memory_receipts \<Rightarrow> string \<Rightarrow> authority_receipt list" where
  "chain_of s m = (case map_of (by_memory s) m of None \<Rightarrow> [] | Some rs \<Rightarrow> rs)"

definition append_receipt ::
  "(js_value \<Rightarrow> string) \<Rightarrow> string comparator \<Rightarrow> receipt_payload \<Rightarrow> string \<Rightarrow> memory_receipts
   \<Rightarrow> receipt_conflict + (append_result \<times> memory_receipts)" where
  "append_receipt digest lc p occurred s =
     rbind (normalizePayload lc p) (\<lambda>n.
     rbind (required occurred) (\<lambda>time.
     let payload_digest = digest (JObject (payload_fields n)) in
     case map_of (by_request s) (mp_request_id n) of
       Some existing \<Rightarrow>
         if mr_payload_digest existing \<noteq> payload_digest \<or> mp_memory_id (mr_payload existing) \<noteq> mp_memory_id n
         then Inl AlteredReplay
         else Inr (Replayed existing, s)
     | None \<Rightarrow>
         let chain = chain_of s (mp_memory_id n);
             current_revision = (if chain = [] then Fin 0 else mr_resulting_revision (last chain)) in
         if mp_expected_revision n \<noteq> current_revision then Inl RevisionConflict
         else if chain \<noteq> [] \<and> mp_from n \<noteq> mp_to (mr_payload (last chain)) then Inl StateConflict
         else
           let receipt = make_receipt digest n time in
           Inr (Appended receipt,
             \<lparr>by_memory = AList.update (mp_memory_id n) (chain @ [receipt]) (by_memory s),
              by_request = AList.update (mp_request_id n) receipt (by_request s)\<rparr>)))"

definition list_receipts :: "string \<Rightarrow> memory_receipts \<Rightarrow> authority_receipt list" where
  "list_receipts m s = chain_of s (trim m)"

definition findByRequestId :: "string \<Rightarrow> memory_receipts \<Rightarrow> authority_receipt option" where
  "findByRequestId r s = map_of (by_request s) (trim r)"

section \<open>The durable repository\<close>

text \<open>
  The state is the list of receipts in the file (the empty list when there is no file); the file
  system, the JSON syntax and the schema version are outside the model. Every operation rebuilds an
  in-memory repository by replaying the file.
\<close>

type_synonym receipt_file = "authority_receipt list"

primrec replay_receipts ::
  "(js_value \<Rightarrow> string) \<Rightarrow> string comparator \<Rightarrow> authority_receipt list \<Rightarrow> memory_receipts \<Rightarrow> receipt_conflict + memory_receipts" where
  "replay_receipts digest lc [] s = Inr s"
| "replay_receipts digest lc (r # rs) s =
     rbind (append_receipt digest lc (mr_payload r) (mr_occurred_at r) s) (\<lambda>(replayed, s').
       if mr_receipt_id (receipt_of replayed) \<noteq> mr_receipt_id r
          \<or> mr_integrity_digest (receipt_of replayed) \<noteq> mr_integrity_digest r
       then Inl AlteredReplay
       else replay_receipts digest lc rs s')"

definition readReceipts :: "(js_value \<Rightarrow> string) \<Rightarrow> receipt_file \<Rightarrow> receipt_conflict + authority_receipt list" where
  "readReceipts digest f =
     rbind (each_res (\<lambda>r. throw_if (\<not> verifyMemoryAuthorityReceiptIntegrity digest r) AlteredReplay) f) (\<lambda>_. Inr f)"

definition loadRepository ::
  "(js_value \<Rightarrow> string) \<Rightarrow> string comparator \<Rightarrow> receipt_file \<Rightarrow> receipt_conflict + memory_receipts" where
  "loadRepository digest lc f = rbind (readReceipts digest f) (\<lambda>rs. replay_receipts digest lc rs no_receipts)"

definition durable_append ::
  "(js_value \<Rightarrow> string) \<Rightarrow> string comparator \<Rightarrow> receipt_payload \<Rightarrow> string \<Rightarrow> receipt_file
   \<Rightarrow> receipt_conflict + (append_result \<times> receipt_file)" where
  "durable_append digest lc p occurred f =
     rbind (loadRepository digest lc f) (\<lambda>s.
     rbind (append_receipt digest lc p occurred s) (\<lambda>(res, _).
     case res of Replayed r \<Rightarrow> Inr (res, f) | Appended r \<Rightarrow> Inr (res, f @ [r])))"

definition durable_list :: "(js_value \<Rightarrow> string) \<Rightarrow> string comparator \<Rightarrow> string \<Rightarrow> receipt_file \<Rightarrow> receipt_conflict + authority_receipt list" where
  "durable_list digest lc m f = rbind (loadRepository digest lc f) (\<lambda>s. Inr (list_receipts m s))"

definition durable_find :: "(js_value \<Rightarrow> string) \<Rightarrow> string comparator \<Rightarrow> string \<Rightarrow> receipt_file \<Rightarrow> receipt_conflict + authority_receipt option" where
  "durable_find digest lc r f = rbind (loadRepository digest lc f) (\<lambda>s. Inr (findByRequestId r s))"

section \<open>Normal forms are fixed points\<close>

lemma required_Inr: "required s = Inr n \<longleftrightarrow> n = trim s \<and> n \<noteq> []"
  by (auto simp: required_def Let_def)

lemma required_fixpoint: "required s = Inr n \<Longrightarrow> required n = Inr n"
  by (auto simp: required_Inr)

lemma normalizeActor_fixpoint: "normalizeActor a = Inr b \<Longrightarrow> normalizeActor b = Inr b"
  by (auto simp: normalizeActor_def rbind_Inr_iff required_Inr)

lemma normalize_approval_fixpoint: "normalize_approval d = Inr e \<Longrightarrow> normalize_approval e = Inr e"
  by (auto simp: normalize_approval_def rbind_Inr_iff required_Inr dest: normalizeActor_fixpoint)

lemma map_res_fixpoints: "(\<And>x. x \<in> set xs \<Longrightarrow> f x = Inr x) \<Longrightarrow> map_res f xs = Inr xs"
  by (induction xs) (simp_all add: rbind_Inr_iff)

lemma sort_by_idem [simp]: "sort_by c (sort_by c xs) = sort_by c xs"
  by (rule sort_eqI) simp_all

lemma normalizeApprovals_fixpoint: "normalizeApprovals lc ds = Inr es \<Longrightarrow> normalizeApprovals lc es = Inr es"
proof (cases ds)
  case (Some xs)
  assume "normalizeApprovals lc ds = Inr es"
  with Some obtain ys where ys: "map_res normalize_approval xs = Inr ys" and es: "es = Some (sort_by (key ma_decision_id lc) ys)"
    by (auto simp: normalizeApprovals_def rbind_Inr_iff)
  have "normalize_approval y = Inr y" if "y \<in> set ys" for y
    using map_res_set [OF ys that] normalize_approval_fixpoint by blast
  then have "map_res normalize_approval (sort_by (key ma_decision_id lc) ys) = Inr (sort_by (key ma_decision_id lc) ys)"
    by (intro map_res_fixpoints) simp
  then show ?thesis by (simp add: es normalizeApprovals_def)
qed (simp add: normalizeApprovals_def)

lemma sort_units_fixpoint: "sort_units (uniq (sort_units (uniq xs))) = sort_units (uniq xs)"
  by (simp add: sort_uniq_eq_iff)

lemma normalizeIds_fixpoint: "normalizeIds vs = Inr ws \<Longrightarrow> normalizeIds ws = Inr ws"
proof (cases vs)
  case (Some xs)
  assume "normalizeIds vs = Inr ws"
  with Some obtain ys where ys: "map_res required xs = Inr ys" and ws: "ws = Some (sort_units (uniq ys))"
    by (auto simp: normalizeIds_def rbind_Inr_iff)
  have "required y = Inr y" if "y \<in> set ys" for y
    using map_res_set [OF ys that] required_fixpoint by blast
  then have "map_res required (sort_units (uniq ys)) = Inr (sort_units (uniq ys))"
    by (intro map_res_fixpoints) simp
  then show ?thesis by (simp add: ws normalizeIds_def sort_units_fixpoint)
qed (simp add: normalizeIds_def)

lemma normalize_replacement_fixpoint: "normalize_replacement (normalize_replacement r) = normalize_replacement r"
  by (simp add: normalize_replacement_def split: option.splits)

lemma normalizePayload_Inr:
  assumes "normalizePayload lc p = Inr n"
  shows "normalizePayload lc n = Inr n"
    and "mp_from n = mp_from p" and "mp_to n = mp_to p" and "mp_memory_id n = trim (mp_memory_id p)"
    and "mp_request_id n = trim (mp_request_id p)" and "mp_expected_revision n = mp_expected_revision p"
    and "trim (mp_policy_version n) \<noteq> []" and "is_safe_integer (mp_expected_revision n)"
    and "\<not> num_lt (mp_expected_revision n) (Fin 0)" and "mp_policy_version n = trim (mp_policy_version p)"
    and "mp_memory_id n \<noteq> []"
  using assms unfolding normalizePayload_def
  by (auto simp: rbind_Inr_iff required_Inr normalize_replacement_fixpoint split: if_split_asm
      dest: normalizeActor_fixpoint normalizeApprovals_fixpoint normalizeIds_fixpoint)

lemma make_receipt_simps [simp]:
  "mr_payload (make_receipt digest p t) = p"
  "mr_occurred_at (make_receipt digest p t) = t"
  "mr_resulting_revision (make_receipt digest p t) = num_succ (mp_expected_revision p)"
  "mr_payload_digest (make_receipt digest p t) = digest (JObject (payload_fields p))"
  "verifyMemoryAuthorityReceiptIntegrity digest (make_receipt digest p t)"
  by (simp_all add: make_receipt_def Let_def verifyMemoryAuthorityReceiptIntegrity_def)

section \<open>The invariant\<close>

text \<open>A receipt as \<open>append\<close> makes it.\<close>

definition genuine :: "(js_value \<Rightarrow> string) \<Rightarrow> string comparator \<Rightarrow> authority_receipt \<Rightarrow> bool" where
  "genuine digest lc r \<longleftrightarrow> r = make_receipt digest (mr_payload r) (mr_occurred_at r)
     \<and> normalizePayload lc (mr_payload r) = Inr (mr_payload r) \<and> required (mr_occurred_at r) = Inr (mr_occurred_at r)"

text \<open>A chain: revisions counted from 0, each transition starting where the last one ended.\<close>

definition linked :: "authority_receipt list \<Rightarrow> bool" where
  "linked rs \<longleftrightarrow> successively (\<lambda>a b. mp_from (mr_payload b) = mp_to (mr_payload a)) rs"

definition counted :: "authority_receipt list \<Rightarrow> bool" where
  "counted rs \<longleftrightarrow> (\<forall>k<length rs. mp_expected_revision (mr_payload (rs ! k)) = Fin (of_nat k))"

definition chain_ok :: "(js_value \<Rightarrow> string) \<Rightarrow> string comparator \<Rightarrow> string \<Rightarrow> authority_receipt list \<Rightarrow> bool" where
  "chain_ok digest lc m rs \<longleftrightarrow> (\<forall>r\<in>set rs. genuine digest lc r \<and> mp_memory_id (mr_payload r) = m)
     \<and> counted rs \<and> linked rs"

definition repo_inv :: "(js_value \<Rightarrow> string) \<Rightarrow> string comparator \<Rightarrow> memory_receipts \<Rightarrow> bool" where
  "repo_inv digest lc s \<longleftrightarrow> (\<forall>m. chain_ok digest lc m (chain_of s m))
     \<and> (\<forall>q r. map_of (by_request s) q = Some r \<longleftrightarrow>
          mp_request_id (mr_payload r) = q \<and> r \<in> set (chain_of s (mp_memory_id (mr_payload r))))"

lemma chain_ok_Nil [simp]: "chain_ok digest lc m []"
  by (simp add: chain_ok_def counted_def linked_def)

lemma counted_snoc:
  "counted (rs @ [r]) \<longleftrightarrow> counted rs \<and> mp_expected_revision (mr_payload r) = Fin (of_nat (length rs))"
  by (auto simp: counted_def nth_append less_Suc_eq)

lemma linked_snoc:
  "linked (rs @ [r]) \<longleftrightarrow> linked rs \<and> (rs = [] \<or> mp_from (mr_payload r) = mp_to (mr_payload (last rs)))"
  by (auto simp: linked_def successively_append_iff)

lemma chain_ok_snoc:
  "chain_ok digest lc m (rs @ [r]) \<longleftrightarrow> chain_ok digest lc m rs \<and> genuine digest lc r \<and> mp_memory_id (mr_payload r) = m
     \<and> mp_expected_revision (mr_payload r) = Fin (of_nat (length rs))
     \<and> (rs = [] \<or> mp_from (mr_payload r) = mp_to (mr_payload (last rs)))"
  by (auto simp: chain_ok_def counted_snoc linked_snoc)

lemma repo_inv_empty: "repo_inv digest lc no_receipts"
  by (simp add: repo_inv_def no_receipts_def chain_of_def)

text \<open>The current revision of a chain is its length.\<close>

lemma chain_revision:
  assumes "chain_ok digest lc m rs"
  shows "(if rs = [] then Fin 0 else mr_resulting_revision (last rs)) = Fin (of_nat (length rs))"
proof (cases rs rule: rev_cases)
  case (snoc xs x)
  with assms have "genuine digest lc x" and "mp_expected_revision (mr_payload x) = Fin (of_nat (length xs))"
    by (simp_all add: chain_ok_snoc)
  then have "mr_resulting_revision x = Fin (of_nat (length xs) + 1)"
    unfolding genuine_def by (metis make_receipt_simps(3) num_succ_Fin)
  with snoc show ?thesis by simp
qed simp

lemma chain_of_update:
  "chain_of \<lparr>by_memory = AList.update m rs (by_memory s), by_request = q\<rparr> k = (if k = m then rs else chain_of s k)"
  by (simp add: chain_of_def map_of_alist_update)

lemma append_receipt_cases:
  assumes "append_receipt digest lc p t s = Inr (res, s')"
  obtains (Replayed) r where "res = Replayed r" "s' = s" "map_of (by_request s) (trim (mp_request_id p)) = Some r"
  | (Appended) n r where "res = Appended r" "normalizePayload lc p = Inr n" "r = make_receipt digest n (trim t)"
      "genuine digest lc r" "map_of (by_request s) (mp_request_id n) = None"
      "mp_expected_revision n = (if chain_of s (mp_memory_id n) = [] then Fin 0
         else mr_resulting_revision (last (chain_of s (mp_memory_id n))))"
      "chain_of s (mp_memory_id n) = [] \<or> mp_from n = mp_to (mr_payload (last (chain_of s (mp_memory_id n))))"
      "s' = \<lparr>by_memory = AList.update (mp_memory_id n) (chain_of s (mp_memory_id n) @ [r]) (by_memory s),
         by_request = AList.update (mp_request_id n) r (by_request s)\<rparr>"
proof -
  from assms obtain n where n: "normalizePayload lc p = Inr n" and t: "required t = Inr (trim t)"
    by (auto simp: append_receipt_def rbind_Inr_iff required_Inr)
  note nn = normalizePayload_Inr [OF n]
  show thesis
  proof (cases "map_of (by_request s) (mp_request_id n)")
    case (Some existing)
    with assms n t nn(5) show thesis
      by (intro Replayed [of existing]) (auto simp: append_receipt_def Let_def split: if_split_asm)
  next
    case None
    have "genuine digest lc (make_receipt digest n (trim t))"
      using nn(1) required_fixpoint [OF t] by (simp add: genuine_def)
    with None assms n t show thesis
      by (intro Appended [of "make_receipt digest n (trim t)" n])
        (auto simp: append_receipt_def Let_def split: if_split_asm)
  qed
qed

lemma repo_inv_append:
  assumes inv: "repo_inv digest lc s" and ok: "append_receipt digest lc p t s = Inr (res, s')"
  shows "repo_inv digest lc s'"
  using ok
proof (cases rule: append_receipt_cases)
  case (Replayed r)
  with inv show ?thesis by simp
next
  case (Appended n r)
  let ?m = "mp_memory_id n"
  have r: "mr_payload r = n" using Appended(3) by simp
  have chain: "chain_ok digest lc ?m (chain_of s ?m)" using inv by (simp add: repo_inv_def)
  have new: "chain_ok digest lc ?m (chain_of s ?m @ [r])"
    unfolding chain_ok_snoc r using chain Appended(4,6,7) chain_revision [OF chain] by simp
  have chains: "chain_of s' k = (if k = ?m then chain_of s ?m @ [r] else chain_of s k)" for k
    unfolding Appended(8) by (rule chain_of_update)
  have "map_of (by_request s') q = Some x \<longleftrightarrow>
      mp_request_id (mr_payload x) = q \<and> x \<in> set (chain_of s' (mp_memory_id (mr_payload x)))" for q x
  proof -
    have old: "map_of (by_request s) q' = Some x \<longleftrightarrow>
        mp_request_id (mr_payload x) = q' \<and> x \<in> set (chain_of s (mp_memory_id (mr_payload x)))" for q'
      using inv by (simp add: repo_inv_def)
    have index: "by_request s' = AList.update (mp_request_id n) r (by_request s)" by (simp add: Appended(8))
    show ?thesis
      unfolding index map_of_alist_update chains using old [of q] old [of "mp_request_id n"] Appended(5) r by auto
  qed
  with new chains inv show ?thesis by (simp add: repo_inv_def)
qed

section \<open>The interface\<close>

text \<open>
  What a repository promises its clients, whatever its state is: operations keep the invariant;
  the chain of a memory is genuine, counted and linked; a bound request id is replayed and changes
  nothing; an append binds a free request id and extends exactly one chain.
\<close>

locale receipt_repository =
  fixes append :: "receipt_payload \<Rightarrow> string \<Rightarrow> 's \<Rightarrow> receipt_conflict + (append_result \<times> 's)"
    and chain :: "string \<Rightarrow> 's \<Rightarrow> receipt_conflict + authority_receipt list"
    and lookup :: "string \<Rightarrow> 's \<Rightarrow> receipt_conflict + authority_receipt option"
    and inv :: "'s \<Rightarrow> bool"
    and digest :: "js_value \<Rightarrow> string" and collation :: "string comparator"
  assumes append_inv: "inv s \<Longrightarrow> append p t s = Inr (res, s') \<Longrightarrow> inv s'"
    and chain_valid: "inv s \<Longrightarrow> \<exists>rs. chain m s = Inr rs \<and> chain_ok digest collation (trim m) rs"
    and lookup_total: "inv s \<Longrightarrow> \<exists>r. lookup q s = Inr r"
    and lookup_trim: "lookup (trim q) s = lookup q s"
    and replayed: "inv s \<Longrightarrow> append p t s = Inr (Replayed r, s') \<Longrightarrow>
      s' = s \<and> lookup (mp_request_id p) s = Inr (Some r)"
    and appended: "inv s \<Longrightarrow> append p t s = Inr (Appended r, s') \<Longrightarrow>
      lookup (mp_request_id p) s = Inr None \<and> lookup (mp_request_id p) s' = Inr (Some r)
      \<and> mp_from (mr_payload r) = mp_from p \<and> mp_to (mr_payload r) = mp_to p
      \<and> mp_policy_version (mr_payload r) = trim (mp_policy_version p)
      \<and> (\<forall>m. chain m s' = (if trim m = trim (mp_memory_id p) then rbind (chain m s) (\<lambda>rs. Inr (rs @ [r])) else chain m s))"
    and bound_replays: "inv s \<Longrightarrow> lookup (mp_request_id p) s = Inr (Some r) \<Longrightarrow> append p t s = Inr (res, s') \<Longrightarrow>
      res = Replayed r \<and> s' = s"
    and retry: "inv s \<Longrightarrow> append p t s = Inr (res, s') \<Longrightarrow> append p t s' = Inr (Replayed (receipt_of res), s')"
begin

lemma chain_extends:
  assumes "inv s" and "append p t s = Inr (res, s')" and "chain m s = Inr rs"
  shows "\<exists>more. chain m s' = Inr (rs @ more)"
proof (cases res)
  case (Appended r)
  with appended [OF assms(1)] assms(2,3) show ?thesis by (cases "trim m = trim (mp_memory_id p)") simp_all
next
  case (Replayed r)
  with replayed [OF assms(1)] assms(2) have "s' = s" by blast
  with assms(3) show ?thesis by simp
qed

lemma chain_length_grows:
  assumes "inv s" and "append p t s = Inr (Appended r, s')" and "chain (mp_memory_id p) s = Inr rs"
  shows "chain (mp_memory_id p) s' = Inr (rs @ [r])" and "mp_expected_revision (mr_payload r) = Fin (of_nat (length rs))"
proof -
  show new: "chain (mp_memory_id p) s' = Inr (rs @ [r])"
    using appended [OF assms(1,2)] assms(3) by simp
  from chain_valid [OF append_inv [OF assms(1,2)], of "mp_memory_id p"] new
  show "mp_expected_revision (mr_payload r) = Fin (of_nat (length rs))"
    by (simp add: chain_ok_snoc)
qed

end

section \<open>The in-memory repository provides it\<close>

lemma append_receipt_retry:
  assumes "append_receipt digest lc p t s = Inr (res, s')"
  shows "append_receipt digest lc p t s' = Inr (Replayed (receipt_of res), s')"
  using assms
proof (cases rule: append_receipt_cases)
  case (Replayed r)
  with assms show ?thesis by simp
next
  case (Appended n r)
  have "required t = Inr (trim t)"
    using assms by (auto simp: append_receipt_def rbind_Inr_iff required_Inr)
  moreover have "map_of (by_request s') (mp_request_id n) = Some r"
    by (simp add: Appended(8) map_of_alist_update)
  ultimately show ?thesis
    using Appended(1-3) by (simp add: append_receipt_def Let_def)
qed

interpretation in_memory: receipt_repository
  "append_receipt digest lc" "\<lambda>m s. Inr (list_receipts m s)" "\<lambda>q s. Inr (findByRequestId q s)"
  "repo_inv digest lc" digest lc for digest lc
proof
  fix s p t res s'
  assume "repo_inv digest lc s" and "append_receipt digest lc p t s = Inr (res, s')"
  then show "repo_inv digest lc s'" by (rule repo_inv_append)
next
  fix s m
  assume "repo_inv digest lc s"
  then show "\<exists>rs. Inr (list_receipts m s) = Inr rs \<and> chain_ok digest lc (trim m) rs"
    by (simp add: repo_inv_def list_receipts_def)
next
  fix q and s :: memory_receipts
  show "Inr (findByRequestId (trim q) s) = Inr (findByRequestId q s)" by (simp add: findByRequestId_def)
next
  fix s p t r s'
  assume "append_receipt digest lc p t s = Inr (Replayed r, s')"
  then show "s' = s \<and> Inr (findByRequestId (mp_request_id p) s) = Inr (Some r)"
    by (cases rule: append_receipt_cases) (simp_all add: findByRequestId_def)
next
  fix s p t r s'
  assume "append_receipt digest lc p t s = Inr (Appended r, s')"
  then show "Inr (findByRequestId (mp_request_id p) s) = Inr None
      \<and> Inr (findByRequestId (mp_request_id p) s') = Inr (Some r)
      \<and> mp_from (mr_payload r) = mp_from p \<and> mp_to (mr_payload r) = mp_to p
      \<and> mp_policy_version (mr_payload r) = trim (mp_policy_version p)
      \<and> (\<forall>m. Inr (list_receipts m s') = (if trim m = trim (mp_memory_id p)
            then rbind (Inr (list_receipts m s)) (\<lambda>rs. Inr (rs @ [r])) else Inr (list_receipts m s)))"
  proof (cases rule: append_receipt_cases)
    case (Appended n r')
    then show ?thesis
      using normalizePayload_Inr [OF Appended(2)]
      by (simp add: findByRequestId_def map_of_alist_update list_receipts_def chain_of_update)
  qed simp
next
  fix s p t r res s'
  assume "Inr (findByRequestId (mp_request_id p) s) = Inr (Some r)"
    and "append_receipt digest lc p t s = Inr (res, s')"
  from this(2,1) show "res = Replayed r \<and> s' = s"
  proof (cases rule: append_receipt_cases)
    case (Appended n r')
    then show ?thesis
      using normalizePayload_Inr [OF Appended(2)] \<open>Inr (findByRequestId (mp_request_id p) s) = Inr (Some r)\<close>
      by (simp add: findByRequestId_def)
  qed (simp add: findByRequestId_def)
next
  fix s p t res s'
  assume "append_receipt digest lc p t s = Inr (res, s')"
  then show "append_receipt digest lc p t s' = Inr (Replayed (receipt_of res), s')"
    by (rule append_receipt_retry)
qed simp_all

section \<open>The durable repository refines it\<close>

text \<open>
  Reading the file back rebuilds the repository that wrote it: an appended receipt is in normal form,
  so that replaying its payload makes the same receipt again.
\<close>

lemma append_own_payload:
  assumes "append_receipt digest lc p t s = Inr (Appended r, s')"
  shows "append_receipt digest lc (mr_payload r) (mr_occurred_at r) s = Inr (Appended r, s')"
  using assms
proof (cases rule: append_receipt_cases)
  case (Appended n r')
  then have r: "mr_payload r = n" "mr_occurred_at r = trim t" "r = make_receipt digest n (trim t)" by simp_all
  from Appended have gen: "normalizePayload lc n = Inr n" "required (trim t) = Inr (trim t)"
    using r by (simp_all add: genuine_def)
  have "required t = Inr (trim t)"
    using assms by (auto simp: append_receipt_def rbind_Inr_iff required_Inr)
  with assms Appended(2) gen show ?thesis unfolding r(1,2) by (simp add: append_receipt_def)
qed simp

lemma replay_receipts_append:
  "replay_receipts digest lc (xs @ ys) s = rbind (replay_receipts digest lc xs s) (replay_receipts digest lc ys)"
proof (induction xs arbitrary: s)
  case (Cons x xs)
  then show ?case
    by (cases "append_receipt digest lc (mr_payload x) (mr_occurred_at x) s") (auto split: prod.splits)
qed simp

lemma replay_receipts_inv:
  "replay_receipts digest lc rs s = Inr s' \<Longrightarrow> repo_inv digest lc s \<Longrightarrow> repo_inv digest lc s'"
  by (induction rs arbitrary: s) (auto simp: rbind_Inr_iff split: if_splits dest: repo_inv_append)

lemma loadRepository_Inr:
  "loadRepository digest lc f = Inr s \<longleftrightarrow>
     (\<forall>r\<in>set f. verifyMemoryAuthorityReceiptIntegrity digest r) \<and> replay_receipts digest lc f no_receipts = Inr s"
  by (auto simp: loadRepository_def readReceipts_def rbind_Inr_iff each_res_Inr_iff)

lemma loadRepository_inv: "loadRepository digest lc f = Inr s \<Longrightarrow> repo_inv digest lc s"
  using replay_receipts_inv repo_inv_empty by (auto simp: loadRepository_Inr)

lemma loadRepository_snoc:
  assumes load: "loadRepository digest lc f = Inr s" and ok: "append_receipt digest lc p t s = Inr (Appended r, s')"
  shows "loadRepository digest lc (f @ [r]) = Inr s'"
proof -
  from ok have "verifyMemoryAuthorityReceiptIntegrity digest r"
    by (cases rule: append_receipt_cases) simp_all
  with load append_own_payload [OF ok] show ?thesis
    by (simp add: loadRepository_Inr replay_receipts_append)
qed

lemma durable_append_refines:
  assumes "loadRepository digest lc f = Inr s"
  shows "durable_append digest lc p t f =
    rbind (append_receipt digest lc p t s) (\<lambda>(res, s'). Inr (res, case res of Replayed r \<Rightarrow> f | Appended r \<Rightarrow> f @ [r]))"
    and "append_receipt digest lc p t s = Inr (res, s') \<Longrightarrow>
      loadRepository digest lc (case res of Replayed r \<Rightarrow> f | Appended r \<Rightarrow> f @ [r]) = Inr s'"
proof -
  show "durable_append digest lc p t f =
    rbind (append_receipt digest lc p t s) (\<lambda>(res, s'). Inr (res, case res of Replayed r \<Rightarrow> f | Appended r \<Rightarrow> f @ [r]))"
    by (cases "append_receipt digest lc p t s") (auto simp: durable_append_def assms split: append_result.split)
  assume ok: "append_receipt digest lc p t s = Inr (res, s')"
  show "loadRepository digest lc (case res of Replayed r \<Rightarrow> f | Appended r \<Rightarrow> f @ [r]) = Inr s'"
  proof (cases res)
    case (Appended r)
    with loadRepository_snoc [OF assms] ok show ?thesis by simp
  next
    case (Replayed r)
    with in_memory.replayed [OF loadRepository_inv [OF assms]] ok assms show ?thesis by auto
  qed
qed

definition durable_inv :: "(js_value \<Rightarrow> string) \<Rightarrow> string comparator \<Rightarrow> receipt_file \<Rightarrow> bool" where
  "durable_inv digest lc f \<longleftrightarrow> (\<exists>s. loadRepository digest lc f = Inr s)"

text \<open>A successful durable append is an in-memory append on the loaded repository, and back.\<close>

lemma durable_append_Inr:
  assumes "durable_inv digest lc f" and "durable_append digest lc p t f = Inr (res, f')"
  obtains s s' where "loadRepository digest lc f = Inr s" "repo_inv digest lc s"
    "append_receipt digest lc p t s = Inr (res, s')" "loadRepository digest lc f' = Inr s'"
    "f' = (case res of Replayed r \<Rightarrow> f | Appended r \<Rightarrow> f @ [r])"
proof -
  from assms(1) obtain s where s: "loadRepository digest lc f = Inr s" by (auto simp: durable_inv_def)
  from assms(2) obtain s' where s': "append_receipt digest lc p t s = Inr (res, s')"
    and f': "f' = (case res of Replayed r \<Rightarrow> f | Appended r \<Rightarrow> f @ [r])"
    by (auto simp: durable_append_refines(1) [OF s] rbind_Inr_iff)
  from durable_append_refines(2) [OF s s'] f' have "loadRepository digest lc f' = Inr s'" by simp
  with s s' f' loadRepository_inv [OF s] that show thesis by blast
qed

interpretation durable: receipt_repository
  "durable_append digest lc" "durable_list digest lc" "durable_find digest lc"
  "durable_inv digest lc" digest lc for digest lc
proof
  fix f p t res f'
  assume "durable_inv digest lc f" and "durable_append digest lc p t f = Inr (res, f')"
  then show "durable_inv digest lc f'" by (rule durable_append_Inr) (auto simp: durable_inv_def)
next
  fix f m
  assume "durable_inv digest lc f"
  then obtain s where "loadRepository digest lc f = Inr s" by (auto simp: durable_inv_def)
  with in_memory.chain_valid [OF loadRepository_inv, of digest lc f s m]
  show "\<exists>rs. durable_list digest lc m f = Inr rs \<and> chain_ok digest lc (trim m) rs"
    by (simp add: durable_list_def)
next
  fix q f
  show "durable_find digest lc (trim q) f = durable_find digest lc q f"
    by (simp add: durable_find_def findByRequestId_def)
next
  fix f q
  assume "durable_inv digest lc f"
  then show "\<exists>r. durable_find digest lc q f = Inr r" by (auto simp: durable_inv_def durable_find_def)
next
  fix f p t r f'
  assume "durable_inv digest lc f" and "durable_append digest lc p t f = Inr (Replayed r, f')"
  then show "f' = f \<and> durable_find digest lc (mp_request_id p) f = Inr (Some r)"
    by (rule durable_append_Inr) (auto dest: in_memory.replayed simp: durable_find_def)
next
  fix f p t r f'
  assume "durable_inv digest lc f" and "durable_append digest lc p t f = Inr (Appended r, f')"
  then show "durable_find digest lc (mp_request_id p) f = Inr None
      \<and> durable_find digest lc (mp_request_id p) f' = Inr (Some r)
      \<and> mp_from (mr_payload r) = mp_from p \<and> mp_to (mr_payload r) = mp_to p
      \<and> mp_policy_version (mr_payload r) = trim (mp_policy_version p)
      \<and> (\<forall>m. durable_list digest lc m f' = (if trim m = trim (mp_memory_id p)
            then rbind (durable_list digest lc m f) (\<lambda>rs. Inr (rs @ [r])) else durable_list digest lc m f))"
    by (rule durable_append_Inr) (frule (1) in_memory.appended, simp add: durable_find_def durable_list_def)
next
  fix f p t r res f'
  assume find: "durable_find digest lc (mp_request_id p) f = Inr (Some r)"
    and "durable_inv digest lc f" and "durable_append digest lc p t f = Inr (res, f')"
  from this(2,3) show "res = Replayed r \<and> f' = f"
    using find by (elim durable_append_Inr) (auto dest!: in_memory.bound_replays simp: durable_find_def)
next
  fix f p t res f'
  assume "durable_inv digest lc f" and "durable_append digest lc p t f = Inr (res, f')"
  then show "durable_append digest lc p t f' = Inr (Replayed (receipt_of res), f')"
    by (rule durable_append_Inr) (simp add: durable_append_refines(1) append_receipt_retry)
qed

end
