(* ===== verification/Memory_Service.thy ===== *)
theory Memory_Service
  imports Receipt_Repository
begin

text \<open>
  The transition service (\<open>memory/memory-authority-transition-service.ts\<close>), a client of the receipt
  repository interface, and the projector (\<open>memory/memory-authority-projector.ts\<close>), which reads a
  chain of receipts back into the authority state of the memory.
\<close>

section \<open>The projector\<close>

datatype projection_failure =
  EmptyChain | CrossMemoryReceipt | InvalidIntegrity | ProjectedInvalidRevision | RevisionGap | StateMismatch
| ProjectedInvalidTransition | TerminalContinuation | ProjectedMissingPolicy

datatype projection =
  ValidProjection string memory_state js_number "string list"
| BlockedProjection string projection_failure "string option"

type_synonym projected = "memory_state option \<times> js_number \<times> string list"

text \<open>The body of the loop: \<open>Inl\<close> is an early return.\<close>

definition project_receipt ::
  "(js_value \<Rightarrow> string) \<Rightarrow> string \<Rightarrow> projected \<Rightarrow> authority_receipt \<Rightarrow> projection + projected" where
  "project_receipt digest m acc r =
     (let (state, revision, ids) = acc; p = mr_payload r;
          blocked = (\<lambda>code. Inl (BlockedProjection m code (Some (mr_receipt_id r)))) in
      if mp_memory_id p \<noteq> m then blocked CrossMemoryReceipt
      else if \<not> verifyMemoryAuthorityReceiptIntegrity digest r then blocked InvalidIntegrity
      else if trim (mp_policy_version p) = [] then blocked ProjectedMissingPolicy
      else if \<not> is_safe_integer (mp_expected_revision p) \<or> \<not> is_safe_integer (mr_resulting_revision r)
          \<or> num_lt (mp_expected_revision p) (Fin 0) \<or> mr_resulting_revision r \<noteq> num_succ (mp_expected_revision p)
        then blocked ProjectedInvalidRevision
      else if mp_expected_revision p \<noteq> revision then blocked RevisionGap
      else if (case state of None \<Rightarrow> False | Some s \<Rightarrow> isTerminalMemoryAuthorityState s) then blocked TerminalContinuation
      else if (case state of None \<Rightarrow> False | Some s \<Rightarrow> mp_from p \<noteq> s) then blocked StateMismatch
      else if mp_to p \<notin> set (allowedMemoryAuthorityTransitions (mp_from p)) then blocked ProjectedInvalidTransition
      else Inr (Some (mp_to p), mr_resulting_revision r, ids @ [mr_receipt_id r]))"

primrec project_receipts ::
  "(js_value \<Rightarrow> string) \<Rightarrow> string \<Rightarrow> authority_receipt list \<Rightarrow> projected \<Rightarrow> projection + projected" where
  "project_receipts digest m [] acc = Inr acc"
| "project_receipts digest m (r # rs) acc = rbind (project_receipt digest m acc r) (project_receipts digest m rs)"

definition projectMemoryAuthorityState :: "(js_value \<Rightarrow> string) \<Rightarrow> string \<Rightarrow> authority_receipt list \<Rightarrow> projection" where
  "projectMemoryAuthorityState digest memory receipts =
     (let m = trim memory in
      if receipts = [] then BlockedProjection m EmptyChain None
      else case project_receipts digest m receipts (None, Fin 0, []) of
        Inl blocked \<Rightarrow> blocked
      | Inr (Some state, revision, ids) \<Rightarrow> ValidProjection m state revision ids
      | Inr (None, revision, ids) \<Rightarrow> BlockedProjection m EmptyChain None)"

section \<open>The transition service\<close>

record transition_input =
  ti_transition :: transition_request
  ti_receipt :: receipt_payload
  ti_occurred_at :: string

datatype service_failure =
  TransitionRefused transition_failure | ReceiptRefused receipt_conflict | ContractMismatch

definition normalizeApprovalIds :: "memory_approval list option \<Rightarrow> string list" where
  "normalizeApprovalIds ds = sort_units (uniq (map (\<lambda>d. trim (ma_decision_id d)) (case_option [] id ds)))"

definition validateContractBinding :: "transition_request \<Rightarrow> receipt_payload \<Rightarrow> service_failure option" where
  "validateContractBinding t r =
     (if tr_from t \<noteq> mp_from r \<or> tr_to t \<noteq> mp_to r
         \<or> trim (tr_policy_version t) \<noteq> trim (mp_policy_version r)
         \<or> trim (actor_id (tr_executor t)) \<noteq> trim (actor_id (mp_executor r))
         \<or> actor_type (tr_executor t) \<noteq> actor_type (mp_executor r)
      then Some ContractMismatch
      else if join [char_of (0::nat)] (normalizeApprovalIds (tr_approvals t))
          \<noteq> join [char_of (0::nat)] (normalizeApprovalIds (mp_approvals r))
      then Some ContractMismatch
      else if normalize_replacement (tr_replacement t) \<noteq> normalize_replacement (mp_replacement r)
      then Some ContractMismatch
      else None)"

text \<open>
  The operations of the repository are arguments. The outer \<open>Inl\<close> is a conflict the lookup throws,
  which the service does not catch; the inner one a failure it answers.
\<close>

definition service_append ::
  "(receipt_payload \<Rightarrow> string \<Rightarrow> 's \<Rightarrow> receipt_conflict + (append_result \<times> 's)) \<Rightarrow> receipt_payload \<Rightarrow> string \<Rightarrow> 's
   \<Rightarrow> (service_failure + append_result) \<times> 's" where
  "service_append write p occurred s =
     (case write p occurred s of Inl c \<Rightarrow> (Inl (ReceiptRefused c), s) | Inr (r, s') \<Rightarrow> (Inr r, s'))"

definition execute_transition ::
  "(receipt_payload \<Rightarrow> string \<Rightarrow> 's \<Rightarrow> receipt_conflict + (append_result \<times> 's))
   \<Rightarrow> (string \<Rightarrow> 's \<Rightarrow> receipt_conflict + authority_receipt option) \<Rightarrow> transition_input \<Rightarrow> 's
   \<Rightarrow> receipt_conflict + ((service_failure + append_result) \<times> 's)" where
  "execute_transition write lookup i s =
     rbind (lookup (trim (mp_request_id (ti_receipt i))) s) (\<lambda>existing.
       if existing \<noteq> None then Inr (service_append write (ti_receipt i) (ti_occurred_at i) s)
       else case validateContractBinding (ti_transition i) (ti_receipt i) of
         Some failure \<Rightarrow> Inr (Inl failure, s)
       | None \<Rightarrow> (case validateMemoryAuthorityTransition (ti_transition i) of
           Inl code \<Rightarrow> Inr (Inl (TransitionRefused code), s)
         | Inr _ \<Rightarrow> Inr (service_append write (ti_receipt i) (ti_occurred_at i) s)))"

text \<open>A sequence of calls; one that throws leaves the repository as it was.\<close>

definition transition_step ::
  "(receipt_payload \<Rightarrow> string \<Rightarrow> 's \<Rightarrow> receipt_conflict + (append_result \<times> 's))
   \<Rightarrow> (string \<Rightarrow> 's \<Rightarrow> receipt_conflict + authority_receipt option) \<Rightarrow> transition_input \<Rightarrow> 's \<Rightarrow> 's" where
  "transition_step write lookup i s = (case execute_transition write lookup i s of Inl _ \<Rightarrow> s | Inr (_, s') \<Rightarrow> s')"

section \<open>What a valid projection says\<close>

definition allowed_chain :: "authority_receipt list \<Rightarrow> bool" where
  "allowed_chain rs \<longleftrightarrow> (\<forall>r\<in>set rs. mp_to (mr_payload r) \<in> set (VALID_TRANSITIONS (mp_from (mr_payload r))))"

text \<open>What the projector checks of a single receipt.\<close>

definition sound_receipt :: "(js_value \<Rightarrow> string) \<Rightarrow> string \<Rightarrow> authority_receipt \<Rightarrow> bool" where
  "sound_receipt digest m r \<longleftrightarrow> mp_memory_id (mr_payload r) = m \<and> verifyMemoryAuthorityReceiptIntegrity digest r
     \<and> trim (mp_policy_version (mr_payload r)) \<noteq> [] \<and> is_safe_integer (mr_resulting_revision r)
     \<and> mr_resulting_revision r = num_succ (mp_expected_revision (mr_payload r))"

definition sound_chain :: "(js_value \<Rightarrow> string) \<Rightarrow> string \<Rightarrow> authority_receipt list \<Rightarrow> bool" where
  "sound_chain digest m rs \<longleftrightarrow> (\<forall>r\<in>set rs. sound_receipt digest m r) \<and> counted rs \<and> linked rs \<and> allowed_chain rs"

lemma safe_successor:
  "is_safe_integer (Fin (of_nat k + 1)) \<Longrightarrow> is_safe_integer (Fin (of_nat k)) \<and> \<not> num_lt (Fin (of_nat k)) (Fin 0)"
  by (auto simp: is_safe_integer_def)

lemma project_receipts_snoc:
  "project_receipts digest m (rs @ [r]) acc = rbind (project_receipts digest m rs acc) (\<lambda>a. project_receipt digest m a r)"
proof (induction rs arbitrary: acc)
  case (Cons x xs)
  then show ?case by (cases "project_receipt digest m acc x") simp_all
next
  case Nil
  then show ?case by (cases "project_receipt digest m acc r") simp_all
qed

lemma sound_chain_snoc:
  "sound_chain digest m (rs @ [r]) \<longleftrightarrow> sound_chain digest m rs \<and> sound_receipt digest m r
     \<and> mp_expected_revision (mr_payload r) = Fin (of_nat (length rs))
     \<and> (rs = [] \<or> mp_from (mr_payload r) = mp_to (mr_payload (last rs)))
     \<and> mp_to (mr_payload r) \<in> set (VALID_TRANSITIONS (mp_from (mr_payload r)))"
  by (auto simp: sound_chain_def allowed_chain_def counted_snoc linked_snoc)

definition projection_of :: "authority_receipt list \<Rightarrow> projected" where
  "projection_of rs = (if rs = [] then None else Some (mp_to (mr_payload (last rs))),
     Fin (of_nat (length rs)), map mr_receipt_id rs)"

lemma project_receipts_iff:
  "project_receipts digest m rs (None, Fin 0, []) = Inr acc \<longleftrightarrow> sound_chain digest m rs \<and> acc = projection_of rs"
proof (induction rs arbitrary: acc rule: rev_induct)
  case Nil
  then show ?case by (auto simp: sound_chain_def counted_def linked_def allowed_chain_def projection_of_def)
next
  case (snoc r rs)
  let ?p = "mr_payload r"
  have step: "project_receipt digest m (projection_of rs) r = Inr acc \<longleftrightarrow>
      sound_receipt digest m r \<and> mp_expected_revision ?p = Fin (of_nat (length rs))
      \<and> (rs = [] \<or> mp_from ?p = mp_to (mr_payload (last rs)))
      \<and> mp_to ?p \<in> set (VALID_TRANSITIONS (mp_from ?p)) \<and> acc = projection_of (rs @ [r])"
    using safe_successor [of "length rs"] memory_life.terminal_no_step [of "mp_from ?p" "mp_to ?p"]
    by (auto simp: project_receipt_def projection_of_def sound_receipt_def Let_def
        allowedMemoryAuthorityTransitions_def add.commute)
  from snoc.IH step show ?case
    by (auto simp: project_receipts_snoc rbind_Inr_iff sound_chain_snoc)
qed

lemma project_receipts_blocked:
  "project_receipts digest m rs acc = Inl b \<Longrightarrow> \<exists>code i. b = BlockedProjection m code i"
  by (induction rs arbitrary: acc)
    (auto simp: rbind_Inl_iff project_receipt_def Let_def split: prod.split_asm if_split_asm)

lemma projection_iff:
  "projectMemoryAuthorityState digest memory rs = ValidProjection m state revision ids \<longleftrightarrow>
     rs \<noteq> [] \<and> m = trim memory \<and> sound_chain digest m rs \<and> state = mp_to (mr_payload (last rs))
     \<and> revision = Fin (of_nat (length rs)) \<and> ids = map mr_receipt_id rs"
proof (cases "rs = []")
  case False
  show ?thesis
  proof (cases "project_receipts digest (trim memory) rs (None, Fin 0, [])")
    case (Inl b)
    with project_receipts_blocked [OF this] project_receipts_iff [of digest "trim memory" rs "projection_of rs"] False
    show ?thesis by (auto simp: projectMemoryAuthorityState_def)
  next
    case (Inr acc)
    with project_receipts_iff [of digest "trim memory" rs acc] False show ?thesis
      by (auto simp: projectMemoryAuthorityState_def Let_def projection_of_def)
  qed
qed (simp add: projectMemoryAuthorityState_def)

section \<open>The service over any repository\<close>

lemma linked_to: "normalizePayload lc p = Inr n \<Longrightarrow> mp_from n = mp_from p \<and> mp_to n = mp_to p"
  using normalizePayload_Inr by blast

context receipt_repository
begin

definition authorized :: "'s \<Rightarrow> bool" where
  "authorized s \<longleftrightarrow> (\<forall>m rs. chain m s = Inr rs \<longrightarrow> allowed_chain rs)"

lemma execute_appended:
  assumes "inv s" and "execute_transition append lookup i s = Inr (Inr (Appended r), s')"
  shows "validateMemoryAuthorityTransition (ti_transition i) = Inr ()"
    and "validateContractBinding (ti_transition i) (ti_receipt i) = None"
    and "append (ti_receipt i) (ti_occurred_at i) s = Inr (Appended r, s')"
proof -
  obtain found where found: "lookup (mp_request_id (ti_receipt i)) s = Inr found"
    using lookup_total [OF assms(1)] by blast
  have ok: "append (ti_receipt i) (ti_occurred_at i) s = Inr (Appended r, s')"
    using assms(2) by (auto simp: execute_transition_def lookup_trim found service_append_def
        split: if_split_asm option.split_asm sum.split_asm)
  then show "append (ti_receipt i) (ti_occurred_at i) s = Inr (Appended r, s')" .
  have "found = None" using appended [OF assms(1) ok] found by simp
  with assms(2) show "validateMemoryAuthorityTransition (ti_transition i) = Inr ()"
    and "validateContractBinding (ti_transition i) (ti_receipt i) = None"
    by (auto simp: execute_transition_def lookup_trim found split: option.split_asm sum.split_asm)
qed

lemma execute_other:
  assumes "inv s" and "execute_transition append lookup i s = Inr (res, s')" and "\<nexists>r. res = Inr (Appended r)"
  shows "s' = s"
proof -
  from assms(2) have "s' = s \<or> (\<exists>a. append (ti_receipt i) (ti_occurred_at i) s = Inr (a, s') \<and> res = Inr a)"
    by (auto simp: execute_transition_def rbind_Inr_iff service_append_def
        split: if_split_asm option.split_asm sum.split_asm)
  then show ?thesis
    using assms(3) replayed [OF assms(1)] by (metis append_result.exhaust)
qed

lemma transition_step_inv:
  assumes inv: "inv s" and auth: "authorized s"
  shows "inv (transition_step append lookup i s) \<and> authorized (transition_step append lookup i s)"
proof (cases "execute_transition append lookup i s")
  case (Inr x)
  then obtain res s' where ex: "execute_transition append lookup i s = Inr (res, s')" by (cases x) simp
  then have step: "transition_step append lookup i s = s'" by (simp add: transition_step_def)
  show ?thesis
  proof (cases "\<exists>r. res = Inr (Appended r)")
    case True
    then obtain r where r: "execute_transition append lookup i s = Inr (Inr (Appended r), s')" using ex by blast
    note e = execute_appended [OF inv r]
    note a = appended [OF inv e(3)]
    have "mp_to (mr_payload r) \<in> set (VALID_TRANSITIONS (mp_from (mr_payload r)))"
      using e(1,2) a by (auto simp: validateContractBinding_def validateMemoryAuthorityTransition_def split: if_split_asm)
    then have "allowed_chain rs" if "chain m s' = Inr rs" for m rs
      using that a auth by (auto simp: authorized_def allowed_chain_def rbind_Inr_iff split: if_split_asm)
    then show ?thesis using append_inv [OF inv e(3)] by (simp add: step authorized_def)
  qed (use execute_other [OF inv ex] step inv auth in simp)
qed (simp add: transition_step_def inv auth)

lemma transition_run_inv:
  "inv s \<Longrightarrow> authorized s \<Longrightarrow> inv (fold (transition_step append lookup) is s) \<and> authorized (fold (transition_step append lookup) is s)"
proof (induction "is" arbitrary: s)
  case (Cons i js)
  from transition_step_inv [OF Cons.prems, of i] Cons.IH show ?case by simp
qed simp

text \<open>The projector accepts every chain the service wrote.\<close>

lemma projection_valid:
  assumes inv: "inv s" and auth: "authorized s" and chain: "chain m s = Inr rs" and ne: "rs \<noteq> []"
    and bound: "length rs \<le> 9007199254740991"
  shows "projectMemoryAuthorityState digest m rs = ValidProjection (trim m) (mp_to (mr_payload (last rs)))
    (Fin (of_nat (length rs))) (map mr_receipt_id rs)"
proof -
  from chain_valid [OF inv, of m] chain have ok: "chain_ok digest collation (trim m) rs" by auto
  have "sound_receipt digest (trim m) r" if "r \<in> set rs" for r
  proof -
    from that ok have gen: "genuine digest collation r" and mem: "mp_memory_id (mr_payload r) = trim m"
      by (simp_all add: chain_ok_def)
    from that obtain k where k: "k < length rs" "r = rs ! k" by (auto simp: in_set_conv_nth)
    with ok have rev: "mp_expected_revision (mr_payload r) = Fin (of_nat k)"
      by (simp add: chain_ok_def counted_def)
    have r: "r = make_receipt digest (mr_payload r) (mr_occurred_at r)"
      and n: "normalizePayload collation (mr_payload r) = Inr (mr_payload r)"
      using gen by (simp_all add: genuine_def)
    from k bound have "of_nat (Suc k) \<le> (9007199254740991 :: rat)"
      using of_nat_mono [of "Suc k" 9007199254740991, where 'a = rat] by simp
    then have "is_safe_integer (num_succ (Fin (of_nat k)))"
      using floor_of_nat [of "Suc k", where 'a = rat] by (simp add: is_safe_integer_def add.commute)
    with rev mem normalizePayload_Inr(7) [OF n] show ?thesis
      unfolding sound_receipt_def by (metis make_receipt_simps(3,5) r)
  qed
  with ok auth chain show ?thesis
    by (simp add: projection_iff ne sound_chain_def authorized_def chain_ok_def)
qed

lemma execute_retry:
  assumes inv: "inv s" and ok: "execute_transition append lookup i s = Inr (Inr a, s')"
  shows "execute_transition append lookup i s' = Inr (Inr (Replayed (receipt_of a)), s')"
proof -
  from ok have w: "append (ti_receipt i) (ti_occurred_at i) s = Inr (a, s')"
    by (auto simp: execute_transition_def rbind_Inr_iff service_append_def
        split: if_split_asm option.split_asm sum.split_asm)
  note inv' = append_inv [OF inv w]
  note again = retry [OF inv w]
  from replayed [OF inv' again] have "lookup (mp_request_id (ti_receipt i)) s' = Inr (Some (receipt_of a))" by simp
  with again show ?thesis by (simp add: execute_transition_def lookup_trim service_append_def)
qed

lemma chain_run_extends:
  "inv s \<Longrightarrow> chain m s = Inr rs \<Longrightarrow> \<exists>more. chain m (fold (transition_step append lookup) is s) = Inr (rs @ more)"
proof (induction "is" arbitrary: s rs)
  case (Cons i js)
  have "\<exists>more. chain m (transition_step append lookup i s) = Inr (rs @ more)
      \<and> inv (transition_step append lookup i s)"
  proof (cases "execute_transition append lookup i s")
    case (Inr x)
    then obtain res s' where ex: "execute_transition append lookup i s = Inr (res, s')" by (cases x) simp
    then have step: "transition_step append lookup i s = s'" by (simp add: transition_step_def)
    show ?thesis
    proof (cases "\<exists>r. res = Inr (Appended r)")
      case True
      then obtain r where "execute_transition append lookup i s = Inr (Inr (Appended r), s')" using ex by blast
      from execute_appended(3) [OF Cons.prems(1) this] show ?thesis
        using chain_extends [OF Cons.prems(1) _ Cons.prems(2)] append_inv [OF Cons.prems(1)] step by auto
    next
      case False
      with execute_other [OF Cons.prems(1) ex] have "s' = s" by simp
      with step Cons.prems show ?thesis by simp
    qed
  qed (simp add: transition_step_def Cons.prems)
  with Cons.IH show ?case by fastforce
qed simp

text \<open>A memory whose chain ends in a terminal state keeps its chain.\<close>

lemma terminal_chain:
  assumes inv: "inv s" and auth: "authorized s" and chain: "chain m s = Inr rs" and ne: "rs \<noteq> []"
    and terminal: "isTerminalMemoryAuthorityState (mp_to (mr_payload (last rs)))"
  shows "chain m (fold (transition_step append lookup) is s) = Inr rs"
proof -
  let ?s = "fold (transition_step append lookup) is s"
  obtain more where more: "chain m ?s = Inr (rs @ more)" using chain_run_extends [OF inv chain] by blast
  have "more = []"
  proof (cases more)
    case (Cons r rest)
    have ok: "inv ?s" "authorized ?s" using transition_run_inv [OF inv auth] by simp_all
    from chain_valid [OF ok(1), of m] more have "linked (rs @ more)" by (auto simp: chain_ok_def)
    with Cons ne have "mp_from (mr_payload r) = mp_to (mr_payload (last rs))"
      by (simp add: linked_def successively_append_iff)
    moreover from ok(2) more Cons have "mp_to (mr_payload r) \<in> set (VALID_TRANSITIONS (mp_from (mr_payload r)))"
      by (auto simp: authorized_def allowed_chain_def)
    ultimately show ?thesis using memory_life.terminal_no_step terminal by metis
  qed simp
  with more show ?thesis by simp
qed

end

section \<open>Properties\<close>

abbreviation durable_run ::
  "(js_value \<Rightarrow> string) \<Rightarrow> string comparator \<Rightarrow> transition_input list \<Rightarrow> receipt_file \<Rightarrow> receipt_file" where
  "durable_run digest lc \<equiv> fold (transition_step (durable_append digest lc) (durable_find digest lc))"

lemma load_empty [simp]: "loadRepository digest lc [] = Inr no_receipts"
  by (simp add: loadRepository_Inr)

lemma durable_empty: "durable_inv digest lc []" "durable.authorized digest lc []"
  by (auto simp: durable_inv_def durable.authorized_def durable_list_def
      list_receipts_def chain_of_def no_receipts_def allowed_chain_def)

text \<open>
  C32. The durable repository refines the in-memory one: an append on a file that loads answers, or
  throws, exactly what the in-memory repository loaded from it does, and the file it leaves loads to
  the repository that append leaves.
\<close>

theorem durable_refines_in_memory:
  assumes "loadRepository digest lc f = Inr s"
  shows "case append_receipt digest lc p t s of
      Inl c \<Rightarrow> durable_append digest lc p t f = Inl c
    | Inr (res, s') \<Rightarrow> \<exists>f'. durable_append digest lc p t f = Inr (res, f') \<and> loadRepository digest lc f' = Inr s'"
  using durable_append_refines [OF assms, of p t]
  by (cases "append_receipt digest lc p t s") auto

text \<open>
  The projector answers a valid projection exactly for the non-empty chains whose receipts all
  belong to the memory, verify against their digest and bind a policy; whose revisions count from 0
  without a gap; where each transition is allowed and starts in the state the last one ended in. The
  answer is the state, the length and the ids of that chain.
\<close>

theorem projection_valid_iff:
  "projectMemoryAuthorityState digest memory rs = ValidProjection m state revision ids \<longleftrightarrow>
     rs \<noteq> [] \<and> m = trim memory \<and> sound_chain digest m rs \<and> state = mp_to (mr_payload (last rs))
     \<and> revision = Fin (of_nat (length rs)) \<and> ids = map mr_receipt_id rs"
  by (rule projection_iff)


text \<open>
  C3. The service is fail-closed: it appends a receipt only if the lifecycle validation of the
  request succeeds and the receipt describes the same transition; every other call, refused or
  replayed, leaves the file as it was.
\<close>

theorem service_fail_closed:
  assumes "durable_inv digest lc f"
    and "execute_transition (durable_append digest lc) (durable_find digest lc) i f = Inr (res, f')"
  shows "f' = f \<or> (\<exists>r. res = Inr (Appended r) \<and> f' = f @ [r]
    \<and> validateMemoryAuthorityTransition (ti_transition i) = Inr ()
    \<and> validateContractBinding (ti_transition i) (ti_receipt i) = None
    \<and> mp_from (mr_payload r) = tr_from (ti_transition i) \<and> mp_to (mr_payload r) = tr_to (ti_transition i))"
proof (cases "\<exists>r. res = Inr (Appended r)")
  case True
  then obtain r where r: "res = Inr (Appended r)" ..
  note e = durable.execute_appended [OF assms(1) assms(2) [unfolded r]]
  from assms(1) e(3) have "f' = f @ [r]"
    by (rule durable_append_Inr) (simp only: append_result.case)
  moreover have "mp_from (mr_payload r) = mp_from (ti_receipt i)" "mp_to (mr_payload r) = mp_to (ti_receipt i)"
    using durable.appended [OF assms(1) e(3)] by simp_all
  moreover have "mp_from (ti_receipt i) = tr_from (ti_transition i)" "mp_to (ti_receipt i) = tr_to (ti_transition i)"
    using e(2) by (auto simp: validateContractBinding_def split: if_split_asm)
  ultimately show ?thesis using r e(1,2) by simp
next
  case False
  with durable.execute_other [OF assms] show ?thesis by blast
qed

text \<open>
  A request is executed once: the same request again, immediately after it succeeded, is answered
  with the receipt of the first time and changes nothing.
\<close>

theorem service_replays:
  assumes "durable_inv digest lc f"
    and "execute_transition (durable_append digest lc) (durable_find digest lc) i f = Inr (Inr a, f')"
  shows "execute_transition (durable_append digest lc) (durable_find digest lc) i f'
    = Inr (Inr (Replayed (receipt_of a)), f')"
  by (rule durable.execute_retry [OF assms])

text \<open>
  Terminal states are final: once the chain of a memory ends in rejected, superseded or revoked,
  no further requests change that chain.
\<close>

theorem terminal_memory_is_final:
  assumes "durable_list digest lc m (durable_run digest lc inputs []) = Inr rs" and "rs \<noteq> []"
    and "isTerminalMemoryAuthorityState (mp_to (mr_payload (last rs)))"
  shows "durable_list digest lc m (durable_run digest lc later (durable_run digest lc inputs [])) = Inr rs"
  using durable.transition_run_inv [OF durable_empty] durable.terminal_chain [OF _ _ assms] by blast

subsection \<open>The properties at a concrete memory\<close>

definition founder :: memory_actor where
  "founder = \<lparr>actor_id = ''founder'', actor_type = ActorFounder\<rparr>"

definition sample_approval :: memory_approval where
  "sample_approval = \<lparr>ma_decision_id = ''d1'', ma_approver = founder, ma_outcome = OutcomeApproved,
     ma_policy_version = ''v1''\<rparr>"

definition sample_transition :: "memory_state \<Rightarrow> memory_state \<Rightarrow> transition_request" where
  "sample_transition a b = \<lparr>tr_from = a, tr_to = b, tr_executor = founder, tr_policy_version = ''v1'',
     tr_approvals = Some [sample_approval], tr_quarantine_signal = None, tr_admission_record = Some True,
     tr_contradictions_resolved = Some True, tr_replacement = None, tr_replacement_admitted = None,
     tr_hard_failure = None, tr_high_impact = Some True\<rparr>"

definition sample_payload :: "memory_state \<Rightarrow> memory_state \<Rightarrow> string \<Rightarrow> rat \<Rightarrow> receipt_payload" where
  "sample_payload a b q n = \<lparr>mp_memory_id = '' m1'', mp_from = a, mp_to = b, mp_request_id = q,
     mp_expected_revision = Fin n, mp_executor = founder, mp_policy_version = ''v1'',
     mp_approvals = Some [sample_approval], mp_evidence = Some [''e1''], mp_contradictions = None,
     mp_admissions = None, mp_signals = None, mp_replacement = None, mp_reason_code = ''ok'',
     mp_reason = ''reviewed''\<rparr>"

definition admit_input :: transition_input where
  "admit_input = \<lparr>ti_transition = sample_transition MemProposed MemAdmitted,
     ti_receipt = sample_payload MemProposed MemAdmitted ''q1'' 0, ti_occurred_at = ''t1''\<rparr>"

definition revoke_input :: transition_input where
  "revoke_input = \<lparr>ti_transition = sample_transition MemAdmitted MemRevoked,
     ti_receipt = sample_payload MemAdmitted MemRevoked ''q2'' 1, ti_occurred_at = ''t2''\<rparr>"

definition admitted_receipt :: authority_receipt where
  "admitted_receipt = make_receipt (\<lambda>_. ''d'')
     (sample_payload MemProposed MemAdmitted ''q1'' 0 \<lparr>mp_memory_id := ''m1''\<rparr>) ''t1''"

lemma admit_sample:
  "execute_transition (durable_append (\<lambda>_. ''d'') default) (durable_find (\<lambda>_. ''d'') default) admit_input []
     = Inr (Inr (Appended admitted_receipt), [admitted_receipt])"
  by code_simp

lemma admit_load: "durable_inv (\<lambda>_. ''d'') default []"
  by (rule durable_empty)

lemma admit_run: "durable_run (\<lambda>_. ''d'') default [admit_input] [] = [admitted_receipt]"
  by (simp add: transition_step_def admit_sample)

lemma admit_list: "durable_list (\<lambda>_. ''d'') default ''m1'' [admitted_receipt] = Inr [admitted_receipt]"
  by code_simp

lemma revoke_chain:
  "map_sum id (map (mp_to \<circ> mr_payload))
     (durable_list (\<lambda>_. ''d'') default ''m1'' (durable_run (\<lambda>_. ''d'') default [admit_input, revoke_input] []))
   = Inr [MemAdmitted, MemRevoked]"
  by code_simp

theorem durable_refines_in_memory_witness:
  "\<exists>f'. durable_append (\<lambda>_. ''d'') default (ti_receipt admit_input) ''t1'' [] = Inr (Appended admitted_receipt, f')
     \<and> (\<exists>s'. loadRepository (\<lambda>_. ''d'') default f' = Inr s')"
proof -
  have "map_sum id fst (append_receipt (\<lambda>_. ''d'') default (ti_receipt admit_input) ''t1'' no_receipts)
    = Inr (Appended admitted_receipt)" by code_simp
  then obtain s' where
    "append_receipt (\<lambda>_. ''d'') default (ti_receipt admit_input) ''t1'' no_receipts = Inr (Appended admitted_receipt, s')"
    by (cases "append_receipt (\<lambda>_. ''d'') default (ti_receipt admit_input) ''t1'' no_receipts") auto
  with durable_refines_in_memory [OF load_empty, of "\<lambda>_. ''d''" default "ti_receipt admit_input" "''t1''"]
  show ?thesis by auto
qed


theorem service_fail_closed_witness:
  "validateContractBinding (ti_transition admit_input) (ti_receipt admit_input) = None"
  using service_fail_closed [OF admit_load admit_sample] by simp

theorem service_replays_witness:
  "execute_transition (durable_append (\<lambda>_. ''d'') default) (durable_find (\<lambda>_. ''d'') default) admit_input [admitted_receipt]
     = Inr (Inr (Replayed admitted_receipt), [admitted_receipt])"
  using service_replays [OF admit_load admit_sample] by simp

theorem terminal_memory_is_final_witness:
  "\<exists>rs. durable_list (\<lambda>_. ''d'') default ''m1''
       (durable_run (\<lambda>_. ''d'') default [admit_input] (durable_run (\<lambda>_. ''d'') default [admit_input, revoke_input] [])) = Inr rs
     \<and> mp_to (mr_payload (last rs)) = MemRevoked"
proof -
  obtain rs where rs: "durable_list (\<lambda>_. ''d'') default ''m1'' (durable_run (\<lambda>_. ''d'') default [admit_input, revoke_input] []) = Inr rs"
    and states: "map (mp_to \<circ> mr_payload) rs = [MemAdmitted, MemRevoked]"
    using revoke_chain
    by (cases "durable_list (\<lambda>_. ''d'') default ''m1'' (durable_run (\<lambda>_. ''d'') default [admit_input, revoke_input] [])")
      auto
  from states have ne: "rs \<noteq> []" by auto
  with states have last: "mp_to (mr_payload (last rs)) = MemRevoked"
    using last_map [of rs "mp_to \<circ> mr_payload"] by simp
  then have "isTerminalMemoryAuthorityState (mp_to (mr_payload (last rs)))" by (simp add: isTerminalMemoryAuthorityState_def TERMINAL_STATES_def)
  from terminal_memory_is_final [OF rs ne this] last show ?thesis by blast
qed

end
