(* ===== verification/Memory_Records.thy ===== *)
theory Memory_Records
  imports Kernel_Prelude
begin

text \<open>
  Memory records and what happens to them outside the authority chain: the manager
  (\<open>memory/memory-manager.ts\<close>) over the in-memory repository (\<open>storage/in-memory.ts\<close>), the
  confidence lifecycle (\<open>memory-lifecycle.ts\<close>) with its event log (\<open>memory-event-log.ts\<close>),
  consolidation (\<open>memory-consolidation.ts\<close>) and provenance (\<open>memory-provenance.ts\<close>). Parameters: the
  rounding \<open>rnd\<close> of a sum to a double, and the text normalisation of consolidation, which uses Unicode
  tables.
\<close>

section \<open>Records and repository\<close>

datatype memory_kind = Fact | Observation | Hypothesis | Decision | Lesson

record memory_record =
  mem_id :: string
  mem_kind :: memory_kind
  mem_subject :: string
  mem_content :: string
  mem_confidence :: js_number
  mem_evidence :: "string list"
  mem_created_at :: string
  mem_updated_at :: string

record create_memory_input =
  mi_id :: string
  mi_kind :: memory_kind
  mi_subject :: string
  mi_content :: string
  mi_confidence :: js_number
  mi_evidence :: "string list option"
  mi_created_at :: string

datatype memory_error = MemoryExists string | MemoryNotFound string | MemoryFieldRequired string

type_synonym memory_store = "(string \<times> memory_record) list"

definition store_memory :: "memory_record \<Rightarrow> memory_store \<Rightarrow> memory_store" where
  "store_memory m s = AList.update (mem_id m) m s"

definition getMemory :: "string \<Rightarrow> memory_store \<Rightarrow> memory_record option" where
  "getMemory i s = map_of s i"

definition listMemories :: "memory_store \<Rightarrow> memory_record list" where
  "listMemories s = map snd s"

section \<open>The manager\<close>

definition memory_required :: "string \<Rightarrow> string \<Rightarrow> memory_error + string" where
  "memory_required s field = (if trim s = [] then Inl (MemoryFieldRequired field) else Inr (trim s))"

definition create_memory :: "create_memory_input \<Rightarrow> memory_store \<Rightarrow> memory_error + (memory_record \<times> memory_store)" where
  "create_memory i s =
     (if getMemory (mi_id i) s \<noteq> None then Inl (MemoryExists (mi_id i))
      else
        rbind (memory_required (mi_subject i) ''subject'') (\<lambda>subject.
        rbind (memory_required (mi_content i) ''content'') (\<lambda>content.
        let m = \<lparr>mem_id = mi_id i, mem_kind = mi_kind i, mem_subject = subject, mem_content = content,
          mem_confidence = mi_confidence i, mem_evidence = uniq (case_option [] id (mi_evidence i)),
          mem_created_at = mi_created_at i, mem_updated_at = mi_created_at i\<rparr> in
        Inr (m, store_memory m s))))"

definition attach_memory_evidence ::
  "string \<Rightarrow> string \<Rightarrow> string \<Rightarrow> memory_store \<Rightarrow> memory_error + (memory_record \<times> memory_store)" where
  "attach_memory_evidence i e now s =
     (case getMemory i s of
        None \<Rightarrow> Inl (MemoryNotFound i)
      | Some current \<Rightarrow>
          let m = current\<lparr>mem_updated_at := now, mem_evidence := uniq (mem_evidence current @ [e])\<rparr> in
          Inr (m, store_memory m s))"

section \<open>The confidence lifecycle\<close>

datatype lifecycle_action = Reinforce | Decay | Invalidate | Restore

record lifecycle_event =
  le_memory_id :: string
  le_action :: lifecycle_action
  le_previous :: js_number
  le_next :: js_number
  le_reason :: string
  le_occurred_at :: string

record lifecycle_options =
  lo_reinforcement :: "js_number option"
  lo_decay :: "js_number option"
  lo_threshold :: "js_number option"

text \<open>Addition of doubles, and negation; \<open>rnd\<close> rounds the exact sum.\<close>

fun num_add :: "(rat \<Rightarrow> rat) \<Rightarrow> js_number \<Rightarrow> js_number \<Rightarrow> js_number" where
  "num_add rnd (Fin a) (Fin b) = Fin (rnd (a + b))"
| "num_add rnd NaN _ = NaN"
| "num_add rnd _ NaN = NaN"
| "num_add rnd PosInf NegInf = NaN"
| "num_add rnd NegInf PosInf = NaN"
| "num_add rnd PosInf _ = PosInf"
| "num_add rnd NegInf _ = NegInf"
| "num_add rnd _ PosInf = PosInf"
| "num_add rnd _ NegInf = NegInf"

fun num_neg :: "js_number \<Rightarrow> js_number" where
  "num_neg (Fin a) = Fin (- a)"
| "num_neg PosInf = NegInf"
| "num_neg NegInf = PosInf"
| "num_neg NaN = NaN"

definition clamp :: "js_number \<Rightarrow> js_number" where
  "clamp v = (case v of Fin r \<Rightarrow> Fin (min 1 (max 0 r)) | _ \<Rightarrow> Fin 0)"

definition default_num :: "rat \<Rightarrow> js_number option \<Rightarrow> js_number" where
  "default_num d v = (case v of None \<Rightarrow> Fin d | Some n \<Rightarrow> n)"

definition lifecycle_transition ::
  "(rat \<Rightarrow> rat) \<Rightarrow> lifecycle_options \<Rightarrow> memory_record \<Rightarrow> lifecycle_action \<Rightarrow> js_number \<Rightarrow> string \<Rightarrow> string
   \<Rightarrow> memory_record \<times> lifecycle_event" where
  "lifecycle_transition rnd opts m action delta reason now =
     (let previous = clamp (mem_confidence m);
          nxt = clamp (num_add rnd previous delta);
          effective = (if action = Invalidate \<or> num_lt nxt (default_num (1 / 10) (lo_threshold opts))
            then Fin 0 else nxt) in
      (m\<lparr>mem_confidence := effective, mem_updated_at := now\<rparr>,
       \<lparr>le_memory_id = mem_id m, le_action = action, le_previous = previous, le_next = effective,
        le_reason = reason, le_occurred_at = now\<rparr>))"

definition reinforce where
  "reinforce rnd opts m reason now =
     lifecycle_transition rnd opts m Reinforce (default_num (1 / 20) (lo_reinforcement opts)) reason now"

definition decay where
  "decay rnd opts m reason now =
     lifecycle_transition rnd opts m Decay (num_neg (default_num (1 / 20) (lo_decay opts))) reason now"

definition invalidate where
  "invalidate rnd opts m reason now = lifecycle_transition rnd opts m Invalidate (Fin (- 1)) reason now"

definition restore where
  "restore rnd opts m reason now =
     lifecycle_transition rnd opts m Restore (default_num (1 / 20) (lo_reinforcement opts)) reason now"

text \<open>The event log: \<open>append\<close>, and \<open>list\<close>, where an empty id is no filter.\<close>

definition append_event :: "lifecycle_event \<Rightarrow> lifecycle_event list \<Rightarrow> lifecycle_event list" where
  "append_event e events = events @ [e]"

definition list_events :: "string option \<Rightarrow> lifecycle_event list \<Rightarrow> lifecycle_event list" where
  "list_events i events = filter (\<lambda>e. case_option [] id i = [] \<or> le_memory_id e = the i) events"

interpretation event_log: append_log "\<lambda>s. s" append_event
  by unfold_locales (simp add: append_event_def)

section \<open>Consolidation and provenance\<close>

record consolidation_group =
  cg_canonical :: memory_record
  cg_sources :: "string list"

definition chooseCanonical :: "memory_record \<Rightarrow> memory_record \<Rightarrow> memory_record" where
  "chooseCanonical l r =
     (if num_lt (mem_confidence l) (mem_confidence r) then r
      else if mem_updated_at l < mem_updated_at r then r else l)"

definition consolidate_one ::
  "(string \<Rightarrow> string) \<Rightarrow> memory_record \<Rightarrow> (string \<times> consolidation_group) list \<Rightarrow> (string \<times> consolidation_group) list" where
  "consolidate_one canon m groups =
     (let k = canon (mem_content m) in
      case map_of groups k of
        None \<Rightarrow> AList.update k \<lparr>cg_canonical = m, cg_sources = [mem_id m]\<rparr> groups
      | Some g \<Rightarrow> AList.update k \<lparr>cg_canonical = chooseCanonical (cg_canonical g) m,
          cg_sources = uniq (cg_sources g @ [mem_id m])\<rparr> groups)"

definition consolidate :: "(string \<Rightarrow> string) \<Rightarrow> memory_record list \<Rightarrow> consolidation_group list" where
  "consolidate canon ms = map snd (fold (consolidate_one canon) ms [])"

record memory_provenance =
  pv_memory_id :: string
  pv_sources :: "string list"
  pv_evidence :: "string list"
  pv_consolidated_at :: string

definition mergeMemoryProvenance ::
  "memory_record \<Rightarrow> memory_record list \<Rightarrow> string \<Rightarrow> memory_record \<times> memory_provenance" where
  "mergeMemoryProvenance canonical sources now =
     (canonical, \<lparr>pv_memory_id = mem_id canonical, pv_sources = uniq (map mem_id sources),
       pv_evidence = uniq (concat (map mem_evidence sources)), pv_consolidated_at = now\<rparr>)"

section \<open>Facts\<close>

lemma clamp_unit: "\<exists>r. clamp v = Fin r \<and> 0 \<le> r \<and> r \<le> 1"
  by (cases v) (auto simp: clamp_def)

lemma clamp_fixed: "0 \<le> r \<Longrightarrow> r \<le> 1 \<Longrightarrow> clamp (Fin r) = Fin r"
  by (simp add: clamp_def)

lemma transition_confidence:
  "\<exists>r. mem_confidence (fst (lifecycle_transition rnd opts m action delta reason now)) = Fin r
     \<and> 0 \<le> r \<and> r \<le> 1 \<and> (r = 0 \<or> \<not> num_lt (Fin r) (default_num (1 / 10) (lo_threshold opts)))"
proof -
  obtain r where "clamp (num_add rnd (clamp (mem_confidence m)) delta) = Fin r" "0 \<le> r" "r \<le> 1"
    using clamp_unit by blast
  then show ?thesis by (auto simp: lifecycle_transition_def Let_def)
qed

text \<open>The group of a key, as one pass of the loop leaves it.\<close>

lemma consolidate_one_keys: "map_of (consolidate_one canon m groups) k =
    (if k = canon (mem_content m) then Some (case map_of groups k of
        None \<Rightarrow> \<lparr>cg_canonical = m, cg_sources = [mem_id m]\<rparr>
      | Some g \<Rightarrow> \<lparr>cg_canonical = chooseCanonical (cg_canonical g) m, cg_sources = uniq (cg_sources g @ [mem_id m])\<rparr>)
     else map_of groups k)"
  by (auto simp: consolidate_one_def Let_def map_of_alist_update split: option.splits)

lemma chooseCanonical_cases: "chooseCanonical l r = l \<or> chooseCanonical l r = r"
  by (simp add: chooseCanonical_def)

definition with_content :: "(string \<Rightarrow> string) \<Rightarrow> string \<Rightarrow> memory_record list \<Rightarrow> memory_record list" where
  "with_content canon k ms = filter (\<lambda>m. canon (mem_content m) = k) ms"

lemma consolidate_lookup:
  "map_of (fold (consolidate_one canon) ms []) k = None \<longleftrightarrow> with_content canon k ms = []"
  "map_of (fold (consolidate_one canon) ms []) k = Some g \<Longrightarrow>
     set (cg_sources g) = mem_id ` set (with_content canon k ms) \<and> distinct (cg_sources g)
     \<and> cg_canonical g \<in> set (with_content canon k ms)"
proof (induction ms arbitrary: g rule: rev_induct)
  case (snoc m ms)
  {
    case 1
    show ?case using snoc.IH(1) by (simp add: consolidate_one_keys with_content_def)
  next
    case 2
    show ?case
    proof (cases "canon (mem_content m) = k")
      case True
      show ?thesis
      proof (cases "map_of (fold (consolidate_one canon) ms []) k")
        case None
        with 2 True snoc.IH(1) show ?thesis
          by (auto simp: consolidate_one_keys with_content_def)
      next
        case (Some h)
        from snoc.IH(2) [OF Some] 2 True Some chooseCanonical_cases [of "cg_canonical h" m] show ?thesis
          by (auto simp: consolidate_one_keys with_content_def)
      qed
    next
      case False
      with 2 snoc.IH(2) show ?thesis by (simp add: consolidate_one_keys with_content_def)
    qed
  }
qed (simp_all add: with_content_def)

lemma consolidate_one_distinct: "distinct (map fst groups) \<Longrightarrow> distinct (map fst (consolidate_one canon m groups))"
  by (simp add: consolidate_one_def Let_def distinct_update split: option.split)

lemma consolidate_distinct: "distinct (map fst (fold (consolidate_one canon) ms []))"
  by (induction ms rule: rev_induct) (simp_all add: consolidate_one_distinct)

lemma consolidate_members:
  "g \<in> set (consolidate canon ms) \<longleftrightarrow> (\<exists>k. map_of (fold (consolidate_one canon) ms []) k = Some g)"
  using consolidate_distinct [of canon ms] by (force simp: consolidate_def)

section \<open>Properties\<close>

text \<open>
  No lifecycle action leaves the unit interval: whatever confidence a memory arrives with (also
  none that is a number), whatever the options, the new confidence is a finite value between 0 and 1,
  and it is either 0 or not below the invalidation threshold.
\<close>

theorem confidence_stays_unit:
  "\<forall>f \<in> {reinforce, decay, invalidate, restore}. \<exists>r. mem_confidence (fst (f rnd opts m reason now)) = Fin r
     \<and> 0 \<le> r \<and> r \<le> 1 \<and> (r = 0 \<or> \<not> num_lt (Fin r) (default_num (1 / 10) (lo_threshold opts)))"
  by (simp add: reinforce_def decay_def invalidate_def restore_def transition_confidence)

text \<open>
  An invalidated memory cannot be restored one step at a time: while the reinforcement is below the
  invalidation threshold, as with the default options, restoring or reinforcing a memory of confidence
  0 gives confidence 0 again, however often it is done.
\<close>

theorem invalidated_stays_invalid:
  assumes "mem_confidence m = Fin 0" and "default_num (1 / 20) (lo_reinforcement opts) = Fin a"
    and "default_num (1 / 10) (lo_threshold opts) = Fin t" and "0 \<le> a" and "a < t" and "a \<le> 1" and "rnd a = a"
  shows "mem_confidence (((\<lambda>m. fst (restore rnd opts m reason now)) ^^ n) m) = Fin 0
    \<and> mem_confidence (((\<lambda>m. fst (reinforce rnd opts m reason now)) ^^ n) m) = Fin 0"
proof -
  have step: "mem_confidence (fst (lifecycle_transition rnd opts m action (Fin a) reason now)) = Fin 0"
    if "mem_confidence m = Fin 0" for m action
    using that assms by (simp add: lifecycle_transition_def Let_def clamp_def)
  show ?thesis
    by (induction n) (simp_all add: assms(1,2) restore_def reinforce_def step)
qed

text \<open>
  Consolidation loses no source: every group holds exactly the ids of the memories whose
  normalised content it stands for, each once, its canonical memory is one of them, and every memory
  is in a group.
\<close>

theorem consolidation_keeps_sources:
  "(\<forall>g \<in> set (consolidate canon ms). distinct (cg_sources g) \<and> cg_canonical g \<in> set ms
      \<and> set (cg_sources g) = mem_id ` {m \<in> set ms. canon (mem_content m) = canon (mem_content (cg_canonical g))})
   \<and> (\<forall>m \<in> set ms. \<exists>g \<in> set (consolidate canon ms). mem_id m \<in> set (cg_sources g))"
proof (intro conjI ballI)
  fix g
  assume "g \<in> set (consolidate canon ms)"
  then obtain k where "map_of (fold (consolidate_one canon) ms []) k = Some g" by (auto simp: consolidate_members)
  from consolidate_lookup(2) [OF this]
  show "distinct (cg_sources g)" and "cg_canonical g \<in> set ms"
    and "set (cg_sources g) = mem_id ` {m \<in> set ms. canon (mem_content m) = canon (mem_content (cg_canonical g))}"
    by (auto simp: with_content_def)
next
  fix m
  assume m: "m \<in> set ms"
  let ?k = "canon (mem_content m)"
  have "with_content canon ?k ms \<noteq> []" using m by (auto simp: with_content_def filter_empty_conv)
  then obtain g where g: "map_of (fold (consolidate_one canon) ms []) ?k = Some g"
    using consolidate_lookup(1) [of canon ms ?k] by auto
  moreover have "mem_id m \<in> set (cg_sources g)"
    using consolidate_lookup(2) [OF g] m by (auto simp: with_content_def)
  ultimately show "\<exists>g \<in> set (consolidate canon ms). mem_id m \<in> set (cg_sources g)"
    using consolidate_members by blast
qed

text \<open>
  The canonical memory of a group is not the most confident one: a later memory with a more recent
  update replaces a more confident one, so that the choice depends on the order of the input.
\<close>

theorem canonical_depends_on_order:
  assumes "num_lt (mem_confidence weak) (mem_confidence strong)" and "mem_updated_at strong < mem_updated_at weak"
    and "canon (mem_content weak) = canon (mem_content strong)"
  shows "map cg_canonical (consolidate canon [strong, weak]) = [weak]
    \<and> map cg_canonical (consolidate canon [weak, strong]) = [strong]"
proof -
  have "\<not> num_lt (mem_confidence strong) (mem_confidence weak)"
    using assms(1) by (cases "mem_confidence weak"; cases "mem_confidence strong") auto
  then show ?thesis
    using assms by (simp add: consolidate_def consolidate_one_def Let_def chooseCanonical_def)
qed

definition sample_memory :: "string \<Rightarrow> rat \<Rightarrow> string \<Rightarrow> memory_record" where
  "sample_memory i c t = \<lparr>mem_id = i, mem_kind = Fact, mem_subject = ''s'', mem_content = ''c'',
     mem_confidence = Fin c, mem_evidence = [], mem_created_at = ''t0'', mem_updated_at = t\<rparr>"

theorem invalidated_stays_invalid_witness:
  "mem_confidence (((\<lambda>m. fst (restore id \<lparr>lo_reinforcement = None, lo_decay = None, lo_threshold = None\<rparr> m ''r'' ''t1'')) ^^ 20)
     (sample_memory ''m'' 0 ''t'')) = Fin 0"
  using invalidated_stays_invalid [of "sample_memory ''m'' 0 ''t''" "\<lparr>lo_reinforcement = None, lo_decay = None, lo_threshold = None\<rparr>"
      "1 / 20" "1 / 10" id]
  by (simp add: sample_memory_def default_num_def)

theorem canonical_depends_on_order_witness:
  "map mem_id (map cg_canonical (consolidate id [sample_memory ''strong'' (9 / 10) ''t1'', sample_memory ''weak'' (1 / 10) ''t2'']))
     = [''weak'']"
proof -
  have "map cg_canonical (consolidate id [sample_memory ''strong'' (9 / 10) ''t1'', sample_memory ''weak'' (1 / 10) ''t2''])
      = [sample_memory ''weak'' (1 / 10) ''t2'']"
    using canonical_depends_on_order [of "sample_memory ''weak'' (1 / 10) ''t2''" "sample_memory ''strong'' (9 / 10) ''t1''" id]
    by (simp add: sample_memory_def list_less_def char_of_def less_char_def)
  then show ?thesis by (simp only:) (simp add: sample_memory_def)
qed

theorem confidence_stays_unit_witness:
  "\<exists>r. mem_confidence (fst (decay id \<lparr>lo_reinforcement = None, lo_decay = None, lo_threshold = None\<rparr> (sample_memory ''m'' 5 ''t'') [] [])) = Fin r
     \<and> 0 \<le> r \<and> r \<le> 1"
  using bspec [OF confidence_stays_unit [of id "\<lparr>lo_reinforcement = None, lo_decay = None, lo_threshold = None\<rparr>" "sample_memory ''m'' 5 ''t''" "[]" "[]"],
      of decay] by auto

theorem consolidation_keeps_sources_witness:
  "\<exists>g. g \<in> set (consolidate id [sample_memory ''a'' 1 ''t'', sample_memory ''b'' 1 ''t'']) \<and> ''b'' \<in> set (cg_sources g)"
proof -
  have "sample_memory ''b'' 1 ''t'' \<in> set [sample_memory ''a'' 1 ''t'', sample_memory ''b'' 1 ''t'']" by simp
  from bspec [OF conjunct2 [OF consolidation_keeps_sources [of id]] this] show ?thesis
    by (simp add: sample_memory_def) blast
qed

end
