(* ===== verification/Memory_Reconciliation.thy ===== *)
theory Memory_Reconciliation
  imports Memory_Service Memory_Records
begin

text \<open>
  Start-up reconciliation of all authority chains (\<open>memory/memory-authority-reconciliation.ts\<close>), the
  retrieval gate that reads its report (\<open>memory-retrieval-gate.ts\<close>) and the dry-run migration plan for
  memories without a chain (\<open>memory-legacy-migration-plan.ts\<close>). The reasons, which are prose, are left
  out. Together they decide which memories the system may use.
\<close>

section \<open>Data\<close>

datatype reconciliation_status = RecValid | RecMissingReference | RecIntegrityFailure | RecAmbiguousChain | RecMigrationRequired

record reconciliation_input =
  ri_memory_id :: string
  ri_receipts :: "authority_receipt list"

record reference_catalog =
  rc_evidence :: "string list option"
  rc_contradictions :: "string list option"
  rc_admissions :: "string list option"
  rc_approvals :: "string list option"

record reconciliation_entry =
  en_memory_id :: string
  en_status :: reconciliation_status
  en_reusable :: bool
  en_projection :: projection
  en_missing :: "string list"

record reconciliation_report =
  rep_entries :: "reconciliation_entry list"
  rep_counts :: "reconciliation_status \<Rightarrow> nat"

section \<open>Reconciliation\<close>

text \<open>\<open>duplicates\<close>: the values seen before, as the loop over \<open>seen\<close> collects them.\<close>

definition duplicates :: "string list \<Rightarrow> string list" where
  "duplicates vs = snd (foldl (\<lambda>(seen, dup) v. (v # seen, if v \<in> set seen then v # dup else dup)) ([], []) vs)"

text \<open>
  The loop over all receipts: the owner of a request id, and the ids met under another memory. An owner
  with the empty id counts as no owner.
\<close>

definition claim_request ::
  "string \<Rightarrow> string \<Rightarrow> (string \<times> string) list \<times> string list \<Rightarrow> (string \<times> string) list \<times> string list" where
  "claim_request memory request acc =
     (let (owners, ambiguous) = acc in
      case map_of owners request of
        None \<Rightarrow> (AList.update request memory owners, ambiguous)
      | Some owner \<Rightarrow> if owner \<noteq> [] \<and> owner \<noteq> memory then (owners, request # ambiguous)
          else (AList.update request memory owners, ambiguous))"

definition all_requests :: "reconciliation_input list \<Rightarrow> (string \<times> string) list" where
  "all_requests inputs = concat (map (\<lambda>i. map (\<lambda>r. (trim (ri_memory_id i), trim (mp_request_id (mr_payload r))))
     (ri_receipts i)) inputs)"

definition ambiguous_requests :: "reconciliation_input list \<Rightarrow> string list" where
  "ambiguous_requests inputs = snd (fold (\<lambda>(m, q). claim_request m q) (all_requests inputs) ([], []))"

definition missing_ids :: "string list option \<Rightarrow> string list option \<Rightarrow> string list" where
  "missing_ids ids known = filter (\<lambda>i. i \<notin> set (case_option [] id known)) (case_option [] id ids)"

definition collectMissingReferences :: "reference_catalog \<Rightarrow> authority_receipt list \<Rightarrow> string list" where
  "collectMissingReferences refs receipts = sort_units (uniq (concat (map (\<lambda>r.
     missing_ids (mp_evidence (mr_payload r)) (rc_evidence refs)
     @ missing_ids (mp_contradictions (mr_payload r)) (rc_contradictions refs)
     @ missing_ids (mp_admissions (mr_payload r)) (rc_admissions refs)
     @ missing_ids (map_option (map ma_decision_id) (mp_approvals (mr_payload r))) (rc_approvals refs)) receipts)))"

definition blockedEntry :: "string \<Rightarrow> projection \<Rightarrow> reconciliation_status \<Rightarrow> reconciliation_entry" where
  "blockedEntry m p status = \<lparr>en_memory_id = m, en_status = status, en_reusable = False, en_projection = p, en_missing = []\<rparr>"

text \<open>The body of the \<open>map\<close> over the inputs.\<close>

definition reconcile_entry ::
  "(js_value \<Rightarrow> string) \<Rightarrow> reference_catalog \<Rightarrow> string list \<Rightarrow> string list \<Rightarrow> reconciliation_input \<Rightarrow> reconciliation_entry" where
  "reconcile_entry digest refs dup ambiguous i =
     (let m = trim (ri_memory_id i); p = projectMemoryAuthorityState digest m (ri_receipts i) in
      if m \<in> set dup then blockedEntry m p RecAmbiguousChain
      else if list_ex (\<lambda>r. trim (mp_request_id (mr_payload r)) \<in> set ambiguous) (ri_receipts i)
      then blockedEntry m p RecAmbiguousChain
      else case p of
        BlockedProjection _ code _ \<Rightarrow>
          if code = InvalidIntegrity then blockedEntry m p RecIntegrityFailure
          else if code = EmptyChain then blockedEntry m p RecMigrationRequired
          else blockedEntry m p RecAmbiguousChain
      | ValidProjection _ state _ _ \<Rightarrow>
          let missing = collectMissingReferences refs (ri_receipts i) in
          if length missing > 0
          then \<lparr>en_memory_id = m, en_status = RecMissingReference, en_reusable = False, en_projection = p,
            en_missing = missing\<rparr>
          else \<lparr>en_memory_id = m, en_status = RecValid, en_reusable = (state = MemAdmitted), en_projection = p,
            en_missing = []\<rparr>)"

definition reconcileMemoryAuthorityAtStartup ::
  "(js_value \<Rightarrow> string) \<Rightarrow> reference_catalog \<Rightarrow> reconciliation_input list \<Rightarrow> reconciliation_report" where
  "reconcileMemoryAuthorityAtStartup digest refs inputs =
     (let dup = duplicates (map (\<lambda>i. trim (ri_memory_id i)) inputs);
          entries = map (reconcile_entry digest refs dup (ambiguous_requests inputs)) inputs in
      \<lparr>rep_entries = entries,
       rep_counts = foldl (\<lambda>counts e. counts(en_status e := counts (en_status e) + 1)) (\<lambda>_. 0) entries\<rparr>)"

section \<open>The retrieval gate\<close>

record 'v retrieval_candidate =
  rt_memory_id :: string
  rt_value :: 'v

definition reusable_entry :: "reconciliation_entry \<Rightarrow> bool" where
  "reusable_entry e \<longleftrightarrow> en_status e = RecValid \<and> en_reusable e
     \<and> (case en_projection e of ValidProjection _ state _ _ \<Rightarrow> state = MemAdmitted | BlockedProjection _ _ _ \<Rightarrow> False)"

definition reusable_map :: "reconciliation_entry list \<Rightarrow> (string \<times> bool) list" where
  "reusable_map entries = foldl (\<lambda>m e. let i = trim (en_memory_id e) in
     if map_of m i \<noteq> None then AList.update i False m else AList.update i (reusable_entry e) m) [] entries"

definition gate_candidate ::
  "(string \<times> bool) list \<Rightarrow> 'v retrieval_candidate \<Rightarrow> 'v retrieval_candidate list \<times> string list \<times> string list
   \<Rightarrow> 'v retrieval_candidate list \<times> string list \<times> string list" where
  "gate_candidate reusable c acc =
     (let (admitted, excluded, seen) = acc; i = trim (rt_memory_id c) in
      if i = [] \<or> i \<in> set seen \<or> map_of reusable i \<noteq> Some True
      then (admitted, if i \<noteq> [] then excluded @ [i] else excluded, seen)
      else (admitted @ [\<lparr>rt_memory_id = i, rt_value = rt_value c\<rparr>], excluded, i # seen))"

definition gateMemoryRetrieval ::
  "'v retrieval_candidate list \<Rightarrow> reconciliation_report \<Rightarrow> 'v retrieval_candidate list \<times> string list" where
  "gateMemoryRetrieval candidates report =
     (let (admitted, excluded, seen) =
        fold (gate_candidate (reusable_map (rep_entries report))) candidates ([], [], []) in
      (admitted, sort_units (uniq excluded)))"

section \<open>The migration plan\<close>

datatype migration_action = NoAction | PlanMigration | MigrationBlocked

record migration_entry =
  mg_memory_id :: string
  mg_action :: migration_action
  mg_initial_state :: "memory_state option"
  mg_evidence :: "string list"

definition sortedUnique :: "string list \<Rightarrow> string list" where
  "sortedUnique vs = sort_units (uniq (filter (\<lambda>v. v \<noteq> []) (map trim vs)))"

definition migration_entry_of ::
  "string list \<Rightarrow> string list \<Rightarrow> (string \<times> reconciliation_entry) list \<Rightarrow> memory_record \<Rightarrow> migration_entry" where
  "migration_entry_of dup_memories dup_entries by_id m =
     (let i = trim (mem_id m); evidence = sortedUnique (mem_evidence m);
          blocked = \<lparr>mg_memory_id = i, mg_action = MigrationBlocked, mg_initial_state = None, mg_evidence = evidence\<rparr> in
      if i = [] \<or> i \<in> set dup_memories \<or> i \<in> set dup_entries then blocked
      else case map_of by_id i of
        None \<Rightarrow> blocked
      | Some authority \<Rightarrow>
          if en_status authority = RecMigrationRequired
          then blocked\<lparr>mg_action := PlanMigration, mg_initial_state := Some MemProposed\<rparr>
          else if en_status authority \<noteq> RecValid then blocked
          else blocked\<lparr>mg_action := NoAction\<rparr>)"

definition entries_by_id :: "reconciliation_entry list \<Rightarrow> (string \<times> reconciliation_entry) list" where
  "entries_by_id entries = foldl (\<lambda>m e. if map_of m (trim (en_memory_id e)) \<noteq> None then m
     else AList.update (trim (en_memory_id e)) e m) [] entries"

definition planLegacyMemoryMigration ::
  "memory_record list \<Rightarrow> reconciliation_report \<Rightarrow> migration_entry list \<times> (migration_action \<Rightarrow> nat)" where
  "planLegacyMemoryMigration memories report =
     (let by_id = entries_by_id (rep_entries report);
          dup_entries = duplicates (map (\<lambda>e. trim (en_memory_id e)) (rep_entries report));
          dup_memories = duplicates (map (\<lambda>m. trim (mem_id m)) memories);
          entries = map (migration_entry_of dup_memories dup_entries by_id) memories in
      (entries, foldl (\<lambda>counts e. counts(mg_action e := counts (mg_action e) + 1)) (\<lambda>_. 0) entries))"

section \<open>Duplicates and ambiguous requests\<close>

lemma in_set_count: "x \<in> set xs \<longleftrightarrow> 0 < count_list xs x"
  by (metis count_list_0_iff neq0_conv)

lemma duplicates_set: "v \<in> set (duplicates vs) \<longleftrightarrow> 2 \<le> count_list vs v"
proof -
  have "fst (foldl (\<lambda>(seen, dup) v. (v # seen, if v \<in> set seen then v # dup else dup)) ([], []) vs) = rev vs
    \<and> (\<forall>v. v \<in> set (snd (foldl (\<lambda>(seen, dup) v. (v # seen, if v \<in> set seen then v # dup else dup)) ([], []) vs))
        \<longleftrightarrow> 2 \<le> count_list vs v)"
  proof (induction vs rule: rev_induct)
    case (snoc x xs)
    obtain seen dup where acc: "foldl (\<lambda>(seen, dup) v. (v # seen, if v \<in> set seen then v # dup else dup)) ([], []) xs = (seen, dup)"
      by (rule prod.exhaust)
    from snoc acc have "set seen = set xs" and dup: "\<And>v. v \<in> set dup \<longleftrightarrow> 2 \<le> count_list xs v" and rev: "seen = rev xs"
      by auto
    then show ?case using in_set_count [of x xs] by (auto simp: acc)
  qed simp
  then show ?thesis by (simp add: duplicates_def)
qed

text \<open>Two named memories cannot share a request id that is not ambiguous.\<close>

definition claims_kept :: "(string \<times> string) list \<Rightarrow> (string \<times> string) list \<times> string list \<Rightarrow> bool" where
  "claims_kept L acc \<longleftrightarrow> (\<forall>m q. (m, q) \<in> set L \<longrightarrow> m \<noteq> [] \<longrightarrow> q \<in> set (snd acc) \<or> map_of (fst acc) q = Some m)"

lemma claims_kept_step: "claims_kept L acc \<Longrightarrow> claims_kept (L @ [(m, q)]) (claim_request m q acc)"
  by (cases acc)
    (auto simp: claims_kept_def claim_request_def map_of_alist_update split: option.split,
      (metis option.distinct(1) option.inject)+)

lemma claims_kept_fold: "claims_kept L (fold (\<lambda>(m, q). claim_request m q) L ([], []))"
proof (induction L rule: rev_induct)
  case (snoc x L)
  then show ?case by (cases x) (simp add: claims_kept_step)
qed (simp add: claims_kept_def)

lemma all_requests_mem:
  "i \<in> set inputs \<Longrightarrow> r \<in> set (ri_receipts i) \<Longrightarrow>
     (trim (ri_memory_id i), trim (mp_request_id (mr_payload r))) \<in> set (all_requests inputs)"
  by (auto simp: all_requests_def)

lemma unambiguous_request:
  assumes "(m, q) \<in> set (all_requests inputs)" and "(m', q) \<in> set (all_requests inputs)"
    and "m \<noteq> []" and "m' \<noteq> []" and "q \<notin> set (ambiguous_requests inputs)"
  shows "m = m'"
  using claims_kept_fold [of "all_requests inputs"] assms
  unfolding claims_kept_def ambiguous_requests_def by (metis option.inject)

section \<open>The gate\<close>

lemma reusable_map_lookup:
  "map_of (reusable_map es) i = (case filter (\<lambda>e. trim (en_memory_id e) = i) es of
     [] \<Rightarrow> None | [e] \<Rightarrow> Some (reusable_entry e) | _ \<Rightarrow> Some False)"
proof (induction es rule: rev_induct)
  case Nil
  then show ?case by (simp add: reusable_map_def)
next
  case (snoc e es)
  let ?f = "filter (\<lambda>e. trim (en_memory_id e) = i) es"
  have step: "reusable_map (es @ [e]) = (if map_of (reusable_map es) (trim (en_memory_id e)) \<noteq> None
      then AList.update (trim (en_memory_id e)) False (reusable_map es)
      else AList.update (trim (en_memory_id e)) (reusable_entry e) (reusable_map es))"
    by (simp add: reusable_map_def Let_def)
  show ?case
  proof (cases "trim (en_memory_id e) = i")
    case True
    show ?thesis
    proof (cases ?f)
      case Nil
      with snoc True show ?thesis by (simp add: step map_of_alist_update)
    next
      case (Cons a rest)
      with snoc True show ?thesis by (cases rest) (simp_all add: step map_of_alist_update)
    qed
  next
    case False
    with snoc show ?thesis by (simp add: step map_of_alist_update)
  qed
qed

text \<open>What the loop over the candidates keeps.\<close>

definition gate_ok ::
  "(string \<times> bool) list \<Rightarrow> 'v retrieval_candidate list \<Rightarrow> 'v retrieval_candidate list \<times> string list \<times> string list \<Rightarrow> bool" where
  "gate_ok reusable candidates acc \<longleftrightarrow> (let (admitted, excluded, seen) = acc in
     distinct (map rt_memory_id admitted) \<and> set seen = rt_memory_id ` set admitted
     \<and> (\<forall>a\<in>set admitted. rt_memory_id a \<noteq> [] \<and> map_of reusable (rt_memory_id a) = Some True
          \<and> (\<exists>c\<in>set candidates. trim (rt_memory_id c) = rt_memory_id a \<and> rt_value c = rt_value a))
     \<and> (\<forall>c\<in>set candidates. trim (rt_memory_id c) \<noteq> [] \<longrightarrow>
          trim (rt_memory_id c) \<in> rt_memory_id ` set admitted \<union> set excluded))"

lemma gate_ok_fold: "gate_ok reusable cs (fold (gate_candidate reusable) cs ([], [], []))"
proof (induction cs rule: rev_induct)
  case Nil
  then show ?case by (simp add: gate_ok_def)
next
  case (snoc c cs)
  obtain admitted excluded seen where acc: "fold (gate_candidate reusable) cs ([], [], []) = (admitted, excluded, seen)"
    by (metis prod_cases3)
  from snoc show ?case
    unfolding fold_append comp_def acc by (auto simp: acc gate_ok_def gate_candidate_def Let_def)
qed

lemma gate_admitted:
  assumes "a \<in> set (fst (gateMemoryRetrieval candidates report))"
  shows "rt_memory_id a \<noteq> []"
    and "\<exists>e. filter (\<lambda>e. trim (en_memory_id e) = rt_memory_id a) (rep_entries report) = [e] \<and> reusable_entry e"
proof -
  obtain admitted excluded seen where
    acc: "fold (gate_candidate (reusable_map (rep_entries report))) candidates ([], [], []) = (admitted, excluded, seen)"
    by (metis prod_cases3)
  from gate_ok_fold [of "reusable_map (rep_entries report)" candidates] assms
  have a: "rt_memory_id a \<noteq> []" and look: "map_of (reusable_map (rep_entries report)) (rt_memory_id a) = Some True"
    by (auto simp: gate_ok_def gateMemoryRetrieval_def acc)
  show "rt_memory_id a \<noteq> []" by (rule a)
  from look show "\<exists>e. filter (\<lambda>e. trim (en_memory_id e) = rt_memory_id a) (rep_entries report) = [e] \<and> reusable_entry e"
    unfolding reusable_map_lookup by (auto split: list.split_asm)
qed

lemma reconcile_entry_reusable:
  assumes "reusable_entry (reconcile_entry digest refs dup ambiguous i)"
  shows "trim (ri_memory_id i) \<notin> set dup"
    and "\<forall>r\<in>set (ri_receipts i). trim (mp_request_id (mr_payload r)) \<notin> set ambiguous"
    and "\<exists>revision ids. projectMemoryAuthorityState digest (trim (ri_memory_id i)) (ri_receipts i)
      = ValidProjection (trim (ri_memory_id i)) MemAdmitted revision ids"
    and "collectMissingReferences refs (ri_receipts i) = []"
  using assms
  by (auto simp: reconcile_entry_def reusable_entry_def blockedEntry_def Let_def list_ex_iff projection_iff
      split: if_split_asm projection.split_asm)

lemma reconcile_entry_id: "en_memory_id (reconcile_entry digest refs dup ambiguous i) = trim (ri_memory_id i)"
  by (simp add: reconcile_entry_def Let_def blockedEntry_def split: projection.split)

lemma entries_by_id_lookup:
  "map_of (entries_by_id es) i = List.find (\<lambda>e. trim (en_memory_id e) = i) es"
proof (induction es rule: rev_induct)
  case Nil
  then show ?case by (simp add: entries_by_id_def)
next
  case (snoc e es)
  have find: "List.find P (es @ [e]) = (case List.find P es of None \<Rightarrow> if P e then Some e else None | Some x \<Rightarrow> Some x)"
    for P by (induction es) simp_all
  have step: "entries_by_id (es @ [e]) = (if map_of (entries_by_id es) (trim (en_memory_id e)) \<noteq> None
      then entries_by_id es else AList.update (trim (en_memory_id e)) e (entries_by_id es))"
    by (simp add: entries_by_id_def)
  show ?case
    unfolding find by (auto simp: step snoc map_of_alist_update split: option.split)
qed

lemma count_list_filter: "count_list (map f xs) v = length (filter (\<lambda>x. f x = v) xs)"
  by (induction xs) auto

lemma count_entries:
  "foldl (\<lambda>counts e. counts(f e := Suc (counts (f e)))) (\<lambda>_. 0) es s = length (filter (\<lambda>e. f e = s) es)"
  by (induction es rule: rev_induct) auto

lemma single_entry:
  "\<not> 2 \<le> length (filter P es) \<Longrightarrow> List.find P es = Some e \<longleftrightarrow> filter P es = [e]"
  by (induction es) (auto simp: filter_empty_conv find_Some_iff find_None_iff Suc_le_eq dest: find_Some_D)

section \<open>Properties\<close>


text \<open>The decision of the plan, read off the list of entries.\<close>

definition planned_action :: "memory_record list \<Rightarrow> reconciliation_entry list \<Rightarrow> string \<Rightarrow> migration_action" where
  "planned_action memories entries i =
     (if i = [] \<or> length (filter (\<lambda>m. trim (mem_id m) = i) memories) \<noteq> 1 then MigrationBlocked
      else case filter (\<lambda>e. trim (en_memory_id e) = i) entries of
        [e] \<Rightarrow> if en_status e = RecMigrationRequired then PlanMigration
          else if en_status e = RecValid then NoAction else MigrationBlocked
      | _ \<Rightarrow> MigrationBlocked)"

lemma migration_entry_planned:
  assumes m: "m \<in> set memories"
  shows "migration_entry_of (duplicates (map (\<lambda>m. trim (mem_id m)) memories))
      (duplicates (map (\<lambda>e. trim (en_memory_id e)) entries)) (entries_by_id entries) m =
    \<lparr>mg_memory_id = trim (mem_id m), mg_action = planned_action memories entries (trim (mem_id m)),
     mg_initial_state = (if planned_action memories entries (trim (mem_id m)) = PlanMigration then Some MemProposed else None),
     mg_evidence = sortedUnique (mem_evidence m)\<rparr>"
proof -
  let ?i = "trim (mem_id m)"
  have one: "length (filter (\<lambda>m. trim (mem_id m) = ?i) memories) \<noteq> 0"
    using m by (auto simp: filter_empty_conv)
  have dup: "?i \<in> set (duplicates (map (\<lambda>m. trim (mem_id m)) memories))
      \<longleftrightarrow> length (filter (\<lambda>m. trim (mem_id m) = ?i) memories) \<noteq> 1"
    unfolding duplicates_set count_list_filter using one by linarith
  consider (none) "filter (\<lambda>e. trim (en_memory_id e) = ?i) entries = []"
    | (single) e where "filter (\<lambda>e. trim (en_memory_id e) = ?i) entries = [e]"
    | (more) e e' es where "filter (\<lambda>e. trim (en_memory_id e) = ?i) entries = e # e' # es"
    by (metis list.exhaust)
  then show ?thesis
  proof cases
    case none
    then have "List.find (\<lambda>e. trim (en_memory_id e) = ?i) entries = None"
      by (auto simp: find_None_iff filter_empty_conv)
    with none show ?thesis
      by (simp add: migration_entry_of_def Let_def entries_by_id_lookup planned_action_def)
  next
    case single
    then have "List.find (\<lambda>e. trim (en_memory_id e) = ?i) entries = Some e"
      using single_entry [of "\<lambda>e. trim (en_memory_id e) = ?i" entries e] by simp
    with single dup show ?thesis
      by (simp add: migration_entry_of_def Let_def entries_by_id_lookup planned_action_def
          duplicates_set count_list_filter)
  next
    case more
    then show ?thesis
      by (simp add: migration_entry_of_def Let_def planned_action_def duplicates_set count_list_filter)
  qed
qed

text \<open>
  The migration plan is a dry run that decides memory by memory: a migration, always to the initial
  state proposed, is planned exactly for a named memory that occurs once, whose id has one reconciled entry
  and that entry has no chain; a memory with a valid entry needs nothing; every other one is blocked. The
  counts are those of the entries.
\<close>

theorem migration_plan_decides:
  "fst (planLegacyMemoryMigration memories report) = map (\<lambda>m. let i = trim (mem_id m);
       action = planned_action memories (rep_entries report) i in
     \<lparr>mg_memory_id = i, mg_action = action,
      mg_initial_state = (if action = PlanMigration then Some MemProposed else None),
      mg_evidence = sortedUnique (mem_evidence m)\<rparr>) memories
   \<and> snd (planLegacyMemoryMigration memories report) a
     = length (filter (\<lambda>e. mg_action e = a) (fst (planLegacyMemoryMigration memories report)))"
  by (simp add: planLegacyMemoryMigration_def Let_def count_entries migration_entry_planned)

subsection \<open>The properties at a concrete memory\<close>


end
