(* ===== verification/Scheduler.thy ===== *)
theory Scheduler
  imports Stable_Hash
begin

text \<open>
  The scheduler (\<open>scheduler/scheduler-engine.ts\<close>): schedules, the instant each one was last due, and
  the claims of runs. An instant is its number of milliseconds (\<open>getTime\<close>), the value every ISO string
  of the code stands for; the calendar is UTC, where a day has 86400000 of them. Parameters: \<open>parse\<close>
  (\<open>new Date(text)\<close>), \<open>to_iso\<close> (\<open>toISOString\<close>), \<open>hash\<close> (\<open>stableHash\<close>) and the collation \<open>lc\<close>. The abstract
  specification of a schedule is the set of instants at which it occurs; \<open>latestDueAt\<close> is shown to find
  the last of them.
\<close>

section \<open>Data\<close>

datatype schedule_kind = OnceKind | IntervalKind | DailyKind | WeeklyKind
datatype claim_status = Claimed | ClaimCompleted | ClaimFailed

record schedule_input =
  si_id :: string
  si_plan_id :: string
  si_revision_id :: string
  si_kind :: schedule_kind
  si_starts_at :: string
  si_interval :: "js_number option"
  si_time_of_day :: "string option"
  si_day_of_week :: "js_number option"
  si_enabled :: bool

record schedule =
  sc_id :: string
  sc_plan_id :: string
  sc_revision_id :: string
  sc_kind :: schedule_kind
  sc_starts_at :: int
  sc_interval :: "js_number option"
  sc_time_of_day :: "string option"
  sc_day_of_week :: "js_number option"
  sc_enabled :: bool

record run_claim =
  cl_id :: string
  cl_schedule_id :: string
  cl_plan_id :: string
  cl_revision_id :: string
  cl_due_at :: int
  cl_claimed_at :: int
  cl_key :: string
  cl_status :: claim_status

record scheduler_state =
  ss_schedules :: "schedule list"
  ss_claims :: "run_claim list"

datatype schedule_error = InvalidSchedule string | ScheduleNotFound string

section \<open>Validation\<close>

text \<open>The length test is on the text as given, before trimming.\<close>

definition clean_schedule :: "string \<Rightarrow> string \<Rightarrow> schedule_error + string" where
  "clean_schedule v field = (if trim v = [] \<or> length v > 240 then Inl (InvalidSchedule field) else Inr (trim v))"

definition digit_value :: "char \<Rightarrow> nat" where
  "digit_value c = of_char c - 48"

text \<open>\<open>/^([01]\d|2[0-3]):[0-5]\d$/\<close>.\<close>

definition valid_time :: "string \<Rightarrow> bool" where
  "valid_time s = (case s of
     [a, b, c, d, e] \<Rightarrow> is_digit a \<and> is_digit b \<and> c = CHR '':'' \<and> is_digit d \<and> is_digit e
       \<and> (digit_value a \<le> 1 \<or> (digit_value a = 2 \<and> digit_value b \<le> 3)) \<and> digit_value d \<le> 5
   | _ \<Rightarrow> False)"

definition integer_of :: "js_number option \<Rightarrow> int" where
  "integer_of n = (case n of Some (Fin r) \<Rightarrow> \<lfloor>r\<rfloor> | _ \<Rightarrow> 0)"

definition validateSchedule :: "(string \<Rightarrow> int option) \<Rightarrow> schedule_input \<Rightarrow> schedule_error + schedule" where
  "validateSchedule parse i =
     rbind (clean_schedule (si_id i) ''id'') (\<lambda>sid.
     rbind (clean_schedule (si_plan_id i) ''planId'') (\<lambda>plan.
     rbind (clean_schedule (si_revision_id i) ''revisionId'') (\<lambda>rev.
     case parse (si_starts_at i) of
       None \<Rightarrow> Inl (InvalidSchedule ''startsAt'')
     | Some start \<Rightarrow>
         if si_kind i = IntervalKind \<and> (case si_interval i of None \<Rightarrow> True
             | Some n \<Rightarrow> \<not> is_integer_num n \<or> num_lt n (Fin 60000))
         then Inl (InvalidSchedule ''intervalMs'')
         else if (si_kind i = DailyKind \<or> si_kind i = WeeklyKind) \<and> \<not> valid_time (case_option [] id (si_time_of_day i))
         then Inl (InvalidSchedule ''timeOfDayUtc'')
         else if si_kind i = WeeklyKind \<and> (case si_day_of_week i of None \<Rightarrow> True
             | Some n \<Rightarrow> \<not> is_integer_num n \<or> num_lt n (Fin 0) \<or> num_lt (Fin 6) n)
         then Inl (InvalidSchedule ''dayOfWeekUtc'')
         else Inr \<lparr>sc_id = sid, sc_plan_id = plan, sc_revision_id = rev, sc_kind = si_kind i, sc_starts_at = start,
           sc_interval = si_interval i, sc_time_of_day = si_time_of_day i, sc_day_of_week = si_day_of_week i,
           sc_enabled = si_enabled i\<rparr>)))"

section \<open>The last due instant\<close>

definition day_ms :: int where
  "day_ms = 86400000"

definition time_of_day_ms :: "schedule \<Rightarrow> int" where
  "time_of_day_ms s = (case sc_time_of_day s of
     Some [a, b, c, d, e] \<Rightarrow> int (10 * digit_value a + digit_value b) * 3600000
       + int (10 * digit_value d + digit_value e) * 60000
   | _ \<Rightarrow> 0)"

text \<open>\<open>getUTCDay\<close>: day 0 of the epoch was a Thursday.\<close>

definition utc_day :: "int \<Rightarrow> int" where
  "utc_day t = (t div day_ms + 4) mod 7"

text \<open>\<open>setUTCHours(hour, minute, 0, 0)\<close> moves to the time of day on the same UTC day.\<close>

definition at_time_of_day :: "schedule \<Rightarrow> int \<Rightarrow> int" where
  "at_time_of_day s now = now div day_ms * day_ms + time_of_day_ms s"

definition latestDueAt :: "schedule \<Rightarrow> int \<Rightarrow> int option" where
  "latestDueAt s now =
     (let start = sc_starts_at s in
      if start > now then None
      else case sc_kind s of
        OnceKind \<Rightarrow> Some start
      | IntervalKind \<Rightarrow> let interval = integer_of (sc_interval s) in
          Some (start + (now - start) div interval * interval)
      | DailyKind \<Rightarrow>
          let candidate = at_time_of_day s now;
              due = (if candidate > now then candidate - day_ms else candidate) in
          if due < start then None else Some due
      | WeeklyKind \<Rightarrow>
          let candidate = at_time_of_day s now;
              delta = (utc_day candidate - integer_of (sc_day_of_week s) + 7) mod 7;
              delta' = (if delta = 0 \<and> candidate > now then 7 else delta);
              due = candidate - delta' * day_ms in
          if due < start then None else Some due)"

section \<open>Operations\<close>

definition register_schedule ::
  "(string \<Rightarrow> int option) \<Rightarrow> schedule_input \<Rightarrow> scheduler_state \<Rightarrow> schedule_error + (schedule \<times> scheduler_state)" where
  "register_schedule parse i state =
     rbind (validateSchedule parse i) (\<lambda>s.
       if list_ex (\<lambda>item. sc_id item = sc_id s) (ss_schedules state) then Inl (InvalidSchedule ''id'')
       else Inr (s, state\<lparr>ss_schedules := ss_schedules state @ [s]\<rparr>))"

definition runKey :: "(int \<Rightarrow> string) \<Rightarrow> schedule \<Rightarrow> int \<Rightarrow> string" where
  "runKey to_iso s due = ''schedule:'' @ sc_id s @ '':'' @ to_iso due"

definition due_runs :: "(int \<Rightarrow> string) \<Rightarrow> int \<Rightarrow> scheduler_state \<Rightarrow> (schedule \<times> int) list" where
  "due_runs to_iso now state = concat (map (\<lambda>s. case latestDueAt s now of
       None \<Rightarrow> []
     | Some due \<Rightarrow> if runKey to_iso s due \<in> set (map cl_key (ss_claims state)) then [] else [(s, due)])
     (filter sc_enabled (ss_schedules state)))"

definition claim_run :: "(int \<Rightarrow> string) \<Rightarrow> (js_value \<Rightarrow> string) \<Rightarrow> int \<Rightarrow> schedule \<times> int \<Rightarrow> run_claim" where
  "claim_run to_iso hash now run = (let (s, due) = run in
     \<lparr>cl_id = ''scheduled-run:'' @ hash (JObject [(''scheduleId'', JString (sc_id s)), (''dueAt'', JString (to_iso due))]),
      cl_schedule_id = sc_id s, cl_plan_id = sc_plan_id s, cl_revision_id = sc_revision_id s, cl_due_at = due,
      cl_claimed_at = now, cl_key = runKey to_iso s due, cl_status = Claimed\<rparr>)"

definition claimDue ::
  "(int \<Rightarrow> string) \<Rightarrow> (js_value \<Rightarrow> string) \<Rightarrow> string comparator \<Rightarrow> int \<Rightarrow> int \<Rightarrow> scheduler_state
   \<Rightarrow> run_claim list \<times> scheduler_state" where
  "claimDue to_iso hash lc now limit state =
     (let bounded = max 1 (min limit 100);
          due = take (nat bounded) (sort_by (or_else (key snd default) (key (sc_id \<circ> fst) lc)) (due_runs to_iso now state)) in
      if due = [] then ([], state)
      else let claims = map (claim_run to_iso hash now) due in
        (claims, state\<lparr>ss_claims := ss_claims state @ claims\<rparr>))"

definition markTerminal ::
  "string \<Rightarrow> bool \<Rightarrow> scheduler_state \<Rightarrow> schedule_error + (run_claim \<times> scheduler_state)" where
  "markTerminal claim completed state =
     rbind (clean_schedule claim ''claimId'') (\<lambda>cid.
     case List.find (\<lambda>c. cl_id c = cid) (ss_claims state) of
       None \<Rightarrow> Inl (ScheduleNotFound cid)
     | Some c \<Rightarrow>
         if cl_status c \<noteq> Claimed then Inr (c, state)
         else let next = c\<lparr>cl_status := (if completed then ClaimCompleted else ClaimFailed)\<rparr> in
           Inr (next, state\<lparr>ss_claims := map (\<lambda>item. if cl_id item = cid then next else item) (ss_claims state)\<rparr>))"

section \<open>The specification of a schedule\<close>

definition occurs :: "schedule \<Rightarrow> int \<Rightarrow> bool" where
  "occurs s t \<longleftrightarrow> sc_starts_at s \<le> t \<and> (case sc_kind s of
     OnceKind \<Rightarrow> t = sc_starts_at s
   | IntervalKind \<Rightarrow> (t - sc_starts_at s) mod integer_of (sc_interval s) = 0
   | DailyKind \<Rightarrow> t mod day_ms = time_of_day_ms s
   | WeeklyKind \<Rightarrow> t mod day_ms = time_of_day_ms s \<and> utc_day t = integer_of (sc_day_of_week s))"

text \<open>What validation guarantees.\<close>

definition schedule_ok :: "schedule \<Rightarrow> bool" where
  "schedule_ok s \<longleftrightarrow> (case sc_kind s of
     OnceKind \<Rightarrow> True
   | IntervalKind \<Rightarrow> 60000 \<le> integer_of (sc_interval s)
   | DailyKind \<Rightarrow> 0 \<le> time_of_day_ms s \<and> time_of_day_ms s < day_ms
   | WeeklyKind \<Rightarrow> 0 \<le> time_of_day_ms s \<and> time_of_day_ms s < day_ms
       \<and> 0 \<le> integer_of (sc_day_of_week s) \<and> integer_of (sc_day_of_week s) \<le> 6)"

lemma valid_time_range:
  assumes "valid_time t" and "sc_time_of_day s = Some t"
  shows "0 \<le> time_of_day_ms s \<and> time_of_day_ms s < day_ms"
proof -
  obtain a b c d e where t: "t = [a, b, c, d, e]" and digits: "is_digit b" "is_digit e"
    and hour: "digit_value a \<le> 1 \<or> (digit_value a = 2 \<and> digit_value b \<le> 3)" and "digit_value d \<le> 5"
    using assms(1) by (auto simp: valid_time_def split: list.splits)
  moreover from digits have "digit_value b \<le> 9" "digit_value e \<le> 9"
    by (auto simp: is_digit_def digit_value_def)
  ultimately have "10 * digit_value a + digit_value b \<le> 23" "10 * digit_value d + digit_value e \<le> 59" by auto
  then show ?thesis using assms(2) t by (simp add: time_of_day_ms_def day_ms_def)
qed

lemma integer_of_ge: "is_integer_num n \<Longrightarrow> \<not> num_lt n (Fin (of_int k)) \<Longrightarrow> k \<le> integer_of (Some n)"
  by (cases n) (auto simp: is_integer_num_def integer_of_def le_floor_iff)

lemma integer_of_le: "is_integer_num n \<Longrightarrow> \<not> num_lt (Fin (of_int k)) n \<Longrightarrow> integer_of (Some n) \<le> k"
  by (cases n) (auto simp: is_integer_num_def integer_of_def floor_le_iff)

lemma validateSchedule_Inr:
  assumes "validateSchedule parse i = Inr s"
  shows "sc_kind s = si_kind i" "sc_interval s = si_interval i" "sc_time_of_day s = si_time_of_day i"
    "sc_day_of_week s = si_day_of_week i" "sc_id s = trim (si_id i)"
    "si_kind i = IntervalKind \<Longrightarrow> \<exists>n. si_interval i = Some n \<and> is_integer_num n \<and> \<not> num_lt n (Fin 60000)"
    "si_kind i = DailyKind \<or> si_kind i = WeeklyKind \<Longrightarrow> valid_time (case_option [] id (si_time_of_day i))"
    "si_kind i = WeeklyKind \<Longrightarrow> \<exists>n. si_day_of_week i = Some n \<and> is_integer_num n \<and> \<not> num_lt n (Fin 0) \<and> \<not> num_lt (Fin 6) n"
  using assms unfolding validateSchedule_def
  by (auto simp: rbind_Inr_iff clean_schedule_def split: option.split_asm if_split_asm)

lemma validateSchedule_ok:
  assumes "validateSchedule parse i = Inr s"
  shows "schedule_ok s"
proof -
  note v = validateSchedule_Inr [OF assms]
  have time: "0 \<le> time_of_day_ms s \<and> time_of_day_ms s < day_ms" if "sc_kind s = DailyKind \<or> sc_kind s = WeeklyKind"
  proof (cases "si_time_of_day i")
    case None
    with v(7) that v(1) show ?thesis by (simp add: valid_time_def)
  next
    case (Some t)
    with v(7) that v(1,3) valid_time_range [of t s] show ?thesis by simp
  qed
  show ?thesis
  proof (cases "sc_kind s")
    case IntervalKind
    with v(1,2,6) integer_of_ge [of _ 60000] show ?thesis by (auto simp: schedule_ok_def)
  next
    case WeeklyKind
    with v(1,4,8) integer_of_ge [of _ 0] integer_of_le [of _ 6] time show ?thesis by (auto simp: schedule_ok_def)
  qed (use time in \<open>simp_all add: schedule_ok_def\<close>)
qed

text \<open>Of the instants congruent to \<open>due\<close>, none lies between \<open>due\<close> and the end of its period.\<close>

lemma last_of_period:
  fixes t :: int
  assumes "(t - due) mod p = 0" and "t \<le> now" and "now < due + p" and "0 < p"
  shows "t \<le> due"
proof -
  from assms(1) obtain k where k: "t - due = p * k" by (metis dvd_def dvd_eq_mod_eq_0)
  have "k \<le> 0"
  proof (rule ccontr)
    assume "\<not> k \<le> 0"
    then have "p * 1 \<le> p * k" using assms(4) by (intro mult_left_mono) auto
    with k assms(2,3) show False by simp
  qed
  then have "p * k \<le> 0" using assms(4) by (simp add: mult_nonneg_nonpos)
  with k show ?thesis by simp
qed

lemma day_ms_pos: "0 < day_ms" by (simp add: day_ms_def)

lemma time_of_day_parts:
  assumes "0 \<le> tod" and "tod < day_ms"
  shows "(q * day_ms + tod) mod day_ms = tod" and "(q * day_ms + tod) div day_ms = q"
  using assms by (simp_all add: day_ms_pos)

text \<open>\<open>latestDueAt\<close> answers the last occurrence, when there is one.\<close>

definition last_occurrence :: "schedule \<Rightarrow> int \<Rightarrow> int \<Rightarrow> bool" where
  "last_occurrence s now d \<longleftrightarrow> occurs s d \<and> d \<le> now \<and> (\<forall>t. occurs s t \<longrightarrow> t \<le> now \<longrightarrow> t \<le> d)"

lemma latest_interval:
  assumes "sc_kind s = IntervalKind" and "60000 \<le> integer_of (sc_interval s)" and "sc_starts_at s \<le> now"
  shows "last_occurrence s now (sc_starts_at s
    + (now - sc_starts_at s) div integer_of (sc_interval s) * integer_of (sc_interval s))"
proof -
  let ?i = "integer_of (sc_interval s)" and ?a = "sc_starts_at s"
  let ?d = "?a + (now - ?a) div ?i * ?i"
  have i: "0 < ?i" using assms(2) by simp
  have "0 \<le> (now - ?a) div ?i" using assms(3) i by (simp add: pos_imp_zdiv_nonneg_iff)
  then have "0 \<le> (now - ?a) div ?i * ?i" using i by simp
  moreover have parts: "(now - ?a) div ?i * ?i + (now - ?a) mod ?i = now - ?a" by (rule div_mult_mod_eq)
  moreover have "0 \<le> (now - ?a) mod ?i" "(now - ?a) mod ?i < ?i" using i by simp_all
  ultimately have d: "?a \<le> ?d" "?d \<le> now" "now < ?d + ?i" by linarith+
  have "t \<le> ?d" if "occurs s t" "t \<le> now" for t
  proof (rule last_of_period [OF _ that(2) d(3) i])
    from that(1) assms(1) have t: "(t - ?a) mod ?i = 0" by (simp add: occurs_def)
    then obtain k where "t - ?a = ?i * k" by (metis dvd_def dvd_eq_mod_eq_0)
    then have "t - ?d = ?i * (k - (now - ?a) div ?i)" by (simp add: right_diff_distrib)
    then show "(t - ?d) mod ?i = 0" by simp
  qed
  with d show ?thesis using assms(1) by (simp add: last_occurrence_def occurs_def)
qed

lemma day_bounds: "now div day_ms * day_ms \<le> now" "now < now div day_ms * day_ms + day_ms"
proof -
  have "now div day_ms * day_ms + now mod day_ms = now" "0 \<le> now mod day_ms" "now mod day_ms < day_ms"
    using day_ms_pos by simp_all
  then show "now div day_ms * day_ms \<le> now" "now < now div day_ms * day_ms + day_ms" by linarith+
qed

lemma weekday_back:
  fixes x d :: int
  shows "(x - ((x mod 7 - d + 7) mod 7) - d) mod 7 = 0"
    and "(x mod 7 - d + 7) mod 7 = 0 \<Longrightarrow> (x - 7 - d) mod 7 = 0"
  by presburger+

lemma weekday_of:
  fixes x e d :: int
  assumes "0 \<le> d" and "d \<le> 6" and "(x + 4 - e - d) mod 7 = 0"
  shows "(x - e + 4) mod 7 = d"
proof -
  from assms(3) obtain k where "x + 4 - e - d = 7 * k" by (metis dvd_def dvd_eq_mod_eq_0)
  then have "x - e + 4 = d + 7 * k" by simp
  then have "(x - e + 4) mod 7 = (d + 7 * k) mod 7" by (simp only:)
  with assms(1,2) show ?thesis by simp
qed

lemma same_weekday:
  fixes x y d :: int
  shows "(x + 4) mod 7 = d \<Longrightarrow> (y + 4) mod 7 = d \<Longrightarrow> (x - y) mod 7 = 0"
  by presburger

lemma weekly_bounds:
  fixes q n r :: int
  assumes "q * n \<le> now" and "now < q * n + n" and "0 \<le> r" and "r < n" and "0 \<le> d" and "d \<le> 6"
  shows "q * n + r - (if d = 0 \<and> q * n + r > now then 7 else d) * n \<le> now"
    and "now < q * n + r - (if d = 0 \<and> q * n + r > now then 7 else d) * n + 7 * n"
proof -
  have "d = 0 \<or> (1 * n \<le> d * n \<and> d * n \<le> 6 * n)"
    using assms by (cases "d = 0") (auto intro!: mult_right_mono simp del: mult_cancel_right)
  then have d: "d = 0 \<or> (d \<noteq> 0 \<and> n \<le> d * n \<and> d * n \<le> 6 * n)" by auto
  show "q * n + r - (if d = 0 \<and> q * n + r > now then 7 else d) * n \<le> now"
  proof (cases "d = 0")
    case True
    with assms show ?thesis by simp
  next
    case False
    with d have "n \<le> d * n" by blast
    with assms have "q * n + r - d * n \<le> now" by linarith
    with False show ?thesis by simp
  qed
  show "now < q * n + r - (if d = 0 \<and> q * n + r > now then 7 else d) * n + 7 * n"
  proof (cases "d = 0")
    case True
    with assms show ?thesis by simp
  next
    case False
    with d have "d * n \<le> 6 * n" by blast
    with assms have "now < q * n + r - d * n + 7 * n" by linarith
    with False show ?thesis by simp
  qed
qed

lemma latest_daily:
  assumes kind: "sc_kind s = DailyKind" and tod: "0 \<le> time_of_day_ms s" "time_of_day_ms s < day_ms"
    and due: "due = (if at_time_of_day s now > now then at_time_of_day s now - day_ms else at_time_of_day s now)"
  shows "if due < sc_starts_at s then \<forall>t. occurs s t \<longrightarrow> \<not> t \<le> now else last_occurrence s now due"
proof -
  let ?tod = "time_of_day_ms s" and ?q = "now div day_ms"
  have now: "?q * day_ms \<le> now" "now < ?q * day_ms + day_ms" by (rule day_bounds)+
  define p where "p = (if at_time_of_day s now > now then ?q - 1 else ?q)"
  have due_p: "due = p * day_ms + ?tod" by (simp add: due p_def at_time_of_day_def left_diff_distrib)
  have bounds: "due \<le> now" "now < due + day_ms"
    using now tod by (auto simp: due at_time_of_day_def split: if_splits)
  have "t \<le> due" if "occurs s t" "t \<le> now" for t
  proof (rule last_of_period [OF _ that(2) bounds(2) day_ms_pos])
    have "t mod day_ms = ?tod" using that(1) kind by (simp add: occurs_def)
    moreover have "due mod day_ms = ?tod" unfolding due_p by (rule time_of_day_parts [OF tod])
    ultimately show "(t - due) mod day_ms = 0" by (simp only: mod_eq_dvd_iff [symmetric] dvd_eq_mod_eq_0 [symmetric])
  qed
  moreover have "due mod day_ms = ?tod" unfolding due_p by (rule time_of_day_parts [OF tod])
  ultimately show ?thesis
    using bounds kind by (fastforce simp: last_occurrence_def occurs_def)
qed

lemma latest_weekly:
  assumes kind: "sc_kind s = WeeklyKind" and tod: "0 \<le> time_of_day_ms s" "time_of_day_ms s < day_ms"
    and day: "0 \<le> integer_of (sc_day_of_week s)" "integer_of (sc_day_of_week s) \<le> 6"
    and delta: "delta = (utc_day (at_time_of_day s now) - integer_of (sc_day_of_week s) + 7) mod 7"
    and due: "due = at_time_of_day s now - (if delta = 0 \<and> at_time_of_day s now > now then 7 else delta) * day_ms"
  shows "if due < sc_starts_at s then \<forall>t. occurs s t \<longrightarrow> \<not> t \<le> now else last_occurrence s now due"
proof -
  let ?tod = "time_of_day_ms s" and ?q = "now div day_ms" and ?day = "integer_of (sc_day_of_week s)"
  let ?delta = "if delta = 0 \<and> at_time_of_day s now > now then 7 else delta"
  have now: "?q * day_ms \<le> now" "now < ?q * day_ms + day_ms" by (rule day_bounds)+
  have delta_range: "0 \<le> delta" "delta \<le> 6" by (simp_all add: delta)
  have due_p: "due = (?q - ?delta) * day_ms + ?tod" by (simp add: due at_time_of_day_def left_diff_distrib)
  have parts: "due mod day_ms = ?tod" "due div day_ms = ?q - ?delta"
    unfolding due_p by (rule time_of_day_parts [OF tod])+
  have "utc_day (at_time_of_day s now) = (?q + 4) mod 7"
    using time_of_day_parts(2) [OF tod, of ?q] by (simp add: utc_day_def at_time_of_day_def)
  then have d: "delta = ((?q + 4) mod 7 - ?day + 7) mod 7" by (simp only: delta)
  have congruent: "(?q + 4 - ?delta - ?day) mod 7 = 0"
  proof (cases "delta = 0 \<and> at_time_of_day s now > now")
    case True
    then have e: "?delta = 7" by simp
    from True have z: "((?q + 4) mod 7 - ?day + 7) mod 7 = 0" using d by argo
    show ?thesis unfolding e by (rule weekday_back(2) [OF z])
  next
    case False
    then have e: "?delta = delta" by argo
    show ?thesis unfolding e unfolding d by (rule weekday_back(1))
  qed
  have weekday: "utc_day due = ?day"
    unfolding utc_day_def parts(2) by (rule weekday_of [OF day congruent])
  have bounds: "due \<le> now" "now < due + 7 * day_ms"
    unfolding due at_time_of_day_def by (rule weekly_bounds [OF now tod delta_range])+
  have "t \<le> due" if "occurs s t" "t \<le> now" for t
  proof (rule last_of_period [OF _ that(2) bounds(2)])
    have t: "t mod day_ms = ?tod" "utc_day t = ?day" using that(1) kind by (simp_all add: occurs_def)
    then have "(t div day_ms - due div day_ms) mod 7 = 0"
      using weekday unfolding utc_day_def by (intro same_weekday)
    then obtain k where k: "t div day_ms - due div day_ms = 7 * k" by (metis dvd_def dvd_eq_mod_eq_0)
    have "t - due = (t div day_ms - due div day_ms) * day_ms"
      using div_mult_mod_eq [of t day_ms] div_mult_mod_eq [of due day_ms] t(1) parts(1)
      by (simp add: left_diff_distrib)
    with k have "t - due = k * (7 * day_ms)" by simp
    then show "(t - due) mod (7 * day_ms) = 0" by simp
  qed (simp add: day_ms_pos)
  then show ?thesis
    using bounds kind parts(1) weekday by (fastforce simp: last_occurrence_def occurs_def)
qed

lemma latestDueAt_last:
  assumes "schedule_ok s"
  shows "case latestDueAt s now of
      None \<Rightarrow> \<forall>t. occurs s t \<longrightarrow> \<not> t \<le> now
    | Some d \<Rightarrow> last_occurrence s now d"
proof (cases "sc_starts_at s > now")
  case True
  then show ?thesis by (auto simp: latestDueAt_def occurs_def)
next
  case False
  show ?thesis
  proof (cases "sc_kind s")
    case OnceKind
    with False show ?thesis by (auto simp: latestDueAt_def last_occurrence_def occurs_def)
  next
    case IntervalKind
    with False assms latest_interval [of s now] show ?thesis
      by (simp add: latestDueAt_def Let_def schedule_ok_def)
  next
    case DailyKind
    with False assms latest_daily [OF DailyKind, of _ now] show ?thesis
      by (simp add: latestDueAt_def Let_def schedule_ok_def)
  next
    case WeeklyKind
    with False assms latest_weekly [OF WeeklyKind, of _ now] show ?thesis
      by (simp add: latestDueAt_def Let_def schedule_ok_def)
  qed
qed

section \<open>Runs and the state of the scheduler\<close>

text \<open>
  The key of a run determines the schedule and the instant: an ISO instant is the part after the last
  separator, and different instants print differently.
\<close>

definition separates_runs :: "(int \<Rightarrow> string) \<Rightarrow> bool" where
  "separates_runs to_iso \<longleftrightarrow> (\<forall>i j s t. i @ '':'' @ to_iso s = j @ '':'' @ to_iso t \<longrightarrow> i = j \<and> s = t)"

definition claim_id :: "(int \<Rightarrow> string) \<Rightarrow> (js_value \<Rightarrow> string) \<Rightarrow> string \<Rightarrow> int \<Rightarrow> string" where
  "claim_id to_iso hash i due =
     ''scheduled-run:'' @ hash (JObject [(''scheduleId'', JString i), (''dueAt'', JString (to_iso due))])"

text \<open>The digest of a claim's id tells runs apart.\<close>

definition separates_claims :: "(int \<Rightarrow> string) \<Rightarrow> (js_value \<Rightarrow> string) \<Rightarrow> bool" where
  "separates_claims to_iso hash \<longleftrightarrow> (\<forall>i j s t. claim_id to_iso hash i s = claim_id to_iso hash j t \<longrightarrow> i = j \<and> s = t)"

datatype scheduler_call = RegisterCall schedule_input | ClaimCall int int | MarkCall string bool

fun scheduler_step ::
  "(string \<Rightarrow> int option) \<Rightarrow> (int \<Rightarrow> string) \<Rightarrow> (js_value \<Rightarrow> string) \<Rightarrow> string comparator \<Rightarrow> scheduler_call
   \<Rightarrow> scheduler_state \<Rightarrow> scheduler_state" where
  "scheduler_step parse to_iso hash lc (RegisterCall i) st =
     (case register_schedule parse i st of Inl _ \<Rightarrow> st | Inr (_, st') \<Rightarrow> st')"
| "scheduler_step parse to_iso hash lc (ClaimCall now limit) st = snd (claimDue to_iso hash lc now limit st)"
| "scheduler_step parse to_iso hash lc (MarkCall c completed) st =
     (case markTerminal c completed st of Inl _ \<Rightarrow> st | Inr (_, st') \<Rightarrow> st')"

definition claim_ok :: "(int \<Rightarrow> string) \<Rightarrow> (js_value \<Rightarrow> string) \<Rightarrow> schedule list \<Rightarrow> run_claim \<Rightarrow> bool" where
  "claim_ok to_iso hash schedules c \<longleftrightarrow> cl_id c = claim_id to_iso hash (cl_schedule_id c) (cl_due_at c)
     \<and> cl_key c = ''schedule:'' @ cl_schedule_id c @ '':'' @ to_iso (cl_due_at c)
     \<and> (\<exists>s\<in>set schedules. sc_id s = cl_schedule_id c \<and> sc_plan_id s = cl_plan_id c \<and> sc_revision_id s = cl_revision_id c
          \<and> sc_enabled s \<and> last_occurrence s (cl_claimed_at c) (cl_due_at c))"

definition scheduler_inv :: "(int \<Rightarrow> string) \<Rightarrow> (js_value \<Rightarrow> string) \<Rightarrow> scheduler_state \<Rightarrow> bool" where
  "scheduler_inv to_iso hash st \<longleftrightarrow> distinct (map sc_id (ss_schedules st)) \<and> (\<forall>s\<in>set (ss_schedules st). schedule_ok s)
     \<and> distinct (map cl_key (ss_claims st)) \<and> (\<forall>c\<in>set (ss_claims st). claim_ok to_iso hash (ss_schedules st) c)"

lemma due_runs_mem:
  "(s, d) \<in> set (due_runs to_iso now st) \<longleftrightarrow> s \<in> set (ss_schedules st) \<and> sc_enabled s
     \<and> latestDueAt s now = Some d \<and> runKey to_iso s d \<notin> set (map cl_key (ss_claims st))"
proof -
  let ?f = "\<lambda>s. case latestDueAt s now of None \<Rightarrow> []
     | Some due \<Rightarrow> if runKey to_iso s due \<in> set (map cl_key (ss_claims st)) then [] else [(s, due)]"
  have "(s, d) \<in> set (?f x) \<longleftrightarrow> x = s \<and> latestDueAt s now = Some d \<and> runKey to_iso s d \<notin> set (map cl_key (ss_claims st))" for x
    by (auto split: option.split)
  then have "(\<exists>x\<in>set (filter sc_enabled (ss_schedules st)). (s, d) \<in> set (?f x)) \<longleftrightarrow> s \<in> set (ss_schedules st) \<and> sc_enabled s
     \<and> latestDueAt s now = Some d \<and> runKey to_iso s d \<notin> set (map cl_key (ss_claims st))"
    by auto
  then show ?thesis by (simp add: due_runs_def)
qed

lemma distinct_concat_singletons:
  fixes f :: "'a \<Rightarrow> 'b list" and g :: "'a \<Rightarrow> 'b"
  assumes "distinct (map g xs)" and "\<And>s. f s = [] \<or> f s = [g s]"
  shows "distinct (concat (map f xs))"
  using assms(1)
proof (induction xs)
  case (Cons x xs)
  have "set (concat (map f xs)) \<subseteq> g ` set xs"
  proof
    fix y
    assume "y \<in> set (concat (map f xs))"
    then obtain s where "s \<in> set xs" "y \<in> set (f s)" by auto
    with assms(2) [of s] show "y \<in> g ` set xs" by auto
  qed
  moreover from Cons.prems have "g x \<notin> g ` set xs" by simp
  moreover from Cons have "distinct (concat (map f xs))" by simp
  ultimately show ?case using assms(2) [of x] by (elim disjE) auto
qed simp

lemma due_runs_schedules:
  assumes "distinct (map sc_id (ss_schedules st))"
  shows "distinct (map (sc_id \<circ> fst) (due_runs to_iso now st))"
proof -
  let ?f = "\<lambda>s. map (sc_id \<circ> fst) (case latestDueAt s now of None \<Rightarrow> []
     | Some due \<Rightarrow> if runKey to_iso s due \<in> set (map cl_key (ss_claims st)) then [] else [(s, due)])"
  have "distinct (map sc_id (filter sc_enabled (ss_schedules st)))" using assms by (simp add: distinct_map inj_on_def)
  then have "distinct (concat (map ?f (filter sc_enabled (ss_schedules st))))"
    by (rule distinct_concat_singletons) (simp split: option.split)
  then show ?thesis unfolding due_runs_def by (simp only: map_concat map_map comp_def)
qed

lemma sorted_runs_distinct:
  assumes "distinct (map f xs)"
  shows "distinct (map f (take n (sort_by c xs)))"
proof -
  have "mset (map f (sort_by c xs)) = mset (map f xs)" by simp
  then have "distinct (map f (sort_by c xs))" using assms by (metis distinct_count_atmost_1 set_mset_mset)
  then show ?thesis by (metis distinct_take take_map)
qed

lemma claimDue_inv:
  assumes inv: "scheduler_inv to_iso hash st" and sep: "separates_runs to_iso"
  shows "scheduler_inv to_iso hash (snd (claimDue to_iso hash lc now limit st))"
proof -
  obtain due where due: "due = take (nat (max 1 (min limit 100)))
      (sort_by (or_else (key snd default) (key (sc_id \<circ> fst) lc)) (due_runs to_iso now st))" by simp
  let ?claims = "map (claim_run to_iso hash now) due"
  have sub: "set due \<subseteq> set (due_runs to_iso now st)" using set_take_subset by (fastforce simp: due)
  have run: "cl_key (claim_run to_iso hash now r) = runKey to_iso (fst r) (snd r)" for r
    by (cases r) (simp add: claim_run_def)
  have "distinct (map (sc_id \<circ> fst) due)"
    unfolding due using inv by (intro sorted_runs_distinct due_runs_schedules) (simp add: scheduler_inv_def)
  then have keys: "distinct (map cl_key ?claims)"
    using sep by (auto simp: distinct_map inj_on_def run runKey_def separates_runs_def)
  have fresh: "set (map cl_key ?claims) \<inter> set (map cl_key (ss_claims st)) = {}"
  proof -
    have "cl_key (claim_run to_iso hash now r) \<notin> set (map cl_key (ss_claims st))" if "r \<in> set due" for r
      using sub that due_runs_mem [of "fst r" "snd r" to_iso now st] unfolding run by auto
    then show ?thesis by auto
  qed
  have "claim_ok to_iso hash (ss_schedules st) c" if "c \<in> set ?claims" for c
  proof -
    from that obtain s d where c: "c = claim_run to_iso hash now (s, d)" and "(s, d) \<in> set due" by auto
    with sub have mem: "s \<in> set (ss_schedules st)" "sc_enabled s" "latestDueAt s now = Some d"
      using due_runs_mem [of s d to_iso now st] by blast+
    then have "last_occurrence s now d"
      using latestDueAt_last [of s now] inv by (auto simp: scheduler_inv_def)
    with mem show ?thesis by (auto simp: c claim_ok_def claim_run_def runKey_def claim_id_def)
  qed
  with keys fresh inv have "scheduler_inv to_iso hash (st\<lparr>ss_claims := ss_claims st @ ?claims\<rparr>)"
    by (auto simp: scheduler_inv_def)
  with inv show ?thesis by (auto simp: claimDue_def Let_def due [symmetric])
qed

lemma claim_ok_mono: "claim_ok to_iso hash ss c \<Longrightarrow> claim_ok to_iso hash (ss @ [s]) c"
  by (auto simp: claim_ok_def)

lemma scheduler_step_inv:
  assumes inv: "scheduler_inv to_iso hash st" and sep: "separates_runs to_iso" "separates_claims to_iso hash"
  shows "scheduler_inv to_iso hash (scheduler_step parse to_iso hash lc call st)"
proof (cases call)
  case (RegisterCall i)
  show ?thesis
  proof (cases "register_schedule parse i st")
    case (Inr r)
    then obtain s where s: "validateSchedule parse i = Inr s" "\<not> list_ex (\<lambda>item. sc_id item = sc_id s) (ss_schedules st)"
      "r = (s, st\<lparr>ss_schedules := ss_schedules st @ [s]\<rparr>)"
      by (auto simp: register_schedule_def rbind_Inr_iff split: if_split_asm)
    with inv validateSchedule_ok [OF s(1)] show ?thesis
      by (auto simp: RegisterCall Inr scheduler_inv_def list_ex_iff intro: claim_ok_mono)
  qed (simp add: RegisterCall inv)
next
  case (ClaimCall now limit)
  with claimDue_inv [OF inv sep(1)] show ?thesis by simp
next
  case (MarkCall c completed)
  show ?thesis
  proof (cases "markTerminal c completed st")
    case (Inr r)
    then consider "snd r = st"
      | x where "List.find (\<lambda>x. cl_id x = trim c) (ss_claims st) = Some x"
        "snd r = st\<lparr>ss_claims := map (\<lambda>item. if cl_id item = trim c
          then x\<lparr>cl_status := (if completed then ClaimCompleted else ClaimFailed)\<rparr> else item) (ss_claims st)\<rparr>"
      by (auto simp: markTerminal_def rbind_Inr_iff clean_schedule_def Let_def split: option.split_asm if_split_asm)
    then show ?thesis
    proof cases
      case 1
      with inv Inr MarkCall show ?thesis by (cases r) simp
    next
      case 2
      have same: "item = x" if "item \<in> set (ss_claims st)" "cl_id item = trim c" for item
      proof -
        from find_Some_D [OF 2(1)] have x: "x \<in> set (ss_claims st)" "cl_id x = trim c" by simp_all
        with that inv sep(2) have "cl_schedule_id item = cl_schedule_id x \<and> cl_due_at item = cl_due_at x"
          unfolding scheduler_inv_def claim_ok_def separates_claims_def by metis
        with that x inv have "cl_key item = cl_key x" by (simp add: scheduler_inv_def claim_ok_def)
        with that x inv show ?thesis by (auto simp: scheduler_inv_def distinct_map dest: inj_onD)
      qed
      let ?f = "\<lambda>item. if cl_id item = trim c
          then x\<lparr>cl_status := (if completed then ClaimCompleted else ClaimFailed)\<rparr> else item"
      have keys: "map cl_key (map ?f (ss_claims st)) = map cl_key (ss_claims st)"
        using same by auto
      have "claim_ok to_iso hash (ss_schedules st) (?f item)" if "item \<in> set (ss_claims st)" for item
        using inv that same [OF that] by (auto simp: scheduler_inv_def claim_ok_def)
      then have ok: "\<forall>c\<in>set (map ?f (ss_claims st)). claim_ok to_iso hash (ss_schedules st) c"
        unfolding list.set_map by blast
      have parts: "ss_schedules (snd r) = ss_schedules st" "ss_claims (snd r) = map ?f (ss_claims st)"
        unfolding 2(2) by simp_all
      have "scheduler_inv to_iso hash (snd r)"
        unfolding scheduler_inv_def parts keys using ok inv by (blast dest: scheduler_inv_def [THEN iffD1])
      with Inr MarkCall show ?thesis by (cases r) simp
    qed
  qed (simp add: MarkCall inv)
qed

lemma scheduler_run_inv:
  assumes "separates_runs to_iso" and "separates_claims to_iso hash"
  shows "scheduler_inv to_iso hash (fold (scheduler_step parse to_iso hash lc) calls \<lparr>ss_schedules = [], ss_claims = []\<rparr>)"
proof (induction calls rule: rev_induct)
  case Nil
  show ?case by (simp add: scheduler_inv_def)
next
  case (snoc call calls)
  with scheduler_step_inv [OF snoc assms] show ?case by simp
qed

text \<open>C35. For a validated schedule, \<open>latestDueAt\<close> computes the last instant up to now at which the schedule occurs
  (once, every interval from the start, at a time of every UTC day, or at a time of a UTC weekday) and
  not before it starts; it answers none exactly when there is no such instant.\<close>

theorem latestDueAt_correct:
  assumes "validateSchedule parse i = Inr s"
  shows "case latestDueAt s now of
      None \<Rightarrow> \<forall>t. occurs s t \<longrightarrow> \<not> t \<le> now
    | Some d \<Rightarrow> occurs s d \<and> d \<le> now \<and> (\<forall>t. occurs s t \<longrightarrow> t \<le> now \<longrightarrow> t \<le> d)"
  using latestDueAt_last [OF validateSchedule_ok [OF assms], of now]
  by (simp add: last_occurrence_def split: option.splits)

text \<open>Mondays at 09:30 UTC, asked on the Wednesday 1970-01-21 at midnight: Monday 1970-01-19 at 09:30.\<close>

definition weekly_input :: schedule_input where
  "weekly_input = \<lparr>si_id = ''w'', si_plan_id = ''p'', si_revision_id = ''r'', si_kind = WeeklyKind, si_starts_at = ''0'',
     si_interval = None, si_time_of_day = Some ''09:30'', si_day_of_week = Some (Fin 1), si_enabled = True\<rparr>"

definition weekly_schedule :: schedule where
  "weekly_schedule = \<lparr>sc_id = ''w'', sc_plan_id = ''p'', sc_revision_id = ''r'', sc_kind = WeeklyKind, sc_starts_at = 0,
     sc_interval = None, sc_time_of_day = Some ''09:30'', sc_day_of_week = Some (Fin 1), sc_enabled = True\<rparr>"

lemma weekly_valid: "validateSchedule (\<lambda>t. Some 0) weekly_input = Inr weekly_schedule"
proof -
  have "clean_schedule ''w'' f = Inr ''w''" "clean_schedule ''p'' f = Inr ''p''" "clean_schedule ''r'' f = Inr ''r''" for f
    by code_simp+
  moreover have "valid_time ''09:30''" by code_simp
  moreover have "is_integer_num (Fin 1)" by (simp add: is_integer_num_def)
  ultimately show ?thesis
    by (simp add: validateSchedule_def weekly_input_def weekly_schedule_def)
qed

lemma weekly_due: "latestDueAt weekly_schedule 1728000000 = Some 1589400000"
proof -
  have "time_of_day_ms weekly_schedule = 34200000" by (simp add: time_of_day_ms_def weekly_schedule_def digit_value_def)
  moreover have "integer_of (sc_day_of_week weekly_schedule) = 1" by (simp add: integer_of_def weekly_schedule_def)
  moreover have "sc_kind weekly_schedule = WeeklyKind" "sc_starts_at weekly_schedule = 0" by (simp_all add: weekly_schedule_def)
  ultimately show ?thesis
    by (simp add: latestDueAt_def at_time_of_day_def day_ms_def utc_day_def)
qed

theorem latestDueAt_correct_witness:
  "occurs weekly_schedule 1589400000 \<and> \<not> (\<exists>t. occurs weekly_schedule t \<and> 1589400000 < t \<and> t \<le> 1728000000)"
  using latestDueAt_correct [OF weekly_valid, of 1728000000] by (auto simp: weekly_due)

text \<open>C34. Over any sequence of registrations, claims and terminal marks, starting empty: every claim is of an
  enabled schedule, at the plan and revision it names, at its last occurrence when it was claimed, and no
  two claims are of the same schedule and instant, whatever the clocks and limits given.\<close>

theorem each_run_claimed_once:
  assumes "separates_runs to_iso" and "separates_claims to_iso hash"
    and "st = fold (scheduler_step parse to_iso hash lc) calls \<lparr>ss_schedules = [], ss_claims = []\<rparr>"
  shows "distinct (map (\<lambda>c. (cl_schedule_id c, cl_due_at c)) (ss_claims st))
    \<and> (\<forall>c\<in>set (ss_claims st). \<exists>s\<in>set (ss_schedules st). sc_id s = cl_schedule_id c \<and> sc_enabled s
      \<and> sc_plan_id s = cl_plan_id c \<and> sc_revision_id s = cl_revision_id c
      \<and> last_occurrence s (cl_claimed_at c) (cl_due_at c))"
proof -
  have inv: "scheduler_inv to_iso hash st"
    unfolding assms(3) by (rule scheduler_run_inv [OF assms(1,2)])
  have "cl_key c = cl_key d" if "c \<in> set (ss_claims st)" "d \<in> set (ss_claims st)"
    "cl_schedule_id c = cl_schedule_id d" "cl_due_at c = cl_due_at d" for c d
    using inv that by (auto simp: scheduler_inv_def claim_ok_def)
  with inv have "distinct (map (\<lambda>c. (cl_schedule_id c, cl_due_at c)) (ss_claims st))"
    unfolding scheduler_inv_def distinct_map inj_on_def by (metis prod.inject)
  with inv show ?thesis by (auto simp: scheduler_inv_def claim_ok_def)
qed

text \<open>Instants in unary, marked with their sign, and an injective digest, on a run of four calls: the second
  claim of the same instant answers nothing new.\<close>

definition unary_iso :: "int \<Rightarrow> string" where
  "unary_iso t = (if t < 0 then CHR ''n'' # replicate (nat (- t)) CHR ''1'' else CHR ''p'' # replicate (nat t) CHR ''1'')"

definition pair_digest :: "js_value \<Rightarrow> string" where
  "pair_digest v = (case v of JObject [(_, JString i), (_, JString d)] \<Rightarrow> i @ '':'' @ d | _ \<Rightarrow> [])"

lemma unary_iso_inj: "unary_iso s = unary_iso t \<Longrightarrow> s = t"
  by (auto simp: unary_iso_def dest!: arg_cong [where f = length] split: if_split_asm)

lemma last_separator:
  assumes "i @ c # u = j @ c # v" and "c \<notin> set u" and "c \<notin> set v"
  shows "i = j \<and> u = v"
proof -
  from assms(1) have "rev u @ c # rev i = rev v @ c # rev j" by (metis append.assoc append_Cons append_Nil rev.simps(2) rev_append)
  moreover have "takeWhile (\<lambda>x. x \<noteq> c) (rev u @ c # r) = rev u" "takeWhile (\<lambda>x. x \<noteq> c) (rev v @ c # r) = rev v" for r
    using assms(2,3) by (subst takeWhile_append2, auto)+
  ultimately have "rev u = rev v" by metis
  with assms(1) show ?thesis by simp
qed

lemma unary_separates: "separates_runs unary_iso"
proof -
  have free: "CHR '':'' \<notin> set (unary_iso t)" for t by (simp add: unary_iso_def)
  have "i = j \<and> s = t" if "i @ '':'' @ unary_iso s = j @ '':'' @ unary_iso t" for i j s t
    using last_separator [of i "CHR '':''" "unary_iso s" j "unary_iso t"] that free unary_iso_inj [of s t] by simp
  then show ?thesis unfolding separates_runs_def by blast
qed

lemma digest_separates: "separates_claims unary_iso pair_digest"
  using unary_separates by (auto simp: separates_claims_def separates_runs_def claim_id_def pair_digest_def)

definition once_input :: schedule_input where
  "once_input = \<lparr>si_id = ''o'', si_plan_id = ''p'', si_revision_id = ''r'', si_kind = OnceKind, si_starts_at = ''0'',
     si_interval = None, si_time_of_day = None, si_day_of_week = None, si_enabled = True\<rparr>"

definition sample_calls :: "scheduler_call list" where
  "sample_calls = [RegisterCall once_input, ClaimCall 5 10, ClaimCall 6 10, MarkCall ''none'' True]"

theorem each_run_claimed_once_witness:
  "\<exists>st. st = fold (scheduler_step (\<lambda>t. Some 2) unary_iso pair_digest default) sample_calls \<lparr>ss_schedules = [], ss_claims = []\<rparr>
     \<and> length (ss_claims st) = 1 \<and> distinct (map (\<lambda>c. (cl_schedule_id c, cl_due_at c)) (ss_claims st))"
proof -
  have "length (ss_claims (fold (scheduler_step (\<lambda>t. Some 2) unary_iso pair_digest default) sample_calls
    \<lparr>ss_schedules = [], ss_claims = []\<rparr>)) = 1"
    by code_simp
  with each_run_claimed_once [OF unary_separates digest_separates refl] show ?thesis by blast
qed

end
