(* ===== verification/Notification.thy ===== *)
theory Notification
  imports Stable_Hash
begin

text \<open>
  The notification gateway (\<open>notification/notification-gateway.ts\<close>): an append-only list of receipts
  (queued, read, dismissed), one notification per deduplication key, and the view a reader sees, which is
  a fold of the receipts. Parameters: \<open>lc\<close> (\<open>localeCompare\<close>), \<open>num\<close> (rendering of numbers), \<open>sha\<close> (the hex digest of
  SHA-256) and \<open>parse\<close> (\<open>Date.parse\<close>). Results: the receipts of one notification have one of five
  shapes, whatever the calls; its state only moves forward; and queueing is idempotent.
\<close>

section \<open>Data\<close>

datatype notification_priority = LowPriority | NormalPriority | HighPriority | CriticalPriority
datatype notification_source = FromTrigger | FromExecution | FromOpportunity | FromSystem
datatype notification_state = Unread | Read | Dismissed
datatype notification_event = QueuedEvent | ReadEvent | DismissedEvent

record notification_input =
  ni_dedupe :: string
  ni_source :: notification_source
  ni_source_id :: string
  ni_goal :: "string option"
  ni_evidence :: "string list option"
  ni_title :: string
  ni_body :: string
  ni_priority :: notification_priority
  ni_action :: bool
  ni_created :: string

record notification_receipt =
  nr_sequence :: nat
  nr_id :: string
  nr_dedupe :: string
  nr_event :: notification_event
  nr_at :: string
  nr_actor :: string
  nr_hash :: "string option"
  nr_payload :: "notification_input option"

record notification_view =
  nv_input :: notification_input
  nv_id :: string
  nv_state :: notification_state
  nv_sequence :: nat

datatype notification_error = NotificationConflict string | NotificationNotFound string | InvalidNotification string

type_synonym notification_store = "notification_receipt list"

section \<open>Normalisation\<close>

definition clean_notice :: "string \<Rightarrow> string \<Rightarrow> notification_error + string" where
  "clean_notice v field = (if trim v = [] then Inl (InvalidNotification field) else Inr (trim v))"

definition bounded :: "string \<Rightarrow> string \<Rightarrow> nat \<Rightarrow> notification_error + string" where
  "bounded v field limit = rbind (clean_notice v field) (\<lambda>r.
     if length r > limit then Inl (InvalidNotification field) else Inr r)"

definition requireIso :: "(string \<Rightarrow> int option) \<Rightarrow> string \<Rightarrow> string \<Rightarrow> notification_error + string" where
  "requireIso parse v field = rbind (clean_notice v field) (\<lambda>r.
     if parse r = None then Inl (InvalidNotification field) else Inr r)"

definition normalize_notice ::
  "(string \<Rightarrow> int option) \<Rightarrow> notification_input \<Rightarrow> notification_error + notification_input" where
  "normalize_notice parse i =
     rbind (map_res (\<lambda>e. clean_notice e ''evidenceId'') (case_option [] id (ni_evidence i))) (\<lambda>es.
     let evidence = sort_units (uniq es) in
     rbind (clean_notice (ni_dedupe i) ''dedupeKey'') (\<lambda>dedupe.
     rbind (clean_notice (ni_source_id i) ''sourceId'') (\<lambda>source.
     rbind (case ni_goal i of None \<Rightarrow> Inr None
       | Some g \<Rightarrow> if g = [] then Inr None else rbind (clean_notice g ''goalId'') (\<lambda>x. Inr (Some x))) (\<lambda>goal.
     rbind (bounded (ni_title i) ''title'' 160) (\<lambda>title.
     rbind (bounded (ni_body i) ''body'' 2000) (\<lambda>body.
     rbind (requireIso parse (ni_created i) ''createdAt'') (\<lambda>created.
       Inr \<lparr>ni_dedupe = dedupe, ni_source = ni_source i, ni_source_id = source, ni_goal = goal,
         ni_evidence = (if evidence = [] then None else Some evidence), ni_title = title, ni_body = body,
         ni_priority = ni_priority i, ni_action = ni_action i, ni_created = created\<rparr>)))))))"

definition source_name :: "notification_source \<Rightarrow> string" where
  "source_name s = (case s of FromTrigger \<Rightarrow> ''trigger'' | FromExecution \<Rightarrow> ''execution''
     | FromOpportunity \<Rightarrow> ''opportunity'' | FromSystem \<Rightarrow> ''system'')"

definition priority_name :: "notification_priority \<Rightarrow> string" where
  "priority_name p = (case p of LowPriority \<Rightarrow> ''low'' | NormalPriority \<Rightarrow> ''normal'' | HighPriority \<Rightarrow> ''high''
     | CriticalPriority \<Rightarrow> ''critical'')"

text \<open>The normalised input as a JavaScript object: an optional field that is absent has no key.\<close>

definition notice_value :: "notification_input \<Rightarrow> js_value" where
  "notice_value i = JObject
     ([(''dedupeKey'', JString (ni_dedupe i)), (''sourceType'', JString (source_name (ni_source i))),
       (''sourceId'', JString (ni_source_id i))]
      @ (case ni_goal i of None \<Rightarrow> [] | Some g \<Rightarrow> [(''goalId'', JString g)])
      @ (case ni_evidence i of None \<Rightarrow> [] | Some es \<Rightarrow> [(''evidenceIds'', JArray (map JString es))])
      @ [(''title'', JString (ni_title i)), (''body'', JString (ni_body i)),
         (''priority'', JString (priority_name (ni_priority i))), (''actionRequired'', JBool (ni_action i)),
         (''createdAt'', JString (ni_created i))])"

definition notice_hash ::
  "string comparator \<Rightarrow> (js_number \<Rightarrow> string) \<Rightarrow> (string \<Rightarrow> string) \<Rightarrow> notification_input \<Rightarrow> string" where
  "notice_hash lc num sha i = sha (or_empty (localStringify lc num (notice_value i)))"

definition notice_id :: "(string \<Rightarrow> string) \<Rightarrow> string \<Rightarrow> string" where
  "notice_id sha dedupe = ''notification:'' @ take 24 (sha dedupe)"

section \<open>Projection\<close>

definition next_state :: "notification_state \<Rightarrow> notification_receipt \<Rightarrow> notification_state" where
  "next_state state r =
     (let state' = (if nr_event r = ReadEvent \<and> state \<noteq> Dismissed then Read else state) in
      if nr_event r = DismissedEvent then Dismissed else state')"

definition projectOrNull :: "string \<Rightarrow> notification_store \<Rightarrow> notification_view option" where
  "projectOrNull nid receipts =
     (let chain = sort_by (key nr_sequence default) (filter (\<lambda>r. nr_id r = nid) receipts) in
      case List.find (\<lambda>r. nr_event r = QueuedEvent) chain of
        None \<Rightarrow> None
      | Some queued \<Rightarrow> (case nr_payload queued of
          None \<Rightarrow> None
        | Some payload \<Rightarrow> Some \<lparr>nv_input = payload, nv_id = nid, nv_state = foldl next_state Unread chain,
            nv_sequence = nr_sequence (last chain)\<rparr>))"

definition project :: "string \<Rightarrow> notification_store \<Rightarrow> notification_error + notification_view" where
  "project nid receipts = (case projectOrNull nid receipts of
     None \<Rightarrow> Inl (NotificationNotFound nid) | Some view \<Rightarrow> Inr view)"

definition nextSequence :: "notification_store \<Rightarrow> nat" where
  "nextSequence receipts = (if receipts = [] then 0 else nr_sequence (last receipts)) + 1"

section \<open>Operations\<close>

text \<open>The receipt is written before the view is projected: a projection that threw would keep it.\<close>

definition write_receipt ::
  "notification_receipt \<Rightarrow> notification_store \<Rightarrow> (notification_error + notification_view) \<times> notification_store" where
  "write_receipt r receipts = (project (nr_id r) (receipts @ [r]), receipts @ [r])"

definition queue ::
  "string comparator \<Rightarrow> (js_number \<Rightarrow> string) \<Rightarrow> (string \<Rightarrow> string) \<Rightarrow> (string \<Rightarrow> int option) \<Rightarrow> notification_input
   \<Rightarrow> string \<Rightarrow> notification_store \<Rightarrow> (notification_error + notification_view) \<times> notification_store" where
  "queue lc num sha parse input actor receipts =
     (case normalize_notice parse input of Inl e \<Rightarrow> (Inl e, receipts)
      | Inr n \<Rightarrow>
        let nid = notice_id sha (ni_dedupe n); hash = notice_hash lc num sha n in
        case List.find (\<lambda>r. nr_id r = nid \<and> nr_event r = QueuedEvent) receipts of
          Some queued \<Rightarrow>
            if nr_hash queued \<noteq> Some hash then (Inl (NotificationConflict (ni_dedupe n)), receipts)
            else (project nid receipts, receipts)
        | None \<Rightarrow> (case clean_notice actor ''actor'' of Inl e \<Rightarrow> (Inl e, receipts)
            | Inr a \<Rightarrow> write_receipt \<lparr>nr_sequence = nextSequence receipts, nr_id = nid, nr_dedupe = ni_dedupe n,
                nr_event = QueuedEvent, nr_at = ni_created n, nr_actor = a, nr_hash = Some hash,
                nr_payload = Some n\<rparr> receipts))"

definition appendState ::
  "(string \<Rightarrow> int option) \<Rightarrow> string \<Rightarrow> notification_event \<Rightarrow> string \<Rightarrow> string \<Rightarrow> notification_store
   \<Rightarrow> (notification_error + notification_view) \<times> notification_store" where
  "appendState parse nid event actor at_time receipts =
     (case rbind (clean_notice nid ''notificationId'') (\<lambda>_. rbind (clean_notice actor ''actor'') (\<lambda>a.
        rbind (requireIso parse at_time ''at'') (\<lambda>_. Inr a))) of
        Inl e \<Rightarrow> (Inl e, receipts)
      | Inr a \<Rightarrow> (case projectOrNull nid receipts of
          None \<Rightarrow> (Inl (NotificationNotFound nid), receipts)
        | Some current \<Rightarrow>
            if (event = ReadEvent \<and> nv_state current = Read) \<or> (event = DismissedEvent \<and> nv_state current = Dismissed)
            then (Inr current, receipts)
            else if nv_state current = Dismissed then (Inr current, receipts)
            else (case List.find (\<lambda>r. nr_id r = nid \<and> nr_event r = QueuedEvent) receipts of
                None \<Rightarrow> (Inl (NotificationNotFound nid), receipts)
              | Some queued \<Rightarrow> write_receipt \<lparr>nr_sequence = nextSequence receipts, nr_id = nid,
                  nr_dedupe = nr_dedupe queued, nr_event = event, nr_at = at_time, nr_actor = a, nr_hash = None,
                  nr_payload = None\<rparr> receipts)))"

definition markRead where
  "markRead parse nid actor at_time = appendState parse nid ReadEvent actor at_time"

definition dismiss where
  "dismiss parse nid actor at_time = appendState parse nid DismissedEvent actor at_time"

definition list_notices ::
  "string comparator \<Rightarrow> notification_state option \<Rightarrow> js_number option \<Rightarrow> notification_store
   \<Rightarrow> notification_error + notification_view list" where
  "list_notices lc state limit receipts =
     (let bound = (case limit of None \<Rightarrow> Fin 100 | Some n \<Rightarrow> n) in
      if \<not> is_integer_num bound \<or> num_lt bound (Fin 1) \<or> num_lt (Fin 500) bound
      then Inl (InvalidNotification ''limit'')
      else
        let ids = uniq (map nr_id (filter (\<lambda>r. nr_event r = QueuedEvent) receipts)) in
        rbind (map_res (\<lambda>i. project i receipts) ids) (\<lambda>views.
        Inr (take (case bound of Fin r \<Rightarrow> nat \<lfloor>r\<rfloor> | _ \<Rightarrow> 0)
          (sort_by (or_else (reversed (key (ni_created \<circ> nv_input) lc)) (reversed (key nv_sequence default)))
            (filter (\<lambda>v. case state of None \<Rightarrow> True | Some s \<Rightarrow> nv_state v = s) views)))))"

section \<open>The receipts of one notification\<close>

lemma sorted_is_sorted: "Sorting_Algorithms.sorted c xs \<Longrightarrow> sort_by c xs = xs"
  by (rule sort_eqI) simp_all

lemma numbered_filter_sorted:
  "numbered f xs \<Longrightarrow> Sorting_Algorithms.sorted (key f default) (filter P xs)"
proof (induction xs rule: rev_induct)
  case (snoc x xs)
  then have "numbered f xs" "f x = Suc (length xs)" by simp_all
  moreover have "f y \<le> length xs" if "y \<in> set xs" for y
    using \<open>numbered f xs\<close> that by (auto simp: numbered_def in_set_conv_nth)
  ultimately have "\<forall>y\<in>set xs. f y < f x" by fastforce
  with snoc.IH [OF \<open>numbered f xs\<close>] show ?case
    by (auto simp: sorted_append_iff intro!: sorted_ConsI split: if_split)
qed simp

definition shape :: "notification_event list \<Rightarrow> bool" where
  "shape es \<longleftrightarrow> es \<in> {[], [QueuedEvent], [QueuedEvent, ReadEvent], [QueuedEvent, DismissedEvent],
     [QueuedEvent, ReadEvent, DismissedEvent]}"

definition state_of_event :: "notification_event \<Rightarrow> notification_state" where
  "state_of_event e = (case e of QueuedEvent \<Rightarrow> Unread | ReadEvent \<Rightarrow> Read | DismissedEvent \<Rightarrow> Dismissed)"

definition chain_of_notice :: "string \<Rightarrow> notification_store \<Rightarrow> notification_receipt list" where
  "chain_of_notice nid st = filter (\<lambda>r. nr_id r = nid) st"

definition queued_ok ::
  "string comparator \<Rightarrow> (js_number \<Rightarrow> string) \<Rightarrow> (string \<Rightarrow> string) \<Rightarrow> notification_receipt \<Rightarrow> bool" where
  "queued_ok lc num sha r \<longleftrightarrow> (case nr_payload r of None \<Rightarrow> False
     | Some n \<Rightarrow> nr_hash r = Some (notice_hash lc num sha n) \<and> nr_dedupe r = ni_dedupe n
         \<and> nr_id r = notice_id sha (ni_dedupe n))"

definition notice_inv ::
  "string comparator \<Rightarrow> (js_number \<Rightarrow> string) \<Rightarrow> (string \<Rightarrow> string) \<Rightarrow> notification_store \<Rightarrow> bool" where
  "notice_inv lc num sha st \<longleftrightarrow> numbered nr_sequence st \<and> (\<forall>nid. shape (map nr_event (chain_of_notice nid st)))
     \<and> (\<forall>r\<in>set st. nr_event r = QueuedEvent \<longrightarrow> queued_ok lc num sha r)"

lemma fold_shape:
  "shape (map nr_event rs) \<Longrightarrow> rs \<noteq> [] \<Longrightarrow> foldl next_state Unread rs = state_of_event (nr_event (last rs))"
  by (auto simp: shape_def map_eq_Cons_conv next_state_def state_of_event_def)

lemma shape_head: "shape (e # es) \<Longrightarrow> e = QueuedEvent"
  by (auto simp: shape_def)

text \<open>A notification is projected exactly when it has a receipt: from its first one, at the state of its last.\<close>

lemma project_inv:
  assumes "notice_inv lc num sha st"
  shows "projectOrNull nid st = (case chain_of_notice nid st of [] \<Rightarrow> None
    | r # rs \<Rightarrow> Some \<lparr>nv_input = the (nr_payload r), nv_id = nid, nv_state = state_of_event (nr_event (last (r # rs))),
        nv_sequence = nr_sequence (last (r # rs))\<rparr>)"
proof -
  let ?chain = "chain_of_notice nid st"
  have sorted: "sort_by (key nr_sequence default) (filter (\<lambda>r. nr_id r = nid) st) = ?chain"
    unfolding chain_of_notice_def
    using assms by (intro sorted_is_sorted numbered_filter_sorted) (simp add: notice_inv_def)
  have shape: "shape (map nr_event ?chain)" using assms by (simp add: notice_inv_def)
  show ?thesis
  proof (cases ?chain)
    case Nil
    then show ?thesis unfolding projectOrNull_def sorted by simp
  next
    case (Cons r rs)
    have q: "nr_event r = QueuedEvent" using shape shape_head unfolding Cons by simp
    have "r \<in> set ?chain" unfolding Cons by simp
    then have "r \<in> set st" by (simp add: chain_of_notice_def)
    with assms q obtain n where n: "nr_payload r = Some n"
      by (auto simp: notice_inv_def queued_ok_def split: option.splits)
    have f: "foldl next_state Unread (r # rs) = state_of_event (nr_event (last (r # rs)))"
      using fold_shape [of "r # rs"] shape unfolding Cons by simp
    show ?thesis unfolding projectOrNull_def sorted Cons Let_def f using q n by simp
  qed
qed

lemma find_queued:
  assumes "notice_inv lc num sha st"
  shows "List.find (\<lambda>r. nr_id r = nid \<and> nr_event r = QueuedEvent) st
    = (case chain_of_notice nid st of [] \<Rightarrow> None | r # _ \<Rightarrow> Some r)"
proof -
  have "List.find (\<lambda>r. nr_id r = nid \<and> nr_event r = QueuedEvent) st
      = List.find (\<lambda>r. nr_event r = QueuedEvent) (chain_of_notice nid st)"
    unfolding chain_of_notice_def by (induction st) auto
  moreover have "shape (map nr_event (chain_of_notice nid st))" using assms by (simp add: notice_inv_def)
  ultimately show ?thesis using shape_head by (cases "chain_of_notice nid st") auto
qed

lemma write_inv:
  assumes inv: "notice_inv lc num sha st" and "nr_sequence r = nextSequence st"
    and shape: "shape (map nr_event (chain_of_notice (nr_id r) st) @ [nr_event r])"
    and "nr_event r = QueuedEvent \<Longrightarrow> queued_ok lc num sha r"
  shows "notice_inv lc num sha (snd (write_receipt r st))"
proof -
  have "nextSequence st = Suc (length st)"
    using numbered_last [of nr_sequence st] inv by (auto simp: nextSequence_def notice_inv_def)
  then have "numbered nr_sequence (st @ [r])" using assms(2) inv by (simp add: notice_inv_def)
  moreover have "shape (map nr_event (chain_of_notice nid (st @ [r])))" for nid
    using shape inv by (cases "nid = nr_id r") (auto simp: chain_of_notice_def notice_inv_def)
  ultimately show ?thesis using assms(4) inv by (auto simp: notice_inv_def write_receipt_def)
qed

lemma queue_cases:
  obtains (unchanged) "snd (queue lc num sha parse i a st) = st"
  | (written) n b where "normalize_notice parse i = Inr n"
      "List.find (\<lambda>r. nr_id r = notice_id sha (ni_dedupe n) \<and> nr_event r = QueuedEvent) st = None"
      "queue lc num sha parse i a st = write_receipt \<lparr>nr_sequence = nextSequence st, nr_id = notice_id sha (ni_dedupe n),
         nr_dedupe = ni_dedupe n, nr_event = QueuedEvent, nr_at = ni_created n, nr_actor = b,
         nr_hash = Some (notice_hash lc num sha n), nr_payload = Some n\<rparr> st"
proof (cases "normalize_notice parse i")
  case (Inr n)
  let ?find = "List.find (\<lambda>r. nr_id r = notice_id sha (ni_dedupe n) \<and> nr_event r = QueuedEvent) st"
  show thesis
  proof (cases ?find)
    case None
    show thesis
    proof (cases "clean_notice a ''actor''")
      case (Inr b)
      show thesis by (rule written [OF \<open>normalize_notice parse i = Inr n\<close> None, of b])
          (simp add: queue_def Let_def \<open>normalize_notice parse i = Inr n\<close> None Inr)
    qed (rule unchanged, simp add: queue_def Let_def Inr None)
  qed (rule unchanged, simp add: queue_def Let_def Inr)
qed (rule unchanged, simp add: queue_def)

lemma queue_inv:
  assumes inv: "notice_inv lc num sha st"
  shows "notice_inv lc num sha (snd (queue lc num sha parse i a st))"
proof (cases rule: queue_cases [of lc num sha parse i a st])
  case (written n b)
  from written(2) have "chain_of_notice (notice_id sha (ni_dedupe n)) st = []"
    unfolding find_queued [OF inv] by (simp split: list.splits)
  then show ?thesis
    unfolding written(3) by (intro write_inv [OF inv]) (auto simp: shape_def queued_ok_def)
qed (simp add: inv)

lemma appendState_cases:
  obtains (unchanged) "snd (appendState parse nid e a t st) = st"
  | (written) v d b where "projectOrNull nid st = Some v" "nv_state v \<noteq> Dismissed"
      "\<not> (e = ReadEvent \<and> nv_state v = Read)"
      "appendState parse nid e a t st = write_receipt \<lparr>nr_sequence = nextSequence st, nr_id = nid, nr_dedupe = d,
         nr_event = e, nr_at = t, nr_actor = b, nr_hash = None, nr_payload = None\<rparr> st"
proof (cases "snd (appendState parse nid e a t st) = st")
  case False
  let ?checks = "rbind (clean_notice nid ''notificationId'') (\<lambda>_. rbind (clean_notice a ''actor'') (\<lambda>a.
        rbind (requireIso parse t ''at'') (\<lambda>_. Inr a)))"
  from False obtain b where b: "?checks = Inr b"
    by (cases ?checks) (auto simp: appendState_def)
  from False b obtain v where v: "projectOrNull nid st = Some v"
    by (cases "projectOrNull nid st") (auto simp: appendState_def)
  from False b v obtain q where q: "List.find (\<lambda>r. nr_id r = nid \<and> nr_event r = QueuedEvent) st = Some q"
    by (cases "List.find (\<lambda>r. nr_id r = nid \<and> nr_event r = QueuedEvent) st")
      (auto simp: appendState_def split: if_splits)
  from False b v have v': "nv_state v \<noteq> Dismissed" "\<not> (e = ReadEvent \<and> nv_state v = Read)"
    by (auto simp: appendState_def split: if_splits)
  show thesis
    by (rule written [OF v v', of "nr_dedupe q" b]) (use b v q v' in \<open>auto simp: appendState_def\<close>)
qed (rule unchanged)

lemma appendState_inv:
  assumes inv: "notice_inv lc num sha st" and e: "e \<noteq> QueuedEvent"
  shows "notice_inv lc num sha (snd (appendState parse nid e a t st))"
proof (cases rule: appendState_cases [of parse nid e a t st])
  case (written v d b)
  from written(1) obtain r rs where chain: "chain_of_notice nid st = r # rs"
    and v: "nv_state v = state_of_event (nr_event (last (r # rs)))"
    unfolding project_inv [OF inv] by (auto split: list.splits)
  have "shape (map nr_event (r # rs))" using inv chain by (metis notice_inv_def)
  moreover from written(2,3) v
  have last: "last (map nr_event (r # rs)) \<noteq> DismissedEvent" "\<not> (e = ReadEvent \<and> last (map nr_event (r # rs)) = ReadEvent)"
    by (auto simp: state_of_event_def last_map)
  ultimately have "shape (map nr_event (r # rs) @ [e])"
    using e by (cases e) (auto simp: shape_def)
  then show ?thesis
    unfolding written(4) using chain e by (intro write_inv [OF inv]) simp_all
qed (simp add: inv)

section \<open>Runs\<close>

datatype notice_call = QueueCall notification_input string | ReadCall string string string | DismissCall string string string

fun notice_step ::
  "string comparator \<Rightarrow> (js_number \<Rightarrow> string) \<Rightarrow> (string \<Rightarrow> string) \<Rightarrow> (string \<Rightarrow> int option) \<Rightarrow> notice_call
   \<Rightarrow> notification_store \<Rightarrow> notification_store" where
  "notice_step lc num sha parse (QueueCall i a) st = snd (queue lc num sha parse i a st)"
| "notice_step lc num sha parse (ReadCall nid a t) st = snd (markRead parse nid a t st)"
| "notice_step lc num sha parse (DismissCall nid a t) st = snd (dismiss parse nid a t st)"

lemma notice_step_inv: "notice_inv lc num sha st \<Longrightarrow> notice_inv lc num sha (notice_step lc num sha parse call st)"
  by (cases call) (simp_all add: queue_inv appendState_inv markRead_def dismiss_def)

lemma appendState_extends: "prefix st (snd (appendState parse nid e a t st))"
  by (cases rule: appendState_cases [of parse nid e a t st]) (simp_all add: write_receipt_def)

lemma notice_step_extends: "prefix st (notice_step lc num sha parse call st)"
proof (cases call)
  case (QueueCall i a)
  show ?thesis
    by (cases rule: queue_cases [of lc num sha parse i a st]) (simp_all add: QueueCall write_receipt_def)
qed (simp_all add: markRead_def dismiss_def appendState_extends)

interpretation notices: keyed_log "\<lambda>s. s" "notice_step lc num sha parse" "notice_inv lc num sha" nr_sequence
  for lc num sha parse
  by unfold_locales
    (rule notice_step_extends, erule notice_step_inv, simp add: notice_inv_def numbered_distinct)

definition notice_successors :: "notification_state \<Rightarrow> notification_state list" where
  "notice_successors s = (case s of Unread \<Rightarrow> [Read, Dismissed] | Read \<Rightarrow> [Dismissed] | Dismissed \<Rightarrow> [])"

interpretation notice_life: ranked_lifecycle notice_successors "\<lambda>s. s = Dismissed"
  "\<lambda>s. case s of Unread \<Rightarrow> 0 | Read \<Rightarrow> 1 | Dismissed \<Rightarrow> 2"
  by unfold_locales (auto simp: notice_successors_def split: notification_state.splits)

lemma notice_inv_empty: "notice_inv lc num sha []"
  by (simp add: notice_inv_def shape_def chain_of_notice_def)

lemma project_found:
  assumes inv: "notice_inv lc num sha st" and "List.find (\<lambda>r. nr_id r = nid \<and> nr_event r = QueuedEvent) st = Some r"
  shows "\<exists>w. project nid st = Inr w \<and> nv_input w = the (nr_payload r) \<and> nv_id w = nid"
  using assms(2) unfolding find_queued [OF inv]
  by (auto simp: project_def project_inv [OF inv] split: list.splits)

lemma queue_Inr:
  assumes inv: "notice_inv lc num sha s" and q: "queue lc num sha parse i a s = (Inr v, st)"
    and n: "normalize_notice parse i = Inr n"
  shows "\<exists>r. List.find (\<lambda>r. nr_id r = notice_id sha (ni_dedupe n) \<and> nr_event r = QueuedEvent) st = Some r
    \<and> nr_hash r = Some (notice_hash lc num sha n) \<and> project (notice_id sha (ni_dedupe n)) st = Inr v"
proof (cases "List.find (\<lambda>r. nr_id r = notice_id sha (ni_dedupe n) \<and> nr_event r = QueuedEvent) s")
  case (Some r)
  with q n show ?thesis by (auto simp: queue_def Let_def split: if_splits)
next
  case None
  with q n obtain b where w: "write_receipt \<lparr>nr_sequence = nextSequence s, nr_id = notice_id sha (ni_dedupe n),
         nr_dedupe = ni_dedupe n, nr_event = QueuedEvent, nr_at = ni_created n, nr_actor = b,
         nr_hash = Some (notice_hash lc num sha n), nr_payload = Some n\<rparr> s = (Inr v, st)"
    by (auto simp: queue_def Let_def split: sum.splits)
  have app: "List.find P xs = None \<Longrightarrow> List.find P (xs @ ys) = List.find P ys" for P and xs ys :: "'z list"
    by (induction xs) (auto split: if_splits)
  from w have st: "st = s @ [\<lparr>nr_sequence = nextSequence s, nr_id = notice_id sha (ni_dedupe n),
         nr_dedupe = ni_dedupe n, nr_event = QueuedEvent, nr_at = ni_created n, nr_actor = b,
         nr_hash = Some (notice_hash lc num sha n), nr_payload = Some n\<rparr>]"
    and p: "project (notice_id sha (ni_dedupe n)) st = Inr v"
    by (auto simp: write_receipt_def)
  then show ?thesis using p unfolding st app [OF None] by simp
qed

section \<open>Properties\<close>

text \<open>
  Whatever calls the gateway receives, in whatever order and with whatever inputs and clocks: its
  receipts are numbered 1, 2, 3, ...; those of one notification are, in this order, one queued receipt, at
  most one read one and at most one dismissed one, with nothing after a dismissal; and the view a reader
  gets exists exactly when there is one, at the state of the last receipt.
\<close>

theorem notification_receipts_course:
  "let st = fold (notice_step lc num sha parse) calls []; chain = chain_of_notice nid st in
     map nr_sequence st = [1..<Suc (length st)] \<and> shape (map nr_event chain)
     \<and> (case projectOrNull nid st of None \<Rightarrow> chain = []
        | Some v \<Rightarrow> chain \<noteq> [] \<and> nv_state v = state_of_event (nr_event (last chain))
            \<and> nr_payload (hd chain) = Some (nv_input v) \<and> nid = notice_id sha (ni_dedupe (nv_input v)))"
proof -
  define st where "st = fold (notice_step lc num sha parse) calls []"
  have inv: "notice_inv lc num sha st"
    unfolding st_def by (rule notices.run_inv) (simp add: notice_inv_def shape_def chain_of_notice_def)
  have seq: "map nr_sequence st = [1..<Suc (length st)]"
    using inv by (intro nth_equalityI) (auto simp: notice_inv_def numbered_def simp del: upt_Suc)
  have shape: "shape (map nr_event (chain_of_notice nid st))" using inv by (simp add: notice_inv_def)
  have "case projectOrNull nid st of None \<Rightarrow> chain_of_notice nid st = []
    | Some v \<Rightarrow> chain_of_notice nid st \<noteq> [] \<and> nv_state v = state_of_event (nr_event (last (chain_of_notice nid st)))
        \<and> nr_payload (hd (chain_of_notice nid st)) = Some (nv_input v) \<and> nid = notice_id sha (ni_dedupe (nv_input v))"
  proof (cases "chain_of_notice nid st")
    case (Cons r rs)
    then have "r \<in> set (chain_of_notice nid st)" by simp
    then have "r \<in> set st" "nr_id r = nid" by (simp_all add: chain_of_notice_def)
    moreover have "nr_event r = QueuedEvent" using shape Cons shape_head by simp
    ultimately obtain n where "nr_payload r = Some n" "nid = notice_id sha (ni_dedupe n)"
      using inv by (auto simp: notice_inv_def queued_ok_def split: option.splits)
    with Cons show ?thesis by (simp add: project_inv [OF inv])
  qed (simp add: project_inv [OF inv])
  with seq shape show ?thesis by (simp add: st_def [symmetric] Let_def)
qed

text \<open>
  Queueing is idempotent. Once a notification was queued, and after any further calls, queueing input
  with the same deduplication key writes nothing: it answers the notification's current view when the
  content is the same after normalisation, and refuses with a conflict when its digest differs.
\<close>

theorem queue_idempotent:
  assumes "queue lc num sha parse i a (fold (notice_step lc num sha parse) before []) = (Inr v, st)"
    and "st' = fold (notice_step lc num sha parse) later st"
    and "normalize_notice parse i = Inr n" and "normalize_notice parse i' = Inr n'" and "ni_dedupe n' = ni_dedupe n"
  shows "(\<exists>w. project (nv_id v) st' = Inr w \<and> nv_input w = nv_input v
     \<and> queue lc num sha parse i' a' st'
        = (if notice_hash lc num sha n' = notice_hash lc num sha n then Inr w
           else Inl (NotificationConflict (ni_dedupe n)), st'))"
proof -
  let ?s = "fold (notice_step lc num sha parse) before []" and ?nid = "notice_id sha (ni_dedupe n)"
  let ?P = "\<lambda>r. nr_id r = ?nid \<and> nr_event r = QueuedEvent"
  have inv: "notice_inv lc num sha ?s" by (rule notices.run_inv [OF notice_inv_empty])
  with assms(1) queue_inv [OF inv, of parse i a] have inv_st: "notice_inv lc num sha st" by simp
  then have inv': "notice_inv lc num sha st'" unfolding assms(2) by (rule notices.run_inv)
  from queue_Inr [OF inv assms(1,3)] obtain r where r: "List.find ?P st = Some r"
    "nr_hash r = Some (notice_hash lc num sha n)" "project ?nid st = Inr v" by blast
  have r': "List.find ?P st' = Some r" unfolding assms(2) by (rule notices.first_match_persists [OF r(1)])
  from project_found [OF inv' r'] obtain w where w: "project ?nid st' = Inr w" "nv_input w = the (nr_payload r)" by blast
  moreover from project_found [OF inv_st r(1)] r(3) have "nv_input v = the (nr_payload r)" "nv_id v = ?nid" by auto
  moreover have "queue lc num sha parse i' a' st' = (if notice_hash lc num sha n' = notice_hash lc num sha n then Inr w
           else Inl (NotificationConflict (ni_dedupe n)), st')"
    using r' r(2) w(1) by (simp add: queue_def assms(4,5) Let_def)
  ultimately show ?thesis by simp
qed

text \<open>A notification queued, read, then queued again with a blank around its key.\<close>

definition sample_notice :: notification_input where
  "sample_notice = \<lparr>ni_dedupe = ''k'', ni_source = FromSystem, ni_source_id = ''s'', ni_goal = None, ni_evidence = Some [''b'', ''a''],
     ni_title = ''t'', ni_body = ''b'', ni_priority = NormalPriority, ni_action = False, ni_created = ''d''\<rparr>"

theorem queue_idempotent_witness:
  "\<exists>v st w. queue default (\<lambda>_. []) id (\<lambda>_. Some 0) sample_notice ''u'' [] = (Inr v, st)
     \<and> queue default (\<lambda>_. []) id (\<lambda>_. Some 0) (sample_notice\<lparr>ni_dedupe := '' k ''\<rparr>) ''x''
         (fold (notice_step default (\<lambda>_. []) id (\<lambda>_. Some 0)) [ReadCall (nv_id v) ''u'' ''d''] st)
       = (Inr w, fold (notice_step default (\<lambda>_. []) id (\<lambda>_. Some 0)) [ReadCall (nv_id v) ''u'' ''d''] st)
     \<and> nv_input w = nv_input v"
proof -
  let ?q = "queue default (\<lambda>_. []) id (\<lambda>_. Some 0)" and ?step = "notice_step default (\<lambda>_. []) id (\<lambda>_. Some 0)"
  let ?n = "sample_notice\<lparr>ni_evidence := Some [''a'', ''b'']\<rparr>"
  have n: "normalize_notice (\<lambda>_. Some 0) sample_notice = Inr ?n" by code_simp
  have n': "normalize_notice (\<lambda>_. Some 0) (sample_notice\<lparr>ni_dedupe := '' k ''\<rparr>) = Inr ?n" by code_simp
  have "case fst (?q sample_notice ''u'' []) of Inl _ \<Rightarrow> False | Inr _ \<Rightarrow> True" by code_simp
  then obtain v st where q: "?q sample_notice ''u'' (fold ?step [] []) = (Inr v, st)"
    by (cases "?q sample_notice ''u'' []") (auto split: sum.splits)
  from queue_idempotent [OF q refl n n' refl, of "[ReadCall (nv_id v) ''u'' ''d'']" "''x''"]
  obtain w where "nv_input w = nv_input v"
    "?q (sample_notice\<lparr>ni_dedupe := '' k ''\<rparr>) ''x'' (fold ?step [ReadCall (nv_id v) ''u'' ''d''] st)
       = (Inr w, fold ?step [ReadCall (nv_id v) ''u'' ''d''] st)" by auto
  with q show ?thesis by auto
qed

end
