(* ===== verification/Trigger.thy ===== *)
theory Trigger
  imports Stable_Hash
begin

text \<open>
  The trigger engine (\<open>trigger/trigger-engine.ts\<close>): triggers watch a field of the observations they are
  given, and an observation that meets a trigger's condition is recorded as an event, once. Parameters:
  \<open>lc\<close> (\<open>localeCompare\<close>), \<open>num\<close> (rendering of numbers), \<open>sha\<close> (the hex digest of SHA-256) and \<open>parse\<close>
  (\<open>Date.parse\<close>). Results: what every recorded event says and where it comes from, that evaluating an
  observation again changes nothing, and how far the key tells observations apart.
\<close>

section \<open>Data\<close>

datatype trigger_condition =
  PriceBelow string js_number
| NewMatch string
| ContentChanged string string
| DeadlineNear string js_number
| AvailabilityDetected string

record trigger_definition =
  tg_id :: string
  tg_goal :: string
  tg_plan :: string
  tg_revision :: string
  tg_condition :: trigger_condition
  tg_enabled :: bool
  tg_created :: string

record trigger_observation =
  ob_at :: string
  ob_source :: string
  ob_values :: "(string \<times> js_value) list"

record trigger_event =
  tv_id :: string
  tv_trigger :: string
  tv_goal :: string
  tv_plan :: string
  tv_revision :: string
  tv_source :: string
  tv_at :: string
  tv_key :: string
  tv_reason :: string

datatype trigger_error = InvalidTrigger string | DuplicateTrigger string

definition condition_field :: "trigger_condition \<Rightarrow> string" where
  "condition_field c = (case c of PriceBelow f _ \<Rightarrow> f | NewMatch f \<Rightarrow> f | ContentChanged f _ \<Rightarrow> f
     | DeadlineNear f _ \<Rightarrow> f | AvailabilityDetected f \<Rightarrow> f)"

text \<open>\<open>observation.values[field]\<close>: an absent key reads as undefined.\<close>

definition observed_value :: "trigger_observation \<Rightarrow> string \<Rightarrow> js_value" where
  "observed_value ob f = (case map_of (ob_values ob) f of None \<Rightarrow> JUndefined | Some v \<Rightarrow> v)"

section \<open>Definitions\<close>

definition clean_trigger :: "string \<Rightarrow> string \<Rightarrow> trigger_error + string" where
  "clean_trigger v field = (if trim v = [] then Inl (InvalidTrigger field) else Inr (trim v))"

definition require_instant :: "(string \<Rightarrow> int option) \<Rightarrow> string \<Rightarrow> string \<Rightarrow> trigger_error + string" where
  "require_instant parse v field = rbind (clean_trigger v field) (\<lambda>r.
     if parse r = None then Inl (InvalidTrigger field) else Inr r)"

definition validateDefinition :: "(string \<Rightarrow> int option) \<Rightarrow> trigger_definition \<Rightarrow> trigger_error + unit" where
  "validateDefinition parse d =
     rbind (clean_trigger (tg_id d) ''id'') (\<lambda>_. rbind (clean_trigger (tg_goal d) ''goalId'') (\<lambda>_.
     rbind (clean_trigger (tg_plan d) ''planId'') (\<lambda>_. rbind (clean_trigger (tg_revision d) ''revisionId'') (\<lambda>_.
     rbind (require_instant parse (tg_created d) ''createdAt'') (\<lambda>_.
     rbind (clean_trigger (condition_field (tg_condition d)) ''condition.field'') (\<lambda>_.
     case tg_condition d of
       PriceBelow _ t \<Rightarrow> throw_if (\<not> is_finite_num t) (InvalidTrigger ''threshold'')
     | DeadlineNear _ w \<Rightarrow> throw_if (\<not> is_integer_num w \<or> num_le w (Fin 0)) (InvalidTrigger ''withinMinutes'')
     | ContentChanged _ h \<Rightarrow> rbind (clean_trigger h ''baselineHash'') (\<lambda>_. Inr ())
     | _ \<Rightarrow> Inr ()))))))"

text \<open>The constructor: the triggers by id, in the order of the definitions.\<close>

primrec trigger_engine ::
  "(string \<Rightarrow> int option) \<Rightarrow> (string \<times> trigger_definition) list \<Rightarrow> trigger_definition list
   \<Rightarrow> trigger_error + (string \<times> trigger_definition) list" where
  "trigger_engine parse ts [] = Inr ts"
| "trigger_engine parse ts (d # ds) =
     rbind (validateDefinition parse d) (\<lambda>_.
     if map_of ts (tg_id d) \<noteq> None then Inl (DuplicateTrigger (tg_id d))
     else trigger_engine parse (AList.update (tg_id d) d ts) ds)"

definition list_triggers :: "(string \<times> trigger_definition) list \<Rightarrow> trigger_definition list" where
  "list_triggers ts = map snd ts"

section \<open>Evaluation\<close>

definition hasMatch :: "js_value \<Rightarrow> bool" where
  "hasMatch v = (case v of JString s \<Rightarrow> length (trim s) > 0 | JArray vs \<Rightarrow> length vs > 0 | JBool b \<Rightarrow> b | _ \<Rightarrow> False)"

definition minutes_ms :: "js_number \<Rightarrow> js_number" where
  "minutes_ms w = (case w of Fin r \<Rightarrow> Fin (r * 60000) | n \<Rightarrow> n)"

definition condition_met ::
  "(js_number \<Rightarrow> string) \<Rightarrow> (string \<Rightarrow> int option) \<Rightarrow> trigger_condition \<Rightarrow> string \<Rightarrow> js_value \<Rightarrow> string option" where
  "condition_met num parse c observed_at value = (case c of
     PriceBelow f t \<Rightarrow> (case value of
         JNumber n \<Rightarrow> if is_finite_num n \<and> num_lt n t then Some (f @ '' below '' @ num t) else None
       | _ \<Rightarrow> None)
   | NewMatch f \<Rightarrow> if hasMatch value then Some (f @ '' contains a new match'') else None
   | ContentChanged f h \<Rightarrow> (case value of
         JString s \<Rightarrow> if length s > 0 \<and> s \<noteq> h then Some (f @ '' changed'') else None
       | _ \<Rightarrow> None)
   | DeadlineNear f w \<Rightarrow> (case value of
         JString s \<Rightarrow> (case parse s of
             None \<Rightarrow> None
           | Some deadline \<Rightarrow> (case parse observed_at of
               None \<Rightarrow> None
             | Some observed \<Rightarrow>
                 if deadline < observed then None
                 else if num_le (Fin (of_int (deadline - observed))) (minutes_ms w) then Some (f @ '' deadline is near'') else None))
       | _ \<Rightarrow> None)
   | AvailabilityDetected f \<Rightarrow> (case value of
         JBool b \<Rightarrow> if b then Some (f @ '' availability detected'') else None
       | JNumber n \<Rightarrow> if num_lt (Fin 0) n then Some (f @ '' availability detected'') else None
       | _ \<Rightarrow> None))"

definition matchReason ::
  "(js_number \<Rightarrow> string) \<Rightarrow> (string \<Rightarrow> int option) \<Rightarrow> trigger_definition \<Rightarrow> trigger_observation \<Rightarrow> trigger_error + string option" where
  "matchReason num parse t ob =
     rbind (require_instant parse (ob_at ob) ''observedAt'') (\<lambda>_.
     rbind (clean_trigger (ob_source ob) ''sourceKey'') (\<lambda>_.
     Inr (condition_met num parse (tg_condition t) (ob_at ob) (observed_value ob (condition_field (tg_condition t))))))"

text \<open>The key hashes the observation's fields as they came, the event holds them trimmed.\<close>

definition event_key ::
  "string comparator \<Rightarrow> (js_number \<Rightarrow> string) \<Rightarrow> (string \<Rightarrow> string) \<Rightarrow> trigger_definition \<Rightarrow> trigger_observation \<Rightarrow> string" where
  "event_key lc num sha t ob = sha (or_empty (localStringify lc num (JObject
     [(''triggerId'', JString (tg_id t)), (''revisionId'', JString (tg_revision t)),
      (''sourceKey'', JString (ob_source ob)), (''observedAt'', JString (ob_at ob)),
      (''conditionValue'', observed_value ob (condition_field (tg_condition t)))])))"

definition trigger_event_of :: "trigger_definition \<Rightarrow> string \<Rightarrow> string \<Rightarrow> string \<Rightarrow> string \<Rightarrow> trigger_event" where
  "trigger_event_of t source observed_at k reason = \<lparr>tv_id = ''trigger-event:'' @ take 24 k, tv_trigger = tg_id t,
     tv_goal = tg_goal t, tv_plan = tg_plan t, tv_revision = tg_revision t, tv_source = source, tv_at = observed_at,
     tv_key = k, tv_reason = reason\<rparr>"

definition record_event :: "trigger_event \<Rightarrow> trigger_event list \<Rightarrow> trigger_event \<times> trigger_event list" where
  "record_event e events = (case List.find (\<lambda>x. tv_key x = tv_key e) events of
     Some x \<Rightarrow> (x, events) | None \<Rightarrow> (e, events @ [e]))"

definition evaluate_trigger ::
  "string comparator \<Rightarrow> (js_number \<Rightarrow> string) \<Rightarrow> (string \<Rightarrow> string) \<Rightarrow> (string \<Rightarrow> int option) \<Rightarrow> (string \<times> trigger_definition) list
   \<Rightarrow> string \<Rightarrow> trigger_observation \<Rightarrow> trigger_event list \<Rightarrow> (trigger_error + trigger_event option) \<times> trigger_event list" where
  "evaluate_trigger lc num sha parse ts i ob events =
     (case map_of ts i of
       None \<Rightarrow> (Inr None, events)
     | Some t \<Rightarrow>
         if \<not> tg_enabled t then (Inr None, events)
         else (case matchReason num parse t ob of
             Inl e \<Rightarrow> (Inl e, events)
           | Inr None \<Rightarrow> (Inr None, events)
           | Inr (Some reason) \<Rightarrow>
               if reason = [] then (Inr None, events)
               else (case rbind (clean_trigger (ob_source ob) ''sourceKey'') (\<lambda>source.
                     rbind (require_instant parse (ob_at ob) ''observedAt'') (\<lambda>observed. Inr (source, observed))) of
                   Inl e \<Rightarrow> (Inl e, events)
                 | Inr (source, observed) \<Rightarrow>
                     let (e, events') = record_event (trigger_event_of t source observed (event_key lc num sha t ob) reason) events in
                     (Inr (Some e), events'))))"

section \<open>The events\<close>

type_synonym trigger_call = "string \<times> trigger_observation"

definition trigger_step where
  "trigger_step lc num sha parse ts call events = snd (evaluate_trigger lc num sha parse ts (fst call) (snd call) events)"

text \<open>The event a call records.\<close>

definition fired_by where
  "fired_by lc num sha parse ts call e \<longleftrightarrow> (\<exists>t reason. map_of ts (fst call) = Some t \<and> tg_enabled t
     \<and> matchReason num parse t (snd call) = Inr (Some reason)
     \<and> e = trigger_event_of t (trim (ob_source (snd call))) (trim (ob_at (snd call))) (event_key lc num sha t (snd call)) reason)"

lemma condition_met_nonempty: "condition_met num parse c w v = Some r \<Longrightarrow> r \<noteq> []"
  by (auto simp: condition_met_def split: trigger_condition.splits js_value.splits if_splits option.splits)

lemma matchReason_Inr:
  "matchReason num parse t ob = Inr r \<Longrightarrow> r \<noteq> Some [] \<and> clean_trigger (ob_source ob) ''sourceKey'' = Inr (trim (ob_source ob))
     \<and> require_instant parse (ob_at ob) ''observedAt'' = Inr (trim (ob_at ob))"
  by (auto simp: matchReason_def rbind_Inr_iff require_instant_def clean_trigger_def
      dest!: condition_met_nonempty split: if_splits)

text \<open>A call answers nothing, an error, or the event of its key, which is in the list afterwards.\<close>

lemma evaluate_cases:
  obtains (silent) r where "evaluate_trigger lc num sha parse ts i ob events = (r, events)" "r = Inr None \<or> (\<exists>e. r = Inl e)"
  | (fired) t reason where "map_of ts i = Some t" "tg_enabled t" "matchReason num parse t ob = Inr (Some reason)"
      "evaluate_trigger lc num sha parse ts i ob events
       = (let p = record_event (trigger_event_of t (trim (ob_source ob)) (trim (ob_at ob)) (event_key lc num sha t ob) reason) events in
          (Inr (Some (fst p)), snd p))"
proof (cases "map_of ts i")
  case (Some t)
  show thesis
  proof (cases "tg_enabled t")
    case True
    show thesis
    proof (cases "matchReason num parse t ob")
      case (Inr r)
      show thesis
      proof (cases r)
        case (Some reason)
        with matchReason_Inr [OF Inr] show thesis
          by (intro fired [OF \<open>map_of ts i = Some t\<close> True, of reason])
            (simp_all add: evaluate_trigger_def \<open>map_of ts i = Some t\<close> True Inr split_beta Let_def)
      qed (rule silent [of "Inr None"], simp_all add: evaluate_trigger_def Some True Inr)
    next
      case (Inl e)
      show thesis by (rule silent [of "Inl e"]) (simp_all add: evaluate_trigger_def Some True Inl)
    qed
  qed (rule silent [of "Inr None"], simp_all add: evaluate_trigger_def Some)
qed (rule silent [of "Inr None"], simp_all add: evaluate_trigger_def)

lemma record_event_cases:
  obtains (known) x where "record_event e events = (x, events)" "x \<in> set events" "tv_key e = tv_key x"
  | (new) "record_event e events = (e, events @ [e])" "tv_key e \<notin> tv_key ` set events"
proof (cases "List.find (\<lambda>x. tv_key x = tv_key e) events")
  case None
  then have "tv_key x \<noteq> tv_key e" if "x \<in> set events" for x using find_None_D [OF None that] by simp
  with None show thesis by (intro new) (force simp: record_event_def)+
next
  case (Some x)
  with find_Some_D [OF Some] show thesis by (intro known [of x]) (auto simp: record_event_def)
qed

lemma record_event_snd: "snd (record_event e events) = (if tv_key e \<in> tv_key ` set events then events else events @ [e])"
  by (cases rule: record_event_cases [of e events]) simp_all

lemma trigger_step_cases:
  obtains "trigger_step lc num sha parse ts call events = events"
  | e where "fired_by lc num sha parse ts call e" "trigger_step lc num sha parse ts call events = events @ [e]"
      "tv_key e \<notin> tv_key ` set events"
proof (cases rule: evaluate_cases [of lc num sha parse ts "fst call" "snd call" events])
  case (silent r)
  with that(1) show thesis by (simp add: trigger_step_def)
next
  case (fired t reason)
  let ?e = "trigger_event_of t (trim (ob_source (snd call))) (trim (ob_at (snd call))) (event_key lc num sha t (snd call)) reason"
  have "trigger_step lc num sha parse ts call events = snd (record_event ?e events)"
    using fired(4) by (simp add: trigger_step_def Let_def)
  moreover have "fired_by lc num sha parse ts call ?e" using fired(1-3) by (auto simp: fired_by_def)
  ultimately show thesis using that by (cases "tv_key ?e \<in> tv_key ` set events") (simp_all add: record_event_snd)
qed

interpretation trigger_log: keyed_log "\<lambda>events. events" "trigger_step lc num sha parse ts" "\<lambda>events. distinct (map tv_key events)" tv_key
proof unfold_locales
  fix events call
  show "prefix events (trigger_step lc num sha parse ts call events)"
    by (cases rule: trigger_step_cases [of lc num sha parse ts call events]) simp_all
  show "distinct (map tv_key events) \<Longrightarrow> distinct (map tv_key (trigger_step lc num sha parse ts call events))"
    by (cases rule: trigger_step_cases [of lc num sha parse ts call events]) auto
qed

lemma events_fired:
  "e \<in> set (fold (trigger_step lc num sha parse ts) calls []) \<Longrightarrow> \<exists>call\<in>set calls. fired_by lc num sha parse ts call e"
proof (induction calls rule: rev_induct)
  case (snoc call calls)
  then show ?case
    by (cases rule: trigger_step_cases [of lc num sha parse ts call "fold (trigger_step lc num sha parse ts) calls []"]) auto
qed simp

lemma evaluate_known:
  assumes "distinct (map tv_key st)" and "e \<in> set st" and "map_of ts i = Some t" and "tg_enabled t"
    and "matchReason num parse t ob = Inr (Some reason)" and "tv_key e = event_key lc num sha t ob"
  shows "evaluate_trigger lc num sha parse ts i ob st = (Inr (Some e), st)"
proof (cases rule: evaluate_cases [of lc num sha parse ts i ob st])
  case (silent r)
  with assms(3-5) matchReason_Inr [OF assms(5)] show ?thesis
    by (auto simp: evaluate_trigger_def split_beta Let_def split: prod.splits)
next
  case (fired u why)
  let ?e = "trigger_event_of u (trim (ob_source ob)) (trim (ob_at ob)) (event_key lc num sha u ob) why"
  from fired(1) assms(3,6) have k: "tv_key e = tv_key ?e" by (simp add: trigger_event_of_def)
  have "record_event ?e st = (e, st)"
  proof (cases rule: record_event_cases [of ?e st])
    case (known x)
    with k assms(1,2) have "x = e" by (metis distinct_map inj_onD)
    with known(1) show ?thesis by simp
  next
    case new
    with k assms(2) show ?thesis by (metis image_eqI)
  qed
  with fired(4) show ?thesis by (simp add: Let_def)
qed

lemma trigger_engine_Inr:
  "trigger_engine parse ts ds = Inr ts' \<Longrightarrow> map_of ts' i = Some t \<Longrightarrow>
     map_of ts i = Some t \<or> (t \<in> set ds \<and> tg_id t = i \<and> validateDefinition parse t = Inr ())"
proof (induction ds arbitrary: ts)
  case (Cons d ds)
  then have "trigger_engine parse (AList.update (tg_id d) d ts) ds = Inr ts'" "validateDefinition parse d = Inr ()"
    by (auto simp: rbind_Inr_iff split: if_splits)
  with Cons.IH [OF this(1) Cons.prems(2)] show ?case by (auto simp: map_of_alist_update split: if_splits)
qed simp

section \<open>Properties\<close>

text \<open>
  Every event of the store, whatever the calls, was recorded by a call of \<open>evaluate\<close> for an enabled
  trigger of the engine's definitions whose condition the observation met; it names that trigger with its
  Goal, plan and plan revision, and the observation's source and instant, trimmed. No key occurs twice.
\<close>

theorem trigger_events_sound:
  assumes "trigger_engine parse [] ds = Inr ts" and "events = fold (trigger_step lc num sha parse ts) calls []"
  shows "distinct (map tv_key events) \<and> (\<forall>e\<in>set events. \<exists>d ob. d \<in> set ds \<and> (tg_id d, ob) \<in> set calls \<and> tg_enabled d
      \<and> validateDefinition parse d = Inr () \<and> matchReason num parse d ob = Inr (Some (tv_reason e))
      \<and> tv_trigger e = tg_id d \<and> tv_goal e = tg_goal d \<and> tv_plan e = tg_plan d \<and> tv_revision e = tg_revision d
      \<and> tv_source e = trim (ob_source ob) \<and> tv_at e = trim (ob_at ob) \<and> parse (tv_at e) \<noteq> None)"
proof -
  have "distinct (map tv_key events)" unfolding assms(2) by (rule trigger_log.run_inv) simp
  moreover have "\<exists>d ob. d \<in> set ds \<and> (tg_id d, ob) \<in> set calls \<and> tg_enabled d
      \<and> validateDefinition parse d = Inr () \<and> matchReason num parse d ob = Inr (Some (tv_reason e))
      \<and> tv_trigger e = tg_id d \<and> tv_goal e = tg_goal d \<and> tv_plan e = tg_plan d \<and> tv_revision e = tg_revision d
      \<and> tv_source e = trim (ob_source ob) \<and> tv_at e = trim (ob_at ob) \<and> parse (tv_at e) \<noteq> None" if "e \<in> set events" for e
  proof -
    from events_fired that assms(2) obtain i ob where call: "(i, ob) \<in> set calls" "fired_by lc num sha parse ts (i, ob) e" by fast
    then obtain t reason where t: "map_of ts i = Some t" "tg_enabled t" "matchReason num parse t ob = Inr (Some reason)"
      "e = trigger_event_of t (trim (ob_source ob)) (trim (ob_at ob)) (event_key lc num sha t ob) reason"
      by (auto simp: fired_by_def)
    from matchReason_Inr [OF t(3)] have "parse (trim (ob_at ob)) \<noteq> None"
      by (auto simp: require_instant_def clean_trigger_def rbind_Inr_iff split: if_splits)
    with call(1) t trigger_engine_Inr [OF assms(1) t(1)] show ?thesis
      by (intro exI [of _ t] exI [of _ ob]) (simp add: trigger_event_of_def)
  qed
  ultimately show ?thesis by blast
qed

text \<open>
  Evaluating an observation is idempotent: once a call has answered an event, and after any further
  calls, the same call answers the same event and writes nothing.
\<close>

theorem trigger_fires_once:
  assumes "evaluate_trigger lc num sha parse ts i ob (fold (trigger_step lc num sha parse ts) before []) = (Inr (Some e), st)"
    and "st' = fold (trigger_step lc num sha parse ts) later st"
  shows "e \<in> set st \<and> evaluate_trigger lc num sha parse ts i ob st' = (Inr (Some e), st')"
proof -
  let ?s = "fold (trigger_step lc num sha parse ts) before []"
  from assms(1) obtain t reason where t: "map_of ts i = Some t" "tg_enabled t" "matchReason num parse t ob = Inr (Some reason)"
    and r: "record_event (trigger_event_of t (trim (ob_source ob)) (trim (ob_at ob)) (event_key lc num sha t ob) reason) ?s = (e, st)"
    by (cases rule: evaluate_cases [of lc num sha parse ts i ob ?s]) (auto simp: Let_def prod_eq_iff)
  let ?e = "trigger_event_of t (trim (ob_source ob)) (trim (ob_at ob)) (event_key lc num sha t ob) reason"
  have "e \<in> set st \<and> tv_key e = tv_key ?e" using r by (cases rule: record_event_cases [of ?e ?s]) auto
  then have e: "e \<in> set st" "tv_key e = event_key lc num sha t ob" by (simp_all add: trigger_event_of_def)
  have "st = trigger_step lc num sha parse ts (i, ob) ?s" using assms(1) by (simp add: trigger_step_def)
  then have "st = fold (trigger_step lc num sha parse ts) (before @ [(i, ob)]) []" by simp
  then have d: "distinct (map tv_key st)" using trigger_log.run_inv [of "[]" lc num sha parse ts "before @ [(i, ob)]"] by simp
  have "distinct (map tv_key st')" unfolding assms(2) by (rule trigger_log.run_inv [OF d])
  moreover have "e \<in> set st'" unfolding assms(2) by (rule trigger_log.entry_persists [OF e(1)])
  ultimately show ?thesis using evaluate_known [OF _ _ t] e by blast
qed

text \<open>
  The key is taken from the observation's fields as they came, and the event holds them trimmed: two
  observations that differ only in blanks around the source key are recorded as two events which
  differ in nothing but their keys and ids, unless the digests collide.
\<close>

theorem untrimmed_sources_fire_twice:
  assumes "evaluate_trigger lc num sha parse ts i ob [] = (Inr (Some e), st)" and "map_of ts i = Some t"
    and "trim s = trim (ob_source ob)" and "event_key lc num sha t (ob\<lparr>ob_source := s\<rparr>) \<noteq> event_key lc num sha t ob"
  shows "\<exists>e'. evaluate_trigger lc num sha parse ts i (ob\<lparr>ob_source := s\<rparr>) st = (Inr (Some e'), [e, e'])
    \<and> e' = e\<lparr>tv_id := tv_id e', tv_key := tv_key e'\<rparr> \<and> tv_key e' \<noteq> tv_key e"
proof -
  from assms(1,2) obtain reason where t: "tg_enabled t" "matchReason num parse t ob = Inr (Some reason)"
    and e: "e = trigger_event_of t (trim (ob_source ob)) (trim (ob_at ob)) (event_key lc num sha t ob) reason" "st = [e]"
    by (cases rule: evaluate_cases [of lc num sha parse ts i ob "[]"]) (auto simp: Let_def record_event_def)
  let ?ob = "ob\<lparr>ob_source := s\<rparr>"
  from t(2) assms(3) have "matchReason num parse t ?ob = Inr (Some reason)"
    by (auto simp: matchReason_def clean_trigger_def observed_value_def rbind_Inr_iff split: if_splits)
  with assms(2) t(1) matchReason_Inr [OF this] have
    "evaluate_trigger lc num sha parse ts i ?ob [e]
     = (let p = record_event (trigger_event_of t (trim s) (trim (ob_at ob)) (event_key lc num sha t ?ob) reason) [e] in
        (Inr (Some (fst p)), snd p))"
    by (simp add: evaluate_trigger_def split_beta Let_def)
  with assms(3,4) e show ?thesis by (simp add: record_event_def trigger_event_of_def Let_def)
qed

text \<open>A price watch, and an observation below its threshold.\<close>

definition price_watch :: trigger_definition where
  "price_watch = \<lparr>tg_id = ''w'', tg_goal = ''g'', tg_plan = ''p'', tg_revision = ''p:rev1'',
     tg_condition = PriceBelow ''price'' (Fin 10), tg_enabled = True, tg_created = ''d''\<rparr>"

definition low_price :: "string \<Rightarrow> trigger_observation" where
  "low_price s = \<lparr>ob_at = ''d'', ob_source = s, ob_values = [(''price'', JNumber (Fin 7))]\<rparr>"

abbreviation price_step where
  "price_step \<equiv> trigger_step default (\<lambda>_. ''0'') id (\<lambda>_. Some 0) [(''w'', price_watch)]"

abbreviation price_evaluate where
  "price_evaluate \<equiv> evaluate_trigger default (\<lambda>_. ''0'') id (\<lambda>_. Some 0) [(''w'', price_watch)] ''w''"

lemma price_engine: "trigger_engine (\<lambda>_. Some 0) [] [price_watch] = Inr [(''w'', price_watch)]"
  by code_simp

lemma price_fires: "\<exists>e. price_evaluate (low_price ''s'') [] = (Inr (Some e), [e])"
  by (rule exI [of _ "trigger_event_of price_watch ''s'' ''d'' (event_key default (\<lambda>_. ''0'') id price_watch (low_price ''s''))
      ''price below 0''"]) code_simp

theorem trigger_events_sound_witness:
  "\<exists>e. fold price_step [(''w'', low_price ''s'')] [] = [e] \<and> tv_goal e = ''g'' \<and> tv_source e = ''s''"
proof -
  from price_fires obtain e where e: "fold price_step [(''w'', low_price ''s'')] [] = [e]"
    by (auto simp: trigger_step_def)
  with trigger_events_sound [OF price_engine refl, where lc = default and num = "\<lambda>_. ''0''" and sha = id
      and calls = "[(''w'', low_price ''s'')]"]
  have "\<exists>d ob. d \<in> {price_watch} \<and> ob = low_price ''s'' \<and> tv_goal e = tg_goal d \<and> tv_source e = trim (ob_source ob)" by auto
  moreover have "tg_goal price_watch = ''g''" "trim (ob_source (low_price ''s'')) = ''s''" by code_simp+
  ultimately show ?thesis using e by auto
qed

theorem trigger_fires_once_witness:
  "\<exists>e st. price_evaluate (low_price ''s'') [] = (Inr (Some e), st)
     \<and> price_evaluate (low_price ''s'') (fold price_step [(''w'', low_price ''u'')] st)
       = (Inr (Some e), fold price_step [(''w'', low_price ''u'')] st)"
proof -
  from price_fires obtain e where e: "price_evaluate (low_price ''s'') (fold price_step [] []) = (Inr (Some e), [e])" by auto
  from trigger_fires_once [OF this refl, of "[(''w'', low_price ''u'')]"] e show ?thesis by auto
qed

theorem untrimmed_sources_fire_twice_witness:
  "\<exists>e e'. price_evaluate ((low_price ''s'')\<lparr>ob_source := '' s''\<rparr>) [e] = (Inr (Some e'), [e, e']) \<and> tv_source e' = tv_source e"
proof -
  from price_fires obtain e where e: "price_evaluate (low_price ''s'') [] = (Inr (Some e), [e])" by auto
  have "map_of [(''w'', price_watch)] ''w'' = Some price_watch" by simp
  moreover have "trim '' s'' = trim (ob_source (low_price ''s''))" by code_simp
  moreover have "event_key default (\<lambda>_. ''0'') id price_watch ((low_price ''s'')\<lparr>ob_source := '' s''\<rparr>)
      \<noteq> event_key default (\<lambda>_. ''0'') id price_watch (low_price ''s'')" by code_simp
  ultimately obtain e' where e': "price_evaluate ((low_price ''s'')\<lparr>ob_source := '' s''\<rparr>) [e] = (Inr (Some e'), [e, e'])"
    "e' = e\<lparr>tv_id := tv_id e', tv_key := tv_key e'\<rparr>"
    using untrimmed_sources_fire_twice [OF e] by blast
  from e'(2) have "tv_source e' = tv_source (e\<lparr>tv_id := tv_id e', tv_key := tv_key e'\<rparr>)" by (rule arg_cong)
  then have "tv_source e' = tv_source e" by simp
  with e'(1) show ?thesis by blast
qed

end
