(* ===== verification/Mission_Execution.thy ===== *)
theory Mission_Execution
  imports Mission_Engine
begin

text \<open>
  The execution of a mission's plan (\<open>mission/mission-execution-engine.ts\<close>): a status per task, the
  evidence recorded for it, and the operations that move it. Results: what holds of every state the
  engine can reach (a task leaves pending exactly when its dependencies are completed, a completed
  task has its required evidence), and that a mission none of whose tasks failed can always be
  finished.
\<close>

section \<open>State\<close>

record evidence_ref =
  ev_key :: string
  ev_evidence :: string
  ev_recorded_at :: string

record task_execution =
  te_id :: string
  te_status :: task_status
  te_evidence :: "evidence_ref list"
  te_started :: "string option"
  te_completed :: "string option"
  te_failed :: "string option"
  te_reason :: "string option"

record mission_execution =
  es_mission :: string
  es_plan :: mission_plan
  es_tasks :: "task_execution list"
  es_created :: string
  es_updated :: string

datatype mission_execution_error =
  ExecutionInvariant string
| MissionTaskNotFound string
| InvalidTaskTransition string task_status task_status
| MissionTaskBlocked string
| MissingTaskEvidence string "string list"

section \<open>Operations\<close>

definition requireExecution :: "mission_execution \<Rightarrow> string \<Rightarrow> mission_execution_error + task_execution" where
  "requireExecution s i = (case List.find (\<lambda>x. te_id x = i) (es_tasks s) of
     None \<Rightarrow> Inl (MissionTaskNotFound i) | Some x \<Rightarrow> Inr x)"

definition requireTask :: "mission_execution \<Rightarrow> string \<Rightarrow> mission_execution_error + mission_task" where
  "requireTask s i = (case List.find (\<lambda>t. task_id t = i) (plan_tasks (es_plan s)) of
     None \<Rightarrow> Inl (MissionTaskNotFound i) | Some t \<Rightarrow> Inr t)"

definition assertFreshExecution :: "mission_execution \<Rightarrow> string \<Rightarrow> mission_execution_error + unit" where
  "assertFreshExecution s now = throw_if (now \<le> es_updated s) (ExecutionInvariant ''updatedAt'')"

definition dependenciesComplete :: "mission_task \<Rightarrow> string list \<Rightarrow> bool" where
  "dependenciesComplete t completed = list_all (\<lambda>d. d \<in> set completed) (depends_on t)"

definition initialize :: "mission \<Rightarrow> string \<Rightarrow> mission_execution_error + mission_execution" where
  "initialize m now = (case mission_plan m of
     None \<Rightarrow> Inl (ExecutionInvariant ''plan'')
   | Some p \<Rightarrow>
       if mission_status m \<noteq> Planned \<and> mission_status m \<noteq> Active then Inl (ExecutionInvariant ''status'')
       else Inr \<lparr>es_mission = mission_id m, es_plan = p,
         es_tasks = map (\<lambda>t. \<lparr>te_id = task_id t, te_status = (if dependenciesComplete t [] then TaskReady else TaskPending),
           te_evidence = [], te_started = None, te_completed = None, te_failed = None, te_reason = None\<rparr>) (plan_tasks p),
         es_created = now, es_updated = now\<rparr>)"

definition replaceExecution :: "mission_execution \<Rightarrow> task_execution \<Rightarrow> string \<Rightarrow> mission_execution" where
  "replaceExecution s r now =
     s\<lparr>es_tasks := map (\<lambda>x. if te_id x = te_id r then r else x) (es_tasks s), es_updated := now\<rparr>"

definition completed_ids :: "mission_execution \<Rightarrow> string list" where
  "completed_ids s = map te_id (filter (\<lambda>x. te_status x = TaskCompleted) (es_tasks s))"

definition refreshReadiness :: "mission_execution \<Rightarrow> mission_execution_error + mission_execution" where
  "refreshReadiness s =
     rbind (map_res (\<lambda>x. if te_status x \<noteq> TaskPending then Inr x
         else rbind (requireTask s (te_id x)) (\<lambda>t.
           Inr (if dependenciesComplete t (completed_ids s) then x\<lparr>te_status := TaskReady\<rparr> else x))) (es_tasks s)) (\<lambda>tasks.
     Inr (s\<lparr>es_tasks := tasks\<rparr>))"

definition startTask :: "mission_execution \<Rightarrow> string \<Rightarrow> string \<Rightarrow> mission_execution_error + mission_execution" where
  "startTask s i now =
     rbind (assertFreshExecution s now) (\<lambda>_.
     rbind (requireExecution s i) (\<lambda>x.
     if te_status x = TaskPending then Inl (MissionTaskBlocked i)
     else if te_status x \<noteq> TaskReady then Inl (InvalidTaskTransition i (te_status x) TaskActive)
     else Inr (replaceExecution s (x\<lparr>te_status := TaskActive, te_started := Some now\<rparr>) now)))"

definition recordEvidence ::
  "mission_execution \<Rightarrow> string \<Rightarrow> evidence_ref \<Rightarrow> string \<Rightarrow> mission_execution_error + mission_execution" where
  "recordEvidence s i e now =
     rbind (assertFreshExecution s now) (\<lambda>_.
     rbind (requireExecution s i) (\<lambda>x.
     if te_status x \<noteq> TaskActive then Inl (InvalidTaskTransition i (te_status x) (te_status x))
     else rbind (requireTask s i) (\<lambda>t.
       if \<not> list_ex (\<lambda>q. er_key q = ev_key e) (evidence_requirements t) then Inl (ExecutionInvariant ''requirement'')
       else Inr (replaceExecution s
         (x\<lparr>te_evidence := filter (\<lambda>f. ev_key f \<noteq> ev_key e) (te_evidence x) @ [e]\<rparr>) now))))"

definition completeTask :: "mission_execution \<Rightarrow> string \<Rightarrow> string \<Rightarrow> mission_execution_error + mission_execution" where
  "completeTask s i now =
     rbind (assertFreshExecution s now) (\<lambda>_.
     rbind (requireExecution s i) (\<lambda>x.
     if te_status x \<noteq> TaskActive then Inl (InvalidTaskTransition i (te_status x) TaskCompleted)
     else rbind (requireTask s i) (\<lambda>t.
       let missing = map er_key (filter (\<lambda>q. er_required q \<and> er_key q \<notin> set (map ev_key (te_evidence x))) (evidence_requirements t)) in
       if missing \<noteq> [] then Inl (MissingTaskEvidence i missing)
       else refreshReadiness (replaceExecution s (x\<lparr>te_status := TaskCompleted, te_completed := Some now\<rparr>) now))))"

definition failTask :: "mission_execution \<Rightarrow> string \<Rightarrow> string \<Rightarrow> string \<Rightarrow> mission_execution_error + mission_execution" where
  "failTask s i reason now =
     rbind (assertFreshExecution s now) (\<lambda>_.
     rbind (requireExecution s i) (\<lambda>x.
     if te_status x \<noteq> TaskActive then Inl (InvalidTaskTransition i (te_status x) TaskFailed)
     else if trim reason = [] then Inl (ExecutionInvariant ''failure reason'')
     else Inr (replaceExecution s (x\<lparr>te_status := TaskFailed, te_reason := Some (trim reason), te_failed := Some now\<rparr>) now)))"

definition isComplete :: "mission_execution \<Rightarrow> bool" where
  "isComplete s \<longleftrightarrow> es_tasks s \<noteq> [] \<and> list_all (\<lambda>x. te_status x = TaskCompleted) (es_tasks s)"

text \<open>One call that returned.\<close>

inductive task_step :: "mission_execution \<Rightarrow> mission_execution \<Rightarrow> bool" where
  step_start: "startTask s i now = Inr s' \<Longrightarrow> task_step s s'"
| step_record: "recordEvidence s i e now = Inr s' \<Longrightarrow> task_step s s'"
| step_complete: "completeTask s i now = Inr s' \<Longrightarrow> task_step s s'"
| step_fail: "failTask s i reason now = Inr s' \<Longrightarrow> task_step s s'"

section \<open>The invariant\<close>

definition task_ok :: "mission_execution \<Rightarrow> task_execution \<Rightarrow> bool" where
  "task_ok s x \<longleftrightarrow>
     (te_status x \<noteq> TaskPending \<longleftrightarrow> set (deps_of (plan_tasks (es_plan s)) (te_id x)) \<subseteq> set (completed_ids s))"

text \<open>The evidence of a task: one piece per declared requirement, and all required ones once it is completed.\<close>

definition evidence_ok :: "mission_plan \<Rightarrow> task_execution \<Rightarrow> bool" where
  "evidence_ok p x \<longleftrightarrow> distinct (map ev_key (te_evidence x))
     \<and> (\<exists>t\<in>set (plan_tasks p). task_id t = te_id x
          \<and> ev_key ` set (te_evidence x) \<subseteq> er_key ` set (evidence_requirements t)
          \<and> (te_status x = TaskCompleted \<longrightarrow>
               er_key ` {q \<in> set (evidence_requirements t). er_required q} \<subseteq> ev_key ` set (te_evidence x)))"

definition execution_inv :: "mission_execution \<Rightarrow> bool" where
  "execution_inv s \<longleftrightarrow> well_formed_plan (es_plan s) \<and> map te_id (es_tasks s) = task_ids (plan_tasks (es_plan s))
     \<and> (\<forall>x\<in>set (es_tasks s). task_ok s x) \<and> (\<forall>x\<in>set (es_tasks s). evidence_ok (es_plan s) x)"

lemma execution_inv_ids: "execution_inv s \<Longrightarrow> distinct (map te_id (es_tasks s))"
  by (simp add: execution_inv_def well_formed_plan_def)

lemma requireExecution_Inr: "requireExecution s i = Inr x \<Longrightarrow> x \<in> set (es_tasks s) \<and> te_id x = i"
  by (auto simp: requireExecution_def dest: find_Some_D split: option.splits)

lemma requireTask_Inr: "requireTask s i = Inr t \<Longrightarrow> t \<in> set (plan_tasks (es_plan s)) \<and> task_id t = i"
  by (auto simp: requireTask_def dest: find_Some_D split: option.splits)

lemma deps_of_task:
  "well_formed_plan p \<Longrightarrow> t \<in> set (plan_tasks p) \<Longrightarrow> deps_of (plan_tasks p) (task_id t) = depends_on t"
  by (simp add: deps_of_def tasks_by_id_distinct well_formed_plan_def)

lemma task_unique:
  "well_formed_plan p \<Longrightarrow> t \<in> set (plan_tasks p) \<Longrightarrow> u \<in> set (plan_tasks p) \<Longrightarrow> task_id t = task_id u \<Longrightarrow> t = u"
  by (auto simp: well_formed_plan_def task_ids_def distinct_map dest: inj_onD)

lemma requireTask_ok:
  assumes "execution_inv s" and "x \<in> set (es_tasks s)"
  obtains t where "requireTask s (te_id x) = Inr t" "t \<in> set (plan_tasks (es_plan s))" "task_id t = te_id x"
proof -
  from assms have "te_id x \<in> set (task_ids (plan_tasks (es_plan s)))"
    by (metis execution_inv_def image_eqI set_map)
  then have "requireTask s (te_id x) \<noteq> Inl e" for e
    by (auto simp: requireTask_def task_ids_def find_None_iff split: option.splits)
  with that requireTask_Inr show ?thesis by (cases "requireTask s (te_id x)") blast+
qed

lemma completed_mem: "i \<in> set (completed_ids s) \<longleftrightarrow> (\<exists>x\<in>set (es_tasks s). te_id x = i \<and> te_status x = TaskCompleted)"
  by (auto simp: completed_ids_def)

lemma completed_status:
  assumes "execution_inv s" and "x \<in> set (es_tasks s)"
  shows "te_id x \<in> set (completed_ids s) \<longleftrightarrow> te_status x = TaskCompleted"
proof -
  have "y = x" if "y \<in> set (es_tasks s)" "te_id y = te_id x" for y
    using assms that by (auto dest!: execution_inv_ids simp: distinct_map dest: inj_onD)
  with assms(2) show ?thesis by (auto simp: completed_mem)
qed

lemma pending_iff:
  "execution_inv s \<Longrightarrow> x \<in> set (es_tasks s) \<Longrightarrow>
     te_status x \<noteq> TaskPending \<longleftrightarrow> set (deps_of (plan_tasks (es_plan s)) (te_id x)) \<subseteq> set (completed_ids s)"
  by (simp add: execution_inv_def task_ok_def)

lemma replace_plan [simp]: "es_plan (replaceExecution s r now) = es_plan s"
  by (simp add: replaceExecution_def)

lemma replace_ids: "map te_id (es_tasks (replaceExecution s r now)) = map te_id (es_tasks s)"
  by (simp add: replaceExecution_def)

lemma replace_mem: "y \<in> set (es_tasks (replaceExecution s r now)) \<Longrightarrow> y = r \<or> (y \<in> set (es_tasks s) \<and> te_id y \<noteq> te_id r)"
  by (auto simp: replaceExecution_def split: if_splits)

lemma replace_completed:
  assumes "x \<in> set (es_tasks s)" and "te_id r = te_id x" and "te_status x \<noteq> TaskCompleted" and "distinct (map te_id (es_tasks s))"
  shows "set (completed_ids (replaceExecution s r now))
    = (if te_status r = TaskCompleted then insert (te_id x) (set (completed_ids s)) else set (completed_ids s))"
proof -
  have "y = x" if "y \<in> set (es_tasks s)" "te_id y = te_id x" for y
    using assms(1,4) that by (auto simp: distinct_map dest: inj_onD)
  then have "i \<in> set (completed_ids (replaceExecution s r now))
      \<longleftrightarrow> i \<in> set (completed_ids s) \<or> (i = te_id x \<and> te_status r = TaskCompleted)" for i
    using assms(1-3) unfolding completed_mem by (auto simp: replaceExecution_def)
  then show ?thesis by auto
qed

lemma replace_inv:
  assumes inv: "execution_inv s" and x: "x \<in> set (es_tasks s)" "te_status x \<noteq> TaskCompleted" "te_status x \<noteq> TaskPending"
    and r: "te_id r = te_id x" "te_status r \<noteq> TaskCompleted" "te_status r \<noteq> TaskPending" "evidence_ok (es_plan s) r"
  shows "execution_inv (replaceExecution s r now)"
proof -
  have completed: "set (completed_ids (replaceExecution s r now)) = set (completed_ids s)"
    using replace_completed [OF x(1) r(1) x(2) execution_inv_ids [OF inv], of now] r(2) by simp
  have "task_ok (replaceExecution s r now) y" if "y \<in> set (es_tasks (replaceExecution s r now))" for y
    using replace_mem [OF that] inv x(1,3) r(1,3) by (auto simp: task_ok_def completed execution_inv_def)
  moreover have "evidence_ok (es_plan s) y" if "y \<in> set (es_tasks (replaceExecution s r now))" for y
    using replace_mem [OF that] inv r(4) by (auto simp: execution_inv_def)
  ultimately show ?thesis using inv by (auto simp: execution_inv_def replace_ids)
qed

lemma map_res_total: "(\<And>x. x \<in> set xs \<Longrightarrow> f x = Inr (g x)) \<Longrightarrow> map_res f xs = Inr (map g xs)"
  by (induction xs) simp_all

text \<open>Readiness is refreshed for the tasks that are pending.\<close>

definition refreshed :: "mission_execution \<Rightarrow> task_execution \<Rightarrow> task_execution" where
  "refreshed s x = (if te_status x = TaskPending \<and> set (deps_of (plan_tasks (es_plan s)) (te_id x)) \<subseteq> set (completed_ids s)
     then x\<lparr>te_status := TaskReady\<rparr> else x)"

lemma refreshed_simps [simp]:
  "te_id (refreshed s x) = te_id x" "te_evidence (refreshed s x) = te_evidence x"
  "te_status (refreshed s x) = TaskCompleted \<longleftrightarrow> te_status x = TaskCompleted"
  "te_status (refreshed s x) = TaskFailed \<longleftrightarrow> te_status x = TaskFailed"
  by (auto simp: refreshed_def)

lemma completed_refreshed: "set (completed_ids (s\<lparr>es_tasks := map (refreshed s') (es_tasks s)\<rparr>)) = set (completed_ids s)"
  by (rule set_eqI) (simp add: completed_mem)

lemma refreshReadiness_total:
  assumes "well_formed_plan (es_plan s)" and "map te_id (es_tasks s) = task_ids (plan_tasks (es_plan s))"
  shows "refreshReadiness s = Inr (s\<lparr>es_tasks := map (refreshed s) (es_tasks s)\<rparr>)"
proof -
  have "(if te_status x \<noteq> TaskPending then Inr x else rbind (requireTask s (te_id x)) (\<lambda>t.
           Inr (if dependenciesComplete t (completed_ids s) then x\<lparr>te_status := TaskReady\<rparr> else x))) = Inr (refreshed s x)"
    if "x \<in> set (es_tasks s)" for x
  proof -
    from that assms(2) have "te_id x \<in> set (task_ids (plan_tasks (es_plan s)))" by (metis image_eqI set_map)
    then have "requireTask s (te_id x) \<noteq> Inl e" for e
      by (auto simp: requireTask_def task_ids_def find_None_iff split: option.splits)
    then obtain t where t: "requireTask s (te_id x) = Inr t" by (cases "requireTask s (te_id x)") auto
    with requireTask_Inr [OF t] deps_of_task [OF assms(1), of t]
    have "dependenciesComplete t (completed_ids s) \<longleftrightarrow> set (deps_of (plan_tasks (es_plan s)) (te_id x)) \<subseteq> set (completed_ids s)"
      by (auto simp: dependenciesComplete_def list_all_iff)
    with t show ?thesis by (auto simp: refreshed_def)
  qed
  then have "map_res (\<lambda>x. if te_status x \<noteq> TaskPending then Inr x else rbind (requireTask s (te_id x)) (\<lambda>t.
           Inr (if dependenciesComplete t (completed_ids s) then x\<lparr>te_status := TaskReady\<rparr> else x))) (es_tasks s)
      = Inr (map (refreshed s) (es_tasks s))" by (rule map_res_total)
  then show ?thesis by (simp add: refreshReadiness_def)
qed

lemma refreshed_inv:
  assumes plan: "well_formed_plan (es_plan s)" "map te_id (es_tasks s) = task_ids (plan_tasks (es_plan s))"
    and started: "\<And>x. x \<in> set (es_tasks s) \<Longrightarrow> te_status x \<noteq> TaskPending \<Longrightarrow>
      set (deps_of (plan_tasks (es_plan s)) (te_id x)) \<subseteq> set (completed_ids s)"
    and evidence: "\<And>x. x \<in> set (es_tasks s) \<Longrightarrow> evidence_ok (es_plan s) x"
  shows "execution_inv (s\<lparr>es_tasks := map (refreshed s) (es_tasks s)\<rparr>)" (is "execution_inv ?s'")
proof -
  have completed: "set (completed_ids ?s') = set (completed_ids s)" by (rule completed_refreshed)
  have "task_ok ?s' (refreshed s x)" if "x \<in> set (es_tasks s)" for x
    using started [OF that] by (auto simp: task_ok_def completed refreshed_def)
  moreover have "evidence_ok (es_plan s) (refreshed s x)" if "x \<in> set (es_tasks s)" for x
    using evidence [OF that] by (simp add: evidence_ok_def)
  ultimately show ?thesis using plan by (auto simp: execution_inv_def comp_def)
qed

section \<open>Steps\<close>

lemma startTask_Inr:
  "startTask s i now = Inr s' \<Longrightarrow> \<exists>x\<in>set (es_tasks s). te_id x = i \<and> te_status x = TaskReady
     \<and> s' = replaceExecution s (x\<lparr>te_status := TaskActive, te_started := Some now\<rparr>) now"
  by (auto simp: startTask_def rbind_Inr_iff dest: requireExecution_Inr split: if_splits)

lemma recordEvidence_Inr:
  "recordEvidence s i e now = Inr s' \<Longrightarrow> \<exists>x\<in>set (es_tasks s). \<exists>t\<in>set (plan_tasks (es_plan s)). te_id x = i \<and> task_id t = i
     \<and> te_status x = TaskActive \<and> ev_key e \<in> er_key ` set (evidence_requirements t)
     \<and> s' = replaceExecution s (x\<lparr>te_evidence := filter (\<lambda>f. ev_key f \<noteq> ev_key e) (te_evidence x) @ [e]\<rparr>) now"
proof -
  assume "recordEvidence s i e now = Inr s'"
  then obtain x t where "requireExecution s i = Inr x" "requireTask s i = Inr t" "te_status x = TaskActive"
    "list_ex (\<lambda>q. er_key q = ev_key e) (evidence_requirements t)"
    "s' = replaceExecution s (x\<lparr>te_evidence := filter (\<lambda>f. ev_key f \<noteq> ev_key e) (te_evidence x) @ [e]\<rparr>) now"
    by (auto simp: recordEvidence_def rbind_Inr_iff split: if_splits)
  with requireExecution_Inr [of s i x] requireTask_Inr [of s i t] show ?thesis
    unfolding list_ex_iff by (intro bexI [of _ x] bexI [of _ t]) (auto simp: image_iff intro: sym)
qed

lemma completeTask_Inr:
  "completeTask s i now = Inr s' \<Longrightarrow> \<exists>x\<in>set (es_tasks s). \<exists>t\<in>set (plan_tasks (es_plan s)). te_id x = i \<and> task_id t = i
     \<and> te_status x = TaskActive \<and> er_key ` {q \<in> set (evidence_requirements t). er_required q} \<subseteq> ev_key ` set (te_evidence x)
     \<and> refreshReadiness (replaceExecution s (x\<lparr>te_status := TaskCompleted, te_completed := Some now\<rparr>) now) = Inr s'"
proof -
  assume "completeTask s i now = Inr s'"
  then obtain x t where "requireExecution s i = Inr x" "requireTask s i = Inr t" "te_status x = TaskActive"
    "filter (\<lambda>q. er_required q \<and> er_key q \<notin> set (map ev_key (te_evidence x))) (evidence_requirements t) = []"
    "refreshReadiness (replaceExecution s (x\<lparr>te_status := TaskCompleted, te_completed := Some now\<rparr>) now) = Inr s'"
    by (auto simp: completeTask_def rbind_Inr_iff Let_def split: if_splits)
  with requireExecution_Inr [of s i x] requireTask_Inr [of s i t] show ?thesis
    unfolding filter_empty_conv by (intro bexI [of _ x] bexI [of _ t]) auto
qed

lemma failTask_Inr:
  "failTask s i reason now = Inr s' \<Longrightarrow> \<exists>x\<in>set (es_tasks s). te_id x = i \<and> te_status x = TaskActive
     \<and> s' = replaceExecution s (x\<lparr>te_status := TaskFailed, te_reason := Some (trim reason), te_failed := Some now\<rparr>) now"
  by (auto simp: failTask_def rbind_Inr_iff dest: requireExecution_Inr split: if_splits)

lemma evidence_ok_status: "evidence_ok p x \<Longrightarrow> te_id r = te_id x \<Longrightarrow> te_evidence r = te_evidence x
    \<Longrightarrow> te_status r \<noteq> TaskCompleted \<Longrightarrow> evidence_ok p r"
  by (auto simp: evidence_ok_def)

lemma evidence_ok_record:
  assumes "evidence_ok p x" and "te_status x = TaskActive" and "well_formed_plan p"
    and "t \<in> set (plan_tasks p)" "task_id t = te_id x" "ev_key e \<in> er_key ` set (evidence_requirements t)"
  shows "evidence_ok p (x\<lparr>te_evidence := filter (\<lambda>f. ev_key f \<noteq> ev_key e) (te_evidence x) @ [e]\<rparr>)"
proof -
  from assms(1) obtain u where u: "u \<in> set (plan_tasks p)" "task_id u = te_id x"
    "ev_key ` set (te_evidence x) \<subseteq> er_key ` set (evidence_requirements u)" "distinct (map ev_key (te_evidence x))"
    by (auto simp: evidence_ok_def)
  with assms(3-5) have "u = t" by (metis task_unique)
  with u assms(2,4-6) show ?thesis
    by (auto simp: evidence_ok_def distinct_map inj_on_def intro!: bexI [of _ t])
qed

text \<open>What completing a task leaves, before readiness is refreshed.\<close>

lemma completed_task_inv:
  assumes inv: "execution_inv s" and x: "x \<in> set (es_tasks s)" "te_status x = TaskActive"
    and t: "t \<in> set (plan_tasks (es_plan s))" "task_id t = te_id x"
      "er_key ` {q \<in> set (evidence_requirements t). er_required q} \<subseteq> ev_key ` set (te_evidence x)"
    and r: "r = x\<lparr>te_status := TaskCompleted, te_completed := Some now\<rparr>"
  shows "\<exists>s'. refreshReadiness (replaceExecution s r now) = Inr s' \<and> execution_inv s'
    \<and> set (completed_ids s') = insert (te_id x) (set (completed_ids s)) \<and> es_plan s' = es_plan s
    \<and> es_tasks s' = map (refreshed (replaceExecution s r now)) (es_tasks (replaceExecution s r now))"
proof -
  let ?s = "replaceExecution s r now"
  have plan: "well_formed_plan (es_plan ?s)" "map te_id (es_tasks ?s) = task_ids (plan_tasks (es_plan ?s))"
    using inv by (simp_all add: execution_inv_def replace_ids)
  have completed: "set (completed_ids ?s) = insert (te_id x) (set (completed_ids s))"
    using replace_completed [OF x(1), of r now] execution_inv_ids [OF inv] x(2) by (simp add: r)
  have started: "set (deps_of (plan_tasks (es_plan ?s)) (te_id y)) \<subseteq> set (completed_ids ?s)"
    if "y \<in> set (es_tasks ?s)" "te_status y \<noteq> TaskPending" for y
  proof -
    have sub: "set (deps_of (plan_tasks (es_plan ?s)) (te_id z)) \<subseteq> set (completed_ids ?s)"
      if "z \<in> set (es_tasks s)" "te_status z \<noteq> TaskPending" for z
      using inv that unfolding completed by (auto simp: execution_inv_def task_ok_def)
    from sub [OF x(1)] x(2) have "set (deps_of (plan_tasks (es_plan ?s)) (te_id r)) \<subseteq> set (completed_ids ?s)" by (simp add: r)
    with replace_mem [OF that(1)] sub [of y] that(2) show ?thesis by blast
  qed
  have ev: "evidence_ok (es_plan ?s) y" if "y \<in> set (es_tasks ?s)" for y
  proof -
    from inv x(1) obtain u where u: "u \<in> set (plan_tasks (es_plan s))" "task_id u = te_id x"
      "ev_key ` set (te_evidence x) \<subseteq> er_key ` set (evidence_requirements u)" "distinct (map ev_key (te_evidence x))"
      by (auto simp: execution_inv_def evidence_ok_def)
    with t(1,2) inv have "u = t" by (metis task_unique execution_inv_def)
    with u t have "evidence_ok (es_plan s) r" by (auto simp: evidence_ok_def r intro!: bexI [of _ t])
    with replace_mem [OF that] inv show ?thesis by (auto simp: execution_inv_def)
  qed
  have "set (completed_ids (?s\<lparr>es_tasks := map (refreshed ?s) (es_tasks ?s)\<rparr>)) = set (completed_ids ?s)"
    by (rule completed_refreshed)
  with refreshReadiness_total [OF plan] refreshed_inv [OF plan started ev] completed show ?thesis by auto
qed

lemma task_step_inv:
  assumes "task_step s s'" and inv: "execution_inv s"
  shows "execution_inv s' \<and> es_plan s' = es_plan s"
  using assms(1)
proof cases
  case (step_start i now)
  then obtain x where x: "x \<in> set (es_tasks s)" "te_status x = TaskReady"
    "s' = replaceExecution s (x\<lparr>te_status := TaskActive, te_started := Some now\<rparr>) now" by (auto dest: startTask_Inr)
  moreover from x inv have "evidence_ok (es_plan s) x" by (simp add: execution_inv_def)
  ultimately show ?thesis using replace_inv [OF inv x(1)] evidence_ok_status by simp
next
  case (step_record i e now)
  from recordEvidence_Inr [OF this] obtain x t where x: "x \<in> set (es_tasks s)" "te_status x = TaskActive"
    "t \<in> set (plan_tasks (es_plan s))" "task_id t = te_id x" "ev_key e \<in> er_key ` set (evidence_requirements t)"
    "s' = replaceExecution s (x\<lparr>te_evidence := filter (\<lambda>f. ev_key f \<noteq> ev_key e) (te_evidence x) @ [e]\<rparr>) now" by auto
  moreover from x inv have "evidence_ok (es_plan s) x" "well_formed_plan (es_plan s)" by (simp_all add: execution_inv_def)
  ultimately show ?thesis using replace_inv [OF inv x(1)] evidence_ok_record by simp
next
  case (step_complete i now)
  from completeTask_Inr [OF this] obtain x t where x: "x \<in> set (es_tasks s)" "te_status x = TaskActive"
    "t \<in> set (plan_tasks (es_plan s))" "task_id t = te_id x"
    "er_key ` {q \<in> set (evidence_requirements t). er_required q} \<subseteq> ev_key ` set (te_evidence x)"
    "refreshReadiness (replaceExecution s (x\<lparr>te_status := TaskCompleted, te_completed := Some now\<rparr>) now) = Inr s'" by auto
  from completed_task_inv [OF inv x(1-5) refl, of now] x(6) show ?thesis by auto
next
  case (step_fail i reason now)
  then obtain x where x: "x \<in> set (es_tasks s)" "te_status x = TaskActive"
    "s' = replaceExecution s (x\<lparr>te_status := TaskFailed, te_reason := Some (trim reason), te_failed := Some now\<rparr>) now"
    by (auto dest: failTask_Inr)
  moreover from x inv have "evidence_ok (es_plan s) x" by (simp add: execution_inv_def)
  ultimately show ?thesis using replace_inv [OF inv x(1)] evidence_ok_status by simp
qed

lemma initialize_inv:
  assumes "initialize m now = Inr s" and "mission_plan m = Some p" and "well_formed_plan p"
  shows "execution_inv s" and "es_plan s = p"
proof -
  from assms(1,2) show plan: "es_plan s = p" by (auto simp: initialize_def split: if_splits)
  have tasks: "es_tasks s = map (\<lambda>t. \<lparr>te_id = task_id t, te_status = (if dependenciesComplete t [] then TaskReady else TaskPending),
           te_evidence = [], te_started = None, te_completed = None, te_failed = None, te_reason = None\<rparr>) (plan_tasks p)"
    using assms(1,2) by (auto simp: initialize_def split: if_splits)
  have "completed_ids s = []" by (auto simp: completed_ids_def tasks filter_empty_conv)
  then show "execution_inv s"
    using assms(3) plan deps_of_task [OF assms(3)]
    by (auto simp: execution_inv_def tasks task_ids_def task_ok_def evidence_ok_def dependenciesComplete_def list_all_iff)
qed

lemma task_steps_inv: "task_step\<^sup>*\<^sup>* s s' \<Longrightarrow> execution_inv s \<Longrightarrow> execution_inv s' \<and> es_plan s' = es_plan s"
  by (induction rule: rtranclp_induct) (auto dest: task_step_inv)

section \<open>Finishing a mission\<close>

lemma acyclic_wf:
  assumes "acyclic_tasks tasks"
  shows "wf {(b, a). edge tasks a b}"
proof (rule finite_acyclic_wf)
  have "{(b, a). edge tasks a b} \<subseteq> (\<Union>a\<in>set (task_ids tasks). set (deps_of tasks a) \<times> {a})"
    using edge_source by (auto simp: edge_def)
  then show "finite {(b, a). edge tasks a b}" by (rule finite_subset) simp
  have "(edge tasks)\<^sup>+\<^sup>+ a b" if "(b, a) \<in> {(b, a). edge tasks a b}\<^sup>+" for a b
    using that by (induction rule: trancl_induct) (auto intro: tranclp.r_into_trancl tranclp_trans)
  with assms show "acyclic {(b, a). edge tasks a b}" by (auto simp: acyclic_def acyclic_tasks_def)
qed

lemma execution_of_task:
  assumes "execution_inv s" and "i \<in> set (task_ids (plan_tasks (es_plan s)))"
  shows "\<exists>x\<in>set (es_tasks s). te_id x = i"
proof -
  from assms have "i \<in> set (map te_id (es_tasks s))" by (simp add: execution_inv_def)
  then show ?thesis by auto
qed

text \<open>As long as a task is not completed, one that is not completed has left pending.\<close>

lemma workable_task:
  assumes inv: "execution_inv s" and x: "x \<in> set (es_tasks s)" "te_status x \<noteq> TaskCompleted"
  shows "\<exists>y\<in>set (es_tasks s). te_status y \<noteq> TaskCompleted \<and> te_status y \<noteq> TaskPending"
proof -
  let ?tasks = "plan_tasks (es_plan s)"
  let ?Q = "{i \<in> set (task_ids ?tasks). i \<notin> set (completed_ids s)}"
  have plan: "well_formed_plan (es_plan s)" using inv by (simp add: execution_inv_def)
  have unique: "y = z" if "y \<in> set (es_tasks s)" "z \<in> set (es_tasks s)" "te_id y = te_id z" for y z
    using that execution_inv_ids [OF inv] by (auto simp: distinct_map dest: inj_onD)
  have "te_id x \<in> set (task_ids ?tasks)" using inv x(1) by (metis execution_inv_def image_eqI set_map)
  moreover have "te_id x \<notin> set (completed_ids s)" using unique x by (auto simp: completed_mem)
  ultimately have mem: "te_id x \<in> ?Q" by simp
  have wf: "wf {(b, a). edge ?tasks a b}" using plan by (intro acyclic_wf) (simp add: well_formed_plan_def)
  obtain i where i: "i \<in> ?Q" "\<And>j. (j, i) \<in> {(b, a). edge ?tasks a b} \<Longrightarrow> j \<notin> ?Q"
    using wfE_min [OF wf mem] by blast
  from i(1) execution_of_task [OF inv, of i] obtain y where y: "y \<in> set (es_tasks s)" "te_id y = i" by auto
  from i(1) obtain t where t: "t \<in> set ?tasks" "task_id t = i" by (auto simp: task_ids_def)
  have "set (depends_on t) \<subseteq> set (task_ids ?tasks)" using plan t(1) by (auto simp: well_formed_plan_def)
  with i(2) deps_of_task [OF plan t(1)] t(2) have "set (deps_of ?tasks i) \<subseteq> set (completed_ids s)"
    by (auto simp: edge_def)
  with inv y have "te_status y \<noteq> TaskPending" by (auto simp: execution_inv_def task_ok_def)
  moreover from i(1) y have "te_status y \<noteq> TaskCompleted" by (auto simp: completed_mem)
  ultimately show ?thesis using y(1) by blast
qed

lemma later_time [simp]: "\<not> t @ [c] \<le> (t :: string)"
proof -
  have "t < t @ [c]" by (induction t) simp_all
  then show ?thesis by simp
qed

definition untroubled :: "mission_execution \<Rightarrow> bool" where
  "untroubled s \<longleftrightarrow> (\<forall>x\<in>set (es_tasks s). te_status x \<noteq> TaskFailed)"

lemma find_execution:
  assumes "execution_inv s" and "x \<in> set (es_tasks s)"
  shows "requireExecution s (te_id x) = Inr x"
proof -
  have "List.find (\<lambda>y. te_id y = te_id x) (es_tasks s) \<noteq> None" using assms(2) by (auto simp: find_None_iff)
  then obtain y where y: "List.find (\<lambda>y. te_id y = te_id x) (es_tasks s) = Some y" by auto
  with find_Some_D [OF y] execution_inv_ids [OF assms(1)] assms(2) have "y = x" by (auto simp: distinct_map dest: inj_onD)
  with y show ?thesis by (simp add: requireExecution_def)
qed

lemma replace_untroubled: "untroubled s \<Longrightarrow> te_status r \<noteq> TaskFailed \<Longrightarrow> untroubled (replaceExecution s r now)"
  using replace_mem by (fastforce simp: untroubled_def)

lemma replaced_mem: "x \<in> set (es_tasks s) \<Longrightarrow> te_id r = te_id x \<Longrightarrow> r \<in> set (es_tasks (replaceExecution s r now))"
  by (force simp: replaceExecution_def)

text \<open>Three stages: a ready task is started, its evidence is recorded, it is completed.\<close>

lemma can_start:
  assumes inv: "execution_inv s" and x: "x \<in> set (es_tasks s)" "te_status x \<in> {TaskReady, TaskActive}" and "untroubled s"
  shows "\<exists>s' y. task_step\<^sup>*\<^sup>* s s' \<and> untroubled s' \<and> set (completed_ids s') = set (completed_ids s)
    \<and> y \<in> set (es_tasks s') \<and> te_id y = te_id x \<and> te_status y = TaskActive"
proof (cases "te_status x = TaskActive")
  case True
  with x assms(4) show ?thesis by blast
next
  case False
  with x(2) have ready: "te_status x = TaskReady" by simp
  let ?now = "es_updated s @ ''+''"
  let ?r = "x\<lparr>te_status := TaskActive, te_started := Some ?now\<rparr>"
  have "startTask s (te_id x) ?now = Inr (replaceExecution s ?r ?now)"
    using ready
    by (simp add: startTask_def assertFreshExecution_def find_execution [OF inv x(1)])
  then have "task_step s (replaceExecution s ?r ?now)" by (rule step_start)
  then have "task_step\<^sup>*\<^sup>* s (replaceExecution s ?r ?now)" by blast
  moreover have "set (completed_ids (replaceExecution s ?r ?now)) = set (completed_ids s)"
    using replace_completed [OF x(1), of ?r ?now] execution_inv_ids [OF inv] ready by simp
  moreover have "?r \<in> set (es_tasks (replaceExecution s ?r ?now))" by (rule replaced_mem [OF x(1)]) simp
  moreover have "untroubled (replaceExecution s ?r ?now)" by (rule replace_untroubled [OF assms(4)]) simp
  ultimately show ?thesis by (intro exI [of _ "replaceExecution s ?r ?now"] exI [of _ ?r]) simp
qed

lemma can_record:
  assumes "execution_inv s" and "x \<in> set (es_tasks s)" and "te_status x = TaskActive" and "untroubled s"
    and "t \<in> set (plan_tasks (es_plan s))" and "task_id t = te_id x" and "set qs \<subseteq> set (evidence_requirements t)"
  shows "\<exists>s' y. task_step\<^sup>*\<^sup>* s s' \<and> untroubled s' \<and> set (completed_ids s') = set (completed_ids s) \<and> es_plan s' = es_plan s
    \<and> y \<in> set (es_tasks s') \<and> te_id y = te_id x \<and> te_status y = TaskActive \<and> er_key ` set qs \<subseteq> ev_key ` set (te_evidence y)"
  using assms(7)
proof (induction qs)
  case Nil
  with assms show ?case by auto
next
  case (Cons q qs)
  then obtain s' y where steps: "task_step\<^sup>*\<^sup>* s s'" "untroubled s'" "set (completed_ids s') = set (completed_ids s)" "es_plan s' = es_plan s"
    and y: "y \<in> set (es_tasks s')" "te_id y = te_id x" "te_status y = TaskActive" "er_key ` set qs \<subseteq> ev_key ` set (te_evidence y)"
    by auto
  from task_steps_inv [OF steps(1) assms(1)] have inv: "execution_inv s'" by simp
  let ?now = "es_updated s' @ ''+''" and ?e = "\<lparr>ev_key = er_key q, ev_evidence = ''e'', ev_recorded_at = ''t''\<rparr>"
  let ?r = "y\<lparr>te_evidence := filter (\<lambda>f. ev_key f \<noteq> ev_key ?e) (te_evidence y) @ [?e]\<rparr>"
  obtain u where u: "requireTask s' (te_id y) = Inr u" "u \<in> set (plan_tasks (es_plan s'))" "task_id u = te_id y"
    by (rule requireTask_ok [OF inv y(1)])
  with assms(5,6) y(2) inv steps(4) have "u = t" by (metis task_unique execution_inv_def)
  with Cons.prems have "list_ex (\<lambda>p. er_key p = er_key q) (evidence_requirements u)" by (auto simp: list_ex_iff)
  then have "recordEvidence s' (te_id y) ?e ?now = Inr (replaceExecution s' ?r ?now)"
    using y(3) u(1)
    by (simp add: recordEvidence_def assertFreshExecution_def find_execution [OF inv y(1)])
  then have "task_step s' (replaceExecution s' ?r ?now)" by (rule step_record)
  with steps(1) have "task_step\<^sup>*\<^sup>* s (replaceExecution s' ?r ?now)" by (rule rtranclp.rtrancl_into_rtrancl)
  moreover have "er_key ` set (q # qs) \<subseteq> ev_key ` set (te_evidence ?r)"
  proof -
    have "k \<in> ev_key ` set (te_evidence ?r)" if "k \<in> ev_key ` set (te_evidence y)" for k
      using that by (cases "k = er_key q") (auto simp: image_iff)
    moreover have "er_key q \<in> ev_key ` set (te_evidence ?r)" by (simp add: image_iff)
    ultimately show ?thesis using y(4) unfolding list.set image_insert by blast
  qed
  moreover have "set (completed_ids (replaceExecution s' ?r ?now)) = set (completed_ids s)"
    using replace_completed [OF y(1), of ?r ?now] execution_inv_ids [OF inv] y(3) steps(3) by simp
  moreover have "?r \<in> set (es_tasks (replaceExecution s' ?r ?now))" by (rule replaced_mem [OF y(1)]) simp
  moreover have "untroubled (replaceExecution s' ?r ?now)" by (rule replace_untroubled [OF steps(2)]) (simp add: y(3))
  ultimately show ?case
    using y(2,3) steps(4) by (intro exI [of _ "replaceExecution s' ?r ?now"] exI [of _ ?r]) simp
qed

lemma can_complete:
  assumes inv: "execution_inv s" and x: "x \<in> set (es_tasks s)" "te_status x \<in> {TaskReady, TaskActive}" and "untroubled s"
  shows "\<exists>s'. task_step\<^sup>*\<^sup>* s s' \<and> untroubled s' \<and> set (completed_ids s') = insert (te_id x) (set (completed_ids s))"
proof -
  from can_start [OF assms] obtain s1 y where s1: "task_step\<^sup>*\<^sup>* s s1" "untroubled s1" "set (completed_ids s1) = set (completed_ids s)"
    and y: "y \<in> set (es_tasks s1)" "te_id y = te_id x" "te_status y = TaskActive" by blast
  from task_steps_inv [OF s1(1) inv] have inv1: "execution_inv s1" by simp
  obtain t where t: "requireTask s1 (te_id y) = Inr t" "t \<in> set (plan_tasks (es_plan s1))" "task_id t = te_id y"
    by (rule requireTask_ok [OF inv1 y(1)])
  from can_record [OF inv1 y(1,3) s1(2) t(2,3) order_refl] obtain s2 z where
    s2: "task_step\<^sup>*\<^sup>* s1 s2" "untroubled s2" "set (completed_ids s2) = set (completed_ids s)" "es_plan s2 = es_plan s1"
    and z: "z \<in> set (es_tasks s2)" "te_id z = te_id x" "te_status z = TaskActive"
      "er_key ` set (evidence_requirements t) \<subseteq> ev_key ` set (te_evidence z)" using s1(3) y(2) by auto
  from task_steps_inv [OF s2(1) inv1] have inv2: "execution_inv s2" by simp
  have t2: "t \<in> set (plan_tasks (es_plan s2))" "task_id t = te_id z" using t s2(4) y(2) z(2) by simp_all
  let ?now = "es_updated s2 @ ''+''"
  let ?r = "z\<lparr>te_status := TaskCompleted, te_completed := Some ?now\<rparr>"
  from z(4) have "er_key ` {q \<in> set (evidence_requirements t). er_required q} \<subseteq> ev_key ` set (te_evidence z)" by auto
  from completed_task_inv [OF inv2 z(1,3) t2 this refl] obtain s3 where
    s3: "refreshReadiness (replaceExecution s2 ?r ?now) = Inr s3" "set (completed_ids s3) = insert (te_id z) (set (completed_ids s2))"
      "es_tasks s3 = map (refreshed (replaceExecution s2 ?r ?now)) (es_tasks (replaceExecution s2 ?r ?now))" by blast
  obtain u where u: "requireTask s2 (te_id z) = Inr u" "u \<in> set (plan_tasks (es_plan s2))" "task_id u = te_id z"
    by (rule requireTask_ok [OF inv2 z(1)])
  with t2 inv2 have "u = t" by (metis task_unique execution_inv_def)
  then have "filter (\<lambda>q. er_required q \<and> er_key q \<notin> set (map ev_key (te_evidence z))) (evidence_requirements u) = []"
    using z(4) by (auto simp: filter_empty_conv)
  then have "completeTask s2 (te_id z) ?now = Inr s3"
    using z(3) u(1) s3(1)
    by (simp add: completeTask_def assertFreshExecution_def find_execution [OF inv2 z(1)])
  then have "task_step s2 s3" by (rule step_complete)
  with s1(1) s2(1) have "task_step\<^sup>*\<^sup>* s s3" by (metis rtranclp.rtrancl_into_rtrancl rtranclp_trans)
  moreover have "untroubled s3"
    using replace_untroubled [OF s2(2), of ?r ?now] by (auto simp: untroubled_def s3(3))
  ultimately show ?thesis using s3(2) s2(3) z(2) by auto
qed

lemma finish:
  assumes "execution_inv s" and "untroubled s"
  shows "\<exists>s'. task_step\<^sup>*\<^sup>* s s' \<and> execution_inv s' \<and> (\<forall>x\<in>set (es_tasks s'). te_status x = TaskCompleted)"
  using assms
proof (induction "card (set (task_ids (plan_tasks (es_plan s))) - set (completed_ids s))" arbitrary: s rule: less_induct)
  case less
  show ?case
  proof (cases "\<forall>x\<in>set (es_tasks s). te_status x = TaskCompleted")
    case True
    with less.prems show ?thesis by blast
  next
    case False
    with workable_task [OF less.prems(1)] obtain y where y: "y \<in> set (es_tasks s)" "te_status y \<noteq> TaskCompleted"
      "te_status y \<noteq> TaskPending" by blast
    with less.prems(2) have "te_status y \<in> {TaskReady, TaskActive}"
      by (cases "te_status y") (auto simp: untroubled_def)
    from can_complete [OF less.prems(1) y(1) this less.prems(2)] obtain s' where
      s': "task_step\<^sup>*\<^sup>* s s'" "untroubled s'" "set (completed_ids s') = insert (te_id y) (set (completed_ids s))" by blast
    from task_steps_inv [OF s'(1) less.prems(1)] have inv: "execution_inv s'" "es_plan s' = es_plan s" by simp_all
    have "te_id y \<in> set (task_ids (plan_tasks (es_plan s)))"
      using less.prems(1) y(1) by (metis execution_inv_def image_eqI set_map)
    moreover have "te_id y \<notin> set (completed_ids s)"
      using y execution_inv_ids [OF less.prems(1)] by (auto simp: completed_mem distinct_map dest: inj_onD)
    ultimately have "card (set (task_ids (plan_tasks (es_plan s'))) - set (completed_ids s'))
        < card (set (task_ids (plan_tasks (es_plan s))) - set (completed_ids s))"
      unfolding inv(2) s'(3) by (intro psubset_card_mono) auto
    from less.hyps [OF this inv(1) s'(2)] s'(1) show ?thesis by (blast intro: rtranclp_trans)
  qed
qed

section \<open>The life of a task\<close>

definition task_successors :: "task_status \<Rightarrow> task_status list" where
  "task_successors t = (case t of TaskPending \<Rightarrow> [TaskReady] | TaskReady \<Rightarrow> [TaskActive]
     | TaskActive \<Rightarrow> [TaskCompleted, TaskFailed] | TaskCompleted \<Rightarrow> [] | TaskFailed \<Rightarrow> [])"

interpretation task_life: ranked_lifecycle task_successors "\<lambda>t. t = TaskCompleted \<or> t = TaskFailed"
  "\<lambda>t. case t of TaskPending \<Rightarrow> 0 | TaskReady \<Rightarrow> 1 | TaskActive \<Rightarrow> 2 | TaskCompleted \<Rightarrow> 3 | TaskFailed \<Rightarrow> 3"
  by unfold_locales (auto simp: task_successors_def split: task_status.splits)

lemma failed_stays:
  assumes "task_step s s'" and inv: "execution_inv s" and x: "x \<in> set (es_tasks s)" "te_status x = TaskFailed"
  shows "x \<in> set (es_tasks s')"
proof -
  have other: "x \<in> set (es_tasks (replaceExecution s r now))" if "y \<in> set (es_tasks s)" "te_status y \<noteq> TaskFailed" "te_id r = te_id y" for y r now
  proof -
    from that(1,2) x execution_inv_ids [OF inv] have "te_id x \<noteq> te_id y" by (auto simp: distinct_map dest: inj_onD)
    with x(1) that(3) show ?thesis by (force simp: replaceExecution_def)
  qed
  from assms(1) show ?thesis
  proof cases
    case (step_start i now)
    from startTask_Inr [OF this] other show ?thesis by auto
  next
    case (step_record i e now)
    from recordEvidence_Inr [OF this] other show ?thesis by auto
  next
    case (step_complete i now)
    from completeTask_Inr [OF this] obtain y t where y: "y \<in> set (es_tasks s)" "te_status y = TaskActive"
      "t \<in> set (plan_tasks (es_plan s))" "task_id t = te_id y"
      "er_key ` {q \<in> set (evidence_requirements t). er_required q} \<subseteq> ev_key ` set (te_evidence y)"
      "refreshReadiness (replaceExecution s (y\<lparr>te_status := TaskCompleted, te_completed := Some now\<rparr>) now) = Inr s'" by auto
    let ?s = "replaceExecution s (y\<lparr>te_status := TaskCompleted, te_completed := Some now\<rparr>) now"
    from completed_task_inv [OF inv y(1-5) refl, of now] y(6)
    have "es_tasks s' = map (refreshed ?s) (es_tasks ?s)" by auto
    moreover have "x \<in> set (es_tasks ?s)" using other [OF y(1)] y(2) by simp
    moreover have "refreshed ?s x = x" using x(2) by (simp add: refreshed_def)
    ultimately show ?thesis by force
  next
    case (step_fail i reason now)
    from failTask_Inr [OF this] other show ?thesis by auto
  qed
qed

lemma failed_stays_steps:
  "task_step\<^sup>*\<^sup>* s s' \<Longrightarrow> execution_inv s \<Longrightarrow> x \<in> set (es_tasks s) \<Longrightarrow> te_status x = TaskFailed \<Longrightarrow> x \<in> set (es_tasks s')"
  by (induction rule: rtranclp_induct) (auto intro: failed_stays dest: task_steps_inv)

lemma not_completed_dependents:
  assumes inv: "execution_inv s" and path: "(edge (plan_tasks (es_plan s)))\<^sup>+\<^sup>+ a b" and "b \<notin> set (completed_ids s)"
    and x: "x \<in> set (es_tasks s)" "te_id x = a"
  shows "te_status x = TaskPending"
  using path x assms(3)
proof (induction arbitrary: x rule: converse_tranclp_induct)
  case (base a)
  with inv show ?case by (auto simp: execution_inv_def task_ok_def edge_def)
next
  case (step a c)
  have "c \<in> set (task_ids (plan_tasks (es_plan s)))" using step.hyps(2) by (auto dest: tranclpD edge_source)
  with execution_of_task [OF inv] obtain y where y: "y \<in> set (es_tasks s)" "te_id y = c" by blast
  with step.IH step.prems(3) have "te_status y = TaskPending" by blast
  then have "c \<notin> set (completed_ids s)" using completed_status [OF inv y(1)] y(2) by simp
  moreover have "c \<in> set (deps_of (plan_tasks (es_plan s)) (te_id x))"
    using step.hyps(1) step.prems(2) by (simp add: edge_def)
  ultimately show ?case using pending_iff [OF inv step.prems(1)] by blast
qed

lemma respects_plan:
  assumes "initialize m now = Inr s0" and "mission_plan m = Some p" and "validatePlan p = Inr ()" and "task_step\<^sup>*\<^sup>* s0 s"
    and "x \<in> set (es_tasks s)"
  shows "\<exists>t\<in>set (plan_tasks p). task_id t = te_id x
    \<and> (te_status x \<noteq> TaskPending \<longleftrightarrow> set (depends_on t) \<subseteq> set (completed_ids s))
    \<and> (te_status x = TaskCompleted \<longrightarrow> er_key ` {q \<in> set (evidence_requirements t). er_required q} \<subseteq> ev_key ` set (te_evidence x))
    \<and> ev_key ` set (te_evidence x) \<subseteq> er_key ` set (evidence_requirements t) \<and> distinct (map ev_key (te_evidence x))"
proof -
  have plan: "well_formed_plan p" using assms(3) by (simp add: validatePlan_Inr)
  note init = initialize_inv [OF assms(1,2) plan]
  from task_steps_inv [OF assms(4) init(1)] init(2) have inv: "execution_inv s" "es_plan s = p" by simp_all
  with assms(5) obtain t where t: "t \<in> set (plan_tasks p)" "task_id t = te_id x"
      "te_status x = TaskCompleted \<longrightarrow> er_key ` {q \<in> set (evidence_requirements t). er_required q} \<subseteq> ev_key ` set (te_evidence x)"
      "ev_key ` set (te_evidence x) \<subseteq> er_key ` set (evidence_requirements t)" "distinct (map ev_key (te_evidence x))"
    by (auto simp: execution_inv_def evidence_ok_def)
  moreover have "te_status x \<noteq> TaskPending \<longleftrightarrow> set (depends_on t) \<subseteq> set (completed_ids s)"
    using inv assms(5) deps_of_task [OF plan t(1)] t(2) by (simp add: execution_inv_def task_ok_def)
  ultimately show ?thesis by blast
qed

section \<open>Properties\<close>

text \<open>
  C28. Whatever calls the execution of a validated plan receives, and at whatever times: a task has left
  pending exactly when every task it depends on is completed (so none is started or completed early,
  and none is held back); a completed task has a piece of evidence for every requirement that is
  required, one per requirement, and evidence is only recorded for requirements the task declares.
\<close>

theorem execution_respects_plan:
  assumes "initialize m now = Inr s0" and "mission_plan m = Some p" and "validatePlan p = Inr ()" and "task_step\<^sup>*\<^sup>* s0 s"
    and "x \<in> set (es_tasks s)"
  shows "\<exists>t\<in>set (plan_tasks p). task_id t = te_id x
    \<and> (te_status x \<noteq> TaskPending \<longleftrightarrow> set (depends_on t) \<subseteq> set (completed_ids s))
    \<and> (te_status x = TaskCompleted \<longrightarrow> er_key ` {q \<in> set (evidence_requirements t). er_required q} \<subseteq> ev_key ` set (te_evidence x))
    \<and> ev_key ` set (te_evidence x) \<subseteq> er_key ` set (evidence_requirements t) \<and> distinct (map ev_key (te_evidence x))"
  by (rule respects_plan [OF assms])

text \<open>
  C29. The execution of a validated plan never gets stuck: from every state it can reach in which no task
  has failed, there are calls that complete all its tasks.
\<close>

theorem mission_can_finish:
  assumes "initialize m now = Inr s0" and "mission_plan m = Some p" and "validatePlan p = Inr ()" and "task_step\<^sup>*\<^sup>* s0 s"
    and "untroubled s"
  shows "\<exists>s'. task_step\<^sup>*\<^sup>* s s' \<and> isComplete s'"
proof -
  have plan: "well_formed_plan p" using assms(3) by (simp add: validatePlan_Inr)
  note init = initialize_inv [OF assms(1,2) plan]
  from task_steps_inv [OF assms(4) init(1)] have "execution_inv s" by simp
  from finish [OF this assms(5)] obtain s' where s': "task_step\<^sup>*\<^sup>* s s'" "execution_inv s'"
    "\<forall>x\<in>set (es_tasks s'). te_status x = TaskCompleted" by blast
  moreover have "es_tasks s' \<noteq> []" using s'(2) by (auto simp: execution_inv_def well_formed_plan_def task_ids_def)
  ultimately show ?thesis by (auto simp: isComplete_def list_all_iff)
qed

text \<open>
  A failed task is final and blocks what depends on it: once a task has failed, every task that
  depends on it, directly or through others, is pending in all later states, so the mission never completes.
\<close>

theorem failed_task_blocks:
  assumes "initialize m now = Inr s0" and "mission_plan m = Some p" and "validatePlan p = Inr ()" and "task_step\<^sup>*\<^sup>* s0 s"
    and "f \<in> set (es_tasks s)" and "te_status f = TaskFailed" and "task_step\<^sup>*\<^sup>* s s'"
  shows "f \<in> set (es_tasks s') \<and> \<not> isComplete s'
    \<and> (x \<in> set (es_tasks s') \<longrightarrow> (edge (plan_tasks p))\<^sup>+\<^sup>+ (te_id x) (te_id f) \<longrightarrow> te_status x = TaskPending)"
proof -
  have plan: "well_formed_plan p" using assms(3) by (simp add: validatePlan_Inr)
  note init = initialize_inv [OF assms(1,2) plan]
  from task_steps_inv [OF assms(4) init(1)] init(2) have inv: "execution_inv s" "es_plan s = p" by simp_all
  from task_steps_inv [OF assms(7) inv(1)] inv(2) have inv': "execution_inv s'" "es_plan s' = p" by simp_all
  from failed_stays_steps [OF assms(7) inv(1) assms(5,6)] have f: "f \<in> set (es_tasks s')" .
  then have "te_id f \<notin> set (completed_ids s')" using completed_status [OF inv'(1)] assms(6) by simp
  then have "te_status x = TaskPending" if "x \<in> set (es_tasks s')" "(edge (plan_tasks p))\<^sup>+\<^sup>+ (te_id x) (te_id f)"
    using not_completed_dependents [OF inv'(1) _ _ that(1) refl] that(2) inv'(2) by simp
  moreover have "\<not> isComplete s'" using f assms(6) unfolding isComplete_def list_all_iff by force
  ultimately show ?thesis using f by blast
qed

section \<open>An execution\<close>

text \<open>Two tasks, the second depending on the first, which requires one piece of evidence.\<close>

definition run_plan :: mission_plan where
  "run_plan = \<lparr>plan_summary = ''s'', plan_tasks =
       [(simple_task ''a'' [])\<lparr>evidence_requirements := [\<lparr>er_key = ''k'', er_description = ''d'', er_required = True\<rparr>]\<rparr>,
        simple_task ''b'' [''a'']],
     plan_success_criteria = [''c''], plan_stop_conditions = []\<rparr>"

definition run_mission :: mission where
  "run_mission = sample_mission\<lparr>mission_status := Active, mission_plan := Some run_plan\<rparr>"

definition run_start :: mission_execution where
  "run_start = projr (initialize run_mission ''3'')"

definition run_active :: mission_execution where
  "run_active = projr (startTask run_start ''a'' ''4'')"

definition run_failed :: mission_execution where
  "run_failed = projr (failTask run_active ''a'' ''no source'' ''5'')"

definition run_recorded :: mission_execution where
  "run_recorded = projr (recordEvidence run_active ''a'' \<lparr>ev_key = ''k'', ev_evidence = ''e1'', ev_recorded_at = ''5''\<rparr> ''5'')"

definition run_done :: mission_execution where
  "run_done = projr (completeTask run_recorded ''a'' ''6'')"

lemma run_plan_ok: "mission_plan run_mission = Some run_plan" "validatePlan run_plan = Inr ()"
  by (simp add: run_mission_def)
    (simp add: validatePlan_def run_plan_def simple_task_def validateTask_def check_dependency_def
      assertAcyclic_def visit.simps task_ids_def deps_of_def tasks_by_id_def trim_def js_space_def)

lemma run_initialized: "initialize run_mission ''3'' = Inr run_start"
  by code_simp

lemma run_steps:
  "task_step run_start run_active" "task_step run_active run_failed" "task_step run_active run_recorded"
  "task_step run_recorded run_done"
proof -
  have "startTask run_start ''a'' ''4'' = Inr run_active" by code_simp
  then show "task_step run_start run_active" by (rule step_start)
  have "failTask run_active ''a'' ''no source'' ''5'' = Inr run_failed" by code_simp
  then show "task_step run_active run_failed" by (rule step_fail)
  have "recordEvidence run_active ''a'' \<lparr>ev_key = ''k'', ev_evidence = ''e1'', ev_recorded_at = ''5''\<rparr> ''5'' = Inr run_recorded"
    by code_simp
  then show "task_step run_active run_recorded" by (rule step_record)
  have "completeTask run_recorded ''a'' ''6'' = Inr run_done" by code_simp
  then show "task_step run_recorded run_done" by (rule step_complete)
qed

lemma run_reaches: "task_step\<^sup>*\<^sup>* run_start run_failed" "task_step\<^sup>*\<^sup>* run_start run_done"
  using run_steps by (meson converse_rtranclp_into_rtranclp rtranclp.rtrancl_refl)+

theorem execution_respects_plan_witness:
  "ev_key ` set (te_evidence (hd (es_tasks run_done))) = {''k''}"
proof -
  have "hd (es_tasks run_done) \<in> set (es_tasks run_done)" and "te_status (hd (es_tasks run_done)) = TaskCompleted"
    and "te_id (hd (es_tasks run_done)) = ''a''" by code_simp+
  with execution_respects_plan [OF run_initialized run_plan_ok run_reaches(2)] show ?thesis
    by (force simp: run_plan_def simple_task_def)
qed

theorem mission_can_finish_witness: "\<exists>s'. task_step\<^sup>*\<^sup>* run_done s' \<and> isComplete s'"
proof -
  have "list_all (\<lambda>x. te_status x \<noteq> TaskFailed) (es_tasks run_done)" by code_simp
  then have "untroubled run_done" by (auto simp: untroubled_def list_all_iff)
  then show ?thesis by (rule mission_can_finish [OF run_initialized run_plan_ok run_reaches(2)])
qed

theorem failed_task_blocks_witness: "\<not> isComplete run_failed \<and> te_status (hd (es_tasks run_failed)) = TaskFailed"
proof -
  have f: "hd (es_tasks run_failed) \<in> set (es_tasks run_failed)" "te_status (hd (es_tasks run_failed)) = TaskFailed" by code_simp+
  with failed_task_blocks [OF run_initialized run_plan_ok run_reaches(1) f rtranclp.rtrancl_refl] show ?thesis by blast
qed

end
