(* ===== verification/Claim_Pipeline.thy ===== *)
theory Claim_Pipeline
  imports Mission_Execution
begin

text \<open>
  From the evidence of a task to a durable claim (\<open>mission/task-result-builder.ts\<close>,
  \<open>mission/claim-validation-gate.ts\<close>, \<open>mission/contradiction-engine.ts\<close>, \<open>mission/knowledge-admission-gate.ts\<close>):
  a completed task proposes claims over the evidence it recorded, a proposal is validated, compared with
  the claims that exist, and admitted or not. Results: what each stage decides, and what stands behind a
  claim that passes all of them.
\<close>

section \<open>Task results\<close>

record claim_draft =
  cd_statement :: string
  cd_confidence :: js_number
  cd_evidence :: "string list"
  cd_rationale :: "string option"

record claim_proposal =
  cp_id :: string
  cp_mission :: string
  cp_task :: string
  cp_statement :: string
  cp_confidence :: js_number
  cp_evidence :: "string list"
  cp_rationale :: "string option"
  cp_status :: string
  cp_created_at :: string

record task_result_input =
  ri_id :: string
  ri_summary :: string
  ri_drafts :: "claim_draft list option"
  ri_created_at :: string

record task_result =
  rs_id :: string
  rs_mission :: string
  rs_task :: string
  rs_summary :: string
  rs_evidence :: "string list"
  rs_proposals :: "claim_proposal list"
  rs_created_at :: string

datatype task_result_error =
  InvalidTaskResult string
| TaskResultTaskState string task_status
| UnsupportedClaimEvidence string string

definition result_required :: "string \<Rightarrow> string \<Rightarrow> task_result_error + string" where
  "result_required field v = (if trim v = [] then Inl (InvalidTaskResult field) else Inr (trim v))"

definition normalizeOptional :: "string option \<Rightarrow> string option" where
  "normalizeOptional v = (case v of None \<Rightarrow> None | Some s \<Rightarrow> if trim s = [] then None else Some (trim s))"

definition result_task :: "mission_execution \<Rightarrow> string \<Rightarrow> task_result_error + task_execution" where
  "result_task s i = (case List.find (\<lambda>x. te_id x = i) (es_tasks s) of
     None \<Rightarrow> Inl (InvalidTaskResult ''unknown task'') | Some x \<Rightarrow> Inr x)"

definition buildClaimProposal ::
  "mission_execution \<Rightarrow> string \<Rightarrow> string list \<Rightarrow> string \<Rightarrow> nat \<times> claim_draft \<Rightarrow> task_result_error + claim_proposal" where
  "buildClaimProposal s i allowed now indexed = (let (index, d) = indexed in
     rbind (result_required ''claim statement'' (cd_statement d)) (\<lambda>statement.
     if bad_unit_num (cd_confidence d) then Inl (InvalidTaskResult ''claim confidence'')
     else let evidence = uniq (cd_evidence d) in
       if length evidence = 0 then Inl (InvalidTaskResult ''claim evidence'')
       else rbind (each_res (\<lambda>e. throw_if (e \<notin> set allowed) (UnsupportedClaimEvidence i e)) evidence) (\<lambda>_.
         Inr \<lparr>cp_id = es_mission s @ '':'' @ i @ '':claim:'' @ show_nat (index + 1), cp_mission = es_mission s, cp_task = i,
           cp_statement = statement, cp_confidence = cd_confidence d, cp_evidence = evidence,
           cp_rationale = normalizeOptional (cd_rationale d), cp_status = ''proposed'', cp_created_at = now\<rparr>)))"

definition build_result :: "mission_execution \<Rightarrow> string \<Rightarrow> task_result_input \<Rightarrow> task_result_error + task_result" where
  "build_result s i input =
     rbind (result_task s i) (\<lambda>x.
     if te_status x \<noteq> TaskCompleted then Inl (TaskResultTaskState i (te_status x))
     else rbind (result_required ''summary'' (ri_summary input)) (\<lambda>summary.
       let recorded = uniq (map ev_evidence (te_evidence x)) in
       rbind (map_res (buildClaimProposal s i recorded (ri_created_at input))
         (List.enumerate 0 (case_option [] id (ri_drafts input)))) (\<lambda>proposals.
       Inr \<lparr>rs_id = ri_id input, rs_mission = es_mission s, rs_task = i, rs_summary = summary, rs_evidence = recorded,
         rs_proposals = proposals, rs_created_at = ri_created_at input\<rparr>)))"

section \<open>Validation of a claim\<close>

datatype claim_decision = ClaimAccepted | ClaimRejected | ClaimNeedsReview

record evidence_assessment =
  ea_id :: string
  ea_exists :: bool
  ea_verified :: bool

record contradiction_assessment =
  xa_claim :: string
  xa_confidence :: js_number

record validation_context =
  vx_evidence :: "evidence_assessment list"
  vx_contradictions :: "contradiction_assessment list option"
  vx_evaluated_at :: string

record validation_policy =
  vp_count :: js_number
  vp_accepted :: js_number
  vp_review :: js_number
  vp_material :: js_number
  vp_verified :: bool

datatype claim_reason =
  MissingEvidence "string list"
| InsufficientEvidence js_number
| UnverifiedEvidence "string list"
| LowConfidence js_number
| MaterialContradiction "string list"

record claim_candidate =
  cc_id :: string
  cc_proposal :: string
  cc_statement :: string
  cc_confidence :: js_number
  cc_evidence :: "string list"
  cc_contradicts :: "string list"
  cc_status :: string
  cc_created_at :: string

record claim_validation =
  cv_proposal :: claim_proposal
  cv_decision :: claim_decision
  cv_reasons :: "claim_reason list"
  cv_candidate :: "claim_candidate option"
  cv_evaluated_at :: string

datatype claim_validation_error = InvalidClaimValidation string

definition DEFAULT_VALIDATION_POLICY :: validation_policy where
  "DEFAULT_VALIDATION_POLICY = \<lparr>vp_count = Fin 1, vp_accepted = Fin (3 / 4), vp_review = Fin (1 / 2),
     vp_material = Fin (7 / 10), vp_verified = True\<rparr>"

definition validatePolicy :: "validation_policy \<Rightarrow> claim_validation_error + unit" where
  "validatePolicy p =
     rbind (throw_if (\<not> is_integer_num (vp_count p) \<or> num_lt (vp_count p) (Fin 1)) (InvalidClaimValidation ''minimumEvidenceCount'')) (\<lambda>_.
     rbind (throw_if (list_ex bad_unit_num [vp_accepted p, vp_review p, vp_material p]) (InvalidClaimValidation ''thresholds'')) (\<lambda>_.
     throw_if (num_lt (vp_accepted p) (vp_review p)) (InvalidClaimValidation ''review exceeds acceptance'')))"

primrec assertUniqueEvidence :: "string list \<Rightarrow> evidence_assessment list \<Rightarrow> claim_validation_error + unit" where
  "assertUniqueEvidence seen [] = Inr ()"
| "assertUniqueEvidence seen (a # as) =
     (if ea_id a \<in> set seen then Inl (InvalidClaimValidation ''duplicate evidence'')
      else assertUniqueEvidence (ea_id a # seen) as)"

definition validateClaimInput :: "claim_proposal \<Rightarrow> validation_context \<Rightarrow> claim_validation_error + unit" where
  "validateClaimInput p ctx =
     rbind (throw_if (cp_status p \<noteq> ''proposed'') (InvalidClaimValidation ''status'')) (\<lambda>_.
     rbind (throw_if (bad_unit_num (cp_confidence p)) (InvalidClaimValidation ''confidence'')) (\<lambda>_.
     rbind (throw_if (length (cp_evidence p) = 0) (InvalidClaimValidation ''evidence'')) (\<lambda>_.
     rbind (assertUniqueEvidence [] (vx_evidence ctx)) (\<lambda>_.
     each_res (\<lambda>c. rbind (throw_if (trim (xa_claim c) = []) (InvalidClaimValidation ''contradiction claim'')) (\<lambda>_.
       throw_if (bad_unit_num (xa_confidence c)) (InvalidClaimValidation ''contradiction confidence'')))
       (case_option [] id (vx_contradictions ctx))))))"

definition assessment_for :: "validation_context \<Rightarrow> string \<Rightarrow> evidence_assessment option" where
  "assessment_for ctx i = map_of (rev (map (\<lambda>a. (ea_id a, a)) (vx_evidence ctx))) i"

definition evidence_missing :: "validation_context \<Rightarrow> string \<Rightarrow> bool" where
  "evidence_missing ctx i = (case assessment_for ctx i of None \<Rightarrow> True | Some a \<Rightarrow> \<not> ea_exists a)"

definition evidence_unverified :: "validation_context \<Rightarrow> string \<Rightarrow> bool" where
  "evidence_unverified ctx i = (case assessment_for ctx i of None \<Rightarrow> False | Some a \<Rightarrow> ea_exists a \<and> \<not> ea_verified a)"

definition materialContradictions :: "validation_policy \<Rightarrow> contradiction_assessment list \<Rightarrow> contradiction_assessment list" where
  "materialContradictions pol cs = filter (\<lambda>c. num_le (vp_material pol) (xa_confidence c)) cs"

definition claim_reasons :: "validation_policy \<Rightarrow> claim_proposal \<Rightarrow> validation_context \<Rightarrow> claim_reason list" where
  "claim_reasons pol p ctx =
     (let missing = filter (evidence_missing ctx) (cp_evidence p);
          unverified = filter (evidence_unverified ctx) (cp_evidence p);
          material = materialContradictions pol (case_option [] id (vx_contradictions ctx)) in
      (if length missing > 0 then [MissingEvidence missing] else [])
      @ (if num_lt (Fin (of_nat (length (cp_evidence p)))) (vp_count pol) then [InsufficientEvidence (vp_count pol)] else [])
      @ (if vp_verified pol \<and> length unverified > 0 then [UnverifiedEvidence unverified] else [])
      @ (if num_lt (cp_confidence p) (vp_review pol) then [LowConfidence (vp_review pol)]
         else if num_lt (cp_confidence p) (vp_accepted pol) then [LowConfidence (vp_accepted pol)] else [])
      @ (if length material > 0 then [MaterialContradiction (map xa_claim material)] else []))"

definition hard_reason :: "validation_policy \<Rightarrow> claim_proposal \<Rightarrow> claim_reason \<Rightarrow> bool" where
  "hard_reason pol p r = (case r of MissingEvidence _ \<Rightarrow> True | InsufficientEvidence _ \<Rightarrow> True
     | LowConfidence _ \<Rightarrow> num_lt (cp_confidence p) (vp_review pol) | _ \<Rightarrow> False)"

definition validation_result ::
  "claim_proposal \<Rightarrow> validation_context \<Rightarrow> claim_decision \<Rightarrow> claim_reason list \<Rightarrow> claim_validation" where
  "validation_result p ctx d rs = \<lparr>cv_proposal = p, cv_decision = d, cv_reasons = rs, cv_candidate = None,
     cv_evaluated_at = vx_evaluated_at ctx\<rparr>"

definition evaluate_claim ::
  "validation_policy \<Rightarrow> claim_proposal \<Rightarrow> validation_context \<Rightarrow> claim_validation_error + claim_validation" where
  "evaluate_claim pol p ctx =
     rbind (validateClaimInput p ctx) (\<lambda>_.
     let reasons = claim_reasons pol p ctx in
     if list_ex (hard_reason pol p) reasons then Inr (validation_result p ctx ClaimRejected reasons)
     else if length reasons > 0 then Inr (validation_result p ctx ClaimNeedsReview reasons)
     else Inr \<lparr>cv_proposal = p, cv_decision = ClaimAccepted, cv_reasons = [],
       cv_candidate = Some \<lparr>cc_id = ''claim-candidate:'' @ cp_id p, cc_proposal = cp_id p, cc_statement = cp_statement p,
         cc_confidence = cp_confidence p, cc_evidence = cp_evidence p, cc_contradicts = [],
         cc_status = ''candidate'', cc_created_at = vx_evaluated_at ctx\<rparr>,
       cv_evaluated_at = vx_evaluated_at ctx\<rparr>)"

section \<open>Contradictions\<close>

datatype contradiction_kind = NoContradiction | PossibleContradiction | MaterialKind
datatype contradiction_action = AdmitClaim | ReviewClaim | BlockClaim
datatype verification_status = Unverified | Verified | Disputed | RejectedClaim

record existing_claim =
  xc_id :: string
  xc_statement :: string
  xc_confidence :: js_number
  xc_status :: verification_status
  xc_updated_at :: string

record contradiction_comparison =
  xp_claim :: string
  xp_kind :: contradiction_kind
  xp_confidence :: js_number
  xp_rationale :: "string option"

record contradiction_policy =
  kp_possible :: js_number
  kp_material :: js_number
  kp_block :: bool

datatype contradiction_code = NoConflict | PossibleConflict | MaterialConflict | VerifiedMaterialConflict

record contradiction_reason =
  xr_code :: contradiction_code
  xr_message :: string
  xr_claim :: "string option"

record contradiction_input =
  ci_candidate :: claim_candidate
  ci_existing :: "existing_claim list"
  ci_comparisons :: "contradiction_comparison list"
  ci_evaluated_at :: string

record contradiction_result =
  cr_candidate :: claim_candidate
  cr_action :: contradiction_action
  cr_reasons :: "contradiction_reason list"
  cr_contradicts :: "string list"
  cr_evaluated_at :: string

datatype contradiction_error = InvalidContradiction string | UnknownComparedClaim string

definition DEFAULT_CONTRADICTION_POLICY :: contradiction_policy where
  "DEFAULT_CONTRADICTION_POLICY = \<lparr>kp_possible = Fin (2 / 5), kp_material = Fin (3 / 4), kp_block = True\<rparr>"

definition validateContradictionPolicy :: "contradiction_policy \<Rightarrow> contradiction_error + unit" where
  "validateContradictionPolicy p =
     throw_if (\<not> is_finite_num (kp_possible p) \<or> \<not> is_finite_num (kp_material p) \<or> num_lt (kp_possible p) (Fin 0)
       \<or> num_lt (Fin 1) (kp_material p) \<or> num_lt (kp_material p) (kp_possible p)) (InvalidContradiction ''policy'')"

definition validateClaim :: "existing_claim \<Rightarrow> contradiction_error + unit" where
  "validateClaim c =
     rbind (throw_if (trim (xc_id c) = [] \<or> trim (xc_statement c) = []) (InvalidContradiction ''claim'')) (\<lambda>_.
     throw_if (bad_unit_num (xc_confidence c)) (InvalidContradiction ''claim confidence''))"

primrec check_existing :: "string list \<Rightarrow> existing_claim list \<Rightarrow> contradiction_error + unit" where
  "check_existing seen [] = Inr ()"
| "check_existing seen (c # cs) =
     rbind (validateClaim c) (\<lambda>_.
     if xc_id c \<in> set seen then Inl (InvalidContradiction ''duplicate claim'') else check_existing (xc_id c # seen) cs)"

primrec check_comparisons :: "string list \<Rightarrow> contradiction_comparison list \<Rightarrow> contradiction_error + unit" where
  "check_comparisons seen [] = Inr ()"
| "check_comparisons seen (c # cs) =
     (if xp_claim c \<in> set seen then Inl (InvalidContradiction ''duplicate comparison'')
      else if bad_unit_num (xp_confidence c) then Inl (InvalidContradiction ''comparison confidence'')
      else check_comparisons (xp_claim c # seen) cs)"

definition validateContradictionInput :: "contradiction_input \<Rightarrow> contradiction_error + unit" where
  "validateContradictionInput i =
     rbind (check_existing [] (ci_existing i)) (\<lambda>_. check_comparisons [] (ci_comparisons i))"

definition conflict_message :: "string option \<Rightarrow> string \<Rightarrow> string" where
  "conflict_message rationale default_message =
     (case normalizeOptional rationale of None \<Rightarrow> default_message | Some m \<Rightarrow> m)"

type_synonym contradiction_acc = "contradiction_reason list \<times> string list \<times> contradiction_action"

text \<open>The body of the loop over the comparisons, on the variables it assigns.\<close>

definition compare_claim ::
  "contradiction_policy \<Rightarrow> existing_claim list \<Rightarrow> contradiction_comparison \<Rightarrow> contradiction_acc
   \<Rightarrow> contradiction_error + contradiction_acc" where
  "compare_claim pol existing c acc = (let (reasons, ids, action) = acc in
     case map_of (rev (map (\<lambda>x. (xc_id x, x)) existing)) (xp_claim c) of
       None \<Rightarrow> Inl (UnknownComparedClaim (xp_claim c))
     | Some x \<Rightarrow>
         if xp_kind c = NoContradiction \<or> num_lt (xp_confidence c) (kp_possible pol) then Inr acc
         else if xp_kind c = MaterialKind \<and> num_le (kp_material pol) (xp_confidence c) then
           let verified = (xc_status x = Verified) in
           Inr (reasons @ [\<lparr>xr_code = (if verified then VerifiedMaterialConflict else MaterialConflict),
               xr_message = conflict_message (xp_rationale c) ''Material contradiction detected.'', xr_claim = Some (xc_id x)\<rparr>],
             ids @ [xc_id x],
             if verified \<and> kp_block pol then BlockClaim else ReviewClaim)
         else Inr (reasons @ [\<lparr>xr_code = PossibleConflict,
               xr_message = conflict_message (xp_rationale c) ''Possible contradiction detected.'', xr_claim = Some (xc_id x)\<rparr>],
             ids @ [xc_id x],
             if action = AdmitClaim then ReviewClaim else action))"

primrec compare_claims ::
  "contradiction_policy \<Rightarrow> existing_claim list \<Rightarrow> contradiction_comparison list \<Rightarrow> contradiction_acc
   \<Rightarrow> contradiction_error + contradiction_acc" where
  "compare_claims pol existing [] acc = Inr acc"
| "compare_claims pol existing (c # cs) acc =
     rbind (compare_claim pol existing c acc) (\<lambda>acc'. compare_claims pol existing cs acc')"

definition evaluate_contradictions ::
  "contradiction_policy \<Rightarrow> contradiction_input \<Rightarrow> contradiction_error + contradiction_result" where
  "evaluate_contradictions pol i =
     rbind (validateContradictionInput i) (\<lambda>_.
     rbind (compare_claims pol (ci_existing i) (ci_comparisons i) ([], [], AdmitClaim)) (\<lambda>(reasons, ids, action).
     Inr \<lparr>cr_candidate = ci_candidate i, cr_action = action,
       cr_reasons = (if length reasons = 0 then [\<lparr>xr_code = NoConflict,
         xr_message = ''No material contradiction detected.'', xr_claim = None\<rparr>] else reasons),
       cr_contradicts = sort_units (uniq ids), cr_evaluated_at = ci_evaluated_at i\<rparr>))"

section \<open>Admission\<close>

datatype admission_decision = KnowledgeAdmitted | KnowledgeReview | KnowledgeBlocked

record durable_claim =
  dc_id :: string
  dc_candidate :: string
  dc_proposal :: string
  dc_statement :: string
  dc_confidence :: js_number
  dc_evidence :: "string list"
  dc_contradicts :: "string list"
  dc_status :: string
  dc_verification :: verification_status
  dc_admitted_at :: string

record admission_result =
  ad_result_decision :: admission_decision
  ad_result_candidate :: claim_candidate
  ad_result_contradiction :: contradiction_result
  ad_result_claim :: "durable_claim option"
  ad_result_at :: string

datatype admission_error = AssessmentOfOtherCandidate

definition admit :: "claim_candidate \<Rightarrow> contradiction_result \<Rightarrow> string \<Rightarrow> admission_error + admission_result" where
  "admit candidate contradiction now =
     (if cc_id (cr_candidate contradiction) \<noteq> cc_id candidate then Inl AssessmentOfOtherCandidate
      else if cr_action contradiction \<noteq> AdmitClaim then
        Inr \<lparr>ad_result_decision = (if cr_action contradiction = ReviewClaim then KnowledgeReview else KnowledgeBlocked),
          ad_result_candidate = candidate, ad_result_contradiction = contradiction, ad_result_claim = None, ad_result_at = now\<rparr>
      else Inr \<lparr>ad_result_decision = KnowledgeAdmitted, ad_result_candidate = candidate, ad_result_contradiction = contradiction,
          ad_result_claim = Some \<lparr>dc_id = ''claim:'' @ cc_id candidate, dc_candidate = cc_id candidate,
            dc_proposal = cc_proposal candidate, dc_statement = cc_statement candidate, dc_confidence = cc_confidence candidate,
            dc_evidence = cc_evidence candidate, dc_contradicts = cr_contradicts contradiction,
            dc_status = ''active'', dc_verification = Verified, dc_admitted_at = now\<rparr>,
          ad_result_at = now\<rparr>)"

section \<open>What the stages decide\<close>

definition evidence_backed :: "bool \<Rightarrow> validation_context \<Rightarrow> string \<Rightarrow> bool" where
  "evidence_backed verified ctx e \<longleftrightarrow> (\<exists>a\<in>set (vx_evidence ctx). ea_id a = e \<and> ea_exists a \<and> (verified \<longrightarrow> ea_verified a))"

lemma assertUniqueEvidence_Inr:
  "assertUniqueEvidence seen as = Inr () \<longleftrightarrow> distinct (map ea_id as) \<and> set seen \<inter> set (map ea_id as) = {}"
  by (induction as arbitrary: seen) auto

lemma validateClaimInput_Inr:
  "validateClaimInput p ctx = Inr () \<longleftrightarrow> cp_status p = ''proposed'' \<and> \<not> bad_unit_num (cp_confidence p) \<and> cp_evidence p \<noteq> []
     \<and> distinct (map ea_id (vx_evidence ctx))
     \<and> (\<forall>c\<in>set (case_option [] id (vx_contradictions ctx)). trim (xa_claim c) \<noteq> [] \<and> \<not> bad_unit_num (xa_confidence c))"
  by (simp add: validateClaimInput_def rbind_Inr_iff each_res_Inr_iff assertUniqueEvidence_Inr)

lemma assessment_for_Some:
  assumes "distinct (map ea_id (vx_evidence ctx))"
  shows "assessment_for ctx i = Some a \<longleftrightarrow> a \<in> set (vx_evidence ctx) \<and> ea_id a = i"
proof -
  have "distinct (map fst (rev (map (\<lambda>a. (ea_id a, a)) (vx_evidence ctx))))"
    using assms by (simp add: rev_map [symmetric] comp_def)
  then show ?thesis by (auto simp: assessment_for_def map_of_eq_Some_iff)
qed

lemma backed_iff:
  assumes "distinct (map ea_id (vx_evidence ctx))"
  shows "evidence_backed v ctx e \<longleftrightarrow> \<not> evidence_missing ctx e \<and> (v \<longrightarrow> \<not> evidence_unverified ctx e)"
proof (cases "assessment_for ctx e")
  case None
  then show ?thesis using assessment_for_Some [OF assms, of e]
    by (auto simp: evidence_backed_def evidence_missing_def)
next
  case (Some a)
  have "evidence_backed v ctx e \<longleftrightarrow> ea_exists a \<and> (v \<longrightarrow> ea_verified a)"
    using assessment_for_Some [OF assms, of e] Some unfolding evidence_backed_def by (metis option.inject)
  with Some show ?thesis by (auto simp: evidence_missing_def evidence_unverified_def)
qed

lemma empty_if [simp]: "(if c then [x] else []) = [] \<longleftrightarrow> \<not> c"
  by simp

lemma claim_reasons_Nil:
  "claim_reasons pol p ctx = [] \<longleftrightarrow> (\<forall>e\<in>set (cp_evidence p). \<not> evidence_missing ctx e \<and> (vp_verified pol \<longrightarrow> \<not> evidence_unverified ctx e))
     \<and> \<not> num_lt (Fin (of_nat (length (cp_evidence p)))) (vp_count pol)
     \<and> \<not> num_lt (cp_confidence p) (vp_review pol) \<and> \<not> num_lt (cp_confidence p) (vp_accepted pol)
     \<and> (\<forall>c\<in>set (case_option [] id (vx_contradictions ctx)). \<not> num_le (vp_material pol) (xa_confidence c))"
  by (auto simp: claim_reasons_def Let_def materialContradictions_def filter_empty_conv split: if_splits)

lemma hard_reasons:
  "list_ex (hard_reason pol p) (claim_reasons pol p ctx) \<longleftrightarrow> (\<exists>e\<in>set (cp_evidence p). evidence_missing ctx e)
     \<or> num_lt (Fin (of_nat (length (cp_evidence p)))) (vp_count pol) \<or> num_lt (cp_confidence p) (vp_review pol)"
  by (auto simp: claim_reasons_def hard_reason_def Let_def filter_empty_conv)

lemma validatePolicy_Inr:
  assumes "validatePolicy pol = Inr ()"
  obtains n a r m where "vp_count pol = Fin n" "1 \<le> n" "vp_accepted pol = Fin a" "vp_review pol = Fin r" "vp_material pol = Fin m" "r \<le> a"
proof -
  from assms have "is_integer_num (vp_count pol)" "\<not> num_lt (vp_count pol) (Fin 1)" "\<not> bad_unit_num (vp_accepted pol)"
    "\<not> bad_unit_num (vp_review pol)" "\<not> bad_unit_num (vp_material pol)" "\<not> num_lt (vp_accepted pol) (vp_review pol)"
    by (simp_all add: validatePolicy_def rbind_Inr_iff)
  with that show ?thesis by (cases "vp_count pol") (auto simp: bad_unit_num_iff is_integer_num_def)
qed

text \<open>The comparisons that count as a conflict, and those that count as a material one.\<close>

definition conflicting :: "contradiction_policy \<Rightarrow> contradiction_comparison \<Rightarrow> bool" where
  "conflicting pol c \<longleftrightarrow> xp_kind c \<noteq> NoContradiction \<and> \<not> num_lt (xp_confidence c) (kp_possible pol)"

definition material_conflict :: "contradiction_policy \<Rightarrow> contradiction_comparison \<Rightarrow> bool" where
  "material_conflict pol c \<longleftrightarrow> conflicting pol c \<and> xp_kind c = MaterialKind \<and> num_le (kp_material pol) (xp_confidence c)"

definition verified_claim :: "existing_claim list \<Rightarrow> string \<Rightarrow> bool" where
  "verified_claim existing i \<longleftrightarrow> (\<exists>x\<in>set existing. xc_id x = i \<and> xc_status x = Verified)"

definition conflict_action :: "contradiction_policy \<Rightarrow> existing_claim list \<Rightarrow> contradiction_comparison \<Rightarrow> contradiction_action" where
  "conflict_action pol existing c = (if verified_claim existing (xp_claim c) \<and> kp_block pol then BlockClaim else ReviewClaim)"

lemma check_existing_Inr:
  "check_existing seen cs = Inr () \<Longrightarrow> distinct (map xc_id cs) \<and> set seen \<inter> set (map xc_id cs) = {}"
proof (induction cs arbitrary: seen)
  case (Cons c cs)
  then have "check_existing (xc_id c # seen) cs = Inr ()" "xc_id c \<notin> set seen" by (auto simp: rbind_Inr_iff split: if_splits)
  with Cons.IH [of "xc_id c # seen"] show ?case by auto
qed simp

lemma existing_for_Some:
  assumes "distinct (map xc_id existing)"
  shows "map_of (rev (map (\<lambda>x. (xc_id x, x)) existing)) i = Some x \<longleftrightarrow> x \<in> set existing \<and> xc_id x = i"
proof -
  have "distinct (map fst (rev (map (\<lambda>x. (xc_id x, x)) existing)))"
    using assms by (simp add: rev_map [symmetric] comp_def)
  then show ?thesis by (auto simp: map_of_eq_Some_iff)
qed

lemma verified_claim_iff:
  "distinct (map xc_id existing) \<Longrightarrow> x \<in> set existing \<Longrightarrow> verified_claim existing (xc_id x) \<longleftrightarrow> xc_status x = Verified"
  by (auto simp: verified_claim_def distinct_map dest: inj_onD)

lemma compare_claim_Inr:
  assumes "compare_claim pol existing c (rs, ids, a) = Inr (rs', ids', a')" and "distinct (map xc_id existing)"
  shows "xp_claim c \<in> xc_id ` set existing"
    and "ids' = ids @ (if conflicting pol c then [xp_claim c] else [])"
    and "a' = (if material_conflict pol c then conflict_action pol existing c
               else if conflicting pol c \<and> a = AdmitClaim then ReviewClaim else a)"
    and "length rs' = length rs + (if conflicting pol c then 1 else 0)"
proof -
  from assms(1) obtain x where x: "map_of (rev (map (\<lambda>x. (xc_id x, x)) existing)) (xp_claim c) = Some x"
    by (auto simp: compare_claim_def split: option.splits)
  with existing_for_Some [OF assms(2)] have mem: "x \<in> set existing" "xc_id x = xp_claim c" by auto
  then show "xp_claim c \<in> xc_id ` set existing" by force
  have ver: "verified_claim existing (xp_claim c) \<longleftrightarrow> xc_status x = Verified"
    using verified_claim_iff [OF assms(2) mem(1)] mem(2) by simp
  show "ids' = ids @ (if conflicting pol c then [xp_claim c] else [])"
    "a' = (if material_conflict pol c then conflict_action pol existing c
               else if conflicting pol c \<and> a = AdmitClaim then ReviewClaim else a)"
    "length rs' = length rs + (if conflicting pol c then 1 else 0)"
    using assms(1) x mem(2)
    by (auto simp: compare_claim_def Let_def conflicting_def material_conflict_def conflict_action_def ver split: if_splits)
qed

lemma compare_claims_Inr:
  assumes "compare_claims pol existing cs (rs, ids, a) = Inr (rs', ids', a')" and "distinct (map xc_id existing)"
  shows "ids' = ids @ map xp_claim (filter (conflicting pol) cs)
    \<and> length rs' = length rs + length (filter (conflicting pol) cs)
    \<and> set (map xp_claim cs) \<subseteq> xc_id ` set existing
    \<and> a' = (if filter (material_conflict pol) cs \<noteq> [] then conflict_action pol existing (last (filter (material_conflict pol) cs))
            else if filter (conflicting pol) cs \<noteq> [] \<and> a = AdmitClaim then ReviewClaim else a)"
  using assms(1)
proof (induction cs arbitrary: rs ids a)
  case Nil
  then show ?case by simp
next
  case (Cons c cs)
  then obtain rs1 ids1 a1 where one: "compare_claim pol existing c (rs, ids, a) = Inr (rs1, ids1, a1)"
    and rest: "compare_claims pol existing cs (rs1, ids1, a1) = Inr (rs', ids', a')"
    by (auto simp: rbind_Inr_iff)
  note step = compare_claim_Inr [OF one assms(2)]
  have mc: "material_conflict pol c \<Longrightarrow> conflicting pol c" by (simp add: material_conflict_def)
  from Cons.IH [OF rest] step show ?case
    by (cases "material_conflict pol c"; cases "conflicting pol c") (auto simp: mc conflict_action_def)
qed

lemma buildClaimProposal_Inr:
  "buildClaimProposal s i allowed now (n, d) = Inr p \<Longrightarrow> set (cp_evidence p) \<subseteq> set allowed \<and> cp_evidence p \<noteq> []
     \<and> cp_status p = ''proposed'' \<and> cp_task p = i \<and> cp_mission p = es_mission s \<and> \<not> bad_unit_num (cp_confidence p)
     \<and> cp_id p = es_mission s @ '':'' @ i @ '':claim:'' @ show_nat (n + 1)"
  by (auto simp: buildClaimProposal_def rbind_Inr_iff each_res_Inr_iff Let_def split: if_splits)

lemma build_result_Inr:
  assumes "build_result s i input = Inr r"
  obtains x where "x \<in> set (es_tasks s)" "te_id x = i" "te_status x = TaskCompleted"
    "list_all2 (\<lambda>d p. buildClaimProposal s i (uniq (map ev_evidence (te_evidence x))) (ri_created_at input) d = Inr p)
       (List.enumerate 0 (case_option [] id (ri_drafts input))) (rs_proposals r)"
    "rs_evidence r = uniq (map ev_evidence (te_evidence x))"
proof -
  from assms obtain x where x: "result_task s i = Inr x" "te_status x = TaskCompleted"
    "list_all2 (\<lambda>d p. buildClaimProposal s i (uniq (map ev_evidence (te_evidence x))) (ri_created_at input) d = Inr p)
       (List.enumerate 0 (case_option [] id (ri_drafts input))) (rs_proposals r)"
    "rs_evidence r = uniq (map ev_evidence (te_evidence x))"
    by (auto simp: build_result_def rbind_Inr_iff map_res_Inr_iff Let_def split: if_splits)
  moreover from x(1) have "x \<in> set (es_tasks s) \<and> te_id x = i"
    by (auto simp: result_task_def dest: find_Some_D split: option.splits)
  ultimately show ?thesis using that by blast
qed

lemma built_proposal:
  assumes "build_result s i input = Inr r" and "p \<in> set (rs_proposals r)"
  shows "\<exists>x\<in>set (es_tasks s). te_id x = i \<and> te_status x = TaskCompleted \<and> cp_evidence p \<noteq> []
    \<and> set (cp_evidence p) \<subseteq> ev_evidence ` set (te_evidence x)"
proof -
  obtain x where x: "x \<in> set (es_tasks s)" "te_id x = i" "te_status x = TaskCompleted"
    "list_all2 (\<lambda>d p. buildClaimProposal s i (uniq (map ev_evidence (te_evidence x))) (ri_created_at input) d = Inr p)
       (List.enumerate 0 (case_option [] id (ri_drafts input))) (rs_proposals r)"
    by (rule build_result_Inr [OF assms(1)])
  from assms(2) obtain k where k: "k < length (rs_proposals r)" "p = rs_proposals r ! k"
    by (auto simp: in_set_conv_nth)
  with list_all2_nthD2 [OF x(4) k(1)] obtain nd where
    "buildClaimProposal s i (uniq (map ev_evidence (te_evidence x))) (ri_created_at input) nd = Inr p" by blast
  then obtain n d where
    "buildClaimProposal s i (uniq (map ev_evidence (te_evidence x))) (ri_created_at input) (n, d) = Inr p"
    by (cases nd) simp
  from buildClaimProposal_Inr [OF this] x(1-3) show ?thesis by auto
qed

lemma evaluate_claim_candidate:
  "evaluate_claim pol p ctx = Inr v \<Longrightarrow> cv_candidate v = Some c \<Longrightarrow>
     cc_evidence c = cp_evidence p \<and> cc_confidence c = cp_confidence p \<and> cc_statement c = cp_statement p \<and> cc_proposal c = cp_id p"
  by (auto simp: evaluate_claim_def rbind_Inr_iff Let_def validation_result_def split: if_splits)

lemma admit_claim:
  "admit c k now = Inr a \<Longrightarrow> ad_result_claim a = Some d \<Longrightarrow> cr_action k = AdmitClaim \<and> dc_evidence d = cc_evidence c
     \<and> dc_confidence d = cc_confidence c \<and> dc_statement d = cc_statement c \<and> dc_contradicts d = cr_contradicts k"
  by (auto simp: admit_def split: if_splits)

lemma evaluate_claim_decides:
  assumes "validatePolicy pol = Inr ()" and "evaluate_claim pol p ctx = Inr v"
  shows "(cv_decision v = ClaimAccepted \<longleftrightarrow> (\<forall>e\<in>set (cp_evidence p). evidence_backed (vp_verified pol) ctx e)
      \<and> num_le (vp_count pol) (Fin (of_nat (length (cp_evidence p)))) \<and> num_le (vp_accepted pol) (cp_confidence p)
      \<and> (\<forall>c\<in>set (case_option [] id (vx_contradictions ctx)). num_lt (xa_confidence c) (vp_material pol)))
    \<and> (cv_decision v = ClaimRejected \<longleftrightarrow> (\<exists>e\<in>set (cp_evidence p). \<not> evidence_backed False ctx e)
      \<or> num_lt (Fin (of_nat (length (cp_evidence p)))) (vp_count pol) \<or> num_lt (cp_confidence p) (vp_review pol))
    \<and> (cv_candidate v \<noteq> None \<longleftrightarrow> cv_decision v = ClaimAccepted)"
proof -
  from assms(2) have input: "validateClaimInput p ctx = Inr ()" by (auto simp: evaluate_claim_def rbind_Inr_iff)
  from validatePolicy_Inr [OF assms(1)] obtain n a r m where pol:
    "vp_count pol = Fin n" "1 \<le> n" "vp_accepted pol = Fin a" "vp_review pol = Fin r" "vp_material pol = Fin m" "r \<le> a" by blast
  from input have d: "distinct (map ea_id (vx_evidence ctx))"
    and cs: "c \<in> set (case_option [] id (vx_contradictions ctx)) \<Longrightarrow> \<exists>q. xa_confidence c = Fin q" for c
    by (auto simp: validateClaimInput_Inr bad_unit_num_iff)
  from input obtain q where q: "cp_confidence p = Fin q" by (auto simp: validateClaimInput_Inr bad_unit_num_iff)
  have material: "\<not> num_le (vp_material pol) (xa_confidence c) \<longleftrightarrow> num_lt (xa_confidence c) (vp_material pol)"
    if "c \<in> set (case_option [] id (vx_contradictions ctx))" for c
    using cs [OF that] pol(5) by auto
  have decision: "cv_decision v = (if list_ex (hard_reason pol p) (claim_reasons pol p ctx) then ClaimRejected
      else if claim_reasons pol p ctx \<noteq> [] then ClaimNeedsReview else ClaimAccepted)"
    and candidate: "cv_candidate v \<noteq> None \<longleftrightarrow> \<not> list_ex (hard_reason pol p) (claim_reasons pol p ctx) \<and> claim_reasons pol p ctx = []"
    using assms(2) input by (auto simp: evaluate_claim_def Let_def validation_result_def split: if_splits)
  have accepted: "cv_decision v = ClaimAccepted \<longleftrightarrow> claim_reasons pol p ctx = []"
    unfolding decision by auto
  then have 3: "cv_candidate v \<noteq> None \<longleftrightarrow> cv_decision v = ClaimAccepted" using candidate by auto
  have 1: "cv_decision v = ClaimAccepted \<longleftrightarrow> (\<forall>e\<in>set (cp_evidence p). evidence_backed (vp_verified pol) ctx e)
      \<and> num_le (vp_count pol) (Fin (of_nat (length (cp_evidence p)))) \<and> num_le (vp_accepted pol) (cp_confidence p)
      \<and> (\<forall>c\<in>set (case_option [] id (vx_contradictions ctx)). num_lt (xa_confidence c) (vp_material pol))"
    unfolding accepted claim_reasons_Nil backed_iff [OF d]
    using pol q material by (auto simp: not_less)
  have 2: "cv_decision v = ClaimRejected \<longleftrightarrow> (\<exists>e\<in>set (cp_evidence p). \<not> evidence_backed False ctx e)
      \<or> num_lt (Fin (of_nat (length (cp_evidence p)))) (vp_count pol) \<or> num_lt (cp_confidence p) (vp_review pol)"
    unfolding backed_iff [OF d] using hard_reasons [of pol p ctx] by (simp add: decision)
  from 1 2 3 show ?thesis by blast
qed

lemma evaluate_claim_accepts:
  assumes "validatePolicy pol = Inr ()" and "evaluate_claim pol p ctx = Inr v" and "cv_candidate v \<noteq> None"
  shows "(\<forall>e\<in>set (cp_evidence p). evidence_backed (vp_verified pol) ctx e) \<and> num_le (vp_accepted pol) (cp_confidence p)"
  using evaluate_claim_decides [OF assms(1,2)] assms(3) by blast

lemma contradictions_action:
  assumes "evaluate_contradictions pol i = Inr r"
  shows "cr_action r = (if filter (material_conflict pol) (ci_comparisons i) \<noteq> []
        then conflict_action pol (ci_existing i) (last (filter (material_conflict pol) (ci_comparisons i)))
      else if filter (conflicting pol) (ci_comparisons i) \<noteq> [] then ReviewClaim else AdmitClaim)
    \<and> set (cr_contradicts r) = xp_claim ` {c \<in> set (ci_comparisons i). conflicting pol c} \<and> distinct (cr_contradicts r)
    \<and> set (cr_contradicts r) \<subseteq> xc_id ` set (ci_existing i)"
proof -
  from assms obtain rs ids a where run: "compare_claims pol (ci_existing i) (ci_comparisons i) ([], [], AdmitClaim) = Inr (rs, ids, a)"
    and r: "cr_action r = a" "cr_contradicts r = sort_units (uniq ids)" and valid: "validateContradictionInput i = Inr ()"
    by (auto simp: evaluate_contradictions_def rbind_Inr_iff)
  from valid have "distinct (map xc_id (ci_existing i))"
    by (auto simp: validateContradictionInput_def rbind_Inr_iff dest: check_existing_Inr)
  from compare_claims_Inr [OF run this] r show ?thesis by auto
qed

text \<open>The engine admits exactly where nothing conflicts, and then it records no contradiction.\<close>

lemma admits_iff_no_conflict:
  assumes "evaluate_contradictions kpol i = Inr k"
  shows "cr_action k = AdmitClaim \<longleftrightarrow> filter (conflicting kpol) (ci_comparisons i) = []"
proof -
  have "filter (material_conflict kpol) cs \<noteq> [] \<Longrightarrow> filter (conflicting kpol) cs \<noteq> []" for cs
    by (induction cs) (auto simp: material_conflict_def split: if_splits)
  with contradictions_action [OF assms] show ?thesis by (auto simp: conflict_action_def)
qed

lemma admits_no_contradictions:
  assumes "evaluate_contradictions kpol i = Inr k" and "cr_action k = AdmitClaim"
  shows "cr_contradicts k = []"
proof -
  from assms admits_iff_no_conflict have "filter (conflicting kpol) (ci_comparisons i) = []" by blast
  then have "{c \<in> set (ci_comparisons i). conflicting kpol c} = {}" by (auto simp: filter_empty_conv)
  with contradictions_action [OF assms(1)] show ?thesis by (metis image_empty set_empty)
qed

lemma admit_claim_iff: "admit c k now = Inr a \<Longrightarrow> (ad_result_claim a \<noteq> None \<longleftrightarrow> cr_action k = AdmitClaim)"
  by (auto simp: admit_def split: if_splits)

section \<open>Properties\<close>

text \<open>
  The validation gate decides by the claim's support: it accepts exactly when every cited piece of
  evidence is assessed to exist (and to be verified, where the policy asks), the claim cites enough of
  them, its confidence reaches the acceptance threshold and no reported contradiction is material; it
  rejects exactly when evidence is missing, too little, or the confidence is below the review floor; and
  a candidate comes out exactly of an acceptance.
\<close>

theorem claim_decision_iff:
  assumes "validatePolicy pol = Inr ()" and "evaluate_claim pol p ctx = Inr v"
  shows "(cv_decision v = ClaimAccepted \<longleftrightarrow> (\<forall>e\<in>set (cp_evidence p). evidence_backed (vp_verified pol) ctx e)
      \<and> num_le (vp_count pol) (Fin (of_nat (length (cp_evidence p)))) \<and> num_le (vp_accepted pol) (cp_confidence p)
      \<and> (\<forall>c\<in>set (case_option [] id (vx_contradictions ctx)). num_lt (xa_confidence c) (vp_material pol)))
    \<and> (cv_decision v = ClaimRejected \<longleftrightarrow> (\<exists>e\<in>set (cp_evidence p). \<not> evidence_backed False ctx e)
      \<or> num_lt (Fin (of_nat (length (cp_evidence p)))) (vp_count pol) \<or> num_lt (cp_confidence p) (vp_review pol))
    \<and> (cv_candidate v \<noteq> None \<longleftrightarrow> cv_decision v = ClaimAccepted)"
  by (rule evaluate_claim_decides [OF assms])

text \<open>
  The contradiction engine's action is that of the last material conflict: with a material conflict
  among the comparisons, block where the last of them is with a verified claim and the policy blocks
  (review otherwise); without one, review where some comparison reaches the possible threshold; admit
  otherwise. The claim is recorded against exactly the claims it conflicts with.
\<close>

theorem contradiction_action:
  assumes "evaluate_contradictions pol i = Inr r"
  shows "cr_action r = (if filter (material_conflict pol) (ci_comparisons i) \<noteq> []
        then conflict_action pol (ci_existing i) (last (filter (material_conflict pol) (ci_comparisons i)))
      else if filter (conflicting pol) (ci_comparisons i) \<noteq> [] then ReviewClaim else AdmitClaim)
    \<and> set (cr_contradicts r) = xp_claim ` {c \<in> set (ci_comparisons i). conflicting pol c} \<and> distinct (cr_contradicts r)
    \<and> set (cr_contradicts r) \<subseteq> xc_id ` set (ci_existing i)"
  by (rule contradictions_action [OF assms])


section \<open>A claim that passes\<close>

definition run_result :: task_result where
  "run_result = projr (build_result run_done ''a'' \<lparr>ri_id = ''r'', ri_summary = ''found'', ri_drafts = Some
     [\<lparr>cd_statement = ''water is wet'', cd_confidence = Fin (9 / 10), cd_evidence = [''e1'', ''e1''], cd_rationale = None\<rparr>],
     ri_created_at = ''7''\<rparr>)"

definition run_context :: validation_context where
  "run_context = \<lparr>vx_evidence = [\<lparr>ea_id = ''e1'', ea_exists = True, ea_verified = True\<rparr>], vx_contradictions = None,
     vx_evaluated_at = ''8''\<rparr>"

definition run_validation :: claim_validation where
  "run_validation = projr (evaluate_claim DEFAULT_VALIDATION_POLICY (hd (rs_proposals run_result)) run_context)"

definition run_conflicts :: "contradiction_comparison list \<Rightarrow> contradiction_input" where
  "run_conflicts cs = \<lparr>ci_candidate = the (cv_candidate run_validation), ci_existing =
     [\<lparr>xc_id = ''v'', xc_statement = ''dry'', xc_confidence = Fin 1, xc_status = Verified, xc_updated_at = ''1''\<rparr>,
      \<lparr>xc_id = ''u'', xc_statement = ''damp'', xc_confidence = Fin 1, xc_status = Unverified, xc_updated_at = ''1''\<rparr>],
     ci_comparisons = cs, ci_evaluated_at = ''9''\<rparr>"

definition run_contradictions :: contradiction_result where
  "run_contradictions = projr (evaluate_contradictions DEFAULT_CONTRADICTION_POLICY (run_conflicts
     [\<lparr>xp_claim = ''v'', xp_kind = PossibleContradiction, xp_confidence = Fin (1 / 10), xp_rationale = None\<rparr>]))"

definition run_admission :: admission_result where
  "run_admission = projr (admit (the (cv_candidate run_validation)) run_contradictions ''10'')"

lemma default_policy_ok: "validatePolicy DEFAULT_VALIDATION_POLICY = Inr ()"
  by (simp add: validatePolicy_def DEFAULT_VALIDATION_POLICY_def is_integer_num_def bad_unit_num_def)

lemma run_pipeline:
  "build_result run_done ''a'' \<lparr>ri_id = ''r'', ri_summary = ''found'', ri_drafts = Some
     [\<lparr>cd_statement = ''water is wet'', cd_confidence = Fin (9 / 10), cd_evidence = [''e1'', ''e1''], cd_rationale = None\<rparr>],
     ri_created_at = ''7''\<rparr> = Inr run_result"
  "hd (rs_proposals run_result) \<in> set (rs_proposals run_result)"
  "evaluate_claim DEFAULT_VALIDATION_POLICY (hd (rs_proposals run_result)) run_context = Inr run_validation"
  "cv_candidate run_validation = Some (the (cv_candidate run_validation))"
  "evaluate_contradictions DEFAULT_CONTRADICTION_POLICY (run_conflicts
     [\<lparr>xp_claim = ''v'', xp_kind = PossibleContradiction, xp_confidence = Fin (1 / 10), xp_rationale = None\<rparr>])
     = Inr run_contradictions"
  "admit (the (cv_candidate run_validation)) run_contradictions ''10'' = Inr run_admission"
  "ad_result_claim run_admission = Some (the (ad_result_claim run_admission))"
  by code_simp+

theorem claim_decision_iff_witness: "evidence_backed True run_context ''e1''"
proof -
  have "cv_candidate run_validation \<noteq> None" using run_pipeline(4) by (metis option.distinct(1))
  with claim_decision_iff [OF default_policy_ok run_pipeline(3)]
  have "\<forall>e\<in>set (cp_evidence (hd (rs_proposals run_result))). evidence_backed (vp_verified DEFAULT_VALIDATION_POLICY) run_context e"
    by blast
  moreover have "cp_evidence (hd (rs_proposals run_result)) = [''e1'']" by code_simp
  moreover have "vp_verified DEFAULT_VALIDATION_POLICY" by code_simp
  ultimately show ?thesis by simp
qed

text \<open>A later conflict with an unverified claim lowers the block of an earlier one with a verified claim.\<close>

definition two_conflicts :: contradiction_input where
  "two_conflicts = run_conflicts
     [\<lparr>xp_claim = ''v'', xp_kind = MaterialKind, xp_confidence = Fin 1, xp_rationale = None\<rparr>,
      \<lparr>xp_claim = ''u'', xp_kind = MaterialKind, xp_confidence = Fin 1, xp_rationale = None\<rparr>]"

theorem contradiction_action_witness:
  "\<exists>r. evaluate_contradictions DEFAULT_CONTRADICTION_POLICY two_conflicts = Inr r \<and> cr_action r = ReviewClaim"
proof -
  let ?e = "evaluate_contradictions DEFAULT_CONTRADICTION_POLICY two_conflicts"
  have "?e = Inr (projr ?e)" by code_simp
  moreover have "filter (material_conflict DEFAULT_CONTRADICTION_POLICY) (ci_comparisons two_conflicts) \<noteq> []
      \<and> conflict_action DEFAULT_CONTRADICTION_POLICY (ci_existing two_conflicts)
          (last (filter (material_conflict DEFAULT_CONTRADICTION_POLICY) (ci_comparisons two_conflicts))) = ReviewClaim"
    by code_simp
  ultimately show ?thesis using contradiction_action [of DEFAULT_CONTRADICTION_POLICY two_conflicts "projr ?e"] by auto
qed


end
