(* ===== verification/Cognitive_Pipeline.thy ===== *)
theory Cognitive_Pipeline
  imports Claim_Pipeline
begin

text \<open>
  The cognitive pipeline (\<open>orchestration/cognitive-pipeline-orchestrator.ts\<close>), its durable records
  (\<open>storage/json-cognitive-pipeline-repository.ts\<close>), and the way a Hermes run reaches it
  (\<open>orchestration/hermes-execution-mapper.ts\<close>, \<open>hermes-cognitive-adapter.ts\<close>,
  \<open>hermes-execution-ingestion-service.ts\<close>). The parameter \<open>parse\<close> is \<open>new Date(s).getTime()\<close>, None for
  \<open>NaN\<close>. A mutation of a JSON collection is atomic: one that throws leaves the file as it was. Results:
  what every stored record certifies, and exactly which Hermes runs end in durable knowledge.
\<close>

section \<open>Records\<close>

record pipeline_record =
  pr_id :: string
  pr_execution :: mission_execution
  pr_result :: task_result
  pr_validation :: claim_validation
  pr_contradiction :: "contradiction_result option"
  pr_admission :: "admission_result option"
  pr_recorded_at :: string

datatype pipeline_error =
  EventsInvalid string
| SubmissionInvalid string
| ValidationFailed claim_validation_error
| ContradictionFailed contradiction_error
| AdmissionFailed admission_error
| RecordInvalid string
| RecordExists string
| RecordMissing string

definition lift_error :: "('e \<Rightarrow> 'f) \<Rightarrow> 'e + 'a \<Rightarrow> 'f + 'a" where
  "lift_error f r = (case r of Inl e \<Rightarrow> Inl (f e) | Inr x \<Rightarrow> Inr x)"

lemma lift_error_Inr [simp, result_simps]: "lift_error f r = Inr x \<longleftrightarrow> r = Inr x"
  by (simp add: lift_error_def split: sum.splits)

lemma lift_error_simps [simp]: "lift_error f (Inl e) = Inl (f e)" "lift_error f (Inr x) = Inr x"
  by (simp_all add: lift_error_def)

definition validateRecord :: "pipeline_record \<Rightarrow> pipeline_error + unit" where
  "validateRecord r =
     rbind (throw_if (pr_id r = [] \<or> pr_recorded_at r = []) (RecordInvalid ''id and recordedAt'')) (\<lambda>_.
     rbind (throw_if (es_mission (pr_execution r) \<noteq> rs_mission (pr_result r)) (RecordInvalid ''missions differ'')) (\<lambda>_.
     rbind (throw_if (\<not> list_ex (\<lambda>p. cp_id p = cp_id (cv_proposal (pr_validation r))) (rs_proposals (pr_result r)))
       (RecordInvalid ''proposal'')) (\<lambda>_.
     rbind (case pr_contradiction r of
         None \<Rightarrow> Inr ()
       | Some k \<Rightarrow> (case cv_candidate (pr_validation r) of
           None \<Rightarrow> Inl (RecordInvalid ''contradiction without candidate'')
         | Some c \<Rightarrow> throw_if (cc_id (cr_candidate k) \<noteq> cc_id c) (RecordInvalid ''contradiction candidate''))) (\<lambda>_.
     case pr_admission r of
       None \<Rightarrow> Inr ()
     | Some a \<Rightarrow> (case pr_contradiction r of
         None \<Rightarrow> Inl (RecordInvalid ''admission without contradiction'')
       | Some k \<Rightarrow>
           rbind (throw_if (cc_id (ad_result_candidate a) \<noteq> cc_id (cr_candidate k)) (RecordInvalid ''admission candidate'')) (\<lambda>_.
           rbind (throw_if (cr_action (ad_result_contradiction a) \<noteq> cr_action k) (RecordInvalid ''admission action'')) (\<lambda>_.
           rbind (throw_if (ad_result_decision a = KnowledgeAdmitted \<and> ad_result_claim a = None) (RecordInvalid ''claim missing'')) (\<lambda>_.
           throw_if (ad_result_decision a \<noteq> KnowledgeAdmitted \<and> ad_result_claim a \<noteq> None) (RecordInvalid ''claim'')))))))))"

definition append_record :: "pipeline_record \<Rightarrow> pipeline_record list \<Rightarrow> (pipeline_error + unit) \<times> pipeline_record list" where
  "append_record r records = (case validateRecord r of
     Inl e \<Rightarrow> (Inl e, records)
   | Inr _ \<Rightarrow> if list_ex (\<lambda>x. pr_id x = pr_id r) records then (Inl (RecordExists (pr_id r)), records)
       else (Inr (), records @ [r]))"

definition get_record :: "string \<Rightarrow> pipeline_record list \<Rightarrow> pipeline_error + pipeline_record" where
  "get_record i records = (case List.find (\<lambda>r. pr_id r = i) records of
     None \<Rightarrow> Inl (RecordMissing i)
   | Some r \<Rightarrow> rbind (validateRecord r) (\<lambda>_. Inr r))"

definition list_records :: "pipeline_record list \<Rightarrow> pipeline_error + pipeline_record list" where
  "list_records records = rbind (each_res validateRecord records) (\<lambda>_. Inr records)"

section \<open>The pipeline\<close>

record pipeline_input =
  pi_record_id :: string
  pi_execution :: mission_execution
  pi_result :: task_result
  pi_proposal :: claim_proposal
  pi_context :: validation_context
  pi_existing :: "existing_claim list"
  pi_comparisons :: "contradiction_comparison list"
  pi_recorded_at :: string

text \<open>The record a run builds, and its append.\<close>

definition pipeline_record_of ::
  "validation_policy \<Rightarrow> contradiction_policy \<Rightarrow> pipeline_input \<Rightarrow> pipeline_error + pipeline_record" where
  "pipeline_record_of pol kpol i =
     rbind (lift_error ValidationFailed (evaluate_claim pol (pi_proposal i) (pi_context i))) (\<lambda>v.
     let base = \<lparr>pr_id = pi_record_id i, pr_execution = pi_execution i, pr_result = pi_result i, pr_validation = v,
       pr_contradiction = None, pr_admission = None, pr_recorded_at = pi_recorded_at i\<rparr> in
     case cv_candidate v of
       None \<Rightarrow> Inr base
     | Some c \<Rightarrow>
         if cv_decision v \<noteq> ClaimAccepted then Inr base
         else rbind (lift_error ContradictionFailed (evaluate_contradictions kpol \<lparr>ci_candidate = c, ci_existing = pi_existing i,
             ci_comparisons = pi_comparisons i, ci_evaluated_at = vx_evaluated_at (pi_context i)\<rparr>)) (\<lambda>k.
           rbind (lift_error AdmissionFailed (admit c k (pi_recorded_at i))) (\<lambda>a.
           Inr (base\<lparr>pr_contradiction := Some k, pr_admission := Some a\<rparr>))))"

definition run_cognitive ::
  "validation_policy \<Rightarrow> contradiction_policy \<Rightarrow> pipeline_input \<Rightarrow> pipeline_record list
   \<Rightarrow> (pipeline_error + pipeline_record) \<times> pipeline_record list" where
  "run_cognitive pol kpol i records = (case pipeline_record_of pol kpol i of
     Inl e \<Rightarrow> (Inl e, records)
   | Inr r \<Rightarrow> (case append_record r records of
       (Inl e, records') \<Rightarrow> (Inl e, records')
     | (Inr _, records') \<Rightarrow> (Inr r, records')))"

section \<open>Hermes\<close>

text \<open>The properties of a submission beyond the declared ones are \<open>hs_extra\<close>.\<close>

record hermes_submission =
  hs_record_id :: string
  hs_execution :: mission_execution
  hs_result :: task_result
  hs_proposal_id :: string
  hs_evidence :: "evidence_assessment list"
  hs_comparisons :: "contradiction_comparison list"
  hs_submitted_at :: string
  hs_extra :: "string list"

definition FORBIDDEN_AUTHORITY_FIELDS :: "string list" where
  "FORBIDDEN_AUTHORITY_FIELDS = [''candidate'', ''validation'', ''contradiction'', ''admission'', ''claim'', ''durableClaim'']"

definition validateSubmission :: "hermes_submission \<Rightarrow> existing_claim list \<Rightarrow> pipeline_error + unit" where
  "validateSubmission s existing =
     rbind (each_res (\<lambda>f. throw_if (f \<in> set (hs_extra s)) (SubmissionInvalid f)) FORBIDDEN_AUTHORITY_FIELDS) (\<lambda>_.
     rbind (throw_if (hs_record_id s = [] \<or> hs_proposal_id s = [] \<or> hs_submitted_at s = []) (SubmissionInvalid ''required'')) (\<lambda>_.
     rbind (throw_if (es_mission (hs_execution s) \<noteq> rs_mission (hs_result s)) (SubmissionInvalid ''missions differ'')) (\<lambda>_.
     each_res (\<lambda>c. throw_if (xp_claim c \<notin> set (map xc_id existing)) (SubmissionInvalid (xp_claim c))) (hs_comparisons s))))"

definition submit ::
  "validation_policy \<Rightarrow> contradiction_policy \<Rightarrow> hermes_submission \<Rightarrow> existing_claim list \<Rightarrow> pipeline_record list
   \<Rightarrow> (pipeline_error + pipeline_record) \<times> pipeline_record list" where
  "submit pol kpol s existing records = (case validateSubmission s existing of
     Inl e \<Rightarrow> (Inl e, records)
   | Inr _ \<Rightarrow> (case List.find (\<lambda>p. cp_id p = hs_proposal_id s) (rs_proposals (hs_result s)) of
       None \<Rightarrow> (Inl (SubmissionInvalid (hs_proposal_id s)), records)
     | Some p \<Rightarrow> run_cognitive pol kpol \<lparr>pi_record_id = hs_record_id s, pi_execution = hs_execution s, pi_result = hs_result s,
         pi_proposal = p, pi_context = \<lparr>vx_evidence = hs_evidence s, vx_contradictions = None, vx_evaluated_at = hs_submitted_at s\<rparr>,
         pi_existing = existing, pi_comparisons = hs_comparisons s, pi_recorded_at = hs_submitted_at s\<rparr> records))"

datatype hermes_event =
  RunStarted string string string
| EvidenceRecorded string string bool string
| ClaimProposed string string js_number "string list" string
| RunCompleted string string

text \<open>The events of one type, with their fields.\<close>

definition started_events where
  "started_events es = concat (map (\<lambda>e. case e of RunStarted m t w \<Rightarrow> [(m, t, w)] | _ \<Rightarrow> []) es)"

definition completed_events where
  "completed_events es = concat (map (\<lambda>e. case e of RunCompleted s w \<Rightarrow> [(s, w)] | _ \<Rightarrow> []) es)"

definition proposed_events where
  "proposed_events es = concat (map (\<lambda>e. case e of ClaimProposed i s c ids w \<Rightarrow> [(i, s, c, ids, w)] | _ \<Rightarrow> []) es)"

definition evidence_events where
  "evidence_events es = concat (map (\<lambda>e. case e of EvidenceRecorded i k v w \<Rightarrow> [(i, k, v, w)] | _ \<Rightarrow> []) es)"

primrec check_evidence_ids :: "string list \<Rightarrow> (string \<times> 'a) list \<Rightarrow> pipeline_error + unit" where
  "check_evidence_ids seen [] = Inr ()"
| "check_evidence_ids seen (e # es) =
     (if trim (fst e) = [] \<or> fst e \<in> set seen then Inl (EventsInvalid (fst e)) else check_evidence_ids (fst e # seen) es)"

definition earlier :: "(string \<Rightarrow> int option) \<Rightarrow> string \<Rightarrow> string \<Rightarrow> bool" where
  "earlier parse a b = (case parse a of None \<Rightarrow> False | Some x \<Rightarrow> (case parse b of None \<Rightarrow> False | Some y \<Rightarrow> x < y))"

definition map_execution ::
  "(string \<Rightarrow> int option) \<Rightarrow> string \<Rightarrow> string \<Rightarrow> hermes_event list \<Rightarrow> pipeline_error + hermes_submission" where
  "map_execution parse record_id result_id events =
     (if length events = 0 then Inl (EventsInvalid ''empty'')
      else case started_events events of
        [(mission, task, start_at)] \<Rightarrow> (case completed_events events of
          [(summary, end_at)] \<Rightarrow> (case proposed_events events of
            [(proposal, statement, confidence, ids, proposed_at)] \<Rightarrow>
              if earlier parse end_at start_at then Inl (EventsInvalid ''order'')
              else rbind (check_evidence_ids [] (evidence_events events)) (\<lambda>_.
                rbind (each_res (\<lambda>i. throw_if (i \<notin> set (map fst (evidence_events events))) (EventsInvalid i)) ids) (\<lambda>_.
                if bad_unit_num confidence then Inl (EventsInvalid ''confidence'')
                else
                  let evidence = evidence_events events;
                      claim = \<lparr>cp_id = proposal, cp_mission = mission, cp_task = task, cp_statement = statement,
                        cp_confidence = confidence, cp_evidence = ids, cp_rationale = None, cp_status = ''proposed'',
                        cp_created_at = proposed_at\<rparr>;
                      plan = \<lparr>plan_summary = ''Hermes imported execution'',
                        plan_tasks = [\<lparr>task_id = task, task_title = ''Hermes task'',
                          task_objective = ''Import completed Hermes research task'', task_status = TaskReady, depends_on = [],
                          evidence_requirements = map (\<lambda>(i, k, v, w). \<lparr>er_key = k,
                            er_description = ''Hermes evidence requirement: '' @ k, er_required = True\<rparr>) evidence\<rparr>],
                        plan_success_criteria = [''Hermes run completed''], plan_stop_conditions = []\<rparr> in
                  Inr \<lparr>hs_record_id = record_id,
                    hs_execution = \<lparr>es_mission = mission, es_plan = plan,
                      es_tasks = [\<lparr>te_id = task, te_status = TaskCompleted,
                        te_evidence = map (\<lambda>(i, k, v, w). \<lparr>ev_key = k, ev_evidence = i, ev_recorded_at = w\<rparr>) evidence,
                        te_started = Some start_at, te_completed = Some end_at, te_failed = None, te_reason = None\<rparr>],
                      es_created = start_at, es_updated = end_at\<rparr>,
                    hs_result = \<lparr>rs_id = result_id, rs_mission = mission, rs_task = task, rs_summary = summary,
                      rs_evidence = ids, rs_proposals = [claim], rs_created_at = end_at\<rparr>,
                    hs_proposal_id = proposal,
                    hs_evidence = map (\<lambda>(i, k, v, w). \<lparr>ea_id = i, ea_exists = True, ea_verified = v\<rparr>) evidence,
                    hs_comparisons = [], hs_submitted_at = end_at, hs_extra = []\<rparr>))
          | _ \<Rightarrow> Inl (EventsInvalid ''claim_proposed''))
        | _ \<Rightarrow> Inl (EventsInvalid ''run_completed''))
      | _ \<Rightarrow> Inl (EventsInvalid ''run_started''))"

record hermes_run =
  hn_record_id :: string
  hn_result_id :: string
  hn_events :: "hermes_event list"
  hn_comparisons :: "contradiction_comparison list option"

definition ingest_run ::
  "(string \<Rightarrow> int option) \<Rightarrow> validation_policy \<Rightarrow> contradiction_policy \<Rightarrow> hermes_run \<Rightarrow> existing_claim list
   \<Rightarrow> pipeline_record list \<Rightarrow> (pipeline_error + pipeline_record) \<times> pipeline_record list" where
  "ingest_run parse pol kpol run existing records =
     (case map_execution parse (hn_record_id run) (hn_result_id run) (hn_events run) of
       Inl e \<Rightarrow> (Inl e, records)
     | Inr s \<Rightarrow> submit pol kpol (s\<lparr>hs_comparisons := case_option [] id (hn_comparisons run)\<rparr>) existing records)"

section \<open>The stored records\<close>

lemma append_record_cases:
  obtains (refused) e where "append_record r records = (Inl e, records)"
  | (stored) "append_record r records = (Inr (), records @ [r])" "validateRecord r = Inr ()" "pr_id r \<notin> pr_id ` set records"
proof (cases "validateRecord r")
  case (Inr u)
  then show thesis
  proof (cases "pr_id r \<in> pr_id ` set records")
    case True
    with Inr show thesis by (intro refused) (auto simp: append_record_def list_ex_iff)
  next
    case False
    then have "\<not> list_ex (\<lambda>x. pr_id x = pr_id r) records" unfolding list_ex_iff by (metis image_eqI)
    with Inr False show thesis by (intro stored) (simp_all add: append_record_def)
  qed
qed (rule refused, simp add: append_record_def)

lemma run_cognitive_cases:
  obtains (refused) e where "run_cognitive pol kpol i records = (Inl e, records)"
  | (stored) r where "run_cognitive pol kpol i records = (Inr r, records @ [r])" "pipeline_record_of pol kpol i = Inr r"
      "validateRecord r = Inr ()" "pr_id r \<notin> pr_id ` set records"
proof (cases "pipeline_record_of pol kpol i")
  case (Inl e)
  then show thesis by (intro refused) (simp add: run_cognitive_def)
next
  case (Inr r)
  show thesis
  proof (cases rule: append_record_cases [of r records])
    case (refused e)
    then show thesis by (intro that(1)) (simp add: run_cognitive_def Inr)
  next
    case stored
    then show thesis by (intro that(2) [of r]) (simp_all add: run_cognitive_def Inr)
  qed
qed

text \<open>What a record certifies, under the policies of the gates that made it.\<close>

definition certified :: "validation_policy \<Rightarrow> contradiction_policy \<Rightarrow> pipeline_record \<Rightarrow> bool" where
  "certified pol kpol r \<longleftrightarrow> validateRecord r = Inr () \<and> (\<exists>i. pipeline_record_of pol kpol i = Inr r)"

definition records_inv :: "validation_policy \<Rightarrow> contradiction_policy \<Rightarrow> pipeline_record list \<Rightarrow> bool" where
  "records_inv pol kpol records \<longleftrightarrow> distinct (map pr_id records) \<and> (\<forall>r\<in>set records. certified pol kpol r)"

definition cognitive_step where
  "cognitive_step pol kpol i records = snd (run_cognitive pol kpol i records)"

interpretation record_log: keyed_log "\<lambda>records. records" "cognitive_step pol kpol" "records_inv pol kpol" pr_id
proof unfold_locales
  fix i records
  show "prefix records (cognitive_step pol kpol i records)"
    by (cases rule: run_cognitive_cases [of pol kpol i records]) (simp_all add: cognitive_step_def)
  show "records_inv pol kpol records \<Longrightarrow> records_inv pol kpol (cognitive_step pol kpol i records)"
    by (cases rule: run_cognitive_cases [of pol kpol i records])
      (auto simp: cognitive_step_def records_inv_def certified_def)
  show "records_inv pol kpol records \<Longrightarrow> distinct (map pr_id records)"
    by (simp add: records_inv_def)
qed

lemma pipeline_record_of_Inr:
  assumes "pipeline_record_of pol kpol i = Inr r"
  obtains v where "evaluate_claim pol (pi_proposal i) (pi_context i) = Inr v" "pr_validation r = v" "pr_result r = pi_result i"
    "pr_execution r = pi_execution i" "pr_id r = pi_record_id i"
    "cv_decision v \<noteq> ClaimAccepted \<Longrightarrow> pr_contradiction r = None \<and> pr_admission r = None"
    "cv_decision v = ClaimAccepted \<Longrightarrow> \<exists>c k a. cv_candidate v = Some c \<and> pr_contradiction r = Some k \<and> pr_admission r = Some a
       \<and> evaluate_contradictions kpol \<lparr>ci_candidate = c, ci_existing = pi_existing i,
             ci_comparisons = pi_comparisons i, ci_evaluated_at = vx_evaluated_at (pi_context i)\<rparr> = Inr k
       \<and> admit c k (pi_recorded_at i) = Inr a"
proof -
  from assms obtain v where v: "evaluate_claim pol (pi_proposal i) (pi_context i) = Inr v"
    by (auto simp: pipeline_record_of_def rbind_Inr_iff)
  then have dec: "cv_decision v = ClaimAccepted \<longleftrightarrow> cv_candidate v \<noteq> None"
    by (auto simp: evaluate_claim_def rbind_Inr_iff Let_def validation_result_def split: if_splits)
  show thesis
  proof (cases "cv_candidate v")
    case None
    with assms v dec show thesis by (intro that [of v]) (auto simp: pipeline_record_of_def)
  next
    case (Some c)
    with assms v dec show thesis
      by (intro that [of v]) (auto simp: pipeline_record_of_def rbind_Inr_iff)
  qed
qed

lemma cognitive_step_cases:
  obtains (unchanged) "cognitive_step pol kpol i records = records"
  | (stored) r where "cognitive_step pol kpol i records = records @ [r]" "pipeline_record_of pol kpol i = Inr r"
      "validateRecord r = Inr ()"
proof (cases rule: run_cognitive_cases [of pol kpol i records])
  case (refused e)
  then show thesis by (intro unchanged) (simp add: cognitive_step_def)
next
  case (stored r)
  then show thesis by (intro that(2) [of r]) (simp_all add: cognitive_step_def)
qed

lemma stored_from:
  "r \<in> set (fold (cognitive_step pol kpol) runs []) \<Longrightarrow>
     \<exists>i\<in>set runs. pipeline_record_of pol kpol i = Inr r \<and> validateRecord r = Inr ()"
proof (induction runs rule: rev_induct)
  case (snoc i runs)
  then show ?case
    by (cases rule: cognitive_step_cases [of pol kpol i "fold (cognitive_step pol kpol) runs []"]) auto
qed simp

lemma evidence_backed_hermes:
  "evidence_backed v \<lparr>vx_evidence = map (\<lambda>(i, k, v, w). \<lparr>ea_id = i, ea_exists = True, ea_verified = v\<rparr>) (evidence_events es),
     vx_contradictions = c, vx_evaluated_at = t\<rparr> i
   \<longleftrightarrow> (\<exists>k b w. EvidenceRecorded i k b w \<in> set es \<and> (v \<longrightarrow> b))"
proof -
  have "(i, k, b, w) \<in> set (evidence_events es) \<longleftrightarrow> EvidenceRecorded i k b w \<in> set es" for k b w
    unfolding evidence_events_def by (induction es) (auto split: hermes_event.splits)
  moreover have "evidence_backed v \<lparr>vx_evidence = map (\<lambda>(i, k, v, w). \<lparr>ea_id = i, ea_exists = True, ea_verified = v\<rparr>) xs,
     vx_contradictions = c, vx_evaluated_at = t\<rparr> i \<longleftrightarrow> (\<exists>k b w. (i, k, b, w) \<in> set xs \<and> (v \<longrightarrow> b))"
    for xs :: "(string \<times> string \<times> bool \<times> string) list"
  proof -
    have "(\<exists>x\<in>set xs. fst x = i \<and> (v \<longrightarrow> fst (snd (snd x)))) \<longleftrightarrow> (\<exists>k b w. (i, k, b, w) \<in> set xs \<and> (v \<longrightarrow> b))"
      by (metis fst_conv prod.collapse snd_conv)
    then show ?thesis by (simp add: evidence_backed_def split_beta)
  qed
  ultimately show ?thesis by simp
qed

lemma map_execution_Inr:
  assumes "map_execution parse rid resid es = Inr s" and "proposed_events es = [(pid, st, conf, ids, w)]"
  shows "hs_proposal_id s = pid \<and> map cp_id (rs_proposals (hs_result s)) = [pid] \<and> map cp_evidence (rs_proposals (hs_result s)) = [ids]
    \<and> map cp_confidence (rs_proposals (hs_result s)) = [conf] \<and> map cp_statement (rs_proposals (hs_result s)) = [st]
    \<and> hs_evidence s = map (\<lambda>(i, k, v, w). \<lparr>ea_id = i, ea_exists = True, ea_verified = v\<rparr>) (evidence_events es)
    \<and> set ids \<subseteq> fst ` set (evidence_events es)"
  using assms by (auto simp: map_execution_def rbind_Inr_iff each_res_Inr_iff Let_def split: if_splits list.splits)

section \<open>Properties\<close>

text \<open>
  C36. What a stored record certifies: whatever runs of the pipeline wrote the store, no two records have the
  same id, and every record that carries a durable claim was written by a run whose proposal was accepted;
  the claim is that proposal's statement over that proposal's evidence, every piece of it assessed to exist
  (and to be verified, where the policy asks), with a confidence that reaches the threshold, a contradiction
  assessment that admits, and no claim it contradicts. A later run never changes the record.
\<close>

theorem stored_claim_certified:
  assumes "validatePolicy pol = Inr ()" and "records = fold (cognitive_step pol kpol) runs []" and "r \<in> set records"
    and "pr_admission r = Some a" and "ad_result_claim a = Some d"
  shows "distinct (map pr_id records) \<and> r \<in> set (fold (cognitive_step pol kpol) later records)
    \<and> (\<exists>i\<in>set runs. pr_id r = pi_record_id i \<and> cp_id (pi_proposal i) \<in> cp_id ` set (rs_proposals (pr_result r))
        \<and> dc_statement d = cp_statement (pi_proposal i) \<and> dc_evidence d = cp_evidence (pi_proposal i)
        \<and> dc_evidence d \<noteq> [] \<and> (\<forall>e\<in>set (dc_evidence d). evidence_backed (vp_verified pol) (pi_context i) e)
        \<and> num_le (vp_accepted pol) (dc_confidence d) \<and> filter (conflicting kpol) (pi_comparisons i) = [])
    \<and> dc_contradicts d = []"
proof -
  have empty: "records_inv pol kpol []" by (simp add: records_inv_def)
  have "distinct (map pr_id records)"
    using record_log.run_inv [OF empty, of runs] unfolding assms(2) by (simp add: records_inv_def)
  moreover have "r \<in> set (fold (cognitive_step pol kpol) later records)" by (rule record_log.entry_persists [OF assms(3)])
  moreover from stored_from assms(2,3) obtain i where i: "i \<in> set runs" "pipeline_record_of pol kpol i = Inr r"
    "validateRecord r = Inr ()" by blast
  from pipeline_record_of_Inr [OF i(2)] assms(4) obtain v c k where v:
    "evaluate_claim pol (pi_proposal i) (pi_context i) = Inr v" "pr_validation r = v" "pr_id r = pi_record_id i"
    "cv_candidate v = Some c" "evaluate_contradictions kpol \<lparr>ci_candidate = c, ci_existing = pi_existing i,
        ci_comparisons = pi_comparisons i, ci_evaluated_at = vx_evaluated_at (pi_context i)\<rparr> = Inr k"
    "admit c k (pi_recorded_at i) = Inr a" by (metis option.inject option.distinct(1))
  from admit_claim [OF v(6) assms(5)] evaluate_claim_candidate [OF v(1,4)] have d: "cr_action k = AdmitClaim"
    "dc_statement d = cp_statement (pi_proposal i)" "dc_evidence d = cp_evidence (pi_proposal i)"
    "dc_confidence d = cp_confidence (pi_proposal i)" "dc_contradicts d = cr_contradicts k" by simp_all
  moreover have "(\<forall>e\<in>set (cp_evidence (pi_proposal i)). evidence_backed (vp_verified pol) (pi_context i) e)
      \<and> num_le (vp_accepted pol) (cp_confidence (pi_proposal i))"
    using evaluate_claim_accepts [OF assms(1) v(1)] v(4) by simp
  moreover have "cp_evidence (pi_proposal i) \<noteq> []"
    using v(1) by (auto simp: evaluate_claim_def rbind_Inr_iff validateClaimInput_Inr)
  moreover have "filter (conflicting kpol) (pi_comparisons i) = []"
    using admits_iff_no_conflict [OF v(5)] d(1) by simp
  moreover have "cr_contradicts k = []" by (rule admits_no_contradictions [OF v(5) d(1)])
  moreover have "cp_id (pi_proposal i) \<in> cp_id ` set (rs_proposals (pr_result r))"
  proof -
    from v(1) have "cv_proposal v = pi_proposal i"
      by (auto simp: evaluate_claim_def rbind_Inr_iff Let_def validation_result_def split: if_splits)
    with i(3) v(2) show ?thesis by (auto simp: validateRecord_def rbind_Inr_iff list_ex_iff image_iff intro: sym)
  qed
  ultimately show ?thesis using i(1) v(3) by auto
qed

text \<open>
  Which Hermes runs become durable knowledge: a run that was recorded carries a durable claim exactly when
  each piece of evidence the claim cites was reported by the run itself (as verified, where the policy asks),
  there are enough of them, the confidence the run reports reaches the threshold, and none of the
  comparisons the run brings conflicts. Nothing else enters: the existing claims decide nothing by themselves.
\<close>

theorem hermes_admission_iff:
  assumes "validatePolicy pol = Inr ()" and "ingest_run parse pol kpol run existing records = (Inr r, records')"
    and "proposed_events (hn_events run) = [(pid, st, conf, ids, w)]"
  shows "(\<exists>a. pr_admission r = Some a \<and> ad_result_claim a \<noteq> None)
    \<longleftrightarrow> (\<forall>e\<in>set ids. \<exists>k b t. EvidenceRecorded e k b t \<in> set (hn_events run) \<and> (vp_verified pol \<longrightarrow> b))
      \<and> num_le (vp_count pol) (Fin (of_nat (length ids))) \<and> num_le (vp_accepted pol) conf
      \<and> filter (conflicting kpol) (case_option [] id (hn_comparisons run)) = []"
proof -
  from assms(2) obtain s where s: "map_execution parse (hn_record_id run) (hn_result_id run) (hn_events run) = Inr s"
    and sub: "submit pol kpol (s\<lparr>hs_comparisons := case_option [] id (hn_comparisons run)\<rparr>) existing records = (Inr r, records')"
    by (auto simp: ingest_run_def split: sum.splits)
  note m = map_execution_Inr [OF s assms(3)]
  from m obtain p where p: "rs_proposals (hs_result s) = [p]" "cp_id p = pid" "cp_evidence p = ids" "cp_confidence p = conf" by auto
  obtain ctx where ctx: "ctx = \<lparr>vx_evidence = hs_evidence s, vx_contradictions = None, vx_evaluated_at = hs_submitted_at s\<rparr>" by simp
  obtain i where i: "i = \<lparr>pi_record_id = hs_record_id s, pi_execution = hs_execution s, pi_result = hs_result s,
         pi_proposal = p, pi_context = ctx, pi_existing = existing,
         pi_comparisons = case_option [] id (hn_comparisons run), pi_recorded_at = hs_submitted_at s\<rparr>" by simp
  have "run_cognitive pol kpol i records = (Inr r, records')"
    using sub m p by (auto simp: submit_def i ctx split: sum.splits)
  then have "pipeline_record_of pol kpol i = Inr r"
    by (cases rule: run_cognitive_cases [of pol kpol i records]) auto
  then obtain v where v: "evaluate_claim pol p ctx = Inr v"
    "cv_decision v \<noteq> ClaimAccepted \<Longrightarrow> pr_admission r = None"
    "cv_decision v = ClaimAccepted \<Longrightarrow> \<exists>c k a. pr_admission r = Some a
       \<and> evaluate_contradictions kpol \<lparr>ci_candidate = c, ci_existing = existing,
             ci_comparisons = case_option [] id (hn_comparisons run), ci_evaluated_at = vx_evaluated_at ctx\<rparr> = Inr k
       \<and> admit c k (hs_submitted_at s) = Inr a"
    by (rule pipeline_record_of_Inr) (force simp: i)
  have accepted: "cv_decision v = ClaimAccepted \<longleftrightarrow>
      (\<forall>e\<in>set ids. \<exists>k b t. EvidenceRecorded e k b t \<in> set (hn_events run) \<and> (vp_verified pol \<longrightarrow> b))
      \<and> num_le (vp_count pol) (Fin (of_nat (length ids))) \<and> num_le (vp_accepted pol) conf"
    using evaluate_claim_decides [OF assms(1) v(1)] m p(3,4) by (simp add: ctx evidence_backed_hermes)
  show ?thesis
  proof (cases "cv_decision v = ClaimAccepted")
    case True
    from v(3) [OF True] obtain c k a where "pr_admission r = Some a"
       "evaluate_contradictions kpol \<lparr>ci_candidate = c, ci_existing = existing,
             ci_comparisons = case_option [] id (hn_comparisons run), ci_evaluated_at = vx_evaluated_at ctx\<rparr> = Inr k"
       "admit c k (hs_submitted_at s) = Inr a" by blast
    with admits_iff_no_conflict [OF this(2)] admit_claim_iff [OF this(3)] accepted True show ?thesis by auto
  next
    case False
    with v(2) accepted show ?thesis by auto
  qed
qed

text \<open>A run that reports its own evidence as verified, against a verified claim of the opposite.\<close>

definition sample_run :: hermes_run where
  "sample_run = \<lparr>hn_record_id = ''r1'', hn_result_id = ''t1'', hn_events =
     [RunStarted ''m'' ''a'' ''1'', EvidenceRecorded ''e1'' ''k'' True ''2'',
      ClaimProposed ''p1'' ''the sky is green'' (Fin 1) [''e1''] ''3'', RunCompleted ''done'' ''4''], hn_comparisons = None\<rparr>"

definition sample_existing :: "existing_claim list" where
  "sample_existing = [\<lparr>xc_id = ''v'', xc_statement = ''the sky is not green'', xc_confidence = Fin 1, xc_status = Verified,
     xc_updated_at = ''1''\<rparr>]"

abbreviation sample_ingest where
  "sample_ingest \<equiv> ingest_run (\<lambda>s. Some (int (length s))) DEFAULT_VALIDATION_POLICY DEFAULT_CONTRADICTION_POLICY sample_run
     sample_existing []"

theorem hermes_admission_iff_witness:
  "\<exists>r records a. sample_ingest = (Inr r, records) \<and> pr_admission r = Some a \<and> ad_result_claim a \<noteq> None"
proof -
  have "case fst sample_ingest of Inl _ \<Rightarrow> False | Inr _ \<Rightarrow> True" by code_simp
  then obtain r records where r: "sample_ingest = (Inr r, records)"
    by (cases sample_ingest) (auto split: sum.splits)
  have "proposed_events (hn_events sample_run) = [(''p1'', ''the sky is green'', Fin 1, [''e1''], ''3'')]" by code_simp
  from hermes_admission_iff [OF default_policy_ok r this] have
    "(\<exists>a. pr_admission r = Some a \<and> ad_result_claim a \<noteq> None)
      \<longleftrightarrow> (\<forall>e\<in>set [''e1'']. \<exists>k b t. EvidenceRecorded e k b t \<in> set (hn_events sample_run) \<and> (vp_verified DEFAULT_VALIDATION_POLICY \<longrightarrow> b))
      \<and> num_le (vp_count DEFAULT_VALIDATION_POLICY) (Fin (of_nat (length [''e1'']))) \<and> num_le (vp_accepted DEFAULT_VALIDATION_POLICY) (Fin 1)
      \<and> filter (conflicting DEFAULT_CONTRADICTION_POLICY) (case_option [] id (hn_comparisons sample_run)) = []" .
  moreover have "num_le (vp_count DEFAULT_VALIDATION_POLICY) (Fin (of_nat (length [''e1''])))"
    "num_le (vp_accepted DEFAULT_VALIDATION_POLICY) (Fin 1)" by code_simp+
  moreover have "EvidenceRecorded ''e1'' ''k'' True ''2'' \<in> set (hn_events sample_run)" "hn_comparisons sample_run = None"
    by (simp_all add: sample_run_def)
  ultimately show ?thesis using r by auto
qed

definition sample_input :: pipeline_input where
  "sample_input = \<lparr>pi_record_id = ''r'', pi_execution = run_done, pi_result = run_result, pi_proposal = hd (rs_proposals run_result),
     pi_context = run_context, pi_existing = [], pi_comparisons = [], pi_recorded_at = ''9''\<rparr>"

theorem stored_claim_certified_witness:
  "\<exists>r a d. fold (cognitive_step DEFAULT_VALIDATION_POLICY DEFAULT_CONTRADICTION_POLICY) [sample_input, sample_input] [] = [r]
     \<and> pr_admission r = Some a \<and> ad_result_claim a = Some d \<and> dc_statement d = ''water is wet''"
proof -
  let ?step = "cognitive_step DEFAULT_VALIDATION_POLICY DEFAULT_CONTRADICTION_POLICY"
  have "case fold ?step [sample_input, sample_input] [] of
      [r] \<Rightarrow> (case pr_admission r of None \<Rightarrow> False | Some a \<Rightarrow> (case ad_result_claim a of None \<Rightarrow> False | Some d \<Rightarrow> True)) | _ \<Rightarrow> False"
    by code_simp
  then obtain r a d where r: "fold ?step [sample_input, sample_input] [] = [r]" "pr_admission r = Some a" "ad_result_claim a = Some d"
    by (auto split: list.splits option.splits)
  from stored_claim_certified [OF default_policy_ok r(1) [symmetric] _ r(2,3)]
  have "dc_statement d = cp_statement (pi_proposal sample_input)" by auto
  moreover have "cp_statement (pi_proposal sample_input) = ''water is wet''" by code_simp
  ultimately show ?thesis using r by auto
qed

end
