(* ===== verification/Hermes_Ingestion.thy ===== *)
theory Hermes_Ingestion
  imports Cognitive_Pipeline Stable_Hash
begin

text \<open>
  Idempotent ingestion of Hermes runs (\<open>orchestration/idempotent-hermes-execution-ingestion-service.ts\<close>)
  over its receipts (\<open>storage/json-hermes-ingestion-receipt-repository.ts\<close>), and what repairs it after a crash
  (\<open>hermes-ingestion-recovery-coordinator.ts\<close>, \<open>hermes-ingestion-startup-reconciler.ts\<close>). The receipts and the
  records are two files: an ingestion reserves its key, appends the record, then completes the receipt, and it
  may be interrupted or overtaken between any two of these. Parameters: \<open>parse\<close> (\<open>new Date(s).getTime()\<close>), \<open>lc\<close>
  (\<open>localeCompare\<close>) and \<open>num\<close> (rendering of numbers). Results: what holds of the two files under every
  interleaving with crashes and failing writes, what start-up repairs, and three ways in which it does not.
\<close>

section \<open>Receipts\<close>

datatype receipt_status = ReceiptPending | ReceiptCompleted | ReceiptFailed

record hermes_receipt =
  hr_key :: string
  hr_fingerprint :: string
  hr_record_id :: string
  hr_status :: receipt_status
  hr_created :: string
  hr_updated :: string
  hr_lease :: "string option"
  hr_record :: "pipeline_record option"
  hr_failure :: "string option"

record begin_input =
  bi_key :: string
  bi_fingerprint :: string
  bi_record_id :: string
  bi_at :: string
  bi_lease :: "string option"

datatype begin_result = Acquired hermes_receipt | Replay hermes_receipt

datatype ingestion_error = IngestionConflict string | IngestionInProgress string | IngestionKeyRequired | IngestionFailed string

definition isExpired :: "(string \<Rightarrow> int option) \<Rightarrow> string option \<Rightarrow> string \<Rightarrow> bool" where
  "isExpired parse lease at_time = (case lease of
     None \<Rightarrow> False
   | Some l \<Rightarrow> l \<noteq> [] \<and> (case parse l of None \<Rightarrow> False | Some x \<Rightarrow> (case parse at_time of None \<Rightarrow> False | Some y \<Rightarrow> x \<le> y)))"

text \<open>\<open>receipts.find(...)\<close> followed by assignments to the receipt found.\<close>

primrec update_receipt :: "string \<Rightarrow> (hermes_receipt \<Rightarrow> hermes_receipt) \<Rightarrow> hermes_receipt list \<Rightarrow> hermes_receipt list" where
  "update_receipt k f [] = []"
| "update_receipt k f (r # rs) = (if hr_key r = k then f r # rs else r # update_receipt k f rs)"

definition get_receipt :: "string \<Rightarrow> hermes_receipt list \<Rightarrow> hermes_receipt option" where
  "get_receipt k rs = List.find (\<lambda>r. hr_key r = k) rs"

definition reacquired :: "begin_input \<Rightarrow> hermes_receipt \<Rightarrow> hermes_receipt" where
  "reacquired i r = r\<lparr>hr_status := ReceiptPending, hr_updated := bi_at i, hr_lease := bi_lease i, hr_failure := None\<rparr>"

definition new_receipt :: "begin_input \<Rightarrow> hermes_receipt" where
  "new_receipt i = \<lparr>hr_key = bi_key i, hr_fingerprint = bi_fingerprint i, hr_record_id = bi_record_id i,
     hr_status = ReceiptPending, hr_created = bi_at i, hr_updated = bi_at i, hr_lease = bi_lease i, hr_record = None,
     hr_failure = None\<rparr>"

definition begin_ingestion ::
  "(string \<Rightarrow> int option) \<Rightarrow> begin_input \<Rightarrow> hermes_receipt list \<Rightarrow> (ingestion_error + begin_result) \<times> hermes_receipt list" where
  "begin_ingestion parse i rs = (case get_receipt (bi_key i) rs of
     Some r \<Rightarrow>
       if hr_fingerprint r \<noteq> bi_fingerprint i \<or> hr_record_id r \<noteq> bi_record_id i then (Inl (IngestionConflict (bi_key i)), rs)
       else if hr_status r = ReceiptPending \<and> \<not> isExpired parse (hr_lease r) (bi_at i)
         then (Inl (IngestionInProgress (bi_key i)), rs)
       else if hr_status r = ReceiptCompleted \<and> hr_record r \<noteq> None then (Inr (Replay r), rs)
       else (Inr (Acquired (reacquired i r)), update_receipt (bi_key i) (reacquired i) rs)
   | None \<Rightarrow> (Inr (Acquired (new_receipt i)), rs @ [new_receipt i]))"

definition completed :: "pipeline_record \<Rightarrow> string \<Rightarrow> hermes_receipt \<Rightarrow> hermes_receipt" where
  "completed record at_time r = r\<lparr>hr_status := ReceiptCompleted, hr_record := Some record, hr_updated := at_time,
     hr_lease := None, hr_failure := None\<rparr>"

definition complete_receipt ::
  "string \<Rightarrow> pipeline_record \<Rightarrow> string \<Rightarrow> hermes_receipt list \<Rightarrow> (ingestion_error + unit) \<times> hermes_receipt list" where
  "complete_receipt k record at_time rs = (case get_receipt k rs of
     None \<Rightarrow> (Inl (IngestionConflict k), rs)
   | Some r \<Rightarrow>
       if hr_status r \<noteq> ReceiptPending then (Inl (IngestionConflict k), rs)
       else if hr_record_id r \<noteq> pr_id record then (Inl (IngestionConflict k), rs)
       else (Inr (), update_receipt k (completed record at_time) rs))"

definition failed :: "string \<Rightarrow> string \<Rightarrow> hermes_receipt \<Rightarrow> hermes_receipt" where
  "failed message at_time r = r\<lparr>hr_status := ReceiptFailed, hr_failure := Some message, hr_updated := at_time, hr_lease := None\<rparr>"

definition fail_receipt :: "string \<Rightarrow> string \<Rightarrow> string \<Rightarrow> hermes_receipt list \<Rightarrow> hermes_receipt list" where
  "fail_receipt k message at_time rs = (case get_receipt k rs of
     None \<Rightarrow> rs
   | Some r \<Rightarrow> if hr_status r \<noteq> ReceiptPending then rs else update_receipt k (failed message at_time) rs)"

definition listPending :: "hermes_receipt list \<Rightarrow> hermes_receipt list" where
  "listPending rs = filter (\<lambda>r. hr_status r = ReceiptPending) rs"

definition listExpiredPending :: "(string \<Rightarrow> int option) \<Rightarrow> string \<Rightarrow> hermes_receipt list \<Rightarrow> hermes_receipt list" where
  "listExpiredPending parse at_time rs = filter (\<lambda>r. hr_status r = ReceiptPending \<and> isExpired parse (hr_lease r) at_time) rs"

section \<open>Fingerprints\<close>

text \<open>\<open>JSON.stringify(sortValue(value))\<close>: the keys of every object sorted, undefined members left out.\<close>

function sortValue :: "string comparator \<Rightarrow> js_value \<Rightarrow> js_value" where
  "sortValue lc (JArray vs) = JArray (map (sortValue lc) vs)"
| "sortValue lc (JObject es) = JObject (map (\<lambda>(k, v). (k, sortValue lc v)) (sort_by (key fst lc) es))"
| "sortValue lc JUndefined = JUndefined"
| "sortValue lc JNull = JNull"
| "sortValue lc (JBool b) = JBool b"
| "sortValue lc (JNumber n) = JNumber n"
| "sortValue lc (JString s) = JString s"
  by pat_completeness auto
termination
  by (relation "measure (\<lambda>(lc, v). size v)") (auto simp: termination_simp)

definition or_null :: "string option \<Rightarrow> string" where
  "or_null r = (case r of None \<Rightarrow> ''null'' | Some s \<Rightarrow> s)"

function json_stringify :: "(js_number \<Rightarrow> string) \<Rightarrow> js_value \<Rightarrow> string option" where
  "json_stringify num (JArray vs) = Some (''['' @ join '','' (map (\<lambda>v. or_null (json_stringify num v)) vs) @ '']'')"
| "json_stringify num (JObject es) =
     Some (''{'' @ join '','' (map (\<lambda>(k, v). json_string k @ '':'' @ or_null (json_stringify num v)) (defined_entries es)) @ ''}'')"
| "json_stringify num JUndefined = None"
| "json_stringify num JNull = Some ''null''"
| "json_stringify num (JBool b) = Some (if b then ''true'' else ''false'')"
| "json_stringify num (JNumber n) = Some (if is_finite_num n then num n else ''null'')"
| "json_stringify num (JString s) = Some (json_string s)"
  by pat_completeness auto
termination
  by (relation "measure (\<lambda>(num, v). size v)") (auto simp: defined_entries_def termination_simp)

definition event_value :: "hermes_event \<Rightarrow> js_value" where
  "event_value e = (case e of
     RunStarted m t w \<Rightarrow> JObject [(''type'', JString ''run_started''), (''missionId'', JString m), (''taskId'', JString t), (''at'', JString w)]
   | EvidenceRecorded i k v w \<Rightarrow> JObject [(''type'', JString ''evidence_recorded''), (''evidenceId'', JString i),
       (''requirementKey'', JString k), (''verified'', JBool v), (''at'', JString w)]
   | ClaimProposed i s c ids w \<Rightarrow> JObject [(''type'', JString ''claim_proposed''), (''proposalId'', JString i),
       (''statement'', JString s), (''confidence'', JNumber c), (''evidenceIds'', JArray (map JString ids)), (''at'', JString w)]
   | RunCompleted s w \<Rightarrow> JObject [(''type'', JString ''run_completed''), (''summary'', JString s), (''at'', JString w)])"

definition kind_name :: "contradiction_kind \<Rightarrow> string" where
  "kind_name k = (case k of NoContradiction \<Rightarrow> ''none'' | PossibleContradiction \<Rightarrow> ''possible'' | MaterialKind \<Rightarrow> ''material'')"

definition verification_name :: "verification_status \<Rightarrow> string" where
  "verification_name v = (case v of Unverified \<Rightarrow> ''unverified'' | Verified \<Rightarrow> ''verified'' | Disputed \<Rightarrow> ''disputed''
     | RejectedClaim \<Rightarrow> ''rejected'')"

definition comparison_value :: "contradiction_comparison \<Rightarrow> js_value" where
  "comparison_value c = JObject [(''existingClaimId'', JString (xp_claim c)), (''kind'', JString (kind_name (xp_kind c))),
     (''confidence'', JNumber (xp_confidence c)), (''rationale'', case_option JUndefined JString (xp_rationale c))]"

definition existing_value :: "existing_claim \<Rightarrow> js_value" where
  "existing_value x = JObject [(''id'', JString (xc_id x)), (''statement'', JString (xc_statement x)),
     (''confidence'', JNumber (xc_confidence x)), (''verificationStatus'', JString (verification_name (xc_status x))),
     (''updatedAt'', JString (xc_updated_at x))]"

definition stableFingerprint ::
  "string comparator \<Rightarrow> (js_number \<Rightarrow> string) \<Rightarrow> hermes_run \<Rightarrow> existing_claim list \<Rightarrow> string" where
  "stableFingerprint lc num run existing = or_null (json_stringify num (sortValue lc (JObject
     [(''recordId'', JString (hn_record_id run)), (''resultId'', JString (hn_result_id run)),
      (''events'', JArray (map event_value (hn_events run))),
      (''comparisons'', JArray (map comparison_value (case_option [] id (hn_comparisons run)))),
      (''existingClaims'', JArray (map existing_value existing))])))"

section \<open>Ingestion\<close>

record hermes_files =
  hf_receipts :: "hermes_receipt list"
  hf_records :: "pipeline_record list"

definition pipeline_message :: "pipeline_error \<Rightarrow> string" where
  "pipeline_message e = (case e of EventsInvalid m \<Rightarrow> m | SubmissionInvalid m \<Rightarrow> m | RecordInvalid m \<Rightarrow> m | RecordExists m \<Rightarrow> m
     | RecordMissing m \<Rightarrow> m | ValidationFailed _ \<Rightarrow> ''validation'' | ContradictionFailed _ \<Rightarrow> ''contradiction''
     | AdmissionFailed _ \<Rightarrow> ''admission'')"

definition ingestion_message :: "ingestion_error \<Rightarrow> string" where
  "ingestion_message e = (case e of IngestionConflict m \<Rightarrow> m | IngestionInProgress m \<Rightarrow> m | IngestionKeyRequired \<Rightarrow> ''key''
     | IngestionFailed m \<Rightarrow> m)"

record hermes_call =
  hk_key :: string
  hk_run :: hermes_run
  hk_existing :: "existing_claim list"
  hk_at :: string
  hk_lease :: "string option"

definition reservation :: "string comparator \<Rightarrow> (js_number \<Rightarrow> string) \<Rightarrow> hermes_call \<Rightarrow> begin_input" where
  "reservation lc num c = \<lparr>bi_key = hk_key c, bi_fingerprint = stableFingerprint lc num (hk_run c) (hk_existing c),
     bi_record_id = hn_record_id (hk_run c), bi_at = hk_at c, bi_lease = hk_lease c\<rparr>"

text \<open>A call that nothing interrupts or overtakes.\<close>

definition idempotent_ingest ::
  "string comparator \<Rightarrow> (js_number \<Rightarrow> string) \<Rightarrow> (string \<Rightarrow> int option) \<Rightarrow> validation_policy \<Rightarrow> contradiction_policy \<Rightarrow> hermes_call
   \<Rightarrow> hermes_files \<Rightarrow> (ingestion_error + pipeline_record) \<times> hermes_files" where
  "idempotent_ingest lc num parse pol kpol c fs =
     (if trim (hk_key c) = [] then (Inl IngestionKeyRequired, fs)
      else case begin_ingestion parse (reservation lc num c) (hf_receipts fs) of
        (Inl e, rs) \<Rightarrow> (Inl e, fs\<lparr>hf_receipts := rs\<rparr>)
      | (Inr (Replay r), rs) \<Rightarrow> (Inr (the (hr_record r)), fs\<lparr>hf_receipts := rs\<rparr>)
      | (Inr (Acquired _), rs) \<Rightarrow> (case ingest_run parse pol kpol (hk_run c) (hk_existing c) (hf_records fs) of
          (Inl e, recs) \<Rightarrow> (Inl (IngestionFailed (pipeline_message e)),
            \<lparr>hf_receipts = fail_receipt (hk_key c) (pipeline_message e) (hk_at c) rs, hf_records = recs\<rparr>)
        | (Inr record, recs) \<Rightarrow> (case complete_receipt (hk_key c) record (hk_at c) rs of
            (Inl e, rs') \<Rightarrow> (Inl e,
              \<lparr>hf_receipts = fail_receipt (hk_key c) (ingestion_message e) (hk_at c) rs', hf_records = recs\<rparr>)
          | (Inr _, rs') \<Rightarrow> (Inr record, \<lparr>hf_receipts = rs', hf_records = recs\<rparr>))))"

section \<open>Recovery\<close>

text \<open>One receipt of the loop: the receipts, the keys recovered and those unresolved.\<close>

definition recover_one ::
  "string \<Rightarrow> pipeline_record list \<Rightarrow> hermes_receipt \<Rightarrow> hermes_receipt list \<times> string list \<times> string list
   \<Rightarrow> hermes_receipt list \<times> string list \<times> string list" where
  "recover_one at_time records r acc = (let (rs, recovered, unresolved) = acc in
     case get_record (hr_record_id r) records of
       Inr record \<Rightarrow> (case complete_receipt (hr_key r) record at_time rs of
           (Inr _, rs') \<Rightarrow> (rs', recovered @ [hr_key r], unresolved)
         | (Inl e, rs') \<Rightarrow> (fail_receipt (hr_key r) (ingestion_message e) at_time rs', recovered, unresolved))
     | Inl (RecordMissing _) \<Rightarrow> (rs, recovered, unresolved @ [hr_key r])
     | Inl e \<Rightarrow> (fail_receipt (hr_key r) (pipeline_message e) at_time rs, recovered, unresolved))"

definition recover :: "string \<Rightarrow> hermes_files \<Rightarrow> hermes_files \<times> string list \<times> string list" where
  "recover at_time fs = (case fold (recover_one at_time (hf_records fs)) (listPending (hf_receipts fs)) (hf_receipts fs, [], []) of
     (rs, recovered, unresolved) \<Rightarrow> (fs\<lparr>hf_receipts := rs\<rparr>, recovered, unresolved))"

record startup_result =
  su_recovered :: "string list"
  su_unresolved :: "string list"
  su_expired :: "string list"

definition reconcileStartup :: "(string \<Rightarrow> int option) \<Rightarrow> string \<Rightarrow> hermes_files \<Rightarrow> hermes_files \<times> startup_result" where
  "reconcileStartup parse at_time fs = (case recover at_time fs of (fs', recovered, unresolved) \<Rightarrow>
     let expired = listExpiredPending parse at_time (hf_receipts fs') in
     (fs'\<lparr>hf_receipts := fold (\<lambda>r. fail_receipt (hr_key r) (''Hermes ingestion lease expired: '' @ hr_key r) at_time) expired (hf_receipts fs')\<rparr>,
      \<lparr>su_recovered = recovered, su_unresolved = filter (\<lambda>k. k \<notin> set (map hr_key expired)) unresolved,
        su_expired = map hr_key expired\<rparr>))"

section \<open>Calls in flight\<close>

datatype call_phase = Reserved | Ingested pipeline_record | Failing string

record hermes_state =
  hs_files :: hermes_files
  hs_calls :: "(hermes_call \<times> call_phase) list"

text \<open>
  What may happen next: a call reserves its key; the pipeline runs for a reserved call, or its write fails;
  an ingested call completes its receipt, or that write fails; a failing call marks its receipt, or that write
  fails; the process stops; and a process that starts reconciles before it takes calls.
\<close>

inductive hermes_step ::
  "string comparator \<Rightarrow> (js_number \<Rightarrow> string) \<Rightarrow> (string \<Rightarrow> int option) \<Rightarrow> validation_policy \<Rightarrow> contradiction_policy
   \<Rightarrow> hermes_state \<Rightarrow> hermes_state \<Rightarrow> bool" for lc num parse pol kpol where
  step_begin: "trim (hk_key c) \<noteq> [] \<Longrightarrow>
    begin_ingestion parse (reservation lc num c) (hf_receipts fs) = (Inr (Acquired r), rs) \<Longrightarrow>
    hermes_step lc num parse pol kpol \<lparr>hs_files = fs, hs_calls = cs\<rparr>
      \<lparr>hs_files = fs\<lparr>hf_receipts := rs\<rparr>, hs_calls = (c, Reserved) # cs\<rparr>"
| step_ingest: "ingest_run parse pol kpol (hk_run c) (hk_existing c) (hf_records fs) = (res, recs) \<Longrightarrow>
    hermes_step lc num parse pol kpol \<lparr>hs_files = fs, hs_calls = cs @ (c, Reserved) # ds\<rparr>
      \<lparr>hs_files = fs\<lparr>hf_records := recs\<rparr>,
       hs_calls = cs @ (c, case res of Inr record \<Rightarrow> Ingested record | Inl e \<Rightarrow> Failing (pipeline_message e)) # ds\<rparr>"
| step_ingest_write_fails: "hermes_step lc num parse pol kpol \<lparr>hs_files = fs, hs_calls = cs @ (c, Reserved) # ds\<rparr>
      \<lparr>hs_files = fs, hs_calls = cs @ (c, Failing m) # ds\<rparr>"
| step_complete: "complete_receipt (hk_key c) rec (hk_at c) (hf_receipts fs) = (Inr (), rs) \<Longrightarrow>
    hermes_step lc num parse pol kpol \<lparr>hs_files = fs, hs_calls = cs @ (c, Ingested rec) # ds\<rparr>
      \<lparr>hs_files = fs\<lparr>hf_receipts := rs\<rparr>, hs_calls = cs @ ds\<rparr>"
| step_complete_refused: "complete_receipt (hk_key c) rec (hk_at c) (hf_receipts fs) = (Inl e, rs) \<Longrightarrow>
    hermes_step lc num parse pol kpol \<lparr>hs_files = fs, hs_calls = cs @ (c, Ingested rec) # ds\<rparr>
      \<lparr>hs_files = fs\<lparr>hf_receipts := rs\<rparr>, hs_calls = cs @ (c, Failing (ingestion_message e)) # ds\<rparr>"
| step_complete_write_fails: "hermes_step lc num parse pol kpol \<lparr>hs_files = fs, hs_calls = cs @ (c, Ingested rec) # ds\<rparr>
      \<lparr>hs_files = fs, hs_calls = cs @ (c, Failing m) # ds\<rparr>"
| step_fail: "hermes_step lc num parse pol kpol \<lparr>hs_files = fs, hs_calls = cs @ (c, Failing m) # ds\<rparr>
      \<lparr>hs_files = fs\<lparr>hf_receipts := fail_receipt (hk_key c) m (hk_at c) (hf_receipts fs)\<rparr>, hs_calls = cs @ ds\<rparr>"
| step_fail_write_fails: "hermes_step lc num parse pol kpol \<lparr>hs_files = fs, hs_calls = cs @ (c, Failing m) # ds\<rparr>
      \<lparr>hs_files = fs, hs_calls = cs @ ds\<rparr>"
| step_crash: "hermes_step lc num parse pol kpol \<lparr>hs_files = fs, hs_calls = cs\<rparr> \<lparr>hs_files = fs, hs_calls = []\<rparr>"
| step_startup: "hermes_step lc num parse pol kpol \<lparr>hs_files = fs, hs_calls = []\<rparr>
      \<lparr>hs_files = fst (reconcileStartup parse now fs), hs_calls = []\<rparr>"

section \<open>Changes of one receipt\<close>

lemma get_receipt_Some: "get_receipt k rs = Some r \<Longrightarrow> r \<in> set rs \<and> hr_key r = k"
  by (auto simp: get_receipt_def dest: find_Some_D)

lemma get_receipt_snoc:
  "get_receipt k (rs @ [r]) = (case get_receipt k rs of Some x \<Rightarrow> Some x | None \<Rightarrow> if hr_key r = k then Some r else None)"
  by (induction rs) (auto simp: get_receipt_def)

lemma get_receipt_None: "get_receipt k rs = None \<longleftrightarrow> k \<notin> hr_key ` set rs"
  by (auto simp: get_receipt_def find_None_iff image_iff)

lemma get_receipt_distinct: "distinct (map hr_key rs) \<Longrightarrow> r \<in> set rs \<Longrightarrow> get_receipt (hr_key r) rs = Some r"
proof (induction rs)
  case (Cons x rs)
  then show ?case by (cases "x = r") (auto simp: get_receipt_def)
qed simp

lemma get_update_receipt:
  "hr_key (f r) = hr_key r \<Longrightarrow> get_receipt k rs = Some r \<Longrightarrow>
     get_receipt k' (update_receipt k f rs) = (if k' = k then Some (f r) else get_receipt k' rs)"
  by (induction rs) (auto simp: get_receipt_def)

lemma update_keys: "(\<And>r. hr_key (f r) = hr_key r) \<Longrightarrow> map hr_key (update_receipt k f rs) = map hr_key rs"
  by (induction rs) auto

lemma update_map: "distinct (map hr_key rs) \<Longrightarrow> update_receipt k f rs = map (\<lambda>r. if hr_key r = k then f r else r) rs"
proof (induction rs)
  case (Cons x rs)
  then have "hr_key x \<notin> hr_key ` set rs" by simp
  then have "(if hr_key r = hr_key x then f r else r) = r" if "r \<in> set rs" for r
    using that by (metis image_eqI)
  then have "map (\<lambda>r. if hr_key r = hr_key x then f r else r) rs = rs" by (intro map_idI) blast
  with Cons show ?case by auto
qed simp

lemma update_mem:
  "x \<in> set (update_receipt k f rs) \<Longrightarrow> distinct (map hr_key rs) \<Longrightarrow>
     (x \<in> set rs \<and> hr_key x \<noteq> k) \<or> (\<exists>r\<in>set rs. hr_key r = k \<and> x = f r)"
  by (auto simp: update_map split: if_splits)

lemma update_other: "x \<in> set rs \<Longrightarrow> hr_key x \<noteq> k \<Longrightarrow> x \<in> set (update_receipt k f rs)"
  by (induction rs) auto

lemma receipt_changes [simp]:
  "hr_key (reacquired i r) = hr_key r" "hr_key (completed rec t r) = hr_key r" "hr_key (failed m t r) = hr_key r"
  "hr_key (new_receipt i) = bi_key i" "hr_record (new_receipt i) = None" "hr_status (new_receipt i) = ReceiptPending"
  "hr_status (reacquired i r) = ReceiptPending" "hr_status (completed rec t r) = ReceiptCompleted"
  "hr_status (failed m t r) = ReceiptFailed" "hr_record (completed rec t r) = Some rec"
  "hr_record (reacquired i r) = hr_record r" "hr_record (failed m t r) = hr_record r"
  "hr_record_id (completed rec t r) = hr_record_id r" "hr_record_id (reacquired i r) = hr_record_id r"
  "hr_record_id (failed m t r) = hr_record_id r" "hr_fingerprint (completed rec t r) = hr_fingerprint r"
  "hr_fingerprint (reacquired i r) = hr_fingerprint r" "hr_fingerprint (failed m t r) = hr_fingerprint r"
  by (simp_all add: reacquired_def completed_def failed_def new_receipt_def)

text \<open>A completed receipt holds a stored record with its record id, any other receipt holds none.\<close>

definition receipt_ok :: "pipeline_record list \<Rightarrow> hermes_receipt \<Rightarrow> bool" where
  "receipt_ok records r \<longleftrightarrow> (if hr_status r = ReceiptCompleted
     then \<exists>rec\<in>set records. hr_record r = Some rec \<and> pr_id rec = hr_record_id r else hr_record r = None)"

definition receipts_ok :: "pipeline_record list \<Rightarrow> hermes_receipt list \<Rightarrow> bool" where
  "receipts_ok records rs \<longleftrightarrow> distinct (map hr_key rs) \<and> (\<forall>r\<in>set rs. receipt_ok records r)"

text \<open>What every operation keeps: the receipts are in order, none is lost, and a completed one is final.\<close>

definition advances :: "pipeline_record list \<Rightarrow> hermes_receipt list \<Rightarrow> hermes_receipt list \<Rightarrow> bool" where
  "advances records rs rs' \<longleftrightarrow> (receipts_ok records rs \<longrightarrow> receipts_ok records rs'
     \<and> (\<forall>r\<in>set rs. (hr_status r = ReceiptCompleted \<longrightarrow> r \<in> set rs')
         \<and> (\<exists>r'\<in>set rs'. hr_key r' = hr_key r \<and> hr_fingerprint r' = hr_fingerprint r \<and> hr_record_id r' = hr_record_id r)))"

lemma advances_refl: "advances records rs rs"
  by (auto simp: advances_def)

lemma advances_trans: "advances records rs rs' \<Longrightarrow> advances records rs' rs'' \<Longrightarrow> advances records rs rs''"
  unfolding advances_def by (metis (no_types, lifting))

lemma receipts_ok_mono: "receipts_ok records rs \<Longrightarrow> set records \<subseteq> set records' \<Longrightarrow> receipts_ok records' rs"
  by (fastforce simp: receipts_ok_def receipt_ok_def)

lemma update_advances:
  assumes "get_receipt k rs = Some r" and "hr_status r \<noteq> ReceiptCompleted"
    and same: "\<And>x. hr_key (f x) = hr_key x" "\<And>x. hr_fingerprint (f x) = hr_fingerprint x" "\<And>x. hr_record_id (f x) = hr_record_id x"
    and ok: "receipt_ok records r \<Longrightarrow> receipt_ok records (f r)"
  shows "advances records rs (update_receipt k f rs)"
  unfolding advances_def
proof (intro impI)
  assume rs: "receipts_ok records rs"
  then have d: "distinct (map hr_key rs)" by (simp add: receipts_ok_def)
  note mem = get_receipt_Some [OF assms(1)]
  have unique: "x = r" if "x \<in> set rs" "hr_key x = k" for x
    using get_receipt_distinct [OF d that(1)] assms(1) that(2) by simp
  have "receipts_ok records (update_receipt k f rs)"
    unfolding receipts_ok_def update_keys [of f, OF same(1)]
    using rs d unique mem ok by (auto simp: receipts_ok_def dest!: update_mem)
  moreover have "(hr_status x = ReceiptCompleted \<longrightarrow> x \<in> set (update_receipt k f rs))
      \<and> (\<exists>r'\<in>set (update_receipt k f rs). hr_key r' = hr_key x \<and> hr_fingerprint r' = hr_fingerprint x \<and> hr_record_id r' = hr_record_id x)"
    if x: "x \<in> set rs" for x
  proof (cases "hr_key x = k")
    case True
    then have "x = r" using unique x by blast
    moreover have "f r \<in> set (update_receipt k f rs)" using mem by (force simp: update_map [OF d])
    ultimately show ?thesis using assms(2) same by blast
  next
    case False
    with update_other [OF x] show ?thesis by blast
  qed
  ultimately show "receipts_ok records (update_receipt k f rs)
     \<and> (\<forall>x\<in>set rs. (hr_status x = ReceiptCompleted \<longrightarrow> x \<in> set (update_receipt k f rs))
         \<and> (\<exists>r'\<in>set (update_receipt k f rs). hr_key r' = hr_key x \<and> hr_fingerprint r' = hr_fingerprint x
             \<and> hr_record_id r' = hr_record_id x))" by blast
qed

lemma begin_cases:
  obtains (unchanged) res where "begin_ingestion parse i rs = (res, rs)" "\<nexists>r. res = Inr (Acquired r)"
  | (new) "begin_ingestion parse i rs = (Inr (Acquired (new_receipt i)), rs @ [new_receipt i])" "get_receipt (bi_key i) rs = None"
  | (again) r where "begin_ingestion parse i rs = (Inr (Acquired (reacquired i r)), update_receipt (bi_key i) (reacquired i) rs)"
      "get_receipt (bi_key i) rs = Some r" "hr_fingerprint r = bi_fingerprint i" "hr_record_id r = bi_record_id i"
      "\<not> (hr_status r = ReceiptCompleted \<and> hr_record r \<noteq> None)"
      "hr_status r = ReceiptPending \<longrightarrow> isExpired parse (hr_lease r) (bi_at i)"
proof (cases "get_receipt (bi_key i) rs")
  case None
  then show thesis by (intro new) (simp_all add: begin_ingestion_def)
next
  case (Some r)
  show thesis
  proof (cases "\<exists>r'. fst (begin_ingestion parse i rs) = Inr (Acquired r')")
    case True
    with Some show thesis by (intro again [of r]) (auto simp: begin_ingestion_def split: if_splits)
  next
    case False
    then have "snd (begin_ingestion parse i rs) = rs"
      using Some by (auto simp: begin_ingestion_def split: if_splits)
    with False show thesis by (intro unchanged [of "fst (begin_ingestion parse i rs)"]) (auto simp: prod_eq_iff)
  qed
qed

lemma begin_advances:
  assumes "begin_ingestion parse i rs = (res, rs')"
  shows "advances records rs rs'"
proof (cases rule: begin_cases [of parse i rs])
  case (unchanged res')
  with assms show ?thesis by (simp add: advances_refl)
next
  case new
  with assms have "rs' = rs @ [new_receipt i]" by simp
  with new(2) show ?thesis
    by (auto simp: advances_def receipts_ok_def get_receipt_None receipt_ok_def)
next
  case (again r)
  from again(1) assms have rs': "rs' = update_receipt (bi_key i) (reacquired i) rs" by simp
  show ?thesis
  proof (cases "hr_status r = ReceiptCompleted")
    case True
    with again(5) have "\<not> receipt_ok records r" by (auto simp: receipt_ok_def)
    with get_receipt_Some [OF again(2)] show ?thesis by (auto simp: advances_def receipts_ok_def)
  next
    case False
    show ?thesis unfolding rs'
      by (rule update_advances [OF again(2) False]) (use False in \<open>auto simp: receipt_ok_def\<close>)
  qed
qed

lemma complete_cases:
  obtains (refused) e where "complete_receipt k rec t rs = (Inl e, rs)"
  | (linked) r where "complete_receipt k rec t rs = (Inr (), update_receipt k (completed rec t) rs)" "get_receipt k rs = Some r"
      "hr_status r = ReceiptPending" "hr_record_id r = pr_id rec"
proof (cases "get_receipt k rs")
  case None
  then show thesis by (intro refused) (simp add: complete_receipt_def)
next
  case (Some r)
  show thesis
  proof (cases "hr_status r = ReceiptPending \<and> hr_record_id r = pr_id rec")
    case True
    with Some show thesis by (intro linked [of r]) (simp_all add: complete_receipt_def)
  next
    case False
    with Some show thesis by (intro refused [of "IngestionConflict k"]) (simp add: complete_receipt_def)
  qed
qed

lemma complete_advances:
  assumes "complete_receipt k rec t rs = (res, rs')" and "rec \<in> set records"
  shows "advances records rs rs'"
proof (cases rule: complete_cases [of k rec t rs])
  case (refused e)
  with assms show ?thesis by (simp add: advances_refl)
next
  case (linked r)
  have "advances records rs (update_receipt k (completed rec t) rs)"
    by (rule update_advances [OF linked(2)]) (use linked assms(2) in \<open>auto simp: receipt_ok_def\<close>)
  with assms(1) linked(1) show ?thesis by simp
qed

lemma fail_cases:
  obtains (unchanged) "fail_receipt k m t rs = rs"
  | (failed) r where "fail_receipt k m t rs = update_receipt k (failed m t) rs" "get_receipt k rs = Some r" "hr_status r = ReceiptPending"
proof (cases "get_receipt k rs")
  case (Some r)
  show thesis
  proof (cases "hr_status r = ReceiptPending")
    case True
    with Some show thesis by (intro failed [of r]) (simp_all add: fail_receipt_def)
  next
    case False
    with Some show thesis by (intro unchanged) (simp add: fail_receipt_def)
  qed
qed (rule unchanged, simp add: fail_receipt_def)

lemma fail_advances: "advances records rs (fail_receipt k m t rs)"
proof (cases rule: fail_cases [of k m t rs])
  case (failed r)
  have "advances records rs (update_receipt k (failed m t) rs)"
    by (rule update_advances [OF failed(2)]) (use failed in \<open>auto simp: receipt_ok_def\<close>)
  with failed(1) show ?thesis by simp
qed (simp add: advances_refl)

lemma get_record_Inr: "get_record i records = Inr r \<Longrightarrow> r \<in> set records \<and> pr_id r = i"
  by (auto simp: get_record_def rbind_Inr_iff dest: find_Some_D split: option.splits)

lemma recover_one_advances: "advances records (fst acc) (fst (recover_one t records r acc))"
proof (cases acc)
  case (fields rs recovered unresolved)
  show ?thesis
  proof (cases "get_record (hr_record_id r) records")
    case (Inl e)
    with fields show ?thesis
      by (cases e) (simp_all add: recover_one_def advances_refl fail_advances)
  next
    case (Inr rec)
    obtain res rs' where c: "complete_receipt (hr_key r) rec t rs = (res, rs')" by fastforce
    from complete_advances [OF c] get_record_Inr [OF Inr] have "advances records rs rs'" by blast
    with fields Inr c fail_advances advances_trans show ?thesis
      by (cases res) (fastforce simp: recover_one_def)+
  qed
qed

lemma recover_fold_advances: "advances records (fst acc) (fst (fold (recover_one t records) ps acc))"
proof (induction ps arbitrary: acc)
  case (Cons r ps)
  show ?case unfolding fold.simps comp_apply by (rule advances_trans [OF recover_one_advances Cons.IH])
qed (simp add: advances_refl)

lemma fail_fold_advances: "advances records rs (fold (\<lambda>r. fail_receipt (hr_key r) (m r) t) ps rs)"
proof (induction ps arbitrary: rs)
  case (Cons r ps)
  show ?case unfolding fold.simps comp_apply by (rule advances_trans [OF fail_advances Cons.IH])
qed (simp add: advances_refl)

lemma startup_advances:
  "advances (hf_records fs) (hf_receipts fs) (hf_receipts (fst (reconcileStartup parse t fs)))"
  "hf_records (fst (reconcileStartup parse t fs)) = hf_records fs"
proof -
  have r: "advances (hf_records fs) (hf_receipts fs) (hf_receipts (fst (recover t fs)))"
    using recover_fold_advances [of "hf_records fs" "(hf_receipts fs, [], [])"] by (simp add: recover_def split_beta)
  show "advances (hf_records fs) (hf_receipts fs) (hf_receipts (fst (reconcileStartup parse t fs)))"
    using advances_trans [OF r fail_fold_advances] by (simp add: reconcileStartup_def Let_def split_beta)
  show "hf_records (fst (reconcileStartup parse t fs)) = hf_records fs"
    by (simp add: reconcileStartup_def recover_def Let_def split: prod.splits)
qed

lemma ingest_run_cases:
  obtains (refused) e where "ingest_run parse pol kpol run existing records = (Inl e, records)"
  | (stored) i r where "ingest_run parse pol kpol run existing records = (Inr r, records @ [r])"
      "records @ [r] = cognitive_step pol kpol i records" "pr_id r = hn_record_id run" "pr_id r \<notin> pr_id ` set records"
proof (cases "map_execution parse (hn_record_id run) (hn_result_id run) (hn_events run)")
  case (Inl e)
  then show thesis by (intro refused) (simp add: ingest_run_def)
next
  case (Inr s)
  then have rid: "hs_record_id s = hn_record_id run"
    by (auto simp: map_execution_def rbind_Inr_iff Let_def split: if_splits list.splits)
  let ?s = "s\<lparr>hs_comparisons := case_option [] id (hn_comparisons run)\<rparr>"
  have sub: "ingest_run parse pol kpol run existing records = submit pol kpol ?s existing records"
    using Inr by (simp add: ingest_run_def)
  show thesis
  proof (cases "\<exists>e. submit pol kpol ?s existing records = (Inl e, records)")
    case True
    with sub show thesis by (auto intro: refused)
  next
    case False
    then obtain p where p: "List.find (\<lambda>p. cp_id p = hs_proposal_id s) (rs_proposals (hs_result s)) = Some p"
      "validateSubmission ?s existing = Inr ()"
      by (auto simp: submit_def split: sum.splits option.splits)
    define i where "i = \<lparr>pi_record_id = hs_record_id ?s, pi_execution = hs_execution ?s, pi_result = hs_result ?s,
         pi_proposal = p, pi_context = \<lparr>vx_evidence = hs_evidence ?s, vx_contradictions = None, vx_evaluated_at = hs_submitted_at ?s\<rparr>,
         pi_existing = existing, pi_comparisons = hs_comparisons ?s, pi_recorded_at = hs_submitted_at ?s\<rparr>"
    have run: "submit pol kpol ?s existing records = run_cognitive pol kpol i records"
      using p unfolding submit_def i_def by simp
    show thesis
    proof (cases rule: run_cognitive_cases [of pol kpol i records])
      case (refused e)
      with run False show thesis by simp
    next
      case (stored r)
      from stored(2) have "pr_id r = pi_record_id i" by (elim pipeline_record_of_Inr) simp
      then have "pr_id r = hn_record_id run" by (simp add: i_def rid)
      with stored run sub show thesis by (intro that(2) [of r i]) (simp_all add: cognitive_step_def)
    qed
  qed
qed

lemma ingest_run_inv:
  assumes "ingest_run parse pol kpol run existing records = (res, records')" and "records_inv pol kpol records"
  shows "records_inv pol kpol records' \<and> set records \<subseteq> set records' \<and> (\<forall>r. res = Inr r \<longrightarrow> r \<in> set records')"
proof (cases rule: ingest_run_cases [of parse pol kpol run existing records])
  case (refused e)
  with assms show ?thesis by auto
next
  case (stored i r)
  from record_log.run_inv [OF assms(2), of "[i]"] stored(2) have "records_inv pol kpol (records @ [r])" by simp
  with assms(1) stored(1) show ?thesis by auto
qed

section \<open>Every interleaving\<close>

definition hermes_inv :: "validation_policy \<Rightarrow> contradiction_policy \<Rightarrow> hermes_state \<Rightarrow> bool" where
  "hermes_inv pol kpol s \<longleftrightarrow> records_inv pol kpol (hf_records (hs_files s))
     \<and> receipts_ok (hf_records (hs_files s)) (hf_receipts (hs_files s))
     \<and> (\<forall>(c, p)\<in>set (hs_calls s). \<forall>rec. p = Ingested rec \<longrightarrow> rec \<in> set (hf_records (hs_files s)))"

definition files_advance :: "hermes_files \<Rightarrow> hermes_files \<Rightarrow> bool" where
  "files_advance fs fs' \<longleftrightarrow> set (hf_records fs) \<subseteq> set (hf_records fs')
     \<and> (\<forall>r\<in>set (hf_receipts fs). (hr_status r = ReceiptCompleted \<longrightarrow> r \<in> set (hf_receipts fs'))
         \<and> (\<exists>r'\<in>set (hf_receipts fs'). hr_key r' = hr_key r \<and> hr_fingerprint r' = hr_fingerprint r \<and> hr_record_id r' = hr_record_id r))"

lemma files_advance_refl: "files_advance fs fs"
  by (auto simp: files_advance_def)

lemma files_advance_trans: "files_advance fs fs' \<Longrightarrow> files_advance fs' fs'' \<Longrightarrow> files_advance fs fs''"
proof -
  assume a: "files_advance fs fs'" "files_advance fs' fs''"
  have "(hr_status r = ReceiptCompleted \<longrightarrow> r \<in> set (hf_receipts fs''))
      \<and> (\<exists>r'\<in>set (hf_receipts fs''). hr_key r' = hr_key r \<and> hr_fingerprint r' = hr_fingerprint r \<and> hr_record_id r' = hr_record_id r)"
    if r: "r \<in> set (hf_receipts fs)" for r
  proof -
    from a(1) r obtain x where x: "x \<in> set (hf_receipts fs')" "hr_key x = hr_key r" "hr_fingerprint x = hr_fingerprint r"
      "hr_record_id x = hr_record_id r" by (auto simp: files_advance_def)
    from a(2) x(1) have "\<exists>r'\<in>set (hf_receipts fs''). hr_key r' = hr_key x \<and> hr_fingerprint r' = hr_fingerprint x \<and> hr_record_id r' = hr_record_id x"
      unfolding files_advance_def by blast
    then have "\<exists>r'\<in>set (hf_receipts fs''). hr_key r' = hr_key r \<and> hr_fingerprint r' = hr_fingerprint r \<and> hr_record_id r' = hr_record_id r"
      unfolding x(2-4) .
    with a r show ?thesis by (auto simp: files_advance_def)
  qed
  with a show ?thesis by (auto simp: files_advance_def)
qed

lemma files_advance_receipts:
  assumes "advances (hf_records fs) (hf_receipts fs) rs" and "receipts_ok (hf_records fs) (hf_receipts fs)"
  shows "files_advance fs (fs\<lparr>hf_receipts := rs\<rparr>)" and "receipts_ok (hf_records fs) rs"
  using assms by (auto simp: files_advance_def advances_def)

lemma receipts_step:
  assumes "hermes_inv pol kpol s" and "advances (hf_records (hs_files s)) (hf_receipts (hs_files s)) rs"
    and "set cs \<subseteq> set (hs_calls s) \<union> {(c, p)}" and "\<forall>rec. p \<noteq> Ingested rec"
  shows "hermes_inv pol kpol \<lparr>hs_files = (hs_files s)\<lparr>hf_receipts := rs\<rparr>, hs_calls = cs\<rparr>
    \<and> files_advance (hs_files s) ((hs_files s)\<lparr>hf_receipts := rs\<rparr>)"
proof -
  have ok: "receipts_ok (hf_records (hs_files s)) (hf_receipts (hs_files s))" using assms(1) by (simp add: hermes_inv_def)
  note adv = files_advance_receipts [OF assms(2) ok]
  have "\<forall>(c, p)\<in>set cs. \<forall>rec. p = Ingested rec \<longrightarrow> rec \<in> set (hf_records (hs_files s))"
    using assms(1,3,4) by (fastforce simp: hermes_inv_def)
  with adv assms(1) show ?thesis by (simp add: hermes_inv_def)
qed

lemma hermes_step_inv:
  assumes "hermes_step lc num parse pol kpol s s'" and inv: "hermes_inv pol kpol s"
  shows "hermes_inv pol kpol s' \<and> files_advance (hs_files s) (hs_files s')"
  using assms
proof (cases rule: hermes_step.cases)
  case (step_begin c fs r rs cs)
  with receipts_step [OF inv, of rs "(c, Reserved) # cs" c Reserved] begin_advances [OF step_begin(4)] show ?thesis by auto
next
  case (step_ingest c fs res recs cs ds)
  let ?p = "case res of Inr record \<Rightarrow> Ingested record | Inl e \<Rightarrow> Failing (pipeline_message e)"
  have rec: "records_inv pol kpol (hf_records fs)" "receipts_ok (hf_records fs) (hf_receipts fs)"
    using inv step_ingest(1) by (simp_all add: hermes_inv_def)
  from ingest_run_inv [OF step_ingest(3) rec(1)] have ing: "records_inv pol kpol recs" "set (hf_records fs) \<subseteq> set recs"
    "\<And>r. res = Inr r \<Longrightarrow> r \<in> set recs" by blast+
  have "?p = Ingested r \<Longrightarrow> r \<in> set recs" for r using ing(3) by (cases res) auto
  moreover have "\<forall>(c, p)\<in>set (cs @ ds). \<forall>rec. p = Ingested rec \<longrightarrow> rec \<in> set recs"
    using inv step_ingest(1) ing(2) by (fastforce simp: hermes_inv_def)
  moreover have "files_advance fs (fs\<lparr>hf_records := recs\<rparr>)" using ing(2) by (auto simp: files_advance_def)
  ultimately show ?thesis
    using step_ingest(1,2) ing(1) receipts_ok_mono [OF rec(2) ing(2)] by (auto simp: hermes_inv_def)
next
  case (step_ingest_write_fails fs cs c ds m)
  with receipts_step [OF inv advances_refl, of "cs @ (c, Failing m) # ds" c "Failing m"] show ?thesis by auto
next
  case (step_complete c rec fs rs cs ds)
  have "rec \<in> set (hf_records fs)" using inv step_complete(1) by (auto simp: hermes_inv_def)
  from complete_advances [OF step_complete(3) this] step_complete receipts_step [OF inv, of rs "cs @ ds" c Reserved]
  show ?thesis by auto
next
  case (step_complete_refused c rec fs e rs cs ds)
  have "rec \<in> set (hf_records fs)" using inv step_complete_refused(1) by (auto simp: hermes_inv_def)
  from complete_advances [OF step_complete_refused(3) this] step_complete_refused
    receipts_step [OF inv, of rs "cs @ (c, Failing (ingestion_message e)) # ds" c "Failing (ingestion_message e)"]
  show ?thesis by auto
next
  case (step_complete_write_fails fs cs c rec ds m)
  with receipts_step [OF inv advances_refl, of "cs @ (c, Failing m) # ds" c "Failing m"] show ?thesis by auto
next
  case (step_fail fs cs c m ds)
  with receipts_step [OF inv fail_advances, of "cs @ ds" c Reserved] show ?thesis by auto
next
  case (step_fail_write_fails fs cs c m ds)
  with receipts_step [OF inv advances_refl, of "cs @ ds" c Reserved] show ?thesis by auto
next
  case (step_crash fs cs)
  with receipts_step [OF inv advances_refl, of "[]" undefined Reserved] show ?thesis by auto
next
  case (step_startup fs now)
  let ?fs = "fst (reconcileStartup parse now fs)"
  have "?fs = fs\<lparr>hf_receipts := hf_receipts ?fs\<rparr>" using startup_advances(2) [of parse now fs] by (cases ?fs; cases fs) simp
  with step_startup receipts_step [OF inv startup_advances(1), of "[]" undefined Reserved parse now] show ?thesis by auto
qed

lemma hermes_steps_inv:
  assumes "(hermes_step lc num parse pol kpol)\<^sup>*\<^sup>* s s'" and "hermes_inv pol kpol s"
  shows "hermes_inv pol kpol s' \<and> files_advance (hs_files s) (hs_files s')"
  using assms by (induction rule: rtranclp_induct) (auto dest: hermes_step_inv intro: files_advance_refl files_advance_trans)

section \<open>What start-up does\<close>

text \<open>The specification of start-up, one receipt at a time.\<close>

definition stored_record :: "pipeline_record list \<Rightarrow> hermes_receipt \<Rightarrow> pipeline_record option" where
  "stored_record records r = List.find (\<lambda>x. pr_id x = hr_record_id r) records"

definition recovered :: "string \<Rightarrow> pipeline_record list \<Rightarrow> hermes_receipt \<Rightarrow> hermes_receipt" where
  "recovered t records r = (if hr_status r \<noteq> ReceiptPending then r
     else case stored_record records r of Some rec \<Rightarrow> completed rec t r | None \<Rightarrow> r)"

definition lease_message :: "hermes_receipt \<Rightarrow> string" where
  "lease_message r = ''Hermes ingestion lease expired: '' @ hr_key r"

definition restarted :: "(string \<Rightarrow> int option) \<Rightarrow> string \<Rightarrow> pipeline_record list \<Rightarrow> hermes_receipt \<Rightarrow> hermes_receipt" where
  "restarted parse t records r = (if hr_status r \<noteq> ReceiptPending then r
     else case stored_record records r of
       Some rec \<Rightarrow> completed rec t r
     | None \<Rightarrow> if isExpired parse (hr_lease r) t then failed (lease_message r) t r else r)"

lemma recovered_key [simp]: "hr_key (recovered t records r) = hr_key r"
  by (simp add: recovered_def split: option.splits)

lemma records_inv_valid: "records_inv pol kpol records \<Longrightarrow> r \<in> set records \<Longrightarrow> validateRecord r = Inr ()"
  by (simp add: records_inv_def certified_def)

lemma get_record_eq:
  assumes "records_inv pol kpol records"
  shows "get_record i records = (case List.find (\<lambda>r. pr_id r = i) records of None \<Rightarrow> Inl (RecordMissing i) | Some r \<Rightarrow> Inr r)"
proof (cases "List.find (\<lambda>r. pr_id r = i) records")
  case (Some r)
  with records_inv_valid [OF assms, of r] find_Some_D [OF Some] show ?thesis by (simp add: get_record_def)
qed (simp add: get_record_def)

lemma recover_one_eq:
  assumes "records_inv pol kpol records" and "distinct (map hr_key rs)" and "r \<in> set rs" and "hr_status r = ReceiptPending"
  shows "recover_one t records r (rs, a, b)
    = (map (\<lambda>x. if hr_key x = hr_key r then recovered t records x else x) rs,
       if stored_record records r \<noteq> None then (a @ [hr_key r], b) else (a, b @ [hr_key r]))"
proof -
  have get: "get_receipt (hr_key r) rs = Some r" by (rule get_receipt_distinct [OF assms(2,3)])
  have only: "x = r" if "x \<in> set rs" "hr_key x = hr_key r" for x
    using get_receipt_distinct [OF assms(2) that(1)] get that(2) by (metis option.inject)
  show ?thesis
  proof (cases "stored_record records r")
    case None
    then have "map (\<lambda>x. if hr_key x = hr_key r then recovered t records x else x) rs = rs"
      by (intro map_idI) (auto simp: recovered_def dest!: only)
    with None show ?thesis
      by (simp add: recover_one_def get_record_eq [OF assms(1)] stored_record_def)
  next
    case (Some rec)
    then have id: "pr_id rec = hr_record_id r" by (auto simp: stored_record_def dest: find_Some_D)
    have "map (\<lambda>x. if hr_key x = hr_key r then recovered t records x else x) rs = update_receipt (hr_key r) (completed rec t) rs"
      unfolding update_map [OF assms(2)]
    proof (intro map_cong refl)
      fix x assume "x \<in> set rs"
      from only [OF this] Some assms(4)
      show "(if hr_key x = hr_key r then recovered t records x else x) = (if hr_key x = hr_key r then completed rec t x else x)"
        by (auto simp: recovered_def)
    qed
    with Some id get assms(4) show ?thesis
      by (simp add: recover_one_def get_record_eq [OF assms(1)] stored_record_def complete_receipt_def)
  qed
qed

lemma recover_fold_eq:
  assumes "records_inv pol kpol records"
  shows "distinct (map hr_key rs) \<Longrightarrow> distinct (map hr_key ps) \<Longrightarrow> set ps \<subseteq> set rs \<Longrightarrow> \<forall>p\<in>set ps. hr_status p = ReceiptPending \<Longrightarrow>
    fold (recover_one t records) ps (rs, a, b)
    = (map (\<lambda>x. if hr_key x \<in> hr_key ` set ps then recovered t records x else x) rs,
       a @ map hr_key (filter (\<lambda>r. stored_record records r \<noteq> None) ps),
       b @ map hr_key (filter (\<lambda>r. stored_record records r = None) ps))"
proof (induction ps arbitrary: rs a b)
  case (Cons p ps)
  let ?f = "\<lambda>x. if hr_key x = hr_key p then recovered t records x else x"
  let ?ab = "if stored_record records p \<noteq> None then (a @ [hr_key p], b) else (a, b @ [hr_key p])"
  have one: "recover_one t records p (rs, a, b) = (map ?f rs, ?ab)"
    using Cons.prems by (intro recover_one_eq [OF assms]) auto
  have p: "hr_key p \<notin> hr_key ` set ps" using Cons.prems(2) by simp
  have "?f x = x" if "x \<in> set ps" for x using p that by (metis image_eqI)
  then have "set ps \<subseteq> set (map ?f rs)" using Cons.prems(3) by (force simp: image_iff)
  moreover have "map hr_key (map ?f rs) = map hr_key rs" unfolding map_map by (intro map_cong) auto
  then have "distinct (map hr_key (map ?f rs))" using Cons.prems(1) by metis
  ultimately have ih: "fold (recover_one t records) ps (map ?f rs, fst ?ab, snd ?ab)
    = (map (\<lambda>x. if hr_key x \<in> hr_key ` set ps then recovered t records x else x) (map ?f rs),
       fst ?ab @ map hr_key (filter (\<lambda>r. stored_record records r \<noteq> None) ps),
       snd ?ab @ map hr_key (filter (\<lambda>r. stored_record records r = None) ps))"
    using Cons.prems(2,4) by (intro Cons.IH) simp_all
  have "map (\<lambda>x. if hr_key x \<in> hr_key ` set ps then recovered t records x else x) (map ?f rs)
      = map (\<lambda>x. if hr_key x \<in> hr_key ` set (p # ps) then recovered t records x else x) rs"
    using p by auto
  with one ih show ?case by (cases "stored_record records p") simp_all
qed simp

lemma expire_fold_eq:
  "distinct (map hr_key rs) \<Longrightarrow> distinct (map hr_key ps) \<Longrightarrow> set ps \<subseteq> set rs \<Longrightarrow> \<forall>p\<in>set ps. hr_status p = ReceiptPending \<Longrightarrow>
    fold (\<lambda>r. fail_receipt (hr_key r) (lease_message r) t) ps rs
    = map (\<lambda>x. if hr_key x \<in> hr_key ` set ps then failed (lease_message x) t x else x) rs"
proof (induction ps arbitrary: rs)
  case (Cons p ps)
  let ?f = "\<lambda>x. if hr_key x = hr_key p then failed (lease_message x) t x else x"
  have get: "get_receipt (hr_key p) rs = Some p" using Cons.prems by (intro get_receipt_distinct) auto
  have "failed (lease_message p) t x = failed (lease_message x) t x" if "hr_key x = hr_key p" for x
    using that by (simp add: lease_message_def)
  then have one: "fail_receipt (hr_key p) (lease_message p) t rs = map ?f rs"
    using get Cons.prems by (auto simp: fail_receipt_def update_map)
  have p: "hr_key p \<notin> hr_key ` set ps" using Cons.prems(2) by simp
  have "?f x = x" if "x \<in> set ps" for x using p that by (metis image_eqI)
  then have "set ps \<subseteq> set (map ?f rs)" using Cons.prems(3) by (force simp: image_iff)
  moreover have "map hr_key (map ?f rs) = map hr_key rs" unfolding map_map by (intro map_cong) auto
  then have "distinct (map hr_key (map ?f rs))" using Cons.prems(1) by metis
  ultimately have "fold (\<lambda>r. fail_receipt (hr_key r) (lease_message r) t) ps (map ?f rs)
    = map (\<lambda>x. if hr_key x \<in> hr_key ` set ps then failed (lease_message x) t x else x) (map ?f rs)"
    using Cons.prems(2,4) by (intro Cons.IH) simp_all
  with one p show ?case by auto
qed simp

lemma recover_eq:
  assumes "records_inv pol kpol (hf_records fs)" and "receipts_ok (hf_records fs) (hf_receipts fs)"
  shows "recover t fs = (fs\<lparr>hf_receipts := map (recovered t (hf_records fs)) (hf_receipts fs)\<rparr>,
     map hr_key (filter (\<lambda>r. hr_status r = ReceiptPending \<and> stored_record (hf_records fs) r \<noteq> None) (hf_receipts fs)),
     map hr_key (filter (\<lambda>r. hr_status r = ReceiptPending \<and> stored_record (hf_records fs) r = None) (hf_receipts fs)))"
proof -
  let ?rs = "hf_receipts fs" and ?ps = "listPending (hf_receipts fs)"
  have d: "distinct (map hr_key ?rs)" using assms(2) by (simp add: receipts_ok_def)
  have map: "map (\<lambda>x. if hr_key x \<in> hr_key ` set ?ps then recovered t (hf_records fs) x else x) ?rs = map (recovered t (hf_records fs)) ?rs"
    by (intro map_cong refl) (auto simp: listPending_def recovered_def image_iff)
  have "distinct (map hr_key ?ps)" using d by (simp add: listPending_def distinct_map_filter)
  note fold = recover_fold_eq [OF assms(1) d this, of t "[]" "[]"]
  have "fold (recover_one t (hf_records fs)) ?ps (?rs, [], []) = (map (recovered t (hf_records fs)) ?rs,
       map hr_key (filter (\<lambda>r. stored_record (hf_records fs) r \<noteq> None) ?ps),
       map hr_key (filter (\<lambda>r. stored_record (hf_records fs) r = None) ?ps))"
    unfolding map [symmetric] by (rule fold [unfolded append_Nil]) (auto simp: listPending_def)
  then show ?thesis unfolding recover_def by (simp only: prod.case listPending_def filter_filter)
qed

lemma reconcileStartup_eq:
  assumes "records_inv pol kpol (hf_records fs)" and "receipts_ok (hf_records fs) (hf_receipts fs)"
  shows "reconcileStartup parse t fs = (fs\<lparr>hf_receipts := map (restarted parse t (hf_records fs)) (hf_receipts fs)\<rparr>,
    \<lparr>su_recovered = map hr_key (filter (\<lambda>r. hr_status r = ReceiptPending \<and> stored_record (hf_records fs) r \<noteq> None) (hf_receipts fs)),
     su_unresolved = map hr_key (filter (\<lambda>r. hr_status r = ReceiptPending \<and> stored_record (hf_records fs) r = None
       \<and> \<not> isExpired parse (hr_lease r) t) (hf_receipts fs)),
     su_expired = map hr_key (filter (\<lambda>r. hr_status r = ReceiptPending \<and> stored_record (hf_records fs) r = None
       \<and> isExpired parse (hr_lease r) t) (hf_receipts fs))\<rparr>)"
proof -
  let ?rs = "hf_receipts fs" and ?rec = "recovered t (hf_records fs)"
  let ?late = "\<lambda>r. hr_status r = ReceiptPending \<and> stored_record (hf_records fs) r = None \<and> isExpired parse (hr_lease r) t"
  have d: "distinct (map hr_key ?rs)" using assms(2) by (simp add: receipts_ok_def)
  have unique: "x = y" if "x \<in> set ?rs" "y \<in> set ?rs" "hr_key x = hr_key y" for x y
    using d that by (auto simp: distinct_map dest: inj_onD)
  have late: "?late r \<longleftrightarrow> hr_status (?rec r) = ReceiptPending \<and> isExpired parse (hr_lease (?rec r)) t" for r
    by (cases "stored_record (hf_records fs) r") (simp_all add: recovered_def)
  have same: "?rec r = r" if "?late r" for r using that by (simp add: recovered_def)
  have expired: "listExpiredPending parse t (map ?rec ?rs) = filter ?late ?rs"
  proof -
    have "listExpiredPending parse t (map ?rec ?rs) = map ?rec (filter ?late ?rs)"
      by (simp add: listExpiredPending_def filter_map comp_def late)
    also have "map ?rec (filter ?late ?rs) = filter ?late ?rs" by (intro map_idI) (simp add: same)
    finally show ?thesis .
  qed
  have keys: "map hr_key (map ?rec ?rs) = map hr_key ?rs" by simp
  have sub: "set (filter ?late ?rs) \<subseteq> set (map ?rec ?rs)" using same by (force simp: image_iff)
  have "fold (\<lambda>r. fail_receipt (hr_key r) (lease_message r) t) (filter ?late ?rs) (map ?rec ?rs)
      = map (\<lambda>x. if hr_key x \<in> hr_key ` set (filter ?late ?rs) then failed (lease_message x) t x else x) (map ?rec ?rs)"
    by (rule expire_fold_eq) (use d keys sub in \<open>auto simp: distinct_map_filter comp_def\<close>)
  also have "\<dots> = map (restarted parse t (hf_records fs)) ?rs"
    unfolding map_map
  proof (intro map_cong refl)
    fix x assume x: "x \<in> set ?rs"
    have "hr_key (?rec x) \<in> hr_key ` set (filter ?late ?rs) \<longleftrightarrow> ?late x"
      using x unique by (auto simp: image_iff)
    with same [of x] show "((\<lambda>x. if hr_key x \<in> hr_key ` set (filter ?late ?rs) then failed (lease_message x) t x else x) \<circ> ?rec) x
        = restarted parse t (hf_records fs) x"
      by (auto simp: restarted_def recovered_def split: option.splits)
  qed
  finally have receipts: "fold (\<lambda>r. fail_receipt (hr_key r) (lease_message r) t) (filter ?late ?rs) (map ?rec ?rs)
      = map (restarted parse t (hf_records fs)) ?rs" .
  have "filter (\<lambda>k. k \<notin> set (map hr_key (filter ?late ?rs)))
      (map hr_key (filter (\<lambda>r. hr_status r = ReceiptPending \<and> stored_record (hf_records fs) r = None) ?rs))
    = map hr_key (filter (\<lambda>r. hr_status r = ReceiptPending \<and> stored_record (hf_records fs) r = None
       \<and> \<not> isExpired parse (hr_lease r) t) ?rs)"
  proof -
    have "hr_key r \<in> set (map hr_key (filter ?late ?rs)) \<longleftrightarrow> ?late r" if "r \<in> set ?rs" for r
      using that unique by (auto simp: image_iff)
    then show ?thesis
      unfolding filter_map comp_def filter_filter by (intro arg_cong [of _ _ "map hr_key"] filter_cong refl) auto
  qed
  with receipts show ?thesis
    unfolding reconcileStartup_def recover_eq [OF assms] by (simp add: expired lease_message_def)
qed

section \<open>Receipts that failed\<close>

text \<open>A receipt that is not pending is touched by neither completion nor failure, so start-up passes over it.\<close>

lemma settled_complete:
  "get_receipt k rs = Some r \<Longrightarrow> hr_status r \<noteq> ReceiptPending \<Longrightarrow> get_receipt k (snd (complete_receipt k' rec t rs)) = Some r"
  by (cases rule: complete_cases [of k' rec t rs]) (auto simp: get_update_receipt)

lemma settled_fail:
  "get_receipt k rs = Some r \<Longrightarrow> hr_status r \<noteq> ReceiptPending \<Longrightarrow> get_receipt k (fail_receipt k' m t rs) = Some r"
  by (cases rule: fail_cases [of k' m t rs]) (auto simp: get_update_receipt)

lemma settled_recover_one:
  assumes "get_receipt k (fst acc) = Some r" and "hr_status r \<noteq> ReceiptPending"
  shows "get_receipt k (fst (recover_one t records p acc)) = Some r"
proof (cases acc)
  case (fields rs a b)
  with assms(1) have rs: "get_receipt k rs = Some r" by simp
  show ?thesis
  proof (cases "get_record (hr_record_id p) records")
    case (Inl e)
    with fields rs settled_fail [OF rs assms(2)] show ?thesis by (cases e) (simp_all add: recover_one_def)
  next
    case (Inr rec)
    obtain res rs' where c: "complete_receipt (hr_key p) rec t rs = (res, rs')" by fastforce
    from settled_complete [OF rs assms(2), of "hr_key p" rec t] c have "get_receipt k rs' = Some r" by simp
    with fields Inr c settled_fail [OF this assms(2)] show ?thesis by (cases res) (simp_all add: recover_one_def)
  qed
qed

lemma settled_startup:
  assumes "get_receipt k (hf_receipts fs) = Some r" and "hr_status r \<noteq> ReceiptPending"
  shows "get_receipt k (hf_receipts (fst (reconcileStartup parse t fs))) = Some r"
proof -
  have "get_receipt k (fst (fold (recover_one t records) ps acc)) = Some r" if "get_receipt k (fst acc) = Some r" for records ps acc
    using that by (induction ps arbitrary: acc) (auto simp: settled_recover_one [OF _ assms(2)])
  with assms(1) have "get_receipt k (hf_receipts (fst (recover t fs))) = Some r" by (simp add: recover_def split_beta)
  moreover have "get_receipt k (fold (\<lambda>r. fail_receipt (hr_key r) (m r) t) ps rs) = Some r"
    if "get_receipt k rs = Some r" for m ps rs
    using that by (induction ps arbitrary: rs) (auto simp: settled_fail [OF _ assms(2)])
  ultimately show ?thesis by (simp add: reconcileStartup_def Let_def split_beta)
qed

text \<open>The receipt of key \<open>k\<close> failed, and the record it reserved is stored.\<close>

definition orphaned :: "string \<Rightarrow> hermes_files \<Rightarrow> bool" where
  "orphaned k fs \<longleftrightarrow> (\<exists>r. get_receipt k (hf_receipts fs) = Some r \<and> hr_status r = ReceiptFailed
     \<and> hr_record_id r \<in> pr_id ` set (hf_records fs))"

datatype file_op = IngestCall hermes_call | StartUp string

primrec run_op where
  "run_op lc num parse pol kpol (IngestCall c) fs = snd (idempotent_ingest lc num parse pol kpol c fs)"
| "run_op lc num parse pol kpol (StartUp t) fs = fst (reconcileStartup parse t fs)"

lemma orphaned_own_call:
  assumes "orphaned (hk_key c) fs"
  shows "(\<exists>e. fst (idempotent_ingest lc num parse pol kpol c fs) = Inl e)
    \<and> orphaned (hk_key c) (snd (idempotent_ingest lc num parse pol kpol c fs))"
proof -
  from assms obtain r where r: "get_receipt (hk_key c) (hf_receipts fs) = Some r" "hr_status r = ReceiptFailed"
    "hr_record_id r \<in> pr_id ` set (hf_records fs)" by (auto simp: orphaned_def)
  let ?i = "reservation lc num c"
  show ?thesis
  proof (cases rule: begin_cases [of parse ?i "hf_receipts fs"])
    case (unchanged res)
    from r have "\<nexists>r'. fst (begin_ingestion parse ?i (hf_receipts fs)) = Inr (Replay r')"
      by (auto simp: begin_ingestion_def reservation_def split: if_splits)
    with unchanged obtain e where "begin_ingestion parse ?i (hf_receipts fs) = (Inl e, hf_receipts fs)"
      by (cases res) (auto, metis begin_result.exhaust)
    with assms show ?thesis by (auto simp: idempotent_ingest_def)
  next
    case new
    with r show ?thesis by (simp add: reservation_def)
  next
    case (again r')
    with r have r': "r' = r" "hr_record_id r = hn_record_id (hk_run c)" by (simp_all add: reservation_def)
    let ?rs = "update_receipt (hk_key c) (reacquired ?i) (hf_receipts fs)"
    have get: "get_receipt (hk_key c) ?rs = Some (reacquired ?i r)" by (subst get_update_receipt [OF _ r(1)]) simp_all
    obtain e where e: "ingest_run parse pol kpol (hk_run c) (hk_existing c) (hf_records fs) = (Inl e, hf_records fs)"
      by (cases rule: ingest_run_cases [of parse pol kpol "hk_run c" "hk_existing c" "hf_records fs"]) (use r(3) r' in auto)
    have "get_receipt (hk_key c) (fail_receipt (hk_key c) m t ?rs) = Some (failed m t (reacquired ?i r))" for m t
      using get by (simp add: fail_receipt_def get_update_receipt)
    then have "orphaned (hk_key c) \<lparr>hf_receipts = fail_receipt (hk_key c) m t ?rs, hf_records = hf_records fs\<rparr>" for m t
      using r(3) by (simp add: orphaned_def)
    moreover have "bi_key ?i = hk_key c" by (simp add: reservation_def)
    ultimately show ?thesis using again(1) e assms by (simp add: idempotent_ingest_def)
  qed
qed

lemma orphaned_other_call:
  assumes "orphaned k fs" and "hk_key c \<noteq> k"
  shows "orphaned k (snd (idempotent_ingest lc num parse pol kpol c fs))"
proof -
  from assms obtain r where r: "get_receipt k (hf_receipts fs) = Some r" "hr_status r = ReceiptFailed"
    "hr_record_id r \<in> pr_id ` set (hf_records fs)" by (auto simp: orphaned_def)
  have settled: "hr_status r \<noteq> ReceiptPending" using r(2) by simp
  obtain res rs where b: "begin_ingestion parse (reservation lc num c) (hf_receipts fs) = (res, rs)" by fastforce
  have rs: "get_receipt k rs = Some r"
  proof (cases rule: begin_cases [of parse "reservation lc num c" "hf_receipts fs"])
    case (again r')
    with b r(1) assms(2) show ?thesis by (auto simp: get_update_receipt reservation_def)
  qed (use b r(1) in \<open>auto simp: get_receipt_def find_append_stable\<close>)
  obtain res' recs where i: "ingest_run parse pol kpol (hk_run c) (hk_existing c) (hf_records fs) = (res', recs)" by fastforce
  then have recs: "hr_record_id r \<in> pr_id ` set recs"
    by (cases rule: ingest_run_cases [of parse pol kpol "hk_run c" "hk_existing c" "hf_records fs"]) (use r(3) in auto)
  have "get_receipt k (hf_receipts (snd (idempotent_ingest lc num parse pol kpol c fs))) = Some r
      \<and> hf_records (snd (idempotent_ingest lc num parse pol kpol c fs)) \<in> {hf_records fs, recs}"
  proof (cases "\<exists>x rec. trim (hk_key c) \<noteq> [] \<and> res = Inr (Acquired x) \<and> res' = Inr rec")
    case True
    then obtain x rec where case_: "trim (hk_key c) \<noteq> []" "res = Inr (Acquired x)" "res' = Inr rec" by blast
    obtain y rs2 where c: "complete_receipt (hk_key c) rec (hk_at c) rs = (y, rs2)" by fastforce
    have "get_receipt k rs2 = Some r" using settled_complete [OF rs settled, of "hk_key c" rec "hk_at c"] c by simp
    with case_ b i c settled_fail [OF this settled] show ?thesis by (cases y) (simp_all add: idempotent_ingest_def)
  next
    case False
    with rs r(1) b i settled_fail [OF rs settled] show ?thesis
      by (cases res; cases res') (auto simp: idempotent_ingest_def split: begin_result.splits)
  qed
  with r(2,3) recs show ?thesis by (auto simp: orphaned_def)
qed

lemma orphaned_stays: "orphaned k fs \<Longrightarrow> orphaned k (fold (run_op lc num parse pol kpol) ops fs)"
proof (induction ops arbitrary: fs)
  case (Cons op ops)
  have "orphaned k (run_op lc num parse pol kpol op fs)"
  proof (cases op)
    case (IngestCall c)
    with Cons.prems orphaned_own_call orphaned_other_call show ?thesis by (cases "hk_key c = k") auto
  next
    case (StartUp t)
    from Cons.prems obtain r where r: "get_receipt k (hf_receipts fs) = Some r" "hr_status r = ReceiptFailed"
      "hr_record_id r \<in> pr_id ` set (hf_records fs)" by (auto simp: orphaned_def)
    then show ?thesis
      using settled_startup [OF r(1), of parse t] startup_advances(2) [of parse t fs] StartUp by (auto simp: orphaned_def)
  qed
  with Cons.IH show ?case by simp
qed simp

section \<open>A call alone\<close>

text \<open>A call that nothing overtakes is one of the interleavings.\<close>

lemma ingest_as_steps:
  assumes "idempotent_ingest lc num parse pol kpol c fs = (res, fs')"
  shows "(hermes_step lc num parse pol kpol)\<^sup>*\<^sup>* \<lparr>hs_files = fs, hs_calls = cs\<rparr> \<lparr>hs_files = fs', hs_calls = cs\<rparr>"
proof (cases "\<exists>x. trim (hk_key c) \<noteq> [] \<and> fst (begin_ingestion parse (reservation lc num c) (hf_receipts fs)) = Inr (Acquired x)")
  case False
  have "fs' = fs"
  proof (cases rule: begin_cases [of parse "reservation lc num c" "hf_receipts fs"])
    case (unchanged r)
    with assms show ?thesis
      by (auto simp: idempotent_ingest_def split: if_splits sum.splits begin_result.splits)
  qed (use False assms in \<open>auto simp: idempotent_ingest_def split: if_splits\<close>)
  then show ?thesis by simp
next
  case True
  then obtain x rs where key: "trim (hk_key c) \<noteq> []"
    and b: "begin_ingestion parse (reservation lc num c) (hf_receipts fs) = (Inr (Acquired x), rs)" by (auto simp: prod_eq_iff)
  obtain r recs where i: "ingest_run parse pol kpol (hk_run c) (hk_existing c) (hf_records fs) = (r, recs)" by fastforce
  let ?step = "hermes_step lc num parse pol kpol"
  let ?fs = "\<lambda>rs recs. \<lparr>hf_receipts = rs, hf_records = recs\<rparr>"
  have files: "fs\<lparr>hf_receipts := rs\<rparr> = ?fs rs (hf_records fs)" by (cases fs) simp
  have 1: "?step \<lparr>hs_files = fs, hs_calls = cs\<rparr> \<lparr>hs_files = ?fs rs (hf_records fs), hs_calls = (c, Reserved) # cs\<rparr>"
    using step_begin [OF key b, where kpol = kpol and pol = pol and cs = cs] unfolding files .
  let ?p = "case r of Inr rec \<Rightarrow> Ingested rec | Inl e \<Rightarrow> Failing (pipeline_message e)"
  have 2: "?step \<lparr>hs_files = ?fs rs (hf_records fs), hs_calls = (c, Reserved) # cs\<rparr> \<lparr>hs_files = ?fs rs recs, hs_calls = (c, ?p) # cs\<rparr>"
    using step_ingest [where fs = "?fs rs (hf_records fs)" and cs = "[]" and ds = cs and c = c and res = r and recs = recs
        and parse = parse and pol = pol and kpol = kpol and lc = lc and num = num] i by simp
  have run: "?step\<^sup>*\<^sup>* \<lparr>hs_files = fs, hs_calls = cs\<rparr> \<lparr>hs_files = ?fs rs recs, hs_calls = (c, ?p) # cs\<rparr>"
    by (rule converse_rtranclp_into_rtranclp [of ?step, OF 1 r_into_rtranclp [of ?step, OF 2]])
  have fail: "?step \<lparr>hs_files = ?fs rs' recs, hs_calls = (c, Failing m) # cs\<rparr>
      \<lparr>hs_files = ?fs (fail_receipt (hk_key c) m (hk_at c) rs') recs, hs_calls = cs\<rparr>" for rs' m
    using step_fail [where fs = "?fs rs' recs" and cs = "[]" and ds = cs and c = c and m = m and parse = parse and pol = pol
        and kpol = kpol and lc = lc and num = num] by simp
  show ?thesis
  proof (cases r)
    case (Inl e)
    with assms key b i have "fs' = ?fs (fail_receipt (hk_key c) (pipeline_message e) (hk_at c) rs) recs"
      by (simp add: idempotent_ingest_def)
    with rtranclp.rtrancl_into_rtrancl [of ?step, OF run [unfolded Inl sum.case] fail] show ?thesis by simp
  next
    case (Inr rec)
    obtain u rs2 where cr: "complete_receipt (hk_key c) rec (hk_at c) rs = (u, rs2)" by fastforce
    show ?thesis
    proof (cases u)
      case (Inr w)
      have 3: "?step \<lparr>hs_files = ?fs rs recs, hs_calls = (c, Ingested rec) # cs\<rparr> \<lparr>hs_files = ?fs rs2 recs, hs_calls = cs\<rparr>"
        using step_complete [where fs = "?fs rs recs" and cs = "[]" and ds = cs and c = c and rec = rec and rs = rs2 and parse = parse
          and pol = pol and kpol = kpol and lc = lc and num = num] cr Inr by simp
      have "fs' = ?fs rs2 recs"
        using assms key b i \<open>r = Inr rec\<close> cr Inr by (simp add: idempotent_ingest_def)
      with rtranclp.rtrancl_into_rtrancl [of ?step, OF run [unfolded \<open>r = Inr rec\<close> sum.case] 3] show ?thesis by simp
    next
      case (Inl e)
      have 3: "?step \<lparr>hs_files = ?fs rs recs, hs_calls = (c, Ingested rec) # cs\<rparr>
          \<lparr>hs_files = ?fs rs2 recs, hs_calls = (c, Failing (ingestion_message e)) # cs\<rparr>"
        using step_complete_refused [where fs = "?fs rs recs" and cs = "[]" and ds = cs and c = c and rec = rec and rs = rs2 and e = e
          and parse = parse and pol = pol and kpol = kpol and lc = lc and num = num] cr Inl by simp
      have "fs' = ?fs (fail_receipt (hk_key c) (ingestion_message e) (hk_at c) rs2) recs"
        using assms key b i \<open>r = Inr rec\<close> cr Inl by (simp add: idempotent_ingest_def)
      with rtranclp.rtrancl_into_rtrancl [of ?step, OF rtranclp.rtrancl_into_rtrancl [of ?step, OF run [unfolded \<open>r = Inr rec\<close> sum.case] 3] fail]
      show ?thesis by simp
    qed
  qed
qed

text \<open>A call that answers a record leaves a completed receipt with it.\<close>

lemma ingest_answers:
  assumes "idempotent_ingest lc num parse pol kpol c fs = (Inr rec, fs')" and "receipts_ok (hf_records fs) (hf_receipts fs)"
  shows "\<exists>r\<in>set (hf_receipts fs'). hr_key r = hk_key c \<and> hr_status r = ReceiptCompleted \<and> hr_record r = Some rec
    \<and> hr_fingerprint r = stableFingerprint lc num (hk_run c) (hk_existing c) \<and> hr_record_id r = hn_record_id (hk_run c)"
proof -
  let ?i = "reservation lc num c"
  have i: "bi_key ?i = hk_key c" "bi_fingerprint ?i = stableFingerprint lc num (hk_run c) (hk_existing c)"
    "bi_record_id ?i = hn_record_id (hk_run c)" by (simp_all add: reservation_def)
  obtain res rs where b: "begin_ingestion parse ?i (hf_receipts fs) = (res, rs)" by fastforce
  show ?thesis
  proof (cases "\<exists>x. res = Inr (Acquired x)")
    case False
    with assms(1) b obtain r where r: "res = Inr (Replay r)" "rec = the (hr_record r)" "fs' = fs\<lparr>hf_receipts := rs\<rparr>"
      by (auto simp: idempotent_ingest_def split: if_splits sum.splits begin_result.splits)
    with b have "get_receipt (hk_key c) (hf_receipts fs) = Some r" "hr_fingerprint r = bi_fingerprint ?i"
      "hr_record_id r = bi_record_id ?i" "hr_status r = ReceiptCompleted" "hr_record r \<noteq> None" "rs = hf_receipts fs"
      by (auto simp: begin_ingestion_def i(1) split: option.splits if_splits)
    with get_receipt_Some [of "hk_key c" "hf_receipts fs" r] r i show ?thesis by auto
  next
    case True
    with assms(1) b obtain recs rs2 where c: "complete_receipt (hk_key c) rec (hk_at c) rs = (Inr (), rs2)" "hf_receipts fs' = rs2"
      by (auto simp: idempotent_ingest_def split: if_splits sum.splits prod.splits)
    from True b have q: "\<exists>q. get_receipt (hk_key c) rs = Some q \<and> hr_fingerprint q = bi_fingerprint ?i \<and> hr_record_id q = bi_record_id ?i"
      by (cases rule: begin_cases [of parse ?i "hf_receipts fs"])
        (auto simp: get_update_receipt i(1) new_receipt_def get_receipt_snoc)
    then obtain q where q: "get_receipt (hk_key c) rs = Some q" "hr_fingerprint q = bi_fingerprint ?i" "hr_record_id q = bi_record_id ?i" by blast
    with c have "get_receipt (hk_key c) rs2 = Some (completed rec (hk_at c) q)"
      by (cases rule: complete_cases [of "hk_key c" rec "hk_at c" rs]) (auto simp: get_update_receipt)
    with get_receipt_Some [OF this] q i c(2) show ?thesis by (intro bexI [of _ "completed rec (hk_at c) q"]) simp_all
  qed
qed

section \<open>Properties\<close>

definition no_files :: hermes_state where
  "no_files = \<lparr>hs_files = \<lparr>hf_receipts = [], hf_records = []\<rparr>, hs_calls = []\<rparr>"

lemma no_files_inv: "hermes_inv pol kpol no_files"
  by (simp add: no_files_def hermes_inv_def records_inv_def receipts_ok_def)

lemma hermes_reach_inv:
  "(hermes_step lc num parse pol kpol)\<^sup>*\<^sup>* no_files s \<Longrightarrow> records_inv pol kpol (hf_records (hs_files s))
     \<and> receipts_ok (hf_records (hs_files s)) (hf_receipts (hs_files s))"
  using hermes_steps_inv no_files_inv by (fastforce simp: hermes_inv_def)

lemma replay_completed:
  assumes "(hermes_step lc num parse pol kpol)\<^sup>*\<^sup>* no_files s" and "(hermes_step lc num parse pol kpol)\<^sup>*\<^sup>* s s'"
    and "r \<in> set (hf_receipts (hs_files s))" and "hr_status r = ReceiptCompleted"
    and "hk_key c = hr_key r" and "trim (hk_key c) \<noteq> []"
  shows "idempotent_ingest lc num parse pol kpol c (hs_files s')
    = (if stableFingerprint lc num (hk_run c) (hk_existing c) = hr_fingerprint r \<and> hn_record_id (hk_run c) = hr_record_id r
       then Inr (the (hr_record r)) else Inl (IngestionConflict (hr_key r)), hs_files s')"
proof -
  have inv: "hermes_inv pol kpol s" using hermes_steps_inv [OF assms(1) no_files_inv] by blast
  from hermes_steps_inv [OF assms(2) inv] assms(3,4) have r: "r \<in> set (hf_receipts (hs_files s'))"
    and "receipts_ok (hf_records (hs_files s')) (hf_receipts (hs_files s'))"
    by (auto simp: files_advance_def hermes_inv_def)
  then have "get_receipt (hr_key r) (hf_receipts (hs_files s')) = Some r" and "receipt_ok (hf_records (hs_files s')) r"
    by (auto intro!: get_receipt_distinct simp: receipts_ok_def)
  moreover from this(2) assms(4) have "hr_record r \<noteq> None" by (auto simp: receipt_ok_def)
  ultimately show ?thesis
    using assms(4-6) by (auto simp: idempotent_ingest_def begin_ingestion_def reservation_def)
qed

text \<open>
  C7. The two files agree, whatever calls are in flight, in whatever order they proceed, whichever writes fail
  and whenever the process stops and starts again: no two receipts have the same key and no two records the
  same id; a completed receipt holds a stored record with the id it reserved, any other receipt holds none; no
  record is ever lost and a completed receipt never changes.
\<close>

theorem hermes_files_agree:
  assumes "(hermes_step lc num parse pol kpol)\<^sup>*\<^sup>* no_files s" and "(hermes_step lc num parse pol kpol)\<^sup>*\<^sup>* s s'"
    and "r \<in> set (hf_receipts (hs_files s))"
  shows "distinct (map hr_key (hf_receipts (hs_files s))) \<and> distinct (map pr_id (hf_records (hs_files s)))
    \<and> (if hr_status r = ReceiptCompleted
        then (\<exists>rec\<in>set (hf_records (hs_files s)). hr_record r = Some rec \<and> pr_id rec = hr_record_id r)
          \<and> r \<in> set (hf_receipts (hs_files s'))
        else hr_record r = None)
    \<and> set (hf_records (hs_files s)) \<subseteq> set (hf_records (hs_files s'))"
proof -
  have inv: "hermes_inv pol kpol s" using hermes_steps_inv [OF assms(1) no_files_inv] by blast
  from hermes_steps_inv [OF assms(2) inv] have "files_advance (hs_files s) (hs_files s')" by blast
  with hermes_reach_inv [OF assms(1)] assms(3) show ?thesis
    by (auto simp: files_advance_def receipts_ok_def receipt_ok_def records_inv_def)
qed

text \<open>
  A completed ingestion is answered from its receipt for ever after: the same key with the same fingerprint
  and record id returns the original record and changes nothing; with any other it is refused, and changes
  nothing. The fingerprint covers the claims the Kernel knows at the time of the call, so a call repeated
  byte for byte is refused once those claims have changed.
\<close>

theorem completed_ingestion_replays:
  assumes "(hermes_step lc num parse pol kpol)\<^sup>*\<^sup>* no_files s" and "(hermes_step lc num parse pol kpol)\<^sup>*\<^sup>* s s'"
    and "r \<in> set (hf_receipts (hs_files s))" and "hr_status r = ReceiptCompleted"
    and "hk_key c = hr_key r" and "trim (hk_key c) \<noteq> []"
  shows "idempotent_ingest lc num parse pol kpol c (hs_files s')
    = (if stableFingerprint lc num (hk_run c) (hk_existing c) = hr_fingerprint r \<and> hn_record_id (hk_run c) = hr_record_id r
       then Inr (the (hr_record r)) else Inl (IngestionConflict (hr_key r)), hs_files s')"
  by (rule replay_completed [OF assms])

text \<open>
  C30. What start-up does to the files of any reachable state: a pending receipt whose record id is stored is
  completed with that record, whatever run wrote it; any other pending receipt fails if its lease has expired
  and stays pending if not; every other receipt and every record stays as it is; and the report names
  exactly the keys recovered, expired and unresolved.
\<close>

theorem startup_reconciles:
  assumes "(hermes_step lc num parse pol kpol)\<^sup>*\<^sup>* no_files s" and "fs = hs_files s"
  shows "reconcileStartup parse t fs = (fs\<lparr>hf_receipts := map (restarted parse t (hf_records fs)) (hf_receipts fs)\<rparr>,
    \<lparr>su_recovered = map hr_key (filter (\<lambda>r. hr_status r = ReceiptPending \<and> stored_record (hf_records fs) r \<noteq> None) (hf_receipts fs)),
     su_unresolved = map hr_key (filter (\<lambda>r. hr_status r = ReceiptPending \<and> stored_record (hf_records fs) r = None
       \<and> \<not> isExpired parse (hr_lease r) t) (hf_receipts fs)),
     su_expired = map hr_key (filter (\<lambda>r. hr_status r = ReceiptPending \<and> stored_record (hf_records fs) r = None
       \<and> isExpired parse (hr_lease r) t) (hf_receipts fs))\<rparr>)"
  using hermes_reach_inv [OF assms(1)] assms(2) by (intro reconcileStartup_eq) auto


section \<open>Runs\<close>

abbreviation sample_step where
  "sample_step \<equiv> hermes_step default (\<lambda>_. ''0'') (\<lambda>s. Some (int (length s))) DEFAULT_VALIDATION_POLICY DEFAULT_CONTRADICTION_POLICY"

text \<open>A call at time 1 with a lease until 2, and the same call repeated at time 3.\<close>

definition first_call :: hermes_call where
  "first_call = \<lparr>hk_key = ''k'', hk_run = sample_run, hk_existing = [], hk_at = ''a'', hk_lease = Some ''aa''\<rparr>"

definition late_call :: hermes_call where
  "late_call = first_call\<lparr>hk_at := ''aaa'', hk_lease := Some ''aaaa''\<rparr>"

definition reserved_receipts :: "hermes_receipt list" where
  "reserved_receipts = [new_receipt (reservation default (\<lambda>_. ''0'') first_call)]"

definition sample_record :: pipeline_record where
  "sample_record = projr (fst (ingest_run (\<lambda>s. Some (int (length s))) DEFAULT_VALIDATION_POLICY DEFAULT_CONTRADICTION_POLICY
     sample_run [] []))"

definition linked_receipts :: "hermes_receipt list" where
  "linked_receipts = map (completed sample_record ''a'') reserved_receipts"

definition taken_receipts :: "hermes_receipt list" where
  "taken_receipts = map (reacquired (reservation default (\<lambda>_. ''0'') late_call)) reserved_receipts"

definition failed_receipts :: "hermes_receipt list" where
  "failed_receipts = map (failed ''r1'' ''aaa'') taken_receipts"

lemma first_reserved: "sample_step no_files \<lparr>hs_files = \<lparr>hf_receipts = reserved_receipts, hf_records = []\<rparr>, hs_calls = [(first_call, Reserved)]\<rparr>"
proof -
  have b: "begin_ingestion (\<lambda>s. Some (int (length s))) (reservation default (\<lambda>_. ''0'') first_call) []
      = (Inr (Acquired (new_receipt (reservation default (\<lambda>_. ''0'') first_call))), reserved_receipts)"
    by (simp add: begin_ingestion_def get_receipt_def reserved_receipts_def)
  have "trim (hk_key first_call) \<noteq> []" by code_simp
  from step_begin [OF this, where fs = "\<lparr>hf_receipts = [], hf_records = []\<rparr>" and cs = "[]"] b show ?thesis
    by (simp add: no_files_def)
qed

lemma first_ingested:
  "ingest_run (\<lambda>s. Some (int (length s))) DEFAULT_VALIDATION_POLICY DEFAULT_CONTRADICTION_POLICY (hk_run first_call)
     (hk_existing first_call) [] = (Inr sample_record, [sample_record])"
  by code_simp

lemma first_linked: "complete_receipt (hk_key first_call) sample_record (hk_at first_call) reserved_receipts = (Inr (), linked_receipts)"
  by code_simp

definition at_rest :: "hermes_receipt list \<Rightarrow> pipeline_record list \<Rightarrow> hermes_state" where
  "at_rest rs recs = \<lparr>hs_files = \<lparr>hf_receipts = rs, hf_records = recs\<rparr>, hs_calls = []\<rparr>"

lemma reach_ingested: "sample_step\<^sup>*\<^sup>* no_files \<lparr>hs_files = \<lparr>hf_receipts = reserved_receipts, hf_records = [sample_record]\<rparr>,
    hs_calls = [(first_call, Ingested sample_record)]\<rparr>"
proof -
  have "sample_step \<lparr>hs_files = \<lparr>hf_receipts = reserved_receipts, hf_records = []\<rparr>, hs_calls = [] @ (first_call, Reserved) # []\<rparr>
      \<lparr>hs_files = \<lparr>hf_receipts = reserved_receipts, hf_records = []\<rparr>\<lparr>hf_records := [sample_record]\<rparr>,
       hs_calls = [] @ (first_call, case Inr sample_record of Inr rec \<Rightarrow> Ingested rec | Inl e \<Rightarrow> Failing (pipeline_message e)) # []\<rparr>"
    using first_ingested by (intro step_ingest) simp
  with first_reserved show ?thesis by (simp add: rtranclp.rtrancl_into_rtrancl)
qed

lemma reach_crashed: "sample_step\<^sup>*\<^sup>* no_files (at_rest reserved_receipts [sample_record])"
  using rtranclp.rtrancl_into_rtrancl [OF reach_ingested step_crash] by (simp add: at_rest_def)

lemma reach_linked: "sample_step\<^sup>*\<^sup>* no_files (at_rest linked_receipts [sample_record])"
proof -
  have "sample_step \<lparr>hs_files = \<lparr>hf_receipts = reserved_receipts, hf_records = [sample_record]\<rparr>,
      hs_calls = [] @ (first_call, Ingested sample_record) # []\<rparr>
      \<lparr>hs_files = \<lparr>hf_receipts = reserved_receipts, hf_records = [sample_record]\<rparr>\<lparr>hf_receipts := linked_receipts\<rparr>, hs_calls = [] @ []\<rparr>"
    using first_linked by (intro step_complete) simp
  with reach_ingested show ?thesis by (simp add: at_rest_def rtranclp.rtrancl_into_rtrancl)
qed

lemma linked_receipt:
  "hd linked_receipts \<in> set linked_receipts" "hr_status (hd linked_receipts) = ReceiptCompleted"
  "hr_record (hd linked_receipts) = Some sample_record" "hr_key (hd linked_receipts) = ''k''"
  by (simp_all add: linked_receipts_def reserved_receipts_def reservation_def first_call_def)

theorem hermes_files_agree_witness:
  "\<exists>rec\<in>set (hf_records (hs_files (at_rest linked_receipts [sample_record]))). hr_record (hd linked_receipts) = Some rec"
  using hermes_files_agree [OF reach_linked rtranclp.rtrancl_refl, of "hd linked_receipts"] linked_receipt
  by (auto simp: at_rest_def)

theorem completed_ingestion_replays_witness:
  "idempotent_ingest default (\<lambda>_. ''0'') (\<lambda>s. Some (int (length s))) DEFAULT_VALIDATION_POLICY DEFAULT_CONTRADICTION_POLICY
     first_call (hs_files (at_rest linked_receipts [sample_record])) = (Inr sample_record, hs_files (at_rest linked_receipts [sample_record]))
   \<and> idempotent_ingest default (\<lambda>_. ''0'') (\<lambda>s. Some (int (length s))) DEFAULT_VALIDATION_POLICY DEFAULT_CONTRADICTION_POLICY
     (first_call\<lparr>hk_existing := sample_existing\<rparr>) (hs_files (at_rest linked_receipts [sample_record]))
     = (Inl (IngestionConflict ''k''), hs_files (at_rest linked_receipts [sample_record]))"
proof -
  have r: "hd linked_receipts \<in> set (hf_receipts (hs_files (at_rest linked_receipts [sample_record])))"
    using linked_receipt(1) by (simp add: at_rest_def)
  have same: "stableFingerprint default (\<lambda>_. ''0'') (hk_run first_call) (hk_existing first_call) = hr_fingerprint (hd linked_receipts)"
    "hn_record_id (hk_run first_call) = hr_record_id (hd linked_receipts)" by code_simp+
  have other: "stableFingerprint default (\<lambda>_. ''0'') (hk_run first_call) sample_existing \<noteq> hr_fingerprint (hd linked_receipts)"
    by code_simp
  have keys: "hk_key first_call = hr_key (hd linked_receipts)" "trim (hk_key first_call) \<noteq> []" by code_simp+
  note replay = completed_ingestion_replays [OF reach_linked rtranclp.rtrancl_refl r linked_receipt(2)]
  from replay [of first_call] replay [of "first_call\<lparr>hk_existing := sample_existing\<rparr>"] same other keys linked_receipt(3,4)
  show ?thesis by simp
qed

theorem startup_reconciles_witness:
  "su_recovered (snd (reconcileStartup (\<lambda>s. Some (int (length s))) ''aaa'' (hs_files (at_rest reserved_receipts [sample_record])))) = [''k'']"
proof -
  have "map hr_key (filter (\<lambda>r. hr_status r = ReceiptPending \<and> stored_record [sample_record] r \<noteq> None) reserved_receipts) = [''k'']"
    by code_simp
  with startup_reconciles [OF reach_crashed refl, of "''aaa''"] show ?thesis by (simp add: at_rest_def)
qed

text \<open>The repeated call takes the expired lease over, and fails because the first has stored the record.\<close>

lemma reach_orphaned: "sample_step\<^sup>*\<^sup>* no_files (at_rest failed_receipts [sample_record])"
proof -
  let ?recs = "[sample_record]" and ?first = "(first_call, Ingested sample_record)"
  let ?fs = "\<lambda>rs. \<lparr>hf_receipts = rs, hf_records = [sample_record]\<rparr>"
  have key: "trim (hk_key late_call) \<noteq> []" by code_simp
  have "begin_ingestion (\<lambda>s. Some (int (length s))) (reservation default (\<lambda>_. ''0'') late_call) reserved_receipts
      = (Inr (Acquired (hd taken_receipts)), taken_receipts)" by code_simp
  then have "sample_step \<lparr>hs_files = ?fs reserved_receipts, hs_calls = [?first]\<rparr>
      \<lparr>hs_files = ?fs reserved_receipts\<lparr>hf_receipts := taken_receipts\<rparr>, hs_calls = (late_call, Reserved) # [?first]\<rparr>"
    by (intro step_begin [OF key]) simp
  with reach_ingested have 1: "sample_step\<^sup>*\<^sup>* no_files \<lparr>hs_files = ?fs taken_receipts, hs_calls = [(late_call, Reserved), ?first]\<rparr>"
    by (simp add: rtranclp.rtrancl_into_rtrancl)
  have "ingest_run (\<lambda>s. Some (int (length s))) DEFAULT_VALIDATION_POLICY DEFAULT_CONTRADICTION_POLICY (hk_run late_call)
      (hk_existing late_call) ?recs = (Inl (RecordExists ''r1''), ?recs)" by code_simp
  then have "sample_step \<lparr>hs_files = ?fs taken_receipts, hs_calls = [] @ (late_call, Reserved) # [?first]\<rparr>
      \<lparr>hs_files = ?fs taken_receipts\<lparr>hf_records := ?recs\<rparr>,
       hs_calls = [] @ (late_call, case Inl (RecordExists ''r1'') of Inr rec \<Rightarrow> Ingested rec | Inl e \<Rightarrow> Failing (pipeline_message e)) # [?first]\<rparr>"
    by (intro step_ingest) simp
  with 1 have 2: "sample_step\<^sup>*\<^sup>* no_files \<lparr>hs_files = ?fs taken_receipts, hs_calls = [(late_call, Failing ''r1''), ?first]\<rparr>"
    by (simp add: pipeline_message_def rtranclp.rtrancl_into_rtrancl)
  have f: "fail_receipt (hk_key late_call) ''r1'' (hk_at late_call) taken_receipts = failed_receipts" by code_simp
  have "sample_step \<lparr>hs_files = ?fs taken_receipts, hs_calls = [] @ (late_call, Failing ''r1'') # [?first]\<rparr>
      \<lparr>hs_files = ?fs taken_receipts\<lparr>hf_receipts := fail_receipt (hk_key late_call) ''r1'' (hk_at late_call) (hf_receipts (?fs taken_receipts))\<rparr>,
       hs_calls = [] @ [?first]\<rparr>"
    by (rule step_fail)
  with 2 have 3: "sample_step\<^sup>*\<^sup>* no_files \<lparr>hs_files = ?fs failed_receipts, hs_calls = [?first]\<rparr>"
    by (simp add: f rtranclp.rtrancl_into_rtrancl)
  have "complete_receipt (hk_key first_call) sample_record (hk_at first_call) failed_receipts = (Inl (IngestionConflict ''k''), failed_receipts)"
    by code_simp
  then have "sample_step \<lparr>hs_files = ?fs failed_receipts, hs_calls = [] @ ?first # []\<rparr>
      \<lparr>hs_files = ?fs failed_receipts\<lparr>hf_receipts := failed_receipts\<rparr>,
       hs_calls = [] @ (first_call, Failing (ingestion_message (IngestionConflict ''k''))) # []\<rparr>"
    by (intro step_complete_refused) simp
  with 3 have "sample_step\<^sup>*\<^sup>* no_files \<lparr>hs_files = ?fs failed_receipts, hs_calls = [(first_call, Failing ''k'')]\<rparr>"
    by (simp add: ingestion_message_def rtranclp.rtrancl_into_rtrancl)
  from rtranclp.rtrancl_into_rtrancl [OF this step_crash] show ?thesis by (simp add: at_rest_def)
qed


definition other_call :: hermes_call where
  "other_call = \<lparr>hk_key = ''j'', hk_run = sample_run\<lparr>hn_events :=
     [RunStarted ''m'' ''a'' ''1'', EvidenceRecorded ''e1'' ''k'' True ''2'',
      ClaimProposed ''p1'' ''the sky is blue'' (Fin 1) [''e1''] ''3'', RunCompleted ''done'' ''4'']\<rparr>,
     hk_existing = [], hk_at = ''aaa'', hk_lease = None\<rparr>"

text \<open>
  Start-up can answer a call with the record of another: a call reserves a new key for a run whose record
  id is already stored, and the process stops before the append refuses it; start-up then completes its
  receipt with the stored record, which was made from a run with a different claim.
\<close>

theorem startup_links_other_run:
  "\<exists>s r rec. sample_step\<^sup>*\<^sup>* no_files s
     \<and> get_receipt ''j'' (hf_receipts (fst (reconcileStartup (\<lambda>s. Some (int (length s))) ''aaaa'' (hs_files s)))) = Some r
     \<and> hr_fingerprint r = stableFingerprint default (\<lambda>_. ''0'') (hk_run other_call) (hk_existing other_call)
     \<and> hr_status r = ReceiptCompleted \<and> hr_record r = Some rec
     \<and> cp_statement (cv_proposal (pr_validation rec)) = ''the sky is green''
     \<and> ClaimProposed ''p1'' ''the sky is blue'' (Fin 1) [''e1''] ''3'' \<in> set (hn_events (hk_run other_call))"
proof -
  let ?i = "reservation default (\<lambda>_. ''0'') other_call"
  let ?rs = "linked_receipts @ [new_receipt ?i]"
  have key: "trim (hk_key other_call) \<noteq> []" by code_simp
  have "get_receipt (bi_key ?i) linked_receipts = None" by code_simp
  then have b: "begin_ingestion (\<lambda>s. Some (int (length s))) ?i linked_receipts = (Inr (Acquired (new_receipt ?i)), ?rs)"
    by (simp add: begin_ingestion_def)
  have "sample_step (at_rest linked_receipts [sample_record])
      \<lparr>hs_files = \<lparr>hf_receipts = linked_receipts, hf_records = [sample_record]\<rparr>\<lparr>hf_receipts := ?rs\<rparr>, hs_calls = (other_call, Reserved) # []\<rparr>"
    unfolding at_rest_def using b by (intro step_begin [OF key]) simp
  with reach_linked have "sample_step\<^sup>*\<^sup>* no_files
      \<lparr>hs_files = \<lparr>hf_receipts = ?rs, hf_records = [sample_record]\<rparr>, hs_calls = [(other_call, Reserved)]\<rparr>"
    by (simp add: rtranclp.rtrancl_into_rtrancl)
  from rtranclp.rtrancl_into_rtrancl [OF this step_crash]
  have reach: "sample_step\<^sup>*\<^sup>* no_files (at_rest ?rs [sample_record])" by (simp add: at_rest_def)
  let ?r = "completed sample_record ''aaaa'' (new_receipt ?i)"
  have "get_receipt ''j'' (hf_receipts (fst (reconcileStartup (\<lambda>s. Some (int (length s))) ''aaaa'' (hs_files (at_rest ?rs [sample_record]))))) = Some ?r"
    by code_simp
  moreover have "hr_fingerprint ?r = stableFingerprint default (\<lambda>_. ''0'') (hk_run other_call) (hk_existing other_call)"
    by (simp add: new_receipt_def reservation_def)
  moreover have "cp_statement (cv_proposal (pr_validation sample_record)) = ''the sky is green''" by code_simp
  moreover have "ClaimProposed ''p1'' ''the sky is blue'' (Fin 1) [''e1''] ''3'' \<in> set (hn_events (hk_run other_call))"
    by (simp add: other_call_def)
  ultimately show ?thesis using reach by (intro exI [of _ "at_rest ?rs [sample_record]"] exI [of _ ?r] exI [of _ sample_record]) simp
qed

end
