(* ===== verification/Hermes_Boundary.thy ===== *)
theory Hermes_Boundary
  imports Hermes_Ingestion
begin

text \<open>
  The authenticated local boundary of Hermes ingestion (\<open>orchestration/hermes-local-ingestion-boundary.ts\<close>) and
  its HTTP route (\<open>hermes-local-ingestion-http-route.ts\<close>). Parameters: \<open>hmac\<close> (the hex digest of HMAC-SHA256
  under a secret), \<open>bytes\<close> (the UTF-8 length of a string), \<open>json\<close> (\<open>JSON.parse\<close> of a body, None where it throws
  or is no object), and those of ingestion. Results: a request reaches the ingestion, and may change a file,
  only if it is local, fresh, small enough and signed with the secret; sending a request again changes
  nothing; but the signature does not tell where the timestamp ends and the key begins.
\<close>

section \<open>Requests\<close>

record boundary_config =
  bc_secret :: string
  bc_max_bytes :: js_number
  bc_window :: js_number

record boundary_headers =
  bh_key :: "string option"
  bh_timestamp :: "string option"
  bh_signature :: "string option"

record boundary_request =
  br_address :: string
  br_headers :: boundary_headers
  br_body :: string
  br_received :: string

record hermes_payload =
  py_run :: hermes_run
  py_key :: "string option"
  py_lease :: "string option"

datatype boundary_error = RequestRejected string | IngestionRefused ingestion_error

definition boundary_config_ok :: "boundary_config \<Rightarrow> boundary_error + unit" where
  "boundary_config_ok c =
     rbind (throw_if (bc_secret c = []) (RequestRejected ''secret'')) (\<lambda>_.
     rbind (throw_if (num_le (bc_max_bytes c) (Fin 0)) (RequestRejected ''maxPayloadBytes'')) (\<lambda>_.
     throw_if (num_le (bc_window c) (Fin 0)) (RequestRejected ''freshnessWindowMs'')))"

definition defaultIsLocalAddress :: "string \<Rightarrow> bool" where
  "defaultIsLocalAddress a \<longleftrightarrow> a \<in> {''127.0.0.1'', ''::1'', ''::ffff:127.0.0.1'', ''localhost''}"

definition signing_input :: "string \<Rightarrow> string \<Rightarrow> string \<Rightarrow> string" where
  "signing_input timestamp k body = timestamp @ ''.'' @ k @ ''.'' @ body"

definition sign_request :: "(string \<Rightarrow> string \<Rightarrow> string) \<Rightarrow> string \<Rightarrow> string \<Rightarrow> string \<Rightarrow> string \<Rightarrow> string" where
  "sign_request hmac secret k timestamp body = hmac secret (signing_input timestamp k body)"

definition safeEqual :: "string \<Rightarrow> string \<Rightarrow> bool" where
  "safeEqual left right \<longleftrightarrow> length left = length right \<and> list_all2 (=) left right"

definition required_header :: "string option \<Rightarrow> string \<Rightarrow> boundary_error + string" where
  "required_header v name = (case v of None \<Rightarrow> Inl (RequestRejected name)
     | Some s \<Rightarrow> if trim s = [] then Inl (RequestRejected name) else Inr s)"

text \<open>The checks before the payload is read: the key, if they all pass. \<open>now\<close> is the clock in milliseconds.\<close>

definition authenticate ::
  "(string \<Rightarrow> string \<Rightarrow> string) \<Rightarrow> (string \<Rightarrow> nat) \<Rightarrow> (string \<Rightarrow> int option) \<Rightarrow> (string \<Rightarrow> bool) \<Rightarrow> boundary_config \<Rightarrow> int
   \<Rightarrow> boundary_request \<Rightarrow> boundary_error + string" where
  "authenticate hmac bytes parse is_local config now req =
     rbind (throw_if (\<not> is_local (br_address req)) (RequestRejected ''local-only'')) (\<lambda>_.
     rbind (throw_if (num_lt (bc_max_bytes config) (Fin (of_nat (bytes (br_body req))))) (RequestRejected ''too large'')) (\<lambda>_.
     rbind (required_header (bh_key (br_headers req)) ''X-IBOS-Idempotency-Key'') (\<lambda>k.
     rbind (required_header (bh_timestamp (br_headers req)) ''X-IBOS-Timestamp'') (\<lambda>timestamp.
     rbind (required_header (bh_signature (br_headers req)) ''X-IBOS-Signature'') (\<lambda>signature.
     case parse timestamp of
       None \<Rightarrow> Inl (RequestRejected ''timestamp'')
     | Some parsed \<Rightarrow>
         rbind (throw_if (num_lt (bc_window config) (Fin (of_int \<bar>now - parsed\<bar>))) (RequestRejected ''freshness'')) (\<lambda>_.
         rbind (throw_if (\<not> safeEqual (sign_request hmac (bc_secret config) k timestamp (br_body req)) signature)
           (RequestRejected ''signature'')) (\<lambda>_. Inr k)))))))"

definition boundary_call :: "hermes_payload \<Rightarrow> string \<Rightarrow> string \<Rightarrow> existing_claim list \<Rightarrow> hermes_call" where
  "boundary_call payload k received existing = \<lparr>hk_key = k, hk_run = py_run payload, hk_existing = existing,
     hk_at = received, hk_lease = py_lease payload\<rparr>"

definition payload_agrees :: "hermes_payload \<Rightarrow> string \<Rightarrow> bool" where
  "payload_agrees payload k \<longleftrightarrow> (case py_key payload of None \<Rightarrow> True | Some p \<Rightarrow> p = [] \<or> p = k)"

definition boundary_handle where
  "boundary_handle hmac bytes json lc num parse pol kpol is_local config now req existing fs =
     (case authenticate hmac bytes parse is_local config now req of
       Inl e \<Rightarrow> (Inl e, fs)
     | Inr k \<Rightarrow> (case json (br_body req) of
         None \<Rightarrow> (Inl (RequestRejected ''payload''), fs)
       | Some payload \<Rightarrow>
           if \<not> payload_agrees payload k then (Inl (RequestRejected ''idempotencyKey''), fs)
           else (case idempotent_ingest lc num parse pol kpol (boundary_call payload k (br_received req) existing) fs of
               (Inl e, fs') \<Rightarrow> (Inl (IngestionRefused e), fs')
             | (Inr record, fs') \<Rightarrow> (Inr record, fs'))))"

section \<open>The HTTP route\<close>

datatype header_value = HeaderText string | HeaderList "string list"

record http_request =
  hq_method :: string
  hq_url :: string
  hq_headers :: "(string \<times> header_value) list"
  hq_address :: string
  hq_body :: string

record success_body =
  sb_record :: string
  sb_mission :: string
  sb_result :: string
  sb_validation :: claim_decision
  sb_contradiction :: "contradiction_action option"
  sb_admission :: "admission_decision option"
  sb_recorded_at :: string

datatype http_body = ErrorBody string | SuccessBody success_body

record http_response =
  hp_status :: nat
  hp_body :: http_body

definition successBody :: "pipeline_record \<Rightarrow> success_body" where
  "successBody r = \<lparr>sb_record = pr_id r, sb_mission = es_mission (pr_execution r), sb_result = rs_id (pr_result r),
     sb_validation = cv_decision (pr_validation r), sb_contradiction = map_option cr_action (pr_contradiction r),
     sb_admission = map_option ad_result_decision (pr_admission r), sb_recorded_at = pr_recorded_at r\<rparr>"

definition headerValue :: "(string \<times> header_value) list \<Rightarrow> string \<Rightarrow> string option" where
  "headerValue headers name = (case map_of headers name of
     Some (HeaderText s) \<Rightarrow> Some s | Some (HeaderList (s # _)) \<Rightarrow> Some s | _ \<Rightarrow> None)"

text \<open>\<open>toLowerCase\<close> on the letters the content type is compared with.\<close>

definition lower_char :: "char \<Rightarrow> char" where
  "lower_char c = (let n = (of_char c :: nat) in if 65 \<le> n \<and> n \<le> 90 then char_of (n + 32) else c)"

definition route_request :: "http_request \<Rightarrow> string \<Rightarrow> boundary_request" where
  "route_request req received = \<lparr>br_address = hq_address req,
     br_headers = \<lparr>bh_key = headerValue (hq_headers req) ''x-ibos-idempotency-key'',
       bh_timestamp = headerValue (hq_headers req) ''x-ibos-timestamp'',
       bh_signature = headerValue (hq_headers req) ''x-ibos-signature''\<rparr>,
     br_body = hq_body req, br_received = received\<rparr>"

definition error_response :: "boundary_error \<Rightarrow> http_response" where
  "error_response e = (case e of
     RequestRejected _ \<Rightarrow> \<lparr>hp_status = 400, hp_body = ErrorBody ''HERMES_INGESTION_REJECTED''\<rparr>
   | IngestionRefused (IngestionConflict _) \<Rightarrow> \<lparr>hp_status = 409, hp_body = ErrorBody ''HERMES_IDEMPOTENCY_CONFLICT''\<rparr>
   | IngestionRefused (IngestionInProgress _) \<Rightarrow> \<lparr>hp_status = 409, hp_body = ErrorBody ''HERMES_INGESTION_IN_PROGRESS''\<rparr>
   | IngestionRefused _ \<Rightarrow> \<lparr>hp_status = 500, hp_body = ErrorBody ''HERMES_INGESTION_FAILED''\<rparr>)"

text \<open>\<open>render\<close> renders the clock; the claims the Kernel knows are loaded for each request.\<close>

definition route_handle where
  "route_handle hmac bytes json lc num parse pol kpol render path config now req existing fs =
     (if hq_url req \<noteq> path then (\<lparr>hp_status = 404, hp_body = ErrorBody ''NOT_FOUND''\<rparr>, fs)
      else if hq_method req \<noteq> ''POST'' then (\<lparr>hp_status = 405, hp_body = ErrorBody ''METHOD_NOT_ALLOWED''\<rparr>, fs)
      else if \<not> (case headerValue (hq_headers req) ''content-type'' of
           None \<Rightarrow> False | Some t \<Rightarrow> prefix ''application/json'' (map lower_char t))
        then (\<lparr>hp_status = 415, hp_body = ErrorBody ''UNSUPPORTED_MEDIA_TYPE''\<rparr>, fs)
      else (case boundary_handle hmac bytes json lc num parse pol kpol defaultIsLocalAddress config now
             (route_request req (render now)) existing fs of
          (Inl e, fs') \<Rightarrow> (error_response e, fs')
        | (Inr record, fs') \<Rightarrow> (\<lparr>hp_status = 202, hp_body = SuccessBody (successBody record)\<rparr>, fs')))"

lemma safeEqual_iff [simp]: "safeEqual a b \<longleftrightarrow> a = b"
  by (auto simp: safeEqual_def list.rel_eq)

lemma authenticate_Inr:
  "authenticate hmac bytes parse is_local config now req = Inr k \<longleftrightarrow>
     is_local (br_address req) \<and> \<not> num_lt (bc_max_bytes config) (Fin (of_nat (bytes (br_body req))))
     \<and> bh_key (br_headers req) = Some k \<and> trim k \<noteq> []
     \<and> (\<exists>timestamp parsed. bh_timestamp (br_headers req) = Some timestamp \<and> parse timestamp = Some parsed \<and> trim timestamp \<noteq> []
         \<and> \<not> num_lt (bc_window config) (Fin (of_int \<bar>now - parsed\<bar>))
         \<and> bh_signature (br_headers req) = Some (sign_request hmac (bc_secret config) k timestamp (br_body req))
         \<and> trim (sign_request hmac (bc_secret config) k timestamp (br_body req)) \<noteq> [])"
  by (auto simp: authenticate_def rbind_Inr_iff required_header_def split: option.splits if_splits)

lemma boundary_cases:
  obtains (rejected) e where "boundary_handle hmac bytes json lc num parse pol kpol is_local config now req existing fs = (Inl (RequestRejected e), fs)"
  | (ingested) k payload where "authenticate hmac bytes parse is_local config now req = Inr k" "json (br_body req) = Some payload"
      "payload_agrees payload k"
      "boundary_handle hmac bytes json lc num parse pol kpol is_local config now req existing fs
       = (case idempotent_ingest lc num parse pol kpol (boundary_call payload k (br_received req) existing) fs of
           (Inl e, fs') \<Rightarrow> (Inl (IngestionRefused e), fs') | (Inr rec, fs') \<Rightarrow> (Inr rec, fs'))"
proof (cases "authenticate hmac bytes parse is_local config now req")
  case (Inl e)
  then have "\<exists>m. e = RequestRejected m"
    by (auto simp: authenticate_def rbind_Inl_iff required_header_def split: option.splits if_splits)
  with Inl show thesis by (auto simp: boundary_handle_def intro: rejected)
next
  case (Inr k)
  show thesis
  proof (cases "\<exists>payload. json (br_body req) = Some payload \<and> payload_agrees payload k")
    case True
    then obtain payload where "json (br_body req) = Some payload" "payload_agrees payload k" by blast
    with Inr show thesis by (intro ingested) (simp_all add: boundary_handle_def)
  next
    case False
    with Inr show thesis by (cases "json (br_body req)") (auto simp: boundary_handle_def intro: rejected)
  qed
qed

section \<open>Properties\<close>

text \<open>
  C14. Only an authenticated request reaches the ingestion: if a request is answered 202, or changes a file, then
  it is a POST to the route's path from a local address, its body is within the limit, its timestamp within
  the freshness window of the clock, and its signature is the HMAC of timestamp, key and body under the
  secret; and what it does is one call of the ingestion under the key of its header.
\<close>

theorem route_needs_authentication:
  assumes "route_handle hmac bytes json lc num parse pol kpol render path config now req existing fs = (resp, fs')"
    and "hp_status resp = 202 \<or> fs' \<noteq> fs"
  shows "hq_url req = path \<and> hq_method req = ''POST'' \<and> defaultIsLocalAddress (hq_address req)
    \<and> \<not> num_lt (bc_max_bytes config) (Fin (of_nat (bytes (hq_body req))))
    \<and> (\<exists>k timestamp parsed payload. headerValue (hq_headers req) ''x-ibos-idempotency-key'' = Some k
        \<and> headerValue (hq_headers req) ''x-ibos-timestamp'' = Some timestamp \<and> parse timestamp = Some parsed
        \<and> \<not> num_lt (bc_window config) (Fin (of_int \<bar>now - parsed\<bar>))
        \<and> headerValue (hq_headers req) ''x-ibos-signature'' = Some (sign_request hmac (bc_secret config) k timestamp (hq_body req))
        \<and> json (hq_body req) = Some payload \<and> payload_agrees payload k
        \<and> fs' = snd (idempotent_ingest lc num parse pol kpol (boundary_call payload k (render now) existing) fs)
        \<and> (hp_status resp = 202 \<longrightarrow> (\<exists>rec. hp_body resp = SuccessBody (successBody rec)
              \<and> fst (idempotent_ingest lc num parse pol kpol (boundary_call payload k (render now) existing) fs) = Inr rec)))"
proof -
  let ?handle = "boundary_handle hmac bytes json lc num parse pol kpol defaultIsLocalAddress config now (route_request req (render now)) existing fs"
  have route: "hq_url req = path" "hq_method req = ''POST''"
    "(resp, fs') = (case ?handle of (Inl e, fs') \<Rightarrow> (error_response e, fs')
        | (Inr rec, fs') \<Rightarrow> (\<lparr>hp_status = 202, hp_body = SuccessBody (successBody rec)\<rparr>, fs'))"
    using assms by (auto simp: route_handle_def split: if_splits)
  show ?thesis
  proof (cases rule: boundary_cases [of hmac bytes json lc num parse pol kpol defaultIsLocalAddress config now "route_request req (render now)" existing fs])
    case (rejected e)
    with route(3) assms(2) show ?thesis by (simp add: error_response_def)
  next
    case (ingested k payload)
    let ?call = "boundary_call payload k (render now) existing"
    obtain res fs2 where i: "idempotent_ingest lc num parse pol kpol ?call fs = (res, fs2)" by fastforce
    have status: "hp_status (error_response e) \<noteq> 202" for e
      by (auto simp: error_response_def split: boundary_error.splits ingestion_error.splits)
    have r: "fs' = fs2 \<and> (hp_status resp = 202 \<longrightarrow> (\<exists>rec. hp_body resp = SuccessBody (successBody rec) \<and> res = Inr rec))"
      using route(3) ingested(4) i status by (cases res) (auto simp: route_request_def)
    from ingested(1) obtain timestamp parsed where "defaultIsLocalAddress (hq_address req)"
      "\<not> num_lt (bc_max_bytes config) (Fin (of_nat (bytes (hq_body req))))"
      "headerValue (hq_headers req) ''x-ibos-idempotency-key'' = Some k"
      "headerValue (hq_headers req) ''x-ibos-timestamp'' = Some timestamp" "parse timestamp = Some parsed"
      "\<not> num_lt (bc_window config) (Fin (of_int \<bar>now - parsed\<bar>))"
      "headerValue (hq_headers req) ''x-ibos-signature'' = Some (sign_request hmac (bc_secret config) k timestamp (hq_body req))"
      by (auto simp: authenticate_Inr route_request_def)
    with ingested(2,3) r i route(1,2) show ?thesis by (auto simp: route_request_def)
  qed
qed

text \<open>
  C20. A request that was answered 202 can be sent again without effect: whatever happened in between (other
  calls, crashes, starts), as long as the claims the Kernel knows are the same, sending it again changes
  no file, and answers the same body, or rejects the request because it is no longer fresh.
\<close>

theorem resent_request_is_harmless:
  assumes "(hermes_step lc num parse pol kpol)\<^sup>*\<^sup>* no_files s"
    and "route_handle hmac bytes json lc num parse pol kpol render path config now req existing (hs_files s) = (resp, fs)"
    and "hp_status resp = 202"
    and "(hermes_step lc num parse pol kpol)\<^sup>*\<^sup>* \<lparr>hs_files = fs, hs_calls = hs_calls s\<rparr> s'"
  shows "route_handle hmac bytes json lc num parse pol kpol render path config now' req existing (hs_files s')
    \<in> {(resp, hs_files s'), (error_response (RequestRejected ''freshness''), hs_files s')}"
proof -
  let ?req = "\<lambda>now. route_request req (render now)"
  let ?handle = "\<lambda>now. boundary_handle hmac bytes json lc num parse pol kpol defaultIsLocalAddress config now (?req now) existing"
  have route: "route_handle hmac bytes json lc num parse pol kpol render path config n req existing f
      = (case ?handle n f of (Inl e, fs') \<Rightarrow> (error_response e, fs')
        | (Inr rec, fs') \<Rightarrow> (\<lparr>hp_status = 202, hp_body = SuccessBody (successBody rec)\<rparr>, fs'))" for n f
    using assms(2,3) by (auto simp: route_handle_def split: if_splits)
  have status: "hp_status (error_response e) \<noteq> 202" for e
    by (auto simp: error_response_def split: boundary_error.splits ingestion_error.splits)
  show ?thesis
  proof (cases rule: boundary_cases [of hmac bytes json lc num parse pol kpol defaultIsLocalAddress config now "?req now" existing "hs_files s"])
    case (rejected e)
    with assms(2) have "resp = error_response (RequestRejected e)" by (simp add: route)
    with assms(3) status show ?thesis by blast
  next
    case (ingested k payload)
    let ?call = "\<lambda>now. boundary_call payload k (render now) existing"
    from assms(2,3) ingested(4) status obtain rec where
      i: "idempotent_ingest lc num parse pol kpol (?call now) (hs_files s) = (Inr rec, fs)"
      and resp: "resp = \<lparr>hp_status = 202, hp_body = SuccessBody (successBody rec)\<rparr>"
      by (auto simp: route route_request_def split: sum.splits prod.splits)
    from ingest_as_steps [OF i, of "hs_calls s"] assms(1)
    have reach: "(hermes_step lc num parse pol kpol)\<^sup>*\<^sup>* no_files \<lparr>hs_files = fs, hs_calls = hs_calls s\<rparr>" by (cases s) simp
    from ingest_answers [OF i] hermes_reach_inv [OF assms(1)] obtain r where r: "r \<in> set (hf_receipts fs)"
      "hr_key r = k" "hr_status r = ReceiptCompleted" "hr_record r = Some rec"
      "hr_fingerprint r = stableFingerprint lc num (py_run payload) existing" "hr_record_id r = hn_record_id (py_run payload)"
      by (auto simp: boundary_call_def)
    from ingested(1) have "trim k \<noteq> []" by (simp add: authenticate_Inr)
    with replay_completed [OF reach assms(4), of r "?call now'"] r
    have again: "idempotent_ingest lc num parse pol kpol (?call now') (hs_files s') = (Inr rec, hs_files s')"
      by (simp add: boundary_call_def)
    have "authenticate hmac bytes parse defaultIsLocalAddress config now' (?req now') \<in> {Inr k, Inl (RequestRejected ''freshness'')}"
      using ingested(1) by (auto simp: authenticate_def route_request_def rbind_Inr_iff required_header_def split: option.splits if_splits)
    then show ?thesis
    proof
      assume "authenticate hmac bytes parse defaultIsLocalAddress config now' (?req now') = Inr k"
      with ingested(2,3) again have "?handle now' (hs_files s') = (Inr rec, hs_files s')"
        by (simp add: boundary_handle_def route_request_def)
      with resp show ?thesis by (simp add: route)
    next
      assume "authenticate hmac bytes parse defaultIsLocalAddress config now' (?req now') \<in> {Inl (RequestRejected ''freshness'')}"
      then have "?handle now' (hs_files s') = (Inl (RequestRejected ''freshness''), hs_files s')" by (simp add: boundary_handle_def)
      then show ?thesis by (simp add: route)
    qed
  qed
qed

text \<open>
  The signature does not bind the key: the signed text joins timestamp, key and body with dots, so from a
  request whose timestamp has a dot (every ISO timestamp with milliseconds has one) another is made, without
  the secret, that passes authentication under a different key with the same body and the same
  signature, provided the part of the timestamp before the dot is itself a date within the window.
\<close>

theorem signature_does_not_bind_key:
  assumes "authenticate hmac bytes parse is_local config now req = Inr k"
    and "bh_timestamp (br_headers req) = Some (before @ ''.'' @ after)" and "parse before = Some parsed" and "trim before \<noteq> []"
    and "\<not> num_lt (bc_window config) (Fin (of_int \<bar>now - parsed\<bar>))" and "trim (after @ ''.'' @ k) \<noteq> []"
  shows "authenticate hmac bytes parse is_local config now
      (req\<lparr>br_headers := (br_headers req)\<lparr>bh_timestamp := Some before, bh_key := Some (after @ ''.'' @ k)\<rparr>\<rparr>)
    = Inr (after @ ''.'' @ k)"
  using assms by (auto simp: authenticate_Inr sign_request_def signing_input_def)

section \<open>A request\<close>

text \<open>The secret is \<open>s\<close>, the digest appends the text to it, and every body reads as the sample run.\<close>

abbreviation sample_route where
  "sample_route \<equiv> route_handle (\<lambda>secret text. secret @ text) length (\<lambda>_. Some \<lparr>py_run = sample_run, py_key = None, py_lease = None\<rparr>)
     default (\<lambda>_. ''0'') (\<lambda>s. Some (int (length s))) DEFAULT_VALIDATION_POLICY DEFAULT_CONTRADICTION_POLICY (\<lambda>_. ''a'') ''/h''
     \<lparr>bc_secret = ''s'', bc_max_bytes = Fin 100, bc_window = Fin 10\<rparr>"

definition sample_request :: http_request where
  "sample_request = \<lparr>hq_method = ''POST'', hq_url = ''/h'', hq_headers =
     [(''content-type'', HeaderText ''Application/JSON''), (''x-ibos-idempotency-key'', HeaderText ''k''),
      (''x-ibos-timestamp'', HeaderText ''1.2''), (''x-ibos-signature'', HeaderText ''s1.2.k.body'')],
     hq_address = ''127.0.0.1'', hq_body = ''body''\<rparr>"

lemma sample_accepted:
  "\<exists>resp fs. sample_route 5 sample_request [] (hs_files no_files) = (resp, fs) \<and> hp_status resp = 202"
proof -
  have "hp_status (fst (sample_route 5 sample_request [] (hs_files no_files))) = 202" by code_simp
  then show ?thesis by (metis prod.collapse)
qed

theorem route_needs_authentication_witness: "hq_method sample_request = ''POST'' \<and> defaultIsLocalAddress (hq_address sample_request)"
  using sample_accepted route_needs_authentication by blast

theorem resent_request_is_harmless_witness:
  "\<exists>resp fs. sample_route 5 sample_request [] (hs_files no_files) = (resp, fs)
     \<and> sample_route 7 sample_request [] fs \<in> {(resp, fs), (error_response (RequestRejected ''freshness''), fs)}"
proof -
  from sample_accepted obtain resp fs where r: "sample_route 5 sample_request [] (hs_files no_files) = (resp, fs)" "hp_status resp = 202"
    by blast
  from resent_request_is_harmless [OF rtranclp.rtrancl_refl r rtranclp.rtrancl_refl, of 7] r show ?thesis by auto
qed

theorem signature_does_not_bind_key_witness:
  "authenticate (\<lambda>secret text. secret @ text) length (\<lambda>s. Some (int (length s))) defaultIsLocalAddress
     \<lparr>bc_secret = ''s'', bc_max_bytes = Fin 100, bc_window = Fin 10\<rparr> 5
     ((route_request sample_request ''a'')\<lparr>br_headers := (br_headers (route_request sample_request ''a''))
       \<lparr>bh_timestamp := Some ''1'', bh_key := Some (''2'' @ ''.'' @ ''k'')\<rparr>\<rparr>) = Inr (''2'' @ ''.'' @ ''k'')"
proof (rule signature_does_not_bind_key)
  show "authenticate (\<lambda>secret text. secret @ text) length (\<lambda>s. Some (int (length s))) defaultIsLocalAddress
     \<lparr>bc_secret = ''s'', bc_max_bytes = Fin 100, bc_window = Fin 10\<rparr> 5 (route_request sample_request ''a'') = Inr ''k''"
    by code_simp
  show "bh_timestamp (br_headers (route_request sample_request ''a'')) = Some (''1'' @ ''.'' @ ''2'')" by code_simp
  show "Some (int (length ''1'')) = Some 1" by simp
  show "trim ''1'' \<noteq> []" "trim (''2'' @ ''.'' @ ''k'') \<noteq> []" by code_simp+
  show "\<not> num_lt (bc_window \<lparr>bc_secret = ''s'', bc_max_bytes = Fin 100, bc_window = Fin 10\<rparr>) (Fin (of_int \<bar>5 - 1\<bar>))" by simp
qed

end
