(* ===== verification/Research.thy ===== *)
theory Research
  imports Kernel_Prelude
begin

text \<open>
  Research cases: their state machine and history (\<open>orchestration/research-state-machine.ts\<close>,
  \<open>research-state-machine-history.ts\<close>), the bounded retries of a stage (\<open>research-retry-policy.ts\<close>), the runtime
  that executes the six stages (\<open>research-execution.ts\<close>), and the fallback from tool to tool within a stage
  (\<open>hermes-hephaestus-orchestrator.ts\<close>). Parameters: what each attempt of a stage does (it may never settle),
  the parent's abort signal at each attempt, the policy's \<open>shouldRetry\<close>, the readings of the clock, and the
  text kept of an error (\<open>sanitizeErrorMessage\<close> and its regular expressions are not modelled). A stage that never
  settles makes the run None. Results: what a run leaves behind, that it ends, and within how many attempts.
\<close>

section \<open>State machine and history\<close>

datatype research_state =
  RCreated | Discovering | Ingesting | Analyzing | Validating | Memorizing | Reporting | RCompleted | RFailed

datatype research_event =
  StartDiscovery | DiscoveryComplete | StartIngestion | IngestionComplete | StartAnalysis | AnalysisComplete
| StartValidation | ValidationComplete | StartMemory | MemoryComplete | StartReporting | ReportComplete
| FailEvent | RetryEvent

record research_transition =
  rt_case :: string
  rt_from :: research_state
  rt_to :: research_state
  rt_event :: research_event
  rt_at :: string
  rt_reason :: "string option"

record research_snapshot =
  sn_case :: string
  sn_state :: research_state
  sn_updated :: string

definition research_transitions :: "research_state \<Rightarrow> (research_event \<times> research_state) list" where
  "research_transitions s = (case s of
     RCreated \<Rightarrow> [(StartDiscovery, Discovering)]
   | Discovering \<Rightarrow> [(DiscoveryComplete, Ingesting), (FailEvent, RFailed)]
   | Ingesting \<Rightarrow> [(IngestionComplete, Analyzing), (FailEvent, RFailed)]
   | Analyzing \<Rightarrow> [(AnalysisComplete, Validating), (FailEvent, RFailed)]
   | Validating \<Rightarrow> [(ValidationComplete, Memorizing), (FailEvent, RFailed)]
   | Memorizing \<Rightarrow> [(MemoryComplete, Reporting), (FailEvent, RFailed)]
   | Reporting \<Rightarrow> [(ReportComplete, RCompleted), (FailEvent, RFailed)]
   | RCompleted \<Rightarrow> []
   | RFailed \<Rightarrow> [(RetryEvent, Discovering)])"

datatype research_error = InvalidResearchTransition research_state research_event | InvalidResearchPlan string | RuntimeReused

definition research_transition ::
  "research_event \<Rightarrow> string \<Rightarrow> string option \<Rightarrow> research_snapshot \<Rightarrow> research_error + research_transition \<times> research_snapshot" where
  "research_transition e now reason s = (case map_of (research_transitions (sn_state s)) e of
     None \<Rightarrow> Inl (InvalidResearchTransition (sn_state s) e)
   | Some t \<Rightarrow> Inr (\<lparr>rt_case = sn_case s, rt_from = sn_state s, rt_to = t, rt_event = e, rt_at = now, rt_reason = reason\<rparr>,
       \<lparr>sn_case = sn_case s, sn_state = t, sn_updated = now\<rparr>))"

record research_checkpoint =
  ck_case :: string
  ck_state :: research_state
  ck_updated :: string
  ck_count :: nat

definition list_history :: "string option \<Rightarrow> research_transition list \<Rightarrow> research_transition list" where
  "list_history c h = filter (\<lambda>t. case c of None \<Rightarrow> True | Some i \<Rightarrow> i = [] \<or> rt_case t = i) h"

definition checkpoint :: "string \<Rightarrow> research_transition list \<Rightarrow> research_checkpoint option" where
  "checkpoint c h = (let ts = list_history (Some c) h in
     if ts = [] then None
     else Some \<lparr>ck_case = c, ck_state = rt_to (last ts), ck_updated = rt_at (last ts), ck_count = length ts\<rparr>)"

section \<open>Retries\<close>

datatype stage_error =
  StageTimeout
| StageCancelled
| RetryableError string string
| NonRetryableError string string
| UnknownError string

datatype failure_category = CatRetryable | CatNonRetryable | CatCancelled | CatTimeout | CatUnknown

definition classifyResearchError :: "stage_error \<Rightarrow> string \<times> failure_category \<times> bool" where
  "classifyResearchError e = (case e of
     StageTimeout \<Rightarrow> (''STAGE_TIMEOUT'', CatTimeout, True)
   | StageCancelled \<Rightarrow> (''STAGE_CANCELLED'', CatCancelled, False)
   | RetryableError _ code \<Rightarrow> (code, CatRetryable, True)
   | NonRetryableError _ code \<Rightarrow> (code, CatNonRetryable, False)
   | UnknownError _ \<Rightarrow> (''UNKNOWN_ERROR'', CatUnknown, False))"

record stage_failure =
  sf_state :: research_state
  sf_attempt :: nat
  sf_error :: string
  sf_code :: string
  sf_category :: failure_category
  sf_retryable :: bool
  sf_at :: string

record 'v stage_result =
  sr_value :: 'v
  sr_completed_at :: string

text \<open>What an attempt comes to by itself: a result, an error, or neither, ever.\<close>

datatype 'v attempt = Finishes "'v stage_result" | Fails stage_error | NeverSettles

record 'v stage_env =
  en_attempt :: "research_state \<Rightarrow> nat \<Rightarrow> 'v attempt"
  en_aborted :: "research_state \<Rightarrow> nat \<Rightarrow> bool"
  en_sanitize :: "stage_error \<Rightarrow> string"
  en_now :: "nat \<Rightarrow> string"
  en_max :: "js_number option"
  en_timeout :: "js_number option"
  en_should_retry :: "(stage_failure \<Rightarrow> bool) option"

record 'v stage_execution =
  sx_result :: "'v stage_result"
  sx_attempts :: nat
  sx_failures :: "stage_failure list"

text \<open>\<open>Exhausted\<close> is the plain Error after the loop, the other carries the failures.\<close>

datatype stage_stop = Exhausted | StageFailed stage_failure "stage_failure list"

text \<open>\<open>Math.max(1, policy.maxAttempts ?? 1)\<close>\<close>

definition max_attempts :: "'v stage_env \<Rightarrow> js_number" where
  "max_attempts env = (case en_max env of None \<Rightarrow> Fin 1 | Some n \<Rightarrow> if n = NaN then NaN else if num_lt n (Fin 1) then Fin 1 else n)"

definition timed :: "'v stage_env \<Rightarrow> bool" where
  "timed env \<longleftrightarrow> (case en_timeout env of None \<Rightarrow> False | Some t \<Rightarrow> num_lt (Fin 0) t)"

text \<open>The \<open>try\<close> of one attempt; with a timeout an attempt that does not settle in time fails.\<close>

definition attempt_result :: "'v stage_env \<Rightarrow> research_state \<Rightarrow> nat \<Rightarrow> (stage_error + 'v stage_result) option" where
  "attempt_result env st n = (if en_aborted env st n then Some (Inl StageCancelled)
     else case en_attempt env st n of
       Finishes r \<Rightarrow> Some (Inr r)
     | Fails e \<Rightarrow> Some (Inl e)
     | NeverSettles \<Rightarrow> if timed env then Some (Inl StageTimeout) else None)"

definition failure_of :: "'v stage_env \<Rightarrow> research_state \<Rightarrow> nat \<Rightarrow> stage_error \<Rightarrow> nat \<Rightarrow> stage_failure" where
  "failure_of env st n e k = (case classifyResearchError e of (code, category, retryable) \<Rightarrow>
     \<lparr>sf_state = st, sf_attempt = n, sf_error = en_sanitize env e, sf_code = code, sf_category = category,
      sf_retryable = retryable, sf_at = en_now env k\<rparr>)"

definition gives_up :: "'v stage_env \<Rightarrow> nat \<Rightarrow> stage_failure \<Rightarrow> bool" where
  "gives_up env n f \<longleftrightarrow> num_le (max_attempts env) (Fin (of_nat n)) \<or> \<not> sf_retryable f
     \<or> \<not> (case en_should_retry env of None \<Rightarrow> True | Some p \<Rightarrow> p f)"

text \<open>The loop, from attempt \<open>n\<close>, with the failures so far and the readings \<open>k\<close> taken of the clock.\<close>

partial_function (option) attempts ::
  "'v stage_env \<Rightarrow> research_state \<Rightarrow> nat \<Rightarrow> stage_failure list \<Rightarrow> nat \<Rightarrow> ((stage_stop + 'v stage_execution) \<times> nat) option" where
  "attempts env st n failures k =
     (if \<not> num_le (Fin (of_nat n)) (max_attempts env) then Some (Inl Exhausted, k)
      else case attempt_result env st n of
        None \<Rightarrow> None
      | Some (Inr r) \<Rightarrow> Some (Inr \<lparr>sx_result = r, sx_attempts = n, sx_failures = failures\<rparr>, k)
      | Some (Inl e) \<Rightarrow>
          if gives_up env n (failure_of env st n e k)
          then Some (Inl (StageFailed (failure_of env st n e k) (failures @ [failure_of env st n e k])), k + 1)
          else attempts env st (n + 1) (failures @ [failure_of env st n e k]) (k + 1))"

definition runResearchStage ::
  "'v stage_env \<Rightarrow> research_state \<Rightarrow> nat \<Rightarrow> ((stage_stop + 'v stage_execution) \<times> nat) option" where
  "runResearchStage env st k = attempts env st 1 [] k"

section \<open>The runtime\<close>

definition canonicalPlan :: "research_state list" where
  "canonicalPlan = [Discovering, Ingesting, Analyzing, Validating, Memorizing, Reporting]"

definition validateStages :: "research_state list \<Rightarrow> research_error + unit" where
  "validateStages stages = throw_if (length stages \<noteq> length canonicalPlan \<or> stages \<noteq> canonicalPlan) (InvalidResearchPlan ''canonical'')"

definition completionEvent :: "research_state \<Rightarrow> research_event" where
  "completionEvent s = (case s of Discovering \<Rightarrow> DiscoveryComplete | Ingesting \<Rightarrow> IngestionComplete
     | Analyzing \<Rightarrow> AnalysisComplete | Validating \<Rightarrow> ValidationComplete | Memorizing \<Rightarrow> MemoryComplete
     | Reporting \<Rightarrow> ReportComplete | _ \<Rightarrow> StartDiscovery)"

record runtime =
  ru_machine :: research_snapshot
  ru_history :: "research_transition list"
  ru_has_run :: bool
  ru_clock :: nat

record 'v research_progress =
  pg_transitions :: "research_transition list"
  pg_executions :: "(research_state \<times> 'v stage_execution) list"
  pg_failures :: "(research_state \<times> stage_failure list) list"

text \<open>\<open>this.record(this.machine.transition(...), transitions)\<close>\<close>

definition record_transition ::
  "research_event \<Rightarrow> string \<Rightarrow> string option \<Rightarrow> runtime \<times> 'v research_progress \<Rightarrow> research_error + runtime \<times> 'v research_progress" where
  "record_transition e now reason x = (let (ru, pg) = x in
     rbind (research_transition e now reason (ru_machine ru)) (\<lambda>(t, s).
     Inr (ru\<lparr>ru_machine := s, ru_history := ru_history ru @ [t]\<rparr>, pg\<lparr>pg_transitions := pg_transitions pg @ [t]\<rparr>)))"

text \<open>The \<open>catch\<close> of a stage: the failures the error carries are kept, and the machine fails.\<close>

definition stage_caught ::
  "'v stage_env \<Rightarrow> research_state \<Rightarrow> stage_failure list \<Rightarrow> runtime \<times> 'v research_progress
   \<Rightarrow> research_error + runtime \<times> 'v research_progress" where
  "stage_caught env st failures x = (let (ru, pg) = x in
     record_transition FailEvent (en_now env (ru_clock ru)) (Some ''failed safely'')
       (ru\<lparr>ru_clock := ru_clock ru + 1\<rparr>, pg\<lparr>pg_failures := pg_failures pg @ [(st, failures)]\<rparr>))"

text \<open>A call that throws keeps what it did to the runtime before.\<close>

definition settled ::
  "runtime \<times> 'v research_progress \<Rightarrow> research_error + runtime \<times> 'v research_progress
   \<Rightarrow> (research_error + 'v research_progress) \<times> runtime" where
  "settled x r = (case r of Inl e \<Rightarrow> (Inl e, fst x) | Inr (ru, pg) \<Rightarrow> (Inr pg, ru))"

primrec run_stages ::
  "'v stage_env \<Rightarrow> research_state list \<Rightarrow> runtime \<times> 'v research_progress
   \<Rightarrow> ((research_error + 'v research_progress) \<times> runtime) option" where
  "run_stages env [] x = Some (settled x (Inr x))"
| "run_stages env (st # sts) x = (let (ru, pg) = x in
     if sn_state (ru_machine ru) \<noteq> st then Some (Inl (InvalidResearchPlan ''order''), ru)
     else case runResearchStage env st (ru_clock ru) of
       None \<Rightarrow> None
     | Some (Inl Exhausted, k) \<Rightarrow> Some (settled x (stage_caught env st [] (ru\<lparr>ru_clock := k\<rparr>, pg)))
     | Some (Inl (StageFailed f failures), k) \<Rightarrow> Some (settled x (stage_caught env st failures (ru\<lparr>ru_clock := k\<rparr>, pg)))
     | Some (Inr execution, k) \<Rightarrow>
         let x' = (ru\<lparr>ru_clock := k\<rparr>, pg\<lparr>pg_executions := pg_executions pg @ [(st, execution)]\<rparr>) in
         (case record_transition (completionEvent st) (sr_completed_at (sx_result execution)) None x' of
            Inl e \<Rightarrow> Some (settled x' (stage_caught env st [] x'))
          | Inr x'' \<Rightarrow> run_stages env sts x''))"

definition run_research ::
  "'v stage_env \<Rightarrow> research_state list \<Rightarrow> runtime \<Rightarrow> ((research_error + 'v research_progress) \<times> runtime) option" where
  "run_research env stages ru =
     (if ru_has_run ru then Some (Inl RuntimeReused, ru)
      else let ru' = ru\<lparr>ru_has_run := True\<rparr> in
        case validateStages stages of
          Inl e \<Rightarrow> Some (Inl e, ru')
        | Inr _ \<Rightarrow>
            if sn_state (ru_machine ru) \<noteq> RCreated then Some (Inl (InvalidResearchPlan ''created''), ru')
            else let x = (ru'\<lparr>ru_clock := ru_clock ru + 1\<rparr>, \<lparr>pg_transitions = [], pg_executions = [], pg_failures = []\<rparr>) in
              (case record_transition StartDiscovery (en_now env (ru_clock ru)) None x of
                Inl e \<Rightarrow> Some (Inl e, fst x)
              | Inr x' \<Rightarrow> run_stages env stages x'))"

section \<open>Tools\<close>

text \<open>
  The tools of a stage in order: the first that returns gives the stage's value, a retryable error passes on
  to the next, any other error ends the attempt.
\<close>

record 'v hermes_tool =
  ht_name :: string
  ht_stages :: "research_state list"
  ht_execute :: "nat \<Rightarrow> (stage_error + 'v) option"

record 'v tool_value =
  tl_value :: 'v
  tl_tool :: string
  tl_index :: nat

definition retryable_error :: "stage_error \<Rightarrow> bool" where
  "retryable_error e \<longleftrightarrow> (case e of StageTimeout \<Rightarrow> True | RetryableError _ _ \<Rightarrow> True | _ \<Rightarrow> False)"

primrec try_tools :: "nat \<Rightarrow> 'v hermes_tool list \<Rightarrow> nat \<Rightarrow> stage_error option \<Rightarrow> (stage_error + 'v tool_value) option" where
  "try_tools i [] n previous = Some (Inl (case previous of Some e \<Rightarrow> e | None \<Rightarrow> RetryableError ''All Hermes tools failed'' ''ALL_TOOLS_FAILED''))"
| "try_tools i (t # ts) n previous = (case ht_execute t n of
     None \<Rightarrow> None
   | Some (Inr v) \<Rightarrow> Some (Inr \<lparr>tl_value = v, tl_tool = ht_name t, tl_index = i\<rparr>)
   | Some (Inl e) \<Rightarrow> if retryable_error e then try_tools (i + 1) ts n (Some e) else Some (Inl e))"

definition tool_stage :: "string \<Rightarrow> 'v hermes_tool list \<Rightarrow> research_state \<Rightarrow> nat \<Rightarrow> 'v tool_value attempt" where
  "tool_stage now tools st n = (let supported = filter (\<lambda>t. st \<in> set (ht_stages t)) tools in
     if supported = [] then Fails (NonRetryableError ''No Hermes tool supports stage'' ''NO_SUPPORTED_TOOL'')
     else case try_tools 0 supported n None of
       None \<Rightarrow> NeverSettles
     | Some (Inl e) \<Rightarrow> Fails e
     | Some (Inr v) \<Rightarrow> Finishes \<lparr>sr_value = v, sr_completed_at = now\<rparr>)"

section \<open>What a stage leaves behind\<close>

text \<open>The largest number of attempts: \<open>maxAttempts\<close> rounded down, and at least one.\<close>

definition attempt_bound :: "'v stage_env \<Rightarrow> nat" where
  "attempt_bound env = (case max_attempts env of Fin r \<Rightarrow> nat \<lfloor>r\<rfloor> | _ \<Rightarrow> 0)"

lemma max_attempts_cases:
  obtains r where "max_attempts env = Fin r" "1 \<le> r" | "max_attempts env = NaN" | "max_attempts env = PosInf"
proof (cases "en_max env")
  case None
  then show ?thesis using that(1)[of 1] by (simp add: max_attempts_def)
next
  case (Some n)
  show ?thesis
  proof (cases n)
    case (Fin x)
    then show ?thesis using that(1)[of "max 1 x"] Some by (simp add: max_attempts_def max_def not_le)
  qed (use Some that in \<open>simp_all add: max_attempts_def\<close>)
qed

lemma attempt_in_bound:
  assumes "max_attempts env \<noteq> PosInf" and "num_le (Fin (of_nat n)) (max_attempts env)"
  shows "n \<le> attempt_bound env"
  using assms by (cases env rule: max_attempts_cases) (auto simp: attempt_bound_def le_nat_iff le_floor_iff)

lemma attempts_return:
  assumes "max_attempts env \<noteq> PosInf" and "\<And>m. n \<le> m \<Longrightarrow> m \<le> attempt_bound env \<Longrightarrow> attempt_result env st m \<noteq> None"
  shows "\<exists>r. attempts env st n failures k = Some r"
  using assms(2)
proof (induction "Suc (attempt_bound env) - n" arbitrary: n failures k)
  case 0
  then have "\<not> num_le (Fin (of_nat n)) (max_attempts env)" using attempt_in_bound[OF assms(1), of n] by linarith
  then show ?case by (simp add: attempts.simps)
next
  case (Suc d)
  have IH: "\<exists>r. attempts env st (n + 1) fs k' = Some r" for fs k'
    using Suc.hyps(2) Suc.prems by (intro Suc.hyps(1)) auto
  show ?case
  proof (cases "num_le (Fin (of_nat n)) (max_attempts env)")
    case True
    then have "n \<le> attempt_bound env" by (rule attempt_in_bound[OF assms(1)])
    then obtain r where "attempt_result env st n = Some r" using Suc.prems[of n] by auto
    then show ?thesis using IH by (cases r) (auto simp: attempts.simps[of env st n])
  qed (simp add: attempts.simps)
qed

text \<open>The failures of a stage are numbered in order, and all but the last could be retried.\<close>

definition failures_ok :: "'v stage_env \<Rightarrow> research_state \<Rightarrow> nat \<Rightarrow> stage_failure list \<Rightarrow> bool" where
  "failures_ok env st n fs \<longleftrightarrow> 1 \<le> n \<and> map sf_attempt fs = [1..<n] \<and> (\<forall>f\<in>set fs. sf_state f = st \<and> \<not> gives_up env (sf_attempt f) f)"

definition stage_outcome :: "'v stage_env \<Rightarrow> research_state \<Rightarrow> stage_stop + 'v stage_execution \<Rightarrow> bool" where
  "stage_outcome env st out \<longleftrightarrow> (case out of
     Inr x \<Rightarrow> failures_ok env st (sx_attempts x) (sx_failures x) \<and> num_le (Fin (of_nat (sx_attempts x))) (max_attempts env)
       \<and> en_attempt env st (sx_attempts x) = Finishes (sx_result x)
   | Inl (StageFailed f fs) \<Rightarrow> fs \<noteq> [] \<and> f = last fs \<and> failures_ok env st (sf_attempt f) (butlast fs)
       \<and> num_le (Fin (of_nat (sf_attempt f))) (max_attempts env) \<and> gives_up env (sf_attempt f) f
   | Inl Exhausted \<Rightarrow> \<not> is_integer_num (max_attempts env))"

lemma failure_of_fields [simp]: "sf_attempt (failure_of env st n e k) = n" "sf_state (failure_of env st n e k) = st"
  by (simp_all add: failure_of_def split: prod.split)

lemma attempt_result_Inr: "attempt_result env st n = Some (Inr r) \<Longrightarrow> en_attempt env st n = Finishes r"
  by (auto simp: attempt_result_def split: if_splits attempt.splits)

lemma failures_ok_snoc:
  "failures_ok env st n fs \<Longrightarrow> 1 \<le> n \<Longrightarrow> sf_attempt f = n \<Longrightarrow> sf_state f = st \<Longrightarrow> \<not> gives_up env n f
   \<Longrightarrow> failures_ok env st (n + 1) (fs @ [f])"
  by (auto simp: failures_ok_def)

lemma fraction_not_integer: "(of_nat n - 1 :: rat) < r \<Longrightarrow> r < of_nat n \<Longrightarrow> \<not> is_integer_num (Fin r)"
proof
  assume r: "of_nat n - 1 < r" "r < of_nat n" and "is_integer_num (Fin r)"
  then have i: "of_int \<lfloor>r\<rfloor> = r" by (simp add: is_integer_num_def)
  have "int n - 1 < \<lfloor>r\<rfloor>" "\<lfloor>r\<rfloor> < int n" using r i by (metis of_int_diff of_int_less_iff of_int_of_nat_eq of_int_1)+
  then show False by simp
qed

lemma stage_outcome:
  assumes "runResearchStage env st k = Some (out, k')"
  shows "stage_outcome env st out"
proof -
  have "attempts env st n failures k = Some r \<Longrightarrow> failures_ok env st n failures \<longrightarrow> 1 \<le> n \<longrightarrow>
      n = 1 \<or> \<not> num_le (max_attempts env) (Fin (of_nat n - 1)) \<longrightarrow> stage_outcome env st (fst r)" for n failures k r
  proof (induction rule: attempts.raw_induct[rotated, consumes 1, case_names attempt])
    case (attempt rec env st n failures k r)
    show ?case
    proof (cases "num_le (Fin (of_nat n)) (max_attempts env)")
      case False
      have "\<not> is_integer_num (max_attempts env)" if "1 \<le> n" "n = 1 \<or> \<not> num_le (max_attempts env) (Fin (of_nat n - 1))"
      proof (cases env rule: max_attempts_cases)
        case (1 r)
        then show ?thesis using False that using fraction_not_integer[of n r] by (auto simp: not_le)
      next
        case 2
        then show ?thesis by (simp add: is_integer_num_def)
      next
        case 3
        then show ?thesis using False by (simp add: num_le_def)
      qed
      then have "1 \<le> n \<longrightarrow> n = 1 \<or> \<not> num_le (max_attempts env) (Fin (of_nat n - 1)) \<longrightarrow> stage_outcome env st (Inl Exhausted)"
        by (simp add: stage_outcome_def)
      then show ?thesis using False attempt(2) by auto
    next
      case True
      then obtain a where a: "attempt_result env st n = Some a" using attempt(2) by (auto split: option.splits)
      let ?f = "\<lambda>e. failure_of env st n e k"
      show ?thesis
      proof (cases a)
        case (Inr x)
        then show ?thesis using True a attempt(2) by (auto simp: stage_outcome_def attempt_result_Inr)
      next
        case (Inl e)
        show ?thesis
        proof (cases "gives_up env n (?f e)")
          case True
          then show ?thesis using \<open>num_le (Fin (of_nat n)) _\<close> a Inl attempt(2) by (auto simp: stage_outcome_def)
        next
          case False
          then have "rec env st (n + 1) (failures @ [?f e]) (k + 1) = Some r"
            using \<open>num_le (Fin (of_nat n)) _\<close> a Inl attempt(2) by auto
          note IH = attempt(1)[OF this]
          show ?thesis
            using IH failures_ok_snoc[OF _ _ _ _ False] False by (auto simp: gives_up_def)
        qed
      qed
    qed
  qed
  from this[of 1 "[]" k "(out, k')"] assms show ?thesis by (simp add: runResearchStage_def failures_ok_def)
qed

section \<open>Runs\<close>

text \<open>The states of a case that goes well, after \<open>created\<close>.\<close>

definition lifecycle :: "research_state list" where
  "lifecycle = canonicalPlan @ [RCompleted]"

lemma canonicalPlan_length [simp]: "length canonicalPlan = 6"
  by (simp add: canonicalPlan_def)

lemma stage_cases: "i < 6 \<longleftrightarrow> i = 0 \<or> i = 1 \<or> i = 2 \<or> i = 3 \<or> i = 4 \<or> i = (5::nat)"
  by linarith

lemma stage_transitions:
  assumes "i < 6"
  shows "map_of (research_transitions (canonicalPlan ! i)) (completionEvent (canonicalPlan ! i)) = Some (lifecycle ! Suc i)"
    and "map_of (research_transitions (canonicalPlan ! i)) FailEvent = Some RFailed"
  using assms unfolding stage_cases by (elim disjE; simp add: lifecycle_def canonicalPlan_def research_transitions_def completionEvent_def)+

lemma lifecycle_nth: "i < 6 \<Longrightarrow> lifecycle ! i = canonicalPlan ! i"
  unfolding stage_cases by (elim disjE) (simp_all add: lifecycle_def canonicalPlan_def)

lemma take_lifecycle: "i < 7 \<Longrightarrow> take (Suc i) lifecycle = take i lifecycle @ [lifecycle ! i]"
  by (rule take_Suc_conv_app_nth) (simp add: lifecycle_def canonicalPlan_def)

lemma take_canonical: "i < 6 \<Longrightarrow> take (Suc i) canonicalPlan = take i canonicalPlan @ [canonicalPlan ! i]"
  by (rule take_Suc_conv_app_nth) (simp add: canonicalPlan_def)

text \<open>What the machine, the history and the transitions of a run have to do with each other.\<close>

definition tracks :: "string \<Rightarrow> research_transition list \<Rightarrow> runtime \<times> 'v research_progress \<Rightarrow> bool" where
  "tracks c h x \<longleftrightarrow> (let (ru, pg) = x in
     ru_history ru = h @ pg_transitions pg \<and> sn_case (ru_machine ru) = c \<and> ru_has_run ru
     \<and> (\<forall>t\<in>set (pg_transitions pg). rt_case t = c)
     \<and> (pg_transitions pg \<noteq> [] \<longrightarrow> sn_state (ru_machine ru) = rt_to (last (pg_transitions pg))
         \<and> sn_updated (ru_machine ru) = rt_at (last (pg_transitions pg))))"

lemma record_transition_Inr:
  assumes "map_of (research_transitions (sn_state (ru_machine ru))) e = Some to"
  obtains t s where "record_transition e now reason (ru, pg)
      = Inr (ru\<lparr>ru_machine := s, ru_history := ru_history ru @ [t]\<rparr>, pg\<lparr>pg_transitions := pg_transitions pg @ [t]\<rparr>)"
    and "rt_case t = sn_case (ru_machine ru)" "rt_to t = to" "rt_at t = now"
    and "s = \<lparr>sn_case = sn_case (ru_machine ru), sn_state = to, sn_updated = now\<rparr>"
  using assms by (simp add: record_transition_def research_transition_def)

lemma tracks_record:
  assumes "tracks c h (ru, pg)" and "map_of (research_transitions (sn_state (ru_machine ru))) e = Some to"
  obtains ru' pg' where "record_transition e now reason (ru, pg) = Inr (ru', pg')" and "tracks c h (ru', pg')"
    and "map rt_to (pg_transitions pg') = map rt_to (pg_transitions pg) @ [to]" "sn_state (ru_machine ru') = to"
    and "pg_executions pg' = pg_executions pg" "pg_failures pg' = pg_failures pg"
proof (rule record_transition_Inr[OF assms(2), of now reason pg])
  fix t s
  assume "record_transition e now reason (ru, pg)
      = Inr (ru\<lparr>ru_machine := s, ru_history := ru_history ru @ [t]\<rparr>, pg\<lparr>pg_transitions := pg_transitions pg @ [t]\<rparr>)"
    and "rt_case t = sn_case (ru_machine ru)" "rt_to t = to" "rt_at t = now"
    and "s = \<lparr>sn_case = sn_case (ru_machine ru), sn_state = to, sn_updated = now\<rparr>"
  then show thesis using assms(1)
    by (intro that[of "ru\<lparr>ru_machine := s, ru_history := ru_history ru @ [t]\<rparr>"
          "pg\<lparr>pg_transitions := pg_transitions pg @ [t]\<rparr>"]) (auto simp: tracks_def)
qed

text \<open>Every execution and every failure on record is what its stage came to.\<close>

definition stage_records :: "'v stage_env \<Rightarrow> 'v research_progress \<Rightarrow> bool" where
  "stage_records env pg \<longleftrightarrow> (\<forall>(st, x)\<in>set (pg_executions pg). stage_outcome env st (Inr x))
     \<and> (\<forall>(st, fs)\<in>set (pg_failures pg). fs = [] \<or> stage_outcome env st (Inl (StageFailed (last fs) fs)))"

text \<open>A run that stopped after \<open>i\<close> stages: all six done, or the next one failed and none after it was run.\<close>

definition stopped_after :: "'v stage_env \<Rightarrow> nat \<Rightarrow> 'v research_progress \<Rightarrow> bool" where
  "stopped_after env i pg \<longleftrightarrow> i \<le> 6 \<and> stage_records env pg
     \<and> map rt_to (pg_transitions pg) = take (Suc i) lifecycle @ (if i < 6 then [RFailed] else [])
     \<and> map fst (pg_executions pg) = take i canonicalPlan
     \<and> map fst (pg_failures pg) = (if i < 6 then [canonicalPlan ! i] else [])"

definition underway :: "'v stage_env \<Rightarrow> nat \<Rightarrow> runtime \<times> 'v research_progress \<Rightarrow> bool" where
  "underway env i x \<longleftrightarrow> (let (ru, pg) = x in stage_records env pg \<and> i \<le> 6 \<and> sn_state (ru_machine ru) = lifecycle ! i
     \<and> map rt_to (pg_transitions pg) = take (Suc i) lifecycle
     \<and> map fst (pg_executions pg) = take i canonicalPlan \<and> pg_failures pg = [])"

lemma tracks_clock [simp]: "tracks c h (ru\<lparr>ru_clock := k\<rparr>, pg) = tracks c h (ru, pg)"
  "tracks c h (ru, pg\<lparr>pg_failures := fs\<rparr>) = tracks c h (ru, pg)"
  "tracks c h (ru, pg\<lparr>pg_executions := xs\<rparr>) = tracks c h (ru, pg)"
  by (simp_all add: tracks_def)

lemma stage_caught_stops:
  assumes "underway env i (ru, pg)" "i < 6" "tracks c h (ru, pg)"
    and "fs = [] \<or> stage_outcome env (canonicalPlan ! i) (Inl (StageFailed (last fs) fs))"
  obtains ru' pg' where "settled y (stage_caught env (canonicalPlan ! i) fs (ru\<lparr>ru_clock := k\<rparr>, pg)) = (Inr pg', ru')"
    and "stopped_after env i pg'" "tracks c h (ru', pg')"
proof -
  have m: "map_of (research_transitions (sn_state (ru_machine ru))) FailEvent = Some RFailed"
    using assms(1,2) by (simp add: underway_def lifecycle_nth stage_transitions)
  let ?ru = "ru\<lparr>ru_clock := k + 1\<rparr>" and ?pg = "pg\<lparr>pg_failures := pg_failures pg @ [(canonicalPlan ! i, fs)]\<rparr>"
  have t: "tracks c h (?ru, ?pg)" and m': "map_of (research_transitions (sn_state (ru_machine ?ru))) FailEvent = Some RFailed"
    using assms(3) m by simp_all
  obtain ru' pg' where "record_transition FailEvent (en_now env k) (Some ''failed safely'') (?ru, ?pg) = Inr (ru', pg')"
    "tracks c h (ru', pg')" "map rt_to (pg_transitions pg') = map rt_to (pg_transitions ?pg) @ [RFailed]"
    "pg_executions pg' = pg_executions ?pg" "pg_failures pg' = pg_failures ?pg"
    by (rule tracks_record[OF t m'])
  with assms(1,2,4) show thesis
    by (intro that[of pg' ru']) (auto simp: stage_caught_def settled_def stopped_after_def underway_def stage_records_def)
qed

lemma stage_done_goes_on:
  assumes "underway env i (ru, pg)" "i < 6" "tracks c h (ru, pg)" and "stage_outcome env (canonicalPlan ! i) (Inr ex)"
  obtains x'' where "record_transition (completionEvent (canonicalPlan ! i)) now reason
      (ru\<lparr>ru_clock := k\<rparr>, pg\<lparr>pg_executions := pg_executions pg @ [(canonicalPlan ! i, ex)]\<rparr>) = Inr x''"
    and "underway env (Suc i) x''" "tracks c h x''"
proof -
  have m: "map_of (research_transitions (sn_state (ru_machine ru))) (completionEvent (canonicalPlan ! i)) = Some (lifecycle ! Suc i)"
    using assms(1,2) by (simp add: underway_def lifecycle_nth stage_transitions)
  let ?ru = "ru\<lparr>ru_clock := k\<rparr>" and ?pg = "pg\<lparr>pg_executions := pg_executions pg @ [(canonicalPlan ! i, ex)]\<rparr>"
  have t: "tracks c h (?ru, ?pg)" and m': "map_of (research_transitions (sn_state (ru_machine ?ru)))
      (completionEvent (canonicalPlan ! i)) = Some (lifecycle ! Suc i)"
    using assms(3) m by simp_all
  obtain ru' pg' where "record_transition (completionEvent (canonicalPlan ! i)) now reason (?ru, ?pg) = Inr (ru', pg')"
    "tracks c h (ru', pg')" "map rt_to (pg_transitions pg') = map rt_to (pg_transitions ?pg) @ [lifecycle ! Suc i]"
    "sn_state (ru_machine ru') = lifecycle ! Suc i"
    "pg_executions pg' = pg_executions ?pg" "pg_failures pg' = pg_failures ?pg"
    by (rule tracks_record[OF t m'])
  with assms(1,2,4) show thesis
    by (intro that[of "(ru', pg')"]) (auto simp: underway_def take_lifecycle take_canonical stage_records_def)
qed

lemma run_stages_course:
  assumes "underway env i x" "tracks c h x" "stages = drop i canonicalPlan" "run_stages env stages x = Some res"
  shows "\<exists>j pg' ru'. res = (Inr pg', ru') \<and> stopped_after env j pg' \<and> tracks c h (ru', pg')"
  using assms
proof (induction stages arbitrary: i x)
  case Nil
  then have "i = 6" by (auto simp: canonicalPlan_def underway_def)
  with Nil show ?case by (cases x) (auto simp: settled_def underway_def stopped_after_def intro!: exI[of _ 6])
next
  case (Cons st sts)
  obtain ru pg where x: "x = (ru, pg)" by (cases x)
  have i: "i < 6" using Cons.prems(3) by (cases "i < 6") (auto simp: canonicalPlan_def)
  then have st: "st = canonicalPlan ! i" "sts = drop (Suc i) canonicalPlan"
    using Cons.prems(3) Cons_nth_drop_Suc[of i canonicalPlan] by (metis list.inject canonicalPlan_length)+
  have cur: "sn_state (ru_machine ru) = st" using Cons.prems(1) i by (simp add: underway_def x st lifecycle_nth)
  note u = Cons.prems(1,2)[unfolded x]
  note run = Cons.prems(4)[unfolded x, simplified, simplified cur]
  show ?case
  proof (cases "runResearchStage env st (ru_clock ru)")
    case None
    then show ?thesis using run by simp
  next
    case (Some r)
    obtain out k where r: "r = (out, k)" by (cases r)
    have out: "stage_outcome env st out" using Some r stage_outcome by blast
    show ?thesis
    proof (cases out)
      case (Inl stop)
      obtain fs where "res = settled (ru, pg) (stage_caught env st fs (ru\<lparr>ru_clock := k\<rparr>, pg))"
        and "fs = [] \<or> stage_outcome env st (Inl (StageFailed (last fs) fs))"
      proof (cases stop)
        case Exhausted
        then show thesis using that[of "[]"] run Some r Inl by simp
      next
        case (StageFailed f fs)
        then show thesis using that[of fs] run Some r Inl out by (auto simp: stage_outcome_def)
      qed
      then show ?thesis using stage_caught_stops[OF u(1) i u(2)] st(1) by metis
    next
      case (Inr ex)
      obtain x'' where "record_transition (completionEvent st) (sr_completed_at (sx_result ex)) None
          (ru\<lparr>ru_clock := k\<rparr>, pg\<lparr>pg_executions := pg_executions pg @ [(st, ex)]\<rparr>) = Inr x''"
        "underway env (Suc i) x''" "tracks c h x''"
        using stage_done_goes_on[OF u(1) i u(2)] st(1) out Inr by metis
      moreover from this run Some r Inr have "run_stages env sts x'' = Some res" by simp
      ultimately show ?thesis using Cons.IH st(2) by blast
    qed
  qed
qed

definition run_ready :: "runtime \<Rightarrow> bool" where
  "run_ready ru \<longleftrightarrow> \<not> ru_has_run ru \<and> sn_state (ru_machine ru) = RCreated"

lemma validateStages_canonical [simp]: "validateStages canonicalPlan = Inr ()"
  by (simp add: validateStages_def)

lemma run_course:
  fixes env :: "'v stage_env"
  assumes "run_ready ru" "run_research env canonicalPlan ru = Some (res, ru')"
  obtains j pg where "res = Inr pg" "stopped_after env j pg"
    "tracks (sn_case (ru_machine ru)) (ru_history ru) (ru', pg)"
proof -
  let ?ru = "ru\<lparr>ru_has_run := True, ru_clock := ru_clock ru + 1\<rparr>"
  let ?pg = "\<lparr>pg_transitions = [], pg_executions = [], pg_failures = []\<rparr> :: 'v research_progress"
  have t: "tracks (sn_case (ru_machine ru)) (ru_history ru) (?ru, ?pg)"
    and m: "map_of (research_transitions (sn_state (ru_machine ?ru))) StartDiscovery = Some Discovering"
    using assms(1) by (simp_all add: tracks_def run_ready_def research_transitions_def)
  obtain ru1 pg1 where r: "record_transition StartDiscovery (en_now env (ru_clock ru)) None (?ru, ?pg) = Inr (ru1, pg1)"
    and t: "tracks (sn_case (ru_machine ru)) (ru_history ru) (ru1, pg1)"
    and f: "map rt_to (pg_transitions pg1) = map rt_to (pg_transitions ?pg) @ [Discovering]"
      "sn_state (ru_machine ru1) = Discovering" "pg_executions pg1 = pg_executions ?pg" "pg_failures pg1 = pg_failures ?pg"
    by (rule tracks_record[OF t m])
  have "underway env 0 (ru1, pg1)" using f by (simp add: underway_def stage_records_def lifecycle_def canonicalPlan_def)
  moreover have "run_stages env canonicalPlan (ru1, pg1) = Some (res, ru')"
    using assms r by (simp add: run_research_def run_ready_def Let_def)
  ultimately show thesis using run_stages_course[OF _ t] that by fastforce
qed

lemma run_stages_return:
  assumes "\<And>st k. \<exists>r. runResearchStage env st k = Some r"
  shows "\<exists>r. run_stages env sts x = Some r"
proof (induction sts arbitrary: x)
  case (Cons st sts)
  obtain ru pg where x: "x = (ru, pg)" by (cases x)
  obtain out k where "runResearchStage env st (ru_clock ru) = Some (out, k)" using assms by (metis surj_pair)
  then show ?case using Cons.IH unfolding x by (cases out rule: sum.exhaust) (auto simp: Let_def split: stage_stop.split sum.split)
qed simp

definition stages_settle :: "'v stage_env \<Rightarrow> bool" where
  "stages_settle env \<longleftrightarrow> timed env \<or> (\<forall>st n. en_attempt env st n \<noteq> NeverSettles)"

lemma run_research_return:
  assumes "en_max env \<noteq> Some PosInf" "stages_settle env"
  shows "\<exists>r. run_research env stages ru = Some r"
proof -
  have "max_attempts env \<noteq> PosInf" using assms(1) by (cases env rule: max_attempts_cases) (auto simp: max_attempts_def split: option.splits if_splits)
  moreover have "attempt_result env st n \<noteq> None" for st n
    using assms(2) by (auto simp: attempt_result_def stages_settle_def split: attempt.split)
  ultimately have "\<exists>r. runResearchStage env st k = Some r" for st k
    unfolding runResearchStage_def by (rule attempts_return)
  from run_stages_return[OF this] show ?thesis by (auto simp: run_research_def Let_def split: sum.split)
qed

lemma outcome_in_bound:
  assumes "max_attempts env \<noteq> PosInf"
  shows "stage_outcome env st (Inr x) \<Longrightarrow> sx_attempts x \<le> attempt_bound env"
    and "stage_outcome env st (Inl (StageFailed f fs)) \<Longrightarrow> length fs \<le> attempt_bound env"
proof -
  show "stage_outcome env st (Inr x) \<Longrightarrow> sx_attempts x \<le> attempt_bound env"
    using attempt_in_bound[OF assms] by (simp add: stage_outcome_def)
  assume o: "stage_outcome env st (Inl (StageFailed f fs))"
  then have "sf_attempt f \<le> attempt_bound env" "1 \<le> sf_attempt f"
    using attempt_in_bound[OF assms] by (auto simp: stage_outcome_def failures_ok_def)
  moreover have "map sf_attempt (butlast fs) = [1..<sf_attempt f]" "fs \<noteq> []"
    using o by (simp_all add: stage_outcome_def failures_ok_def)
  from arg_cong[OF this(1), of length] this(2) have "length fs - 1 = sf_attempt f - 1" "0 < length fs" by simp_all
  ultimately show "length fs \<le> attempt_bound env" by linarith
qed

section \<open>Properties\<close>

text \<open>
  C26. Every run of the research runtime returns, when \<open>maxAttempts\<close> is not infinite and either a timeout is set or
  every attempt settles by itself; no stage is attempted more than \<open>max(1, maxAttempts)\<close> times, rounded down, and
  no more failures than that are recorded of it. The one exception to the bound is NaN, under which no stage is
  attempted at all (the bound is then 0).
\<close>

theorem research_run_ends:
  assumes "en_max env \<noteq> Some PosInf" and "stages_settle env" and "run_ready ru"
  shows "\<exists>pg ru'. run_research env canonicalPlan ru = Some (Inr pg, ru')
    \<and> (\<forall>(st, x)\<in>set (pg_executions pg). sx_attempts x \<le> attempt_bound env)
    \<and> (\<forall>(st, fs)\<in>set (pg_failures pg). length fs \<le> attempt_bound env)"
proof -
  obtain res ru' where run: "run_research env canonicalPlan ru = Some (res, ru')"
    using run_research_return[OF assms(1,2)] by (metis surj_pair)
  then obtain j pg where pg: "res = Inr pg" "stopped_after env j pg" by (rule run_course[OF assms(3)])
  have "max_attempts env \<noteq> PosInf"
    using assms(1) by (cases env rule: max_attempts_cases) (auto simp: max_attempts_def split: option.splits if_splits)
  note b = outcome_in_bound[OF this]
  have "sx_attempts x \<le> attempt_bound env" if "(st, x) \<in> set (pg_executions pg)" for st x
    using that pg(2) b(1) by (auto simp: stopped_after_def stage_records_def)
  moreover have "length fs \<le> attempt_bound env" if "(st, fs) \<in> set (pg_failures pg)" for st fs
    using that pg(2) b(2) by (force simp: stopped_after_def stage_records_def)
  ultimately show ?thesis using run pg(1) by blast
qed

text \<open>A case whose tools always answer, and one whose analysis always fails.\<close>

definition example_env :: "(research_state \<Rightarrow> nat \<Rightarrow> string attempt) \<Rightarrow> string stage_env" where
  "example_env run = \<lparr>en_attempt = run, en_aborted = (\<lambda>_ _. False), en_sanitize = (\<lambda>_. ''error''), en_now = (\<lambda>_. ''now''),
     en_max = Some (Fin 2), en_timeout = None, en_should_retry = None\<rparr>"

definition answers :: "research_state \<Rightarrow> nat \<Rightarrow> string attempt" where
  "answers st n = Finishes \<lparr>sr_value = ''value'', sr_completed_at = ''later''\<rparr>"

definition analysis_fails :: "research_state \<Rightarrow> nat \<Rightarrow> string attempt" where
  "analysis_fails st n = (if st = Analyzing then Fails (RetryableError ''busy'' ''RETRYABLE_ERROR'') else answers st n)"

definition example_runtime :: runtime where
  "example_runtime = \<lparr>ru_machine = \<lparr>sn_case = ''case-1'', sn_state = RCreated, sn_updated = ''t0''\<rparr>, ru_history = [],
     ru_has_run = False, ru_clock = 0\<rparr>"

lemma example_ready [simp]: "run_ready example_runtime"
  by (simp add: run_ready_def example_runtime_def)

lemma example_max [simp]: "en_max (example_env run) \<noteq> Some PosInf"
  by (simp add: example_env_def)

lemma example_settles [simp]: "stages_settle (example_env answers)" "stages_settle (example_env analysis_fails)"
  by (auto simp: stages_settle_def example_env_def answers_def analysis_fails_def)

theorem research_run_ends_witness:
  "\<exists>pg ru'. run_research (example_env analysis_fails) canonicalPlan example_runtime = Some (Inr pg, ru')"
  using research_run_ends[OF example_max example_settles(2) example_ready] by blast


lemma example_stage:
  "st \<noteq> Analyzing \<Longrightarrow> runResearchStage (example_env analysis_fails) st k
     = Some (Inr \<lparr>sx_result = \<lparr>sr_value = ''value'', sr_completed_at = ''later''\<rparr>, sx_attempts = 1, sx_failures = []\<rparr>, k)"
  "\<exists>f fs. runResearchStage (example_env analysis_fails) Analyzing k = Some (Inl (StageFailed f fs), k + 2)"
  by (simp_all add: runResearchStage_def attempts.simps[of _ _ "Suc 0"] attempts.simps[of _ _ "Suc (Suc 0)"]
      example_env_def max_attempts_def attempt_result_def analysis_fails_def answers_def gives_up_def failure_of_def classifyResearchError_def)

lemma example_run:
  obtains pg ru' where "run_research (example_env analysis_fails) canonicalPlan example_runtime = Some (Inr pg, ru')"
    and "sn_state (ru_machine ru') = RFailed" "length (pg_transitions pg) = 4"
proof -
  obtain f fs where a: "runResearchStage (example_env analysis_fails) Analyzing (Suc 0) = Some (Inl (StageFailed f fs), 3)"
    using example_stage(2)[of "Suc 0"] by (auto simp: numeral_3_eq_3)
  show thesis
    by (rule that, simp add: run_research_def example_runtime_def canonicalPlan_def validateStages_def Let_def
        record_transition_def research_transition_def research_transitions_def example_stage(1) a completionEvent_def
        settled_def stage_caught_def, simp_all)
qed




text \<open>
  A case that failed can be retried: \<open>retry\<close> takes its machine back to discovering. But no runtime will run it
  again, whatever the plan, the policy and the history: a run must start in created, and no event leads there.
\<close>

theorem retried_case_never_runs:
  assumes "sn_state m = RFailed"
  shows "\<exists>t s. research_transition RetryEvent now reason m = Inr (t, s) \<and> sn_state s = Discovering
    \<and> (\<exists>e. run_research env stages \<lparr>ru_machine = s, ru_history = h, ru_has_run = False, ru_clock = k\<rparr>
        = Some (Inl e, \<lparr>ru_machine = s, ru_history = h, ru_has_run = True, ru_clock = k\<rparr>))
    \<and> RCreated \<notin> snd ` set (research_transitions st)"
proof -
  let ?s = "\<lparr>sn_case = sn_case m, sn_state = Discovering, sn_updated = now\<rparr>"
  have "\<exists>t. research_transition RetryEvent now reason m = Inr (t, ?s)"
    using assms by (simp add: research_transition_def research_transitions_def)
  moreover have "\<exists>e. run_research env stages \<lparr>ru_machine = ?s, ru_history = h, ru_has_run = False, ru_clock = k\<rparr>
      = Some (Inl e, \<lparr>ru_machine = ?s, ru_history = h, ru_has_run = True, ru_clock = k\<rparr>)"
    by (cases "validateStages stages") (simp_all add: run_research_def Let_def)
  moreover have "RCreated \<notin> snd ` set (research_transitions st)" by (cases st) (simp_all add: research_transitions_def)
  ultimately show ?thesis by (metis research_snapshot.select_convs(2))
qed

theorem retried_case_never_runs_witness:
  "\<exists>pg ru' t s. run_research (example_env analysis_fails) canonicalPlan example_runtime = Some (Inr pg, ru')
    \<and> research_transition RetryEvent ''t1'' None (ru_machine ru') = Inr (t, s) \<and> sn_state s = Discovering
    \<and> (\<exists>e. run_research (example_env answers) canonicalPlan \<lparr>ru_machine = s, ru_history = [], ru_has_run = False, ru_clock = 0\<rparr>
        = Some (Inl e, \<lparr>ru_machine = s, ru_history = [], ru_has_run = True, ru_clock = 0\<rparr>))"
proof (rule example_run)
  fix pg ru'
  assume run: "run_research (example_env analysis_fails) canonicalPlan example_runtime = Some (Inr pg, ru')"
    and f: "sn_state (ru_machine ru') = RFailed"
  from retried_case_never_runs[OF f] run show ?thesis by blast
qed

section \<open>Tools of a stage\<close>

definition passes_on :: "nat \<Rightarrow> 'v hermes_tool \<Rightarrow> bool" where
  "passes_on n t \<longleftrightarrow> (case ht_execute t n of Some (Inl e) \<Rightarrow> retryable_error e | _ \<Rightarrow> False)"

lemma passes_onE:
  assumes "passes_on n t"
  obtains e where "ht_execute t n = Some (Inl e)" "retryable_error e"
  using assms by (auto simp: passes_on_def split: option.splits sum.splits)

lemma try_tools_all_pass:
  "list_all (passes_on n) ts \<Longrightarrow> ts \<noteq> [] \<Longrightarrow> \<exists>e. ht_execute (last ts) n = Some (Inl e) \<and> try_tools i ts n previous = Some (Inl e)"
proof (induction ts arbitrary: i previous)
  case (Cons t ts)
  from Cons.prems obtain e where "ht_execute t n = Some (Inl e)" "retryable_error e" by (auto elim: passes_onE)
  with Cons show ?case by (cases ts) auto
qed simp

lemma try_tools_first:
  "list_all (passes_on n) us \<Longrightarrow> \<not> passes_on n t \<Longrightarrow>
    try_tools i (us @ t # vs) n previous = map_option (map_sum id (\<lambda>v. \<lparr>tl_value = v, tl_tool = ht_name t, tl_index = i + length us\<rparr>))
      (ht_execute t n)"
proof (induction us arbitrary: i previous)
  case Nil
  then show ?case by (auto simp: passes_on_def split: option.splits sum.splits)
next
  case (Cons u us)
  from Cons.prems(1) obtain e where "ht_execute u n = Some (Inl e)" "retryable_error e" by (auto elim: passes_onE)
  with Cons show ?case by simp
qed

text \<open>
  The value of a stage comes from the first tool that supports it and does not fail with a retryable error, with its
  place among them; an error of that tool ends the attempt. When they all fail retryably, the error of the last one
  is the attempt's.
\<close>

lemma tool_stage_first:
  assumes "filter (\<lambda>t. st \<in> set (ht_stages t)) tools = us @ t # vs" and "list_all (passes_on n) us" and "\<not> passes_on n t"
  shows "tool_stage now tools st n = (case ht_execute t n of
        None \<Rightarrow> NeverSettles
      | Some (Inl e) \<Rightarrow> Fails e
      | Some (Inr v) \<Rightarrow> Finishes \<lparr>sr_value = \<lparr>tl_value = v, tl_tool = ht_name t, tl_index = length us\<rparr>, sr_completed_at = now\<rparr>)"
  using assms(1) by (simp add: tool_stage_def try_tools_first[OF assms(2,3)] split: option.split sum.split)

lemma tool_stage_exhausted:
  assumes "filter (\<lambda>t. st \<in> set (ht_stages t)) tools = ts" and "list_all (passes_on n) ts" and "ts \<noteq> []"
  shows "\<exists>e. ht_execute (last ts) n = Some (Inl e) \<and> tool_stage now tools st n = Fails e"
  using try_tools_all_pass[OF assms(2,3), of 0 None] assms(1,3) by (auto simp: tool_stage_def)

end
