(* ===== verification/Evidence_Planner.thy ===== *)
theory Evidence_Planner
  imports Mission_Execution
begin

text \<open>
  The evidence-aware planner (\<open>mission/evidence-aware-planner.ts\<close>), the planner the kernel gives the mission
  engine: it turns the draft of a decomposer, whose tasks name each other by free keys, into a mission plan with
  generated task ids. The decomposer is a parameter and may fail. Results: what a plan it returns has in common
  with the draft, what is left for the engine's validation to refuse, and that the tasks start in the states the
  mission execution starts them in.
\<close>

section \<open>Drafts and policy\<close>

record requirement_draft =
  rd_key :: string
  rd_description :: string
  rd_required :: "bool option"

record task_draft =
  td_key :: string
  td_title :: string
  td_objective :: string
  td_depends :: "string list option"
  td_requirements :: "requirement_draft list"

record planning_draft =
  pd_summary :: string
  pd_tasks :: "task_draft list"
  pd_criteria :: "string list"
  pd_stops :: "string list option"

record planner_policy =
  py_require_evidence :: bool
  py_min_criteria :: js_number
  py_default_stops :: "string list"

definition planner_defaults :: planner_policy where
  "planner_defaults = \<lparr>py_require_evidence = True, py_min_criteria = Fin 1,
     py_default_stops = [''Required evidence cannot be obtained reliably'']\<rparr>"

definition planner_policy_of :: "bool option \<Rightarrow> js_number option \<Rightarrow> string list option \<Rightarrow> planner_policy" where
  "planner_policy_of require minimum stops = \<lparr>
     py_require_evidence = (case require of None \<Rightarrow> py_require_evidence planner_defaults | Some b \<Rightarrow> b),
     py_min_criteria = (case minimum of None \<Rightarrow> py_min_criteria planner_defaults | Some n \<Rightarrow> n),
     py_default_stops = (case stops of None \<Rightarrow> py_default_stops planner_defaults | Some xs \<Rightarrow> xs)\<rparr>"

section \<open>Text\<close>

definition required_text :: "string \<Rightarrow> string \<Rightarrow> mission_error + string" where
  "required_text field v = (let normalized = trim v in
     if normalized = [] then Inl (InvalidMissionPlan (FieldRequired field)) else Inr normalized)"

definition normalizeList :: "string \<Rightarrow> string list \<Rightarrow> mission_error + string list" where
  "normalizeList field values = rbind (map_res (required_text field) values) (\<lambda>normalized. Inr (uniq normalized))"

text \<open>
  The slug of a key: \<open>toLowerCase\<close> and the two \<open>replace\<close>. Of the code units 0..255 only A to Z become letters
  of the class \<open>[a-z0-9]\<close>; every run of the others is one dash, and the outer dashes go.
\<close>

definition slug_lower :: "char \<Rightarrow> char" where
  "slug_lower c = (let n = (of_char c :: nat) in if 65 \<le> n \<and> n \<le> 90 then char_of (n + 32) else c)"

definition slug_char :: "char \<Rightarrow> bool" where
  "slug_char c \<longleftrightarrow> (let n = (of_char c :: nat) in 97 \<le> n \<and> n \<le> 122 \<or> 48 \<le> n \<and> n \<le> 57)"

fun dash_runs :: "bool \<Rightarrow> string \<Rightarrow> string" where
  "dash_runs inside [] = []"
| "dash_runs inside (c # cs) = (if slug_char c then c # dash_runs False cs
     else if inside then dash_runs True cs else CHR ''-'' # dash_runs True cs)"

definition strip_dashes :: "string \<Rightarrow> string" where
  "strip_dashes s = rev (dropWhile (\<lambda>c. c = CHR ''-'') (rev (dropWhile (\<lambda>c. c = CHR ''-'') s)))"

definition slug :: "string \<Rightarrow> mission_error + string" where
  "slug v = (let normalized = strip_dashes (dash_runs False (map slug_lower (trim v))) in
     if normalized = [] then Inl (InvalidMissionPlan KeyWithoutLetters) else Inr normalized)"

section \<open>The planner\<close>

text \<open>The first pass: \<open>`${mission.id}:${slug(key)}:${index + 1}`\<close> for every key, in a map.\<close>

fun assign_ids :: "string \<Rightarrow> (string \<times> string) list \<Rightarrow> nat \<Rightarrow> task_draft list \<Rightarrow> mission_error + (string \<times> string) list" where
  "assign_ids mid ids index [] = Inr ids"
| "assign_ids mid ids index (t # ts) =
     rbind (required_text ''task.key'' (td_key t)) (\<lambda>key.
     if key \<in> fst ` set ids then Inl (InvalidMissionPlan (DuplicateTaskKey key))
     else rbind (slug key) (\<lambda>s.
       assign_ids mid (ids @ [(key, mid @ '':'' @ s @ '':'' @ show_nat (index + 1))]) (index + 1) ts))"

definition dependency_id :: "(string \<times> string) list \<Rightarrow> task_draft \<Rightarrow> string \<Rightarrow> mission_error + string" where
  "dependency_id ids t k = rbind (required_text ''task.dependsOn'' k) (\<lambda>key.
     case map_of ids key of None \<Rightarrow> Inl (InvalidMissionPlan (UnknownTaskKey (td_key t) key)) | Some i \<Rightarrow> Inr i)"

definition requirement_of :: "requirement_draft \<Rightarrow> mission_error + evidence_requirement" where
  "requirement_of r =
     rbind (required_text ''evidenceRequirement.key'' (rd_key r)) (\<lambda>key.
     rbind (required_text ''evidenceRequirement.description'' (rd_description r)) (\<lambda>description.
     Inr \<lparr>er_key = key, er_description = description,
       er_required = (case rd_required r of None \<Rightarrow> True | Some b \<Rightarrow> b)\<rparr>))"

definition draft_depends :: "task_draft \<Rightarrow> string list" where
  "draft_depends t = (case td_depends t of None \<Rightarrow> [] | Some ks \<Rightarrow> ks)"

definition plan_task :: "planner_policy \<Rightarrow> (string \<times> string) list \<Rightarrow> task_draft \<Rightarrow> mission_error + mission_task" where
  "plan_task pol ids t = (case map_of ids (trim (td_key t)) of
     None \<Rightarrow> Inl (InvalidMissionPlan (MissingTaskId (td_key t)))
   | Some i \<Rightarrow>
       rbind (map_res (dependency_id ids t) (draft_depends t)) (\<lambda>deps.
       rbind (map_res requirement_of (td_requirements t)) (\<lambda>reqs.
       rbind (throw_if (py_require_evidence pol \<and> reqs = []) (InvalidMissionPlan (NoEvidenceRequirements (td_key t)))) (\<lambda>_.
       rbind (required_text ''task.title'' (td_title t)) (\<lambda>title.
       rbind (required_text ''task.objective'' (td_objective t)) (\<lambda>objective.
       Inr \<lparr>task_id = i, task_title = title, task_objective = objective,
         task_status = (if deps = [] then TaskReady else TaskPending),
         depends_on = deps, evidence_requirements = reqs\<rparr>))))))"

definition evidence_plan ::
  "planner_policy \<Rightarrow> (mission \<Rightarrow> mission_error + planning_draft) \<Rightarrow> mission \<Rightarrow> mission_error + mission_plan" where
  "evidence_plan pol decompose m =
     rbind (decompose m) (\<lambda>draft.
     rbind (required_text ''summary'' (pd_summary draft)) (\<lambda>summary.
     rbind (normalizeList ''successCriteria'' (pd_criteria draft)) (\<lambda>criteria.
     rbind (throw_if (num_lt (Fin (of_nat (length criteria))) (py_min_criteria pol)) (InvalidMissionPlan TooFewSuccessCriteria)) (\<lambda>_.
     rbind (assign_ids (mission_id m) [] 0 (pd_tasks draft)) (\<lambda>ids.
     rbind (map_res (plan_task pol ids) (pd_tasks draft)) (\<lambda>tasks.
     rbind (normalizeList ''stopConditions'' (case pd_stops draft of
         Some (x # xs) \<Rightarrow> x # xs | _ \<Rightarrow> py_default_stops pol)) (\<lambda>stops.
     Inr \<lparr>plan_summary = summary, plan_tasks = tasks, plan_success_criteria = criteria, plan_stop_conditions = stops\<rparr>)))))))"

section \<open>Generated ids\<close>

lemma required_text_Inr [result_simps]: "required_text f v = Inr w \<longleftrightarrow> w = trim v \<and> w \<noteq> []"
  by (auto simp: required_text_def Let_def)

lemma map_res_required: "map_res (required_text f) vs = Inr ws \<Longrightarrow> ws = map trim vs"
  by (induction vs arbitrary: ws) (auto simp: rbind_Inr_iff required_text_Inr)

lemma assign_ids_keys:
  "assign_ids mid ids n ts = Inr ids' \<Longrightarrow> distinct (map fst ids) \<Longrightarrow>
     map fst ids' = map fst ids @ map (trim \<circ> td_key) ts \<and> distinct (map fst ids')"
proof (induction mid ids n ts arbitrary: ids' rule: assign_ids.induct)
  case (2 mid ids n t ts)
  from "2.prems"(1) obtain key s where k: "required_text ''task.key'' (td_key t) = Inr key" "key \<notin> fst ` set ids" "slug key = Inr s"
    and r: "assign_ids mid (ids @ [(key, mid @ '':'' @ s @ '':'' @ show_nat (n + 1))]) (n + 1) ts = Inr ids'"
    by (auto simp: rbind_Inr_iff split: if_splits)
  from k(1) have key: "key = trim (td_key t)" by (simp add: required_text_Inr)
  have "distinct (map fst (ids @ [(key, mid @ '':'' @ s @ '':'' @ show_nat (n + 1))]))" using k(2) "2.prems"(2) by simp
  from "2.IH"[OF k r this] show ?case by (elim conjE, intro conjI) (simp_all only: key, simp)
qed simp

definition task_number :: "string \<Rightarrow> nat \<Rightarrow> bool" where
  "task_number i n \<longleftrightarrow> (\<exists>p. i = p @ CHR '':'' # show_nat (n + 1))"

lemma task_number_unique: "task_number i n \<Longrightarrow> task_number i m \<Longrightarrow> m = n"
proof -
  assume "task_number i n" "task_number i m"
  then obtain p q where "p @ CHR '':'' # show_nat (n + 1) = q @ CHR '':'' # show_nat (m + 1)" by (auto simp: task_number_def)
  moreover have "\<not> is_digit CHR '':''" by (simp add: is_digit_def)
  ultimately have "n + 1 = m + 1" by (metis numeral_suffix_inject)
  then show "m = n" by simp
qed

lemma assign_ids_numbers:
  "assign_ids mid ids n ts = Inr ids' \<Longrightarrow>
     \<exists>new. ids' = ids @ new \<and> length new = length ts \<and> (\<forall>k<length ts. task_number (snd (new ! k)) (n + k))"
proof (induction mid ids n ts arbitrary: ids' rule: assign_ids.induct)
  case (2 mid ids n t ts)
  from "2.prems" obtain key s where k: "required_text ''task.key'' (td_key t) = Inr key" "key \<notin> fst ` set ids" "slug key = Inr s"
    and r: "assign_ids mid (ids @ [(key, mid @ '':'' @ s @ '':'' @ show_nat (n + 1))]) (n + 1) ts = Inr ids'"
    by (auto simp: rbind_Inr_iff split: if_splits)
  from "2.IH"[OF k r] obtain new where new: "ids' = (ids @ [(key, mid @ '':'' @ s @ '':'' @ show_nat (n + 1))]) @ new"
    "length new = length ts" "\<forall>k<length ts. task_number (snd (new ! k)) (n + 1 + k)" by blast
  let ?first = "(key, mid @ '':'' @ s @ '':'' @ show_nat (n + 1))"
  have "task_number (snd ?first) n" by (auto simp: task_number_def intro: exI[of _ "mid @ '':'' @ s"])
  then have "task_number (snd ((?first # new) ! k)) (n + k)" if "k < Suc (length ts)" for k
    using that new(3) by (cases k) auto
  then show ?case using new(1,2) by (intro exI[of _ "?first # new"]) simp
qed simp

lemma assign_ids_ok:
  assumes "assign_ids mid [] 0 ts = Inr ids"
  shows "map fst ids = map (trim \<circ> td_key) ts" "distinct (map fst ids)" "distinct (map snd ids)"
proof -
  show "map fst ids = map (trim \<circ> td_key) ts" "distinct (map fst ids)" using assign_ids_keys[OF assms] by auto
  obtain "length ids = length ts" "\<forall>k<length ts. task_number (snd (ids ! k)) k"
    using assign_ids_numbers[OF assms] by auto
  then show "distinct (map snd ids)" unfolding distinct_conv_nth by (metis length_map nth_map task_number_unique)
qed

section \<open>What a planned task has in common with its draft\<close>

definition drafted_requirement :: "requirement_draft \<Rightarrow> evidence_requirement \<Rightarrow> bool" where
  "drafted_requirement r q \<longleftrightarrow> er_key q = trim (rd_key r) \<and> er_key q \<noteq> [] \<and> er_description q = trim (rd_description r)
     \<and> er_description q \<noteq> [] \<and> er_required q = (rd_required r \<noteq> Some False)"

definition drafted_task :: "planner_policy \<Rightarrow> (string \<times> string) list \<Rightarrow> task_draft \<Rightarrow> mission_task \<Rightarrow> bool" where
  "drafted_task pol ids t x \<longleftrightarrow>
     map_of ids (trim (td_key t)) = Some (task_id x)
     \<and> list_all2 (\<lambda>k i. map_of ids (trim k) = Some i) (draft_depends t) (depends_on x)
     \<and> list_all2 drafted_requirement (td_requirements t) (evidence_requirements x)
     \<and> (py_require_evidence pol \<longrightarrow> evidence_requirements x \<noteq> [])
     \<and> task_title x = trim (td_title t) \<and> task_title x \<noteq> []
     \<and> task_objective x = trim (td_objective t) \<and> task_objective x \<noteq> []
     \<and> task_status x = (if depends_on x = [] then TaskReady else TaskPending)"

lemma requirement_of_drafted: "requirement_of r = Inr q \<Longrightarrow> drafted_requirement r q"
  by (auto simp: requirement_of_def rbind_Inr_iff required_text_Inr drafted_requirement_def split: option.split)

lemma dependency_id_Inr: "dependency_id ids t k = Inr i \<Longrightarrow> map_of ids (trim k) = Some i"
  by (auto simp: dependency_id_def rbind_Inr_iff required_text_Inr split: option.splits)

lemma plan_task_drafted: "plan_task pol ids t = Inr x \<Longrightarrow> drafted_task pol ids t x"
  unfolding plan_task_def drafted_task_def
  by (auto simp: rbind_Inr_iff required_text_Inr map_res_Inr_iff split: option.splits
      intro: list_all2_mono requirement_of_drafted dependency_id_Inr)

lemma map_of_zip_at:
  "distinct (map fst ids) \<Longrightarrow> k < length ids \<Longrightarrow> map_of ids (map fst ids ! k) = Some (map snd ids ! k)"
  by simp

lemma drafted_ids:
  assumes "list_all2 (drafted_task pol ids) ts xs" "map fst ids = map (trim \<circ> td_key) ts" "distinct (map fst ids)"
  shows "map snd ids = task_ids xs"
proof (rule nth_equalityI)
  show len: "length (map snd ids) = length (task_ids xs)"
    using arg_cong[OF assms(2), of length] list_all2_lengthD[OF assms(1)] by (simp add: task_ids_def)
  fix k assume k: "k < length (map snd ids)"
  then have "drafted_task pol ids (ts ! k) (xs ! k)"
    using list_all2_nthD2[OF assms(1), of k] len by (simp add: task_ids_def)
  then have "map_of ids (map fst ids ! k) = Some (task_id (xs ! k))"
    using k len list_all2_lengthD[OF assms(1)] by (simp add: drafted_task_def assms(2) task_ids_def)
  with map_of_zip_at[OF assms(3), of k] k len show "map snd ids ! k = task_ids xs ! k" by (simp add: task_ids_def)
qed

text \<open>A plan the planner returns, taken apart.\<close>

lemma evidence_planE:
  assumes "evidence_plan pol decompose m = Inr p"
  obtains draft ids where "decompose m = Inr draft"
    and "list_all2 (drafted_task pol ids) (pd_tasks draft) (plan_tasks p)"
    and "map fst ids = map (trim \<circ> td_key) (pd_tasks draft)" "map snd ids = task_ids (plan_tasks p)"
    and "distinct (map fst ids)" "distinct (map snd ids)"
    and "plan_summary p = trim (pd_summary draft)" "plan_summary p \<noteq> []"
    and "plan_success_criteria p = uniq (map trim (pd_criteria draft))"
    and "\<not> num_lt (Fin (of_nat (length (plan_success_criteria p)))) (py_min_criteria pol)"
proof -
  from assms obtain draft criteria ids tasks stops where d: "decompose m = Inr draft"
    and s: "trim (pd_summary draft) \<noteq> []" and c: "normalizeList ''successCriteria'' (pd_criteria draft) = Inr criteria"
    and n: "\<not> num_lt (Fin (of_nat (length criteria))) (py_min_criteria pol)"
    and i: "assign_ids (mission_id m) [] 0 (pd_tasks draft) = Inr ids"
    and t: "map_res (plan_task pol ids) (pd_tasks draft) = Inr tasks"
    and p: "p = \<lparr>plan_summary = trim (pd_summary draft), plan_tasks = tasks, plan_success_criteria = criteria, plan_stop_conditions = stops\<rparr>"
    by (auto simp: evidence_plan_def rbind_Inr_iff required_text_Inr)
  have "criteria = uniq (map trim (pd_criteria draft))"
    using c by (auto simp: normalizeList_def rbind_Inr_iff dest: map_res_required)
  moreover have l: "list_all2 (drafted_task pol ids) (pd_tasks draft) tasks"
    using t by (auto simp: map_res_Inr_iff intro: list_all2_mono plan_task_drafted)
  ultimately show thesis
    using assign_ids_ok[OF i] drafted_ids[OF l] d n s by (intro that[of draft ids]) (simp_all add: p)
qed

section \<open>What the engine's validation adds\<close>

lemma check_requirements_Inr:
  "check_requirements keys rs = Inr u \<longleftrightarrow>
     (\<forall>r\<in>set rs. trim (er_key r) \<noteq> [] \<and> trim (er_description r) \<noteq> []) \<and> distinct (map (trim \<circ> er_key) rs)
     \<and> (trim \<circ> er_key) ` set rs \<inter> set keys = {}"
  by (induction keys rs rule: check_requirements.induct) (auto simp: Let_def)

lemma list_all2_source: "list_all2 P xs ys \<Longrightarrow> y \<in> set ys \<Longrightarrow> \<exists>x\<in>set xs. P x y"
  by (metis in_set_conv_nth list_all2_conv_all_nth)

lemma drafted_requirements_trimmed:
  assumes "list_all2 drafted_requirement rs qs" "q \<in> set qs"
  shows "trim (er_key q) = er_key q \<and> trim (er_description q) = er_description q \<and> er_key q \<noteq> [] \<and> er_description q \<noteq> []"
proof -
  from list_all2_source[OF assms] obtain r where "drafted_requirement r q" by blast
  then show ?thesis by (auto simp: drafted_requirement_def)
qed

lemma drafted_validateTask:
  assumes "drafted_task pol ids t x"
  shows "validateTask x = Inr () \<longleftrightarrow> distinct (map er_key (evidence_requirements x))"
proof -
  have q: "trim (er_key q) = er_key q \<and> trim (er_description q) = er_description q \<and> er_key q \<noteq> [] \<and> er_description q \<noteq> []"
    if "q \<in> set (evidence_requirements x)" for q
    using assms that drafted_requirements_trimmed unfolding drafted_task_def by blast
  have m: "map (trim \<circ> er_key) (evidence_requirements x) = map er_key (evidence_requirements x)" using q by simp
  have "trim (task_title x) \<noteq> []" "trim (task_objective x) \<noteq> []" using assms unfolding drafted_task_def by (metis trim_trim)+
  then show ?thesis using q by (simp add: validateTask_def check_requirements_Inr m)
qed

lemma self_dependency_cycle:
  assumes "acyclic_tasks tasks" "distinct (task_ids tasks)" "t \<in> set tasks"
  shows "task_id t \<notin> set (depends_on t)"
proof
  assume "task_id t \<in> set (depends_on t)"
  then have "edge tasks (task_id t) (task_id t)" using tasks_by_id_distinct[OF assms(2,3)] by (simp add: edge_def deps_of_def)
  then show False using assms(1) by (auto simp: acyclic_tasks_def)
qed

lemma drafted_dependencies:
  assumes "drafted_task pol ids t x"
  shows "set (depends_on x) \<subseteq> snd ` set ids"
proof
  fix i assume "i \<in> set (depends_on x)"
  then obtain k where "map_of ids (trim k) = Some i"
    using assms by (auto simp: drafted_task_def list_all2_conv_all_nth in_set_conv_nth)
  then show "i \<in> snd ` set ids" by (force dest: map_of_SomeD)
qed

section \<open>Properties\<close>

text \<open>
  What the planner returns has the shape the mission engine asks for, whatever the decomposer drafts: a
  summary, complete tasks, unique task ids, dependencies on tasks of the plan only. The engine's
  \<open>validatePlan\<close> can refuse it for four reasons only: no tasks, no success criteria, a task with two evidence
  requirements of one key, a cycle of dependencies. With the default policy the second does not happen either.
\<close>

theorem planner_output_typed:
  assumes "evidence_plan pol decompose m = Inr p"
  shows "(validatePlan p = Inr () \<longleftrightarrow>
      plan_tasks p \<noteq> [] \<and> plan_success_criteria p \<noteq> []
      \<and> (\<forall>t\<in>set (plan_tasks p). distinct (map er_key (evidence_requirements t)))
      \<and> acyclic_tasks (plan_tasks p))
    \<and> (pol = planner_defaults \<longrightarrow> plan_success_criteria p \<noteq> [])"
proof (rule evidence_planE[OF assms])
  fix draft ids
  assume l: "list_all2 (drafted_task pol ids) (pd_tasks draft) (plan_tasks p)"
    and ids: "map snd ids = task_ids (plan_tasks p)" "distinct (map snd ids)"
    and s: "plan_summary p = trim (pd_summary draft)" "plan_summary p \<noteq> []"
    and n: "\<not> num_lt (Fin (of_nat (length (plan_success_criteria p)))) (py_min_criteria pol)"
  have d: "\<exists>t. drafted_task pol ids t x" if "x \<in> set (plan_tasks p)" for x
    using list_all2_source[OF l that] by blast
  have "set (depends_on x) \<subseteq> set (task_ids (plan_tasks p))" if "x \<in> set (plan_tasks p)" for x
    using d[OF that] drafted_dependencies ids(1) by (metis set_map)
  moreover have "task_id x \<notin> set (depends_on x)" if "acyclic_tasks (plan_tasks p)" "x \<in> set (plan_tasks p)" for x
    using self_dependency_cycle[OF that(1) _ that(2)] ids by simp
  moreover have "validateTask x = Inr () \<longleftrightarrow> distinct (map er_key (evidence_requirements x))" if "x \<in> set (plan_tasks p)" for x
    using d[OF that] drafted_validateTask by blast
  moreover have "trim (plan_summary p) \<noteq> []" using s by simp
  moreover have "pol = planner_defaults \<longrightarrow> plan_success_criteria p \<noteq> []" using n by (auto simp: planner_defaults_def)
  ultimately show ?thesis using ids by (simp add: validatePlan_Inr well_formed_plan_def) blast
qed

text \<open>
  A mission planned by this planner carries the draft, task by task and in its order: title, objective and
  evidence requirements are the draft's, trimmed, a requirement is required unless the draft says not; each free
  key, trimmed, stands for the generated id of the one task that declares it, and the dependencies of a task are
  the ids of the keys it names. The states the planner gives the tasks are the ones the mission execution starts
  them in.
\<close>

theorem planned_mission_refines_draft:
  assumes "plan_mission (evidence_plan pol decompose) m planned_at = Inr m'"
  shows "\<exists>draft ids p s. decompose m = Inr draft \<and> mission_plan m' = Some p
      \<and> list_all2 (drafted_task pol ids) (pd_tasks draft) (plan_tasks p)
      \<and> map fst ids = map (trim \<circ> td_key) (pd_tasks draft) \<and> distinct (map fst ids)
      \<and> map snd ids = task_ids (plan_tasks p) \<and> distinct (map snd ids)
      \<and> plan_success_criteria p = uniq (map trim (pd_criteria draft))
      \<and> initialize m' now = Inr s
      \<and> map (\<lambda>x. (te_id x, te_status x)) (es_tasks s) = map (\<lambda>t. (task_id t, task_status t)) (plan_tasks p)"
proof -
  from assms obtain p where p: "evidence_plan pol decompose m = Inr p" and m': "mission_plan m' = Some p" "mission_status m' = Planned"
    by (auto simp: plan_mission_def rbind_Inr_iff)
  show ?thesis
  proof (rule evidence_planE[OF p])
    fix draft ids
    assume l: "list_all2 (drafted_task pol ids) (pd_tasks draft) (plan_tasks p)"
      and rest: "decompose m = Inr draft" "map fst ids = map (trim \<circ> td_key) (pd_tasks draft)" "distinct (map fst ids)"
        "map snd ids = task_ids (plan_tasks p)" "distinct (map snd ids)"
        "plan_success_criteria p = uniq (map trim (pd_criteria draft))"
    obtain s where s: "initialize m' now = Inr s" and
      e: "map (\<lambda>x. (te_id x, te_status x)) (es_tasks s)
        = map (\<lambda>t. (task_id t, if dependenciesComplete t [] then TaskReady else TaskPending)) (plan_tasks p)"
      using m' by (auto simp: initialize_def comp_def)
    have "(if dependenciesComplete x [] then TaskReady else TaskPending) = task_status x" if "x \<in> set (plan_tasks p)" for x
    proof -
      from list_all2_source[OF l that] obtain t where "drafted_task pol ids t x" by blast
      then show ?thesis by (cases "depends_on x") (auto simp: drafted_task_def dependenciesComplete_def)
    qed
    with e have "map (\<lambda>x. (te_id x, te_status x)) (es_tasks s) = map (\<lambda>t. (task_id t, task_status t)) (plan_tasks p)" by simp
    with s l rest m'(1) show ?thesis by blast
  qed
qed

section \<open>Examples\<close>

definition example_draft :: planning_draft where
  "example_draft = \<lparr>pd_summary = '' Compare '', pd_tasks =
     [\<lparr>td_key = ''Find it'', td_title = ''Find'', td_objective = ''Find sources'', td_depends = None,
       td_requirements = [\<lparr>rd_key = ''source'', rd_description = ''A source'', rd_required = None\<rparr>]\<rparr>,
      \<lparr>td_key = ''judge'', td_title = ''Judge'', td_objective = ''Judge them'', td_depends = Some ['' Find it''],
       td_requirements = [\<lparr>rd_key = ''verdict'', rd_description = ''A verdict'', rd_required = Some False\<rparr>]\<rparr>],
     pd_criteria = [''Done'', '' Done''], pd_stops = None\<rparr>"

definition example_plan :: mission_plan where
  "example_plan = \<lparr>plan_summary = ''Compare'', plan_tasks =
     [\<lparr>task_id = ''m:find-it:1'', task_title = ''Find'', task_objective = ''Find sources'', task_status = TaskReady,
       depends_on = [], evidence_requirements = [\<lparr>er_key = ''source'', er_description = ''A source'', er_required = True\<rparr>]\<rparr>,
      \<lparr>task_id = ''m:judge:2'', task_title = ''Judge'', task_objective = ''Judge them'', task_status = TaskPending,
       depends_on = [''m:find-it:1''],
       evidence_requirements = [\<lparr>er_key = ''verdict'', er_description = ''A verdict'', er_required = False\<rparr>]\<rparr>],
     plan_success_criteria = [''Done''], plan_stop_conditions = [''Required evidence cannot be obtained reliably'']\<rparr>"

definition example_mission :: mission where
  "example_mission = \<lparr>mission_id = ''m'', mission_title = ''M'', mission_objective = ''O'', mission_status = Draft,
     mission_constraints = [], mission_plan = None, failure_reason = None, mission_created_at = ''t0'', mission_updated_at = ''t0''\<rparr>"

lemma example_planned: "evidence_plan planner_defaults (\<lambda>_. Inr example_draft) example_mission = Inr example_plan"
  by code_simp

lemma example_plan_ok: "validatePlan example_plan = Inr ()"
  by code_simp

theorem planner_output_typed_witness: "acyclic_tasks (plan_tasks example_plan)"
  using planner_output_typed[OF example_planned] example_plan_ok by blast

theorem planned_mission_refines_draft_witness:
  "case plan_mission (evidence_plan planner_defaults (\<lambda>_. Inr example_draft)) example_mission ''t1'' of
     Inr m' \<Rightarrow> (\<exists>s. initialize m' ''t2'' = Inr s
       \<and> map (\<lambda>x. (te_id x, te_status x)) (es_tasks s) = [(''m:find-it:1'', TaskReady), (''m:judge:2'', TaskPending)])
   | Inl _ \<Rightarrow> False"
proof -
  let ?m = "example_mission\<lparr>mission_status := Planned, mission_plan := Some example_plan, mission_updated_at := ''t1''\<rparr>"
  have "assertTransition example_mission Planned = Inr ()" "assertFresh example_mission ''t1'' = Inr ()" by code_simp+
  then have p: "plan_mission (evidence_plan planner_defaults (\<lambda>_. Inr example_draft)) example_mission ''t1'' = Inr ?m"
    by (simp add: plan_mission_def example_planned example_plan_ok)
  from planned_mission_refines_draft[OF p, of "''t2''"]
  obtain s where "initialize ?m ''t2'' = Inr s"
    "map (\<lambda>x. (te_id x, te_status x)) (es_tasks s) = map (\<lambda>t. (task_id t, task_status t)) (plan_tasks example_plan)" by auto
  then show ?thesis by (simp add: p example_plan_def)
qed

end
