(* ===== verification/Goal_Evaluation.thy ===== *)
theory Goal_Evaluation
  imports Plan_Store
begin

text \<open>
  The evaluation of a Goal against the work on a plan (\<open>goal-evaluation/goal-evaluator.ts\<close>) and the new plan
  revision an evaluation may ask for (\<open>goal-replanning-service.ts\<close>). Parameters: \<open>lc\<close> (\<open>localeCompare\<close>),
  \<open>num\<close> (rendering of numbers), \<open>sha\<close> (the hex digest of SHA-256) and \<open>parse\<close> (\<open>Date.parse\<close>). The
  record of task states is an association list of its own entries; ids that name a property every JavaScript
  object inherits are outside the model. Results: what decides an evaluation, that evaluations are recorded once
  and kept, and that an evaluation leads to one new revision at most.
\<close>

section \<open>Data\<close>

datatype evaluation_status = EvCompleted | EvContinue | EvWaiting | EvBlocked
datatype evaluation_action = NoAction | NewPlanRevision | AwaitTrigger | HumanReview

record evaluation_input =
  ge_goal :: string
  ge_plan :: string
  ge_revision :: string
  ge_statuses :: "(string \<times> task_status) list"
  ge_satisfied :: "string list"
  ge_blockers :: "string list option"
  ge_waiting :: "string option"
  ge_at :: string

datatype evaluation_reason =
  ReasonGiven string
| AllSatisfied
| TaskFailedReason string
| TaskIncompleteReason string
| ConditionMissing string
| FurtherWork

record goal_evaluation =
  gv_id :: string
  gv_goal :: string
  gv_plan :: string
  gv_revision :: string
  gv_status :: evaluation_status
  gv_action :: evaluation_action
  gv_reasons :: "evaluation_reason list"
  gv_incomplete :: "string list"
  gv_at :: string
  gv_input_hash :: string

datatype evaluation_error =
  BindingMismatch
| MissingTaskStatus string
| BadEvaluationInstant
| ReplanningRefused string

section \<open>Normalisation\<close>

definition validateBinding :: "proposed_plan \<Rightarrow> evaluation_input \<Rightarrow> evaluation_error + unit" where
  "validateBinding plan i = throw_if (pp_id plan \<noteq> ge_plan i \<or> pp_goal_id plan \<noteq> ge_goal i \<or> pp_revision_id plan \<noteq> ge_revision i)
     BindingMismatch"

text \<open>The loop over the plan's tasks: each must have a state; the new record holds those and nothing else.\<close>

fun collect_statuses ::
  "(string \<times> task_status) list \<Rightarrow> (string \<times> task_status) list \<Rightarrow> mission_task list \<Rightarrow> evaluation_error + (string \<times> task_status) list" where
  "collect_statuses given acc [] = Inr acc"
| "collect_statuses given acc (t # ts) = (case map_of given (task_id t) of
     None \<Rightarrow> Inl (MissingTaskStatus (task_id t))
   | Some s \<Rightarrow> collect_statuses given (AList.update (task_id t) s acc) ts)"

definition clean_set :: "string list \<Rightarrow> string list" where
  "clean_set xs = sort_units (uniq (filter (\<lambda>s. s \<noteq> []) (map trim xs)))"

definition normalize_evaluation ::
  "(string \<Rightarrow> 'i option) \<Rightarrow> proposed_plan \<Rightarrow> evaluation_input \<Rightarrow> evaluation_error + evaluation_input" where
  "normalize_evaluation parse plan i =
     rbind (throw_if (parse (ge_at i) = None) BadEvaluationInstant) (\<lambda>_.
     rbind (collect_statuses (ge_statuses i) [] (ct_tasks (pp_content plan))) (\<lambda>statuses.
     let blockers = clean_set (case ge_blockers i of None \<Rightarrow> [] | Some bs \<Rightarrow> bs) in
     Inr \<lparr>ge_goal = trim (ge_goal i), ge_plan = trim (ge_plan i), ge_revision = trim (ge_revision i), ge_statuses = statuses,
       ge_satisfied = clean_set (ge_satisfied i),
       ge_blockers = (if blockers = [] then None else Some blockers),
       ge_waiting = (case ge_waiting i of None \<Rightarrow> None | Some w \<Rightarrow> if w = [] then None else Some (trim w)),
       ge_at = ge_at i\<rparr>))"

section \<open>The digest of the input\<close>

definition status_name :: "task_status \<Rightarrow> string" where
  "status_name s = (case s of TaskPending \<Rightarrow> ''pending'' | TaskReady \<Rightarrow> ''ready'' | TaskActive \<Rightarrow> ''active''
     | TaskCompleted \<Rightarrow> ''completed'' | TaskFailed \<Rightarrow> ''failed'')"

definition evaluation_value :: "evaluation_input \<Rightarrow> js_value" where
  "evaluation_value i = JObject ([(''goalId'', JString (ge_goal i)), (''planId'', JString (ge_plan i)),
     (''revisionId'', JString (ge_revision i)),
     (''taskStatuses'', JObject (map (\<lambda>(k, s). (k, JString (status_name s))) (ge_statuses i))),
     (''satisfiedCompletionConditions'', JArray (map JString (ge_satisfied i)))]
     @ (case ge_blockers i of None \<Rightarrow> [] | Some bs \<Rightarrow> [(''blockers'', JArray (map JString bs))])
     @ (case ge_waiting i of None \<Rightarrow> [] | Some w \<Rightarrow> [(''waitingFor'', JString w)])
     @ [(''evaluatedAt'', JString (ge_at i))])"

definition input_hash :: "string comparator \<Rightarrow> (js_number \<Rightarrow> string) \<Rightarrow> (string \<Rightarrow> string) \<Rightarrow> evaluation_input \<Rightarrow> string" where
  "input_hash lc num sha i = sha (or_empty (localStringify lc num (evaluation_value i)))"

definition evaluation_id :: "(string \<Rightarrow> string) \<Rightarrow> proposed_plan \<Rightarrow> string \<Rightarrow> string" where
  "evaluation_id sha plan h = ''goal-evaluation:'' @ take 24 (sha (pp_revision_id plan @ '':'' @ h))"

section \<open>The decision\<close>

definition with_status :: "evaluation_input \<Rightarrow> (task_status option \<Rightarrow> bool) \<Rightarrow> proposed_plan \<Rightarrow> string list" where
  "with_status i P plan = map task_id (filter (\<lambda>t. P (map_of (ge_statuses i) (task_id t))) (ct_tasks (pp_content plan)))"

definition build_evaluation ::
  "evaluation_input \<Rightarrow> string \<Rightarrow> string \<Rightarrow> evaluation_status \<Rightarrow> evaluation_action \<Rightarrow> evaluation_reason list \<Rightarrow> string list \<Rightarrow> goal_evaluation" where
  "build_evaluation i eid h status action reasons inc = \<lparr>gv_id = eid, gv_goal = ge_goal i, gv_plan = ge_plan i,
     gv_revision = ge_revision i, gv_status = status, gv_action = action, gv_reasons = reasons, gv_incomplete = inc,
     gv_at = ge_at i, gv_input_hash = h\<rparr>"

definition decide_evaluation :: "proposed_plan \<Rightarrow> evaluation_input \<Rightarrow> string \<Rightarrow> string \<Rightarrow> goal_evaluation" where
  "decide_evaluation plan i eid h = (
     let incomplete = with_status i (\<lambda>s. s \<noteq> Some TaskCompleted) plan;
         failed = with_status i (\<lambda>s. s = Some TaskFailed) plan;
         missing = filter (\<lambda>d. d \<notin> set (ge_satisfied i)) (map cp_description (ct_completion_conditions (pp_content plan)));
         build = build_evaluation i eid h in
     case ge_blockers i of
       Some (b # bs) \<Rightarrow> build EvBlocked HumanReview (map ReasonGiven (b # bs)) incomplete
     | _ \<Rightarrow>
       (case ge_waiting i of
          Some (c # cs) \<Rightarrow> build EvWaiting AwaitTrigger [ReasonGiven (c # cs)] incomplete
        | _ \<Rightarrow>
          if incomplete = [] \<and> missing = [] then build EvCompleted NoAction [AllSatisfied] []
          else
            (let reasons = map TaskFailedReason failed
                 @ map TaskIncompleteReason (filter (\<lambda>t. t \<notin> set failed) incomplete) @ map ConditionMissing missing in
             build EvContinue NewPlanRevision (if reasons = [] then [FurtherWork] else reasons) incomplete)))"

text \<open>\<open>evaluate\<close>, one transaction on the store.\<close>

definition evaluate_goal ::
  "string comparator \<Rightarrow> (js_number \<Rightarrow> string) \<Rightarrow> (string \<Rightarrow> string) \<Rightarrow> (string \<Rightarrow> 'i option) \<Rightarrow> proposed_plan \<Rightarrow> evaluation_input
   \<Rightarrow> goal_evaluation list \<Rightarrow> evaluation_error + goal_evaluation \<times> goal_evaluation list" where
  "evaluate_goal lc num sha parse plan i evaluations =
     rbind (validateBinding plan i) (\<lambda>_.
     rbind (normalize_evaluation parse plan i) (\<lambda>normalized.
     let h = input_hash lc num sha normalized;
         eid = evaluation_id sha plan h;
         evaluation = decide_evaluation plan normalized eid h in
     case find (\<lambda>e. gv_id e = eid) evaluations of
       Some existing \<Rightarrow> Inr (existing, evaluations)
     | None \<Rightarrow> Inr (evaluation, evaluations @ [evaluation])))"

section \<open>Replanning\<close>

datatype replan_error = EvaluationRefused evaluation_error | PlanRefused plan_error

text \<open>\<open>ReplanProposal\<close> is an update without the revision it expects; that field of \<open>proposal\<close> is overwritten.\<close>

definition createNextRevision ::
  "plan_env \<Rightarrow> string \<Rightarrow> goal_evaluation \<Rightarrow> update_plan_input \<Rightarrow> plan_store \<Rightarrow> replan_error + proposed_plan \<times> plan_store" where
  "createNextRevision env now e proposal plans =
     (if gv_status e \<noteq> EvContinue \<or> gv_action e \<noteq> NewPlanRevision
      then Inl (EvaluationRefused (ReplanningRefused (gv_id e)))
      else (case updateProposedPlan env now (gv_plan e)
          (proposal\<lparr>up_expected_revision := gv_revision e,
             up_changed_by := (case up_changed_by proposal of None \<Rightarrow> Some ''goal-evaluator'' | Some a \<Rightarrow> Some a)\<rparr>) plans of
        Inl err \<Rightarrow> Inl (PlanRefused err)
      | Inr r \<Rightarrow> Inr r))"

section \<open>What decides an evaluation\<close>

lemma collect_statuses_Inr:
  "collect_statuses given acc ts = Inr acc' \<Longrightarrow>
     (\<forall>t\<in>set ts. map_of given (task_id t) \<noteq> None)
     \<and> map_of acc' = (\<lambda>k. if k \<in> set (task_ids ts) then map_of given k else map_of acc k)"
proof (induction given acc ts arbitrary: acc' rule: collect_statuses.induct)
  case (2 given acc t ts)
  then obtain s where s: "map_of given (task_id t) = Some s"
    and "collect_statuses given (AList.update (task_id t) s acc) ts = Inr acc'" by (auto split: option.splits)
  from "2.IH"[OF this] s show ?case by (auto simp: task_ids_def update_conv')
qed (simp add: task_ids_def)

lemma set_clean_set [simp]: "set (clean_set xs) = trim ` set xs - {[]}"
  by (auto simp: clean_set_def)

definition given_blockers :: "evaluation_input \<Rightarrow> string list" where
  "given_blockers i = clean_set (case ge_blockers i of None \<Rightarrow> [] | Some bs \<Rightarrow> bs)"

definition given_wait :: "evaluation_input \<Rightarrow> string" where
  "given_wait i = (case ge_waiting i of None \<Rightarrow> [] | Some w \<Rightarrow> trim w)"

definition work_left :: "proposed_plan \<Rightarrow> evaluation_input \<Rightarrow> string list" where
  "work_left plan i = map task_id (filter (\<lambda>t. map_of (ge_statuses i) (task_id t) \<noteq> Some TaskCompleted) (ct_tasks (pp_content plan)))"

definition conditions_left :: "proposed_plan \<Rightarrow> evaluation_input \<Rightarrow> string list" where
  "conditions_left plan i = filter (\<lambda>d. d \<notin> trim ` set (ge_satisfied i) - {[]})
     (map cp_description (ct_completion_conditions (pp_content plan)))"

text \<open>The evaluation an input asks for: the first of the four cases that applies.\<close>

definition verdict :: "proposed_plan \<Rightarrow> evaluation_input \<Rightarrow> evaluation_status \<times> evaluation_action" where
  "verdict plan i = (if given_blockers i \<noteq> [] then (EvBlocked, HumanReview)
     else if given_wait i \<noteq> [] then (EvWaiting, AwaitTrigger)
     else if work_left plan i = [] \<and> conditions_left plan i = [] then (EvCompleted, NoAction)
     else (EvContinue, NewPlanRevision))"

lemma normalize_evaluation_Inr:
  assumes "normalize_evaluation parse plan i = Inr n"
  shows "ge_blockers n = (if given_blockers i = [] then None else Some (given_blockers i))"
    and "(case ge_waiting n of Some (c # cs) \<Rightarrow> c # cs | _ \<Rightarrow> []) = given_wait i"
    and "ge_satisfied n = clean_set (ge_satisfied i)"
    and "\<forall>t\<in>set (ct_tasks (pp_content plan)). map_of (ge_statuses n) (task_id t) = map_of (ge_statuses i) (task_id t)
      \<and> map_of (ge_statuses i) (task_id t) \<noteq> None"
    and "ge_goal n = trim (ge_goal i)" "ge_plan n = trim (ge_plan i)" "ge_revision n = trim (ge_revision i)" "ge_at n = ge_at i"
proof -
  from assms obtain statuses where st: "collect_statuses (ge_statuses i) [] (ct_tasks (pp_content plan)) = Inr statuses"
    and n: "n = \<lparr>ge_goal = trim (ge_goal i), ge_plan = trim (ge_plan i), ge_revision = trim (ge_revision i), ge_statuses = statuses,
       ge_satisfied = clean_set (ge_satisfied i), ge_blockers = (if given_blockers i = [] then None else Some (given_blockers i)),
       ge_waiting = (case ge_waiting i of None \<Rightarrow> None | Some w \<Rightarrow> if w = [] then None else Some (trim w)), ge_at = ge_at i\<rparr>"
    by (auto simp: normalize_evaluation_def rbind_Inr_iff Let_def given_blockers_def)
  from collect_statuses_Inr[OF st]
  show "\<forall>t\<in>set (ct_tasks (pp_content plan)). map_of (ge_statuses n) (task_id t) = map_of (ge_statuses i) (task_id t)
      \<and> map_of (ge_statuses i) (task_id t) \<noteq> None"
    by (auto simp: n task_ids_def)
  show "(case ge_waiting n of Some (c # cs) \<Rightarrow> c # cs | _ \<Rightarrow> []) = given_wait i"
    by (auto simp: n given_wait_def split: option.split list.split)
  show "ge_blockers n = (if given_blockers i = [] then None else Some (given_blockers i))"
    "ge_satisfied n = clean_set (ge_satisfied i)"
    "ge_goal n = trim (ge_goal i)" "ge_plan n = trim (ge_plan i)" "ge_revision n = trim (ge_revision i)" "ge_at n = ge_at i"
    by (simp_all add: n)
qed

lemma build_evaluation_fields [simp]:
  "gv_id (build_evaluation i eid h st ac rs inc) = eid" "gv_goal (build_evaluation i eid h st ac rs inc) = ge_goal i"
  "gv_plan (build_evaluation i eid h st ac rs inc) = ge_plan i" "gv_revision (build_evaluation i eid h st ac rs inc) = ge_revision i"
  "gv_status (build_evaluation i eid h st ac rs inc) = st" "gv_action (build_evaluation i eid h st ac rs inc) = ac"
  "gv_incomplete (build_evaluation i eid h st ac rs inc) = inc"
  by (simp_all add: build_evaluation_def)

lemma decide_evaluation_verdict:
  assumes "normalize_evaluation parse plan i = Inr n" and e_def: "e = decide_evaluation plan n eid h"
  shows "(gv_status e, gv_action e) = verdict plan i"
    and "gv_incomplete e = (if gv_status e = EvCompleted then [] else work_left plan i)"
    and "gv_id e = eid" "gv_goal e = trim (ge_goal i)" "gv_plan e = trim (ge_plan i)" "gv_revision e = trim (ge_revision i)"
proof -
  note n = normalize_evaluation_Inr[OF assms(1)]
  have w: "with_status n (\<lambda>s. s \<noteq> Some TaskCompleted) plan = work_left plan i"
    unfolding with_status_def work_left_def using n(4) by (intro arg_cong[where f = "map task_id"] filter_cong) auto
  have c: "filter (\<lambda>d. d \<notin> set (ge_satisfied n)) (map cp_description (ct_completion_conditions (pp_content plan))) = conditions_left plan i"
    by (simp add: conditions_left_def n(3))
  show "gv_id e = eid" "gv_goal e = trim (ge_goal i)" "gv_plan e = trim (ge_plan i)" "gv_revision e = trim (ge_revision i)"
    unfolding e_def decide_evaluation_def Let_def n(5-7)[symmetric] by (simp_all split: option.split list.split)
  consider b bs where "given_blockers i = b # bs" | c cs where "given_blockers i = []" "ge_waiting n = Some (c # cs)"
    | "given_blockers i = []" "ge_waiting n = Some []" | "given_blockers i = []" "ge_waiting n = None"
    by (metis neq_Nil_conv not_Some_eq)
  then have "(gv_status e, gv_action e) = verdict plan i
    \<and> gv_incomplete e = (if gv_status e = EvCompleted then [] else work_left plan i)"
    unfolding e_def decide_evaluation_def w c Let_def verdict_def n(2)[symmetric] by cases (simp_all add: n(1))
  then show "(gv_status e, gv_action e) = verdict plan i"
    and "gv_incomplete e = (if gv_status e = EvCompleted then [] else work_left plan i)" by blast+
qed

lemma evaluate_goal_cases:
  assumes "evaluate_goal lc num sha parse plan i evaluations = Inr (e, evaluations')"
  obtains (Known) "evaluations' = evaluations" "e \<in> set evaluations"
      "\<forall>later. evaluate_goal lc num sha parse plan i (evaluations @ later) = Inr (e, evaluations @ later)"
  | (New) n where "evaluations' = evaluations @ [e]" "normalize_evaluation parse plan i = Inr n"
      "e = decide_evaluation plan n (gv_id e) (input_hash lc num sha n)" "gv_id e \<notin> gv_id ` set evaluations"
      "\<forall>later. evaluate_goal lc num sha parse plan i (evaluations @ e # later) = Inr (e, evaluations @ e # later)"
proof -
  from assms obtain n where b: "validateBinding plan i = Inr ()" and n: "normalize_evaluation parse plan i = Inr n"
    by (auto simp: evaluate_goal_def rbind_Inr_iff)
  define h where "h = input_hash lc num sha n"
  define eid where "eid = evaluation_id sha plan h"
  define new where "new = decide_evaluation plan n eid h"
  have step: "evaluate_goal lc num sha parse plan i es = (case find (\<lambda>e. gv_id e = eid) es of
       Some existing \<Rightarrow> Inr (existing, es) | None \<Rightarrow> Inr (new, es @ [new]))" for es
    unfolding new_def eid_def h_def by (simp add: evaluate_goal_def b n Let_def)
  have nid: "gv_id new = eid" using decide_evaluation_verdict(3)[OF n] by (simp add: new_def)
  show thesis
  proof (cases "find (\<lambda>e. gv_id e = eid) evaluations")
    case None
    then have e: "e = new" "evaluations' = evaluations @ [e]" using assms by (auto simp: step)
    have "find (\<lambda>e. gv_id e = eid) (evaluations @ new # later) = Some new" for later
      using None nid by (induction evaluations) auto
    then have again: "evaluate_goal lc num sha parse plan i (evaluations @ e # later) = Inr (e, evaluations @ e # later)" for later
      by (simp only: step e(1)) simp
    have "gv_id e \<notin> gv_id ` set evaluations" using None nid e(1) by (auto simp: find_None_iff)
    moreover have "e = decide_evaluation plan n (gv_id e) (input_hash lc num sha n)"
      using e(1) nid by (simp only: new_def h_def)
    ultimately show thesis using e(2) n again by (intro New[of n]) blast+
  next
    case (Some x)
    then have "e = x" "evaluations' = evaluations" using assms by (simp_all add: step)
    moreover have "find (\<lambda>e. gv_id e = eid) (evaluations @ later) = Some x" for later
      using Some by (induction evaluations) (auto split: if_splits)
    moreover have "x \<in> set evaluations" using Some by (auto simp: find_Some_iff)
    ultimately show thesis by (intro Known) (simp_all add: step)
  qed
qed

text \<open>The store of evaluations is an append-only log with one entry per id.\<close>

definition evaluation_step ::
  "string comparator \<Rightarrow> (js_number \<Rightarrow> string) \<Rightarrow> (string \<Rightarrow> string) \<Rightarrow> (string \<Rightarrow> 'i option) \<Rightarrow> proposed_plan \<times> evaluation_input
   \<Rightarrow> goal_evaluation list \<Rightarrow> goal_evaluation list" where
  "evaluation_step lc num sha parse call evaluations =
     (case evaluate_goal lc num sha parse (fst call) (snd call) evaluations of Inl _ \<Rightarrow> evaluations | Inr (_, evaluations') \<Rightarrow> evaluations')"

lemma evaluation_step_cases:
  "evaluation_step lc num sha parse call evaluations = evaluations
    \<or> (\<exists>e. evaluation_step lc num sha parse call evaluations = evaluations @ [e] \<and> gv_id e \<notin> gv_id ` set evaluations)"
proof (cases "evaluate_goal lc num sha parse (fst call) (snd call) evaluations")
  case (Inr r)
  obtain e evaluations' where r: "r = (e, evaluations')" by (cases r)
  from Inr[unfolded r] show ?thesis by (cases rule: evaluate_goal_cases) (auto simp: evaluation_step_def Inr r)
qed (simp add: evaluation_step_def)

interpretation evaluation_log: keyed_log "\<lambda>s. s" "evaluation_step lc num sha parse" "\<lambda>s. distinct (map gv_id s)" gv_id
  for lc num sha parse
proof unfold_locales
  fix call s
  show "prefix s (evaluation_step lc num sha parse call s)" using evaluation_step_cases[of lc num sha parse call s] by auto
  show "distinct (map gv_id s) \<Longrightarrow> distinct (map gv_id (evaluation_step lc num sha parse call s))"
    using evaluation_step_cases[of lc num sha parse call s] by auto
qed

section \<open>Properties\<close>

text \<open>
  What an evaluation says, when it is the first under its id: blocked for a human when a blocker is named,
  else waiting for a trigger when something is waited for, else completed when every task of the plan is completed
  and every completion condition is among those satisfied, else a new revision. A blocker or a wait that is blank
  counts for nothing, and outranks finished work when it is not. The tasks it lists are the plan's tasks that are
  not completed. It is added to the store; otherwise the one stored under the id is returned and nothing changes.
\<close>

theorem evaluation_verdict:
  assumes "evaluate_goal lc num sha parse plan i evaluations = Inr (e, evaluations')"
  shows "evaluations' = evaluations @ [e] \<and> gv_id e \<notin> gv_id ` set evaluations
        \<and> (gv_status e, gv_action e) = verdict plan i
        \<and> gv_incomplete e = (if gv_status e = EvCompleted then [] else work_left plan i)
        \<and> gv_plan e = trim (pp_id plan) \<and> gv_goal e = trim (pp_goal_id plan) \<and> gv_revision e = trim (pp_revision_id plan)
    \<or> evaluations' = evaluations \<and> e \<in> set evaluations"
  using assms
proof (cases rule: evaluate_goal_cases)
  case (New n)
  have b: "pp_id plan = ge_plan i" "pp_goal_id plan = ge_goal i" "pp_revision_id plan = ge_revision i"
    using assms by (auto simp: evaluate_goal_def rbind_Inr_iff validateBinding_def)
  note d = decide_evaluation_verdict[OF New(2,3)]
  show ?thesis using New(1,4) d b by simp
qed simp

text \<open>
  Evaluating is idempotent: the same evaluation of the same plan, repeated after any other evaluations were
  made, returns what it returned and adds nothing; and however evaluations are made, no two stored ones share an id.
\<close>

theorem evaluation_idempotent:
  assumes "evaluate_goal lc num sha parse plan i (fold (evaluation_step lc num sha parse) before []) = Inr (e, evaluations)"
  shows "evaluate_goal lc num sha parse plan i (fold (evaluation_step lc num sha parse) calls evaluations)
      = Inr (e, fold (evaluation_step lc num sha parse) calls evaluations)
    \<and> distinct (map gv_id (fold (evaluation_step lc num sha parse) calls evaluations))"
proof -
  let ?before = "fold (evaluation_step lc num sha parse) before []"
  have d: "distinct (map gv_id ?before)" by (rule evaluation_log.run_inv) simp
  from assms have d': "distinct (map gv_id evaluations)" by (cases rule: evaluate_goal_cases) (use d in auto)
  obtain later where l: "fold (evaluation_step lc num sha parse) calls evaluations = evaluations @ later"
    using evaluation_log.run_extends[of evaluations lc num sha parse calls] by (auto simp: prefix_def)
  from assms have "evaluate_goal lc num sha parse plan i (evaluations @ later) = Inr (e, evaluations @ later)"
    by (cases rule: evaluate_goal_cases) auto
  moreover have "distinct (map gv_id (fold (evaluation_step lc num sha parse) calls evaluations))"
    by (rule evaluation_log.run_inv[OF d'])
  ultimately show ?thesis by (simp add: l)
qed

lemma superseded_update_refused:
  assumes inv: "plan_store_inv hash plans" and p: "p \<in> set plans" "q \<in> set plans" "pp_id p = i" "pp_id q = i"
    and later: "pp_revision_number p < pp_revision_number q" and u: "trim (up_expected_revision u) = pp_revision_id p"
  shows "\<exists>err. updateProposedPlan env now i u plans = Inl err"
proof (cases "latestRevision (revisions_of i plans)")
  case None
  then show ?thesis by (auto simp: updateProposedPlan_def revisions_of_def rbind_def split: sum.split)
next
  case (Some current)
  have lineage: "lineage_ok (revisions_of i plans)" using inv by (simp add: plan_store_inv_def)
  note cur = latest_in_lineage[OF this Some]
  have "q \<in> set (revisions_of i plans)" using p by (simp add: revisions_of_def)
  then have "pp_revision_number q \<le> length (revisions_of i plans)"
    using lineage by (auto simp: lineage_ok_def numbered_def in_set_conv_nth)
  then have "pp_revision_number p < pp_revision_number current" using later cur(4) by simp
  moreover have "plan_ok hash p" "plan_ok hash current" using inv p(1) cur(1) by (simp_all add: plan_store_inv_def)
  ultimately have "pp_revision_id current \<noteq> pp_revision_id p" by (auto simp: plan_ok_def revision_id_inject)
  then show ?thesis using Some u
    by (auto simp: updateProposedPlan_def revisions_of_def rbind_def cleanRequired_Inr split: sum.split)
qed

text \<open>
  An evaluation leads to one new revision of its plan at most: replanning succeeds only for an evaluation that
  says to continue and whose revision is the plan's current one, it adds the next revision of that plan and Goal,
  and from then on, whatever else happens to the store, replanning on the same evaluation is refused.
\<close>

theorem evaluation_spent:
  assumes "plan_store_inv hash plans" and "env_hash env = hash"
    and "createNextRevision env now e proposal plans = Inr (p, plans')"
  shows "gv_status e = EvContinue
    \<and> (\<exists>current. latestRevision (revisions_of (gv_plan e) plans) = Some current
        \<and> pp_revision_id current = trim (gv_revision e) \<and> plans' = plans @ [p] \<and> pp_id p = gv_plan e
        \<and> pp_revision_number p = Suc (pp_revision_number current) \<and> same_lineage p current)
    \<and> (\<exists>err. createNextRevision env' now' e proposal' (fold (plan_call_step hash) calls plans') = Inl err)"
proof -
  let ?u = "\<lambda>proposal. proposal\<lparr>up_expected_revision := gv_revision e,
             up_changed_by := (case up_changed_by proposal of None \<Rightarrow> Some ''goal-evaluator'' | Some a \<Rightarrow> Some a)\<rparr>"
  from assms(3) have c: "gv_status e = EvContinue" "gv_action e = NewPlanRevision"
    and up: "updateProposedPlan env now (gv_plan e) (?u proposal) plans = Inr (p, plans')"
    by (auto simp: createNextRevision_def split: if_splits sum.splits)
  from updateProposedPlan_Inr[OF assms(1,2) up] obtain current where
    cur: "latestRevision (revisions_of (gv_plan e) plans) = Some current" "pp_revision_id current = trim (gv_revision e)"
    and p: "plans' = plans @ [p]" "plan_ok hash p" "pp_id p = gv_plan e" "pp_revision_number p = Suc (pp_revision_number current)"
      "same_lineage p current" by auto
  have "env\<lparr>env_hash := hash\<rparr> = env" using assms(2) by (cases env) simp
  then have inv': "plan_store_inv hash plans'"
    using plan_call_step_inv[OF assms(1), of "UpdateCall env now (gv_plan e) (?u proposal)"] up by simp
  let ?later = "fold (plan_call_step hash) calls plans'"
  have inv'': "plan_store_inv hash ?later" by (rule plan_log.run_inv[OF inv'])
  have "prefix plans' ?later" by (rule plan_log.run_extends)
  then have "set plans' \<subseteq> set ?later" by (rule set_mono_prefix)
  moreover have "current \<in> set plans" "pp_id current = gv_plan e"
    using latest_in_lineage[OF _ cur(1)] assms(1) by (simp_all add: plan_store_inv_def)
  ultimately have "\<exists>err. updateProposedPlan env' now' (gv_plan e) (?u proposal') ?later = Inl err"
    using p cur(2) by (intro superseded_update_refused[OF inv'', of current p]) auto
  then have "\<exists>err. createNextRevision env' now' e proposal' ?later = Inl err" using c by (auto simp: createNextRevision_def)
  with c(1) cur p(1,3-5) show ?thesis by blast
qed

section \<open>The properties at a concrete plan\<close>

definition tiny_plan :: proposed_plan where
  "tiny_plan = \<lparr>pp_contract_version = 2, pp_id = ''p1'', pp_goal_id = ''g1'', pp_content = \<lparr>ct_summary = ''s'',
       ct_tasks = [chain_task ''a'' [], chain_task ''d'' [''a'']], ct_capabilities = [], ct_evidence = [],
       ct_approval_checkpoints = [], ct_completion_conditions = [\<lparr>cp_description = ''Done'', cp_depends_on = []\<rparr>]\<rparr>,
     pp_status = PlanDraft, pp_revision_number = 1, pp_previous_revision = None, pp_revision_id = ''p1:rev:1'',
     pp_content_hash = ''h'', pp_created_at = ''t'', pp_updated_at = ''t'',
     pp_created_revision = \<lparr>rv_revision = 1, rv_changed_at = ''t'', rv_changed_by = ''o''\<rparr>,
     pp_current_revision = \<lparr>rv_revision = 1, rv_changed_at = ''t'', rv_changed_by = ''o''\<rparr>\<rparr>"

definition finished_input :: evaluation_input where
  "finished_input = \<lparr>ge_goal = ''g1'', ge_plan = ''p1'', ge_revision = ''p1:rev:1'',
     ge_statuses = [(''a'', TaskCompleted), (''d'', TaskFailed)],
     ge_satisfied = [''Done ''], ge_blockers = Some ['' ''], ge_waiting = None, ge_at = ''now''\<rparr>"

definition toy_hash :: "string \<Rightarrow> string" where
  "toy_hash s = take 2 s"

definition example_evaluation :: goal_evaluation where
  "example_evaluation = \<lparr>gv_id = ''goal-evaluation:p1'', gv_goal = ''g1'', gv_plan = ''p1'', gv_revision = ''p1:rev:1'',
     gv_status = EvContinue, gv_action = NewPlanRevision, gv_reasons = [TaskFailedReason ''d''], gv_incomplete = [''d''],
     gv_at = ''now'', gv_input_hash = ''{'' @ [CHR 34]\<rparr>"

abbreviation "example_parse \<equiv> (\<lambda>s. if s = ''now'' then Some () else None)"

lemma example_evaluated:
  "evaluate_goal default (\<lambda>_. ''0'') toy_hash example_parse tiny_plan finished_input []
     = Inr (example_evaluation, [example_evaluation])"
  by code_simp

theorem evaluation_verdict_witness:
  "verdict tiny_plan finished_input = (EvContinue, NewPlanRevision)
    \<and> work_left tiny_plan finished_input = [''d''] \<and> trim (pp_id tiny_plan) = ''p1''"
  using evaluation_verdict[OF example_evaluated] by (simp add: example_evaluation_def)

theorem evaluation_idempotent_witness:
  "evaluate_goal default (\<lambda>_. ''0'') toy_hash example_parse tiny_plan finished_input [example_evaluation]
     = Inr (example_evaluation, [example_evaluation])"
proof -
  have "evaluate_goal default (\<lambda>_. ''0'') toy_hash example_parse tiny_plan finished_input
      (fold (evaluation_step default (\<lambda>_. ''0'') toy_hash example_parse) [] []) = Inr (example_evaluation, [example_evaluation])"
    by (simp add: example_evaluated)
  from evaluation_idempotent[OF this, of "[]"] show ?thesis by simp
qed

theorem evaluation_spent_witness:
  "\<exists>p plans'. createNextRevision sample_env ''t2'' example_evaluation sample_update sample_plans = Inr (p, plans')
    \<and> plans' = sample_plans @ [p] \<and> pp_id p = ''p1''
    \<and> (\<exists>err. createNextRevision sample_env ''t3'' example_evaluation sample_update plans' = Inl err)"
proof -
  obtain p plans' where ok: "updateProposedPlan sample_env ''t2'' ''p1'' sample_update sample_plans = Inr (p, plans')"
    by (rule sample_update_Inr)
  have same: "sample_update\<lparr>up_expected_revision := ''p1:rev:1'', up_changed_by := Some ''owner''\<rparr> = sample_update"
    by (simp add: sample_update_def)
  have "createNextRevision sample_env ''t2'' example_evaluation sample_update sample_plans = Inr (p, plans')"
    using ok same by (simp add: createNextRevision_def example_evaluation_def) (simp add: sample_update_def)
  from evaluation_spent[OF sample_plans_inv _ this, of sample_env "''t3''" sample_update "[]"] this
  show ?thesis by (auto simp: sample_env_def example_evaluation_def)
qed

end
