(* ===== verification/Replay_Store.thy ===== *)
theory Replay_Store
  imports Kernel_Prelude
begin

text \<open>
  What the repositories of quarantine recommendations and of recovery reviews share: an append that stores a new
  record or repeats the one its request is bound to, and a durable repository that keeps the list of records in a
  file and rebuilds the in-memory one from it, by replay, on every call
  (\<open>memory/durable-memory-quarantine-recommendation-repository.ts\<close>,
  \<open>durable-memory-recovery-review-repository.ts\<close>). The file is the list of records it holds, empty when there is
  none; its bytes, its schema version and its atomic replacement are outside the model. The interface
  \<open>replay_store\<close> is what an in-memory repository owes the durable one; from it follows that the durable
  repository behaves as the in-memory one.
\<close>

section \<open>Operations\<close>

datatype 'r stored_result = Stored 'r | Repeated 'r

definition stored_record :: "'r stored_result \<Rightarrow> 'r" where
  "stored_record x = (case x of Stored r \<Rightarrow> r | Repeated r \<Rightarrow> r)"

lemma stored_record_simps [simp]: "stored_record (Stored r) = r" "stored_record (Repeated r) = r"
  by (simp_all add: stored_record_def)

text \<open>The loop of \<open>loadRepository\<close>: append what each record holds, and compare what comes out.\<close>

primrec rebuild ::
  "('q \<Rightarrow> 's \<Rightarrow> 'e + 'r stored_result \<times> 's) \<Rightarrow> ('r \<Rightarrow> 'q) \<Rightarrow> ('r \<Rightarrow> 'r \<Rightarrow> bool) \<Rightarrow> 'e \<Rightarrow> 'r list \<Rightarrow> 's \<Rightarrow> 'e + 's" where
  "rebuild put request same bad [] s = Inr s"
| "rebuild put request same bad (r # rs) s =
     rbind (put (request r) s) (\<lambda>(replayed, s').
       if \<not> same (stored_record replayed) r then Inl bad else rebuild put request same bad rs s')"

definition load_store ::
  "('q \<Rightarrow> 's \<Rightarrow> 'e + 'r stored_result \<times> 's) \<Rightarrow> ('r \<Rightarrow> 'q) \<Rightarrow> ('r \<Rightarrow> 'r \<Rightarrow> bool) \<Rightarrow> ('r \<Rightarrow> bool) \<Rightarrow> 'e \<Rightarrow> 's \<Rightarrow> 'r list \<Rightarrow> 'e + 's" where
  "load_store put request same verify bad start f =
     rbind (each_res (\<lambda>r. throw_if (\<not> verify r) bad) f) (\<lambda>_. rebuild put request same bad f start)"

definition store_durably ::
  "('q \<Rightarrow> 's \<Rightarrow> 'e + 'r stored_result \<times> 's) \<Rightarrow> ('r list \<Rightarrow> 'e + 's) \<Rightarrow> 'q \<Rightarrow> 'r list \<Rightarrow> 'e + 'r stored_result \<times> 'r list" where
  "store_durably put load q f =
     rbind (load f) (\<lambda>s.
     rbind (put q s) (\<lambda>(res, _). Inr (res, case res of Repeated _ \<Rightarrow> f | Stored r \<Rightarrow> f @ [r])))"

text \<open>What a call leaves behind.\<close>

definition put_step :: "('q \<Rightarrow> 's \<Rightarrow> 'e + 'a \<times> 's) \<Rightarrow> 'q \<Rightarrow> 's \<Rightarrow> 's" where
  "put_step put q s = (case put q s of Inl _ \<Rightarrow> s | Inr (_, s') \<Rightarrow> s')"

lemma fold_put_inv:
  assumes "\<And>q s res s'. I s \<Longrightarrow> put q s = Inr (res, s') \<Longrightarrow> I s'" and "I s"
  shows "I (fold (put_step put) qs s)"
  using assms(2)
proof (induction qs arbitrary: s)
  case (Cons q qs)
  then have "I (put_step put q s)" using assms(1) by (auto simp: put_step_def split: sum.split)
  then show ?case using Cons.IH by simp
qed simp

text \<open>The maps of the in-memory repositories: a new key goes to the end, and looking up the keys of entries gives them back.\<close>

lemma alist_update_new: "map_of xs k = None \<Longrightarrow> AList.update k v xs = xs @ [(k, v)]"
  by (induction xs) (auto split: if_splits)

lemma map_filter_lookup: "(\<And>y. y \<in> set ys \<Longrightarrow> f (k y) = Some (v y)) \<Longrightarrow> List.map_filter f (map k ys) = map v ys"
  by (induction ys) (simp_all add: List.map_filter_simps)

section \<open>The interface\<close>

locale replay_store =
  fixes put :: "'q \<Rightarrow> 's \<Rightarrow> 'e + 'r stored_result \<times> 's"
    and request :: "'r \<Rightarrow> 'q"
    and same :: "'r \<Rightarrow> 'r \<Rightarrow> bool"
    and verify :: "'r \<Rightarrow> bool"
    and start :: 's
    and rows :: "'s \<Rightarrow> 'r list"
    and bad :: 'e
  assumes rows_start: "rows start = []"
    and same_refl: "same r r"
    and stored: "put q s = Inr (Stored r, s') \<Longrightarrow>
      verify r \<and> put (request r) s = Inr (Stored r, s') \<and> rows s' = rows s @ [r]"
    and repeated: "put q s = Inr (Repeated r, s') \<Longrightarrow> s' = s"
    and again: "put q s = Inr (res, s') \<Longrightarrow> put q s' = Inr (Repeated (stored_record res), s')"
begin

abbreviation durable_put :: "'q \<Rightarrow> 'r list \<Rightarrow> 'e + 'r stored_result \<times> 'r list" where
  "durable_put \<equiv> store_durably put (load_store put request same verify bad start)"

lemma append_rows: "put q s = Inr (res, s') \<Longrightarrow> rows s' = rows s @ (case res of Stored r \<Rightarrow> [r] | Repeated _ \<Rightarrow> [])"
  by (cases res) (auto dest: stored repeated)

lemma rebuild_append:
  "rebuild put request same bad (xs @ ys) s = rbind (rebuild put request same bad xs s) (rebuild put request same bad ys)"
proof (induction xs arbitrary: s)
  case (Cons x xs)
  then show ?case by (cases "put (request x) s") (auto split: prod.splits)
qed simp

lemma load_snoc:
  assumes "load_store put request same verify bad start f = Inr s" and "put q s = Inr (Stored r, s')"
  shows "load_store put request same verify bad start (f @ [r]) = Inr s'"
  using assms stored[OF assms(2)] same_refl
  by (auto simp: load_store_def rbind_Inr_iff each_res_Inr_iff rebuild_append)

text \<open>One call: the durable repository answers what the in-memory one does, and reloads to its state.\<close>

lemma durable_step:
  assumes load: "load_store put request same verify bad start (rows s) = Inr s"
  shows "durable_put q (rows s) = rbind (put q s) (\<lambda>(res, s'). Inr (res, rows s'))"
    and "put_step durable_put q (rows s) = rows (put_step put q s)"
    and "load_store put request same verify bad start (rows (put_step put q s)) = Inr (put_step put q s)"
proof -
  show eq: "durable_put q (rows s) = rbind (put q s) (\<lambda>(res, s'). Inr (res, rows s'))"
  proof (cases "put q s")
    case (Inr x)
    obtain res s' where x: "x = (res, s')" by (cases x)
    from append_rows[OF Inr[unfolded x]] show ?thesis
      by (cases res) (simp_all add: store_durably_def load Inr x)
  qed (simp add: store_durably_def load)
  show "put_step durable_put q (rows s) = rows (put_step put q s)"
    unfolding put_step_def eq by (cases "put q s") auto
  show "load_store put request same verify bad start (rows (put_step put q s)) = Inr (put_step put q s)"
  proof (cases "put q s")
    case (Inr x)
    obtain res s' where x: "x = (res, s')" by (cases x)
    show ?thesis
    proof (cases res)
      case (Stored r)
      then have "put q s = Inr (Stored r, s')" using Inr x by simp
      from load_snoc[OF load this] stored[OF this] show ?thesis by (simp add: put_step_def Inr x)
    next
      case (Repeated r)
      then have "s' = s" using Inr x repeated by blast
      then show ?thesis using load by (simp add: put_step_def Inr x)
    qed
  qed (simp add: put_step_def load)
qed

text \<open>Any number of calls, starting without a file.\<close>

lemma durable_run:
  "fold (put_step durable_put) qs [] = rows (fold (put_step put) qs start)
    \<and> load_store put request same verify bad start (rows (fold (put_step put) qs start)) = Inr (fold (put_step put) qs start)"
proof (induction qs rule: rev_induct)
  case Nil
  then show ?case by (simp add: load_store_def rows_start)
next
  case (snoc q qs)
  then show ?case using durable_step(2,3)[of "fold (put_step put) qs start" q] by simp
qed

lemma durable_refines:
  "durable_put q (fold (put_step durable_put) qs [])
    = rbind (put q (fold (put_step put) qs start)) (\<lambda>(res, s'). Inr (res, rows s'))"
  using durable_run[of qs] durable_step(1)[of "fold (put_step put) qs start" q] by simp

end

text \<open>The rows of such a store are an append-only log.\<close>

sublocale replay_store \<subseteq> append_log rows "put_step put"
proof
  fix q s
  show "prefix (rows s) (rows (put_step put q s))"
    by (cases "put q s") (auto simp: put_step_def append_rows split: prod.split)
qed

end
