(* ===== verification/Memory_Quarantine.thy ===== *)
theory Memory_Quarantine
  imports Replay_Store Receipt_Repository
begin

text \<open>
  The quarantine of memories: the evaluator that turns references to known risks into a read-only recommendation
  (\<open>memory/memory-quarantine-signal-evaluator.ts\<close>), and the repositories, in memory and durable, that keep the
  recommendations and tell which of them are stale (\<open>memory-quarantine-recommendation-repository.ts\<close>,
  \<open>durable-memory-quarantine-recommendation-repository.ts\<close>). Parameters: \<open>ident\<close> (the hex SHA-256 of
  \<open>JSON.stringify\<close>), \<open>digest\<close> (SHA-256 over the stable serialisation) and \<open>parse\<close> (\<open>Date.parse\<close>).
  Checks of a value's JavaScript type have no counterpart. Results: what is recommended, that the repository takes
  what the evaluator makes, what it holds, and when a recommendation is stale.
\<close>

section \<open>Data\<close>

datatype signal_type =
  UnresolvedContradiction | EvidenceInvalidation | ProvenanceGap | SourceIntegrityRisk | AdmissionInconsistency
| PolicyViolation | SupersessionConflict

datatype signal_severity = SeverityHigh | SeverityCritical

record quarantine_references =
  qr_contradictions :: "string list option"
  qr_evidence :: "string list option"
  qr_provenance :: "string list option"
  qr_source :: "string list option"
  qr_admission :: "string list option"
  qr_policy :: "string list option"
  qr_supersession :: "string list option"

record quarantine_input =
  qi_memory :: string
  qi_revision :: js_number
  qi_state :: memory_state
  qi_version :: string
  qi_at :: string
  qi_references :: quarantine_references

record quarantine_signal =
  qs_type :: signal_type
  qs_severity :: signal_severity
  qs_references :: "string list"

datatype quarantine_decision = NoQuarantineAction | RecommendQuarantine | RetainQuarantine | TerminalNoAction

record quarantine_recommendation =
  qm_id :: string
  qm_memory :: string
  qm_revision :: js_number
  qm_version :: string
  qm_at :: string
  qm_decision :: quarantine_decision
  qm_signals :: "quarantine_signal list"

record quarantine_result =
  qe_decision :: quarantine_decision
  qe_signals :: "quarantine_signal list"
  qe_recommendation :: "quarantine_recommendation option"

datatype quarantine_input_error =
  InvalidMemoryId | InvalidLifecycleRevision | InvalidEvaluatorVersion | InvalidEvaluatedAt | InvalidReferenceId signal_type

section \<open>The evaluator\<close>

definition SIGNAL_ORDER :: "signal_type list" where
  "SIGNAL_ORDER = [UnresolvedContradiction, EvidenceInvalidation, ProvenanceGap, SourceIntegrityRisk,
     AdmissionInconsistency, PolicyViolation, SupersessionConflict]"

definition EXPECTED_SEVERITY :: "signal_type \<Rightarrow> signal_severity" where
  "EXPECTED_SEVERITY t = (case t of UnresolvedContradiction \<Rightarrow> SeverityHigh | EvidenceInvalidation \<Rightarrow> SeverityCritical
     | ProvenanceGap \<Rightarrow> SeverityHigh | SourceIntegrityRisk \<Rightarrow> SeverityCritical | AdmissionInconsistency \<Rightarrow> SeverityCritical
     | PolicyViolation \<Rightarrow> SeverityCritical | SupersessionConflict \<Rightarrow> SeverityHigh)"

text \<open>\<open>SIGNAL_DEFINITIONS\<close>: type, severity and the references it selects, in order.\<close>

definition SIGNAL_DEFINITIONS :: "(signal_type \<times> signal_severity \<times> (quarantine_references \<Rightarrow> string list option)) list" where
  "SIGNAL_DEFINITIONS =
     [(UnresolvedContradiction, SeverityHigh, qr_contradictions), (EvidenceInvalidation, SeverityCritical, qr_evidence),
      (ProvenanceGap, SeverityHigh, qr_provenance), (SourceIntegrityRisk, SeverityCritical, qr_source),
      (AdmissionInconsistency, SeverityCritical, qr_admission), (PolicyViolation, SeverityCritical, qr_policy),
      (SupersessionConflict, SeverityHigh, qr_supersession)]"

definition normalizeReferenceIds :: "signal_type \<Rightarrow> string list option \<Rightarrow> quarantine_input_error + string list" where
  "normalizeReferenceIds t values = (case values of None \<Rightarrow> Inr []
     | Some vs \<Rightarrow> rbind (map_res (clean_within 240 (InvalidReferenceId t)) vs) (\<lambda>ids. Inr (sort_units (uniq ids))))"

text \<open>\<open>flatMap\<close>: a definition without references gives no signal.\<close>

fun collect_signals ::
  "quarantine_references \<Rightarrow> (signal_type \<times> signal_severity \<times> (quarantine_references \<Rightarrow> string list option)) list
   \<Rightarrow> quarantine_input_error + quarantine_signal list" where
  "collect_signals refs [] = Inr []"
| "collect_signals refs ((t, sev, select) # ds) =
     rbind (normalizeReferenceIds t (select refs)) (\<lambda>ids.
     rbind (collect_signals refs ds) (\<lambda>signals.
     Inr (if ids = [] then signals else \<lparr>qs_type = t, qs_severity = sev, qs_references = ids\<rparr> # signals)))"

definition signal_name :: "signal_type \<Rightarrow> string" where
  "signal_name t = (case t of UnresolvedContradiction \<Rightarrow> ''unresolved_contradiction'' | EvidenceInvalidation \<Rightarrow> ''evidence_invalidation''
     | ProvenanceGap \<Rightarrow> ''provenance_gap'' | SourceIntegrityRisk \<Rightarrow> ''source_integrity_risk''
     | AdmissionInconsistency \<Rightarrow> ''admission_inconsistency'' | PolicyViolation \<Rightarrow> ''policy_violation''
     | SupersessionConflict \<Rightarrow> ''supersession_conflict'')"

definition signal_value :: "quarantine_signal \<Rightarrow> js_value" where
  "signal_value s = JObject [(''type'', JString (signal_name (qs_type s))),
     (''severity'', JString (case qs_severity s of SeverityHigh \<Rightarrow> ''high'' | SeverityCritical \<Rightarrow> ''critical'')),
     (''referenceIds'', JArray (map JString (qs_references s)))]"

definition quarantine_id ::
  "(js_value \<Rightarrow> string) \<Rightarrow> string \<Rightarrow> js_number \<Rightarrow> string \<Rightarrow> quarantine_signal list \<Rightarrow> string" where
  "quarantine_id ident memory revision version signals = ''memory-quarantine:'' @ take 32 (ident (JObject
     [(''memoryId'', JString memory), (''lifecycleRevision'', JNumber revision), (''evaluatorVersion'', JString version),
      (''signals'', JArray (map signal_value signals))]))"

definition nonnegative_safe :: "js_number \<Rightarrow> bool" where
  "nonnegative_safe n \<longleftrightarrow> is_safe_integer n \<and> \<not> num_lt n (Fin 0)"

definition evaluateMemoryQuarantineSignals ::
  "(js_value \<Rightarrow> string) \<Rightarrow> (string \<Rightarrow> 'i option) \<Rightarrow> quarantine_input \<Rightarrow> quarantine_input_error + quarantine_result" where
  "evaluateMemoryQuarantineSignals ident parse i =
     rbind (clean_within 240 InvalidMemoryId (qi_memory i)) (\<lambda>memory.
     rbind (clean_within 240 InvalidEvaluatorVersion (qi_version i)) (\<lambda>version.
     rbind (throw_if (trim (qi_at i) = [] \<or> parse (trim (qi_at i)) = None) InvalidEvaluatedAt) (\<lambda>_.
     rbind (throw_if (\<not> nonnegative_safe (qi_revision i)) InvalidLifecycleRevision) (\<lambda>_.
     rbind (collect_signals (qi_references i) SIGNAL_DEFINITIONS) (\<lambda>signals.
     Inr (if isTerminalMemoryAuthorityState (qi_state i)
       then \<lparr>qe_decision = TerminalNoAction, qe_signals = signals, qe_recommendation = None\<rparr>
       else if signals = [] then \<lparr>qe_decision = NoQuarantineAction, qe_signals = [], qe_recommendation = None\<rparr>
       else let decision = (if qi_state i = MemQuarantined then RetainQuarantine else RecommendQuarantine) in
         \<lparr>qe_decision = decision, qe_signals = signals, qe_recommendation = Some
           \<lparr>qm_id = quarantine_id ident memory (qi_revision i) version signals, qm_memory = memory,
            qm_revision = qi_revision i, qm_version = version, qm_at = qi_at i, qm_decision = decision,
            qm_signals = signals\<rparr>\<rparr>))))))"

section \<open>The repository in memory\<close>

record stored_quarantine =
  sq_recommendation :: quarantine_recommendation
  sq_basis_digest :: string
  sq_integrity_digest :: string

datatype quarantine_conflict = QuarantineInvalidInput | QuarantineInvalidIdentity | QuarantineAlteredReplay | QuarantineInvalidIntegrity

definition required_quarantine :: "string \<Rightarrow> quarantine_conflict + string" where
  "required_quarantine = clean_within 240 QuarantineInvalidInput"

text \<open>The first loop of \<open>normalizeSignals\<close>: the references of each type, as a map of insertion-ordered sets.\<close>

fun gather_signals ::
  "(signal_type \<times> string list) list \<Rightarrow> quarantine_signal list \<Rightarrow> quarantine_conflict + (signal_type \<times> string list) list" where
  "gather_signals by_type [] = Inr by_type"
| "gather_signals by_type (s # ss) =
     rbind (throw_if (qs_severity s \<noteq> EXPECTED_SEVERITY (qs_type s)) QuarantineInvalidInput) (\<lambda>_.
     rbind (map_res required_quarantine (qs_references s)) (\<lambda>ids.
     gather_signals (AList.update (qs_type s) (uniq ((case map_of by_type (qs_type s) of None \<Rightarrow> [] | Some xs \<Rightarrow> xs) @ ids)) by_type) ss))"

definition normalizeSignals :: "quarantine_signal list \<Rightarrow> quarantine_conflict + quarantine_signal list" where
  "normalizeSignals signals = rbind (gather_signals [] signals) (\<lambda>by_type.
     Inr (concat (map (\<lambda>t. let ids = sort_units (case map_of by_type t of None \<Rightarrow> [] | Some xs \<Rightarrow> xs) in
       if ids = [] then [] else [\<lparr>qs_type = t, qs_severity = EXPECTED_SEVERITY t, qs_references = ids\<rparr>]) SIGNAL_ORDER)))"

definition normalizeRecommendation ::
  "(js_value \<Rightarrow> string) \<Rightarrow> (string \<Rightarrow> 'i option) \<Rightarrow> quarantine_recommendation \<Rightarrow> quarantine_conflict + quarantine_recommendation" where
  "normalizeRecommendation ident parse r =
     rbind (required_quarantine (qm_memory r)) (\<lambda>memory.
     rbind (required_quarantine (qm_version r)) (\<lambda>version.
     rbind (required_quarantine (qm_id r)) (\<lambda>rid.
     rbind (throw_if (\<not> nonnegative_safe (qm_revision r)) QuarantineInvalidInput) (\<lambda>_.
     rbind (throw_if (trim (qm_at r) = [] \<or> parse (trim (qm_at r)) = None) QuarantineInvalidInput) (\<lambda>_.
     rbind (throw_if (qm_decision r \<noteq> RecommendQuarantine \<and> qm_decision r \<noteq> RetainQuarantine) QuarantineInvalidInput) (\<lambda>_.
     rbind (normalizeSignals (qm_signals r)) (\<lambda>signals.
     rbind (throw_if (signals = []) QuarantineInvalidInput) (\<lambda>_.
     rbind (throw_if (rid \<noteq> quarantine_id ident memory (qm_revision r) version signals) QuarantineInvalidIdentity) (\<lambda>_.
     Inr \<lparr>qm_id = rid, qm_memory = memory, qm_revision = qm_revision r, qm_version = version, qm_at = trim (qm_at r),
       qm_decision = qm_decision r, qm_signals = signals\<rparr>)))))))))"

definition decision_name :: "quarantine_decision \<Rightarrow> string" where
  "decision_name d = (case d of NoQuarantineAction \<Rightarrow> ''no_action'' | RecommendQuarantine \<Rightarrow> ''recommend_quarantine''
     | RetainQuarantine \<Rightarrow> ''retain_quarantine'' | TerminalNoAction \<Rightarrow> ''terminal_no_action'')"

definition basis_fields :: "quarantine_recommendation \<Rightarrow> (string \<times> js_value) list" where
  "basis_fields r = [(''recommendationId'', JString (qm_id r)), (''memoryId'', JString (qm_memory r)),
     (''lifecycleRevision'', JNumber (qm_revision r)), (''evaluatorVersion'', JString (qm_version r)),
     (''status'', JString ''pending''), (''decision'', JString (decision_name (qm_decision r))),
     (''signals'', JArray (map signal_value (qm_signals r)))]"

definition stored_base :: "quarantine_recommendation \<Rightarrow> string \<Rightarrow> js_value" where
  "stored_base r basis = JObject (basis_fields r @ [(''recommendedAt'', JString (qm_at r)), (''basisDigest'', JString basis)])"

definition store_quarantine :: "(js_value \<Rightarrow> string) \<Rightarrow> quarantine_recommendation \<Rightarrow> stored_quarantine" where
  "store_quarantine digest r = (let basis = digest (JObject (basis_fields r)) in
     \<lparr>sq_recommendation = r, sq_basis_digest = basis, sq_integrity_digest = digest (stored_base r basis)\<rparr>)"

definition verify_quarantine :: "(js_value \<Rightarrow> string) \<Rightarrow> stored_quarantine \<Rightarrow> bool" where
  "verify_quarantine digest s \<longleftrightarrow> digest (stored_base (sq_recommendation s) (sq_basis_digest s)) = sq_integrity_digest s"

record quarantine_repository =
  qp_by_id :: "(string \<times> stored_quarantine) list"
  qp_ids :: "(string \<times> string list) list"

definition no_recommendations :: quarantine_repository where
  "no_recommendations = \<lparr>qp_by_id = [], qp_ids = []\<rparr>"

definition append_quarantine ::
  "(js_value \<Rightarrow> string) \<Rightarrow> (js_value \<Rightarrow> string) \<Rightarrow> (string \<Rightarrow> 'i option) \<Rightarrow> quarantine_recommendation \<Rightarrow> quarantine_repository
   \<Rightarrow> quarantine_conflict + stored_quarantine stored_result \<times> quarantine_repository" where
  "append_quarantine ident digest parse r s =
     rbind (normalizeRecommendation ident parse r) (\<lambda>n.
     case map_of (qp_by_id s) (qm_id n) of
       Some existing \<Rightarrow>
         if sq_basis_digest existing \<noteq> digest (JObject (basis_fields n)) then Inl QuarantineAlteredReplay
         else Inr (Repeated existing, s)
     | None \<Rightarrow>
         let stored = store_quarantine digest n;
             ids = (case map_of (qp_ids s) (qm_memory n) of None \<Rightarrow> [] | Some xs \<Rightarrow> xs) in
         Inr (Stored stored, \<lparr>qp_by_id = AList.update (qm_id n) stored (qp_by_id s),
           qp_ids = AList.update (qm_memory n) (ids @ [qm_id n]) (qp_ids s)\<rparr>))"

definition list_quarantine :: "string option \<Rightarrow> quarantine_repository \<Rightarrow> quarantine_conflict + stored_quarantine list" where
  "list_quarantine memory s = (case memory of None \<Rightarrow> Inr (map snd (qp_by_id s))
     | Some m \<Rightarrow> rbind (required_quarantine m) (\<lambda>n.
         Inr (List.map_filter (map_of (qp_by_id s)) (case map_of (qp_ids s) n of None \<Rightarrow> [] | Some xs \<Rightarrow> xs))))"

definition get_quarantine :: "string \<Rightarrow> quarantine_repository \<Rightarrow> quarantine_conflict + stored_quarantine option" where
  "get_quarantine i s = rbind (required_quarantine i) (\<lambda>n. Inr (map_of (qp_by_id s) n))"

section \<open>Freshness\<close>

datatype stale_reason = RevisionChanged | VersionChanged | SignalBasisChanged

definition quarantine_freshness ::
  "(js_value \<Rightarrow> string) \<Rightarrow> (string \<Rightarrow> 'i option) \<Rightarrow> quarantine_recommendation \<Rightarrow> js_number \<Rightarrow> string \<Rightarrow> quarantine_signal list
   \<Rightarrow> quarantine_conflict + stale_reason list" where
  "quarantine_freshness ident parse r revision version signals =
     rbind (normalizeRecommendation ident parse r) (\<lambda>n.
     rbind (throw_if (\<not> nonnegative_safe revision) QuarantineInvalidInput) (\<lambda>_.
     rbind (required_quarantine version) (\<lambda>current_version.
     rbind (normalizeSignals signals) (\<lambda>current.
     Inr ((if revision \<noteq> qm_revision n then [RevisionChanged] else [])
       @ (if current_version \<noteq> qm_version n then [VersionChanged] else [])
       @ (if quarantine_id ident (qm_memory n) revision current_version current \<noteq> qm_id n then [SignalBasisChanged] else []))))))"

section \<open>The durable repository\<close>

definition same_quarantine :: "stored_quarantine \<Rightarrow> stored_quarantine \<Rightarrow> bool" where
  "same_quarantine x y \<longleftrightarrow> sq_basis_digest x = sq_basis_digest y \<and> sq_integrity_digest x = sq_integrity_digest y"

definition load_quarantine ::
  "(js_value \<Rightarrow> string) \<Rightarrow> (js_value \<Rightarrow> string) \<Rightarrow> (string \<Rightarrow> 'i option) \<Rightarrow> stored_quarantine list \<Rightarrow> quarantine_conflict + quarantine_repository" where
  "load_quarantine ident digest parse = load_store (append_quarantine ident digest parse) sq_recommendation same_quarantine
     (verify_quarantine digest) QuarantineInvalidIntegrity no_recommendations"

definition durable_append_quarantine ::
  "(js_value \<Rightarrow> string) \<Rightarrow> (js_value \<Rightarrow> string) \<Rightarrow> (string \<Rightarrow> 'i option) \<Rightarrow> quarantine_recommendation \<Rightarrow> stored_quarantine list
   \<Rightarrow> quarantine_conflict + stored_quarantine stored_result \<times> stored_quarantine list" where
  "durable_append_quarantine ident digest parse = store_durably (append_quarantine ident digest parse) (load_quarantine ident digest parse)"

definition durable_list_quarantine ::
  "(js_value \<Rightarrow> string) \<Rightarrow> (js_value \<Rightarrow> string) \<Rightarrow> (string \<Rightarrow> 'i option) \<Rightarrow> string option \<Rightarrow> stored_quarantine list
   \<Rightarrow> quarantine_conflict + stored_quarantine list" where
  "durable_list_quarantine ident digest parse memory f = rbind (load_quarantine ident digest parse f) (list_quarantine memory)"

definition durable_get_quarantine ::
  "(js_value \<Rightarrow> string) \<Rightarrow> (js_value \<Rightarrow> string) \<Rightarrow> (string \<Rightarrow> 'i option) \<Rightarrow> string \<Rightarrow> stored_quarantine list
   \<Rightarrow> quarantine_conflict + stored_quarantine option" where
  "durable_get_quarantine ident digest parse i f = rbind (load_quarantine ident digest parse f) (get_quarantine i)"

section \<open>Signals in normal form\<close>

definition clean_ids :: "(signal_type \<Rightarrow> string list) \<Rightarrow> bool" where
  "clean_ids g \<longleftrightarrow> (\<forall>t. sort_units (uniq (g t)) = g t \<and> (\<forall>x\<in>set (g t). clean_text 240 x))"

definition canonical_signals :: "(signal_type \<Rightarrow> string list) \<Rightarrow> signal_type list \<Rightarrow> quarantine_signal list" where
  "canonical_signals g ts = concat (map (\<lambda>t. if g t = [] then []
     else [\<lparr>qs_type = t, qs_severity = EXPECTED_SEVERITY t, qs_references = g t\<rparr>]) ts)"

lemma map_res_clean:
  "map_res (clean_within n e) vs = Inr ids \<Longrightarrow> ids = map trim vs \<and> (\<forall>x\<in>set ids. clean_text n x)"
  by (induction vs arbitrary: ids) (auto simp: rbind_Inr_iff clean_within_Inr)

lemma sort_units_Nil: "sort_units [] = []"
  by simp

lemma sort_units_idem: "sort_units (sort_units xs) = sort_units xs"
  by (simp add: sort_units_def sorted_sort_id)

lemma clean_within_id: "clean_text n x \<Longrightarrow> clean_within n e x = Inr x"
  by (simp add: clean_within_Inr clean_text_trim)

lemma map_res_clean_id: "\<forall>x\<in>set vs. clean_text n x \<Longrightarrow> map_res (clean_within n e) vs = Inr vs"
  by (induction vs) (auto simp: clean_within_id)

lemma clean_ids_distinct: "clean_ids g \<Longrightarrow> distinct (g t)"
  by (metis clean_ids_def distinct_sort_units distinct_uniq)

lemma clean_ids_sorted: "clean_ids g \<Longrightarrow> sort_units (g t) = g t"
  by (metis clean_ids_def clean_ids_distinct uniq_distinct)

lemma gather_signals_canonical:
  assumes "clean_ids g"
  shows "distinct ts \<Longrightarrow> (\<forall>t\<in>set ts. map_of bt t = None) \<Longrightarrow>
    \<exists>bt'. gather_signals bt (canonical_signals g ts) = Inr bt'
      \<and> (\<forall>t. map_of bt' t = (if t \<in> set ts \<and> g t \<noteq> [] then Some (g t) else map_of bt t))"
proof (induction ts arbitrary: bt)
  case Nil
  then show ?case by (simp add: canonical_signals_def)
next
  case (Cons t ts)
  show ?case
  proof (cases "g t = []")
    case True
    then have "canonical_signals g (t # ts) = canonical_signals g ts" by (simp add: canonical_signals_def)
    then show ?thesis using Cons.IH[of bt] Cons.prems True by auto
  next
    case False
    let ?s = "\<lparr>qs_type = t, qs_severity = EXPECTED_SEVERITY t, qs_references = g t\<rparr>"
    let ?bt = "AList.update t (g t) bt"
    have c: "canonical_signals g (t # ts) = ?s # canonical_signals g ts" using False by (simp add: canonical_signals_def)
    have "map_res required_quarantine (g t) = Inr (g t)"
      using assms by (simp add: required_quarantine_def clean_ids_def map_res_clean_id)
    then have "gather_signals bt (?s # canonical_signals g ts) = gather_signals ?bt (canonical_signals g ts)"
      using Cons.prems(2) clean_ids_distinct[OF assms] by (simp add: uniq_distinct)
    moreover have "\<forall>x\<in>set ts. map_of ?bt x = None" using Cons.prems by (auto simp: update_conv')
    ultimately show ?thesis using Cons.IH[of ?bt] Cons.prems False unfolding c by (auto simp: update_conv')
  qed
qed

lemma SIGNAL_ORDER_all: "set SIGNAL_ORDER = UNIV" "distinct SIGNAL_ORDER"
proof -
  have "t \<in> set SIGNAL_ORDER" for t by (cases t) (simp_all add: SIGNAL_ORDER_def)
  then show "set SIGNAL_ORDER = UNIV" by auto
qed (simp add: SIGNAL_ORDER_def)

abbreviation gathered :: "(signal_type \<times> string list) list \<Rightarrow> signal_type \<Rightarrow> string list" where
  "gathered bt t \<equiv> sort_units (case map_of bt t of None \<Rightarrow> [] | Some xs \<Rightarrow> xs)"

lemma normalizeSignals_eq:
  "normalizeSignals ss = rbind (gather_signals [] ss) (\<lambda>bt. Inr (canonical_signals (gathered bt) SIGNAL_ORDER))"
  by (simp add: normalizeSignals_def canonical_signals_def Let_def)

lemma normalizeSignals_canonical:
  assumes "clean_ids g"
  shows "normalizeSignals (canonical_signals g SIGNAL_ORDER) = Inr (canonical_signals g SIGNAL_ORDER)"
proof -
  obtain bt where "gather_signals [] (canonical_signals g SIGNAL_ORDER) = Inr bt"
    and bt: "map_of bt t = (if g t \<noteq> [] then Some (g t) else None)" for t
    using gather_signals_canonical[OF assms SIGNAL_ORDER_all(2), of "[]"] by (auto simp: SIGNAL_ORDER_all(1))
  moreover have "gathered bt = g" using clean_ids_sorted[OF assms] by (intro ext) (simp add: bt)
  ultimately show ?thesis by (simp add: normalizeSignals_eq)
qed

lemma gather_signals_clean:
  "gather_signals bt ss = Inr bt' \<Longrightarrow> \<forall>t xs. map_of bt t = Some xs \<longrightarrow> distinct xs \<and> (\<forall>x\<in>set xs. clean_text 240 x)
    \<Longrightarrow> \<forall>t xs. map_of bt' t = Some xs \<longrightarrow> distinct xs \<and> (\<forall>x\<in>set xs. clean_text 240 x)"
proof (induction bt ss arbitrary: bt' rule: gather_signals.induct)
  case (2 bt s ss)
  then obtain ids where ids: "map_res required_quarantine (qs_references s) = Inr ids"
    and sev: "throw_if (qs_severity s \<noteq> EXPECTED_SEVERITY (qs_type s)) QuarantineInvalidInput = Inr ()"
    and rest: "gather_signals (AList.update (qs_type s) (uniq ((case map_of bt (qs_type s) of None \<Rightarrow> [] | Some xs \<Rightarrow> xs) @ ids)) bt) ss = Inr bt'"
    by (auto simp: rbind_Inr_iff)
  have "\<forall>x\<in>set ids. clean_text 240 x" using map_res_clean[OF ids[unfolded required_quarantine_def]] by simp
  then show ?case
    using "2.prems"(2) by (intro "2.IH"[OF sev ids rest], cases "map_of bt (qs_type s)") (auto simp: update_conv' split: if_splits)
qed simp

lemma normalizeSignals_Inr:
  assumes "normalizeSignals ss = Inr out"
  obtains g where "clean_ids g" "out = canonical_signals g SIGNAL_ORDER"
proof -
  from assms obtain bt where bt: "gather_signals [] ss = Inr bt"
    and out: "out = canonical_signals (gathered bt) SIGNAL_ORDER"
    by (auto simp: normalizeSignals_eq rbind_Inr_iff)
  have "sort_units (uniq (gathered bt t)) = gathered bt t \<and> (\<forall>x\<in>set (gathered bt t). clean_text 240 x)" for t
    using gather_signals_clean[OF bt] by (cases "map_of bt t") (auto simp: uniq_distinct sort_units_idem)
  then have "clean_ids (gathered bt)" by (simp add: clean_ids_def)
  with out that show thesis by blast
qed

lemma normalizeSignals_idem: "normalizeSignals ss = Inr out \<Longrightarrow> normalizeSignals out = Inr out"
  by (elim normalizeSignals_Inr) (simp add: normalizeSignals_canonical)

text \<open>What the evaluator collects is in normal form.\<close>

definition references_of :: "quarantine_references \<Rightarrow> signal_type \<Rightarrow> string list" where
  "references_of refs t = (case (case t of UnresolvedContradiction \<Rightarrow> qr_contradictions refs | EvidenceInvalidation \<Rightarrow> qr_evidence refs
     | ProvenanceGap \<Rightarrow> qr_provenance refs | SourceIntegrityRisk \<Rightarrow> qr_source refs | AdmissionInconsistency \<Rightarrow> qr_admission refs
     | PolicyViolation \<Rightarrow> qr_policy refs | SupersessionConflict \<Rightarrow> qr_supersession refs) of None \<Rightarrow> [] | Some vs \<Rightarrow> vs)"

definition normal_references :: "quarantine_references \<Rightarrow> signal_type \<Rightarrow> string list" where
  "normal_references refs t = sort_units (uniq (map trim (references_of refs t)))"

lemma normalizeReferenceIds_Inr:
  "normalizeReferenceIds t vs = Inr ids \<Longrightarrow>
     ids = sort_units (uniq (map trim (case vs of None \<Rightarrow> [] | Some xs \<Rightarrow> xs))) \<and> (\<forall>x\<in>set ids. clean_text 240 x)"
  by (auto simp: normalizeReferenceIds_def rbind_Inr_iff sort_units_Nil dest!: map_res_clean split: option.splits)

lemma collect_signals_Inr:
  assumes "collect_signals refs SIGNAL_DEFINITIONS = Inr signals"
  shows "signals = canonical_signals (normal_references refs) SIGNAL_ORDER" and "clean_ids (normal_references refs)"
proof -
  have def: "sev = EXPECTED_SEVERITY t \<and> (case select refs of None \<Rightarrow> [] | Some xs \<Rightarrow> xs) = references_of refs t"
    if "(t, sev, select) \<in> set SIGNAL_DEFINITIONS" for t sev select refs
    using that by (auto simp: SIGNAL_DEFINITIONS_def references_of_def EXPECTED_SEVERITY_def)
  have "collect_signals refs ds = Inr signals \<Longrightarrow> set ds \<subseteq> set SIGNAL_DEFINITIONS \<Longrightarrow>
      signals = canonical_signals (normal_references refs) (map fst ds)
      \<and> (\<forall>t\<in>fst ` set ds. \<forall>x\<in>set (normal_references refs t). clean_text 240 x)" for ds signals
  proof (induction refs ds arbitrary: signals rule: collect_signals.induct)
    case (2 refs t sev select ds)
    then obtain ids rest where ids: "normalizeReferenceIds t (select refs) = Inr ids" and rest: "collect_signals refs ds = Inr rest"
      and signals: "signals = (if ids = [] then rest else \<lparr>qs_type = t, qs_severity = sev, qs_references = ids\<rparr> # rest)"
      by (auto simp: rbind_Inr_iff)
    have "(t, sev, select) \<in> set SIGNAL_DEFINITIONS" using "2.prems"(2) by simp
    note d = def[OF this]
    have "ids = normal_references refs t \<and> (\<forall>x\<in>set ids. clean_text 240 x) \<and> sev = EXPECTED_SEVERITY t"
      using normalizeReferenceIds_Inr[OF ids] d unfolding normal_references_def by metis
    then have "ids = normal_references refs t" "\<forall>x\<in>set ids. clean_text 240 x" "sev = EXPECTED_SEVERITY t" by blast+
    moreover have "rest = canonical_signals (normal_references refs) (map fst ds)"
      "\<forall>t\<in>fst ` set ds. \<forall>x\<in>set (normal_references refs t). clean_text 240 x"
      using "2.IH"[OF ids rest] "2.prems"(2) by auto
    ultimately show ?case by (auto simp: signals canonical_signals_def)
  qed (simp add: canonical_signals_def)
  note this[OF assms order_refl]
  moreover have "map fst SIGNAL_DEFINITIONS = SIGNAL_ORDER" by (simp add: SIGNAL_DEFINITIONS_def SIGNAL_ORDER_def)
  ultimately show "signals = canonical_signals (normal_references refs) SIGNAL_ORDER"
    and "clean_ids (normal_references refs)"
    using SIGNAL_ORDER_all(1) by (auto simp: clean_ids_def normal_references_def sort_units_fixpoint simp flip: set_map)
qed

section \<open>Recommendations in normal form\<close>

text \<open>The hex digits SHA-256 is printed with.\<close>

definition prints_hex :: "('a \<Rightarrow> string) \<Rightarrow> bool" where
  "prints_hex f \<longleftrightarrow> (\<forall>v. set (f v) \<subseteq> set ''0123456789abcdef'')"

lemma trim_no_space: "(\<forall>c\<in>set s. \<not> js_space c) \<Longrightarrow> trim s = s"
proof -
  assume s: "\<forall>c\<in>set s. \<not> js_space c"
  have "dropWhile js_space s = s" using s by (cases s) auto
  moreover have "dropWhile js_space (rev s) = rev s" using s by (cases "rev s") (auto simp: dropWhile_eq_self_iff hd_in_set)
  ultimately show ?thesis by (simp add: trim_def)
qed

lemma clean_prefix_hex:
  assumes "set d \<subseteq> set ''0123456789abcdef''" "list_all (\<lambda>c. \<not> js_space c \<and> \<not> js_control c) p" "p \<noteq> []" "length p + length d \<le> n"
  shows "clean_text n (p @ d)"
proof -
  have "list_all (\<lambda>c. \<not> js_space c \<and> \<not> js_control c) ''0123456789abcdef''" by code_simp
  then have "\<forall>c\<in>set (p @ d). \<not> js_space c \<and> \<not> js_control c" using assms(1,2) unfolding list_all_iff set_append by blast
  then show ?thesis using assms(3,4) by (auto simp: clean_text_def trim_no_space list_ex_iff)
qed

lemma quarantine_id_clean:
  assumes "prints_hex ident"
  shows "clean_text 240 (quarantine_id ident m r v ss)"
  unfolding quarantine_id_def
proof (rule clean_prefix_hex)
  show "set (take 32 (ident v)) \<subseteq> set ''0123456789abcdef''" for v
    by (rule order_trans[OF set_take_subset], rule spec[OF assms[unfolded prints_hex_def]])
  show "list_all (\<lambda>c. \<not> js_space c \<and> \<not> js_control c) ''memory-quarantine:''" by code_simp
qed simp_all

definition normal_recommendation ::
  "(js_value \<Rightarrow> string) \<Rightarrow> (string \<Rightarrow> 'i option) \<Rightarrow> quarantine_recommendation \<Rightarrow> bool" where
  "normal_recommendation ident parse r \<longleftrightarrow> clean_text 240 (qm_memory r) \<and> clean_text 240 (qm_version r) \<and> clean_text 240 (qm_id r)
     \<and> nonnegative_safe (qm_revision r) \<and> trim (qm_at r) = qm_at r \<and> qm_at r \<noteq> [] \<and> parse (qm_at r) \<noteq> None
     \<and> (qm_decision r = RecommendQuarantine \<or> qm_decision r = RetainQuarantine)
     \<and> (\<exists>g. clean_ids g \<and> qm_signals r = canonical_signals g SIGNAL_ORDER) \<and> qm_signals r \<noteq> []
     \<and> qm_id r = quarantine_id ident (qm_memory r) (qm_revision r) (qm_version r) (qm_signals r)"

lemma normalizeRecommendation_normal:
  "normalizeRecommendation ident parse r = Inr n \<Longrightarrow> normal_recommendation ident parse n"
  unfolding normalizeRecommendation_def normal_recommendation_def
  by (auto simp: rbind_Inr_iff required_quarantine_def clean_within_Inr elim!: normalizeSignals_Inr)

lemma normalizeRecommendation_fields:
  assumes "normalizeRecommendation ident parse r = Inr n"
  shows "qm_memory n = trim (qm_memory r)" "qm_id n = trim (qm_id r)" "qm_decision n = qm_decision r" "qm_revision n = qm_revision r"
    "qm_version n = trim (qm_version r)" "normalizeSignals (qm_signals r) = Inr (qm_signals n)"
  using assms by (auto simp: normalizeRecommendation_def rbind_Inr_iff required_quarantine_def clean_within_Inr)

lemma normal_recommendation_fixpoint:
  assumes "normal_recommendation ident parse n"
  shows "normalizeRecommendation ident parse n = Inr n"
proof -
  have "normalizeSignals (qm_signals n) = Inr (qm_signals n)"
    using assms by (auto simp: normal_recommendation_def normalizeSignals_canonical)
  then show ?thesis using assms
    by (auto simp: normalizeRecommendation_def normal_recommendation_def required_quarantine_def clean_within_id)
qed

lemma evaluate_recommendation:
  assumes "evaluateMemoryQuarantineSignals ident parse i = Inr r" "qe_recommendation r = Some m" "prints_hex ident"
  shows "normalizeRecommendation ident parse m = Inr (m\<lparr>qm_at := trim (qm_at m)\<rparr>)"
    and "qm_revision m = qi_revision i" "qm_version m = trim (qi_version i)" "qm_memory m = trim (qi_memory i)"
    and "qm_signals m = canonical_signals (normal_references (qi_references i)) SIGNAL_ORDER" "qm_signals m \<noteq> []"
    and "nonnegative_safe (qi_revision i)" "clean_text 240 (qm_version m)" "qm_at m = qi_at i"
proof -
  from assms(1,2) obtain signals where f: "clean_text 240 (trim (qi_memory i))" "clean_text 240 (trim (qi_version i))"
      "trim (qi_at i) \<noteq> []" "parse (trim (qi_at i)) \<noteq> None" "nonnegative_safe (qi_revision i)"
    and signals: "collect_signals (qi_references i) SIGNAL_DEFINITIONS = Inr signals"
    and m: "m = \<lparr>qm_id = quarantine_id ident (trim (qi_memory i)) (qi_revision i) (trim (qi_version i)) signals,
        qm_memory = trim (qi_memory i), qm_revision = qi_revision i, qm_version = trim (qi_version i), qm_at = qi_at i,
        qm_decision = (if qi_state i = MemQuarantined then RetainQuarantine else RecommendQuarantine), qm_signals = signals\<rparr>"
    and ne: "signals \<noteq> []"
    by (auto simp: evaluateMemoryQuarantineSignals_def rbind_Inr_iff clean_within_Inr Let_def split: if_splits)
  note c = collect_signals_Inr[OF signals]
  have "normalizeSignals signals = Inr signals" using normalizeSignals_canonical[OF c(2)] by (simp add: c(1))
  moreover obtain d where "parse (trim (qi_at i)) = Some d" using f(4) by blast
  ultimately show "normalizeRecommendation ident parse m = Inr (m\<lparr>qm_at := trim (qm_at m)\<rparr>)"
    using f(1-3,5) ne quarantine_id_clean[OF assms(3)] by (simp add: normalizeRecommendation_def required_quarantine_def clean_within_id m)
  show "qm_revision m = qi_revision i" "qm_version m = trim (qi_version i)" "qm_memory m = trim (qi_memory i)"
    "qm_signals m = canonical_signals (normal_references (qi_references i)) SIGNAL_ORDER" "qm_signals m \<noteq> []"
    "nonnegative_safe (qi_revision i)" "clean_text 240 (qm_version m)" "qm_at m = qi_at i"
    using f c ne by (simp_all add: m)
qed

section \<open>The repository\<close>

definition genuine_quarantine ::
  "(js_value \<Rightarrow> string) \<Rightarrow> (js_value \<Rightarrow> string) \<Rightarrow> (string \<Rightarrow> 'i option) \<Rightarrow> stored_quarantine \<Rightarrow> bool" where
  "genuine_quarantine ident digest parse x \<longleftrightarrow> normal_recommendation ident parse (sq_recommendation x)
     \<and> x = store_quarantine digest (sq_recommendation x)"

definition quarantine_inv ::
  "(js_value \<Rightarrow> string) \<Rightarrow> (js_value \<Rightarrow> string) \<Rightarrow> (string \<Rightarrow> 'i option) \<Rightarrow> quarantine_repository \<Rightarrow> bool" where
  "quarantine_inv ident digest parse s \<longleftrightarrow> distinct (map fst (qp_by_id s))
     \<and> (\<forall>(i, x)\<in>set (qp_by_id s). qm_id (sq_recommendation x) = i \<and> genuine_quarantine ident digest parse x)
     \<and> (\<forall>m. (case map_of (qp_ids s) m of None \<Rightarrow> [] | Some xs \<Rightarrow> xs)
          = map fst (filter (\<lambda>(i, x). qm_memory (sq_recommendation x) = m) (qp_by_id s)))"

lemma quarantine_inv_empty: "quarantine_inv ident digest parse no_recommendations"
  by (simp add: quarantine_inv_def no_recommendations_def)

lemma store_quarantine_recommendation [simp]: "sq_recommendation (store_quarantine digest r) = r"
  by (simp add: store_quarantine_def Let_def)

lemma append_quarantine_cases:
  assumes "append_quarantine ident digest parse r s = Inr (res, s')"
  obtains (Known) x n where "res = Repeated x" "s' = s" "normalizeRecommendation ident parse r = Inr n"
      "map_of (qp_by_id s) (qm_id n) = Some x" "sq_basis_digest x = digest (JObject (basis_fields n))"
  | (New) n where "normalizeRecommendation ident parse r = Inr n" "res = Stored (store_quarantine digest n)"
      "map_of (qp_by_id s) (qm_id n) = None" "qp_by_id s' = qp_by_id s @ [(qm_id n, store_quarantine digest n)]"
      "qp_ids s' = AList.update (qm_memory n) ((case map_of (qp_ids s) (qm_memory n) of None \<Rightarrow> [] | Some xs \<Rightarrow> xs) @ [qm_id n]) (qp_ids s)"
proof -
  from assms obtain n where n: "normalizeRecommendation ident parse r = Inr n" by (auto simp: append_quarantine_def rbind_Inr_iff)
  show thesis
  proof (cases "map_of (qp_by_id s) (qm_id n)")
    case None
    with assms n show thesis by (intro New[of n]) (auto simp: append_quarantine_def Let_def alist_update_new)
  next
    case (Some x)
    with assms n show thesis by (intro Known[of x n]) (auto simp: append_quarantine_def split: if_splits)
  qed
qed

lemma quarantine_inv_append:
  assumes inv: "quarantine_inv ident digest parse s" and ok: "append_quarantine ident digest parse r s = Inr (res, s')"
  shows "quarantine_inv ident digest parse s'"
  using ok
proof (cases rule: append_quarantine_cases)
  case (New n)
  have "normal_recommendation ident parse n" using New(1) by (rule normalizeRecommendation_normal)
  then have "genuine_quarantine ident digest parse (store_quarantine digest n)" by (simp add: genuine_quarantine_def)
  moreover have "qm_id n \<notin> fst ` set (qp_by_id s)" using New(3) by (simp add: map_of_eq_None_iff)
  moreover have "(case map_of (qp_ids s') m of None \<Rightarrow> [] | Some xs \<Rightarrow> xs)
      = map fst (filter (\<lambda>(i, x). qm_memory (sq_recommendation x) = m) (qp_by_id s'))" for m
    using inv by (simp add: quarantine_inv_def New(4,5) update_conv')
  ultimately show ?thesis using inv by (auto simp: quarantine_inv_def New(4))
qed (use inv in simp)

interpretation quarantine_store: replay_store "append_quarantine ident digest parse" sq_recommendation same_quarantine
  "verify_quarantine digest" no_recommendations "\<lambda>s. map snd (qp_by_id s)" QuarantineInvalidIntegrity for ident digest parse
proof
  show "map snd (qp_by_id no_recommendations) = []" by (simp add: no_recommendations_def)
  show "same_quarantine r r" for r by (simp add: same_quarantine_def)
next
  fix q s r s'
  assume ok: "append_quarantine ident digest parse q s = Inr (Stored r, s')"
  then show "verify_quarantine digest r \<and> append_quarantine ident digest parse (sq_recommendation r) s = Inr (Stored r, s')
      \<and> map snd (qp_by_id s') = map snd (qp_by_id s) @ [r]"
  proof (cases rule: append_quarantine_cases)
    case (New n)
    then have "normalizeRecommendation ident parse n = Inr n"
      by (intro normal_recommendation_fixpoint normalizeRecommendation_normal)
    then have "append_quarantine ident digest parse n s = append_quarantine ident digest parse q s"
      by (simp add: append_quarantine_def New(1))
    then show ?thesis using New ok by (simp add: verify_quarantine_def store_quarantine_def Let_def)
  qed simp
next
  fix q s r s'
  assume "append_quarantine ident digest parse q s = Inr (Repeated r, s')"
  then show "s' = s" by (cases rule: append_quarantine_cases) simp_all
next
  fix q s res s'
  assume ok: "append_quarantine ident digest parse q s = Inr (res, s')"
  then show "append_quarantine ident digest parse q s' = Inr (Repeated (stored_record res), s')"
  proof (cases rule: append_quarantine_cases)
    case (New n)
    have "map_of (qp_by_id s') (qm_id n) = Some (store_quarantine digest n)"
      using New(3) by (simp add: New(4) map_of_append map_add_def)
    then show ?thesis by (simp add: append_quarantine_def New(1,2)) (simp add: store_quarantine_def Let_def)
  qed (use ok in simp)
qed

definition recommendations_after ::
  "(js_value \<Rightarrow> string) \<Rightarrow> (js_value \<Rightarrow> string) \<Rightarrow> (string \<Rightarrow> 'i option) \<Rightarrow> quarantine_recommendation list \<Rightarrow> quarantine_repository" where
  "recommendations_after ident digest parse rs = fold (put_step (append_quarantine ident digest parse)) rs no_recommendations"

lemma recommendations_after_inv: "quarantine_inv ident digest parse (recommendations_after ident digest parse rs)"
  unfolding recommendations_after_def using quarantine_inv_append quarantine_inv_empty by (rule fold_put_inv)

lemma list_quarantine_filter:
  assumes "quarantine_inv ident digest parse s"
  shows "list_quarantine (Some m) s = rbind (required_quarantine m) (\<lambda>n.
    Inr (filter (\<lambda>x. qm_memory (sq_recommendation x) = n) (map snd (qp_by_id s))))"
proof -
  have "List.map_filter (map_of xs) (map fst (filter P xs)) = map snd (filter P xs)" if "distinct (map fst xs)"
    for P and xs :: "(string \<times> stored_quarantine) list"
    using that by (intro map_filter_lookup) auto
  then show ?thesis using assms by (simp add: list_quarantine_def quarantine_inv_def filter_map comp_def case_prod_unfold)
qed

definition evaluated_signals :: "quarantine_input \<Rightarrow> quarantine_signal list" where
  "evaluated_signals i = canonical_signals (normal_references (qi_references i)) SIGNAL_ORDER"

section \<open>Properties\<close>

text \<open>
  What the evaluator recommends for a memory names every reference it was given, trimmed, sorted and without
  repetition, under its type, in the fixed order of types with their severities; nothing is recommended for a
  memory in a terminal state or without references, and a quarantined memory is recommended to stay so. The
  repository takes every such recommendation: under a free id it is stored, under its own content it is repeated,
  and measured against the facts it was made from it is fresh.
\<close>

theorem quarantine_recommendation_kept:
  assumes "evaluateMemoryQuarantineSignals ident parse i = Inr r" and "prints_hex ident"
  shows "(case qe_recommendation r of
      None \<Rightarrow> isTerminalMemoryAuthorityState (qi_state i) \<or> evaluated_signals i = []
    | Some m \<Rightarrow> \<not> isTerminalMemoryAuthorityState (qi_state i) \<and> evaluated_signals i \<noteq> [] \<and> qm_signals m = evaluated_signals i
        \<and> qm_decision m = (if qi_state i = MemQuarantined then RetainQuarantine else RecommendQuarantine)
        \<and> quarantine_freshness ident parse m (qi_revision i) (qi_version i) (evaluated_signals i) = Inr []
        \<and> (map_of (qp_by_id s) (qm_id m) = None \<longrightarrow> (\<exists>s'. append_quarantine ident digest parse m s
            = Inr (Stored (store_quarantine digest (m\<lparr>qm_at := trim (qm_at m)\<rparr>)), s'))))"
proof -
  have signals: "collect_signals (qi_references i) SIGNAL_DEFINITIONS = Inr (evaluated_signals i)"
    using assms(1) unfolding evaluated_signals_def
    by (auto simp: evaluateMemoryQuarantineSignals_def rbind_Inr_iff dest: collect_signals_Inr(1))
  show ?thesis
  proof (cases "qe_recommendation r")
    case None
    then show ?thesis using assms(1) signals by (auto simp: evaluateMemoryQuarantineSignals_def rbind_Inr_iff Let_def split: if_splits)
  next
    case (Some m)
    have t: "\<not> isTerminalMemoryAuthorityState (qi_state i)" "qm_decision m = (if qi_state i = MemQuarantined then RetainQuarantine else RecommendQuarantine)"
      using assms(1) Some by (auto simp: evaluateMemoryQuarantineSignals_def rbind_Inr_iff Let_def split: if_splits)
    note e = evaluate_recommendation[OF assms(1) Some assms(2)]
    have n: "normalizeSignals (evaluated_signals i) = Inr (evaluated_signals i)"
      using collect_signals_Inr[OF signals] normalizeSignals_canonical by metis
    have id: "qm_id m = quarantine_id ident (qm_memory m) (qm_revision m) (qm_version m) (qm_signals m)"
      using normalizeRecommendation_normal[OF e(1)] by (simp add: normal_recommendation_def)
    have "quarantine_freshness ident parse m (qi_revision i) (qi_version i) (evaluated_signals i) = Inr []"
      using e(2-8) n id by (simp add: quarantine_freshness_def e(1) required_quarantine_def clean_within_def clean_text_def evaluated_signals_def)
    moreover have "map_of (qp_by_id s) (qm_id m) = None \<longrightarrow> (\<exists>s'. append_quarantine ident digest parse m s
            = Inr (Stored (store_quarantine digest (m\<lparr>qm_at := trim (qm_at m)\<rparr>)), s'))"
      by (simp add: append_quarantine_def e(1) Let_def)
    ultimately show ?thesis using Some t e(5,6) by (simp add: evaluated_signals_def)
  qed
qed

text \<open>
  Whatever is appended, in whatever order: each stored recommendation is in normal form, under the id derived
  from its own memory, revision, evaluator and signals, with its own digests; no id occurs twice; the list of a
  memory is the recommendations stored for it, in the order they came. And the durable repository, started without
  a file, answers every append as the in-memory one does, and its file is what that one holds.
\<close>

theorem quarantine_repositories_agree:
  "list_all (genuine_quarantine ident digest parse) (map snd (qp_by_id (recommendations_after ident digest parse rs)))
    \<and> distinct (map (\<lambda>x. qm_id (sq_recommendation x)) (map snd (qp_by_id (recommendations_after ident digest parse rs))))
    \<and> list_quarantine (Some m) (recommendations_after ident digest parse rs) = rbind (required_quarantine m) (\<lambda>n.
        Inr (filter (\<lambda>x. qm_memory (sq_recommendation x) = n) (map snd (qp_by_id (recommendations_after ident digest parse rs)))))
    \<and> fold (put_step (durable_append_quarantine ident digest parse)) rs [] = map snd (qp_by_id (recommendations_after ident digest parse rs))
    \<and> durable_append_quarantine ident digest parse r (fold (put_step (durable_append_quarantine ident digest parse)) rs [])
        = rbind (append_quarantine ident digest parse r (recommendations_after ident digest parse rs))
            (\<lambda>(res, s'). Inr (res, map snd (qp_by_id s')))"
proof -
  let ?s = "recommendations_after ident digest parse rs"
  have inv: "quarantine_inv ident digest parse ?s" by (rule recommendations_after_inv)
  have d: "durable_append_quarantine ident digest parse = store_durably (append_quarantine ident digest parse)
     (load_store (append_quarantine ident digest parse) sq_recommendation same_quarantine (verify_quarantine digest)
       QuarantineInvalidIntegrity no_recommendations)"
    by (rule ext)+ (simp add: durable_append_quarantine_def load_quarantine_def)
  have "map (\<lambda>x. qm_id (sq_recommendation x)) (map snd (qp_by_id ?s)) = map fst (qp_by_id ?s)"
    using inv by (auto simp: quarantine_inv_def)
  then have "distinct (map (\<lambda>x. qm_id (sq_recommendation x)) (map snd (qp_by_id ?s)))" using inv by (simp only: quarantine_inv_def)
  moreover have "list_all (genuine_quarantine ident digest parse) (map snd (qp_by_id ?s))"
    using inv by (auto simp: quarantine_inv_def list_all_iff)
  ultimately show ?thesis
    using list_quarantine_filter[OF inv] quarantine_store.durable_run[of ident digest parse rs]
      quarantine_store.durable_refines[of ident digest parse r rs]
    unfolding d recommendations_after_def by blast
qed

text \<open>
  When a stored recommendation is stale: its id does not clash with the one of the current facts, the revision
  and the version changes are reported as such, and it is fresh when nothing changed. But the signal basis is
  reported as changed whenever the revision or the version did, even when the signals are the same.
\<close>

theorem quarantine_staleness:
  assumes "quarantine_freshness ident parse m revision version signals = Inr reasons"
    and "normalizeRecommendation ident parse m = Inr n" and "normalizeSignals signals = Inr current"
    and "quarantine_id ident (qm_memory n) revision (trim version) current = qm_id n
      \<Longrightarrow> revision = qm_revision n \<and> trim version = qm_version n \<and> current = qm_signals n"
  shows "(RevisionChanged \<in> set reasons \<longleftrightarrow> revision \<noteq> qm_revision n)
    \<and> (VersionChanged \<in> set reasons \<longleftrightarrow> trim version \<noteq> qm_version n)
    \<and> (SignalBasisChanged \<in> set reasons \<longleftrightarrow>
        revision \<noteq> qm_revision n \<or> trim version \<noteq> qm_version n \<or> current \<noteq> qm_signals n)"
proof -
  let ?A = "revision \<noteq> qm_revision n" and ?B = "trim version \<noteq> qm_version n" and ?C = "current \<noteq> qm_signals n"
  have "qm_id n = quarantine_id ident (qm_memory n) (qm_revision n) (qm_version n) (qm_signals n)"
    using normalizeRecommendation_normal[OF assms(2)] by (simp add: normal_recommendation_def)
  then have id: "quarantine_id ident (qm_memory n) revision (trim version) current \<noteq> qm_id n \<longleftrightarrow> ?A \<or> ?B \<or> ?C"
    using assms(4) by metis
  have "reasons = (if ?A then [RevisionChanged] else []) @ (if ?B then [VersionChanged] else [])
       @ (if quarantine_id ident (qm_memory n) revision (trim version) current \<noteq> qm_id n then [SignalBasisChanged] else [])"
    using assms(1) by (auto simp: quarantine_freshness_def assms(2,3) rbind_Inr_iff required_quarantine_def clean_within_Inr)
  then show ?thesis unfolding id by (cases ?A; cases ?B; cases ?C) simp_all
qed

section \<open>The properties at a concrete memory\<close>

definition toy_ident :: "js_value \<Rightarrow> string" where
  "toy_ident v = (case v of JObject (_ # (_, JNumber n) # _) \<Rightarrow> if n = Fin 2 then ''2'' else ''1'' | _ \<Rightarrow> ''0'')"

lemma toy_ident_hex: "prints_hex toy_ident"
  unfolding prints_hex_def toy_ident_def by (auto split: js_value.split list.split prod.split)

definition risky_memory :: quarantine_input where
  "risky_memory = \<lparr>qi_memory = '' m1'', qi_revision = Fin 1, qi_state = MemAdmitted, qi_version = ''v1'', qi_at = ''now'',
     qi_references = \<lparr>qr_contradictions = None, qr_evidence = Some ['' e2'', ''e1'', ''e2''], qr_provenance = Some [],
       qr_source = None, qr_admission = None, qr_policy = None, qr_supersession = None\<rparr>\<rparr>"

definition risky_recommendation :: quarantine_recommendation where
  "risky_recommendation = \<lparr>qm_id = ''memory-quarantine:1'', qm_memory = ''m1'', qm_revision = Fin 1, qm_version = ''v1'', qm_at = ''now'',
     qm_decision = RecommendQuarantine,
     qm_signals = [\<lparr>qs_type = EvidenceInvalidation, qs_severity = SeverityCritical, qs_references = [''e1'', ''e2'']\<rparr>]\<rparr>"

abbreviation "toy_parse \<equiv> (\<lambda>s. if s = ''now'' then Some () else None)"

lemma safe_example: "nonnegative_safe (Fin 1)" "nonnegative_safe (Fin 2)"
  by (simp_all add: nonnegative_safe_def is_safe_integer_def)

lemma clean_example:
  "clean_within 240 InvalidMemoryId '' m1'' = Inr ''m1''" "clean_within 240 InvalidEvaluatorVersion ''v1'' = Inr ''v1''"
  "collect_signals (qi_references risky_memory) SIGNAL_DEFINITIONS = Inr (qm_signals risky_recommendation)"
  "trim ''now'' = ''now''" "qm_id risky_recommendation = ''memory-quarantine:1''"
  "quarantine_id toy_ident ''m1'' (Fin 1) ''v1'' (qm_signals risky_recommendation) = ''memory-quarantine:1''"
  "quarantine_id toy_ident ''m1'' (Fin 2) ''v1'' (qm_signals risky_recommendation) = ''memory-quarantine:2''"
  by code_simp+

lemma risky_evaluated:
  "\<exists>r. evaluateMemoryQuarantineSignals toy_ident toy_parse risky_memory = Inr r \<and> qe_recommendation r = Some risky_recommendation"
  using clean_example safe_example(1)
  by (simp add: evaluateMemoryQuarantineSignals_def risky_memory_def isTerminalMemoryAuthorityState_def TERMINAL_STATES_def Let_def)
    (simp add: risky_recommendation_def)

theorem quarantine_recommendation_kept_witness:
  "qm_signals risky_recommendation = evaluated_signals risky_memory
    \<and> (\<exists>s'. append_quarantine toy_ident toy_ident toy_parse risky_recommendation no_recommendations
        = Inr (Stored (store_quarantine toy_ident (risky_recommendation\<lparr>qm_at := trim (qm_at risky_recommendation)\<rparr>)), s'))"
proof -
  obtain r where r: "evaluateMemoryQuarantineSignals toy_ident toy_parse risky_memory = Inr r"
    and m: "qe_recommendation r = Some risky_recommendation" using risky_evaluated by blast
  have "map_of (qp_by_id no_recommendations) (qm_id risky_recommendation) = None" by (simp add: no_recommendations_def)
  with quarantine_recommendation_kept[OF r toy_ident_hex, of no_recommendations toy_ident] m show ?thesis by simp
qed

theorem quarantine_staleness_witness:
  "quarantine_freshness toy_ident toy_parse risky_recommendation (Fin 2) ''v1'' (qm_signals risky_recommendation)
      = Inr [RevisionChanged, SignalBasisChanged]
    \<and> Fin 2 \<noteq> qm_revision (risky_recommendation\<lparr>qm_at := ''now''\<rparr>)"
proof -
  have s: "normalizeSignals (qm_signals risky_recommendation) = Inr (qm_signals risky_recommendation)" by code_simp
  obtain r where r: "evaluateMemoryQuarantineSignals toy_ident toy_parse risky_memory = Inr r"
    and m: "qe_recommendation r = Some risky_recommendation" using risky_evaluated by blast
  have "qm_at risky_recommendation = ''now''" by (simp add: risky_recommendation_def)
  with evaluate_recommendation(1)[OF r m toy_ident_hex] clean_example(4)
  have n: "normalizeRecommendation toy_ident toy_parse risky_recommendation = Inr (risky_recommendation\<lparr>qm_at := ''now''\<rparr>)" by simp
  have v: "required_quarantine ''v1'' = Inr ''v1''" "trim ''v1'' = ''v1''" by code_simp+
  have f: "qm_revision risky_recommendation = Fin 1" "qm_version risky_recommendation = ''v1''" "qm_memory risky_recommendation = ''m1''"
    by (simp_all add: risky_recommendation_def)
  have fresh: "quarantine_freshness toy_ident toy_parse risky_recommendation (Fin 2) ''v1'' (qm_signals risky_recommendation)
      = Inr [RevisionChanged, SignalBasisChanged]"
    using safe_example(2) by (simp add: quarantine_freshness_def n s v f clean_example(5,7))
  moreover have "Fin 2 \<noteq> qm_revision (risky_recommendation\<lparr>qm_at := ''now''\<rparr>)"
    using quarantine_staleness[OF fresh n s] by (simp add: f v clean_example(5,7))
  ultimately show ?thesis ..
qed

end
