(* ===== verification/Memory_Recovery.thy ===== *)
theory Memory_Recovery
  imports Replay_Store Memory_Quarantine
begin

text \<open>
  The reviews of terminal memories: a human or a founder decides whether a rejected, superseded or revoked memory
  may be proposed again, as a new candidate under another id (\<open>memory/memory-recovery-review-repository.ts\<close>,
  \<open>durable-memory-recovery-review-repository.ts\<close>). Parameters: \<open>digest\<close> (SHA-256 over the stable serialisation)
  and \<open>parse\<close> (\<open>Date.parse\<close>). Checks of a value's JavaScript type have no counterpart. Results: which requests
  are accepted, what every stored review guarantees, and that the two repositories agree.
\<close>

section \<open>Data\<close>

datatype review_outcome = ApprovedNewCandidate | DeniedRecovery

record recovery_request =
  rv_memory :: string
  rv_state :: memory_state
  rv_revision :: js_number
  rv_request :: string
  rv_requested_by :: memory_actor
  rv_reviewer :: memory_actor
  rv_policy :: string
  rv_founder :: "bool option"
  rv_outcome :: review_outcome
  rv_candidate :: "string option"
  rv_reason :: string
  rv_at :: string

record recovery_review =
  rr_request :: recovery_request
  rr_id :: string
  rr_payload_digest :: string
  rr_integrity_digest :: string

datatype recovery_error =
  RecoveryInvalidInput | NonTerminalMemory | UnauthorizedReviewer | RecoveryFounderRequired | MissingNewCandidate
| InvalidNewCandidate | RecoveryAlteredReplay | RecoveryInvalidIntegrity

section \<open>Normalisation\<close>

definition required_recovery :: "string \<Rightarrow> recovery_error + string" where
  "required_recovery = clean_within 500 RecoveryInvalidInput"

definition review_actor :: "memory_actor \<Rightarrow> recovery_error + memory_actor" where
  "review_actor a = rbind (required_recovery (actor_id a)) (\<lambda>i. Inr \<lparr>actor_id = i, actor_type = actor_type a\<rparr>)"

definition normalize_candidate :: "string \<Rightarrow> review_outcome \<Rightarrow> string option \<Rightarrow> recovery_error + string option" where
  "normalize_candidate memory outcome candidate =
     rbind (case candidate of None \<Rightarrow> Inr None | Some c \<Rightarrow> rbind (required_recovery c) (\<lambda>n. Inr (Some n))) (\<lambda>cleaned.
     if outcome = ApprovedNewCandidate then
       (case cleaned of None \<Rightarrow> Inl MissingNewCandidate
        | Some n \<Rightarrow> if n = memory then Inl InvalidNewCandidate else Inr (Some n))
     else Inr None)"

definition normalizeRequest :: "(string \<Rightarrow> 'i option) \<Rightarrow> recovery_request \<Rightarrow> recovery_error + recovery_request" where
  "normalizeRequest parse r =
     rbind (required_recovery (rv_memory r)) (\<lambda>memory.
     rbind (throw_if (\<not> isTerminalMemoryAuthorityState (rv_state r)) NonTerminalMemory) (\<lambda>_.
     rbind (throw_if (\<not> nonnegative_safe (rv_revision r)) RecoveryInvalidInput) (\<lambda>_.
     rbind (review_actor (rv_requested_by r)) (\<lambda>requested_by.
     rbind (review_actor (rv_reviewer r)) (\<lambda>reviewer.
     rbind (throw_if (\<not> is_approver (actor_type reviewer)) UnauthorizedReviewer) (\<lambda>_.
     rbind (throw_if (rv_founder r = Some True \<and> actor_type reviewer \<noteq> ActorFounder) RecoveryFounderRequired) (\<lambda>_.
     rbind (required_recovery (rv_policy r)) (\<lambda>policy.
     rbind (required_recovery (rv_request r)) (\<lambda>request.
     rbind (required_recovery (rv_reason r)) (\<lambda>reason.
     rbind (throw_if (trim (rv_at r) = [] \<or> parse (trim (rv_at r)) = None) RecoveryInvalidInput) (\<lambda>_.
     rbind (normalize_candidate memory (rv_outcome r) (rv_candidate r)) (\<lambda>candidate.
     Inr \<lparr>rv_memory = memory, rv_state = rv_state r, rv_revision = rv_revision r, rv_request = request,
       rv_requested_by = requested_by, rv_reviewer = reviewer, rv_policy = policy, rv_founder = Some (rv_founder r = Some True),
       rv_outcome = rv_outcome r, rv_candidate = candidate, rv_reason = reason, rv_at = trim (rv_at r)\<rparr>))))))))))))"

section \<open>Digests\<close>

text \<open>The fields of a review that are digested; one that is undefined is left out by the serialisation.\<close>

definition request_fields :: "recovery_request \<Rightarrow> (string \<times> js_value) list" where
  "request_fields r =
     [(''terminalMemoryId'', JString (rv_memory r)), (''terminalState'', JString (state_name (rv_state r))),
      (''terminalRevision'', JNumber (rv_revision r)), (''requestId'', JString (rv_request r)),
      (''requestedBy'', actor_value (rv_requested_by r)), (''reviewer'', actor_value (rv_reviewer r)),
      (''policyVersion'', JString (rv_policy r))]
     @ (case rv_founder r of None \<Rightarrow> [] | Some b \<Rightarrow> [(''requiresFounderApproval'', JBool b)])
     @ [(''outcome'', JString (case rv_outcome r of ApprovedNewCandidate \<Rightarrow> ''approved_new_candidate'' | DeniedRecovery \<Rightarrow> ''denied''))]
     @ (case rv_candidate r of None \<Rightarrow> [] | Some c \<Rightarrow> [(''replacementCandidateMemoryId'', JString c)])
     @ [(''reason'', JString (rv_reason r)), (''occurredAt'', JString (rv_at r))]"

definition payload_digest :: "(js_value \<Rightarrow> string) \<Rightarrow> recovery_request \<Rightarrow> string" where
  "payload_digest digest r = digest (JObject (request_fields r))"

definition review_base :: "recovery_request \<Rightarrow> string \<Rightarrow> string \<Rightarrow> js_value" where
  "review_base r review payload = JObject (request_fields r @ [(''reviewId'', JString review), (''payloadDigest'', JString payload)])"

definition make_review :: "(js_value \<Rightarrow> string) \<Rightarrow> recovery_request \<Rightarrow> recovery_review" where
  "make_review digest r = (let payload = payload_digest digest r; review = ''memory-recovery-review:'' @ take 32 payload in
     \<lparr>rr_request = r, rr_id = review, rr_payload_digest = payload, rr_integrity_digest = digest (review_base r review payload)\<rparr>)"

definition verify_review :: "(js_value \<Rightarrow> string) \<Rightarrow> recovery_review \<Rightarrow> bool" where
  "verify_review digest x \<longleftrightarrow>
     digest (review_base (rr_request x) (rr_id x) (rr_payload_digest x)) = rr_integrity_digest x"

section \<open>The repository in memory\<close>

record recovery_repository =
  rp_by_request :: "(string \<times> recovery_review) list"
  rp_by_id :: "(string \<times> recovery_review) list"
  rp_ids :: "(string \<times> string list) list"

definition no_reviews :: recovery_repository where
  "no_reviews = \<lparr>rp_by_request = [], rp_by_id = [], rp_ids = []\<rparr>"

definition append_review ::
  "(js_value \<Rightarrow> string) \<Rightarrow> (string \<Rightarrow> 'i option) \<Rightarrow> recovery_request \<Rightarrow> recovery_repository
   \<Rightarrow> recovery_error + recovery_review stored_result \<times> recovery_repository" where
  "append_review digest parse r s =
     rbind (normalizeRequest parse r) (\<lambda>n.
     case map_of (rp_by_request s) (rv_request n) of
       Some existing \<Rightarrow>
         if rr_payload_digest existing \<noteq> payload_digest digest n then Inl RecoveryAlteredReplay else Inr (Repeated existing, s)
     | None \<Rightarrow>
         let stored = make_review digest n;
             ids = (case map_of (rp_ids s) (rv_memory n) of None \<Rightarrow> [] | Some xs \<Rightarrow> xs) in
         Inr (Stored stored, \<lparr>rp_by_request = AList.update (rv_request n) stored (rp_by_request s),
           rp_by_id = AList.update (rr_id stored) stored (rp_by_id s),
           rp_ids = AList.update (rv_memory n) (ids @ [rr_id stored]) (rp_ids s)\<rparr>))"

definition list_reviews :: "string option \<Rightarrow> recovery_repository \<Rightarrow> recovery_error + recovery_review list" where
  "list_reviews memory s = (case memory of None \<Rightarrow> Inr (map snd (rp_by_id s))
     | Some m \<Rightarrow> rbind (required_recovery m) (\<lambda>n.
         Inr (List.map_filter (map_of (rp_by_id s)) (case map_of (rp_ids s) n of None \<Rightarrow> [] | Some xs \<Rightarrow> xs))))"

definition find_review :: "string \<Rightarrow> recovery_repository \<Rightarrow> recovery_error + recovery_review option" where
  "find_review i s = rbind (required_recovery i) (\<lambda>n. Inr (map_of (rp_by_request s) n))"

definition get_review :: "string \<Rightarrow> recovery_repository \<Rightarrow> recovery_error + recovery_review option" where
  "get_review i s = rbind (required_recovery i) (\<lambda>n. Inr (map_of (rp_by_id s) n))"

section \<open>Freshness\<close>

datatype review_stale_reason = TerminalStateChanged | TerminalRevisionChanged | PolicyVersionChanged

definition review_freshness ::
  "recovery_review \<Rightarrow> memory_state \<Rightarrow> js_number \<Rightarrow> string \<Rightarrow> recovery_error + review_stale_reason list" where
  "review_freshness x state revision policy =
     rbind (throw_if (\<not> nonnegative_safe revision) RecoveryInvalidInput) (\<lambda>_.
     rbind (required_recovery policy) (\<lambda>current_policy.
     Inr ((if state \<noteq> rv_state (rr_request x) then [TerminalStateChanged] else [])
       @ (if revision \<noteq> rv_revision (rr_request x) then [TerminalRevisionChanged] else [])
       @ (if current_policy \<noteq> rv_policy (rr_request x) then [PolicyVersionChanged] else []))))"

section \<open>The durable repository\<close>

definition same_review :: "recovery_review \<Rightarrow> recovery_review \<Rightarrow> bool" where
  "same_review x y \<longleftrightarrow> rr_id x = rr_id y \<and> rr_payload_digest x = rr_payload_digest y
     \<and> rr_integrity_digest x = rr_integrity_digest y"

definition load_reviews ::
  "(js_value \<Rightarrow> string) \<Rightarrow> (string \<Rightarrow> 'i option) \<Rightarrow> recovery_review list \<Rightarrow> recovery_error + recovery_repository" where
  "load_reviews digest parse = load_store (append_review digest parse) rr_request same_review (verify_review digest)
     RecoveryInvalidIntegrity no_reviews"

definition durable_append_review ::
  "(js_value \<Rightarrow> string) \<Rightarrow> (string \<Rightarrow> 'i option) \<Rightarrow> recovery_request \<Rightarrow> recovery_review list
   \<Rightarrow> recovery_error + recovery_review stored_result \<times> recovery_review list" where
  "durable_append_review digest parse = store_durably (append_review digest parse) (load_reviews digest parse)"

definition durable_list_reviews ::
  "(js_value \<Rightarrow> string) \<Rightarrow> (string \<Rightarrow> 'i option) \<Rightarrow> string option \<Rightarrow> recovery_review list \<Rightarrow> recovery_error + recovery_review list" where
  "durable_list_reviews digest parse memory f = rbind (load_reviews digest parse f) (list_reviews memory)"

definition durable_find_review ::
  "(js_value \<Rightarrow> string) \<Rightarrow> (string \<Rightarrow> 'i option) \<Rightarrow> string \<Rightarrow> recovery_review list \<Rightarrow> recovery_error + recovery_review option" where
  "durable_find_review digest parse i f = rbind (load_reviews digest parse f) (find_review i)"

definition durable_get_review ::
  "(js_value \<Rightarrow> string) \<Rightarrow> (string \<Rightarrow> 'i option) \<Rightarrow> string \<Rightarrow> recovery_review list \<Rightarrow> recovery_error + recovery_review option" where
  "durable_get_review digest parse i f = rbind (load_reviews digest parse f) (get_review i)"

section \<open>Requests in normal form\<close>

definition normal_actor :: "memory_actor \<Rightarrow> bool" where
  "normal_actor a \<longleftrightarrow> clean_text 500 (actor_id a)"

text \<open>What a stored review promises; the last line is the law of recovery: the terminal memory stays as it is.\<close>

definition permitted_review :: "(string \<Rightarrow> 'i option) \<Rightarrow> recovery_request \<Rightarrow> bool" where
  "permitted_review parse r \<longleftrightarrow> clean_text 500 (rv_memory r) \<and> isTerminalMemoryAuthorityState (rv_state r)
     \<and> nonnegative_safe (rv_revision r) \<and> normal_actor (rv_requested_by r) \<and> normal_actor (rv_reviewer r)
     \<and> is_approver (actor_type (rv_reviewer r)) \<and> clean_text 500 (rv_policy r) \<and> clean_text 500 (rv_request r)
     \<and> clean_text 500 (rv_reason r) \<and> trim (rv_at r) = rv_at r \<and> rv_at r \<noteq> [] \<and> parse (rv_at r) \<noteq> None
     \<and> (rv_founder r = Some False \<or> rv_founder r = Some True \<and> actor_type (rv_reviewer r) = ActorFounder)
     \<and> (case rv_outcome r of DeniedRecovery \<Rightarrow> rv_candidate r = None
        | ApprovedNewCandidate \<Rightarrow> (\<exists>c. rv_candidate r = Some c \<and> clean_text 500 c \<and> c \<noteq> rv_memory r))"

lemma required_recovery_Inr: "required_recovery s = Inr n \<longleftrightarrow> n = trim s \<and> clean_text 500 n"
  by (simp add: required_recovery_def clean_within_Inr)

lemma required_recovery_clean: "clean_text 500 s \<Longrightarrow> required_recovery s = Inr s"
  by (simp add: required_recovery_Inr clean_text_def)

lemma review_actor_Inr: "review_actor a = Inr b \<longleftrightarrow> b = \<lparr>actor_id = trim (actor_id a), actor_type = actor_type a\<rparr> \<and> normal_actor b"
  by (auto simp: review_actor_def rbind_Inr_iff required_recovery_Inr normal_actor_def)

lemma normalize_candidate_Inr:
  "normalize_candidate memory outcome candidate = Inr c \<Longrightarrow>
     (case outcome of DeniedRecovery \<Rightarrow> c = None | ApprovedNewCandidate \<Rightarrow> (\<exists>n. c = Some n \<and> clean_text 500 n \<and> n \<noteq> memory))"
  by (auto simp: normalize_candidate_def rbind_Inr_iff required_recovery_Inr split: option.splits review_outcome.splits if_splits)

lemma normalizeRequest_permitted:
  assumes "normalizeRequest parse r = Inr n"
  shows "permitted_review parse n"
proof -
  from assms obtain memory requested_by reviewer policy request reason candidate where
    p: "required_recovery (rv_memory r) = Inr memory" "review_actor (rv_requested_by r) = Inr requested_by"
      "review_actor (rv_reviewer r) = Inr reviewer" "required_recovery (rv_policy r) = Inr policy"
      "required_recovery (rv_request r) = Inr request" "required_recovery (rv_reason r) = Inr reason"
    and c: "normalize_candidate memory (rv_outcome r) (rv_candidate r) = Inr candidate"
    and g: "isTerminalMemoryAuthorityState (rv_state r)" "nonnegative_safe (rv_revision r)" "is_approver (actor_type reviewer)"
      "\<not> (rv_founder r = Some True \<and> actor_type reviewer \<noteq> ActorFounder)" "trim (rv_at r) \<noteq> []" "parse (trim (rv_at r)) \<noteq> None"
    and n: "n = \<lparr>rv_memory = memory, rv_state = rv_state r, rv_revision = rv_revision r, rv_request = request,
       rv_requested_by = requested_by, rv_reviewer = reviewer, rv_policy = policy, rv_founder = Some (rv_founder r = Some True),
       rv_outcome = rv_outcome r, rv_candidate = candidate, rv_reason = reason, rv_at = trim (rv_at r)\<rparr>"
    by (auto simp: normalizeRequest_def rbind_Inr_iff)
  show ?thesis using p g normalize_candidate_Inr[OF c]
    by (cases "rv_outcome r") (auto simp: permitted_review_def n required_recovery_Inr review_actor_Inr)
qed

lemma permitted_review_fixpoint:
  assumes "permitted_review parse r"
  shows "normalizeRequest parse r = Inr r"
proof -
  have a: "review_actor (rv_requested_by r) = Inr (rv_requested_by r)" "review_actor (rv_reviewer r) = Inr (rv_reviewer r)"
    using assms by (simp_all add: permitted_review_def review_actor_Inr normal_actor_def clean_text_def)
  have "normalize_candidate (rv_memory r) (rv_outcome r) (rv_candidate r) = Inr (rv_candidate r)"
    using assms by (cases "rv_outcome r") (auto simp: permitted_review_def normalize_candidate_def required_recovery_clean)
  then show ?thesis using assms
    by (auto simp: normalizeRequest_def permitted_review_def required_recovery_clean a intro: recovery_request.equality)
qed

section \<open>The repositories\<close>

text \<open>What \<open>reviews_inv\<close> holds: a review is stored under its request id, permitted and with its own id and digests,
  and the ids kept for a memory are those of its reviews, in order.\<close>

definition genuine_review :: "(js_value \<Rightarrow> string) \<Rightarrow> (string \<Rightarrow> 'i option) \<Rightarrow> recovery_review \<Rightarrow> bool" where
  "genuine_review digest parse x \<longleftrightarrow> permitted_review parse (rr_request x) \<and> x = make_review digest (rr_request x)"

definition reviews_inv :: "(js_value \<Rightarrow> string) \<Rightarrow> (string \<Rightarrow> 'i option) \<Rightarrow> recovery_repository \<Rightarrow> bool" where
  "reviews_inv digest parse s \<longleftrightarrow> distinct (map fst (rp_by_request s))
     \<and> (\<forall>(i, x)\<in>set (rp_by_request s). rv_request (rr_request x) = i \<and> genuine_review digest parse x)
     \<and> (\<forall>m. (case map_of (rp_ids s) m of None \<Rightarrow> [] | Some xs \<Rightarrow> xs)
          = map (\<lambda>(i, x). rr_id x) (filter (\<lambda>(i, x). rv_memory (rr_request x) = m) (rp_by_request s)))
     \<and> rp_by_id s = fold (\<lambda>(i, x). AList.update (rr_id x) x) (rp_by_request s) []"

lemma reviews_inv_empty: "reviews_inv digest parse no_reviews"
  by (simp add: reviews_inv_def no_reviews_def)

lemma make_review_request [simp]: "rr_request (make_review digest r) = r"
  by (simp add: make_review_def Let_def)

lemma append_review_cases:
  assumes "append_review digest parse r s = Inr (res, s')"
  obtains (Known) x n where "res = Repeated x" "s' = s" "normalizeRequest parse r = Inr n"
      "map_of (rp_by_request s) (rv_request n) = Some x" "rr_payload_digest x = payload_digest digest n"
  | (New) n where "normalizeRequest parse r = Inr n" "res = Stored (make_review digest n)"
      "map_of (rp_by_request s) (rv_request n) = None"
      "rp_by_request s' = rp_by_request s @ [(rv_request n, make_review digest n)]"
      "rp_by_id s' = AList.update (rr_id (make_review digest n)) (make_review digest n) (rp_by_id s)"
      "rp_ids s' = AList.update (rv_memory n)
         ((case map_of (rp_ids s) (rv_memory n) of None \<Rightarrow> [] | Some xs \<Rightarrow> xs) @ [rr_id (make_review digest n)]) (rp_ids s)"
proof -
  from assms obtain n where n: "normalizeRequest parse r = Inr n" by (auto simp: append_review_def rbind_Inr_iff)
  show thesis
  proof (cases "map_of (rp_by_request s) (rv_request n)")
    case None
    with assms n show thesis by (intro New[of n]) (auto simp: append_review_def Let_def alist_update_new)
  next
    case (Some x)
    with assms n show thesis by (intro Known[of x n]) (auto simp: append_review_def split: if_splits)
  qed
qed

lemma reviews_inv_append:
  assumes inv: "reviews_inv digest parse s" and ok: "append_review digest parse r s = Inr (res, s')"
  shows "reviews_inv digest parse s'"
  using ok
proof (cases rule: append_review_cases)
  case (New n)
  have "genuine_review digest parse (make_review digest n)"
    using normalizeRequest_permitted[OF New(1)] by (simp add: genuine_review_def)
  moreover have "rv_request n \<notin> fst ` set (rp_by_request s)" using New(3) by (simp add: map_of_eq_None_iff)
  moreover have "(case map_of (rp_ids s') m of None \<Rightarrow> [] | Some xs \<Rightarrow> xs)
      = map (\<lambda>(i, x). rr_id x) (filter (\<lambda>(i, x). rv_memory (rr_request x) = m) (rp_by_request s'))" for m
    using inv by (simp add: reviews_inv_def New(4,6) update_conv')
  ultimately show ?thesis using inv by (auto simp: reviews_inv_def New(4,5))
qed (use inv in simp)

interpretation review_store: replay_store "append_review digest parse" rr_request same_review "verify_review digest" no_reviews
  "\<lambda>s. map snd (rp_by_request s)" RecoveryInvalidIntegrity for digest parse
proof
  show "map snd (rp_by_request no_reviews) = []" by (simp add: no_reviews_def)
  show "same_review r r" for r by (simp add: same_review_def)
next
  fix q s r s'
  assume ok: "append_review digest parse q s = Inr (Stored r, s')"
  then show "verify_review digest r \<and> append_review digest parse (rr_request r) s = Inr (Stored r, s')
      \<and> map snd (rp_by_request s') = map snd (rp_by_request s) @ [r]"
  proof (cases rule: append_review_cases)
    case (New n)
    then have "normalizeRequest parse n = Inr n" by (intro permitted_review_fixpoint normalizeRequest_permitted)
    then have "append_review digest parse n s = append_review digest parse q s" by (simp add: append_review_def New(1))
    then show ?thesis using New ok by (simp add: verify_review_def make_review_def Let_def)
  qed simp
next
  fix q s r s'
  assume "append_review digest parse q s = Inr (Repeated r, s')"
  then show "s' = s" by (cases rule: append_review_cases) simp_all
next
  fix q s res s'
  assume ok: "append_review digest parse q s = Inr (res, s')"
  then show "append_review digest parse q s' = Inr (Repeated (stored_record res), s')"
  proof (cases rule: append_review_cases)
    case (New n)
    have "map_of (rp_by_request s') (rv_request n) = Some (make_review digest n)"
      using New(3) by (simp add: New(4) map_of_append map_add_def)
    then show ?thesis by (simp add: append_review_def New(1,2)) (simp add: make_review_def Let_def)
  qed (use ok in simp)
qed

definition reviews_after ::
  "(js_value \<Rightarrow> string) \<Rightarrow> (string \<Rightarrow> 'i option) \<Rightarrow> recovery_request list \<Rightarrow> recovery_repository" where
  "reviews_after digest parse rs = fold (put_step (append_review digest parse)) rs no_reviews"

lemma reviews_after_inv: "reviews_inv digest parse (reviews_after digest parse rs)"
  unfolding reviews_after_def using reviews_inv_append reviews_inv_empty by (rule fold_put_inv)

text \<open>As long as no two reviews share the first 32 characters of their digests, listing leaves none out.\<close>

lemma fold_update_distinct:
  assumes "distinct (map (k \<circ> snd) ys)"
  shows "fold (\<lambda>(i, x). AList.update (k x) x) ys [] = map (\<lambda>(i, x). (k x, x)) ys"
  using assms
proof (induction ys rule: rev_induct)
  case (snoc y ys)
  then have "map_of (map (\<lambda>(i, x). (k x, x)) ys) (k (snd y)) = None"
    by (auto simp: map_of_eq_None_iff image_iff split: prod.splits)
  with snoc show ?case by (cases y) (simp add: alist_update_new)
qed simp

lemma list_reviews_complete:
  assumes inv: "reviews_inv digest parse s" and d: "distinct (map (rr_id \<circ> snd) (rp_by_request s))"
  shows "list_reviews None s = Inr (map snd (rp_by_request s))"
    and "list_reviews (Some m) s = rbind (required_recovery m) (\<lambda>n.
      Inr (filter (\<lambda>x. rv_memory (rr_request x) = n) (map snd (rp_by_request s))))"
proof -
  let ?ys = "rp_by_request s"
  have by_id: "rp_by_id s = map (\<lambda>(i, x). (rr_id x, x)) ?ys"
    using inv d by (simp add: reviews_inv_def fold_update_distinct)
  then show "list_reviews None s = Inr (map snd ?ys)" by (simp add: list_reviews_def comp_def case_prod_unfold)
  have dd: "distinct (map fst (map (\<lambda>(i, x). (rr_id x, x)) ?ys))" using d by (simp add: comp_def case_prod_unfold)
  have "List.map_filter (map_of (map (\<lambda>(i, x). (rr_id x, x)) ?ys)) (map (\<lambda>(i, x). rr_id x) (filter P ?ys)) = map snd (filter P ?ys)" for P
    by (intro map_filter_lookup map_of_is_SomeI[OF dd]) auto
  moreover have "(case map_of (rp_ids s) n of None \<Rightarrow> [] | Some xs \<Rightarrow> xs)
      = map (\<lambda>(i, x). rr_id x) (filter (\<lambda>(i, x). rv_memory (rr_request x) = n) ?ys)" for n
    using inv by (simp add: reviews_inv_def)
  ultimately show "list_reviews (Some m) s = rbind (required_recovery m) (\<lambda>n.
      Inr (filter (\<lambda>x. rv_memory (rr_request x) = n) (map snd ?ys)))"
    by (simp add: list_reviews_def by_id filter_map comp_def case_prod_unfold)
qed

section \<open>Properties\<close>

text \<open>What a request needs, in its raw form; a candidate must be clean even when the recovery is denied.\<close>

definition acceptable_request :: "(string \<Rightarrow> 'i option) \<Rightarrow> recovery_request \<Rightarrow> bool" where
  "acceptable_request parse r \<longleftrightarrow>
     list_all (\<lambda>s. clean_text 500 (trim s)) [rv_memory r, actor_id (rv_requested_by r), actor_id (rv_reviewer r), rv_policy r,
       rv_request r, rv_reason r]
     \<and> isTerminalMemoryAuthorityState (rv_state r) \<and> nonnegative_safe (rv_revision r)
     \<and> actor_type (rv_reviewer r) \<in> (if rv_founder r = Some True then {ActorFounder} else {ActorHuman, ActorFounder})
     \<and> trim (rv_at r) \<noteq> [] \<and> parse (trim (rv_at r)) \<noteq> None
     \<and> (case rv_candidate r of None \<Rightarrow> rv_outcome r = DeniedRecovery
        | Some c \<Rightarrow> clean_text 500 (trim c) \<and> (rv_outcome r = DeniedRecovery \<or> trim c \<noteq> trim (rv_memory r)))"

lemma is_approver_set: "is_approver a \<longleftrightarrow> a \<in> {ActorHuman, ActorFounder}"
  by (cases a) (simp_all add: is_approver_def)

lemma normalize_candidate_ok:
  "(\<exists>c. normalize_candidate memory outcome candidate = Inr c) \<longleftrightarrow> (case candidate of None \<Rightarrow> outcome = DeniedRecovery
     | Some c \<Rightarrow> clean_text 500 (trim c) \<and> (outcome = DeniedRecovery \<or> trim c \<noteq> memory))"
proof (cases candidate)
  case (Some c)
  then show ?thesis
    by (cases outcome; cases "clean_text 500 (trim c)")
      (auto simp: normalize_candidate_def rbind_Inr_iff required_recovery_Inr)
qed (cases outcome; simp add: normalize_candidate_def)

lemma normalizeRequest_ok: "(\<exists>n. normalizeRequest parse r = Inr n) \<longleftrightarrow> acceptable_request parse r"
proof -
  have "(\<exists>n. normalizeRequest parse r = Inr n) \<longleftrightarrow>
     clean_text 500 (trim (rv_memory r)) \<and> isTerminalMemoryAuthorityState (rv_state r) \<and> nonnegative_safe (rv_revision r)
     \<and> clean_text 500 (trim (actor_id (rv_requested_by r))) \<and> clean_text 500 (trim (actor_id (rv_reviewer r)))
     \<and> is_approver (actor_type (rv_reviewer r)) \<and> \<not> (rv_founder r = Some True \<and> actor_type (rv_reviewer r) \<noteq> ActorFounder)
     \<and> clean_text 500 (trim (rv_policy r)) \<and> clean_text 500 (trim (rv_request r)) \<and> clean_text 500 (trim (rv_reason r))
     \<and> trim (rv_at r) \<noteq> [] \<and> parse (trim (rv_at r)) \<noteq> None
     \<and> (\<exists>c. normalize_candidate (trim (rv_memory r)) (rv_outcome r) (rv_candidate r) = Inr c)"
    by (auto simp: normalizeRequest_def rbind_Inr_iff required_recovery_Inr review_actor_Inr normal_actor_def)
  then show ?thesis unfolding normalize_candidate_ok is_approver_set acceptable_request_def by auto
qed

text \<open>
  A review request is accepted exactly when the memory is in a terminal state, its revision, ids, policy, reason
  and time are well formed, the reviewer is a human or a founder, and a founder where the request asks for one, an
  approval names a candidate other than the terminal memory itself, and the request id is new or bound to the same
  normalised payload.
\<close>

theorem recovery_accepted_iff:
  "(\<exists>res s'. append_review digest parse r s = Inr (res, s')) \<longleftrightarrow>
     acceptable_request parse r
     \<and> (case map_of (rp_by_request s) (trim (rv_request r)) of None \<Rightarrow> True
        | Some x \<Rightarrow> Inr (rr_payload_digest x) = map_sum id (payload_digest digest) (normalizeRequest parse r))"
proof (cases "normalizeRequest parse r")
  case (Inl e)
  then have "\<not> acceptable_request parse r" using normalizeRequest_ok[of parse r] by auto
  then show ?thesis by (simp add: append_review_def Inl)
next
  case (Inr n)
  then have "acceptable_request parse r" using normalizeRequest_ok[of parse r] by auto
  moreover have "rv_request n = trim (rv_request r)"
    using Inr by (auto simp: normalizeRequest_def rbind_Inr_iff required_recovery_Inr)
  ultimately show ?thesis by (auto simp: append_review_def Inr Let_def split: option.split)
qed

text \<open>
  C22. Whatever is requested, in whatever order, what is stored is permitted: every review is of a memory in a
  terminal state, was made by a human or a founder, by a founder where one was required, and an approval names a
  candidate other than the terminal memory; a denial names none. Every review carries the id and the digests of its
  own request, and no request id occurs twice. The durable repository, started without a file, answers every request
  as the in-memory one does, and its file is what that one holds.
\<close>

theorem recovery_reviews_permitted:
  "list_all (genuine_review digest parse) (map snd (rp_by_request (reviews_after digest parse rs)))
    \<and> distinct (map (\<lambda>x. rv_request (rr_request x)) (map snd (rp_by_request (reviews_after digest parse rs))))
    \<and> fold (put_step (durable_append_review digest parse)) rs [] = map snd (rp_by_request (reviews_after digest parse rs))
    \<and> durable_append_review digest parse r (fold (put_step (durable_append_review digest parse)) rs [])
        = rbind (append_review digest parse r (reviews_after digest parse rs))
            (\<lambda>(res, s'). Inr (res, map snd (rp_by_request s')))"
proof -
  let ?s = "reviews_after digest parse rs"
  have inv: "reviews_inv digest parse ?s" by (rule reviews_after_inv)
  have d: "durable_append_review digest parse = store_durably (append_review digest parse)
     (load_store (append_review digest parse) rr_request same_review (verify_review digest) RecoveryInvalidIntegrity no_reviews)"
    by (rule ext)+ (simp add: durable_append_review_def load_reviews_def)
  have "map (\<lambda>x. rv_request (rr_request x)) (map snd (rp_by_request ?s)) = map fst (rp_by_request ?s)"
    using inv by (auto simp: reviews_inv_def)
  then have "distinct (map (\<lambda>x. rv_request (rr_request x)) (map snd (rp_by_request ?s)))"
    using inv by (simp only: reviews_inv_def)
  moreover have "list_all (genuine_review digest parse) (map snd (rp_by_request ?s))"
    using inv by (auto simp: reviews_inv_def list_all_iff)
  ultimately show ?thesis
    using review_store.durable_run[of digest parse rs] review_store.durable_refines[of digest parse r rs]
    unfolding d reviews_after_def by blast
qed

end
