(* ===== verification/Stable_Injective.thy ===== *)
theory Stable_Injective
  imports Stable_Hash
begin

text \<open>
  What the canonical serialisation (\<open>utils/hash.ts\<close>, and its local copies) tells apart: everything but the order in
  which the keys of an object were written, keys that hold \<open>undefined\<close>, and \<open>NaN\<close> or an infinity for \<open>null\<close>.
  So two values with the same digest are the same, up to that, or collide under SHA-256.
\<close>

section \<open>The value a serialisation stands for\<close>

function canonical :: "string comparator \<Rightarrow> js_value \<Rightarrow> js_value" where
  "canonical lc (JArray vs) = JArray (map (canonical lc) vs)"
| "canonical lc (JObject es) =
     JObject (map (\<lambda>(k, v). (k, canonical lc v)) (sort_by (key fst lc) (defined_entries es)))"
| "canonical lc JUndefined = JUndefined"
| "canonical lc JNull = JNull"
| "canonical lc (JBool b) = JBool b"
| "canonical lc (JNumber n) = (if is_finite_num n then JNumber n else JNull)"
| "canonical lc (JString s) = JString s"
  by pat_completeness auto
termination
  by (relation "measure (\<lambda>(lc, v). size v)") (auto simp: defined_entries_def termination_simp)

text \<open>\<open>undefined\<close> occurs as the value of a key only, where it is left out.\<close>

fun plain_value :: "js_value \<Rightarrow> bool" where
  "plain_value (JArray vs) \<longleftrightarrow> list_all plain_value vs"
| "plain_value (JObject es) \<longleftrightarrow> list_all (\<lambda>(k, v). v = JUndefined \<or> plain_value v) es"
| "plain_value JUndefined \<longleftrightarrow> False"
| "plain_value _ \<longleftrightarrow> True"

text \<open>How JavaScript prints finite numbers: differently, with digits, signs, a point and an exponent.\<close>

definition numeral_char :: "char \<Rightarrow> bool" where
  "numeral_char c \<longleftrightarrow> is_digit c \<or> c \<in> set ''+-.e''"

definition prints_numbers :: "(js_number \<Rightarrow> string) \<Rightarrow> bool" where
  "prints_numbers num \<longleftrightarrow> (\<forall>n. num n \<noteq> [] \<and> (\<forall>c\<in>set (num n). numeral_char c) \<and> is_digit (last (num n))
     \<and> hd (num n) \<noteq> CHR ''e'')
     \<and> (\<forall>m n. is_finite_num m \<longrightarrow> is_finite_num n \<longrightarrow> num m = num n \<longrightarrow> m = n)"

section \<open>Strings\<close>

lemma hex_digit_inject: "m < 16 \<Longrightarrow> n < 16 \<Longrightarrow> hex_digit m = hex_digit n \<Longrightarrow> m = n"
proof -
  have "distinct ''0123456789abcdef''" by code_simp
  then show "m < 16 \<Longrightarrow> n < 16 \<Longrightarrow> hex_digit m = hex_digit n \<Longrightarrow> m = n"
    by (simp add: hex_digit_def nth_eq_iff_index_eq)
qed

lemma hex_digits_inject:
  assumes "m < 32" "n < 32" "hex_digit (m div 16) = hex_digit (n div 16)" "hex_digit m = hex_digit n"
  shows "m = n"
proof -
  have "hex_digit k = hex_digit (k mod 16)" for k by (simp add: hex_digit_def)
  then have "m mod 16 = n mod 16" using assms(4) hex_digit_inject[of "m mod 16" "n mod 16"] by simp
  moreover have "m div 16 = n div 16" using assms(1-3) hex_digit_inject[of "m div 16" "n div 16"] by simp
  ultimately show ?thesis by (metis div_mult_mod_eq)
qed

definition escape :: "nat \<Rightarrow> string" where
  "escape n =
     (if n = 34 then [CHR 34]
      else if n = 92 then [CHR 92]
      else if n = 8 then ''b''
      else if n = 9 then ''t''
      else if n = 10 then ''n''
      else if n = 12 then ''f''
      else if n = 13 then ''r''
      else [CHR ''u'', CHR ''0'', CHR ''0'', hex_digit (n div 16), hex_digit n])"

abbreviation escaped :: "char \<Rightarrow> bool" where
  "escaped c \<equiv> (of_char c :: nat) = 34 \<or> (of_char c :: nat) = 92 \<or> (of_char c :: nat) < 32"

lemma json_char_escape: "json_char c = (if escaped c then CHR 92 # escape (of_char c) else [c])"
  by (simp add: json_char_def escape_def Let_def)

lemma escape_prefix:
  assumes "escape m @ x = escape n @ y" "m = 34 \<or> m = 92 \<or> m < 32" "n = 34 \<or> n = 92 \<or> n < 32"
  shows "m = n \<and> x = y"
proof (cases "m < 32 \<and> n < 32 \<and> hex_digit (m div 16) = hex_digit (n div 16) \<and> hex_digit m = hex_digit n")
  case True
  then have "m = n" using hex_digits_inject by blast
  with assms(1) show ?thesis by simp
qed (use assms in \<open>auto simp: escape_def split: if_splits\<close>)

lemma json_char_prefix:
  assumes "json_char c @ x = json_char d @ y"
  shows "c = d \<and> x = y"
proof -
  have bs: "escaped (CHR 92)" by simp
  consider "escaped c" "escaped d" | "\<not> escaped c" "\<not> escaped d" | "escaped c \<noteq> escaped d" by blast
  then show ?thesis
  proof cases
    case 1
    then have "(of_char c :: nat) = of_char d \<and> x = y" using assms by (intro escape_prefix) (simp_all add: json_char_escape)
    then show ?thesis by simp
  qed (use assms bs in \<open>auto simp: json_char_escape split: if_splits\<close>)
qed

lemma json_char_not_quote: "json_char c @ x \<noteq> CHR 34 # y"
proof -
  have "escaped (CHR 34)" by simp
  then show ?thesis by (auto simp: json_char_escape split: if_splits)
qed

lemma json_chars_prefix:
  "concat (map json_char s) @ CHR 34 # u = concat (map json_char t) @ CHR 34 # u' \<Longrightarrow> s = t \<and> u = u'"
proof (induction s arbitrary: t)
  case Nil
  then show ?case using json_char_not_quote by (cases t) (auto dest: sym)
next
  case (Cons c s)
  show ?case
  proof (cases t)
    case Nil
    then show ?thesis using Cons.prems json_char_not_quote by simp
  next
    case t: (Cons d t')
    have "c = d \<and> concat (map json_char s) @ CHR 34 # u = concat (map json_char t') @ CHR 34 # u'"
      using Cons.prems by (intro json_char_prefix) (simp add: t)
    then show ?thesis using Cons.IH t by blast
  qed
qed

lemma json_string_prefix: "json_string s @ u = json_string t @ u' \<Longrightarrow> s = t \<and> u = u'"
  by (rule json_chars_prefix) (simp add: json_string_def)

section \<open>Sequences\<close>

definition delimited :: "string \<Rightarrow> bool" where
  "delimited u \<longleftrightarrow> u = [] \<or> hd u \<in> {CHR '','', CHR '']'', CHR ''}''}"

lemma delimited_Cons [simp]: "delimited (c # u) \<longleftrightarrow> c \<in> {CHR '','', CHR '']'', CHR ''}''}"
  by (simp add: delimited_def)

text \<open>Items that can be told apart before a delimiter, between commas and up to a closing bracket.\<close>

lemma items_prefix:
  assumes item: "\<And>x y u u'. x \<in> set xs \<Longrightarrow> y \<in> set ys \<Longrightarrow> f x @ u = f y @ u' \<Longrightarrow> delimited u \<Longrightarrow> delimited u' \<Longrightarrow> g x = g y \<and> u = u'"
    and close: "c \<in> {CHR '']'', CHR ''}''}"
    and eq: "concat (map (\<lambda>x. CHR '','' # f x) xs) @ c # u = concat (map (\<lambda>y. CHR '','' # f y) ys) @ c # u'"
  shows "map g xs = map g ys \<and> u = u'"
  using item eq
proof (induction xs arbitrary: ys)
  case Nil
  then show ?case using close by (cases ys) auto
next
  case (Cons x xs)
  show ?case
  proof (cases ys)
    case Nil
    then show ?thesis using Cons.prems(2) close by auto
  next
    case ys: (Cons y ys')
    have d: "delimited (concat (map (\<lambda>x. CHR '','' # f x) zs) @ c # u)" for zs u
      using close by (cases zs) auto
    have "f x @ concat (map (\<lambda>x. CHR '','' # f x) xs) @ c # u = f y @ concat (map (\<lambda>y. CHR '','' # f y) ys') @ c # u'"
      using Cons.prems(2) by (simp add: ys)
    then have "g x = g y \<and> concat (map (\<lambda>x. CHR '','' # f x) xs) @ c # u = concat (map (\<lambda>y. CHR '','' # f y) ys') @ c # u'"
      by (rule Cons.prems(1)[rotated 2]) (simp_all add: ys d)
    moreover from this have "map g xs = map g ys' \<and> u = u'"
      using Cons.prems(1) by (intro Cons.IH) (auto simp: ys)
    ultimately show ?thesis by (simp add: ys)
  qed
qed

lemma join_prefix:
  assumes item: "\<And>x y u u'. x \<in> set xs \<Longrightarrow> y \<in> set ys \<Longrightarrow> f x @ u = f y @ u' \<Longrightarrow> delimited u \<Longrightarrow> delimited u' \<Longrightarrow> g x = g y \<and> u = u'"
    and start: "\<And>x. x \<in> set xs \<union> set ys \<Longrightarrow> \<not> delimited (f x)"
    and close: "c \<in> {CHR '']'', CHR ''}''}"
    and eq: "join '','' (map f xs) @ c # u = join '','' (map f ys) @ c # u'"
  shows "map g xs = map g ys \<and> u = u'"
proof -
  have first: "CHR '','' # join '','' (map f zs) = concat (map (\<lambda>x. CHR '','' # f x) zs)" if "zs \<noteq> []" for zs
    using that by (cases zs) (simp_all add: comp_def)
  have open_end: "join '','' (map f (z # zs)) @ w \<noteq> c # v" if "z \<in> set xs \<union> set ys" for z zs w v
    using start[OF that] close by (cases "f z") (auto simp: delimited_def)
  consider "xs = []" "ys = []" | "xs = []" "ys \<noteq> []" | "xs \<noteq> []" "ys = []" | "xs \<noteq> []" "ys \<noteq> []" by blast
  then show ?thesis
  proof cases
    case 2
    then show ?thesis using eq open_end by (cases ys) (auto dest: sym)
  next
    case 3
    then show ?thesis using eq open_end by (cases xs) auto
  next
    case 4
    then have tails: "concat (map (\<lambda>x. CHR '','' # f x) xs) @ c # u = concat (map (\<lambda>y. CHR '','' # f y) ys) @ c # u'"
      using eq by (simp add: first[symmetric])
    show ?thesis by (rule items_prefix[OF _ close tails]) (rule item)
  qed (use eq in simp)
qed

section \<open>Values\<close>

lemma numeral_delimiter: "delimited u \<Longrightarrow> takeWhile numeral_char u = []"
  by (cases u) (auto simp: numeral_char_def is_digit_def)

lemma number_prefix:
  assumes "prints_numbers num" and "num m @ u = num n @ u'" and "delimited u" "delimited u'"
  shows "num m = num n \<and> u = u'"
proof -
  have "takeWhile numeral_char (num k @ w) = num k" if "delimited w" for k w
    using assms(1) numeral_delimiter[OF that] by (simp add: takeWhile_append prints_numbers_def)
  from this[OF assms(3), of m] this[OF assms(4), of n] show ?thesis using assms(2) by simp
qed

text \<open>The first character of a serialisation tells its kind.\<close>

definition kind_char :: "js_value \<Rightarrow> char \<Rightarrow> bool" where
  "kind_char v c \<longleftrightarrow> (case v of JArray _ \<Rightarrow> c = CHR ''['' | JObject _ \<Rightarrow> c = CHR ''{'' | JString _ \<Rightarrow> c = CHR 34
     | JNull \<Rightarrow> c = CHR ''n'' | JBool b \<Rightarrow> c = (if b then CHR ''t'' else CHR ''f'')
     | JNumber n \<Rightarrow> if is_finite_num n then numeral_char c else c = CHR ''n'' | JUndefined \<Rightarrow> False)"

lemma serialisation_start:
  assumes "prints_numbers num" and "v \<noteq> JUndefined"
  obtains c rest where "or_empty (stableStringify lc num v) = c # rest" "kind_char v c"
proof (cases v)
  case (JNumber n)
  have "num n \<noteq> []" "\<forall>c\<in>set (num n). numeral_char c" using assms(1) by (simp_all add: prints_numbers_def)
  then obtain c rest where "num n = c # rest" "numeral_char c" by (cases "num n") auto
  then show thesis
    using that[of c rest] that[of "CHR ''n''" "''ull''"] JNumber by (cases "is_finite_num n") (auto simp: kind_char_def or_empty_def)
next
  case (JBool b)
  then show thesis
    using that[of "CHR ''t''" "''rue''"] that[of "CHR ''f''" "''alse''"] by (cases b) (simp_all add: kind_char_def or_empty_def)
qed (use assms(2) that in \<open>auto simp: kind_char_def or_empty_def json_string_def\<close>)

lemma plain_defined: "plain_value v \<Longrightarrow> v \<noteq> JUndefined"
  by auto

lemma serialisation_not_delimited:
  assumes "prints_numbers num" "v \<noteq> JUndefined"
  shows "\<not> delimited (or_empty (stableStringify lc num v))"
proof (rule serialisation_start[OF assms, of lc])
  fix c rest
  assume "or_empty (stableStringify lc num v) = c # rest" "kind_char v c"
  then show ?thesis by (cases v) (auto simp: kind_char_def numeral_char_def is_digit_def split: if_splits)
qed

lemma numeral_char_letters [simp]:
  "\<not> numeral_char (CHR ''['')" "\<not> numeral_char (CHR ''{'')" "\<not> numeral_char (CHR 34)" "\<not> numeral_char (CHR ''n'')"
  "\<not> numeral_char (CHR ''t'')" "\<not> numeral_char (CHR ''f'')"
  by (simp_all add: numeral_char_def is_digit_def)

text \<open>Serialisations that start alike are of values of one kind, and say so.\<close>

lemma same_kind:
  assumes "prints_numbers num" "v \<noteq> JUndefined" "w \<noteq> JUndefined"
    and "or_empty (stableStringify lc num v) @ u = or_empty (stableStringify lc num w) @ u'"
  obtains c where "kind_char v c" "kind_char w c"
proof -
  obtain c rest where "or_empty (stableStringify lc num v) = c # rest" "kind_char v c"
    by (rule serialisation_start[OF assms(1,2)])
  moreover obtain d rest' where "or_empty (stableStringify lc num w) = d # rest'" "kind_char w d"
    by (rule serialisation_start[OF assms(1,3)])
  ultimately show thesis using that assms(4) by auto
qed

lemma serialisation_prefix:
  assumes "prints_numbers num" and "plain_value v" "plain_value w"
    and "or_empty (stableStringify lc num v) @ u = or_empty (stableStringify lc num w) @ u'"
    and "delimited u" "delimited u'"
  shows "canonical lc v = canonical lc w \<and> u = u'"
  using assms(2-6)
proof (induction v arbitrary: w u u' rule: measure_induct_rule[of size])
  case (less v)
  let ?text = "\<lambda>v. or_empty (stableStringify lc num v)"
  obtain c where c: "kind_char v c" "kind_char w c"
    using same_kind[OF assms(1) plain_defined plain_defined less.prems(3)] less.prems(1,2) by blast
  show ?case
  proof (cases v)
    case v: (JArray vs)
    with c obtain ws where w: "w = JArray ws" by (cases w) (auto simp: kind_char_def split: if_splits)
    have "map (canonical lc) vs = map (canonical lc) ws \<and> u = u'"
    proof (rule join_prefix)
      show "join '','' (map ?text vs) @ CHR '']'' # u = join '','' (map ?text ws) @ CHR '']'' # u'"
        using less.prems(3) by (simp add: v w or_empty_def[of "Some x" for x])
      show "\<not> delimited (?text x)" if "x \<in> set vs \<union> set ws" for x
        using that less.prems(1,2) by (intro serialisation_not_delimited assms(1)) (auto simp: v w list_all_iff)
      show "canonical lc x = canonical lc y \<and> z = z'"
        if "x \<in> set vs" "y \<in> set ws" "?text x @ z = ?text y @ z'" "delimited z" "delimited z'" for x y z z'
        using that less.prems(1,2) size_element[OF that(1)] by (intro less.IH) (auto simp: v w list_all_iff)
    qed simp
    then show ?thesis by (simp add: v w)
  next
    case v: (JObject es)
    with c obtain fs where w: "w = JObject fs" by (cases w) (auto simp: kind_char_def split: if_splits)
    let ?sorted = "\<lambda>es. sort_by (key fst lc) (defined_entries es)"
    let ?entry = "\<lambda>(k, v). json_string k @ '':'' @ ?text v" and ?canon = "\<lambda>(k, v). (k, canonical lc v)"
    have "map ?canon (?sorted es) = map ?canon (?sorted fs) \<and> u = u'"
    proof (rule join_prefix)
      show "join '','' (map ?entry (?sorted es)) @ CHR ''}'' # u = join '','' (map ?entry (?sorted fs)) @ CHR ''}'' # u'"
        using less.prems(3) by (simp add: v w or_empty_def[of "Some x" for x])
      show "\<not> delimited (?entry x)" for x
        by (cases x) (simp add: delimited_def json_string_def)
      show "?canon x = ?canon y \<and> z = z'"
        if xy: "x \<in> set (?sorted es)" "y \<in> set (?sorted fs)" and eq: "?entry x @ z = ?entry y @ z'"
          and d: "delimited z" "delimited z'" for x y z z'
      proof -
        obtain k1 v1 k2 v2 where k: "x = (k1, v1)" "y = (k2, v2)" by (cases x; cases y) auto
        have in_es: "(k1, v1) \<in> set es" "plain_value v1" and "(k2, v2) \<in> set fs" "plain_value v2"
          using xy less.prems(1,2) by (auto simp: k v w defined_entries_def list_all_iff)
        moreover have "k1 = k2 \<and> '':'' @ ?text v1 @ z = '':'' @ ?text v2 @ z'"
          using eq by (intro json_string_prefix) (simp add: k)
        moreover have "size v1 < size v" using size_entry[OF in_es(1)] by (simp add: v)
        ultimately have "canonical lc v1 = canonical lc v2 \<and> z = z'" using d by (intro less.IH) simp_all
        then show ?thesis using \<open>k1 = k2 \<and> _\<close> by (simp add: k)
      qed
    qed simp
    then show ?thesis by (simp add: v w)
  next
    case v: (JString s)
    with c obtain t where "w = JString t" by (cases w) (auto simp: kind_char_def split: if_splits)
    then show ?thesis using less.prems(3) json_string_prefix[of s u t u'] by (simp add: v or_empty_def)
  next
    case v: (JNumber m)
    show ?thesis
    proof (cases "is_finite_num m")
      case True
      with c v obtain n where n: "w = JNumber n" "is_finite_num n" by (cases w) (auto simp: kind_char_def split: if_splits)
      have "num m = num n \<and> u = u'"
        using less.prems(3-5) True n by (intro number_prefix[OF assms(1)]) (simp_all add: v or_empty_def)
      then show ?thesis using assms(1) True n by (simp add: v prints_numbers_def)
    next
      case False
      with c v have "w = JNull \<or> (\<exists>n. w = JNumber n \<and> \<not> is_finite_num n)"
        by (cases w) (auto simp: kind_char_def split: if_splits)
      then show ?thesis using less.prems(3) False by (auto simp: v or_empty_def)
    qed
  next
    case v: (JBool b)
    with c have "w = JBool b" by (cases w) (auto simp: kind_char_def split: if_splits)
    then show ?thesis using less.prems(3) by (simp add: v)
  next
    case v: JNull
    with c have "w = JNull \<or> (\<exists>n. w = JNumber n \<and> \<not> is_finite_num n)"
      by (cases w) (auto simp: kind_char_def split: if_splits)
    then show ?thesis using less.prems(3) by (auto simp: v or_empty_def)
  qed (use less.prems(1) in simp)
qed

text \<open>And conversely the serialisation depends on the canonical value only.\<close>

lemma serialisation_canonical:
  assumes "canonical lc v = canonical lc w" "plain_value v" "plain_value w"
  shows "stableStringify lc num v = stableStringify lc num w"
  using assms
proof (induction v arbitrary: w rule: measure_induct_rule[of size])
  case (less v)
  show ?case
  proof (cases v)
    case v: (JArray vs)
    with less.prems(1) obtain ws where w: "w = JArray ws" "map (canonical lc) vs = map (canonical lc) ws"
      by (cases w) (auto split: if_splits)
    have "list_all2 (\<lambda>v w. stableStringify lc num v = stableStringify lc num w) vs ws"
    proof (rule list_all2_all_nthI)
      show "length vs = length ws" using w(2) by (rule map_eq_imp_length_eq)
      fix i
      assume i: "i < length vs"
      have "canonical lc (vs ! i) = canonical lc (ws ! i)" using w(2) i by (metis nth_map map_eq_imp_length_eq)
      moreover have "plain_value (vs ! i)" "plain_value (ws ! i)"
        using less.prems(2,3) i map_eq_imp_length_eq[OF w(2)] by (simp_all add: v w(1) list_all_length)
      ultimately show "stableStringify lc num (vs ! i) = stableStringify lc num (ws ! i)"
        using size_element[OF nth_mem[OF i]] by (intro less.IH) (simp_all add: v)
    qed
    then have "map (\<lambda>v. or_empty (stableStringify lc num v)) vs = map (\<lambda>v. or_empty (stableStringify lc num v)) ws"
      by (induction rule: list_all2_induct) auto
    then show ?thesis by (simp add: v w)
  next
    case v: (JObject es)
    let ?sorted = "\<lambda>es. sort_by (key fst lc) (defined_entries es)"
    from v less.prems(1) obtain fs where w: "w = JObject fs"
      "map (\<lambda>(k, v). (k, canonical lc v)) (?sorted es) = map (\<lambda>(k, v). (k, canonical lc v)) (?sorted fs)"
      by (cases w) (auto split: if_splits)
    have "list_all2 (rel_prod (=) (\<lambda>v v'. canonical lc v = canonical lc v')) (?sorted es) (?sorted fs)"
      using w(2) by (auto simp: list_all2_conv_all_nth list_eq_iff_nth_eq case_prod_unfold rel_prod_sel)
    then have "list_all2 (rel_prod (=) (\<lambda>v v'. stableStringify lc num v = stableStringify lc num v')) (?sorted es) (?sorted fs)"
    proof (rule list.rel_mono_strong)
      fix x y
      assume xy: "x \<in> set (?sorted es)" "y \<in> set (?sorted fs)"
        and eq: "rel_prod (=) (\<lambda>v v'. canonical lc v = canonical lc v') x y"
      obtain k1 v1 k2 v2 where k: "x = (k1, v1)" "y = (k2, v2)" by (cases x; cases y) auto
      have "(k1, v1) \<in> set es" "plain_value v1" "plain_value v2"
        using xy less.prems(2,3) by (auto simp: k v w defined_entries_def list_all_iff)
      with less.IH[of v1 v2] size_entry[of k1 v1 es] eq
      show "rel_prod (=) (\<lambda>v v'. stableStringify lc num v = stableStringify lc num v') x y"
        by (simp add: k v)
    qed
    then have "map (\<lambda>(k, v). json_string k @ '':'' @ or_empty (stableStringify lc num v)) (?sorted es)
        = map (\<lambda>(k, v). json_string k @ '':'' @ or_empty (stableStringify lc num v)) (?sorted fs)"
      by (induction rule: list_all2_induct) auto
    then show ?thesis by (simp add: v w)
  qed (use less.prems in \<open>cases w; auto split: if_splits\<close>)+
qed

lemma map_JString_eq [simp]: "map JString xs = map JString ys \<longleftrightarrow> xs = ys"
  by (rule inj_map_eq_map) (rule injI, simp)

text \<open>Objects, entry by entry.\<close>

lemma set_sort_by [simp]: "set (sort_by c xs) = set xs"
  by (metis mset_sort set_mset_mset)

lemma stringify_entries_numbers:
  assumes "\<And>k v. (k, v) \<in> set es \<Longrightarrow> stableStringify lc num v = stableStringify lc num' v"
  shows "stableStringify lc num (JObject es) = stableStringify lc num' (JObject es)"
proof -
  have "map (\<lambda>(k, v). json_string k @ '':'' @ or_empty (stableStringify lc num v)) (sort_by (key fst lc) (defined_entries es))
      = map (\<lambda>(k, v). json_string k @ '':'' @ or_empty (stableStringify lc num' v)) (sort_by (key fst lc) (defined_entries es))"
    using assms by (intro map_cong) (auto simp: defined_entries_def)
  then show ?thesis by (simp only: stableStringify.simps)
qed

lemma canonical_entry:
  assumes "canonical lc (JObject es) = canonical lc (JObject fs)" and "(k, v) \<in> set es" "v \<noteq> JUndefined"
  obtains w where "(k, w) \<in> set fs" "canonical lc v = canonical lc w"
proof -
  have "(\<lambda>(k, v). (k, canonical lc v)) ` set (defined_entries es) = (\<lambda>(k, v). (k, canonical lc v)) ` set (defined_entries fs)"
    using arg_cong[OF assms(1), of "\<lambda>v. case v of JObject es \<Rightarrow> set es"] by simp
  moreover have "(k, canonical lc v) \<in> (\<lambda>(k, v). (k, canonical lc v)) ` set (defined_entries es)"
    using assms(2,3) by (force simp: defined_entries_def)
  ultimately show thesis using that by (auto simp: defined_entries_def)
qed

section \<open>Property\<close>


section \<open>The property at a rendering of numbers\<close>

text \<open>A rendering that tells all rationals apart: sign and numerator, a point, the denominator.\<close>

definition fraction_text :: "js_number \<Rightarrow> string" where
  "fraction_text n = (case n of Fin r \<Rightarrow>
       (if fst (quotient_of r) < 0 then ''-'' else []) @ show_nat (nat \<bar>fst (quotient_of r)\<bar>) @ ''.'' @ show_nat (nat (snd (quotient_of r)))
     | _ \<Rightarrow> ''0'')"

lemma show_nat_numeral: "\<forall>c\<in>set (show_nat n). numeral_char c" "is_digit (last (show_nat n))" "is_digit (hd (show_nat n))"
  using show_nat_digits[of _ n] show_nat_not_Nil[of n] by (auto simp: numeral_char_def)

lemma fraction_text_prints: "prints_numbers fraction_text"
proof -
  have point: "\<not> is_digit (CHR ''.'')" "\<not> is_digit (CHR ''-'')" by (simp_all add: is_digit_def)
  have start: "takeWhile is_digit (show_nat n @ ''.'' @ w) = show_nat n" for n w
    using show_nat_digits[of _ n] point by (simp add: takeWhile_append)
  have "m = n" if eq: "fraction_text m = fraction_text n" and fin: "is_finite_num m" "is_finite_num n" for m n
  proof -
    from fin obtain a b where ab: "m = Fin a" "n = Fin b" by (cases m; cases n) auto
    obtain p q p' q' where pq: "quotient_of a = (p, q)" "quotient_of b = (p', q')" by fastforce
    have sign: "p < 0 \<longleftrightarrow> p' < 0"
      using eq ab pq show_nat_digits[of "hd (show_nat k)" k for k] show_nat_not_Nil
      by (auto simp: fraction_text_def split: if_splits) (metis append_Cons list.exhaust_sel list.set_sel(1) list.inject point(2) show_nat_digits)+
    then have "show_nat (nat \<bar>p\<bar>) @ ''.'' @ show_nat (nat q) = show_nat (nat \<bar>p'\<bar>) @ ''.'' @ show_nat (nat q')"
      using eq ab pq by (simp add: fraction_text_def split: if_splits)
    moreover from this have "show_nat (nat \<bar>p\<bar>) = show_nat (nat \<bar>p'\<bar>)" using start by metis
    ultimately have "nat \<bar>p\<bar> = nat \<bar>p'\<bar>" "nat q = nat q'" by (simp_all add: show_nat_inject)
    moreover have "0 < q" "0 < q'" using pq by (simp_all add: quotient_of_denom_pos)
    ultimately have "p = p'" "q = q'" using sign by linarith+
    then have "a = b" using pq by (intro quotient_of_inject) simp
    then show ?thesis using ab by simp
  qed
  moreover have "fraction_text n \<noteq> [] \<and> (\<forall>c\<in>set (fraction_text n). numeral_char c) \<and> is_digit (last (fraction_text n))
      \<and> hd (fraction_text n) \<noteq> CHR ''e''" for n
  proof (cases n)
    case (Fin r)
    have "hd (show_nat k) \<noteq> CHR ''e''" for k using show_nat_numeral(3)[of k] by (auto simp: is_digit_def)
    then show ?thesis using show_nat_numeral show_nat_not_Nil by (auto simp: fraction_text_def Fin numeral_char_def)
  qed (simp_all add: fraction_text_def numeral_char_def is_digit_def)
  ultimately show ?thesis unfolding prints_numbers_def by blast
qed


end
