(* ===== verification/Failure_Prevention.thy ===== *)
theory Failure_Prevention
  imports Stable_Injective
begin

text \<open>
  Repeated failures of a memory become read-only recommendations (\<open>memory/memory-failure-prevention-evaluator.ts\<close>):
  the failures inside a window of time are grouped by memory and category, and a group that reaches the threshold
  is recommended for review. Parameters: \<open>lc\<close> (\<open>localeCompare\<close>), \<open>num\<close> (the rendering of numbers), \<open>digest\<close>
  (SHA-256 over the stable serialisation) and \<open>parse\<close> (\<open>Date.parse\<close>, in milliseconds). Checks of a value's
  JavaScript type have no counterpart. Results: which recommendations are made, that they depend neither on the
  order of the failures nor on repetitions, and when one is stale.
\<close>

section \<open>Data\<close>

datatype failure_category =
  AlteredReplayFailure | InvalidEvidenceFailure | ProvenanceFailure | ContradictionUnresolved | AdmissionRejectedFailure
| PolicyDeniedFailure | IntegrityFailure | RecoveryReviewRejected

record failure_record =
  fl_id :: string
  fl_memory :: string
  fl_category :: failure_category
  fl_at :: string
  fl_references :: "string list"

record prevention_policy =
  pp_version :: string
  pp_threshold :: js_number
  pp_window :: js_number

record prevention_recommendation =
  pv_id :: string
  pv_memory :: string
  pv_category :: failure_category
  pv_version :: string
  pv_threshold :: js_number
  pv_window :: js_number
  pv_at :: string
  pv_failures :: "string list"
  pv_references :: "string list"

datatype prevention_error = PreventionEvaluatedAt | PreventionPolicy | PreventionFailure | PreventionReference

definition CATEGORY_ORDER :: "failure_category list" where
  "CATEGORY_ORDER = [AlteredReplayFailure, InvalidEvidenceFailure, ProvenanceFailure, ContradictionUnresolved,
     AdmissionRejectedFailure, PolicyDeniedFailure, IntegrityFailure, RecoveryReviewRejected]"

definition category_name :: "failure_category \<Rightarrow> string" where
  "category_name c = (case c of AlteredReplayFailure \<Rightarrow> ''altered_replay'' | InvalidEvidenceFailure \<Rightarrow> ''invalid_evidence''
     | ProvenanceFailure \<Rightarrow> ''provenance_failure'' | ContradictionUnresolved \<Rightarrow> ''contradiction_unresolved''
     | AdmissionRejectedFailure \<Rightarrow> ''admission_rejected'' | PolicyDeniedFailure \<Rightarrow> ''policy_denied''
     | IntegrityFailure \<Rightarrow> ''integrity_failure'' | RecoveryReviewRejected \<Rightarrow> ''recovery_review_rejected'')"

section \<open>Normalisation\<close>

definition normalizeIds :: "string list \<Rightarrow> prevention_error + string list" where
  "normalizeIds values = rbind (map_res (clean_within 240 PreventionReference) values) (\<lambda>ids. Inr (sort_units (uniq ids)))"

definition requireDate :: "(string \<Rightarrow> int option) \<Rightarrow> prevention_error \<Rightarrow> string \<Rightarrow> prevention_error + string" where
  "requireDate parse e s = (if trim s = [] \<or> parse (trim s) = None then Inl e else Inr (trim s))"

definition normalizeFailure :: "(string \<Rightarrow> int option) \<Rightarrow> failure_record \<Rightarrow> prevention_error + failure_record" where
  "normalizeFailure parse r =
     rbind (clean_within 240 PreventionFailure (fl_id r)) (\<lambda>i.
     rbind (clean_within 240 PreventionFailure (fl_memory r)) (\<lambda>memory.
     rbind (requireDate parse PreventionFailure (fl_at r)) (\<lambda>occurred.
     rbind (normalizeIds (fl_references r)) (\<lambda>references.
     rbind (throw_if (references = []) PreventionReference) (\<lambda>_.
     Inr \<lparr>fl_id = i, fl_memory = memory, fl_category = fl_category r, fl_at = occurred, fl_references = references\<rparr>)))))"

section \<open>Evaluation\<close>

definition failure_value :: "failure_record \<Rightarrow> js_value" where
  "failure_value f = JObject [(''failureId'', JString (fl_id f)), (''memoryId'', JString (fl_memory f)),
     (''category'', JString (category_name (fl_category f))), (''occurredAt'', JString (fl_at f)),
     (''referenceIds'', JArray (map JString (fl_references f)))]"

definition instant :: "(string \<Rightarrow> int option) \<Rightarrow> string \<Rightarrow> int" where
  "instant parse s = (case parse s of None \<Rightarrow> 0 | Some t \<Rightarrow> t)"

definition outside_window :: "int \<Rightarrow> js_number \<Rightarrow> int \<Rightarrow> bool" where
  "outside_window now window t \<longleftrightarrow> t > now \<or> (case window of Fin w \<Rightarrow> of_int t < of_int now - w | _ \<Rightarrow> False)"

text \<open>The first loop: the failures inside the window, by id; one id stands for one failure.\<close>

fun unique_failures ::
  "string comparator \<Rightarrow> (js_number \<Rightarrow> string) \<Rightarrow> (string \<Rightarrow> int option) \<Rightarrow> int \<Rightarrow> js_number
   \<Rightarrow> (string \<times> failure_record) list \<Rightarrow> failure_record list \<Rightarrow> prevention_error + (string \<times> failure_record) list" where
  "unique_failures lc num parse now window seen [] = Inr seen"
| "unique_failures lc num parse now window seen (raw # raws) =
     rbind (normalizeFailure parse raw) (\<lambda>f.
     if outside_window now window (instant parse (fl_at f)) then unique_failures lc num parse now window seen raws
     else rbind (throw_if (case map_of seen (fl_id f) of None \<Rightarrow> False | Some known \<Rightarrow>
         stableStringify lc num (failure_value known) \<noteq> stableStringify lc num (failure_value f)) PreventionFailure) (\<lambda>_.
       unique_failures lc num parse now window (AList.update (fl_id f) f seen) raws))"

text \<open>The second loop: the groups, by memory and category, in the order of their first failures.\<close>

definition failure_key :: "failure_record \<Rightarrow> string" where
  "failure_key f = fl_memory f @ CHR 0x00 # category_name (fl_category f)"

definition group_by :: "('a \<Rightarrow> string) \<Rightarrow> 'a list \<Rightarrow> (string \<times> 'a list) list" where
  "group_by k xs = fold (\<lambda>x groups.
     AList.update (k x) ((case map_of groups (k x) of None \<Rightarrow> [] | Some members \<Rightarrow> members) @ [x]) groups) xs []"

definition compareFailure :: "string comparator \<Rightarrow> (string \<Rightarrow> int option) \<Rightarrow> failure_record comparator" where
  "compareFailure lc parse = or_else (key (instant parse \<circ> fl_at) default) (key fl_id lc)"

text \<open>The id of a recommendation is the digest of all it rests on.\<close>

definition identity_basis ::
  "string \<Rightarrow> failure_category \<Rightarrow> string \<Rightarrow> js_number \<Rightarrow> js_number \<Rightarrow> string list \<Rightarrow> string list \<Rightarrow> js_value" where
  "identity_basis memory category version threshold window failures references = JObject
     [(''memoryId'', JString memory), (''category'', JString (category_name category)), (''policyVersion'', JString version),
      (''threshold'', JNumber threshold), (''windowMs'', JNumber window), (''failureIds'', JArray (map JString failures)),
      (''referenceIds'', JArray (map JString references))]"

definition recommend_review ::
  "(js_value \<Rightarrow> string) \<Rightarrow> string \<Rightarrow> prevention_policy \<Rightarrow> string \<Rightarrow> failure_category \<Rightarrow> string list \<Rightarrow> string list
   \<Rightarrow> prevention_recommendation" where
  "recommend_review digest date policy memory category failures references =
     \<lparr>pv_id = ''memory-prevention:'' @ take 32 (digest (identity_basis memory category (trim (pp_version policy))
        (pp_threshold policy) (pp_window policy) failures references)),
      pv_memory = memory, pv_category = category, pv_version = trim (pp_version policy), pv_threshold = pp_threshold policy,
      pv_window = pp_window policy, pv_at = date, pv_failures = failures, pv_references = references\<rparr>"

definition recommend_group ::
  "string comparator \<Rightarrow> (js_value \<Rightarrow> string) \<Rightarrow> (string \<Rightarrow> int option) \<Rightarrow> string \<Rightarrow> prevention_policy \<Rightarrow> failure_record list
   \<Rightarrow> prevention_recommendation" where
  "recommend_group lc digest parse date policy members = (let ordered = sort_by (compareFailure lc parse) members in
     recommend_review digest date policy (fl_memory (hd ordered)) (fl_category (hd ordered)) (sort_units (map fl_id ordered))
       (sort_units (uniq (concat (map fl_references ordered)))))"

definition category_index :: "failure_category \<Rightarrow> nat" where
  "category_index c = length (takeWhile (\<lambda>d. d \<noteq> c) CATEGORY_ORDER)"

definition compare_recommendations :: "string comparator \<Rightarrow> prevention_recommendation comparator" where
  "compare_recommendations lc = or_else (key pv_memory lc) (key (category_index \<circ> pv_category) default)"

definition evaluateRepeatedMemoryFailures ::
  "string comparator \<Rightarrow> (js_number \<Rightarrow> string) \<Rightarrow> (js_value \<Rightarrow> string) \<Rightarrow> (string \<Rightarrow> int option)
   \<Rightarrow> string \<Rightarrow> failure_record list \<Rightarrow> prevention_policy \<Rightarrow> prevention_error + prevention_recommendation list" where
  "evaluateRepeatedMemoryFailures lc num digest parse date failures policy =
     rbind (requireDate parse PreventionEvaluatedAt date) (\<lambda>evaluated.
     rbind (clean_within 240 PreventionPolicy (pp_version policy)) (\<lambda>_.
     rbind (throw_if (\<not> is_safe_integer (pp_threshold policy) \<or> num_lt (pp_threshold policy) (Fin 2)) PreventionPolicy) (\<lambda>_.
     rbind (throw_if (\<not> is_safe_integer (pp_window policy) \<or> num_le (pp_window policy) (Fin 0)) PreventionPolicy) (\<lambda>_.
     rbind (unique_failures lc num parse (instant parse evaluated) (pp_window policy) [] failures) (\<lambda>unique.
     Inr (sort_by (compare_recommendations lc) (map (recommend_group lc digest parse evaluated policy)
       (filter (\<lambda>members. \<not> num_lt (Fin (of_nat (length members))) (pp_threshold policy))
         (map snd (group_by failure_key (map snd unique))))))))))) "

definition recommendation_stale ::
  "string comparator \<Rightarrow> (js_number \<Rightarrow> string) \<Rightarrow> prevention_recommendation \<Rightarrow> prevention_policy \<Rightarrow> string list \<Rightarrow> bool" where
  "recommendation_stale lc num r policy active \<longleftrightarrow>
     trim (pp_version policy) = []
     \<or> \<not> is_safe_integer (pp_threshold policy) \<or> num_lt (pp_threshold policy) (Fin 2)
     \<or> \<not> is_safe_integer (pp_window policy) \<or> num_le (pp_window policy) (Fin 0)
     \<or> (case normalizeIds active of Inl _ \<Rightarrow> True
        | Inr ids \<Rightarrow> pv_version r \<noteq> trim (pp_version policy) \<or> pv_threshold r \<noteq> pp_threshold policy
            \<or> pv_window r \<noteq> pp_window policy
            \<or> stableStringify lc num (JArray (map JString (pv_failures r))) \<noteq> stableStringify lc num (JArray (map JString ids)))"

section \<open>Normal failures and their serialisation\<close>

definition normal_failure :: "failure_record \<Rightarrow> failure_record" where
  "normal_failure r = \<lparr>fl_id = trim (fl_id r), fl_memory = trim (fl_memory r), fl_category = fl_category r,
     fl_at = trim (fl_at r), fl_references = sort_units (uniq (map trim (fl_references r)))\<rparr>"

definition good_failure :: "(string \<Rightarrow> int option) \<Rightarrow> failure_record \<Rightarrow> bool" where
  "good_failure parse r \<longleftrightarrow> clean_text 240 (trim (fl_id r)) \<and> clean_text 240 (trim (fl_memory r))
     \<and> trim (fl_at r) \<noteq> [] \<and> parse (trim (fl_at r)) \<noteq> None
     \<and> fl_references r \<noteq> [] \<and> list_all (\<lambda>x. clean_text 240 (trim x)) (fl_references r)"

lemma normalizeIds_Inr:
  "normalizeIds xs = Inr ys \<longleftrightarrow> ys = sort_units (uniq (map trim xs)) \<and> list_all (\<lambda>x. clean_text 240 (trim x)) xs"
proof -
  have "map_res (clean_within 240 PreventionReference) xs = Inr zs \<longleftrightarrow> zs = map trim xs \<and> list_all (\<lambda>x. clean_text 240 (trim x)) xs" for zs
    by (induction xs arbitrary: zs) (auto simp: rbind_Inr_iff clean_within_Inr)
  then show ?thesis by (auto simp: normalizeIds_def rbind_Inr_iff)
qed

lemma normalizeFailure_Inr: "normalizeFailure parse r = Inr f \<longleftrightarrow> f = normal_failure r \<and> good_failure parse r"
  by (auto simp: normalizeFailure_def rbind_Inr_iff clean_within_Inr requireDate_def normalizeIds_Inr normal_failure_def
      good_failure_def split: if_splits)

lemma category_name_inject: "category_name c = category_name d \<longleftrightarrow> c = d"
  by (cases c; cases d) (simp_all add: category_name_def)

text \<open>A failure can be read off its serialisation, whatever the rendering of numbers: none occurs.\<close>

lemma failure_text_numbers: "stableStringify lc num (failure_value f) = stableStringify lc num' (failure_value f)"
  unfolding failure_value_def by (rule stringify_entries_numbers) (auto simp: comp_def)

lemma failure_text_inject:
  "stableStringify lc num (failure_value f) = stableStringify lc num (failure_value g) \<longleftrightarrow> f = g"
proof
  assume "stableStringify lc num (failure_value f) = stableStringify lc num (failure_value g)"
  then have "stableStringify lc fraction_text (failure_value f) = stableStringify lc fraction_text (failure_value g)"
    by (simp only: failure_text_numbers[of lc num _ fraction_text])
  moreover have plain: "plain_value (failure_value h)" for h by (simp add: failure_value_def list_all_iff)
  ultimately have eq: "canonical lc (failure_value f) = canonical lc (failure_value g)"
    using serialisation_prefix[OF fraction_text_prints plain plain, of lc f "[]" g "[]"] by (simp add: delimited_def)
  note entry = canonical_entry[OF eq[unfolded failure_value_def]]
  have "fl_id f = fl_id g" by (rule entry[of "''failureId''" "JString (fl_id f)"]) auto
  moreover have "fl_memory f = fl_memory g" by (rule entry[of "''memoryId''" "JString (fl_memory f)"]) auto
  moreover have "fl_category f = fl_category g"
    by (rule entry[of "''category''" "JString (category_name (fl_category f))"]) (auto simp: category_name_inject)
  moreover have "fl_at f = fl_at g" by (rule entry[of "''occurredAt''" "JString (fl_at f)"]) auto
  moreover have "fl_references f = fl_references g"
    by (rule entry[of "''referenceIds''" "JArray (map JString (fl_references f))"])
      (auto simp: comp_def)
  ultimately show "f = g" by simp
qed simp

section \<open>The loops\<close>

definition relevant_failures :: "(string \<Rightarrow> int option) \<Rightarrow> int \<Rightarrow> js_number \<Rightarrow> failure_record list \<Rightarrow> failure_record list" where
  "relevant_failures parse now window raws =
     filter (\<lambda>f. \<not> outside_window now window (instant parse (fl_at f))) (map normal_failure raws)"

lemma relevant_failures_simps [simp]:
  "relevant_failures parse now window [] = []"
  "relevant_failures parse now window (r # rs) =
     (if outside_window now window (instant parse (fl_at (normal_failure r))) then relevant_failures parse now window rs
      else normal_failure r # relevant_failures parse now window rs)"
  by (simp_all add: relevant_failures_def)

text \<open>The map of the first loop: failures under their own ids, no id twice.\<close>

definition by_id :: "(string \<times> failure_record) list \<Rightarrow> bool" where
  "by_id seen \<longleftrightarrow> distinct (map fst seen) \<and> (\<forall>(i, f)\<in>set seen. fl_id f = i)"

lemma by_id_update:
  assumes "by_id seen" "case map_of seen (fl_id f) of None \<Rightarrow> True | Some g \<Rightarrow> g = f"
  shows "by_id (AList.update (fl_id f) f seen)" "set (map snd (AList.update (fl_id f) f seen)) = insert f (set (map snd seen))"
proof -
  have d: "distinct (map fst seen)" "\<And>i g. (i, g) \<in> set seen \<Longrightarrow> fl_id g = i" using assms(1) by (auto simp: by_id_def)
  have "set (AList.update (fl_id f) f seen) = insert (fl_id f, f) (set seen)"
  proof (cases "map_of seen (fl_id f)")
    case None
    then have "AList.update (fl_id f) f seen = seen @ [(fl_id f, f)]"
      by (induction seen) (auto split: if_splits)
    then show ?thesis by simp
  next
    case (Some g)
    then have "map_of seen (fl_id f) = Some f" using assms(2) by simp
    moreover from this have "AList.update (fl_id f) f seen = seen"
      by (induction seen) (auto split: if_splits)
    ultimately show ?thesis using map_of_SomeD by fastforce
  qed
  then show "by_id (AList.update (fl_id f) f seen)" "set (map snd (AList.update (fl_id f) f seen)) = insert f (set (map snd seen))"
    using d by (auto simp: by_id_def distinct_update)
qed

lemma by_id_lookup: "by_id seen \<Longrightarrow> map_of seen i = Some g \<longleftrightarrow> g \<in> set (map snd seen) \<and> fl_id g = i"
  by (force simp: by_id_def dest: map_of_SomeD intro: map_of_is_SomeI)

definition one_per_id :: "failure_record set \<Rightarrow> bool" where
  "one_per_id F \<longleftrightarrow> inj_on fl_id F"

text \<open>When the first loop goes through, and what it leaves.\<close>

lemma unique_failures_Inr:
  assumes "by_id seen"
  shows "(\<exists>out. unique_failures lc num parse now window seen raws = Inr out) \<longleftrightarrow>
      list_all (good_failure parse) raws
      \<and> one_per_id (set (map snd seen) \<union> set (relevant_failures parse now window raws))"
    and "unique_failures lc num parse now window seen raws = Inr out \<Longrightarrow> by_id out
      \<and> set (map snd out) = set (map snd seen) \<union> set (relevant_failures parse now window raws)"
proof -
  have "((\<exists>out. unique_failures lc num parse now window seen raws = Inr out) \<longleftrightarrow>
      list_all (good_failure parse) raws
      \<and> one_per_id (set (map snd seen) \<union> set (relevant_failures parse now window raws)))
    \<and> (\<forall>out. unique_failures lc num parse now window seen raws = Inr out \<longrightarrow> by_id out
      \<and> set (map snd out) = set (map snd seen) \<union> set (relevant_failures parse now window raws))"
    using assms
  proof (induction raws arbitrary: seen)
    case Nil
    have "f = g" if "f \<in> set (map snd seen)" "g \<in> set (map snd seen)" "fl_id f = fl_id g" for f g
      using that by_id_lookup[OF Nil, of "fl_id g"] by (metis option.inject)
    then show ?case using Nil by (simp add: one_per_id_def inj_on_def)
  next
    case (Cons raw raws)
    let ?f = "normal_failure raw"
    show ?case
    proof (cases "good_failure parse raw")
      case False
      then have "\<nexists>f. normalizeFailure parse raw = Inr f" by (simp add: normalizeFailure_Inr)
      then obtain e where "normalizeFailure parse raw = Inl e" by (cases "normalizeFailure parse raw") auto
      then show ?thesis using False by simp
    next
      case True
      then have n: "normalizeFailure parse raw = Inr ?f" by (simp add: normalizeFailure_Inr)
      show ?thesis
      proof (cases "outside_window now window (instant parse (fl_at ?f))")
        case out: True
        then show ?thesis using Cons True by (simp add: n)
      next
        case inside: False
        show ?thesis
        proof (cases "case map_of seen (fl_id ?f) of None \<Rightarrow> True | Some g \<Rightarrow> g = ?f")
          case same: True
          then have ok: "\<not> (case map_of seen (fl_id ?f) of None \<Rightarrow> False | Some known \<Rightarrow>
              stableStringify lc num (failure_value known) \<noteq> stableStringify lc num (failure_value ?f))"
            by (auto split: option.splits)
          note u = by_id_update[OF Cons.prems same]
          show ?thesis using Cons.IH[OF u(1)] True inside u(2) ok by (simp add: n)
        next
          case False
          then obtain g where g: "map_of seen (fl_id ?f) = Some g" "g \<noteq> ?f" by (auto split: option.splits)
          then have "g \<in> set (map snd seen)" "fl_id g = fl_id ?f" using by_id_lookup[OF Cons.prems] by blast+
          then have "\<not> one_per_id (set (map snd seen) \<union> set (relevant_failures parse now window (raw # raws)))"
            using g(2) inside by (auto simp: one_per_id_def inj_on_def)
          then show ?thesis using g inside by (simp add: n failure_text_inject)
        qed
      qed
    qed
  qed
  then show "(\<exists>out. unique_failures lc num parse now window seen raws = Inr out) \<longleftrightarrow>
      list_all (good_failure parse) raws
      \<and> one_per_id (set (map snd seen) \<union> set (relevant_failures parse now window raws))"
    and "unique_failures lc num parse now window seen raws = Inr out \<Longrightarrow> by_id out
      \<and> set (map snd out) = set (map snd seen) \<union> set (relevant_failures parse now window raws)" by auto
qed

text \<open>The second loop, as a map from keys to the elements that have them.\<close>

lemma group_by_snoc:
  "group_by k (xs @ [x]) = AList.update (k x)
     ((case map_of (group_by k xs) (k x) of None \<Rightarrow> [] | Some members \<Rightarrow> members) @ [x]) (group_by k xs)"
  by (simp add: group_by_def)

lemma group_by_lookup: "map_of (group_by k xs) i = (if filter (\<lambda>x. k x = i) xs = [] then None else Some (filter (\<lambda>x. k x = i) xs))"
proof (induction xs arbitrary: i rule: rev_induct)
  case (snoc x xs)
  show ?case by (cases "k x = i") (simp_all add: group_by_snoc map_of_alist_update snoc.IH)
qed (simp add: group_by_def)

lemma group_by_distinct: "distinct (map fst (group_by k xs))"
  by (induction xs rule: rev_induct) (simp_all add: group_by_snoc distinct_update, simp add: group_by_def)

lemma group_by_entry:
  assumes "(i, members) \<in> set (group_by k xs)"
  shows "members = filter (\<lambda>x. k x = i) xs" "members \<noteq> []"
  using map_of_is_SomeI[OF group_by_distinct assms] by (auto simp: group_by_lookup split: if_splits)

text \<open>The elements of one group, among all groups.\<close>

lemma group_by_select:
  assumes key: "\<And>x. x \<in> set xs \<Longrightarrow> P x \<longleftrightarrow> k x = i"
  shows "filter (\<lambda>members. P (hd members)) (map snd (group_by k xs)) = (if filter P xs = [] then [] else [filter P xs])"
proof -
  have "filter (\<lambda>(j, members). P (hd members)) (group_by k xs) = filter (\<lambda>e. fst e = i) (group_by k xs)"
  proof (intro filter_cong refl)
    fix e
    assume "e \<in> set (group_by k xs)"
    moreover obtain j members where "e = (j, members)" by (cases e)
    ultimately have e: "e = (j, members)" "(j, members) \<in> set (group_by k xs)" by simp_all
    then have "hd members \<in> set xs" "k (hd members) = j" using group_by_entry[OF e(2)] hd_in_set by fastforce+
    then show "(case e of (j, members) \<Rightarrow> P (hd members)) = (fst e = i)" using key e by simp
  qed
  moreover have "filter (\<lambda>e. fst e = i) ys = (case map_of ys i of None \<Rightarrow> [] | Some v \<Rightarrow> [(i, v)])"
    if "distinct (map fst ys)" for ys :: "(string \<times> 'a list) list"
  proof (cases "map_of ys i")
    case None
    then have "filter (\<lambda>e. fst e = i) ys = []" by (auto simp: map_of_eq_None_iff filter_empty_conv)
    then show ?thesis by (simp add: None)
  next
    case (Some v)
    then show ?thesis using filter_key_unique[OF that map_of_SomeD[OF Some]] by simp
  qed
  ultimately have "map snd (filter (\<lambda>(j, members). P (hd members)) (group_by k xs))
      = (if filter (\<lambda>x. k x = i) xs = [] then [] else [filter (\<lambda>x. k x = i) xs])"
    using group_by_distinct[of k xs] by (simp add: group_by_lookup)
  moreover have "filter (\<lambda>x. k x = i) xs = filter P xs" using key by (intro filter_cong) auto
  ultimately show ?thesis by (simp add: filter_map comp_def case_prod_unfold)
qed

section \<open>Properties\<close>

lemma failure_key_inject:
  assumes "clean_text 240 (fl_memory f)" "clean_text 240 m"
  shows "failure_key f = m @ CHR 0x00 # category_name c \<longleftrightarrow> fl_memory f = m \<and> fl_category f = c"
proof
  have take: "takeWhile (\<lambda>x. x \<noteq> CHR 0x00) (t @ CHR 0x00 # rest) = t" if "clean_text 240 t" for t rest
    using that by (auto simp: clean_text_def list_ex_iff js_control_def takeWhile_append)
  assume eq: "failure_key f = m @ CHR 0x00 # category_name c"
  with take[OF assms(1)] take[OF assms(2)] have "fl_memory f = m" unfolding failure_key_def by metis
  with eq show "fl_memory f = m \<and> fl_category f = c" by (simp add: failure_key_def category_name_inject)
qed (simp add: failure_key_def)

text \<open>What the recommendation for a memory and a category rests on.\<close>

definition failures_of :: "failure_record list \<Rightarrow> string \<Rightarrow> failure_category \<Rightarrow> failure_record list" where
  "failures_of fs m c = filter (\<lambda>f. fl_memory f = m \<and> fl_category f = c) fs"

definition failure_ids :: "failure_record list \<Rightarrow> string \<Rightarrow> failure_category \<Rightarrow> string list" where
  "failure_ids fs m c = sort_units (uniq (map fl_id (failures_of fs m c)))"

definition failure_references :: "failure_record list \<Rightarrow> string \<Rightarrow> failure_category \<Rightarrow> string list" where
  "failure_references fs m c = sort_units (uniq (concat (map fl_references (failures_of fs m c))))"

lemma recommend_group_members:
  assumes "inj_on fl_id (set members)" "distinct members" "members \<noteq> []"
    and "\<And>f. f \<in> set members \<longleftrightarrow> f \<in> set fs \<and> fl_memory f = m \<and> fl_category f = c"
  shows "recommend_group lc digest parse date policy members
      = recommend_review digest date policy m c (failure_ids fs m c) (failure_references fs m c)"
    and "length members = length (failure_ids fs m c)"
proof -
  let ?ordered = "sort_by (compareFailure lc parse) members"
  have mset: "mset ?ordered = mset members" by simp
  have ne: "?ordered \<noteq> []" using assms(3) by simp
  then have "hd ?ordered \<in> set members" using hd_in_set[OF ne] by simp
  then have hd: "fl_memory (hd ?ordered) = m" "fl_category (hd ?ordered) = c" using assms(4) by blast+
  have "distinct ?ordered" using assms(2) mset by (metis mset_eq_imp_distinct_iff)
  then have ids: "distinct (map fl_id ?ordered)" using assms(1) by (simp add: distinct_map)
  have members: "set members = set (failures_of fs m c)" using assms(4) by (auto simp: failures_of_def)
  have "sort_units (uniq (map fl_id ?ordered)) = failure_ids fs m c"
    unfolding failure_ids_def sort_uniq_eq_iff by (simp add: members)
  then have i: "sort_units (map fl_id ?ordered) = failure_ids fs m c" by (simp only: uniq_distinct[OF ids])
  have r: "sort_units (uniq (concat (map fl_references ?ordered))) = failure_references fs m c"
    unfolding failure_references_def sort_uniq_eq_iff by (simp add: members)
  show "recommend_group lc digest parse date policy members
      = recommend_review digest date policy m c (failure_ids fs m c) (failure_references fs m c)"
    by (simp add: recommend_group_def Let_def hd i r)
  have "length ?ordered = length members" using mset by (metis size_mset)
  then show "length members = length (failure_ids fs m c)" using i by (metis length_map length_sort_units)
qed

lemma filter_sort_single:
  assumes "filter P xs = (if b then [x] else [])"
  shows "filter P (sort_by cmp xs) = (if b then [x] else [])"
proof -
  have "mset (filter P (sort_by cmp xs)) = mset (if b then [x] else [])"
    unfolding assms[symmetric] by (simp add: mset_filter)
  then show ?thesis by (cases b) (simp_all del: mset_filter)
qed

lemma evaluate_failures:
  assumes "evaluateRepeatedMemoryFailures lc num digest parse date failures policy = Inr recs"
  shows "filter (\<lambda>r. pv_memory r = m \<and> pv_category r = c) recs
    = (let relevant = relevant_failures parse (instant parse (trim date)) (pp_window policy) failures; ids = failure_ids relevant m c in
       if ids \<noteq> [] \<and> \<not> num_lt (Fin (of_nat (length ids))) (pp_threshold policy)
       then [recommend_review digest (trim date) policy m c ids (failure_references relevant m c)] else [])"
    and "Sorting_Algorithms.sorted (compare_recommendations lc) recs"
proof -
  define fs where "fs = relevant_failures parse (instant parse (trim date)) (pp_window policy) failures"
  let ?P = "\<lambda>f. fl_memory f = m \<and> fl_category f = c" and ?Q = "\<lambda>r. pv_memory r = m \<and> pv_category r = c"
  let ?big = "\<lambda>members. \<not> num_lt (Fin (of_nat (length members))) (pp_threshold policy)"
  let ?make = "recommend_group lc digest parse (trim date) policy"
  obtain out where out: "unique_failures lc num parse (instant parse (trim date)) (pp_window policy) [] failures = Inr out"
    and recs: "recs = sort_by (compare_recommendations lc) (map ?make (filter ?big (map snd (group_by failure_key (map snd out)))))"
    using assms by (auto simp: evaluateRepeatedMemoryFailures_def rbind_Inr_iff requireDate_def split: if_splits)
  show "Sorting_Algorithms.sorted (compare_recommendations lc) recs" unfolding recs by simp
  have ok: "by_id out" "set (map snd out) = set fs" and good: "list_all (good_failure parse) failures"
    using unique_failures_Inr[of "[]" lc num parse "instant parse (trim date)" "pp_window policy" failures] out
    by (auto simp: by_id_def fs_def)
  have clean: "clean_text 240 (fl_memory f)" if "f \<in> set (map snd out)" for f
    using that good unfolding ok(2) fs_def by (auto simp: relevant_failures_def list_all_iff good_failure_def normal_failure_def)
  have ids: "distinct (map fl_id (map snd out))"
  proof -
    have "map fl_id (map snd out) = map fst out" using ok(1) by (auto simp: by_id_def)
    then show ?thesis using ok(1) by (simp only: by_id_def)
  qed
  let ?members = "filter ?P (map snd out)"
  have hd_make: "?Q (?make members) \<longleftrightarrow> ?P (hd members)" if "members \<in> set (map snd (group_by failure_key (map snd out)))" for members
  proof -
    obtain i where e: "(i, members) \<in> set (group_by failure_key (map snd out))" using \<open>members \<in> _\<close> by auto
    let ?o = "sort_by (compareFailure lc parse) members"
    have m: "members \<noteq> []" "\<forall>f\<in>set members. f \<in> set (map snd out) \<and> failure_key f = i"
      using group_by_entry[OF e] by auto
    then have "?o \<noteq> []" by simp
    then have "hd ?o \<in> set members" "hd members \<in> set members" using hd_in_set[of ?o] m(1) by simp_all
    then have "hd ?o \<in> set (map snd out)" "hd members \<in> set (map snd out)" "failure_key (hd ?o) = failure_key (hd members)"
      using m(2) by simp_all
    then have "fl_memory (hd ?o) = fl_memory (hd members) \<and> fl_category (hd ?o) = fl_category (hd members)"
      using failure_key_inject[OF clean clean, of "hd ?o" "hd members" "fl_category (hd members)"] by (simp add: failure_key_def)
    then show ?thesis by (simp add: recommend_group_def recommend_review_def Let_def)
  qed
  have "filter ?Q (map ?make (filter ?big (map snd (group_by failure_key (map snd out)))))
      = map ?make (filter ?big (filter (\<lambda>members. ?P (hd members)) (map snd (group_by failure_key (map snd out)))))"
    using hd_make by (auto simp: filter_map comp_def conj_commute intro!: arg_cong[where f = "map _"] filter_cong)
  also have "filter (\<lambda>members. ?P (hd members)) (map snd (group_by failure_key (map snd out)))
      = (if ?members = [] then [] else [?members])"
  proof (cases "clean_text 240 m")
    case True
    then show ?thesis using failure_key_inject[OF clean True]
      by (intro group_by_select[where i = "m @ CHR 0x00 # category_name c"]) blast
  next
    case False
    then have "?members = []" using clean by (fastforce simp: filter_empty_conv)
    moreover have "filter (\<lambda>members. ?P (hd members)) (map snd (group_by failure_key (map snd out))) = []"
      unfolding filter_empty_conv
    proof
      fix members
      assume "members \<in> set (map snd (group_by failure_key (map snd out)))"
      then obtain i where "(i, members) \<in> set (group_by failure_key (map snd out))" by auto
      then have "hd members \<in> set (map snd out)" using group_by_entry hd_in_set[of members] by fastforce
      then show "\<not> ?P (hd members)" using clean False by blast
    qed
    ultimately show ?thesis by simp
  qed
  finally have sel: "filter ?Q (map ?make (filter ?big (map snd (group_by failure_key (map snd out)))))
      = (if ?members \<noteq> [] \<and> ?big ?members then [?make ?members] else [])" by simp
  have inj: "inj_on fl_id (set ?members)" "distinct ?members"
    using ids by (auto simp: distinct_map inj_on_def)
  have eq: "filter ?Q recs = (if ?members \<noteq> [] \<and> ?big ?members then [?make ?members] else [])"
    unfolding recs by (rule filter_sort_single[OF sel])
  have set: "f \<in> set ?members \<longleftrightarrow> f \<in> set fs \<and> fl_memory f = m \<and> fl_category f = c" for f
    using ok(2) by auto
  have empty: "?members = [] \<longleftrightarrow> failure_ids fs m c = []"
    by (simp add: failure_ids_def failures_of_def) (simp only: filter_empty_conv ok(2))
  show "filter ?Q recs = (let relevant = relevant_failures parse (instant parse (trim date)) (pp_window policy) failures;
       ids = failure_ids relevant m c in
       if ids \<noteq> [] \<and> \<not> num_lt (Fin (of_nat (length ids))) (pp_threshold policy)
       then [recommend_review digest (trim date) policy m c ids (failure_references relevant m c)] else [])"
    using eq recommend_group_members[OF inj _ set] empty by (cases "?members = []") (simp_all add: Let_def fs_def[symmetric])
qed

text \<open>
  The evaluator recommends a review for a memory and a category exactly when at least as many different failures
  of that memory and category lie inside the window as the threshold asks for, and then once: the recommendation
  names those failures and all their references, trimmed, sorted and without repetition. Recommendations come in
  the order of the collation of their memories, and within a memory in the fixed order of categories.
\<close>

theorem prevention_exact:
  assumes "evaluateRepeatedMemoryFailures lc num digest parse date failures policy = Inr recs"
  shows "filter (\<lambda>r. pv_memory r = m \<and> pv_category r = c) recs
      = (let relevant = relevant_failures parse (instant parse (trim date)) (pp_window policy) failures; ids = failure_ids relevant m c in
         if ids \<noteq> [] \<and> \<not> num_lt (Fin (of_nat (length ids))) (pp_threshold policy)
         then [recommend_review digest (trim date) policy m c ids (failure_references relevant m c)] else [])
    \<and> Sorting_Algorithms.sorted (compare_recommendations lc) recs"
  using evaluate_failures[OF assms] by blast

lemma evaluates_iff:
  "(\<exists>recs. evaluateRepeatedMemoryFailures lc num digest parse date failures policy = Inr recs) \<longleftrightarrow>
     trim date \<noteq> [] \<and> parse (trim date) \<noteq> None \<and> clean_text 240 (trim (pp_version policy))
     \<and> is_safe_integer (pp_threshold policy) \<and> \<not> num_lt (pp_threshold policy) (Fin 2)
     \<and> is_safe_integer (pp_window policy) \<and> \<not> num_le (pp_window policy) (Fin 0)
     \<and> list_all (good_failure parse) failures
     \<and> one_per_id (set (relevant_failures parse (instant parse (trim date)) (pp_window policy) failures))"
  using unique_failures_Inr(1)[of "[]" lc num parse "instant parse (trim date)" "pp_window policy" failures]
  by (auto simp: evaluateRepeatedMemoryFailures_def rbind_Inr_iff requireDate_def clean_within_Inr by_id_def)

lemma category_index_inject: "category_index c = category_index d \<longleftrightarrow> c = d"
  by (cases c; cases d) (simp_all add: category_index_def CATEGORY_ORDER_def)

text \<open>Two evaluations that select the same recommendations for every memory and category agree.\<close>

lemma recommendations_eqI:
  assumes "separates lc"
    and "Sorting_Algorithms.sorted (compare_recommendations lc) xs" "Sorting_Algorithms.sorted (compare_recommendations lc) ys"
    and "\<And>m c. filter (\<lambda>r. pv_memory r = m \<and> pv_category r = c) xs = filter (\<lambda>r. pv_memory r = m \<and> pv_category r = c) ys"
  shows "xs = ys"
proof -
  have equiv: "compare (compare_recommendations lc) r q = Equiv \<longleftrightarrow> pv_memory r = pv_memory q \<and> pv_category r = pv_category q" for r q
    using assms(1) unfolding separates_def compare_recommendations_def
    by (auto simp: compare_or_else category_index_inject split: comp.splits)
  have seg: "stable_segment (compare_recommendations lc) q zs
      = filter (\<lambda>r. pv_memory r = pv_memory q \<and> pv_category r = pv_category q) zs" for q zs
    by (auto simp: equiv intro!: filter_cong)
  have count: "count (mset zs) q = count (mset (filter (\<lambda>r. pv_memory r = pv_memory q \<and> pv_category r = pv_category q) zs)) q" for zs q
    by (simp add: mset_filter)
  have "mset xs = mset ys"
    by (intro multiset_eqI) (simp only: count[of xs] count[of ys] assms(4))
  then have "sort_by (compare_recommendations lc) ys = xs"
    using assms(2,4) by (intro sort_eqI) (simp_all add: seg)
  moreover have "sort_by (compare_recommendations lc) ys = ys"
    using assms(3) by (intro sort_eqI) simp_all
  ultimately show ?thesis by simp
qed

text \<open>
  The recommendations depend neither on the order in which the failures are given nor on repetitions, provided the
  collation tells different memories apart: the same set of failures always gives the same list.
\<close>

theorem prevention_order_independent:
  assumes "separates lc" and "set failures = set failures'"
    and "evaluateRepeatedMemoryFailures lc num digest parse date failures policy = Inr recs"
  shows "evaluateRepeatedMemoryFailures lc num digest parse date failures' policy = Inr recs"
proof -
  have rel: "set (relevant_failures parse now w failures) = set (relevant_failures parse now w failures')" for now w
    using assms(2) by (simp add: relevant_failures_def)
  have "\<exists>recs'. evaluateRepeatedMemoryFailures lc num digest parse date failures' policy = Inr recs'"
    using assms(2,3) evaluates_iff[of lc num digest parse date failures policy]
      evaluates_iff[of lc num digest parse date failures' policy] by (simp add: rel list_all_iff)
  then obtain recs' where recs': "evaluateRepeatedMemoryFailures lc num digest parse date failures' policy = Inr recs'" by blast
  have "failure_ids (relevant_failures parse now w failures) m c = failure_ids (relevant_failures parse now w failures') m c"
    "failure_references (relevant_failures parse now w failures) m c = failure_references (relevant_failures parse now w failures') m c"
    for now w m c
    unfolding failure_ids_def failure_references_def sort_uniq_eq_iff by (simp_all add: failures_of_def rel)
  note same = this
  have "recs = recs'"
    by (intro recommendations_eqI[OF assms(1) evaluate_failures(2)[OF assms(3)] evaluate_failures(2)[OF recs']])
      (simp only: evaluate_failures(1)[OF assms(3)] evaluate_failures(1)[OF recs'] Let_def same)
  with recs' show ?thesis by simp
qed

lemma ids_text_inject:
  "stableStringify lc num (JArray (map JString xs)) = stableStringify lc num (JArray (map JString ys)) \<longleftrightarrow> xs = ys"
proof
  have numbers: "stableStringify lc num (JArray (map JString zs)) = stableStringify lc fraction_text (JArray (map JString zs))" for zs
    by (simp add: comp_def)
  have plain: "plain_value (JArray (map JString zs))" for zs by (simp add: list_all_iff)
  assume "stableStringify lc num (JArray (map JString xs)) = stableStringify lc num (JArray (map JString ys))"
  then have "canonical lc (JArray (map JString xs)) = canonical lc (JArray (map JString ys))"
    unfolding numbers using serialisation_prefix[OF fraction_text_prints plain plain, of lc xs "[]" ys "[]"] by (simp add: delimited_def)
  then show "xs = ys" by (simp add: comp_def)
qed simp

lemma recommended_member:
  assumes "evaluateRepeatedMemoryFailures lc num digest parse date failures policy = Inr recs" and "r \<in> set recs"
  shows "pv_version r = trim (pp_version policy)" "pv_threshold r = pp_threshold policy" "pv_window r = pp_window policy"
    "\<exists>xs. pv_failures r = sort_units (uniq xs)"
proof -
  have "r \<in> set (filter (\<lambda>q. pv_memory q = pv_memory r \<and> pv_category q = pv_category r) recs)" using assms(2) by simp
  then obtain fs where "r = recommend_review digest (trim date) policy (pv_memory r) (pv_category r)
      (failure_ids fs (pv_memory r) (pv_category r)) (failure_references fs (pv_memory r) (pv_category r))"
    unfolding evaluate_failures(1)[OF assms(1)] Let_def by (auto split: if_splits)
  then show "pv_version r = trim (pp_version policy)" "pv_threshold r = pp_threshold policy" "pv_window r = pp_window policy"
    "\<exists>xs. pv_failures r = sort_units (uniq xs)"
    by (metis prevention_recommendation.select_convs recommend_review_def failure_ids_def)+
qed

text \<open>
  A recommendation is fresh exactly as long as the policy has the same version, threshold and window, and the active
  failures are those it names, in any order: every other change, or an unusable id, makes it stale.
\<close>

theorem prevention_staleness:
  assumes "evaluateRepeatedMemoryFailures lc num digest parse date failures policy = Inr recs" and "r \<in> set recs"
  shows "recommendation_stale lc num r policy' active \<longleftrightarrow>
    \<not> (trim (pp_version policy') = trim (pp_version policy) \<and> pp_threshold policy' = pp_threshold policy
      \<and> pp_window policy' = pp_window policy
      \<and> list_all (\<lambda>x. clean_text 240 (trim x)) active \<and> set (map trim active) = set (pv_failures r))"
proof -
  note r = recommended_member[OF assms]
  obtain xs where xs: "pv_failures r = sort_units (uniq xs)" using r(4) by blast
  have same: "pv_failures r = sort_units (uniq (map trim active)) \<longleftrightarrow> set (map trim active) = set (pv_failures r)"
    unfolding xs sort_uniq_eq_iff by auto
  have ok: "trim (pp_version policy) \<noteq> []" "is_safe_integer (pp_threshold policy)" "\<not> num_lt (pp_threshold policy) (Fin 2)"
    "is_safe_integer (pp_window policy)" "\<not> num_le (pp_window policy) (Fin 0)"
    using evaluates_iff[of lc num digest parse date failures policy] assms(1) by (auto simp: clean_text_def)
  show ?thesis
  proof (cases "normalizeIds active")
    case (Inl e)
    then have "\<not> list_all (\<lambda>x. clean_text 240 (trim x)) active" using normalizeIds_Inr[of active] by auto
    then show ?thesis by (simp add: recommendation_stale_def Inl)
  next
    case (Inr ids)
    then have ids: "ids = sort_units (uniq (map trim active))" "list_all (\<lambda>x. clean_text 240 (trim x)) active"
      by (simp_all add: normalizeIds_Inr)
    show ?thesis unfolding recommendation_stale_def Inr sum.case ids_text_inject ids(1) same r(1-3)
      using ok ids(2) by metis
  qed
qed

section \<open>The properties at concrete failures\<close>

definition sample_policy :: prevention_policy where
  "sample_policy = \<lparr>pp_version = ''v1'', pp_threshold = Fin 2, pp_window = Fin 10\<rparr>"

definition sample_failure :: "string \<Rightarrow> string \<Rightarrow> failure_record" where
  "sample_failure i t = \<lparr>fl_id = i, fl_memory = ''m'', fl_category = PolicyDeniedFailure, fl_at = t, fl_references = [''e'' @ i]\<rparr>"

definition sample_failures :: "failure_record list" where
  "sample_failures = [sample_failure ''f2'' ''t2'', sample_failure ''f1'' ''t1'', sample_failure ''f1'' ''t1'', sample_failure ''f0'' ''t0'']"

definition sample_clock :: "string \<Rightarrow> int option" where
  "sample_clock s = (if s = ''t0'' then Some 0 else if s = ''t1'' then Some 11 else if s = ''t2'' then Some 12
     else if s = ''now'' then Some 13 else None)"

definition sample_recommendation :: prevention_recommendation where
  "sample_recommendation = \<lparr>pv_id = ''memory-prevention:d'', pv_memory = ''m'', pv_category = PolicyDeniedFailure, pv_version = ''v1'',
     pv_threshold = Fin 2, pv_window = Fin 10, pv_at = ''now'', pv_failures = [''f1'', ''f2''], pv_references = [''ef1'', ''ef2'']\<rparr>"

lemma sample_evaluated:
  "evaluateRepeatedMemoryFailures default fraction_text (\<lambda>_. ''d'') sample_clock ''now'' sample_failures sample_policy
    = Inr [sample_recommendation]"
  by code_simp

lemma sample_relevant:
  "failure_ids (relevant_failures sample_clock (instant sample_clock (trim ''now'')) (Fin 10) sample_failures) ''m'' PolicyDeniedFailure
    = [''f1'', ''f2'']"
  by code_simp

theorem prevention_exact_witness:
  "filter (\<lambda>r. pv_memory r = ''m'' \<and> pv_category r = PolicyDeniedFailure) [sample_recommendation] \<noteq> []
    \<and> length (failure_ids (relevant_failures sample_clock (instant sample_clock (trim ''now'')) (Fin 10) sample_failures) ''m'' PolicyDeniedFailure) = 2"
  using prevention_exact[OF sample_evaluated, of "''m''" PolicyDeniedFailure]
  by (simp add: Let_def sample_policy_def sample_relevant)

theorem prevention_order_independent_witness:
  "evaluateRepeatedMemoryFailures default fraction_text (\<lambda>_. ''d'') sample_clock ''now''
      [sample_failure ''f0'' ''t0'', sample_failure ''f1'' ''t1'', sample_failure ''f2'' ''t2''] sample_policy = Inr [sample_recommendation]"
  by (rule prevention_order_independent[OF separates_default _ sample_evaluated]) (auto simp: sample_failures_def)

theorem prevention_staleness_witness:
  "\<not> recommendation_stale default fraction_text sample_recommendation sample_policy ['' f2'', ''f1'', ''f2'']
    \<and> recommendation_stale default fraction_text sample_recommendation sample_policy [''f2'']"
proof -
  have active: "list_all (\<lambda>x. clean_text 240 (trim x)) ['' f2'', ''f1'', ''f2'']"
    "set (map trim ['' f2'', ''f1'', ''f2'']) = {''f1'', ''f2''}" "set (map trim [''f2'']) = {''f2''}"
    by code_simp+
  have r: "sample_recommendation \<in> set [sample_recommendation]" "set (pv_failures sample_recommendation) = {''f1'', ''f2''}"
    by (simp_all add: sample_recommendation_def)
  show ?thesis
    using prevention_staleness[OF sample_evaluated r(1), of sample_policy "['' f2'', ''f1'', ''f2'']"]
      prevention_staleness[OF sample_evaluated r(1), of sample_policy "[''f2'']"] active r(2) by simp
qed

end
