(* ===== verification/Public_Address.thy ===== *)
theory Public_Address
  imports Kernel_Prelude "HOL-Library.Word"
begin

text \<open>
  The network boundary of the program: which addresses \<open>web.read\<close> may contact and the fetch that enforces it at every
  redirect and retry (\<open>packages/connectors/src/web-page.ts\<close>), and the filter of literal hosts that search candidates
  pass (\<open>apps/local-kernel/agent-mission-executor.mjs\<close>). Parameters: \<open>is_ip\<close> (\<open>net.isIP\<close>: 4, 6 or 0), \<open>resolve_url\<close>
  (\<open>new URL(location, base)\<close>), the answers of the resolver and of the network, each a function of the requests sent so
  far (names may resolve differently each time), and \<open>render\<close> (reading and decoding the body). Host names are ASCII, as
  the URL parser leaves them. Results: every request goes to a public address, in a bounded number, and a
  refusal is never retried; all textual forms of an IPv4 address are judged alike; some IPv6 ranges are let through.
\<close>

section \<open>Text\<close>

definition ascii_lower :: "string \<Rightarrow> string" where
  "ascii_lower s = map (\<lambda>c. if 65 \<le> (of_char c :: nat) \<and> (of_char c :: nat) \<le> 90 then char_of ((of_char c :: nat) + 32) else c) s"

text \<open>\<open>s.split(c)\<close> on one character.\<close>

fun split_on :: "char \<Rightarrow> string \<Rightarrow> string list" where
  "split_on c [] = [[]]"
| "split_on c (x # xs) = (if x = c then [] # split_on c xs
     else (case split_on c xs of [] \<Rightarrow> [[x]] | y # ys \<Rightarrow> (x # y) # ys))"

definition digits :: "string \<Rightarrow> bool" where
  "digits s \<longleftrightarrow> s \<noteq> [] \<and> list_all is_digit s"

definition is_hex :: "char \<Rightarrow> bool" where
  "is_hex c \<longleftrightarrow> is_digit c \<or> (97 \<le> (of_char c :: nat) \<and> (of_char c :: nat) \<le> 102)"

definition hex_group :: "string \<Rightarrow> bool" where
  "hex_group s \<longleftrightarrow> s \<noteq> [] \<and> length s \<le> 4 \<and> list_all is_hex s"

definition hex_digit_value :: "char \<Rightarrow> nat" where
  "hex_digit_value c = (if is_digit c then of_char c - 48 else of_char c - 87)"

definition hex_value :: "string \<Rightarrow> nat" where
  "hex_value s = foldl (\<lambda>a c. 16 * a + hex_digit_value c) 0 s"

definition quad :: "nat \<Rightarrow> nat \<Rightarrow> nat \<Rightarrow> nat \<Rightarrow> string" where
  "quad a b c d = show_nat a @ ''.'' @ show_nat b @ ''.'' @ show_nat c @ ''.'' @ show_nat d"

section \<open>IPv4 inside IPv6\<close>

text \<open>The two tails of the patterns: four numbers with dots, and two groups of hexadecimal digits.\<close>

definition dotted_tail :: "string \<Rightarrow> string option" where
  "dotted_tail s = (if length (split_on (CHR ''.'') s) = 4 \<and> list_all digits (split_on (CHR ''.'') s) then Some s else None)"

definition hex_tail :: "string \<Rightarrow> string option" where
  "hex_tail s = (case split_on (CHR '':'') s of
       [h, l] \<Rightarrow> if hex_group h \<and> hex_group l
         then Some (quad (hex_value h div 256 mod 256) (hex_value h mod 256) (hex_value l div 256 mod 256) (hex_value l mod 256))
         else None
     | _ \<Rightarrow> None)"

text \<open>A pattern that starts with one of several prefixes.\<close>

fun after_prefix :: "string list \<Rightarrow> (string \<Rightarrow> string option) \<Rightarrow> string \<Rightarrow> string option" where
  "after_prefix [] tail s = None"
| "after_prefix (p # ps) tail s = (case (if prefix p s then tail (drop (length p) s) else None) of
     Some x \<Rightarrow> Some x | None \<Rightarrow> after_prefix ps tail s)"

fun first_match :: "(string \<Rightarrow> string option) list \<Rightarrow> string \<Rightarrow> string option" where
  "first_match [] s = None"
| "first_match (f # fs) s = (case f s of Some x \<Rightarrow> Some x | None \<Rightarrow> first_match fs s)"

definition ipv4MappedFromAddress :: "string \<Rightarrow> string option" where
  "ipv4MappedFromAddress = first_match
     [after_prefix [''64:ff9b::''] dotted_tail, after_prefix [''64:ff9b::''] hex_tail,
      after_prefix [''::ffff:0:'', ''::ffff:''] dotted_tail, after_prefix [''::ffff:0:'', ''::ffff:''] hex_tail,
      after_prefix [''0:0:0:0:0:0:'', ''::'', '':''] dotted_tail, after_prefix [''0:0:0:0:0:0:'', ''::'', '':''] hex_tail]"

section \<open>Private addresses\<close>

text \<open>The ranges both files refuse, on the first three numbers of an IPv4 address.\<close>

definition private_ipv4 :: "nat \<Rightarrow> nat \<Rightarrow> nat \<Rightarrow> bool" where
  "private_ipv4 a b c \<longleftrightarrow> a = 0 \<or> a = 10 \<or> a = 127 \<or> a \<ge> 224
     \<or> (a = 100 \<and> b \<ge> 64 \<and> b \<le> 127) \<or> (a = 169 \<and> b = 254)
     \<or> (a = 172 \<and> b \<ge> 16 \<and> b \<le> 31) \<or> (a = 192 \<and> b = 168)
     \<or> (a = 192 \<and> b = 0 \<and> c = 0) \<or> (a = 198 \<and> (b = 18 \<or> b = 19))"

definition isPublicAddress :: "(string \<Rightarrow> nat) \<Rightarrow> string \<Rightarrow> bool" where
  "isPublicAddress is_ip address = (let n = ascii_lower address in
     if n = ''::1'' \<or> n = ''::'' \<or> prefix ''fe80:'' n \<or> prefix ''fc'' n \<or> prefix ''fd'' n then False
     else case (case ipv4MappedFromAddress n of Some q \<Rightarrow> Some q | None \<Rightarrow> if is_ip n = 4 then Some n else None) of
       None \<Rightarrow> is_ip n = 6
     | Some ipv4 \<Rightarrow> (let parts = split_on (CHR ''.'') ipv4 in
         if length parts \<noteq> 4 \<or> \<not> list_all digits parts \<or> \<not> list_all (\<lambda>p. numeral_value p \<le> 255) parts then False
         else \<not> private_ipv4 (numeral_value (parts ! 0)) (numeral_value (parts ! 1)) (numeral_value (parts ! 2))))"

text \<open>The copy of the local kernel, for the literal hosts of candidates.\<close>

definition isPrivateIpv4Literal :: "string \<Rightarrow> bool" where
  "isPrivateIpv4Literal host = (let parts = split_on (CHR ''.'') host in
     if length parts \<noteq> 4 \<or> \<not> list_all (\<lambda>p. digits p \<and> length p \<le> 3) parts then False
     else \<not> list_all (\<lambda>p. numeral_value p \<le> 255) parts
       \<or> private_ipv4 (numeral_value (parts ! 0)) (numeral_value (parts ! 1)) (numeral_value (parts ! 2)))"

definition without_brackets :: "string \<Rightarrow> string" where
  "without_brackets s = (let t = (case s of c # cs \<Rightarrow> if c = CHR ''['' then cs else s | [] \<Rightarrow> []) in
     if t \<noteq> [] \<and> last t = CHR '']'' then butlast t else t)"

definition isPrivateLiteralHost :: "string \<Rightarrow> bool" where
  "isPrivateLiteralHost hostname = (let host = without_brackets (ascii_lower hostname) in
     if host = ''localhost'' \<or> host = ''::1'' \<or> host = ''::'' \<or> suffix ''.local'' host then True
     else if CHR '':'' \<in> set host \<and> (prefix ''fe80:'' host \<or> prefix ''fc'' host \<or> prefix ''fd'' host) then True
     else isPrivateIpv4Literal (case ipv4MappedFromAddress host of Some q \<Rightarrow> q | None \<Rightarrow> host))"

section \<open>Fetching a public page\<close>

record web_url =
  wu_protocol :: string
  wu_username :: string
  wu_password :: string
  wu_hostname :: string
  wu_href :: string

text \<open>An error of the runtime (resolver, socket, abort), by its name, code and message.\<close>

record runtime_error =
  re_name :: string
  re_code :: "string option"
  re_message :: string

datatype fetch_error =
  OnlyPublicHttp | PrivateNetwork | MissingLocation | TooManyRedirects | InvalidUrl | UnableToFetch | TransientHttp int
| BodyRefused | RuntimeFailed runtime_error

record web_response =
  wr_status :: int
  wr_location :: "string option"
  wr_body :: string

record web_document =
  wd_url :: string
  wd_title :: string
  wd_text :: string
  wd_status :: int

type_synonym request = "web_url \<times> string"

definition resolvePublicHttpUrl ::
  "(string \<Rightarrow> nat) \<Rightarrow> (string \<Rightarrow> runtime_error + string list) \<Rightarrow> web_url \<Rightarrow> fetch_error + string" where
  "resolvePublicHttpUrl is_ip lookup url =
     (if wu_protocol url \<notin> {''http:'', ''https:''} \<or> wu_username url \<noteq> [] \<or> wu_password url \<noteq> [] then Inl OnlyPublicHttp
      else let hostname = ascii_lower (without_brackets (wu_hostname url)) in
        if hostname = ''localhost'' \<or> suffix ''.localhost'' hostname then Inl PrivateNetwork
        else case (if is_ip hostname \<noteq> 0 then Inr [hostname] else lookup hostname) of
          Inl e \<Rightarrow> Inl (RuntimeFailed e)
        | Inr addresses \<Rightarrow>
            if addresses = [] \<or> \<not> list_all (isPublicAddress is_ip) addresses then Inl PrivateNetwork else Inr (hd addresses))"

definition redirect_status :: "int \<Rightarrow> bool" where
  "redirect_status s \<longleftrightarrow> s \<in> {301, 302, 303, 307, 308}"

text \<open>The loop over redirects; \<open>n\<close> more are followed. It answers the requests sent and how it ended.\<close>

fun follow ::
  "(string \<Rightarrow> nat) \<Rightarrow> (request list \<Rightarrow> string \<Rightarrow> runtime_error + string list) \<Rightarrow> (request list \<Rightarrow> runtime_error + web_response)
   \<Rightarrow> (string \<Rightarrow> web_url \<Rightarrow> web_url option) \<Rightarrow> nat \<Rightarrow> request list \<Rightarrow> web_url
   \<Rightarrow> request list \<times> (fetch_error + web_url \<times> web_response)" where
  "follow is_ip lookup reply resolve_url n sent url =
     (case resolvePublicHttpUrl is_ip (lookup sent) url of
        Inl e \<Rightarrow> (sent, Inl e)
      | Inr address \<Rightarrow>
          (case reply (sent @ [(url, address)]) of
             Inl e \<Rightarrow> (sent @ [(url, address)], Inl (RuntimeFailed e))
           | Inr response \<Rightarrow>
               if \<not> redirect_status (wr_status response) then (sent @ [(url, address)], Inr (url, response))
               else (case wr_location response of
                   None \<Rightarrow> (sent @ [(url, address)], Inl MissingLocation)
                 | Some location \<Rightarrow> if location = [] then (sent @ [(url, address)], Inl MissingLocation)
                     else (case n of 0 \<Rightarrow> (sent @ [(url, address)], Inl TooManyRedirects)
                      | Suc m \<Rightarrow> (case resolve_url location url of
                          None \<Rightarrow> (sent @ [(url, address)], Inl InvalidUrl)
                        | Some next_url \<Rightarrow> follow is_ip lookup reply resolve_url m (sent @ [(url, address)]) next_url)))))"

declare follow.simps [simp del]

definition fetchOnce ::
  "(string \<Rightarrow> nat) \<Rightarrow> (request list \<Rightarrow> string \<Rightarrow> runtime_error + string list) \<Rightarrow> (request list \<Rightarrow> runtime_error + web_response)
   \<Rightarrow> (string \<Rightarrow> web_url \<Rightarrow> web_url option) \<Rightarrow> (web_url \<Rightarrow> web_response \<Rightarrow> fetch_error + web_document)
   \<Rightarrow> web_url option \<Rightarrow> request list \<Rightarrow> request list \<times> (fetch_error + web_document)" where
  "fetchOnce is_ip lookup reply resolve_url render url sent = (case url of
       None \<Rightarrow> (sent, Inl InvalidUrl)
     | Some u \<Rightarrow> (case follow is_ip lookup reply resolve_url 5 sent u of
         (sent', Inl e) \<Rightarrow> (sent', Inl e)
       | (sent', Inr (last_url, response)) \<Rightarrow>
           (sent', render last_url response)))"

text \<open>\<open>/pattern/i.test(text)\<close> for an alternative of plain words.\<close>

definition mentions :: "string list \<Rightarrow> string \<Rightarrow> bool" where
  "mentions words text \<longleftrightarrow> list_ex (\<lambda>w. sublist (ascii_lower w) (ascii_lower text)) words"

definition runtime_transient :: "runtime_error \<Rightarrow> bool" where
  "runtime_transient e \<longleftrightarrow>
     \<not> mentions [''private network'', ''credentials'', ''only http'', ''redirect'', ''unsupported'', ''too large'', ''exceeds''] (re_message e)
     \<and> (re_name e = ''AbortError''
       \<or> mentions [''ECONNRESET'', ''ETIMEDOUT'', ''EAI_AGAIN'', ''ECONNREFUSED'', ''EPIPE'', ''UND_ERR'']
           (case re_code e of None \<Rightarrow> [] | Some c \<Rightarrow> c)
       \<or> mentions [''socket hang up'', ''fetch failed'', ''network''] (re_message e))"

text \<open>The messages of the errors the file throws itself match no transient pattern, or one that excludes them.\<close>

definition isTransientError :: "fetch_error \<Rightarrow> bool" where
  "isTransientError e \<longleftrightarrow> (case e of RuntimeFailed r \<Rightarrow> runtime_transient r | _ \<Rightarrow> False)"

definition TRANSIENT_STATUSES :: "int list" where
  "TRANSIENT_STATUSES = [429, 502, 503, 504]"

text \<open>\<open>Math.max(0, Math.min(3, retries ?? 1))\<close>; \<open>NaN\<close> stays \<open>NaN\<close>, and the loop is then never entered.\<close>

definition retry_bound :: "js_number option \<Rightarrow> rat option" where
  "retry_bound r = (case r of None \<Rightarrow> Some 1 | Some NaN \<Rightarrow> None | Some PosInf \<Rightarrow> Some 3 | Some NegInf \<Rightarrow> Some 0
     | Some (Fin q) \<Rightarrow> Some (max 0 (min 3 q)))"

text \<open>The loop over attempts: \<open>k\<close> are left, \<open>i\<close> is the number of this one.\<close>

fun fetch_attempts ::
  "(request list \<Rightarrow> request list \<times> (fetch_error + web_document)) \<Rightarrow> rat \<Rightarrow> nat \<Rightarrow> nat \<Rightarrow> fetch_error \<Rightarrow> request list
   \<Rightarrow> request list \<times> (fetch_error + web_document)" where
  "fetch_attempts once retries 0 i failure sent = (sent, Inl failure)"
| "fetch_attempts once retries (Suc k) i failure sent = (case once sent of
     (sent', Inr d) \<Rightarrow>
       if wd_status d \<in> set TRANSIENT_STATUSES \<and> of_nat i < retries
       then fetch_attempts once retries k (Suc i) (TransientHttp (wd_status d)) sent'
       else (sent', Inr d)
   | (sent', Inl e) \<Rightarrow>
       if \<not> isTransientError e then (sent', Inl e) else fetch_attempts once retries k (Suc i) e sent')"

definition web_fetch ::
  "(string \<Rightarrow> nat) \<Rightarrow> (request list \<Rightarrow> string \<Rightarrow> runtime_error + string list) \<Rightarrow> (request list \<Rightarrow> runtime_error + web_response)
   \<Rightarrow> (string \<Rightarrow> web_url \<Rightarrow> web_url option) \<Rightarrow> (web_url \<Rightarrow> web_response \<Rightarrow> fetch_error + web_document)
   \<Rightarrow> js_number option \<Rightarrow> web_url option \<Rightarrow> request list \<times> (fetch_error + web_document)" where
  "web_fetch is_ip lookup reply resolve_url render retries url = (case retry_bound retries of
       None \<Rightarrow> ([], Inl UnableToFetch)
     | Some r \<Rightarrow> fetch_attempts (fetchOnce is_ip lookup reply resolve_url render url) r (Suc (nat \<lfloor>r\<rfloor>)) 0 UnableToFetch [])"

section \<open>The requests of a fetch\<close>

definition public_request :: "(string \<Rightarrow> nat) \<Rightarrow> request \<Rightarrow> bool" where
  "public_request is_ip r \<longleftrightarrow> wu_protocol (fst r) \<in> {''http:'', ''https:''} \<and> wu_username (fst r) = [] \<and> wu_password (fst r) = []
     \<and> isPublicAddress is_ip (snd r)"

lemma resolve_public: "resolvePublicHttpUrl is_ip lookup url = Inr address \<Longrightarrow> public_request is_ip (url, address)"
  by (auto simp: resolvePublicHttpUrl_def public_request_def Let_def list_all_iff split: if_splits sum.splits)

lemma follow_requests:
  "\<exists>new. fst (follow is_ip lookup reply resolve_url n sent url) = sent @ new \<and> length new \<le> Suc n \<and> list_all (public_request is_ip) new"
proof (induction n arbitrary: sent url)
  case 0
  show ?case
    by (subst follow.simps) (auto split: sum.splits option.splits dest: resolve_public)
next
  case (Suc n)
  show ?case
  proof (cases "resolvePublicHttpUrl is_ip (lookup sent) url")
    case (Inr address)
    let ?sent = "sent @ [(url, address)]"
    have one: "public_request is_ip (url, address)" using resolve_public Inr by blast
    have stop: "\<exists>new. fst (follow is_ip lookup reply resolve_url (Suc n) sent url) = sent @ new \<and> length new \<le> Suc (Suc n)
        \<and> list_all (public_request is_ip) new" if "fst (follow is_ip lookup reply resolve_url (Suc n) sent url) = ?sent"
      using one that by (intro exI[of _ "[(url, address)]"]) simp
    show ?thesis
    proof (cases "\<exists>response location next_url. reply ?sent = Inr response \<and> redirect_status (wr_status response)
        \<and> wr_location response = Some location \<and> location \<noteq> [] \<and> resolve_url location url = Some next_url")
      case True
      then obtain response location next_url where "reply ?sent = Inr response" "redirect_status (wr_status response)"
        "wr_location response = Some location" "location \<noteq> []" "resolve_url location url = Some next_url" by blast
      then have "follow is_ip lookup reply resolve_url (Suc n) sent url = follow is_ip lookup reply resolve_url n ?sent next_url"
        by (subst follow.simps) (simp add: Inr)
      moreover obtain new where "fst (follow is_ip lookup reply resolve_url n ?sent next_url) = ?sent @ new"
        "length new \<le> Suc n" "list_all (public_request is_ip) new" using Suc.IH by blast
      ultimately show ?thesis using one by (intro exI[of _ "(url, address) # new"]) simp
    next
      case False
      then have "fst (follow is_ip lookup reply resolve_url (Suc n) sent url) = ?sent"
        by (subst follow.simps) (auto simp: Inr split: sum.splits option.splits)
      then show ?thesis by (rule stop)
    qed
  qed (subst follow.simps, simp)
qed

lemma fetchOnce_requests:
  "\<exists>new. fst (fetchOnce is_ip lookup reply resolve_url render url sent) = sent @ new \<and> length new \<le> 6 \<and> list_all (public_request is_ip) new"
proof (cases url)
  case (Some u)
  then show ?thesis
    using follow_requests[of is_ip lookup reply resolve_url 5 sent u]
    by (auto simp: fetchOnce_def split: prod.splits sum.splits)
qed (simp add: fetchOnce_def)

lemma fetch_attempts_requests:
  assumes once: "\<And>sent. \<exists>new. fst (once sent) = sent @ new \<and> length new \<le> 6 \<and> list_all ok new"
  shows "\<exists>new. fst (fetch_attempts once r k i failure sent) = sent @ new \<and> length new \<le> 6 * k \<and> list_all ok new"
proof (induction k arbitrary: i failure sent)
  case (Suc k)
  obtain sent' res where o: "once sent = (sent', res)" by fastforce
  obtain new where new: "sent' = sent @ new" "length new \<le> 6" "list_all ok new" using once[of sent] o by auto
  have more: "\<exists>new. fst (fetch_attempts once r k j f sent') = sent @ new \<and> length new \<le> 6 * Suc k \<and> list_all ok new" for j f
  proof -
    obtain rest where "fst (fetch_attempts once r k j f sent') = sent' @ rest" "length rest \<le> 6 * k" "list_all ok rest"
      using Suc.IH by blast
    then show ?thesis using new by (intro exI[of _ "new @ rest"]) simp
  qed
  have "\<exists>new. sent' = sent @ new \<and> length new \<le> 6 * Suc k \<and> list_all ok new" using new by auto
  then show ?case using more o by (cases res) auto
qed simp

lemma retry_bound_le: "retry_bound r = Some q \<Longrightarrow> 0 \<le> q \<and> q \<le> 3"
  by (auto simp: retry_bound_def split: option.splits js_number.splits)

section \<open>One address, many spellings\<close>

lemma split_on_none: "c \<notin> set s \<Longrightarrow> split_on c s = [s]"
  by (induction s) auto

lemma split_on_append: "c \<notin> set s \<Longrightarrow> split_on c (s @ c # t) = s # split_on c t"
  by (induction s) auto

fun show_hex :: "nat \<Rightarrow> string" where
  "show_hex n = (if n < 16 then [''0123456789abcdef'' ! n] else show_hex (n div 16) @ [''0123456789abcdef'' ! (n mod 16)])"

declare show_hex.simps [simp del]

lemma hex_digits_ok:
  assumes "n < 16"
  shows "is_hex (''0123456789abcdef'' ! n) \<and> hex_digit_value (''0123456789abcdef'' ! n) = n"
proof -
  have "list_all (\<lambda>n. is_hex (''0123456789abcdef'' ! n) \<and> hex_digit_value (''0123456789abcdef'' ! n) = n) [0..<16]" by code_simp
  then show ?thesis using assms by (simp add: list_all_iff)
qed

lemma hex_value_snoc: "hex_value (s @ [c]) = 16 * hex_value s + hex_digit_value c"
  by (simp add: hex_value_def)

lemma show_hex_value: "hex_value (show_hex n) = n"
proof (induction n rule: show_hex.induct)
  case (1 n)
  then show ?case
    by (subst show_hex.simps) (auto simp: hex_value_snoc hex_digits_ok hex_value_def[of "[c]" for c])
qed

lemma show_hex_chars: "list_all is_hex (show_hex n)"
proof (induction n rule: show_hex.induct)
  case (1 n)
  then show ?case by (subst show_hex.simps) (auto simp: hex_digits_ok)
qed

lemma show_hex_length: "n < 16 ^ Suc k \<Longrightarrow> length (show_hex n) \<le> Suc k"
proof (induction k arbitrary: n)
  case 0
  then show ?case by (subst show_hex.simps) simp
next
  case (Suc k)
  then have "n div 16 < 16 ^ Suc k" by (simp add: less_mult_imp_div_less mult.commute)
  from Suc.IH[OF this] show ?case by (subst show_hex.simps) simp
qed

lemma show_hex_group: "n < 65536 \<Longrightarrow> hex_group (show_hex n)"
  using show_hex_chars[of n] show_hex_length[of n 3] by (auto simp: hex_group_def show_hex.simps[of n])

text \<open>A quad and a pair of groups, read by the patterns.\<close>

lemma digits_no_mark:
  "CHR ''.'' \<notin> set (show_nat n)" "CHR '':'' \<notin> set (show_nat n)" "digits (show_nat n)"
  using show_nat_digits[of "CHR ''.''" n] show_nat_digits[of "CHR '':''" n] show_nat_digits[of _ n] show_nat_not_Nil[of n]
  by (auto simp: digits_def list_all_iff is_digit_def)

lemma hex_no_mark: "list_all is_hex s \<Longrightarrow> CHR ''.'' \<notin> set s \<and> CHR '':'' \<notin> set s"
  by (auto simp: list_all_iff is_hex_def is_digit_def)

lemma quad_parts: "split_on (CHR ''.'') (quad a b c d) = [show_nat a, show_nat b, show_nat c, show_nat d]"
  by (simp add: quad_def split_on_append split_on_none digits_no_mark)

lemma quad_chars: "x \<in> set (quad a b c d) \<Longrightarrow> is_digit x \<or> x = CHR ''.''"
  using show_nat_digits by (auto simp: quad_def)

lemma dotted_quad: "dotted_tail (quad a b c d) = Some (quad a b c d)"
  by (simp add: dotted_tail_def quad_parts digits_no_mark)

abbreviation hex_pair :: "nat \<Rightarrow> nat \<Rightarrow> string" where
  "hex_pair h l \<equiv> show_hex h @ CHR '':'' # show_hex l"

lemma hex_pair_read:
  assumes "h < 65536" "l < 65536"
  shows "hex_tail (hex_pair h l) = Some (quad (h div 256) (h mod 256) (l div 256) (l mod 256))" "dotted_tail (hex_pair h l) = None"
proof -
  have mark: "CHR '':'' \<notin> set (show_hex h)" "CHR '':'' \<notin> set (show_hex l)" "CHR ''.'' \<notin> set (hex_pair h l)"
    using hex_no_mark[OF show_hex_chars] by auto
  show "hex_tail (hex_pair h l) = Some (quad (h div 256) (h mod 256) (l div 256) (l mod 256))"
    using assms by (simp add: hex_tail_def split_on_append[OF mark(1)] split_on_none[OF mark(2)] show_hex_group show_hex_value
        div_less_dividend less_mult_imp_div_less)
  show "dotted_tail (hex_pair h l) = None"
    by (simp add: dotted_tail_def split_on_none[OF mark(3)])
qed

lemma not_prefix_quad: "CHR '':'' \<in> set s \<Longrightarrow> \<not> prefix s (quad a b c d)"
proof
  assume "prefix s (quad a b c d)" "CHR '':'' \<in> set s"
  then have "CHR '':'' \<in> set (quad a b c d)" using set_mono_prefix by fastforce
  then show False using quad_chars[of "CHR '':''"] by (auto simp: is_digit_def)
qed

lemma dotted_none: "CHR ''.'' \<notin> set s \<Longrightarrow> dotted_tail s = None"
  by (simp add: dotted_tail_def split_on_none)

lemma pair_marks [simp]: "CHR ''.'' \<notin> set (show_hex n)" "CHR '':'' \<notin> set (show_hex n)"
  using hex_no_mark[OF show_hex_chars] by auto

text \<open>A prefix that ends in the middle of a pair leaves one group, which is no pair.\<close>

lemma group_prefix:
  assumes "CHR '':'' \<notin> set w" "prefix (w @ '':'' @ v) (hex_pair h l)"
  shows "show_hex h = w" "prefix v (show_hex l)"
proof -
  obtain t where t: "hex_pair h l = w @ CHR '':'' # v @ t" using assms(2) by (auto simp: prefix_def)
  then have "takeWhile (\<lambda>x. x \<noteq> CHR '':'') (hex_pair h l) = w" using assms(1) by (simp add: takeWhile_append)
  moreover have "takeWhile (\<lambda>x. x \<noteq> CHR '':'') (hex_pair h l) = show_hex h" by (simp add: takeWhile_append)
  ultimately show "show_hex h = w" by simp
  with t show "prefix v (show_hex l)" by simp
qed

lemma hex_tail_group: "hex_tail (show_hex l) = None"
  by (simp add: hex_tail_def split_on_none)

lemma zero_prefix: "prefix ''0:'' (hex_pair h l) \<Longrightarrow> show_hex h = ''0''"
  using group_prefix(1)[of "''0''" "[]"] by simp

lemma ffff_prefix: "prefix ''ffff:'' (hex_pair h l) \<Longrightarrow> show_hex h = ''ffff''"
  using group_prefix(1)[of "''ffff''" "[]"] by simp

lemma ffff_zero_prefix: "\<not> prefix ''ffff:0:'' (hex_pair h l)"
proof
  assume "prefix ''ffff:0:'' (hex_pair h l)"
  then have "prefix ''0:'' (show_hex l)" using group_prefix(2)[of "''ffff''" "''0:''"] by simp
  then have "CHR '':'' \<in> set (show_hex l)" using set_mono_prefix by fastforce
  then show False by simp
qed

text \<open>The spellings of one IPv4 address inside an IPv6 address that the URL parser and resolvers produce.\<close>

definition ipv4_prefixes :: "string list" where
  "ipv4_prefixes = [''64:ff9b::'', ''::ffff:'', ''::ffff:0:'', ''::'', ''0:0:0:0:0:0:'']"

definition embeddings :: "nat \<Rightarrow> nat \<Rightarrow> nat \<Rightarrow> nat \<Rightarrow> string list" where
  "embeddings a b c d = concat (map (\<lambda>t. map (\<lambda>p. p @ t) ipv4_prefixes)
     [quad a b c d, hex_pair (256 * a + b) (256 * c + d)])"

lemma mapped_quad:
  "list_all (\<lambda>p. ipv4MappedFromAddress (p @ quad a b c d) = Some (quad a b c d))
     [''64:ff9b::'', ''::ffff:'', ''::ffff:0:'', ''::'', ''0:0:0:0:0:0:'']"
  by (simp add: ipv4MappedFromAddress_def dotted_quad not_prefix_quad)

lemma mapped_tail:
  assumes "hex_tail t = Some q" "CHR ''.'' \<notin> set t" "\<not> prefix ''ffff:0:'' t"
    and "prefix ''0:'' t \<Longrightarrow> hex_tail (drop (Suc (Suc 0)) t) = None"
    and "prefix ''ffff:'' t \<Longrightarrow> hex_tail (drop (Suc (Suc (Suc (Suc (Suc 0))))) t) = None"
  shows "list_all (\<lambda>p. ipv4MappedFromAddress (p @ t) = Some q) [''64:ff9b::'', ''::ffff:'', ''::ffff:0:'', ''::'', ''0:0:0:0:0:0:'']"
proof -
  have none: "dotted_tail t = None" "\<And>n. dotted_tail (drop n t) = None"
    using assms(2) by (auto intro: dotted_none dest: in_set_dropD)
  have none2: "dotted_tail (w @ t) = None" if "CHR ''.'' \<notin> set w" for w
    using that assms(2) by (intro dotted_none) simp
  note none2[of "''0:''", simplified, simp] none2[of "'':''", simplified, simp]
  show ?thesis
    using assms(1,3-5) none by (cases "prefix ''0:'' t"; cases "prefix ''ffff:'' t") (simp_all add: ipv4MappedFromAddress_def)
qed

lemma mapped_pair:
  assumes "h < 65536" "l < 65536"
  shows "list_all (\<lambda>p. ipv4MappedFromAddress (p @ hex_pair h l) = Some (quad (h div 256) (h mod 256) (l div 256) (l mod 256)))
     [''64:ff9b::'', ''::ffff:'', ''::ffff:0:'', ''::'', ''0:0:0:0:0:0:'']"
proof (rule mapped_tail[OF hex_pair_read(1)[OF assms] _ ffff_zero_prefix])
  show "hex_tail (drop (Suc (Suc 0)) (hex_pair h l)) = None" if "prefix ''0:'' (hex_pair h l)"
    using zero_prefix[OF that] hex_tail_group by simp
  show "hex_tail (drop (Suc (Suc (Suc (Suc (Suc 0))))) (hex_pair h l)) = None" if "prefix ''ffff:'' (hex_pair h l)"
    using ffff_prefix[OF that] hex_tail_group by simp
qed simp

section \<open>The properties\<close>

text \<open>Text without capital letters and colons or letters at its ends is left alone.\<close>

definition plain_char :: "char \<Rightarrow> bool" where
  "plain_char c \<longleftrightarrow> is_hex c \<or> c = CHR ''.'' \<or> c = CHR '':''"

lemma plain_lower: "list_all plain_char s \<Longrightarrow> ascii_lower s = s"
  by (induction s) (auto simp: ascii_lower_def plain_char_def is_hex_def is_digit_def)

lemma lower_append: "ascii_lower (s @ t) = ascii_lower s @ ascii_lower t"
  by (simp add: ascii_lower_def)

lemma plain_quad: "list_all plain_char (quad a b c d)"
  using quad_chars[of _ a b c d] by (auto simp: list_all_iff plain_char_def is_hex_def)

lemma plain_pair: "list_all plain_char (hex_pair h l)"
  using show_hex_chars[of h] show_hex_chars[of l] by (auto simp: list_all_iff plain_char_def)

lemma plain_brackets:
  assumes "list_all plain_char s"
  shows "without_brackets s = s"
proof -
  have "plain_char (last s)" if "s \<noteq> []" using assms that by (simp add: list_all_iff)
  then have "s \<noteq> [] \<Longrightarrow> last s \<noteq> CHR '']''" by (auto simp: plain_char_def is_hex_def is_digit_def)
  moreover have "(case s of c # cs \<Rightarrow> if c = CHR ''['' then cs else s | [] \<Rightarrow> []) = s"
    using assms by (auto simp: plain_char_def is_hex_def is_digit_def split: list.splits)
  ultimately show ?thesis by (cases "s = []") (simp_all add: without_brackets_def Let_def)
qed

lemma bracketed: "list_all plain_char s \<Longrightarrow> without_brackets (ascii_lower (''['' @ s @ '']'')) = s"
  by (subst lower_append, subst lower_append) (simp add: plain_lower, simp add: ascii_lower_def without_brackets_def Let_def)

lemma show_nat_short: "n < 256 \<Longrightarrow> length (show_nat n) \<le> 3"
  by (subst show_nat.simps, subst show_nat.simps, subst show_nat.simps) simp

lemma private_quad:
  "a < 256 \<Longrightarrow> b < 256 \<Longrightarrow> c < 256 \<Longrightarrow> d < 256 \<Longrightarrow> isPrivateIpv4Literal (quad a b c d) = private_ipv4 a b c"
  by (simp add: isPrivateIpv4Literal_def quad_parts digits_no_mark show_nat_short numeral_value_show_nat)

lemma quad_no_colon: "CHR '':'' \<notin> set (quad a b c d)"
  using quad_chars[of "CHR '':''" a b c d] by (auto simp: is_digit_def)

lemma show_hex_not_Nil: "show_hex n \<noteq> []"
  by (subst show_hex.simps) simp

lemma hex_pair_length: "2 \<le> length (hex_pair h l)"
  using show_hex_not_Nil[of h] by (cases "show_hex h") simp_all

lemma quad_length: "2 \<le> length (quad a b c d)"
  by (simp add: quad_def)

text \<open>How both filters judge a text whose embedded IPv4 address is known.\<close>

lemma embedded_judged:
  assumes "list_all plain_char s" "ipv4MappedFromAddress s = Some (quad a b c d)" "a < 256" "b < 256" "c < 256" "d < 256"
    and "s \<noteq> ''::1'' \<and> s \<noteq> ''::'' \<and> \<not> prefix ''fe80:'' s \<and> \<not> prefix ''fc'' s \<and> \<not> prefix ''fd'' s"
  shows "isPublicAddress is_ip s = (\<not> private_ipv4 a b c)" "isPrivateLiteralHost (''['' @ s @ '']'') = private_ipv4 a b c"
proof -
  show "isPublicAddress is_ip s = (\<not> private_ipv4 a b c)"
    using assms by (simp add: isPublicAddress_def plain_lower quad_parts digits_no_mark numeral_value_show_nat)
  have "\<not> suffix ''.local'' s \<and> s \<noteq> ''localhost''"
    using assms(1) by (auto simp: suffix_def plain_char_def is_hex_def is_digit_def)
  then show "isPrivateLiteralHost (''['' @ s @ '']'') = private_ipv4 a b c"
    using assms unfolding isPrivateLiteralHost_def bracketed[OF assms(1)] by (simp add: private_quad)
qed

lemma embedding_text:
  assumes "p \<in> set [''64:ff9b::'', ''::ffff:'', ''::ffff:0:'', ''::'', ''0:0:0:0:0:0:'']" "list_all plain_char t" "2 \<le> length t"
  shows "list_all plain_char (p @ t)"
    "p @ t \<noteq> ''::1'' \<and> p @ t \<noteq> ''::'' \<and> \<not> prefix ''fe80:'' (p @ t) \<and> \<not> prefix ''fc'' (p @ t) \<and> \<not> prefix ''fd'' (p @ t)"
  using assms by (auto simp: plain_char_def is_hex_def is_digit_def)

lemma embedding_judged:
  assumes "s \<in> set (embeddings a b c d)" "a < 256" "b < 256" "c < 256" "d < 256"
  shows "isPublicAddress is_ip s = (\<not> private_ipv4 a b c) \<and> isPrivateLiteralHost (''['' @ s @ '']'') = private_ipv4 a b c"
proof -
  have pair: "256 * a + b < 65536" "256 * c + d < 65536" using assms by simp_all
  have read: "ipv4MappedFromAddress s = Some (quad a b c d)"
    using assms(1) mapped_quad[of a b c d] mapped_pair[OF pair] assms(2-5) by (auto simp: embeddings_def ipv4_prefixes_def)
  obtain p t where pt: "s = p @ t" "p \<in> set ipv4_prefixes"
    "t \<in> {quad a b c d, hex_pair (256 * a + b) (256 * c + d)}"
    using assms(1) unfolding embeddings_def by auto
  then have t: "list_all plain_char t" "2 \<le> length t" using plain_quad plain_pair quad_length hex_pair_length by blast+
  note shape = embedding_text[OF pt(2)[unfolded ipv4_prefixes_def] t, folded pt(1)]
  show ?thesis using embedded_judged[OF shape(1) read assms(2-5) shape(2)] by simp
qed

text \<open>
  C21. \<open>web.read\<close> contacts public addresses only: whatever the names resolve to at each moment and wherever the pages
  redirect to, every request of a call is an http or https request without credentials to an address the filter takes for
  public, and a call sends at most 24 requests (six along the redirects, in at most four attempts), whatever number of
  retries is asked for.
\<close>

theorem web_read_contacts_public_only:
  "list_all (public_request is_ip) (fst (web_fetch is_ip lookup reply resolve_url render retries url))
   \<and> length (fst (web_fetch is_ip lookup reply resolve_url render retries url)) \<le> 24"
proof (cases "retry_bound retries")
  case (Some r)
  have "nat \<lfloor>r\<rfloor> \<le> 3" using retry_bound_le[OF Some] by (simp add: nat_le_iff floor_le_iff)
  moreover obtain new where "fst (web_fetch is_ip lookup reply resolve_url render retries url) = new"
    "length new \<le> 6 * Suc (nat \<lfloor>r\<rfloor>)" "list_all (public_request is_ip) new"
    using fetch_attempts_requests[of "fetchOnce is_ip lookup reply resolve_url render url" "public_request is_ip", OF fetchOnce_requests,
        of r "Suc (nat \<lfloor>r\<rfloor>)" 0 UnableToFetch "[]"] Some
    by (auto simp: web_fetch_def)
  ultimately show ?thesis by simp
qed (simp add: web_fetch_def)

text \<open>
  C24. The ten spellings of an IPv4 address inside an IPv6 address (NAT64, mapped, translated, compatible; with dots or as
  two hexadecimal groups) are judged like the IPv4 address itself, for each of the \<open>2 ^ 32\<close> addresses and by both filters:
  the one of the page fetcher refuses a spelling, and the one of the candidates takes the bracketed host for private, when
  the first three bytes are in a private or special range, and only then.
\<close>

theorem embedded_addresses_alike:
  fixes a b c d :: "8 word"
  shows "list_all (\<lambda>s. isPublicAddress is_ip s = (\<not> private_ipv4 (unat a) (unat b) (unat c))
       \<and> isPrivateLiteralHost (''['' @ s @ '']'') = isPrivateIpv4Literal (quad (unat a) (unat b) (unat c) (unat d))
       \<and> isPrivateIpv4Literal (quad (unat a) (unat b) (unat c) (unat d)) = private_ipv4 (unat a) (unat b) (unat c))
     (embeddings (unat a) (unat b) (unat c) (unat d))"
proof -
  have byte: "unat x < 256" for x :: "8 word" using unsigned_less[of x] by simp
  show ?thesis using embedding_judged byte private_quad by (simp add: list_all_iff)
qed

text \<open>
  Of the link-local range \<open>fe80::/10\<close> only the addresses that start with \<open>fe80:\<close> are refused, and of the other special
  IPv6 ranges multicast passes as public.
\<close>

theorem link_local_passes:
  "isPublicAddress (\<lambda>_. 6) ''fe90::1'' \<and> isPublicAddress (\<lambda>_. 6) ''ff02::1'' \<and> \<not> isPrivateLiteralHost ''[fe90::1]''"
  by code_simp

end
