(* ===== verification/Evidence_Support.thy ===== *)
theory Evidence_Support
  imports Public_Address
begin

text \<open>
  The SUPPORT decision: whether the text of a fetched page covers a Goal (\<open>packages/kernel/src/evidence/support.ts\<close>).
  Parameters: \<open>nfd\<close> is \<open>value.toLowerCase().normalize('NFD')\<close> with the combining marks removed (on ASCII text it is
  \<open>ascii_lower\<close>), \<open>parse_url\<close> the protocol and path of \<open>new URL(url)\<close>. The factors 0.4 and 0.6 are taken as the fractions
  \<open>2/5\<close> and \<open>3/5\<close>; rounding up the product with a count gives the same number. Results: what a supported page
  covers, that neither more text nor another order of the keywords changes a verdict for the worse, and when the
  exclusion of filler words loosens it.
\<close>

section \<open>Data\<close>

record goal_support =
  gs_title :: "string option"
  gs_keywords :: "string list"

record page_support =
  ps_title :: "string option"
  ps_excerpt :: "string option"
  ps_url :: "string option"
  ps_text :: "string option"

datatype support_reason =
  NoEvidence | EmptyGoal | UniqueIdMissing | SupportedPage | HomepageInsufficient | InsufficientCoverage | KeywordsMissing

record support_explanation =
  sx_supported :: bool
  sx_reason :: support_reason
  sx_goal_terms :: "string list"
  sx_subject_terms :: "string list"
  sx_matched_terms :: "string list"

definition STOPWORDS :: "string list" where
  "STOPWORDS = [
    ''a'', ''an'', ''and'', ''are'', ''as'', ''at'', ''be'', ''been'', ''being'', ''but'', ''by'', ''can'', ''could'',
    ''did'', ''do'', ''does'', ''for'', ''from'', ''had'', ''has'', ''have'', ''how'', ''if'', ''in'', ''into'', ''is'',
    ''it'', ''its'', ''just'', ''may'', ''might'', ''more'', ''most'', ''no'', ''not'', ''of'', ''on'', ''or'', ''over'',
    ''should'', ''so'', ''some'', ''than'', ''that'', ''the'', ''then'', ''this'', ''to'', ''too'', ''very'', ''was'',
    ''were'', ''what'', ''when'', ''where'', ''which'', ''who'', ''will'', ''with'', ''would'', ''el'', ''la'', ''los'',
    ''las'', ''un'', ''una'', ''unos'', ''unas'', ''de'', ''del'', ''al'', ''y'', ''o'', ''u'', ''en'', ''para'', ''por'',
    ''con'', ''que'', ''es'', ''se'', ''su'', ''sus'', ''lo'', ''le'', ''les'', ''esta'', ''este'', ''esto'', ''estas'',
    ''estos'', ''hay'', ''ser'', ''son'', ''como'', ''sobre'', ''sin'', ''mas'', ''find'', ''finding'', ''finds'',
    ''busca'', ''buscar'', ''busco'', ''looking'', ''search'', ''searches'', ''investiga'', ''investigar'',
    ''investigation'', ''goal'', ''objetivo'', ''objetivos'', ''quiero'', ''necesito'', ''need'', ''needed'', ''please'',
    ''me'', ''mi'', ''mis'', ''my'', ''your'', ''our'', ''locate'', ''record'', ''public'', ''filings'', ''about'',
    ''after'', ''before'', ''during'', ''without'', ''within'', ''using'', ''use'', ''used'', ''via'', ''get'', ''got'',
    ''make'', ''made'', ''new'']"

definition GENERIC_TERMS :: "string list" where
  "GENERIC_TERMS = [
    ''explain'', ''explained'', ''explaining'', ''explains'', ''explanation'', ''explainer'', ''guide'', ''guides'',
    ''tutorial'', ''tutorials'', ''introduction'', ''intro'', ''overview'', ''basics'', ''beginner'', ''beginners'',
    ''learn'', ''learning'', ''understand'', ''understanding'', ''example'', ''examples'', ''best'', ''top'', ''tips'',
    ''complete'', ''ultimate'', ''simple'', ''easy'', ''quick'', ''why'', ''deep'', ''dive'']"

definition SYNONYM_GROUPS :: "string list list" where
  "SYNONYM_GROUPS = [[''bolsa'', ''cotizada'', ''ipo'', ''listed''], [''bitcoin'', ''btc''], [''curso'', ''legal'', ''moneda''],
    [''euro'', ''eur''], [''taladro'', ''drill'']]"

section \<open>Text\<close>

definition support_fold :: "(string \<Rightarrow> string) \<Rightarrow> string \<Rightarrow> string" where
  "support_fold nfd s = trim (nfd s)"

text \<open>\<open>[a].filter(Boolean).join(' ')\<close>.\<close>

fun join_words :: "string list \<Rightarrow> string" where
  "join_words [] = []"
| "join_words [s] = s"
| "join_words (s # t # ts) = s @ '' '' @ join_words (t # ts)"

definition present :: "string option list \<Rightarrow> string list" where
  "present xs = concat (map (\<lambda>x. case x of None \<Rightarrow> [] | Some s \<Rightarrow> if s = [] then [] else [s]) xs)"

definition is_word :: "char \<Rightarrow> bool" where
  "is_word c \<longleftrightarrow> is_digit c \<or> (97 \<le> (of_char c :: nat) \<and> (of_char c :: nat) \<le> 122)"

text \<open>A match of \<open>/[a-z0-9]+(?:-[a-z0-9]+)*/\<close> at the start of the text, and what follows it.\<close>

fun one_token :: "string \<Rightarrow> string \<times> string" where
  "one_token [] = ([], [])"
| "one_token (c # s) = (if is_word c \<or> (c = CHR ''-'' \<and> (case s of [] \<Rightarrow> False | d # _ \<Rightarrow> is_word d))
     then (let (t, r) = one_token s in (c # t, r)) else ([], c # s))"

lemma one_token_split: "fst (one_token s) @ snd (one_token s) = s"
  by (induction s) (auto simp: case_prod_beta Let_def)

lemma one_token_shorter: "is_word c \<Longrightarrow> one_token (c # s) = (t, r) \<Longrightarrow> length r < Suc (length s)"
  using one_token_split[of s] by (auto simp: case_prod_beta Let_def dest: arg_cong[of _ _ length])

function (sequential) tokens :: "string \<Rightarrow> string list" where
  "tokens [] = []"
| "tokens (c # s) = (if is_word c then (case one_token (c # s) of (t, r) \<Rightarrow> t # tokens r) else tokens s)"
  by pat_completeness auto
termination by (relation "measure length") (auto simp del: one_token.simps dest: one_token_shorter[OF _ sym])

definition tokenize_text :: "(string \<Rightarrow> string) \<Rightarrow> string \<Rightarrow> string list" where
  "tokenize_text nfd s = tokens (support_fold nfd s)"

section \<open>Terms\<close>

definition synonyms :: "string \<Rightarrow> string list option" where
  "synonyms t = List.find (\<lambda>g. t \<in> set g) SYNONYM_GROUPS"

definition canonical_term :: "string \<Rightarrow> string" where
  "canonical_term t = (case synonyms t of None \<Rightarrow> t | Some g \<Rightarrow> hd g)"

definition meaningful :: "string \<Rightarrow> bool" where
  "meaningful t \<longleftrightarrow> 2 \<le> length t \<and> t \<notin> set STOPWORDS"

definition uniqueMeaningfulTerms :: "string list \<Rightarrow> string list" where
  "uniqueMeaningfulTerms ts = uniq (map canonical_term (filter meaningful ts))"

definition termCovered :: "string \<Rightarrow> string list \<Rightarrow> bool" where
  "termCovered t page = list_ex (\<lambda>s. s \<in> set page \<or> list_ex (prefix s) page)
     (case synonyms t of None \<Rightarrow> [t] | Some g \<Rightarrow> g)"

definition pageTokenSet :: "(string \<Rightarrow> string) \<Rightarrow> string \<Rightarrow> string list" where
  "pageTokenSet nfd haystack = concat (map (\<lambda>t. t # (if CHR ''-'' \<in> set t
     then filter (\<lambda>p. p \<noteq> []) (split_on (CHR ''-'') t) else [])) (tokenize_text nfd haystack))"

definition isUniqueGoalId :: "string \<Rightarrow> bool" where
  "isUniqueGoalId t \<longleftrightarrow> length t \<ge> 16 \<or> (length t \<ge> 12 \<and> CHR ''-'' \<in> set t)
     \<or> (length t \<ge> 10 \<and> list_ex (\<lambda>c. is_word c \<and> \<not> is_digit c) t \<and> list_ex is_digit t)"

definition isHomepage :: "(string \<Rightarrow> (string \<times> string) option) \<Rightarrow> string option \<Rightarrow> bool" where
  "isHomepage parse_url url = (case url of None \<Rightarrow> False | Some u \<Rightarrow> u \<noteq> [] \<and> (case parse_url u of None \<Rightarrow> False
     | Some (protocol, path) \<Rightarrow> protocol \<in> {''http:'', ''https:''} \<and> list_all (\<lambda>c. c = CHR ''/'') path))"

text \<open>\<open>Math.max(minHits, Math.ceil(ratio * n))\<close>.\<close>

definition required_hits :: "bool \<Rightarrow> nat \<Rightarrow> nat" where
  "required_hits homepage n = (if homepage then max 3 (nat \<lceil>3 / 5 * (of_nat n :: rat)\<rceil>) else max 2 (nat \<lceil>2 / 5 * (of_nat n :: rat)\<rceil>))"

section \<open>The decision\<close>

definition no_terms :: "bool \<Rightarrow> support_reason \<Rightarrow> support_explanation" where
  "no_terms b r = \<lparr>sx_supported = b, sx_reason = r, sx_goal_terms = [], sx_subject_terms = [], sx_matched_terms = []\<rparr>"

text \<open>The words that describe form and not subject are an argument, to compare the decision with and without them.\<close>

definition support_against ::
  "string list \<Rightarrow> (string \<Rightarrow> string) \<Rightarrow> (string \<Rightarrow> (string \<times> string) option) \<Rightarrow> goal_support \<Rightarrow> page_support \<Rightarrow> support_explanation" where
  "support_against generic nfd parse_url goal page =
     (let haystack = support_fold nfd (join_words (present [ps_title page, ps_excerpt page, ps_text page])) in
      if haystack = [] then no_terms False NoEvidence
      else let goal_tokens = tokenize_text nfd (join_words (present (gs_title goal # map Some (gs_keywords goal)))) in
      if goal_tokens = [] then no_terms False EmptyGoal
      else let ids = filter isUniqueGoalId goal_tokens in
      if list_ex (\<lambda>i. \<not> sublist i haystack) ids then no_terms False UniqueIdMissing
      else let goal_terms = uniqueMeaningfulTerms (filter (\<lambda>t. \<not> isUniqueGoalId t) goal_tokens) in
      if goal_terms = [] then (if ids \<noteq> [] then no_terms True SupportedPage else no_terms False EmptyGoal)
      else let subject = filter (\<lambda>t. t \<notin> set generic) goal_terms;
               page_tokens = pageTokenSet nfd haystack;
               matched = filter (\<lambda>t. termCovered t page_tokens) subject;
               homepage = isHomepage parse_url (ps_url page);
               result = (\<lambda>b r. \<lparr>sx_supported = b, sx_reason = r, sx_goal_terms = goal_terms, sx_subject_terms = subject,
                 sx_matched_terms = matched\<rparr>) in
      if length matched < required_hits homepage (length goal_terms)
      then result False (if homepage then HomepageInsufficient else InsufficientCoverage)
      else let keyword_terms = filter (\<lambda>t. t \<notin> set generic) (uniqueMeaningfulTerms (filter (\<lambda>t. \<not> isUniqueGoalId t)
                 (tokenize_text nfd (join_words (present (map Some (gs_keywords goal))))))) in
      if keyword_terms \<noteq> []
        \<and> length (filter (\<lambda>t. termCovered t page_tokens) keyword_terms) < min 2 (length keyword_terms)
      then result False KeywordsMissing
      else result True SupportedPage)"

definition explainEvidenceSupport ::
  "(string \<Rightarrow> string) \<Rightarrow> (string \<Rightarrow> (string \<times> string) option) \<Rightarrow> goal_support \<Rightarrow> page_support \<Rightarrow> support_explanation" where
  "explainEvidenceSupport = support_against GENERIC_TERMS"

definition evidenceSupportsGoal ::
  "(string \<Rightarrow> string) \<Rightarrow> (string \<Rightarrow> (string \<times> string) option) \<Rightarrow> goal_support \<Rightarrow> page_support \<Rightarrow> bool \<times> support_reason" where
  "evidenceSupportsGoal nfd parse_url goal page = (let x = explainEvidenceSupport nfd parse_url goal page in
     (sx_supported x, sx_reason x))"

section \<open>Tokens\<close>

lemma space_no_word: "js_space c \<Longrightarrow> \<not> is_word c \<and> c \<noteq> CHR ''-''"
  by (auto simp: js_space_def is_word_def is_digit_def)

lemma one_token_end: "r \<noteq> [] \<Longrightarrow> js_space (hd r) \<Longrightarrow> one_token (s @ r) = (fst (one_token s), snd (one_token s) @ r)"
proof (induction s)
  case Nil
  then show ?case using space_no_word by (cases r) auto
next
  case (Cons c s)
  then have "(case s @ r of [] \<Rightarrow> False | d # _ \<Rightarrow> is_word d) = (case s of [] \<Rightarrow> False | d # _ \<Rightarrow> is_word d)"
    using space_no_word by (cases s; cases r) auto
  then show ?case using Cons by (auto simp: case_prod_beta Let_def)
qed

lemma tokens_append: "r \<noteq> [] \<Longrightarrow> js_space (hd r) \<Longrightarrow> tokens (s @ r) = tokens s @ tokens r"
proof (induction s rule: tokens.induct)
  case (2 c s)
  show ?case
  proof (cases "is_word c")
    case True
    obtain t u where tu: "one_token (c # s) = (t, u)" by fastforce
    have "one_token (c # s @ r) = (t, u @ r)" using one_token_end[OF 2(3,4), of "c # s"] tu by simp
    then show ?thesis using True tu 2(1)[OF True tu[symmetric] 2(3,4)] by (simp del: one_token.simps)
  next
    case False
    then show ?thesis using 2 by simp
  qed
qed simp

lemma tokens_spaces: "list_all js_space w \<Longrightarrow> tokens (w @ s) = tokens s"
  using space_no_word by (induction w) auto

lemma tokens_only_spaces: "list_all js_space w \<Longrightarrow> tokens w = []"
  using tokens_spaces[of w "[]"] by simp

lemma trim_split: "\<exists>v w. s = v @ trim s @ w \<and> list_all js_space v \<and> list_all js_space w"
proof -
  let ?t = "dropWhile js_space s"
  have "s = takeWhile js_space s @ trim s @ rev (takeWhile js_space (rev ?t))"
    unfolding trim_def by (metis rev_append rev_rev_ident takeWhile_dropWhile_id)
  moreover have "list_all js_space (takeWhile js_space s)" "list_all js_space (rev (takeWhile js_space (rev ?t)))"
    by (auto simp: list_all_iff dest: set_takeWhileD)
  ultimately show ?thesis by blast
qed

lemma tokens_trim: "tokens (trim s) = tokens s"
proof -
  obtain v w where s: "s = v @ trim s @ w" "list_all js_space v" "list_all js_space w" using trim_split by blast
  have "tokens (trim s @ w) = tokens (trim s)"
    using s(3) tokens_append[of w "trim s"] tokens_only_spaces[OF s(3)] by (cases "w = []") (auto simp: list_all_iff)
  then show ?thesis using s(1) tokens_spaces[OF s(2)] by metis
qed

lemma tokenize_norm: "tokenize_text nfd s = tokens (nfd s)"
  by (simp add: tokenize_text_def support_fold_def tokens_trim)

section \<open>The decision on sets of words\<close>

definition term_set :: "string set \<Rightarrow> string set" where
  "term_set T = canonical_term ` {t \<in> T. \<not> isUniqueGoalId t \<and> meaningful t}"

definition covered_in :: "string set \<Rightarrow> string \<Rightarrow> bool" where
  "covered_in P t \<longleftrightarrow> (\<exists>s\<in>set (case synonyms t of None \<Rightarrow> [t] | Some g \<Rightarrow> g). \<exists>p\<in>P. prefix s p)"

definition hits :: "string set \<Rightarrow> string set \<Rightarrow> string set \<Rightarrow> nat" where
  "hits generic P T = card {t \<in> T. t \<notin> generic \<and> covered_in P t}"

definition support_spec :: "string set \<Rightarrow> string \<Rightarrow> string set \<Rightarrow> bool \<Rightarrow> string set \<Rightarrow> string set \<Rightarrow> support_reason" where
  "support_spec generic hay P homepage T K =
     (if hay = [] then NoEvidence else if T = {} then EmptyGoal
      else if \<exists>i\<in>T. isUniqueGoalId i \<and> \<not> sublist i hay then UniqueIdMissing
      else if term_set T = {} then (if \<exists>i\<in>T. isUniqueGoalId i then SupportedPage else EmptyGoal)
      else if hits generic P (term_set T) < required_hits homepage (card (term_set T))
      then (if homepage then HomepageInsufficient else InsufficientCoverage)
      else if term_set K - generic \<noteq> {} \<and> hits generic P (term_set K) < min 2 (card (term_set K - generic)) then KeywordsMissing
      else SupportedPage)"

definition haystack_of :: "(string \<Rightarrow> string) \<Rightarrow> page_support \<Rightarrow> string" where
  "haystack_of nfd page = support_fold nfd (join_words (present [ps_title page, ps_excerpt page, ps_text page]))"

definition keyword_tokens :: "(string \<Rightarrow> string) \<Rightarrow> goal_support \<Rightarrow> string list" where
  "keyword_tokens nfd goal = tokenize_text nfd (join_words (present (map Some (gs_keywords goal))))"

definition goal_tokens :: "(string \<Rightarrow> string) \<Rightarrow> goal_support \<Rightarrow> string list" where
  "goal_tokens nfd goal = tokenize_text nfd (join_words (present (gs_title goal # map Some (gs_keywords goal))))"

lemma length_filter_uniq: "length (filter Q (uniq xs)) = card {x \<in> set xs. Q x}"
proof -
  have "distinct (filter Q (uniq xs))" by simp
  from distinct_card[OF this] show ?thesis by simp
qed

lemma terms_uniq: "uniqueMeaningfulTerms (filter (\<lambda>t. \<not> isUniqueGoalId t) ts) = uniq (map canonical_term (filter meaningful (filter (\<lambda>t. \<not> isUniqueGoalId t) ts)))"
  by (simp add: uniqueMeaningfulTerms_def)

lemma terms_set: "set (map canonical_term (filter meaningful (filter (\<lambda>t. \<not> isUniqueGoalId t) ts))) = term_set (set ts)"
  by (auto simp: term_set_def)

lemma terms_Nil: "uniqueMeaningfulTerms (filter (\<lambda>t. \<not> isUniqueGoalId t) ts) = [] \<longleftrightarrow> term_set (set ts) = {}"
  unfolding terms_uniq uniq_eq_Nil terms_set[symmetric] by (metis set_empty)

lemma terms_length: "length (uniqueMeaningfulTerms (filter (\<lambda>t. \<not> isUniqueGoalId t) ts)) = card (term_set (set ts))"
  unfolding terms_uniq terms_set[symmetric] by (metis distinct_card distinct_uniq set_uniq)

lemma termCovered_iff: "termCovered t page = covered_in (set page) t"
  by (auto simp: termCovered_def covered_in_def list_ex_iff)

lemma terms_hits: "length (filter (\<lambda>t. termCovered t page) (filter (\<lambda>t. t \<notin> set generic)
    (uniqueMeaningfulTerms (filter (\<lambda>t. \<not> isUniqueGoalId t) ts)))) = hits (set generic) (set page) (term_set (set ts))"
  unfolding terms_uniq filter_filter length_filter_uniq terms_set[unfolded filter_filter] hits_def termCovered_iff by simp

lemma terms_rest: "length (filter (\<lambda>t. t \<notin> set generic) (uniqueMeaningfulTerms (filter (\<lambda>t. \<not> isUniqueGoalId t) ts)))
    = card (term_set (set ts) - set generic)"
  unfolding terms_uniq length_filter_uniq terms_set by (rule arg_cong[where f = card]) blast

lemma terms_rest_Nil: "filter (\<lambda>t. t \<notin> set generic) (uniqueMeaningfulTerms (filter (\<lambda>t. \<not> isUniqueGoalId t) ts)) = []
    \<longleftrightarrow> term_set (set ts) - set generic = {}"
  unfolding terms_uniq filter_empty_conv set_uniq terms_set by blast

lemma ids_iff:
  "list_ex (\<lambda>i. \<not> sublist i h) (filter isUniqueGoalId ts) \<longleftrightarrow> (\<exists>i\<in>set ts. isUniqueGoalId i \<and> \<not> sublist i h)"
  "filter isUniqueGoalId ts = [] \<longleftrightarrow> \<not> (\<exists>i\<in>set ts. isUniqueGoalId i)"
  by (auto simp: list_ex_iff filter_empty_conv)

lemma support_against_spec:
  "sx_reason (support_against generic nfd parse_url goal page)
     = support_spec (set generic) (haystack_of nfd page) (set (pageTokenSet nfd (haystack_of nfd page))) (isHomepage parse_url (ps_url page))
         (set (goal_tokens nfd goal)) (set (keyword_tokens nfd goal))"
  "sx_supported (support_against generic nfd parse_url goal page)
     = (sx_reason (support_against generic nfd parse_url goal page) = SupportedPage)"
  unfolding support_against_def Let_def support_spec_def haystack_of_def[symmetric] goal_tokens_def[symmetric]
    keyword_tokens_def[symmetric] terms_hits terms_rest terms_rest_Nil terms_Nil terms_length ids_iff set_empty
  by (simp_all add: if_distrib[of sx_reason] if_distrib[of sx_supported] if_distrib[of "\<lambda>x. x = SupportedPage"] no_terms_def
      split del: if_split cong: if_cong)

section \<open>Folded text\<close>

text \<open>What the properties use of case and accent folding.\<close>

definition text_folding :: "(string \<Rightarrow> string) \<Rightarrow> bool" where
  "text_folding nfd \<longleftrightarrow> nfd [] = [] \<and> (\<forall>s t. nfd (s @ '' '' @ t) = nfd s @ '' '' @ nfd t) \<and> (\<forall>s. nfd (trim (nfd s)) = trim (nfd s))"

lemma ascii_lower_char: "c \<in> set (ascii_lower s) \<Longrightarrow> \<not> (65 \<le> (of_char c :: nat) \<and> (of_char c :: nat) \<le> 90)"
  by (auto simp: ascii_lower_def)

lemma ascii_lower_same: "(\<And>c. c \<in> set s \<Longrightarrow> \<not> (65 \<le> (of_char c :: nat) \<and> (of_char c :: nat) \<le> 90)) \<Longrightarrow> ascii_lower s = s"
  unfolding ascii_lower_def by (rule map_idI) auto

lemma text_folding_ascii: "text_folding ascii_lower"
  using set_trim ascii_lower_char by (auto simp: text_folding_def lower_append intro!: ascii_lower_same) (auto simp: ascii_lower_def)

lemma join_tokens: "text_folding nfd \<Longrightarrow> tokenize_text nfd (join_words ks) = concat (map (tokenize_text nfd) ks)"
proof (induction ks rule: join_words.induct)
  case (3 s t ts)
  have "tokens (nfd s @ '' '' @ nfd (join_words (t # ts))) = tokens (nfd s) @ tokens ('' '' @ nfd (join_words (t # ts)))"
    by (rule tokens_append) (simp_all add: js_space_def)
  also have "tokens ('' '' @ nfd (join_words (t # ts))) = tokens (nfd (join_words (t # ts)))"
    using tokens_spaces[of "'' ''"] by (simp add: js_space_def)
  finally show ?case using 3 by (simp add: tokenize_norm text_folding_def)
qed (simp_all add: tokenize_norm text_folding_def)

lemma set_present: "set (present xs) = {s. Some s \<in> set xs \<and> s \<noteq> []}"
  by (auto simp: present_def split: option.splits if_splits)

lemma goal_tokens_set:
  "text_folding nfd \<Longrightarrow> set (goal_tokens nfd goal)
     = (\<Union>s\<in>{s. (gs_title goal = Some s \<or> s \<in> set (gs_keywords goal)) \<and> s \<noteq> []}. set (tokenize_text nfd s))"
  "text_folding nfd \<Longrightarrow> set (keyword_tokens nfd goal) = (\<Union>s\<in>{s. s \<in> set (gs_keywords goal) \<and> s \<noteq> []}. set (tokenize_text nfd s))"
  unfolding goal_tokens_def keyword_tokens_def
  by (auto simp: join_tokens set_present) metis

lemma join_snoc: "join_words (xs @ [t @ e]) = join_words (xs @ [t]) @ e"
  by (induction xs rule: join_words.induct) auto

lemma trim_grows: "prefix (trim a) (trim (a @ x))"
proof (cases "list_all js_space a")
  case True
  then have none: "dropWhile js_space a = []" by (simp add: list_all_iff)
  show ?thesis unfolding trim_def none by simp
next
  case False
  then have "dropWhile js_space (a @ x) = dropWhile js_space a @ x" by (auto simp: list_all_iff)
  moreover have "prefix (rev (dropWhile js_space (rev b))) (rev (dropWhile js_space (rev (b @ x))))" for b
  proof (cases "list_all js_space x")
    case True
    then have "dropWhile js_space (rev x @ rev b) = dropWhile js_space (rev b)"
      by (intro dropWhile_append2) (simp add: list_all_iff)
    then show ?thesis by simp
  next
    case False
    then have "rev (dropWhile js_space (rev (b @ x))) = b @ rev (dropWhile js_space (rev x))"
      by (auto simp: list_all_iff dropWhile_append1)
    moreover have "prefix (rev (dropWhile js_space (rev b))) b"
      by (metis suffix_dropWhile suffix_to_prefix rev_rev_ident)
    ultimately show ?thesis by (simp add: prefix_def) (metis append_assoc)
  qed
  ultimately show ?thesis by (simp add: trim_def)
qed

section \<open>The properties\<close>

lemma required_hits_bounds:
  "2 \<le> required_hits h n \<and> 2 * n \<le> 5 * required_hits h n \<and> (h \<longrightarrow> 3 \<le> required_hits h n \<and> 3 * n \<le> 5 * required_hits h n)"
proof -
  have up: "int m \<le> 5 * int (nat \<lceil>q\<rceil>)" if "5 * q = of_nat m" for m and q :: rat
  proof -
    have "5 * q \<le> 5 * of_int \<lceil>q\<rceil>" by simp
    then have "(of_int (int m) :: rat) \<le> of_int (5 * \<lceil>q\<rceil>)" using that by simp
    then have "int m \<le> 5 * \<lceil>q\<rceil>" by (simp only: of_int_le_iff)
    then show ?thesis by linarith
  qed
  have "2 * n \<le> 5 * nat \<lceil>2 / 5 * (of_nat n :: rat)\<rceil>" "3 * n \<le> 5 * nat \<lceil>3 / 5 * (of_nat n :: rat)\<rceil>"
    using up[of "2 / 5 * of_nat n" "2 * n"] up[of "3 / 5 * of_nat n" "3 * n"] by simp_all
  then show ?thesis by (auto simp: required_hits_def max_def)
qed

lemma supported_lists:
  assumes "sx_supported (support_against generic nfd parse_url goal page)"
  defines "x \<equiv> support_against generic nfd parse_url goal page"
  shows "\<not> list_ex (\<lambda>i. \<not> sublist i (haystack_of nfd page)) (filter isUniqueGoalId (goal_tokens nfd goal))
    \<and> (sx_goal_terms x = [] \<and> sx_matched_terms x = [] \<and> filter isUniqueGoalId (goal_tokens nfd goal) \<noteq> []
      \<or> sx_goal_terms x = uniqueMeaningfulTerms (filter (\<lambda>t. \<not> isUniqueGoalId t) (goal_tokens nfd goal)) \<and> sx_goal_terms x \<noteq> []
        \<and> sx_matched_terms x = filter (\<lambda>t. termCovered t (pageTokenSet nfd (haystack_of nfd page)))
            (filter (\<lambda>t. t \<notin> set generic) (sx_goal_terms x))
        \<and> required_hits (isHomepage parse_url (ps_url page)) (length (sx_goal_terms x)) \<le> length (sx_matched_terms x))"
proof -
  define hay where "hay = haystack_of nfd page"
  define ts where "ts = goal_tokens nfd goal"
  define ids where "ids = filter isUniqueGoalId ts"
  define bad where "bad = list_ex (\<lambda>i. \<not> sublist i hay) ids"
  define terms where "terms = uniqueMeaningfulTerms (filter (\<lambda>t. \<not> isUniqueGoalId t) ts)"
  define matched where "matched = filter (\<lambda>t. termCovered t (pageTokenSet nfd hay)) (filter (\<lambda>t. t \<notin> set generic) terms)"
  define few where "few = (length matched < required_hits (isHomepage parse_url (ps_url page)) (length terms))"
  show ?thesis
    using assms(1) unfolding x_def support_against_def Let_def haystack_of_def[symmetric] goal_tokens_def[symmetric]
      hay_def[symmetric] ts_def[symmetric] ids_def[symmetric] bad_def[symmetric] terms_def[symmetric] matched_def[symmetric] few_def[symmetric]
    by (simp add: no_terms_def few_def matched_def split: if_split_asm)
qed

lemma page_token_grows:
  assumes "text_folding nfd" "haystack_of nfd page = trim (nfd a)" "haystack_of nfd page' = trim (nfd (a @ '' '' @ e))"
  shows "set (pageTokenSet nfd (haystack_of nfd page)) \<subseteq> set (pageTokenSet nfd (haystack_of nfd page'))"
proof -
  have "tokenize_text nfd (trim (nfd b)) = tokens (nfd b)" for b
    using assms(1) by (simp add: tokenize_norm text_folding_def tokens_trim)
  moreover have "tokens (nfd (a @ '' '' @ e)) = tokens (nfd a) @ tokens ('' '' @ nfd e)"
    using assms(1) tokens_append[of "'' '' @ nfd e" "nfd a"] by (simp add: text_folding_def js_space_def)
  ultimately show ?thesis using assms(2,3) by (auto simp: pageTokenSet_def)
qed

lemma hits_mono: "finite T \<Longrightarrow> P \<subseteq> P' \<Longrightarrow> hits generic P T \<le> hits generic P' T"
  unfolding hits_def by (rule card_mono) (auto simp: covered_in_def)

lemma term_set_finite: "finite T \<Longrightarrow> finite (term_set T)"
  by (simp add: term_set_def)

lemma spec_grows:
  assumes "support_spec generic hay P h T K = SupportedPage" "finite T" "finite K" "P \<subseteq> P'" "prefix hay hay'"
  shows "support_spec generic hay' P' h T K = SupportedPage"
proof -
  have "hits generic P (term_set T) \<le> hits generic P' (term_set T)" "hits generic P (term_set K) \<le> hits generic P' (term_set K)"
    using assms by (simp_all add: hits_mono term_set_finite)
  moreover have "sublist i hay \<Longrightarrow> sublist i hay'" for i
    using assms(5) by (meson prefix_imp_sublist sublist_order.order.trans)
  ultimately show ?thesis
    using assms(1,5) unfolding support_spec_def by (auto split: if_splits)
qed


text \<open>
  The verdict does not depend on the order of the keywords, nor on how often one is given: Goals with the same title
  and the same set of keywords get the same verdict with the same reason on every page.
\<close>

theorem support_ignores_keyword_order:
  assumes "text_folding nfd" "gs_title goal = gs_title goal'" "set (gs_keywords goal) = set (gs_keywords goal')"
  shows "evidenceSupportsGoal nfd parse_url goal page = evidenceSupportsGoal nfd parse_url goal' page"
proof -
  have "set (goal_tokens nfd goal) = set (goal_tokens nfd goal')" "set (keyword_tokens nfd goal) = set (keyword_tokens nfd goal')"
    using assms by (simp_all add: goal_tokens_set)
  then show ?thesis
    by (simp add: evidenceSupportsGoal_def explainEvidenceSupport_def Let_def support_against_spec)
qed

text \<open>
  More text never takes SUPPORT away: a page that is supported stays supported when text is added behind a blank.
\<close>

theorem more_text_keeps_support:
  assumes "text_folding nfd" "fst (evidenceSupportsGoal nfd parse_url goal page)" "ps_text page = Some t" "t \<noteq> []"
  shows "fst (evidenceSupportsGoal nfd parse_url goal (page\<lparr>ps_text := Some (t @ '' '' @ extra)\<rparr>))"
proof -
  let ?page = "page\<lparr>ps_text := Some (t @ '' '' @ extra)\<rparr>"
  let ?a = "join_words (present [ps_title page, ps_excerpt page] @ [t])"
  have snoc: "present [a, b, Some u] = present [a, b] @ [u]" if "u \<noteq> []" for a b u
    using that by (simp add: present_def)
  have h: "haystack_of nfd page = trim (nfd ?a)" "haystack_of nfd ?page = trim (nfd (?a @ '' '' @ extra))"
    using assms(3,4) snoc by (simp_all add: haystack_of_def support_fold_def join_snoc)
  have "nfd (?a @ '' '' @ extra) = nfd ?a @ '' '' @ nfd extra"
    using assms(1) unfolding text_folding_def by blast
  then have "prefix (haystack_of nfd page) (haystack_of nfd ?page)"
    unfolding h by (simp only: trim_grows)
  then show ?thesis
    using assms(2) spec_grows[OF _ _ _ page_token_grows[OF assms(1) h]]
    by (simp add: evidenceSupportsGoal_def explainEvidenceSupport_def Let_def support_against_spec)
qed


theorem support_ignores_keyword_order_witness:
  "evidenceSupportsGoal ascii_lower (\<lambda>_. None) \<lparr>gs_title = None, gs_keywords = [''rust'', ''wasm'']\<rparr>
       \<lparr>ps_title = Some ''Rust and wasm'', ps_excerpt = None, ps_url = None, ps_text = None\<rparr>
     = evidenceSupportsGoal ascii_lower (\<lambda>_. None) \<lparr>gs_title = None, gs_keywords = [''wasm'', ''rust'', ''wasm'']\<rparr>
       \<lparr>ps_title = Some ''Rust and wasm'', ps_excerpt = None, ps_url = None, ps_text = None\<rparr>"
  by (rule support_ignores_keyword_order[OF text_folding_ascii]) auto

theorem more_text_keeps_support_witness:
  "fst (evidenceSupportsGoal ascii_lower (\<lambda>_. None) \<lparr>gs_title = None, gs_keywords = [''rust'', ''wasm'']\<rparr>
       \<lparr>ps_title = None, ps_excerpt = None, ps_url = None, ps_text = Some ''Rust wasm and bread''\<rparr>)"
proof -
  let ?page = "\<lparr>ps_title = None, ps_excerpt = None, ps_url = None, ps_text = Some ''Rust wasm''\<rparr>"
  have "fst (evidenceSupportsGoal ascii_lower (\<lambda>_. None) \<lparr>gs_title = None, gs_keywords = [''rust'', ''wasm'']\<rparr> ?page)" by code_simp
  from more_text_keeps_support[OF text_folding_ascii this, of "''Rust wasm''" "''and bread''"] show ?thesis by simp
qed

text \<open>
  The exclusion of filler words, meant to only tighten the decision, also shortens the list of keywords that must be
  covered: with the keywords "rust" and "guide" a page that covers only the first is supported, and would not be if
  "guide" counted.
\<close>

theorem filler_exclusion_loosens:
  "sx_supported (explainEvidenceSupport ascii_lower (\<lambda>_. None) \<lparr>gs_title = Some ''rust ownership'', gs_keywords = [''rust'', ''guide'']\<rparr>
       \<lparr>ps_title = Some ''rust ownership'', ps_excerpt = None, ps_url = None, ps_text = None\<rparr>)
   \<and> sx_reason (support_against [] ascii_lower (\<lambda>_. None) \<lparr>gs_title = Some ''rust ownership'', gs_keywords = [''rust'', ''guide'']\<rparr>
       \<lparr>ps_title = Some ''rust ownership'', ps_excerpt = None, ps_url = None, ps_text = None\<rparr>) = KeywordsMissing"
  by code_simp

end
