(* ===== verification/Mission_Gate.thy ===== *)
theory Mission_Gate
  imports Capability Stable_Hash
begin

text \<open>
  Who lets an agent work without asking again: the receipts of the user's confirmation
  (\<open>apps/local-kernel/goal-execution-authorization.mjs\<close>), the read-only policy
  (\<open>packages/kernel/src/goal/automatic-read-only-continuation.ts\<close>) and the two gates that put them together with the
  capability registry: for searching (\<open>automatic-mission-claim-gate.mjs\<close>) and for reading pages
  (\<open>mission-search-candidate-verifier.mjs\<close>). Parameters: \<open>digest\<close> of a JSON value, \<open>show_time\<close> (the text of an instant), \<open>parse\<close>
  (\<open>Date.parse\<close>). A stored Goal is one of the two formats the local kernel keeps.
\<close>

section \<open>Stored Goals\<close>

record goal_snapshot =
  gn_revision :: js_number
  gn_title :: string
  gn_categories :: "string list"
  gn_keywords :: "string list"
  gn_location :: "string option"
  gn_changed :: "string list"
  gn_superseded_at :: int
  gn_superseded_by :: string

record local_goal =
  lg_id :: string
  lg_title :: string
  lg_categories :: "string list"
  lg_keywords :: "string list"
  lg_location :: "string option"
  lg_priority :: nat
  lg_active :: bool
  lg_created :: int
  lg_revision :: "js_number option"
  lg_revised :: "(int \<times> string) option"
  lg_history :: "goal_snapshot list"

datatype stored_goal = LocalGoal local_goal | ContractGoal universal_goal

definition stored_id :: "stored_goal \<Rightarrow> string" where
  "stored_id g = (case g of LocalGoal l \<Rightarrow> lg_id l | ContractGoal u \<Rightarrow> goal_id u)"

definition stored_title :: "stored_goal \<Rightarrow> string" where
  "stored_title g = (case g of LocalGoal l \<Rightarrow> lg_title l | ContractGoal u \<Rightarrow> goal_title u)"

text \<open>A local Goal is created active and nothing of the repository changes its status.\<close>

definition stored_status :: "stored_goal \<Rightarrow> goal_status" where
  "stored_status g = (case g of LocalGoal l \<Rightarrow> if lg_active l then GoalActive else GoalCancelled | ContractGoal u \<Rightarrow> goal_status u)"

section \<open>Receipts of the user's confirmation\<close>

datatype confirmation_actor = InteractiveUser | FounderUser | AgentActor | SystemActor
datatype confirmation_scope = ReadOnlyContinuation | SingleAction

record execution_authorization =
  xa_id :: string
  xa_goal :: string
  xa_revision :: js_number
  xa_approved :: bool
  xa_scope :: confirmation_scope
  xa_actor :: confirmation_actor
  xa_decided_by :: string
  xa_decided_at :: string

datatype receipt_error = ReceiptGoalId | ReceiptRevision | ReceiptActorId | ReceiptActorUntrusted

definition positive_integer :: "js_number \<Rightarrow> bool" where
  "positive_integer n \<longleftrightarrow> is_integer_num n \<and> num_le (Fin 1) n"

definition currentGoalRevision :: "stored_goal \<Rightarrow> receipt_error + js_number" where
  "currentGoalRevision g = (case g of
       ContractGoal u \<Rightarrow> if positive_integer (Fin (of_nat (goal_rev (current_revision u)))) then Inr (Fin (of_nat (goal_rev (current_revision u)))) else Inl ReceiptRevision
     | LocalGoal l \<Rightarrow> (case lg_revision l of None \<Rightarrow> Inr (Fin 1)
         | Some n \<Rightarrow> if positive_integer n then Inr n else Inl ReceiptRevision))"

definition actor_text :: "confirmation_actor \<Rightarrow> string" where
  "actor_text a = (case a of InteractiveUser \<Rightarrow> ''interactive_user'' | FounderUser \<Rightarrow> ''founder'' | AgentActor \<Rightarrow> ''agent'' | SystemActor \<Rightarrow> ''system'')"

definition createGoalExecutionAuthorizationReceipt ::
  "(js_value \<Rightarrow> string) \<Rightarrow> (int \<Rightarrow> string) \<Rightarrow> stored_goal \<Rightarrow> int \<Rightarrow> confirmation_actor \<times> string \<Rightarrow> receipt_error + execution_authorization" where
  "createGoalExecutionAuthorizationReceipt digest show_time g now actor =
     rbind (clean_within 200 ReceiptGoalId (stored_id g)) (\<lambda>gid.
     rbind (currentGoalRevision g) (\<lambda>revision.
     rbind (clean_within 200 ReceiptActorId (snd actor)) (\<lambda>decided_by.
     rbind (throw_if (fst actor \<noteq> InteractiveUser \<and> fst actor \<noteq> FounderUser) ReceiptActorUntrusted) (\<lambda>_.
     Inr \<lparr>xa_id = ''goal-auth:'' @ digest (JObject
            [(''schemaVersion'', JString ''efesto.goal-execution-authorization.v1''), (''goalId'', JString gid),
             (''goalRevision'', JNumber revision), (''decision'', JString ''approved''), (''scope'', JString ''read_only_continuation''),
             (''actorType'', JString (actor_text (fst actor))), (''decidedBy'', JString decided_by), (''decidedAt'', JString (show_time now))]),
       xa_goal = gid, xa_revision = revision, xa_approved = True, xa_scope = ReadOnlyContinuation, xa_actor = fst actor,
       xa_decided_by = decided_by, xa_decided_at = show_time now\<rparr>))))"

section \<open>The read-only policy\<close>

text \<open>The policy of a legacy Goal is none of the four.\<close>

record continuation_goal =
  ng_id :: string
  ng_revision :: js_number
  ng_status :: goal_status
  ng_policy :: "approval_policy option"

datatype continuation_denial =
  InvalidContinuationInput | ContinuationGoalNotActive | AuthorizationMissing | AuthorizationRejected | AuthorizationActorNotUser
| AuthorizationGoalMismatch | AuthorizationRevisionMismatch | AuthorizationScopeMismatch | GoalRequiresFreshApproval
| ContinuationCapabilityUnavailable | CapabilityNotReadOnly | CapabilityRequiresFreshConsent

record continuation_grant =
  ct_goal :: string
  ct_capability :: string
  ct_authorization :: string

definition parseReceipt :: "(string \<Rightarrow> 'i option) \<Rightarrow> execution_authorization \<Rightarrow> execution_authorization option" where
  "parseReceipt parse r =
     (if clean_text 200 (trim (xa_id r)) \<and> clean_text 200 (trim (xa_goal r)) \<and> positive_integer (xa_revision r)
        \<and> clean_text 200 (trim (xa_decided_by r)) \<and> parse (xa_decided_at r) \<noteq> None
      then Some (r\<lparr>xa_id := trim (xa_id r), xa_goal := trim (xa_goal r), xa_decided_by := trim (xa_decided_by r)\<rparr>) else None)"

text \<open>What is parsed: the trimmed Goal, the receipt if there is one, the capability. \<open>None\<close> when the input is refused.\<close>

definition parseInput ::
  "(string \<Rightarrow> 'i option) \<Rightarrow> continuation_goal \<Rightarrow> execution_authorization option \<Rightarrow> authorized_capability
   \<Rightarrow> (continuation_goal \<times> execution_authorization option \<times> string) option" where
  "parseInput parse g a c =
     (if \<not> clean_text 200 (trim (ng_id g)) \<or> \<not> positive_integer (ng_revision g)
        \<or> \<not> clean_text 200 (trim (cap_id (auth_definition c)))
        \<or> auth_requires_consent c \<noteq> (cap_consent (auth_definition c) \<noteq> ConsentNone) then None
      else (case a of
          None \<Rightarrow> Some (g\<lparr>ng_id := trim (ng_id g)\<rparr>, None, trim (cap_id (auth_definition c)))
        | Some r \<Rightarrow> (case parseReceipt parse r of None \<Rightarrow> None
            | Some r' \<Rightarrow> Some (g\<lparr>ng_id := trim (ng_id g)\<rparr>, Some r', trim (cap_id (auth_definition c))))))"

definition evaluateAutomaticReadOnlyContinuation ::
  "(string \<Rightarrow> 'i option) \<Rightarrow> continuation_goal \<Rightarrow> execution_authorization option \<Rightarrow> authorized_capability
   \<Rightarrow> continuation_denial + continuation_grant" where
  "evaluateAutomaticReadOnlyContinuation parse goal0 authorization c =
     (case parseInput parse goal0 authorization c of None \<Rightarrow> Inl InvalidContinuationInput
      | Some (g, receipt, cid) \<Rightarrow>
          if ng_status g \<noteq> GoalActive then Inl ContinuationGoalNotActive
          else (case receipt of None \<Rightarrow> Inl AuthorizationMissing
            | Some r \<Rightarrow>
                if \<not> xa_approved r then Inl AuthorizationRejected
                else if xa_actor r \<noteq> InteractiveUser \<and> xa_actor r \<noteq> FounderUser then Inl AuthorizationActorNotUser
                else if xa_goal r \<noteq> ng_id g then Inl AuthorizationGoalMismatch
                else if xa_revision r \<noteq> ng_revision g then Inl AuthorizationRevisionMismatch
                else if xa_scope r \<noteq> ReadOnlyContinuation then Inl AuthorizationScopeMismatch
                else if ng_policy g = Some PolicyAllActions \<or> ng_policy g = Some PolicyCustom then Inl GoalRequiresFreshApproval
                else if cap_health (auth_definition c) \<noteq> Available then Inl ContinuationCapabilityUnavailable
                else if cap_risk (auth_definition c) \<noteq> R0_observe then Inl CapabilityNotReadOnly
                else if cap_consent (auth_definition c) = ConsentAlways then Inl CapabilityRequiresFreshConsent
                else Inr \<lparr>ct_goal = ng_id g, ct_capability = cid, ct_authorization = xa_id r\<rparr>))"

section \<open>What a Goal allows\<close>

record gate_context =
  gc_revision :: js_number
  gc_policy :: "approval_policy option"
  gc_allowed :: "string list"
  gc_forbidden :: "string list"
  gc_scopes :: "string list"
  gc_forbidden_scopes :: "string list"

text \<open>\<open>conservativeAllowed\<close> of two lists, and \<open>union\<close>.\<close>

definition conservativeAllowed :: "string list list \<Rightarrow> string list" where
  "conservativeAllowed sets = (let populated = filter (\<lambda>s. s \<noteq> []) sets in
     if populated = [] then [] else filter (\<lambda>v. list_all (\<lambda>s. v \<in> set s) populated) (uniq (hd populated)))"

definition expandComposite :: "string list \<Rightarrow> string list" where
  "expandComposite vs = uniq (map (\<lambda>v. if v = ''public_web_research'' then ''web.search'' else v) vs)"

definition search_context :: "stored_goal \<Rightarrow> gate_context option" where
  "search_context g = (case g of
       ContractGoal u \<Rightarrow> (case currentGoalRevision g of Inl _ \<Rightarrow> None
         | Inr n \<Rightarrow> Some \<lparr>gc_revision = n, gc_policy = Some (approval_policy (approval_config u)),
             gc_allowed = conservativeAllowed [expandComposite (allowed_capabilities u), expandComposite (or_nil (constrained_capabilities (goal_constraints u)))],
             gc_forbidden = uniq (expandComposite (forbidden_capabilities u) @ expandComposite (or_nil (constrained_forbidden_capabilities (goal_constraints u)))),
             gc_scopes = conservativeAllowed [allowed_data_scopes u, or_nil (constrained_data_scopes (goal_constraints u))],
             gc_forbidden_scopes = uniq (or_nil (constrained_forbidden_data_scopes (goal_constraints u)))\<rparr>)
     | LocalGoal l \<Rightarrow> (case currentGoalRevision g of Inl _ \<Rightarrow> None
         | Inr n \<Rightarrow> Some \<lparr>gc_revision = n, gc_policy = None, gc_allowed = [''web.search''], gc_forbidden = [],
             gc_scopes = [''public_web''], gc_forbidden_scopes = []\<rparr>))"

text \<open>The copy of the verifier does not expand the alias of the search capability.\<close>

definition read_context :: "stored_goal \<Rightarrow> gate_context option" where
  "read_context g = (case g of
       ContractGoal u \<Rightarrow> (case currentGoalRevision g of Inl _ \<Rightarrow> None
         | Inr n \<Rightarrow> Some \<lparr>gc_revision = n, gc_policy = Some (approval_policy (approval_config u)),
             gc_allowed = conservativeAllowed [allowed_capabilities u, or_nil (constrained_capabilities (goal_constraints u))],
             gc_forbidden = uniq (forbidden_capabilities u @ or_nil (constrained_forbidden_capabilities (goal_constraints u))),
             gc_scopes = conservativeAllowed [allowed_data_scopes u, or_nil (constrained_data_scopes (goal_constraints u))],
             gc_forbidden_scopes = uniq (or_nil (constrained_forbidden_data_scopes (goal_constraints u)))\<rparr>)
     | LocalGoal l \<Rightarrow> (case currentGoalRevision g of Inl _ \<Rightarrow> None
         | Inr n \<Rightarrow> Some \<lparr>gc_revision = n, gc_policy = None, gc_allowed = [''web.read''], gc_forbidden = [],
             gc_scopes = [''public_web''], gc_forbidden_scopes = []\<rparr>))"

section \<open>The gates\<close>

definition PUBLIC_WEB_SEARCH_CAPABILITY :: capability_definition where
  "PUBLIC_WEB_SEARCH_CAPABILITY = \<lparr>cap_id = ''web.search'', cap_version = ''1'', cap_provider = ''public-web-search'', cap_risk = R0_observe,
     cap_consent = ConsentNone, cap_data_scopes = [''public_web''], cap_credential_scopes = [], cap_health = Available,
     cap_description = Some ''Search the public web without authentication or writes and return bounded discovery results''\<rparr>"

definition PUBLIC_WEB_READ_CAPABILITY :: capability_definition where
  "PUBLIC_WEB_READ_CAPABILITY = \<lparr>cap_id = ''web.read'', cap_version = ''1'', cap_provider = ''public-web-reader'', cap_risk = R0_observe,
     cap_consent = ConsentNone, cap_data_scopes = [''public_web''], cap_credential_scopes = [], cap_health = Available,
     cap_description = Some ''Read one validated public HTTP(S) page without authentication or writes''\<rparr>"

datatype gate_denial =
  GateInvalidInput | MissionGoalMismatch | VerificationPending | RuntimeReadOnlyUnverified | TrustedKernelUnavailable
| GateInvalidGoal | GateCapabilityDenied string | PolicyDenied continuation_denial

text \<open>The registry of the one capability is asked, then the policy.\<close>

definition ask_policy ::
  "(string \<Rightarrow> 'i option) \<Rightarrow> capability_definition \<Rightarrow> string \<Rightarrow> stored_goal \<Rightarrow> gate_context option \<Rightarrow> execution_authorization option
   \<Rightarrow> gate_denial + continuation_grant" where
  "ask_policy parse d plan g context authorization = (case context of None \<Rightarrow> Inl GateInvalidGoal
     | Some c \<Rightarrow>
         (case rbind (register_all [d] []) (\<lambda>reg. authorize reg \<lparr>req_capability = cap_id d, req_version = Some ''1''\<rparr>
             \<lparr>ctx_plan_id = plan, ctx_allowed_capabilities = gc_allowed c, ctx_forbidden_capabilities = gc_forbidden c,
              ctx_allowed_scopes = gc_scopes c, ctx_forbidden_scopes = gc_forbidden_scopes c\<rparr>) of
            Inl _ \<Rightarrow> Inl (GateCapabilityDenied (cap_id d))
          | Inr a \<Rightarrow> (case evaluateAutomaticReadOnlyContinuation parse
                \<lparr>ng_id = stored_id g, ng_revision = gc_revision c, ng_status = stored_status g, ng_policy = gc_policy c\<rparr> authorization a of
              Inl e \<Rightarrow> Inl (PolicyDenied e) | Inr grant \<Rightarrow> Inr grant)))"

text \<open>
  \<open>AutomaticMissionClaimGate.evaluate\<close>: \<open>runtime\<close> tells that the read-only runtime is ready or not asked for, \<open>trusted\<close>
  that the built kernel loads.
\<close>

definition claim_gate ::
  "(string \<Rightarrow> 'i option) \<Rightarrow> bool \<Rightarrow> bool \<Rightarrow> stored_goal option \<Rightarrow> string \<Rightarrow> string \<Rightarrow> bool \<Rightarrow> execution_authorization option
   \<Rightarrow> gate_denial + continuation_grant" where
  "claim_gate parse runtime trusted goal mission_id mission_goal candidates authorization = (case goal of None \<Rightarrow> Inl GateInvalidInput
     | Some g \<Rightarrow>
         if stored_id g = [] \<or> mission_goal \<noteq> stored_id g then Inl MissionGoalMismatch
         else if candidates then Inl VerificationPending
         else if \<not> runtime then Inl RuntimeReadOnlyUnverified
         else if \<not> trusted then Inl TrustedKernelUnavailable
         else ask_policy parse PUBLIC_WEB_SEARCH_CAPABILITY mission_id g (search_context g) authorization)"

definition authorizeRead ::
  "(string \<Rightarrow> 'i option) \<Rightarrow> stored_goal \<Rightarrow> string \<Rightarrow> execution_authorization option \<Rightarrow> gate_denial + continuation_grant" where
  "authorizeRead parse g mission_id authorization = ask_policy parse PUBLIC_WEB_READ_CAPABILITY mission_id g (read_context g) authorization"

section \<open>What a grant means\<close>

definition receipt_readable :: "(string \<Rightarrow> 'i option) \<Rightarrow> execution_authorization \<Rightarrow> bool" where
  "receipt_readable parse r \<longleftrightarrow> clean_text 200 (trim (xa_id r)) \<and> clean_text 200 (trim (xa_goal r)) \<and> positive_integer (xa_revision r)
     \<and> clean_text 200 (trim (xa_decided_by r)) \<and> (\<exists>t. parse (xa_decided_at r) = Some t)"

text \<open>The user's decision about the current revision of a Goal that is active.\<close>

definition user_confirmed :: "(string \<Rightarrow> 'i option) \<Rightarrow> stored_goal \<Rightarrow> execution_authorization \<Rightarrow> bool" where
  "user_confirmed parse g r \<longleftrightarrow> stored_status g = GoalActive \<and> xa_approved r \<and> xa_actor r \<in> {InteractiveUser, FounderUser}
     \<and> trim (xa_goal r) = trim (stored_id g) \<and> currentGoalRevision g = Inr (xa_revision r) \<and> xa_scope r = ReadOnlyContinuation
     \<and> receipt_readable parse r"

definition scopes_open :: "string list \<Rightarrow> string list \<Rightarrow> bool" where
  "scopes_open allowed forbidden \<longleftrightarrow> ''public_web'' \<notin> set forbidden \<and> (allowed = [] \<or> ''public_web'' \<in> set allowed)"

definition goal_permits :: "(string list \<Rightarrow> string list) \<Rightarrow> string \<Rightarrow> stored_goal \<Rightarrow> bool" where
  "goal_permits expand capability g \<longleftrightarrow> (case g of LocalGoal l \<Rightarrow> True | ContractGoal u \<Rightarrow>
     approval_policy (approval_config u) \<in> {PolicyNone, PolicyCheckpoints}
     \<and> capability \<in> set (conservativeAllowed [expand (allowed_capabilities u), expand (or_nil (constrained_capabilities (goal_constraints u)))])
     \<and> capability \<notin> set (expand (forbidden_capabilities u)) \<union> set (expand (or_nil (constrained_forbidden_capabilities (goal_constraints u))))
     \<and> scopes_open (conservativeAllowed [allowed_data_scopes u, or_nil (constrained_data_scopes (goal_constraints u))])
         (or_nil (constrained_forbidden_data_scopes (goal_constraints u))))"

lemma registered:
  "register_all [PUBLIC_WEB_SEARCH_CAPABILITY] [] = Inr [(''web.search'', PUBLIC_WEB_SEARCH_CAPABILITY)]"
  "register_all [PUBLIC_WEB_READ_CAPABILITY] [] = Inr [(''web.read'', PUBLIC_WEB_READ_CAPABILITY)]"
  by code_simp+

lemma cleaned:
  "clean_capability ''web.search'' ''capabilityId'' = Inr ''web.search''" "clean_capability ''web.read'' ''capabilityId'' = Inr ''web.read''"
  "clean_capability ''1'' ''version'' = Inr ''1''" "trim ''web.search'' = ''web.search''" "trim ''web.read'' = ''web.read''"
  "clean_text 200 ''web.search''" "clean_text 200 ''web.read''"
  by code_simp+

lemma continuation_Inr:
  "evaluateAutomaticReadOnlyContinuation parse g a c = Inr grant \<longleftrightarrow>
     (\<exists>r r'. a = Some r \<and> parseReceipt parse r = Some r' \<and> clean_text 200 (trim (ng_id g)) \<and> positive_integer (ng_revision g)
       \<and> clean_text 200 (trim (cap_id (auth_definition c))) \<and> auth_requires_consent c = (cap_consent (auth_definition c) \<noteq> ConsentNone)
       \<and> ng_status g = GoalActive \<and> xa_approved r' \<and> xa_actor r' \<in> {InteractiveUser, FounderUser}
       \<and> xa_goal r' = trim (ng_id g) \<and> xa_revision r' = ng_revision g \<and> xa_scope r' = ReadOnlyContinuation
       \<and> ng_policy g \<notin> {Some PolicyAllActions, Some PolicyCustom}
       \<and> cap_health (auth_definition c) = Available \<and> cap_risk (auth_definition c) = R0_observe \<and> cap_consent (auth_definition c) \<noteq> ConsentAlways
       \<and> grant = \<lparr>ct_goal = trim (ng_id g), ct_capability = trim (cap_id (auth_definition c)), ct_authorization = xa_id r'\<rparr>)"
  unfolding evaluateAutomaticReadOnlyContinuation_def parseInput_def
  by (auto split: if_splits option.splits)

lemma positive_one: "positive_integer (Fin 1)"
  by (simp add: positive_integer_def is_integer_num_def)

lemma revision_positive: "currentGoalRevision g = Inr n \<Longrightarrow> positive_integer n"
  using positive_one by (auto simp: currentGoalRevision_def split: stored_goal.splits option.splits if_splits)

lemma parseReceipt_Some:
  "parseReceipt parse r = Some r' \<longleftrightarrow> receipt_readable parse r \<and> r' = r\<lparr>xa_id := trim (xa_id r), xa_goal := trim (xa_goal r), xa_decided_by := trim (xa_decided_by r)\<rparr>"
  by (auto simp: parseReceipt_def receipt_readable_def)

lemma policy_case: "(case x of Inl e \<Rightarrow> Inl (PolicyDenied e) | Inr y \<Rightarrow> Inr y) = Inr grant \<longleftrightarrow> x = Inr grant"
  by (cases x) auto

definition public_capability :: "capability_definition \<Rightarrow> bool" where
  "public_capability d \<longleftrightarrow> register_all [d] [] = Inr [(cap_id d, d)] \<and> clean_capability (cap_id d) ''capabilityId'' = Inr (cap_id d)
     \<and> trim (cap_id d) = cap_id d \<and> clean_text 200 (cap_id d) \<and> cap_version d = ''1'' \<and> cap_health d = Available \<and> cap_risk d = R0_observe
     \<and> cap_consent d = ConsentNone \<and> cap_data_scopes d = [''public_web'']"

lemma public_capabilities: "public_capability PUBLIC_WEB_SEARCH_CAPABILITY" "public_capability PUBLIC_WEB_READ_CAPABILITY"
  unfolding public_capability_def by code_simp+

lemma ask_policy_Inr:
  assumes "public_capability d"
  shows "ask_policy parse d plan g context a = Inr grant \<longleftrightarrow>
    (\<exists>c r. context = Some c \<and> a = Some r \<and> cap_id d \<in> set (gc_allowed c) \<and> cap_id d \<notin> set (gc_forbidden c)
       \<and> scopes_open (gc_scopes c) (gc_forbidden_scopes c) \<and> gc_policy c \<notin> {Some PolicyAllActions, Some PolicyCustom}
       \<and> clean_text 200 (trim (stored_id g)) \<and> positive_integer (gc_revision c) \<and> stored_status g = GoalActive
       \<and> xa_approved r \<and> xa_actor r \<in> {InteractiveUser, FounderUser} \<and> trim (xa_goal r) = trim (stored_id g)
       \<and> xa_revision r = gc_revision c \<and> xa_scope r = ReadOnlyContinuation \<and> receipt_readable parse r
       \<and> grant = \<lparr>ct_goal = trim (stored_id g), ct_capability = cap_id d, ct_authorization = trim (xa_id r)\<rparr>)"
proof (cases "context")
  case (Some c)
  note d = assms[unfolded public_capability_def]
  note registered = d[THEN conjunct1]
  let ?ctx = "\<lparr>ctx_plan_id = plan, ctx_allowed_capabilities = gc_allowed c, ctx_forbidden_capabilities = gc_forbidden c,
              ctx_allowed_scopes = gc_scopes c, ctx_forbidden_scopes = gc_forbidden_scopes c\<rparr>"
  let ?ask = "rbind (register_all [d] []) (\<lambda>reg. authorize reg \<lparr>req_capability = cap_id d, req_version = Some ''1''\<rparr> ?ctx)"
  let ?open = "cap_id d \<in> set (gc_allowed c) \<and> cap_id d \<notin> set (gc_forbidden c) \<and> scopes_open (gc_scopes c) (gc_forbidden_scopes c)"
  let ?a = "\<lparr>auth_definition = d, auth_requires_consent = False\<rparr>"
  have "?ask = Inr x \<longleftrightarrow> ?open \<and> x = ?a" for x
    unfolding registered using d cleaned(3)
    by (auto simp: authorize_Inr_iff authorizable_def Let_def scopes_open_def)
  note asked = this
  show ?thesis
  proof (cases "?open")
    case True
    then have "?ask = Inr ?a" using asked by blast
    then show ?thesis
      using True d unfolding ask_policy_def Some
      by (simp add: policy_case continuation_Inr parseReceipt_Some) blast
  next
    case False
    then obtain e where "?ask = Inl e" using asked by (cases "?ask") auto
    then show ?thesis using False unfolding ask_policy_def Some by auto
  qed
qed (simp add: ask_policy_def)

lemma local_context_open: "scopes_open [''public_web''] []"
  by (simp add: scopes_open_def)

lemma search_context_Some:
  "search_context g = Some c \<Longrightarrow> currentGoalRevision g = Inr (gc_revision c)
     \<and> (''web.search'' \<in> set (gc_allowed c) \<and> ''web.search'' \<notin> set (gc_forbidden c) \<and> scopes_open (gc_scopes c) (gc_forbidden_scopes c)
          \<and> gc_policy c \<notin> {Some PolicyAllActions, Some PolicyCustom} \<longleftrightarrow> goal_permits expandComposite ''web.search'' g)"
  unfolding search_context_def goal_permits_def
  by (auto simp: local_context_open scopes_open_def split: stored_goal.splits sum.splits) (metis approval_policy.exhaust)+

lemma read_context_Some:
  "read_context g = Some c \<Longrightarrow> currentGoalRevision g = Inr (gc_revision c)
     \<and> (''web.read'' \<in> set (gc_allowed c) \<and> ''web.read'' \<notin> set (gc_forbidden c) \<and> scopes_open (gc_scopes c) (gc_forbidden_scopes c)
          \<and> gc_policy c \<notin> {Some PolicyAllActions, Some PolicyCustom} \<longleftrightarrow> goal_permits id ''web.read'' g)"
  unfolding read_context_def goal_permits_def
  by (auto simp: local_context_open scopes_open_def split: stored_goal.splits sum.splits) (metis approval_policy.exhaust)+

lemma contexts_exist:
  "currentGoalRevision g = Inr n \<Longrightarrow> \<exists>c. search_context g = Some c \<and> gc_revision c = n"
  "currentGoalRevision g = Inr n \<Longrightarrow> \<exists>c. read_context g = Some c \<and> gc_revision c = n"
  by (cases g; simp add: search_context_def read_context_def)+

lemma search_policy_Inr:
  "ask_policy parse PUBLIC_WEB_SEARCH_CAPABILITY plan g (search_context g) a = Inr grant \<longleftrightarrow>
    (\<exists>r. a = Some r \<and> clean_text 200 (trim (stored_id g)) \<and> user_confirmed parse g r \<and> goal_permits expandComposite ''web.search'' g
       \<and> grant = \<lparr>ct_goal = trim (stored_id g), ct_capability = ''web.search'', ct_authorization = trim (xa_id r)\<rparr>)"
proof -
  have cid: "cap_id PUBLIC_WEB_SEARCH_CAPABILITY = ''web.search''" by (simp add: PUBLIC_WEB_SEARCH_CAPABILITY_def)
  note asked = ask_policy_Inr[OF public_capabilities(1), unfolded cid]
  show ?thesis
  proof (cases "search_context g")
    case None
    then have "currentGoalRevision g \<noteq> Inr n" for n using contexts_exist(1)[of g n] by auto
    then show ?thesis using None by (simp add: asked user_confirmed_def)
  next
    case (Some c)
    note facts = search_context_Some[OF Some]
    show ?thesis
      unfolding asked user_confirmed_def facts[THEN conjunct2, symmetric] Some facts[THEN conjunct1]
      using revision_positive[OF facts[THEN conjunct1]] by auto
  qed
qed

lemma read_policy_Inr:
  "ask_policy parse PUBLIC_WEB_READ_CAPABILITY plan g (read_context g) a = Inr grant \<longleftrightarrow>
    (\<exists>r. a = Some r \<and> clean_text 200 (trim (stored_id g)) \<and> user_confirmed parse g r \<and> goal_permits id ''web.read'' g
       \<and> grant = \<lparr>ct_goal = trim (stored_id g), ct_capability = ''web.read'', ct_authorization = trim (xa_id r)\<rparr>)"
proof -
  have cid: "cap_id PUBLIC_WEB_READ_CAPABILITY = ''web.read''" by (simp add: PUBLIC_WEB_READ_CAPABILITY_def)
  note asked = ask_policy_Inr[OF public_capabilities(2), unfolded cid]
  show ?thesis
  proof (cases "read_context g")
    case None
    then have "currentGoalRevision g \<noteq> Inr n" for n using contexts_exist(2)[of g n] by auto
    then show ?thesis using None by (simp add: asked user_confirmed_def)
  next
    case (Some c)
    note facts = read_context_Some[OF Some]
    show ?thesis
      unfolding asked user_confirmed_def facts[THEN conjunct2, symmetric] Some facts[THEN conjunct1]
      using revision_positive[OF facts[THEN conjunct1]] by auto
  qed
qed

section \<open>The properties\<close>


text \<open>A receipt made for a Goal, seen by the policy.\<close>

lemma receipt_confirms:
  assumes "createGoalExecutionAuthorizationReceipt digest show_time g now actor = Inr r"
    and "stored_status g = GoalActive" and "\<exists>t. parse (show_time now) = Some t" and "\<And>v. clean_text 200 (''goal-auth:'' @ digest v)"
  shows "user_confirmed parse g r" "currentGoalRevision g = Inr (xa_revision r)"
proof -
  have "trim (''goal-auth:'' @ digest v) = ''goal-auth:'' @ digest v" for v using assms(4) clean_text_trim by blast
  then have "trim (xa_id r) = xa_id r \<and> clean_text 200 (xa_id r)"
    using assms(1,4) by (auto simp: createGoalExecutionAuthorizationReceipt_def rbind_Inr_iff simp del: append.simps)
  then show "user_confirmed parse g r" "currentGoalRevision g = Inr (xa_revision r)"
    using assms(1-3) revision_positive[of g]
    by (auto simp: createGoalExecutionAuthorizationReceipt_def rbind_Inr_iff clean_within_Inr user_confirmed_def receipt_readable_def
        dest: clean_text_trim)
qed

text \<open>
  C39. A confirmation holds for the revision it was given for. A receipt the kernel makes for an active local Goal passes
  both gates for that Goal, and stops passing them as soon as the Goal has any other revision.
\<close>

theorem revision_revokes_confirmation:
  assumes "createGoalExecutionAuthorizationReceipt digest show_time (LocalGoal l) now actor = Inr r"
    and "lg_active l" and "\<exists>t. parse (show_time now) = Some t" and "\<And>v. clean_text 200 (''goal-auth:'' @ digest v)"
  shows "(\<exists>grant. claim_gate parse True True (Some (LocalGoal l)) plan (lg_id l) False (Some r) = Inr grant)
    \<and> (\<exists>grant. authorizeRead parse (LocalGoal l) plan (Some r) = Inr grant)
    \<and> (\<forall>n. Some n \<noteq> lg_revision l \<and> \<not> (lg_revision l = None \<and> n = Fin 1) \<longrightarrow>
         (\<nexists>grant. claim_gate parse True True (Some (LocalGoal (l\<lparr>lg_revision := Some n\<rparr>))) plan (lg_id l) False (Some r) = Inr grant)
         \<and> (\<nexists>grant. authorizeRead parse (LocalGoal (l\<lparr>lg_revision := Some n\<rparr>)) plan (Some r) = Inr grant))"
proof -
  have active: "stored_status (LocalGoal l) = GoalActive" using assms(2) by (simp add: stored_status_def)
  have confirmed: "user_confirmed parse (LocalGoal l) r" and rev: "currentGoalRevision (LocalGoal l) = Inr (xa_revision r)"
    using receipt_confirms[of digest show_time "LocalGoal l" now actor r parse] assms active by blast+
  have "clean_text 200 (trim (lg_id l))"
    using assms(1) by (auto simp: createGoalExecutionAuthorizationReceipt_def rbind_Inr_iff clean_within_Inr stored_id_def)
  moreover have "\<not> user_confirmed parse (LocalGoal (l\<lparr>lg_revision := Some n\<rparr>)) r"
    if "Some n \<noteq> lg_revision l \<and> \<not> (lg_revision l = None \<and> n = Fin 1)" for n
    using rev that by (auto simp: user_confirmed_def currentGoalRevision_def split: option.splits if_splits)
  moreover have "\<not> clean_text 200 []" by (simp add: clean_text_def)
  ultimately show ?thesis
    using confirmed by (auto simp: claim_gate_def authorizeRead_def search_policy_Inr read_policy_Inr stored_id_def goal_permits_def)
qed

definition drill_goal :: local_goal where
  "drill_goal = \<lparr>lg_id = ''goal:1'', lg_title = ''drill'', lg_categories = [], lg_keywords = [''drill''], lg_location = None, lg_priority = 2,
     lg_active = True, lg_created = 0, lg_revision = None, lg_revised = None, lg_history = []\<rparr>"

definition drill_receipt :: execution_authorization where
  "drill_receipt = \<lparr>xa_id = ''goal-auth:ab12'', xa_goal = ''goal:1'', xa_revision = Fin 1, xa_approved = True, xa_scope = ReadOnlyContinuation,
     xa_actor = InteractiveUser, xa_decided_by = ''dashboard-ui'', xa_decided_at = ''2026''\<rparr>"

theorem revision_revokes_confirmation_witness:
  "\<exists>r. createGoalExecutionAuthorizationReceipt (\<lambda>_. ''ab12'') (\<lambda>_. ''2026'') (LocalGoal drill_goal) 0 (InteractiveUser, ''dashboard-ui'') = Inr r
     \<and> (\<exists>grant. authorizeRead (\<lambda>_. Some (0 :: nat)) (LocalGoal drill_goal) ''mission:1'' (Some r) = Inr grant)
     \<and> (\<nexists>grant. authorizeRead (\<lambda>_. Some (0 :: nat)) (LocalGoal (drill_goal\<lparr>lg_revision := Some (Fin 2)\<rparr>)) ''mission:1'' (Some r) = Inr grant)"
proof -
  have clean: "clean_text 200 (''goal-auth:'' @ (\<lambda>_. ''ab12'') v)" for v :: js_value by code_simp
  have r: "createGoalExecutionAuthorizationReceipt (\<lambda>_. ''ab12'') (\<lambda>_. ''2026'') (LocalGoal drill_goal) 0 (InteractiveUser, ''dashboard-ui'')
    = Inr drill_receipt" by code_simp
  have active: "lg_active drill_goal" and new: "Some (Fin 2) \<noteq> lg_revision drill_goal" "\<not> (lg_revision drill_goal = None \<and> Fin 2 = Fin 1)"
    by (simp_all add: drill_goal_def)
  have "\<exists>t. (\<lambda>_. Some (0 :: nat)) ((\<lambda>_ :: int. ''2026'') 0) = Some t" by simp
  note all = revision_revokes_confirmation[OF r active this clean, of "''mission:1''"]
  show ?thesis using all[THEN conjunct2, THEN conjunct1] all[THEN conjunct2, THEN conjunct2, rule_format, of "Fin 2"] new r by blast
qed

text \<open>
  Two lists of allowed scopes without a common element leave no restriction: a Goal that allows only
  \<open>internal_docs\<close> and constrains it to \<open>customer_db\<close> permits searching and reading the public web.
\<close>

theorem disjoint_scopes_open_the_gates:
  "let g = ContractGoal (scoped_goal\<lparr>allowed_capabilities := [''web.search'', ''web.read''], allowed_data_scopes := [''internal_docs''],
       goal_constraints := no_constraints\<lparr>constrained_data_scopes := Some [''customer_db'']\<rparr>\<rparr>) in
     goal_permits expandComposite ''web.search'' g \<and> goal_permits id ''web.read'' g"
  by code_simp

end
