(* ===== verification/Search_Candidates.thy ===== *)
theory Search_Candidates
  imports Public_Address
begin

text \<open>
  What the local kernel accepts from an agent that searched (\<open>apps/local-kernel/agent-mission-executor.mjs\<close>): candidate
  pages and the telemetry of the searches. Values have the types the source checks for; an object with other keys or
  other types is refused (candidates) or dropped (telemetry) before. Parameters: \<open>parse_url\<close> (\<open>new URL\<close>), \<open>parse\<close>
  (\<open>Date.parse\<close>) and \<open>show_time\<close> (\<open>toISOString\<close>). Results: what is accepted is public, bounded and free of duplicates,
  and the counts of the telemetry add up to the batch.
\<close>

section \<open>Candidate URLs\<close>

record parsed_url =
  pu_protocol :: string
  pu_username :: string
  pu_password :: string
  pu_hostname :: string
  pu_href :: string
  pu_keys :: "string list"

record raw_finding =
  rf_url :: string
  rf_title :: string
  rf_text :: string
  rf_summary :: "string option"
  rf_discovered :: "string option"

record candidate_page =
  nc_url :: string
  nc_title :: string
  nc_snippet :: string
  nc_summary :: "string option"
  nc_discovered :: "string option"

datatype result_error =
  ResultField string | ResultUrlInvalid | ResultUrlMalformed | ResultUrlNotPublic | ResultUrlPrivate | TooManyFindings

text \<open>\<open>/[\u0000-\u0008\u000b\u000c\u000e-\u001f\u007f]/\<close>: control characters other than tabs and line ends.\<close>

definition result_control :: "char \<Rightarrow> bool" where
  "result_control c \<longleftrightarrow> js_control c \<and> (of_char c :: nat) \<notin> {9, 10, 13}"

definition clean_result :: "nat \<Rightarrow> string \<Rightarrow> string \<Rightarrow> result_error + string" where
  "clean_result limit field s = (let r = trim s in
     if r = [] \<or> length r > limit \<or> list_ex result_control r then Inl (ResultField field) else Inr r)"

definition SENSITIVE_QUERY_KEYS :: "string list" where
  "SENSITIVE_QUERY_KEYS = [''token'', ''access_token'', ''auth'', ''authorization'', ''apikey'', ''api_key'', ''api-key'', ''code'',
     ''session'', ''signature'', ''sig'']"

definition sensitive_key :: "string \<Rightarrow> bool" where
  "sensitive_key k \<longleftrightarrow> ascii_lower k \<in> set SENSITIVE_QUERY_KEYS"

text \<open>The characters a URL may not contain as written, and complete percent escapes.\<close>

definition url_excluded :: "char \<Rightarrow> bool" where
  "url_excluded c \<longleftrightarrow> js_space c \<or> js_control c \<or> (of_char c :: nat) \<in> {34, 60, 62, 92, 94, 96, 123, 124, 125}"

definition any_hex :: "char \<Rightarrow> bool" where
  "any_hex c \<longleftrightarrow> is_hex c \<or> (65 \<le> (of_char c :: nat) \<and> (of_char c :: nat) \<le> 70)"

fun escapes_complete :: "string \<Rightarrow> bool" where
  "escapes_complete [] = True"
| "escapes_complete (c # s) = ((c \<noteq> CHR ''%'' \<or> (case s of a # b # _ \<Rightarrow> any_hex a \<and> any_hex b | _ \<Rightarrow> False)) \<and> escapes_complete s)"

definition has_bracket :: "string \<Rightarrow> bool" where
  "has_bracket s \<longleftrightarrow> CHR ''['' \<in> set s \<or> CHR '']'' \<in> set s"

text \<open>\<open>/^(?:[^@]*@)?\[[0-9a-f:.]+\](?::\d+)?$/i\<close>.\<close>

definition ipv6_authority :: "string \<Rightarrow> bool" where
  "ipv6_authority a = (let s = (if CHR ''@'' \<in> set a then tl (dropWhile (\<lambda>c. c \<noteq> CHR ''@'') a) else a) in
     case s of [] \<Rightarrow> False | b # t \<Rightarrow> b = CHR ''['' \<and> CHR '']'' \<in> set t
       \<and> (let inner = takeWhile (\<lambda>c. c \<noteq> CHR '']'') t; after = tl (dropWhile (\<lambda>c. c \<noteq> CHR '']'') t) in
          inner \<noteq> [] \<and> list_all (\<lambda>c. any_hex c \<or> c = CHR '':'' \<or> c = CHR ''.'') inner
          \<and> (case after of [] \<Rightarrow> True | d # port \<Rightarrow> d = CHR '':'' \<and> digits port)))"

definition isWellFormedAbsoluteHttpUrl :: "(string \<Rightarrow> parsed_url option) \<Rightarrow> string \<Rightarrow> bool" where
  "isWellFormedAbsoluteHttpUrl parse_url raw =
     (let scheme = (if prefix ''http://'' (ascii_lower raw) then 7 else 8);
          after = drop scheme raw;
          delimiter = (\<lambda>c. c \<in> {CHR ''/'', CHR ''?'', CHR ''#''});
          authority = takeWhile (\<lambda>c. \<not> delimiter c) after;
          path = takeWhile (\<lambda>c. c \<noteq> CHR ''?'' \<and> c \<noteq> CHR ''#'') (dropWhile (\<lambda>c. \<not> delimiter c) after) in
      (prefix ''http://'' (ascii_lower raw) \<or> prefix ''https://'' (ascii_lower raw))
      \<and> \<not> list_ex url_excluded raw \<and> escapes_complete raw \<and> \<not> sublist ''](''  raw
      \<and> \<not> has_bracket path \<and> (has_bracket authority \<longrightarrow> ipv6_authority authority)
      \<and> (case parse_url raw of None \<Rightarrow> False
         | Some u \<Rightarrow> pu_protocol u \<in> {''http:'', ''https:''} \<and> pu_hostname u \<noteq> []))"

definition normalizeDate :: "(string \<Rightarrow> int option) \<Rightarrow> (int \<Rightarrow> string) \<Rightarrow> string \<Rightarrow> result_error + string" where
  "normalizeDate parse show_time s = rbind (clean_result 40 ''discoveredAt'' s) (\<lambda>r.
     case parse r of None \<Rightarrow> Inl (ResultField ''discoveredAt'') | Some t \<Rightarrow> Inr (show_time t))"

definition optional_res :: "('a \<Rightarrow> 'e + 'b) \<Rightarrow> 'a option \<Rightarrow> 'e + 'b option" where
  "optional_res f x = (case x of None \<Rightarrow> Inr None | Some a \<Rightarrow> rbind (f a) (\<lambda>b. Inr (Some b)))"

definition normalizeCandidate ::
  "(string \<Rightarrow> parsed_url option) \<Rightarrow> (string \<Rightarrow> int option) \<Rightarrow> (int \<Rightarrow> string) \<Rightarrow> raw_finding \<Rightarrow> result_error + candidate_page" where
  "normalizeCandidate parse_url parse show_time f =
     rbind (clean_result 2048 ''url'' (rf_url f)) (\<lambda>raw.
     case parse_url raw of None \<Rightarrow> Inl ResultUrlInvalid
     | Some u \<Rightarrow>
         rbind (throw_if (pu_protocol u \<in> {''http:'', ''https:''} \<and> \<not> isWellFormedAbsoluteHttpUrl parse_url raw) ResultUrlMalformed) (\<lambda>_.
         rbind (throw_if (pu_protocol u \<notin> {''http:'', ''https:''} \<or> pu_username u \<noteq> [] \<or> pu_password u \<noteq> []) ResultUrlNotPublic) (\<lambda>_.
         rbind (throw_if (isPrivateLiteralHost (pu_hostname u) \<or> list_ex sensitive_key (pu_keys u)) ResultUrlPrivate) (\<lambda>_.
         rbind (clean_result 240 ''title'' (rf_title f)) (\<lambda>title.
         rbind (clean_result 20000 ''text'' (rf_text f)) (\<lambda>snippet.
         rbind (optional_res (clean_result 500 ''summary'') (rf_summary f)) (\<lambda>summary.
         rbind (optional_res (normalizeDate parse show_time) (rf_discovered f)) (\<lambda>discovered.
         Inr \<lparr>nc_url = pu_href u, nc_title = title, nc_snippet = snippet, nc_summary = summary, nc_discovered = discovered\<rparr>))))))))"

fun dedupeByUrl :: "string list \<Rightarrow> candidate_page list \<Rightarrow> candidate_page list" where
  "dedupeByUrl seen [] = []"
| "dedupeByUrl seen (c # cs) = (if nc_url c \<in> set seen then dedupeByUrl seen cs else c # dedupeByUrl (nc_url c # seen) cs)"

definition MAX_SEARCH_CANDIDATES :: nat where
  "MAX_SEARCH_CANDIDATES = 20"

definition normalize_findings ::
  "(string \<Rightarrow> parsed_url option) \<Rightarrow> (string \<Rightarrow> int option) \<Rightarrow> (int \<Rightarrow> string) \<Rightarrow> raw_finding list \<Rightarrow> result_error + candidate_page list" where
  "normalize_findings parse_url parse show_time fs =
     rbind (throw_if (length fs > MAX_SEARCH_CANDIDATES) TooManyFindings) (\<lambda>_.
     rbind (map_res (normalizeCandidate parse_url parse show_time) fs) (\<lambda>cs. Inr (dedupeByUrl [] cs)))"

section \<open>Telemetry\<close>

datatype drop_reason = MalformedUrl | PerDomainCap | DuplicateFinding | OtherDrop

record raw_search =
  rs_query :: string
  rs_limit :: "js_number option"
  rs_count :: "js_number option"
  rs_results :: "(string \<times> string option) list option"
  rs_source :: "string option"

record raw_telemetry =
  rt_searches :: "raw_search list"
  rt_planned :: "string list option"
  rt_funnel :: "(js_number \<times> (drop_reason \<Rightarrow> js_number option)) option"

record search_entry =
  se_query :: string
  se_limit :: "nat option"
  se_count :: "nat option"
  se_results :: "(string \<times> string option) list option"
  se_source :: "string option"
  se_matches :: "bool option"

record search_telemetry =
  st_searches :: "search_entry list"
  st_planned :: "string list option"
  st_funnel :: "(nat \<times> (drop_reason \<times> nat) list) option"

definition SEARCH_TELEMETRY_SOURCES :: "string list" where
  "SEARCH_TELEMETRY_SOURCES = [''ddgs'', ''wikipedia'']"

definition FUNNEL_DROP_REASONS :: "drop_reason list" where
  "FUNNEL_DROP_REASONS = [MalformedUrl, PerDomainCap, DuplicateFinding, OtherDrop]"

text \<open>\<open>s.replace(/\s+/g, ' ')\<close>.\<close>

function (sequential) collapse_spaces :: "string \<Rightarrow> string" where
  "collapse_spaces [] = []"
| "collapse_spaces (c # s) = (if js_space c then CHR '' '' # collapse_spaces (dropWhile js_space s) else c # collapse_spaces s)"
  by pat_completeness auto
termination by (relation "measure length") (auto simp: less_Suc_eq_le length_dropWhile_le)

definition telemetryQuery :: "string \<Rightarrow> string option" where
  "telemetryQuery s = (let q = trim (collapse_spaces s) in if q = [] \<or> length q > 300 \<or> list_ex js_control q then None else Some q)"

text \<open>An integer between two bounds.\<close>

definition bounded_count :: "nat \<Rightarrow> nat \<Rightarrow> js_number \<Rightarrow> nat option" where
  "bounded_count lo hi n = (case n of Fin q \<Rightarrow> if q = of_int \<lfloor>q\<rfloor> \<and> of_nat lo \<le> q \<and> q \<le> of_nat hi then Some (nat \<lfloor>q\<rfloor>) else None | _ \<Rightarrow> None)"

definition publicTelemetryUrl :: "(string \<Rightarrow> parsed_url option) \<Rightarrow> string \<Rightarrow> string option" where
  "publicTelemetryUrl parse_url raw = (if length raw > 2048 \<or> \<not> isWellFormedAbsoluteHttpUrl parse_url raw then None
     else (case parse_url raw of None \<Rightarrow> None | Some u \<Rightarrow>
       if pu_username u \<noteq> [] \<or> pu_password u \<noteq> [] \<or> isPrivateLiteralHost (pu_hostname u) \<or> list_ex sensitive_key (pu_keys u) then None
       else Some (pu_href u)))"

text \<open>\<open>None\<close> when the title is too long; an empty title is left out.\<close>

definition telemetry_title :: "string option \<Rightarrow> string option option" where
  "telemetry_title t = (case t of None \<Rightarrow> Some None
     | Some s \<Rightarrow> (let title = trim (collapse_spaces (map (\<lambda>c. if js_control c then CHR '' '' else c) s)) in
         if length title > 160 then None else if title = [] then Some None else Some (Some title)))"

fun telemetry_items ::
  "(string \<Rightarrow> parsed_url option) \<Rightarrow> (string \<times> string option) list \<Rightarrow> (string \<times> string option) list \<Rightarrow> (string \<times> string option) list option" where
  "telemetry_items parse_url seen [] = Some seen"
| "telemetry_items parse_url seen ((raw, title) # rest) = (case publicTelemetryUrl parse_url raw of None \<Rightarrow> None
     | Some url \<Rightarrow> if url \<in> set (map fst seen) then None
         else (case telemetry_title title of None \<Rightarrow> None | Some t \<Rightarrow> telemetry_items parse_url (seen @ [(url, t)]) rest))"

definition telemetryResults ::
  "(string \<Rightarrow> parsed_url option) \<Rightarrow> (string \<times> string option) list \<Rightarrow> (string \<times> string option) list option" where
  "telemetryResults parse_url items = (if length items > 10 then None else telemetry_items parse_url [] items)"

fun normalize_planned :: "string list \<Rightarrow> string list \<Rightarrow> string list option" where
  "normalize_planned seen [] = Some seen"
| "normalize_planned seen (p # ps) = (case telemetryQuery p of None \<Rightarrow> None
     | Some q \<Rightarrow> if q \<in> set seen then None else normalize_planned (seen @ [q]) ps)"

text \<open>An optional field that must pass a check when it is there: \<open>None\<close> when it does not.\<close>

definition checked :: "('a \<Rightarrow> 'b option) \<Rightarrow> 'a option \<Rightarrow> 'b option option" where
  "checked f x = (case x of None \<Rightarrow> Some None | Some a \<Rightarrow> (case f a of None \<Rightarrow> None | Some b \<Rightarrow> Some (Some b)))"

text \<open>The loop over the searches; \<open>before\<close> results were seen before.\<close>

fun normalize_searches ::
  "(string \<Rightarrow> parsed_url option) \<Rightarrow> string list option \<Rightarrow> nat \<Rightarrow> raw_search list \<Rightarrow> search_entry list option" where
  "normalize_searches parse_url planned before [] = Some []"
| "normalize_searches parse_url planned before (s # ss) = (case telemetryQuery (rs_query s) of None \<Rightarrow> None
     | Some q \<Rightarrow> (case checked (bounded_count 1 100) (rs_limit s) of None \<Rightarrow> None
     | Some limit \<Rightarrow> (case checked (\<lambda>x. if x \<in> set SEARCH_TELEMETRY_SOURCES then Some x else None) (rs_source s) of None \<Rightarrow> None
     | Some source \<Rightarrow> (case checked (bounded_count 0 1000) (rs_count s) of None \<Rightarrow> None
     | Some found \<Rightarrow> (case checked (telemetryResults parse_url) (rs_results s) of None \<Rightarrow> None
     | Some results \<Rightarrow>
         (let n = (case results of None \<Rightarrow> 0 | Some rs \<Rightarrow> length rs) in
          if results \<noteq> None \<and> (case found of None \<Rightarrow> False | Some k \<Rightarrow> n > k) then None
          else if results \<noteq> None \<and> before + n > 30 then None
          else (case normalize_searches parse_url planned (before + n) ss of None \<Rightarrow> None
            | Some rest \<Rightarrow> Some (\<lparr>se_query = q, se_limit = limit, se_count = found, se_results = results, se_source = source,
                se_matches = map_option (\<lambda>p. q \<in> set p) planned\<rparr> # rest))))))))"

fun count_drops :: "(drop_reason \<Rightarrow> js_number option) \<Rightarrow> drop_reason list \<Rightarrow> (drop_reason \<times> nat) list option" where
  "count_drops dropped [] = Some []"
| "count_drops dropped (r # rs) = (case dropped r of None \<Rightarrow> count_drops dropped rs
     | Some n \<Rightarrow> (case bounded_count 0 20 n of None \<Rightarrow> None
         | Some k \<Rightarrow> (case count_drops dropped rs of None \<Rightarrow> None | Some ds \<Rightarrow> Some ((r, k) # ds))))"

definition normalizeFunnel ::
  "nat \<Rightarrow> js_number \<times> (drop_reason \<Rightarrow> js_number option) \<Rightarrow> (nat \<times> (drop_reason \<times> nat) list) option" where
  "normalizeFunnel submitted v = (case bounded_count 0 20 (fst v) of None \<Rightarrow> None
     | Some returned \<Rightarrow> (case count_drops (snd v) FUNNEL_DROP_REASONS of None \<Rightarrow> None
         | Some dropped \<Rightarrow> (let total = sum_list (map snd dropped) in
             if total > returned then None else if returned - total \<noteq> submitted then None else Some (returned, dropped))))"

definition normalizeSearchTelemetry :: "(string \<Rightarrow> parsed_url option) \<Rightarrow> nat \<Rightarrow> raw_telemetry \<Rightarrow> search_telemetry option" where
  "normalizeSearchTelemetry parse_url submitted v =
     (if length (rt_searches v) > 8 then None
      else if rt_searches v = [] \<and> rt_planned v = None \<and> rt_funnel v = None then None
      else (case checked (\<lambda>ps. if ps = [] \<or> length ps > 3 then None else normalize_planned [] ps) (rt_planned v) of None \<Rightarrow> None
        | Some planned \<Rightarrow> (case normalize_searches parse_url planned 0 (rt_searches v) of None \<Rightarrow> None
        | Some searches \<Rightarrow> (case checked (normalizeFunnel submitted) (rt_funnel v) of None \<Rightarrow> None
        | Some funnel \<Rightarrow> Some \<lparr>st_searches = searches, st_planned = planned, st_funnel = funnel\<rparr>))))"

section \<open>Accepted candidates\<close>

definition public_url :: "(string \<Rightarrow> parsed_url option) \<Rightarrow> string \<Rightarrow> bool" where
  "public_url parse_url href \<longleftrightarrow> (\<exists>raw u. parse_url raw = Some u \<and> href = pu_href u \<and> isWellFormedAbsoluteHttpUrl parse_url raw
     \<and> length raw \<le> 2048 \<and> pu_username u = [] \<and> pu_password u = [] \<and> \<not> isPrivateLiteralHost (pu_hostname u)
     \<and> \<not> list_ex sensitive_key (pu_keys u))"

lemma public_urlI:
  "parse_url raw = Some u \<Longrightarrow> isWellFormedAbsoluteHttpUrl parse_url raw \<Longrightarrow> length raw \<le> 2048 \<Longrightarrow> pu_username u = [] \<Longrightarrow> pu_password u = []
    \<Longrightarrow> \<not> isPrivateLiteralHost (pu_hostname u) \<Longrightarrow> \<not> list_ex sensitive_key (pu_keys u) \<Longrightarrow> public_url parse_url (pu_href u)"
  unfolding public_url_def by blast

lemma clean_result_Inr: "clean_result n f s = Inr r \<longleftrightarrow> r = trim s \<and> r \<noteq> [] \<and> length r \<le> n \<and> \<not> list_ex result_control r"
  by (auto simp: clean_result_def Let_def)

lemma normalizeCandidate_public:
  assumes "normalizeCandidate parse_url parse show_time f = Inr c"
  shows "public_url parse_url (nc_url c) \<and> 0 < length (nc_title c) \<and> length (nc_title c) \<le> 240
    \<and> 0 < length (nc_snippet c) \<and> length (nc_snippet c) \<le> 20000"
  using assms unfolding normalizeCandidate_def
  by (auto simp: rbind_Inr_iff clean_result_Inr split: option.splits intro!: public_urlI)

lemma dedupe_subset: "set (dedupeByUrl seen cs) \<subseteq> set cs"
  by (induction cs arbitrary: seen) (auto split: if_splits)

lemma dedupe_length: "length (dedupeByUrl seen cs) \<le> length cs"
  by (induction cs arbitrary: seen) (auto intro: le_SucI)

lemma dedupe_distinct: "distinct (map nc_url (dedupeByUrl seen cs)) \<and> set (map nc_url (dedupeByUrl seen cs)) \<inter> set seen = {}"
  by (induction cs arbitrary: seen) (auto, fastforce+)

lemma dedupe_urls: "nc_url ` set (dedupeByUrl seen cs) \<union> set seen = nc_url ` set cs \<union> set seen"
proof (induction cs arbitrary: seen)
  case (Cons c cs)
  show ?case using Cons.IH[of seen] Cons.IH[of "nc_url c # seen"] by (cases "nc_url c \<in> set seen") auto
qed simp

lemma map_res_image: "map_res f xs = Inr ys \<Longrightarrow> x \<in> set xs \<Longrightarrow> \<exists>y\<in>set ys. f x = Inr y"
  by (induction xs arbitrary: ys) (auto simp: rbind_Inr_iff simp del: map_res_Inr_iff)


section \<open>Accepted telemetry\<close>

lemma checked_Some: "checked f x = Some y \<longleftrightarrow> (case x of None \<Rightarrow> y = None | Some a \<Rightarrow> (\<exists>b. f a = Some b \<and> y = Some b))"
  by (auto simp: checked_def split: option.splits)

lemma bounded_count_Some: "bounded_count lo hi n = Some k \<Longrightarrow> lo \<le> k \<and> k \<le> hi"
  by (auto simp: bounded_count_def le_nat_floor nat_le_iff split: js_number.splits if_splits)

lemma telemetry_items_Some:
  "telemetry_items parse_url seen items = Some rs \<Longrightarrow> distinct (map fst seen) \<Longrightarrow> list_all (\<lambda>r. public_url parse_url (fst r)) seen
    \<Longrightarrow> length rs = length seen + length items \<and> distinct (map fst rs) \<and> list_all (\<lambda>r. public_url parse_url (fst r)) rs"
proof (induction parse_url seen items rule: telemetry_items.induct)
  case (2 parse_url seen raw title rest)
  have "public_url parse_url url" if "publicTelemetryUrl parse_url raw = Some url" for url
    using that by (auto simp: publicTelemetryUrl_def split: if_splits option.splits intro!: public_urlI)
  then show ?case using 2 by (auto split: option.splits if_splits)
qed auto

lemma telemetryResults_Some:
  "telemetryResults parse_url items = Some rs \<Longrightarrow> length rs \<le> 10 \<and> distinct (map fst rs) \<and> list_all (\<lambda>r. public_url parse_url (fst r)) rs"
  using telemetry_items_Some[of parse_url "[]" items rs] by (auto simp: telemetryResults_def split: if_splits)

definition results_of :: "search_entry \<Rightarrow> (string \<times> string option) list" where
  "results_of e = (case se_results e of None \<Rightarrow> [] | Some rs \<Rightarrow> rs)"

definition entry_bounded :: "(string \<Rightarrow> parsed_url option) \<Rightarrow> string list option \<Rightarrow> search_entry \<Rightarrow> bool" where
  "entry_bounded parse_url planned e \<longleftrightarrow> 0 < length (se_query e) \<and> length (se_query e) \<le> 300
     \<and> pred_option (\<lambda>n. 1 \<le> n \<and> n \<le> 100) (se_limit e) \<and> pred_option (\<lambda>n. n \<le> 1000) (se_count e)
     \<and> pred_option (\<lambda>x. x \<in> set SEARCH_TELEMETRY_SOURCES) (se_source e)
     \<and> length (results_of e) \<le> 10 \<and> distinct (map fst (results_of e)) \<and> list_all (\<lambda>r. public_url parse_url (fst r)) (results_of e)
     \<and> pred_option (\<lambda>n. length (results_of e) \<le> n) (se_count e)
     \<and> se_matches e = map_option (\<lambda>p. se_query e \<in> set p) planned"

lemma telemetryQuery_Some: "telemetryQuery s = Some q \<Longrightarrow> 0 < length q \<and> length q \<le> 300"
  by (auto simp: telemetryQuery_def Let_def split: if_splits)

lemma normalize_searches_Some:
  "normalize_searches parse_url planned before ss = Some es \<Longrightarrow> before \<le> 30 \<Longrightarrow>
    length es = length ss \<and> list_all (entry_bounded parse_url planned) es \<and> before + sum_list (map (length \<circ> results_of) es) \<le> 30"
proof (induction ss arbitrary: es before)
  case (Cons s ss)
  from Cons.prems(1) obtain q limit source found results rest where
    q: "telemetryQuery (rs_query s) = Some q" and lim: "checked (bounded_count 1 100) (rs_limit s) = Some limit"
    and src: "checked (\<lambda>x. if x \<in> set SEARCH_TELEMETRY_SOURCES then Some x else None) (rs_source s) = Some source"
    and cnt: "checked (bounded_count 0 1000) (rs_count s) = Some found" and res: "checked (telemetryResults parse_url) (rs_results s) = Some results"
    and n: "\<not> (results \<noteq> None \<and> (case found of None \<Rightarrow> False | Some k \<Rightarrow> (case results of None \<Rightarrow> 0 | Some rs \<Rightarrow> length rs) > k))"
      "\<not> (results \<noteq> None \<and> before + (case results of None \<Rightarrow> 0 | Some rs \<Rightarrow> length rs) > 30)"
    and rest: "normalize_searches parse_url planned (before + (case results of None \<Rightarrow> 0 | Some rs \<Rightarrow> length rs)) ss = Some rest"
    and es: "es = \<lparr>se_query = q, se_limit = limit, se_count = found, se_results = results, se_source = source,
                se_matches = map_option (\<lambda>p. q \<in> set p) planned\<rparr> # rest"
    by (auto simp: Let_def split: option.splits if_splits)
  let ?n = "case results of None \<Rightarrow> 0 | Some rs \<Rightarrow> length rs"
  have total: "before + ?n \<le> 30" using n(2) Cons.prems(2) by (cases results) auto
  have entry: "entry_bounded parse_url planned (hd es)"
    using telemetryQuery_Some[OF q] lim src cnt res n(1) bounded_count_Some telemetryResults_Some
    by (fastforce simp: es entry_bounded_def results_of_def checked_Some split: option.splits if_splits)
  have "length rest = length ss \<and> list_all (entry_bounded parse_url planned) rest \<and> before + ?n + sum_list (map (length \<circ> results_of) rest) \<le> 30"
    using Cons.IH[OF rest total] by (simp add: comp_def)
  moreover have "length (results_of (hd es)) = ?n" by (simp add: es results_of_def split: option.splits)
  ultimately show ?case using entry by (simp add: es comp_def)
qed simp

lemma normalize_planned_Some:
  "normalize_planned seen ps = Some qs \<Longrightarrow> distinct seen \<Longrightarrow> list_all (\<lambda>q. length q \<le> 300) seen
    \<Longrightarrow> distinct qs \<and> length qs = length seen + length ps \<and> list_all (\<lambda>q. length q \<le> 300) qs"
proof (induction ps arbitrary: seen)
  case (Cons p ps)
  then show ?case using telemetryQuery_Some by (auto split: option.splits if_splits)
qed auto

lemma normalizeFunnel_Some:
  "normalizeFunnel n v = Some (returned, dropped) \<Longrightarrow> returned \<le> 20 \<and> n + sum_list (map snd dropped) = returned"
  by (auto simp: normalizeFunnel_def Let_def dest!: bounded_count_Some split: option.splits if_splits)

text \<open>
  Telemetry that is kept is bounded and adds up: at most eight searches of at most 300 characters, at most ten
  results a search and thirty in all, no more than the search itself counted, at different public URLs; at most three
  different planned queries, and each search says whether it was planned; and when the funnel is given, the findings
  returned are the findings dropped and the findings submitted in this batch.
\<close>

theorem telemetry_bounded:
  assumes "normalizeSearchTelemetry parse_url submitted v = Some t"
  shows "length (st_searches t) \<le> 8 \<and> list_all (entry_bounded parse_url (st_planned t)) (st_searches t)
    \<and> sum_list (map (length \<circ> results_of) (st_searches t)) \<le> 30
    \<and> pred_option (\<lambda>ps. 0 < length ps \<and> length ps \<le> 3 \<and> distinct ps \<and> list_all (\<lambda>p. length p \<le> 300) ps) (st_planned t)
    \<and> pred_option (\<lambda>f. fst f \<le> 20 \<and> submitted + sum_list (map snd (snd f)) = fst f) (st_funnel t)"
proof -
  from assms obtain planned searches funnel where len: "length (rt_searches v) \<le> 8"
    and p: "checked (\<lambda>ps. if ps = [] \<or> length ps > 3 then None else normalize_planned [] ps) (rt_planned v) = Some planned"
    and s: "normalize_searches parse_url planned 0 (rt_searches v) = Some searches"
    and f: "checked (normalizeFunnel submitted) (rt_funnel v) = Some funnel"
    and t: "t = \<lparr>st_searches = searches, st_planned = planned, st_funnel = funnel\<rparr>"
    by (auto simp: normalizeSearchTelemetry_def split: if_splits option.splits)
  have "pred_option (\<lambda>ps. 0 < length ps \<and> length ps \<le> 3 \<and> distinct ps \<and> list_all (\<lambda>p. length p \<le> 300) ps) planned"
    using p by (auto simp: checked_Some dest!: normalize_planned_Some split: option.splits if_splits)
  moreover have "pred_option (\<lambda>f. fst f \<le> 20 \<and> submitted + sum_list (map snd (snd f)) = fst f) funnel"
    using f by (auto simp: checked_Some dest!: normalizeFunnel_Some split: option.splits)
  ultimately show ?thesis using normalize_searches_Some[OF s] len by (simp add: t)
qed

section \<open>Witnesses\<close>

definition sample_url :: "string \<Rightarrow> parsed_url option" where
  "sample_url s = Some \<lparr>pu_protocol = ''https:'', pu_username = [], pu_password = [], pu_hostname = ''a.example'', pu_href = s, pu_keys = [''q'']\<rparr>"

definition sample_candidate :: candidate_page where
  "sample_candidate = \<lparr>nc_url = ''https://a.example/?q=1'', nc_title = ''t'', nc_snippet = ''s'', nc_summary = None, nc_discovered = None\<rparr>"


definition sample_telemetry :: raw_telemetry where
  "sample_telemetry = \<lparr>rt_searches = [\<lparr>rs_query = ''drill  press'', rs_limit = Some (Fin 10), rs_count = Some (Fin 4),
       rs_results = Some [(''https://a.example/'', None)], rs_source = Some ''ddgs''\<rparr>], rt_planned = Some [''drill press''],
     rt_funnel = Some (Fin 4, \<lambda>r. if r = DuplicateFinding then Some (Fin 1) else None)\<rparr>"

theorem telemetry_bounded_witness:
  "\<exists>t. normalizeSearchTelemetry sample_url 3 sample_telemetry = Some t \<and> length (st_searches t) \<le> 8
     \<and> sum_list (map (length \<circ> results_of) (st_searches t)) \<le> 30"
proof -
  have "normalizeSearchTelemetry sample_url 3 sample_telemetry \<noteq> None" by code_simp
  then obtain t where "normalizeSearchTelemetry sample_url 3 sample_telemetry = Some t" by blast
  with telemetry_bounded[OF this] show ?thesis by blast
qed

end
