(* ===== verification/Agent_Missions.thy ===== *)
theory Agent_Missions
  imports Mission_Gate Search_Candidates Evidence_Support
begin

text \<open>
  The missions that external agents carry out for the user (\<open>apps/local-kernel/agent-missions.mjs\<close>,
  \<open>agent-mission-executor.mjs\<close>, \<open>agent-mission-executor-legacy.mjs\<close>, \<open>mission-verification-settlement.mjs\<close>): creation
  under the user's confirmation, the queue, the lease of an attempt, failure and retry, the candidates an agent brings,
  "search more", and the reconciliation of what was left behind. One call is one \<open>store.project\<close>: it answers an error and
  leaves the store, or a result and the new store. Instants are milliseconds. Parameters: \<open>digest\<close> (SHA-256 of a JSON
  value), \<open>sha\<close> (SHA-256 of a text), \<open>ready\<close> (whether an agent is connected), the generated lease id.
\<close>

section \<open>Data\<close>

datatype agent_status = WaitingForAgent | AgentQueued | AgentRunning | AgentCompleted | AgentFailed
datatype agent_phase = PhaseQueued | PhaseInvestigating | PhaseVerifying | PhaseForged | PhaseFailed

text \<open>The texts shown to the user, one constructor each.\<close>

datatype limitation =
  AwaitingExecution | AgentNotConnected string | AgentBecameReady | DiscoveryOnly | AttemptsExhausted | LeaseExhausted | RetryQueued
| LeaseRecovered | NoCandidates | CandidatesAwaitRead | ReadCompleted | ReadWithoutSupport | ReadNothing | ClaimBlocked gate_denial
| ReadBlocked gate_denial

datatype failure_code = VerifiedWithoutSupport | WebReadFailed

record last_failure =
  lf_code :: "failure_code option"
  lf_reason :: string
  lf_at :: int
  lf_attempt :: nat

datatype candidate_result =
  ReadFailed string string
| PageVerified string string string bool support_reason

definition result_candidate :: "candidate_result \<Rightarrow> string" where
  "result_candidate r = (case r of ReadFailed c _ \<Rightarrow> c | PageVerified c _ _ _ _ \<Rightarrow> c)"

definition result_supported :: "candidate_result \<Rightarrow> bool" where
  "result_supported r = (case r of ReadFailed _ _ \<Rightarrow> False | PageVerified _ _ _ b _ \<Rightarrow> b)"

definition result_verified :: "candidate_result \<Rightarrow> bool" where
  "result_verified r = (case r of ReadFailed _ _ \<Rightarrow> False | PageVerified _ _ _ _ _ \<Rightarrow> True)"

text \<open>A candidate is pending until a result is merged into it.\<close>

record search_candidate =
  sc_id :: string
  sc_page :: candidate_page
  sc_result :: "candidate_result option"

record result_summary =
  rs_received :: nat
  rs_evidence :: nat
  rs_promoted :: nat

record prior_attempt =
  pa_started :: int
  pa_settled :: "int option"
  pa_status :: agent_status
  pa_phase :: "agent_phase option"
  pa_summary :: "result_summary option"
  pa_candidates :: "search_candidate list"
  pa_results :: "candidate_result list"
  pa_telemetry :: "(search_telemetry \<times> int) option"

record mission_scope =
  ms_categories :: "string list"
  ms_keywords :: "string list"
  ms_location :: "string option"

record agent_mission =
  am_id :: string
  am_goal :: string
  am_title :: string
  am_agent :: string
  am_cadence :: string
  am_status :: agent_status
  am_phase :: "agent_phase option"
  am_scope :: mission_scope
  am_authorization :: "execution_authorization option"
  am_created :: int
  am_attempt :: "nat option"
  am_limitation :: limitation
  am_lease :: "string option"
  am_expires :: "int option"
  am_claimed :: "int option"
  am_block :: "gate_denial option"
  am_verifying :: "int option"
  am_candidates :: "search_candidate list option"
  am_digest :: "string option"
  am_results :: "candidate_result list option"
  am_seal :: "string option"
  am_read_block :: "gate_denial option"
  am_summary :: "result_summary option"
  am_completed :: "int option"
  am_failed :: "int option"
  am_forged :: "int option"
  am_failure :: "last_failure option"
  am_telemetry :: "(search_telemetry \<times> int) option"
  am_search_more :: bool
  am_prior :: "prior_attempt list"
  am_known :: "string list"

text \<open>The pages that became Evidence, their cases, and the finds.\<close>

record verified_evidence =
  ve_id :: string
  ve_case :: string
  ve_source_url :: string
  ve_text :: string
  ve_summary :: string
  ve_captured :: string
  ve_mission :: string
  ve_candidate :: string

record opportunity =
  op_id :: string
  op_evidence :: string
  op_case :: string
  op_category :: string
  op_title :: string
  op_source_url :: string
  op_supported :: bool
  op_reason :: "support_reason option"

record knowledge =
  kn_goals :: "stored_goal list"
  kn_missions :: "agent_mission list"
  kn_cases :: "(string \<times> string) list"
  kn_evidence :: "verified_evidence list"
  kn_opportunities :: "opportunity list"

datatype mission_error =
  InvalidMission string | MissionConfirmationRequired | ActiveGoalMissing | MissionNotFinished | MissionMissing
| MissionAlreadyCompleted | MissionLeaseInvalid | MissionReceipt receipt_error | MissionResult result_error | FindingsNotEvidence
| MissionNotVerifying | VerificationStale | ProjectionRefused string

definition MAX_ATTEMPTS :: nat where "MAX_ATTEMPTS = 3"
definition MAX_PRIOR_ATTEMPTS :: nat where "MAX_PRIOR_ATTEMPTS = 5"
definition MAX_PRIOR_ITEMS :: nat where "MAX_PRIOR_ITEMS = 20"
definition MAX_KNOWN_SOURCE_URLS :: nat where "MAX_KNOWN_SOURCE_URLS = 40"

text \<open>\<open>findIndex\<close>, and the update of the list at the index.\<close>

fun index_where :: "('a \<Rightarrow> bool) \<Rightarrow> 'a list \<Rightarrow> nat option" where
  "index_where P [] = None"
| "index_where P (x # xs) = (if P x then Some 0 else map_option Suc (index_where P xs))"

section \<open>Creation\<close>

record mission_input =
  mi_confirmed :: bool
  mi_agent :: "string option"
  mi_cadence :: "string option"
  mi_mode :: "string option"

definition or_text :: "string option \<Rightarrow> string \<Rightarrow> string" where
  "or_text x d = (case x of None \<Rightarrow> d | Some s \<Rightarrow> s)"

definition is_active :: "int \<Rightarrow> agent_mission \<Rightarrow> bool" where
  "is_active now m \<longleftrightarrow> am_status m = WaitingForAgent \<or> am_status m = AgentQueued
     \<or> (am_status m = AgentRunning \<and> (case am_expires m of None \<Rightarrow> False | Some t \<Rightarrow> t > now))"

definition hasFinishedAttempt :: "agent_mission \<Rightarrow> bool" where
  "hasFinishedAttempt m \<longleftrightarrow> am_completed m \<noteq> None \<or> am_verifying m \<noteq> None \<or> am_failed m \<noteq> None \<or> or_nil (am_results m) \<noteq> []"

text \<open>A Goal of the universal contract has no categories, keywords or location.\<close>

definition goal_scope :: "stored_goal \<Rightarrow> mission_scope" where
  "goal_scope g = (case g of LocalGoal l \<Rightarrow> \<lparr>ms_categories = lg_categories l, ms_keywords = lg_keywords l, ms_location = lg_location l\<rparr>
     | ContractGoal u \<Rightarrow> \<lparr>ms_categories = [], ms_keywords = [], ms_location = None\<rparr>)"

text \<open>A mission that has not run: the fields every construction sets, and none of the others.\<close>

definition new_mission ::
  "string \<Rightarrow> string \<Rightarrow> string \<Rightarrow> string \<Rightarrow> stored_goal \<Rightarrow> bool \<Rightarrow> int \<Rightarrow> execution_authorization option \<Rightarrow> nat option \<Rightarrow> agent_mission" where
  "new_mission mid gid agent cadence g is_ready now authorization attempt =
     \<lparr>am_id = mid, am_goal = gid, am_title = stored_title g, am_agent = agent, am_cadence = cadence,
      am_status = (if is_ready then AgentQueued else WaitingForAgent), am_phase = None, am_scope = goal_scope g,
      am_authorization = authorization, am_created = now, am_attempt = attempt,
      am_limitation = (if is_ready then AwaitingExecution else AgentNotConnected agent),
      am_lease = None, am_expires = None, am_claimed = None, am_block = None, am_verifying = None, am_candidates = None, am_digest = None,
      am_results = None, am_seal = None, am_read_block = None, am_summary = None, am_completed = None, am_failed = None, am_forged = None,
      am_failure = None, am_telemetry = None, am_search_more = False, am_prior = [], am_known = []\<rparr>"

text \<open>\<open>authorizationFields\<close>: a receipt when the user confirmed, none otherwise.\<close>

definition authorizationFields ::
  "(js_value \<Rightarrow> string) \<Rightarrow> (int \<Rightarrow> string) \<Rightarrow> stored_goal \<Rightarrow> int \<Rightarrow> (confirmation_actor \<times> string) option
   \<Rightarrow> mission_error + execution_authorization option" where
  "authorizationFields digest show_time g now actor = (case actor of None \<Rightarrow> Inr None
     | Some a \<Rightarrow> (case createGoalExecutionAuthorizationReceipt digest show_time g now a of Inl e \<Rightarrow> Inl (MissionReceipt e) | Inr r \<Rightarrow> Inr (Some r)))"

definition restartMission :: "agent_mission \<Rightarrow> stored_goal \<Rightarrow> bool \<Rightarrow> int \<Rightarrow> execution_authorization option \<Rightarrow> agent_mission" where
  "restartMission m g is_ready now authorization =
     new_mission (am_id m) (am_goal m) (am_agent m) (am_cadence m) g is_ready now authorization (Some 0)"

definition first_some :: "'a option list \<Rightarrow> 'a option" where
  "first_some xs = (case dropWhile (\<lambda>x. x = None) xs of [] \<Rightarrow> None | x # _ \<Rightarrow> x)"

definition archivedAttempt :: "agent_mission \<Rightarrow> prior_attempt" where
  "archivedAttempt m = \<lparr>pa_started = am_created m,
     pa_settled = first_some [am_forged m, am_completed m, am_failed m, am_verifying m],
     pa_status = am_status m, pa_phase = am_phase m, pa_summary = am_summary m,
     pa_candidates = take MAX_PRIOR_ITEMS (or_nil (am_candidates m)), pa_results = take MAX_PRIOR_ITEMS (or_nil (am_results m)),
     pa_telemetry = am_telemetry m\<rparr>"

text \<open>The URLs of an attempt: what was read, then what was proposed.\<close>

definition attempt_urls :: "prior_attempt \<Rightarrow> string list" where
  "attempt_urls a = concat (map (\<lambda>r. case r of ReadFailed _ _ \<Rightarrow> [] | PageVerified _ u _ _ _ \<Rightarrow> [u]) (pa_results a))
     @ map (\<lambda>c. nc_url (sc_page c)) (pa_candidates a)"

text \<open>\<open>slice(-n)\<close>.\<close>

definition last_n :: "nat \<Rightarrow> 'a list \<Rightarrow> 'a list" where
  "last_n n xs = drop (length xs - n) xs"

definition known_urls :: "prior_attempt list \<Rightarrow> string list" where
  "known_urls prior = foldl (\<lambda>known url. if url \<noteq> [] \<and> url \<notin> set known \<and> length known < MAX_KNOWN_SOURCE_URLS then known @ [url] else known)
     [] (concat (map attempt_urls (rev prior)))"

definition searchMoreMission :: "agent_mission \<Rightarrow> stored_goal \<Rightarrow> bool \<Rightarrow> int \<Rightarrow> execution_authorization option \<Rightarrow> agent_mission" where
  "searchMoreMission m g is_ready now authorization = (let prior = last_n MAX_PRIOR_ATTEMPTS (am_prior m @ [archivedAttempt m]) in
     (restartMission m g is_ready now authorization)\<lparr>am_search_more := True, am_prior := prior, am_known := known_urls prior\<rparr>)"

definition mission_id :: "(js_value \<Rightarrow> string) \<Rightarrow> string \<Rightarrow> string \<Rightarrow> string \<Rightarrow> string" where
  "mission_id digest gid agent cadence = ''mission:'' @ digest (JObject [(''goalId'', JString gid), (''agent'', JString agent), (''cadence'', JString cadence)])"

text \<open>The transaction: a mission under the id of its Goal, agent and cadence.\<close>

definition place_mission ::
  "(js_value \<Rightarrow> string) \<Rightarrow> (int \<Rightarrow> string) \<Rightarrow> (string \<Rightarrow> bool) \<Rightarrow> int \<Rightarrow> string \<Rightarrow> string \<Rightarrow> string \<Rightarrow> bool \<Rightarrow> (confirmation_actor \<times> string) option
   \<Rightarrow> knowledge \<Rightarrow> mission_error + agent_mission \<times> knowledge" where
  "place_mission digest show_time ready now gid agent cadence more_search actor k =
     (case List.find (\<lambda>g. stored_id g = gid \<and> stored_status g = GoalActive) (kn_goals k) of None \<Rightarrow> Inl ActiveGoalMissing
     | Some g \<Rightarrow>
         (let mid = mission_id digest gid agent cadence; missions = kn_missions k; is_ready = ready agent in
          case index_where (\<lambda>m. am_id m = mid) missions of
            Some n \<Rightarrow>
              (let existing = missions ! n in
               if is_active now existing then
                 (if am_authorization existing \<noteq> None \<or> actor = None then Inr (existing, k)
                  else rbind (authorizationFields digest show_time g now actor) (\<lambda>a.
                    let authorized = existing\<lparr>am_authorization := a\<rparr> in Inr (authorized, k\<lparr>kn_missions := missions[n := authorized]\<rparr>)))
               else rbind (throw_if (more_search \<and> \<not> hasFinishedAttempt existing) MissionNotFinished) (\<lambda>_.
                 rbind (authorizationFields digest show_time g now actor) (\<lambda>a.
                   let restarted = (if more_search then searchMoreMission existing g is_ready now a else restartMission existing g is_ready now a) in
                   Inr (restarted, k\<lparr>kn_missions := missions[n := restarted]\<rparr>))))
          | None \<Rightarrow>
              rbind (throw_if more_search MissionMissing) (\<lambda>_.
              rbind (authorizationFields digest show_time g now actor) (\<lambda>a.
                let m = new_mission mid gid agent cadence g is_ready now a None in Inr (m, k\<lparr>kn_missions := missions @ [m]\<rparr>)))))"

definition create_mission ::
  "(js_value \<Rightarrow> string) \<Rightarrow> (int \<Rightarrow> string) \<Rightarrow> (string \<Rightarrow> bool) \<Rightarrow> int \<Rightarrow> string \<Rightarrow> mission_input \<Rightarrow> (confirmation_actor \<times> string) option
   \<Rightarrow> knowledge \<Rightarrow> mission_error + agent_mission \<times> knowledge" where
  "create_mission digest show_time ready now gid i actor k =
     rbind (throw_if (\<not> mi_confirmed i) (InvalidMission ''confirmed'')) (\<lambda>_.
     rbind (clean_within 32 (InvalidMission ''agent'') (or_text (mi_agent i) ''hermes'')) (\<lambda>agent0.
     let agent = ascii_lower agent0 in
     rbind (throw_if (agent \<noteq> ''hermes'') (InvalidMission ''agent'')) (\<lambda>_.
     rbind (clean_within 16 (InvalidMission ''cadence'') (or_text (mi_cadence i) ''manual'')) (\<lambda>cadence0.
     let cadence = ascii_lower cadence0 in
     rbind (throw_if (cadence \<notin> {''manual'', ''daily'', ''weekly''}) (InvalidMission ''cadence'')) (\<lambda>_.
     rbind (case mi_mode i of None \<Rightarrow> Inr ''restart'' | Some t \<Rightarrow> rbind (clean_within 16 (InvalidMission ''mode'') t) (\<lambda>s. Inr (ascii_lower s))) (\<lambda>mode.
     rbind (throw_if (mode \<notin> {''restart'', ''search_more''}) (InvalidMission ''mode'')) (\<lambda>_.
     rbind (throw_if (mode = ''search_more'' \<and> actor = None) MissionConfirmationRequired) (\<lambda>_.
     place_mission digest show_time ready now gid agent cadence (mode = ''search_more'') actor k))))))))"

section \<open>Settlement and reconciliation\<close>

definition attempt_of :: "agent_mission \<Rightarrow> nat" where
  "attempt_of m = (case am_attempt m of None \<Rightarrow> 0 | Some n \<Rightarrow> n)"

definition settleVerificationWithoutFind :: "agent_mission \<Rightarrow> candidate_result list \<Rightarrow> int \<Rightarrow> agent_mission" where
  "settleVerificationWithoutFind m results now = (let pages = length (filter result_verified results) in
     m\<lparr>am_status := AgentFailed, am_phase := Some PhaseFailed, am_failed := Some now,
       am_failure := Some \<lparr>lf_code = Some (if pages > 0 then VerifiedWithoutSupport else WebReadFailed),
         lf_reason = (if pages > 0 then ''Kernel web.read read '' @ show_nat pages @ (if pages = 1 then '' page'' else '' pages'')
           @ ''; none supports the Goal (no Kernel SUPPORT, no Find)'' else ''Kernel web.read could not read any candidate page''),
         lf_at = now, lf_attempt = attempt_of m\<rparr>,
       am_limitation := (if pages > 0 then ReadWithoutSupport else ReadNothing),
       am_lease := None, am_expires := None, am_read_block := None\<rparr>)"

definition isSettledVerification :: "agent_mission \<Rightarrow> bool" where
  "isSettledVerification m \<longleftrightarrow> am_seal m \<noteq> None \<and> am_seal m \<noteq> Some [] \<and> (am_status m = AgentCompleted \<or> am_status m = AgentFailed)"

definition stranded :: "int \<Rightarrow> agent_mission \<Rightarrow> bool" where
  "stranded now m \<longleftrightarrow> am_status m = AgentRunning \<and> am_phase m = Some PhaseVerifying \<and> am_read_block m = None
     \<and> \<not> (case am_expires m of None \<Rightarrow> False | Some t \<Rightarrow> t > now)
     \<and> or_nil (am_candidates m) \<noteq> [] \<and> or_nil (am_results m) \<noteq> []
     \<and> \<not> list_ex result_supported (or_nil (am_results m))
     \<and> list_all (\<lambda>c. sc_id c \<in> set (map result_candidate (or_nil (am_results m)))) (or_nil (am_candidates m))"

definition settleStrandedVerification :: "int \<Rightarrow> agent_mission \<Rightarrow> agent_mission" where
  "settleStrandedVerification now m = (if stranded now m then settleVerificationWithoutFind m (or_nil (am_results m)) now else m)"

definition reconcileExpiredMission :: "int \<Rightarrow> agent_mission \<Rightarrow> agent_mission" where
  "reconcileExpiredMission now m =
     (if am_status m = AgentRunning \<and> (case am_expires m of None \<Rightarrow> False | Some t \<Rightarrow> t \<le> now) then
        (let exhausted = attempt_of m \<ge> MAX_ATTEMPTS in
         m\<lparr>am_status := (if exhausted then AgentFailed else AgentQueued), am_phase := Some (if exhausted then PhaseFailed else PhaseQueued),
           am_failure := Some \<lparr>lf_code = None,
             lf_reason = (if exhausted then ''Hermes did not complete before the final lease expired'' else ''Hermes lease expired before completion''),
             lf_at = now, lf_attempt = attempt_of m\<rparr>,
           am_limitation := (if exhausted then LeaseExhausted else LeaseRecovered), am_lease := None, am_expires := None\<rparr>)
      else m)"

definition reconcileMission :: "(string \<Rightarrow> bool) \<Rightarrow> int \<Rightarrow> agent_mission \<Rightarrow> agent_mission" where
  "reconcileMission ready now m =
     (if am_status m = WaitingForAgent \<and> ready (am_agent m)
      then m\<lparr>am_status := AgentQueued, am_phase := Some PhaseQueued, am_limitation := AgentBecameReady\<rparr>
      else if stranded now m then settleStrandedVerification now m
      else reconcileExpiredMission now m)"

text \<open>\<open>list\<close>: reconcile every mission, keep the result, and show the newest first.\<close>

definition list_missions :: "(string \<Rightarrow> bool) \<Rightarrow> int \<Rightarrow> knowledge \<Rightarrow> agent_mission list \<times> knowledge" where
  "list_missions ready now k = (let reconciled = map (reconcileMission ready now) (kn_missions k) in
     (sort_key (\<lambda>m. - am_created m) reconciled, k\<lparr>kn_missions := reconciled\<rparr>))"

section \<open>The attempts of an agent\<close>

definition isClaimable :: "int \<Rightarrow> agent_mission \<Rightarrow> bool" where
  "isClaimable now m \<longleftrightarrow> am_status m = AgentQueued
     \<or> (am_status m = AgentRunning \<and> (case am_expires m of None \<Rightarrow> False | Some t \<Rightarrow> t \<le> now) \<and> attempt_of m < MAX_ATTEMPTS)"

text \<open>
  \<open>claim\<close>: \<open>gate\<close> is the automatic gate when claims are automatic; \<open>lease\<close> the generated id. The answer is the mission
  claimed, if any.
\<close>

definition claim_mission ::
  "(stored_goal option \<Rightarrow> agent_mission \<Rightarrow> gate_denial + continuation_grant) option \<Rightarrow> int \<Rightarrow> string \<Rightarrow> int \<Rightarrow> string \<Rightarrow> string option
   \<Rightarrow> knowledge \<Rightarrow> agent_mission option \<times> knowledge" where
  "claim_mission gate lease_ms lease now agent only k =
     (case index_where (\<lambda>m. am_agent m = agent \<and> (case only of None \<Rightarrow> True | Some i \<Rightarrow> am_id m = i) \<and> isClaimable now m) (kn_missions k) of
        None \<Rightarrow> (None, k)
      | Some n \<Rightarrow>
          (let current = kn_missions k ! n;
               denial = (case gate of None \<Rightarrow> None
                 | Some ask \<Rightarrow> (case ask (List.find (\<lambda>g. stored_id g = am_goal current) (kn_goals k)) current of Inl e \<Rightarrow> Some e | Inr _ \<Rightarrow> None)) in
           case denial of
             Some e \<Rightarrow>
               if am_block current = Some e \<and> am_limitation current = ClaimBlocked e then (None, k)
               else (None, k\<lparr>kn_missions := (kn_missions k)[n := current\<lparr>am_block := Some e, am_limitation := ClaimBlocked e\<rparr>]\<rparr>)
           | None \<Rightarrow>
               if attempt_of current + 1 > MAX_ATTEMPTS then (None, k)
               else (let m = current\<lparr>am_status := AgentRunning, am_phase := Some PhaseInvestigating, am_attempt := Some (attempt_of current + 1),
                       am_claimed := Some now, am_expires := Some (now + lease_ms), am_lease := Some lease, am_limitation := DiscoveryOnly,
                       am_block := None\<rparr> in (Some m, k\<lparr>kn_missions := (kn_missions k)[n := m]\<rparr>))))"

definition lease_lost :: "string \<Rightarrow> int \<Rightarrow> agent_mission \<Rightarrow> bool" where
  "lease_lost lease now m \<longleftrightarrow> am_status m \<noteq> AgentRunning \<or> am_lease m \<noteq> Some lease \<or> (case am_expires m of None \<Rightarrow> False | Some t \<Rightarrow> t \<le> now)"

definition clean_text_field :: "nat \<Rightarrow> string \<Rightarrow> string \<Rightarrow> mission_error + string" where
  "clean_text_field limit field s = (case clean_result limit field s of Inl e \<Rightarrow> Inl (MissionResult e) | Inr r \<Rightarrow> Inr r)"

definition fail_mission :: "int \<Rightarrow> string \<Rightarrow> string \<Rightarrow> string \<Rightarrow> knowledge \<Rightarrow> mission_error + agent_mission \<times> knowledge" where
  "fail_mission now mid lease0 reason0 k =
     rbind (clean_text_field 80 ''leaseId'' lease0) (\<lambda>lease.
     rbind (clean_text_field 500 ''reason'' reason0) (\<lambda>reason.
     case index_where (\<lambda>m. am_id m = mid) (kn_missions k) of None \<Rightarrow> Inl MissionMissing
     | Some n \<Rightarrow>
         (let current = kn_missions k ! n; exhausted = attempt_of current \<ge> MAX_ATTEMPTS in
          if am_status current = AgentCompleted then Inl MissionAlreadyCompleted
          else if lease_lost lease now current then Inl MissionLeaseInvalid
          else (let m = current\<lparr>am_status := (if exhausted then AgentFailed else AgentQueued),
                  am_phase := Some (if exhausted then PhaseFailed else PhaseQueued),
                  am_failure := Some \<lparr>lf_code = None, lf_reason = reason, lf_at = now, lf_attempt = attempt_of current\<rparr>,
                  am_limitation := (if exhausted then AttemptsExhausted else RetryQueued), am_lease := None, am_expires := None\<rparr> in
                Inr (m, k\<lparr>kn_missions := (kn_missions k)[n := m]\<rparr>)))))"

text \<open>The candidates an agent brings: a digest of the batch, an idempotent answer to the same batch, the lease, the two ends.\<close>

definition page_value :: "candidate_page \<Rightarrow> js_value" where
  "page_value c = JObject ([(''url'', JString (nc_url c)), (''title'', JString (nc_title c)), (''snippet'', JString (nc_snippet c))]
     @ (case nc_summary c of None \<Rightarrow> [] | Some s \<Rightarrow> [(''summary'', JString s)])
     @ (case nc_discovered c of None \<Rightarrow> [] | Some d \<Rightarrow> [(''discoveredAt'', JString d)]))"

definition candidate_id :: "(string \<Rightarrow> string) \<Rightarrow> string \<Rightarrow> string \<Rightarrow> string" where
  "candidate_id sha mid url = ''search-candidate:'' @ sha (mid @ [char_of (10 :: nat)] @ url)"

definition recordSearchCandidates ::
  "(js_value \<Rightarrow> string) \<Rightarrow> (string \<Rightarrow> string) \<Rightarrow> int \<Rightarrow> string \<Rightarrow> string \<Rightarrow> (result_error + candidate_page list) \<Rightarrow> nat \<Rightarrow> search_telemetry option
   \<Rightarrow> knowledge \<Rightarrow> mission_error + agent_mission \<times> knowledge" where
  "recordSearchCandidates digest sha now mid lease0 findings submitted telemetry k =
     rbind (clean_text_field 80 ''leaseId'' lease0) (\<lambda>lease.
     case findings of Inl e \<Rightarrow> Inl (MissionResult e)
     | Inr pages \<Rightarrow>
         (let batch = digest (JArray (map page_value pages)) in
          case index_where (\<lambda>m. am_id m = mid) (kn_missions k) of None \<Rightarrow> Inl MissionMissing
          | Some n \<Rightarrow>
              (let current = kn_missions k ! n in
               if am_phase current = Some PhaseVerifying \<and> am_digest current = Some batch then Inr (current, k)
               else if lease_lost lease now current then Inl MissionLeaseInvalid
               else (let noted = current\<lparr>am_telemetry := map_option (\<lambda>t. (t, now)) telemetry, am_lease := None, am_expires := None\<rparr>;
                         m = (if pages = []
                           then noted\<lparr>am_status := AgentCompleted, am_phase := None, am_completed := Some now, am_limitation := NoCandidates,
                             am_summary := Some \<lparr>rs_received = 0, rs_evidence = 0, rs_promoted = 0\<rparr>, am_candidates := None, am_digest := None\<rparr>
                           else noted\<lparr>am_status := AgentRunning, am_phase := Some PhaseVerifying, am_verifying := Some now,
                             am_candidates := Some (map (\<lambda>p. \<lparr>sc_id = candidate_id sha mid (nc_url p), sc_page = p, sc_result = None\<rparr>) pages),
                             am_digest := Some batch, am_limitation := CandidatesAwaitRead,
                             am_summary := Some \<lparr>rs_received = submitted, rs_evidence = 0, rs_promoted = 0\<rparr>\<rparr>) in
                     Inr (m, k\<lparr>kn_missions := (kn_missions k)[n := m]\<rparr>)))))"

end
