(* ===== verification/Mission_Verification.thy ===== *)
theory Mission_Verification
  imports Agent_Missions
begin

text \<open>
  How the kernel reads the candidates of a mission and settles it (\<open>apps/local-kernel/mission-search-candidate-verifier.mjs\<close>,
  \<open>browser-challenge-page.mjs\<close>, the projection of finds of \<open>opportunity-classifier.mjs\<close>, the checks of
  \<open>page-context-inbox.mjs\<close>). A verification reads the store, reads the pages, reads the store again and writes in one
  transaction; other calls may come between. Parameters: the reader of pages, SUPPORT's folding and URL parser, the
  labels of the classifier, \<open>sha\<close>. The ellipsis of a shortened text is one character (133).
\<close>

section \<open>Reading a candidate\<close>

record page_document =
  pd_source_url :: string
  pd_title :: string
  pd_text :: string
  pd_fetched :: string
  pd_type :: string
  pd_status :: js_number

datatype read_outcome = ReadOk search_candidate page_document | ReadBad search_candidate string

definition outcome_candidate :: "read_outcome \<Rightarrow> search_candidate" where
  "outcome_candidate r = (case r of ReadOk c _ \<Rightarrow> c | ReadBad c _ \<Rightarrow> c)"

text \<open>The patterns of a page that only checks the browser: plain texts, with their optional parts written out, and whole words.\<close>

definition challenge_texts :: "string list" where
  "challenge_texts = [''no podemos identificar tu navegador'', ''checking if the site connection is secure'', ''checking your browser'',
     ''attention required! | cloudflare'', ''attention required | cloudflare'', ''are you a robot'', ''access to this page has been denied'',
     ''enable javascript and cookies to continue'', ''enable cookies and javascript to continue'']
     @ concat (map (\<lambda>a. map (\<lambda>b. ''verify '' @ a @ ''you are '' @ b @ ''human'') [''a '', []]) [''that '', []])
     @ concat (map (\<lambda>a. concat (map (\<lambda>b. concat (map (\<lambda>c. concat (map (\<lambda>d. map (\<lambda>e.
         a @ '' '' @ b @ c @ d @ '' '' @ e @ ''enabled'') [''are '', ''is '', []])
         [''cookies and javascript'', ''javascript and cookies''])) [''your browser supports '', []])) [''that '', []])) [''make sure'', ''ensure''])"

definition word_char :: "char \<Rightarrow> bool" where
  "word_char c \<longleftrightarrow> is_word c \<or> (65 \<le> (of_char c :: nat) \<and> (of_char c :: nat) \<le> 90) \<or> c = CHR ''_''"

text \<open>\<open>/\bw/\<close> and \<open>/\bw\b/\<close>, for a \<open>w\<close> that starts (and ends) with a letter; \<open>before\<close> is the character in front.\<close>

fun starts_word :: "bool \<Rightarrow> bool \<Rightarrow> string \<Rightarrow> string \<Rightarrow> bool" where
  "starts_word whole before w [] = False"
| "starts_word whole before w (c # s) = ((\<not> before \<and> prefix w (c # s)
       \<and> (whole \<longrightarrow> (case drop (length w) (c # s) of [] \<Rightarrow> True | d # _ \<Rightarrow> \<not> word_char d)))
     \<or> starts_word whole (word_char c) w s)"

definition isBrowserChallengePage :: "string \<Rightarrow> bool" where
  "isBrowserChallengePage text = (let t = trim (collapse_spaces text); l = ascii_lower t in
     t \<noteq> [] \<and> length t \<le> 4000
     \<and> (list_ex (\<lambda>w. sublist w l) challenge_texts \<or> starts_word False False ''just a moment...'' l \<or> starts_word True False ''captcha'' l))"

text \<open>\<open>fetch\<close> is the adapter with the page fetcher: it fails with a message or answers a document; \<open>show_num\<close> renders a number.\<close>

definition read_candidate :: "(js_number \<Rightarrow> string) \<Rightarrow> (string \<Rightarrow> string + page_document) \<Rightarrow> search_candidate \<Rightarrow> read_outcome" where
  "read_candidate show_num fetch c = (case fetch (nc_url (sc_page c)) of
       Inl reason \<Rightarrow> ReadBad c reason
     | Inr d \<Rightarrow>
         if \<not> is_integer_num (pd_status d) \<or> num_lt (pd_status d) (Fin 200) \<or> num_le (Fin 300) (pd_status d) then ReadBad c (''web.read returned HTTP '' @ show_num (pd_status d))
         else if trim (pd_text d) = [] then ReadBad c ''web.read returned empty content''
         else if isBrowserChallengePage (pd_text d) then ReadBad c ''web.read got a bot-protection check page instead of the page content''
         else ReadOk c d)"

section \<open>Before the transaction\<close>

definition verifying :: "agent_mission \<Rightarrow> bool" where
  "verifying m \<longleftrightarrow> am_status m = AgentRunning \<and> am_phase m = Some PhaseVerifying \<and> or_nil (am_candidates m) \<noteq> []"

definition requireSameCandidateBatch :: "agent_mission \<Rightarrow> agent_mission \<Rightarrow> mission_error + unit" where
  "requireSameCandidateBatch expected current =
     rbind (throw_if (\<not> verifying current) MissionNotVerifying) (\<lambda>_.
     throw_if (map_option xa_id (am_authorization current) \<noteq> map_option xa_id (am_authorization expected) \<or> am_digest current \<noteq> am_digest expected)
       VerificationStale)"

definition find_mission :: "string \<Rightarrow> knowledge \<Rightarrow> mission_error + agent_mission" where
  "find_mission mid k = (case List.find (\<lambda>m. am_id m = mid) (kn_missions k) of None \<Rightarrow> Inl MissionMissing | Some m \<Rightarrow> Inr m)"

definition find_goal :: "string \<Rightarrow> knowledge \<Rightarrow> mission_error + stored_goal" where
  "find_goal gid k = (case List.find (\<lambda>g. stored_id g = gid) (kn_goals k) of None \<Rightarrow> Inl ActiveGoalMissing | Some g \<Rightarrow> Inr g)"

datatype verify_plan = AlreadySettled agent_mission | MustBlock agent_mission gate_denial | MayRead agent_mission

text \<open>The first look at the store.\<close>

definition verify_begin ::
  "(stored_goal \<Rightarrow> agent_mission \<Rightarrow> gate_denial + continuation_grant) \<Rightarrow> string \<Rightarrow> knowledge \<Rightarrow> mission_error + verify_plan" where
  "verify_begin ask mid k = rbind (find_mission mid k) (\<lambda>m.
     if isSettledVerification m then Inr (AlreadySettled m)
     else rbind (throw_if (\<not> verifying m) MissionNotVerifying) (\<lambda>_.
       rbind (find_goal (am_goal m) k) (\<lambda>g. case ask g m of Inl e \<Rightarrow> Inr (MustBlock m e) | Inr _ \<Rightarrow> Inr (MayRead m))))"

text \<open>The second look, after the pages were read for \<open>initial\<close>.\<close>

definition verify_recheck ::
  "(stored_goal \<Rightarrow> agent_mission \<Rightarrow> gate_denial + continuation_grant) \<Rightarrow> agent_mission \<Rightarrow> string \<Rightarrow> knowledge \<Rightarrow> mission_error + verify_plan" where
  "verify_recheck ask initial mid k = rbind (find_mission mid k) (\<lambda>m.
     if isSettledVerification m then Inr (AlreadySettled m)
     else rbind (requireSameCandidateBatch initial m) (\<lambda>_.
       rbind (find_goal (am_goal m) k) (\<lambda>g. case ask g m of Inl e \<Rightarrow> Inr (MustBlock m e) | Inr _ \<Rightarrow> Inr (MayRead m))))"

section \<open>From a page to Evidence and a find\<close>

record page_context =
  pc_url :: string
  pc_title :: string
  pc_text :: string
  pc_description :: "string option"
  pc_captured :: string

definition boundedProjectionText :: "string \<Rightarrow> string" where
  "boundedProjectionText t = (if length t \<le> 12000 then t else take 11999 t @ [char_of (133 :: nat)])"

definition non_empty :: "string \<Rightarrow> string option" where
  "non_empty s = (if s = [] then None else Some s)"

definition or_else_text :: "string \<Rightarrow> string \<Rightarrow> string" where
  "or_else_text a b = (if a = [] then b else a)"

definition required_text :: "nat \<Rightarrow> string \<Rightarrow> string \<Rightarrow> mission_error + unit" where
  "required_text limit field s = throw_if (s = [] \<or> length s > limit) (ProjectionRefused field)"

text \<open>\<open>validatePageContext\<close> on the fields this caller sets; the URL comes back as the parser writes it.\<close>

definition validatePageContext ::
  "(string \<Rightarrow> parsed_url option) \<Rightarrow> (string \<Rightarrow> bool) \<Rightarrow> page_context \<Rightarrow> mission_error + page_context" where
  "validatePageContext parse_url canonical c =
     rbind (required_text 2048 ''url'' (pc_url c)) (\<lambda>_.
     case parse_url (pc_url c) of None \<Rightarrow> Inl (ProjectionRefused ''url'')
     | Some u \<Rightarrow>
         rbind (throw_if (pu_protocol u \<notin> {''http:'', ''https:''} \<or> pu_username u \<noteq> [] \<or> pu_password u \<noteq> []) (ProjectionRefused ''url'')) (\<lambda>_.
         rbind (required_text 64 ''capturedAt'' (pc_captured c)) (\<lambda>_.
         rbind (throw_if (\<not> canonical (pc_captured c)) (ProjectionRefused ''capturedAt'')) (\<lambda>_.
         rbind (required_text 300 ''title'' (pc_title c)) (\<lambda>_.
         rbind (case pc_description c of None \<Rightarrow> Inr () | Some d \<Rightarrow> required_text 1000 ''description'' d) (\<lambda>_.
         rbind (required_text 12000 ''visibleText'' (pc_text c)) (\<lambda>_. Inr (c\<lparr>pc_url := pu_href u\<rparr>))))))))"

text \<open>\<open>projectClassified\<close>: a find of this page or this Evidence is kept, a new one is added.\<close>

definition projectClassified :: "opportunity \<Rightarrow> string \<Rightarrow> knowledge \<Rightarrow> opportunity \<times> knowledge" where
  "projectClassified found evidence k =
     (case List.find (\<lambda>x. op_id x = op_id found \<or> op_evidence x = evidence) (kn_opportunities k) of
        Some existing \<Rightarrow> (existing, k)
      | None \<Rightarrow> (found, k\<lparr>kn_opportunities := kn_opportunities k @ [found]\<rparr>))"

text \<open>
  \<open>projectSupportedInto\<close>: a page that passed SUPPORT always becomes a find; \<open>label\<close> answers the category the classifier
  and the scope of the mission give it.
\<close>

definition projectSupportedInto ::
  "(string \<Rightarrow> parsed_url option) \<Rightarrow> (string \<Rightarrow> bool) \<Rightarrow> (page_context \<Rightarrow> string list \<Rightarrow> string) \<Rightarrow> (string \<Rightarrow> string)
   \<Rightarrow> page_context \<Rightarrow> string \<Rightarrow> string \<Rightarrow> string list \<Rightarrow> knowledge \<Rightarrow> mission_error + opportunity \<times> knowledge" where
  "projectSupportedInto parse_url canonical label sha c case_id evidence categories k =
     rbind (validatePageContext parse_url canonical c) (\<lambda>v.
       Inr (projectClassified \<lparr>op_id = ''opportunity:'' @ sha (evidence @ [char_of (10 :: nat)] @ pc_url v), op_evidence = evidence, op_case = case_id,
         op_category = label v categories, op_title = pc_title v, op_source_url = pc_url v, op_supported = False, op_reason = None\<rparr> evidence k))"

record projected_page =
  pp_case :: string
  pp_evidence :: string
  pp_duplicate :: bool
  pp_source_url :: string
  pp_opportunity :: "opportunity option"

definition verified_suffix :: "(string \<Rightarrow> string) \<Rightarrow> string \<Rightarrow> string \<Rightarrow> string" where
  "verified_suffix sha mid cid = sha (mid @ [char_of (10 :: nat)] @ cid)"

definition document_context :: "(string \<Rightarrow> string) \<Rightarrow> page_document \<Rightarrow> page_context" where
  "document_context host_path d = (let text = boundedProjectionText (trim (pd_text d)); title = take 240 (trim (pd_title d)) in
     \<lparr>pc_url = trim (pd_source_url d),
      pc_title = or_else_text title (or_else_text (take 240 text) (host_path (trim (pd_source_url d)))),
      pc_text = text, pc_description = non_empty (take 500 (or_else_text text title)), pc_captured = pd_fetched d\<rparr>)"

definition projectVerifiedDocument ::
  "(string \<Rightarrow> parsed_url option) \<Rightarrow> (string \<Rightarrow> bool) \<Rightarrow> (page_context \<Rightarrow> string list \<Rightarrow> string) \<Rightarrow> (string \<Rightarrow> string) \<Rightarrow> (string \<Rightarrow> string)
   \<Rightarrow> agent_mission \<Rightarrow> search_candidate \<Rightarrow> page_document \<Rightarrow> bool \<Rightarrow> support_reason \<Rightarrow> knowledge \<Rightarrow> mission_error + projected_page \<times> knowledge" where
  "projectVerifiedDocument parse_url canonical label sha host_path m c d promote reason k =
     (let suffix = verified_suffix sha (am_id m) (sc_id c); case_id = ''case:verified:'' @ suffix; eid = ''evidence:verified:'' @ suffix;
          page = document_context host_path d; text = trim (pd_text d); title = take 240 (trim (pd_title d));
          duplicate = list_ex (\<lambda>e. ve_id e = eid) (kn_evidence k);
          evidence = \<lparr>ve_id = eid, ve_case = case_id, ve_source_url = pc_url page, ve_text = text,
            ve_summary = or_else_text title (or_else_text (take 500 (pc_text page)) (pc_title page)), ve_captured = pd_fetched d,
            ve_mission = am_id m, ve_candidate = sc_id c\<rparr>;
          k1 = (if duplicate then k else k\<lparr>kn_cases := kn_cases k @ [(case_id, pc_title page)], kn_evidence := kn_evidence k @ [evidence]\<rparr>);
          result = \<lparr>pp_case = case_id, pp_evidence = eid, pp_duplicate = duplicate, pp_source_url = pc_url page, pp_opportunity = None\<rparr> in
      if \<not> promote then Inr (result, k1)
      else rbind (projectSupportedInto parse_url canonical label sha page case_id eid (ms_categories (am_scope m)) k1) (\<lambda>(found, k2).
        let stamped = found\<lparr>op_supported := True, op_reason := Some reason\<rparr> in
        Inr (result\<lparr>pp_opportunity := Some stamped\<rparr>,
          k2\<lparr>kn_opportunities := map (\<lambda>x. if op_id x = op_id stamped then stamped else x) (kn_opportunities k2)\<rparr>)))"

section \<open>The transactions\<close>

text \<open>What the projection of a whole batch needs from outside, in one record.\<close>

record verifier_env =
  vv_parse_url :: "string \<Rightarrow> parsed_url option"
  vv_canonical :: "string \<Rightarrow> bool"
  vv_label :: "page_context \<Rightarrow> string list \<Rightarrow> string"
  vv_sha :: "string \<Rightarrow> string"
  vv_host_path :: "string \<Rightarrow> string"
  vv_fold :: "string \<Rightarrow> string"
  vv_path :: "string \<Rightarrow> (string \<times> string) option"

definition goal_support_of :: "stored_goal \<Rightarrow> goal_support" where
  "goal_support_of g = \<lparr>gs_title = Some (stored_title g), gs_keywords = (case g of LocalGoal l \<Rightarrow> lg_keywords l | ContractGoal _ \<Rightarrow> [])\<rparr>"

definition page_support_of :: "page_document \<Rightarrow> page_support" where
  "page_support_of d = \<lparr>ps_title = Some (pd_title d), ps_excerpt = None, ps_url = Some (pd_source_url d), ps_text = Some (pd_text d)\<rparr>"

text \<open>\<open>evidenceSupportsGoal\<close> of a page, for the Goal as it is in the store at this moment.\<close>

definition support_of :: "verifier_env \<Rightarrow> stored_goal \<Rightarrow> page_document \<Rightarrow> bool \<times> support_reason" where
  "support_of env g d = evidenceSupportsGoal (vv_fold env) (vv_path env) (goal_support_of g) (page_support_of d)"

fun project_outcomes ::
  "verifier_env \<Rightarrow> stored_goal \<Rightarrow> agent_mission \<Rightarrow> read_outcome list \<Rightarrow> knowledge
   \<Rightarrow> mission_error + (candidate_result list \<times> projected_page list) \<times> knowledge" where
  "project_outcomes env goal m [] k = Inr (([], []), k)"
| "project_outcomes env goal m (r # rs) k = (case r of
       ReadBad c reason \<Rightarrow> rbind (project_outcomes env goal m rs k) (\<lambda>((results, pages), k'). Inr ((ReadFailed (sc_id c) reason # results, pages), k'))
     | ReadOk c d \<Rightarrow>
         (let live = (case List.find (\<lambda>g. stored_id g = am_goal m) (kn_goals k) of None \<Rightarrow> goal | Some g \<Rightarrow> g);
              support = support_of env live d in
          rbind (projectVerifiedDocument (vv_parse_url env) (vv_canonical env) (vv_label env) (vv_sha env) (vv_host_path env)
              m c d (fst support) (snd support) k) (\<lambda>(p, k1).
          rbind (project_outcomes env goal m rs k1) (\<lambda>((results, pages), k').
            Inr ((PageVerified (sc_id c) (pp_source_url p) (pp_evidence p) (fst support) (snd support) # results, p # pages), k')))))"

definition merge_results :: "candidate_result list \<Rightarrow> search_candidate list \<Rightarrow> search_candidate list" where
  "merge_results results = map (\<lambda>c. case List.find (\<lambda>r. result_candidate r = sc_id c) results of None \<Rightarrow> c | Some r \<Rightarrow> c\<lparr>sc_result := Some r\<rparr>)"

text \<open>The lines of the seal are joined with line ends; each is the text of one result.\<close>

definition reason_text :: "support_reason \<Rightarrow> string" where
  "reason_text r = (case r of NoEvidence \<Rightarrow> ''no_evidence'' | EmptyGoal \<Rightarrow> ''empty_goal'' | UniqueIdMissing \<Rightarrow> ''unique_id_missing''
     | SupportedPage \<Rightarrow> ''supported'' | HomepageInsufficient \<Rightarrow> ''homepage_insufficient_coverage''
     | InsufficientCoverage \<Rightarrow> ''insufficient_term_coverage'' | KeywordsMissing \<Rightarrow> ''mission_keywords_missing'')"

definition result_line :: "candidate_result \<Rightarrow> string" where
  "result_line r = (case r of ReadFailed c _ \<Rightarrow> c @ '':verification_failed::unsupported:''
     | PageVerified c _ e b reason \<Rightarrow> c @ '':verified:'' @ e @ '':'' @ (if b then ''supported'' else ''unsupported'') @ '':'' @ reason_text reason)"

definition verificationSealDigest :: "(string \<Rightarrow> string) \<Rightarrow> string option \<Rightarrow> candidate_result list \<Rightarrow> string" where
  "verificationSealDigest sha batch results = sha ((case batch of None \<Rightarrow> [] | Some b \<Rightarrow> b)
     @ concat (map (\<lambda>r. char_of (10 :: nat) # result_line r) results) @ (if results = [] then [char_of (10 :: nat)] else []))"

definition projectVerified ::
  "verifier_env \<Rightarrow> int \<Rightarrow> string \<Rightarrow> agent_mission \<Rightarrow> read_outcome list \<Rightarrow> stored_goal \<Rightarrow> knowledge \<Rightarrow> mission_error + agent_mission \<times> knowledge" where
  "projectVerified env now mid expected outcomes goal k =
     (case index_where (\<lambda>m. am_id m = mid) (kn_missions k) of None \<Rightarrow> Inl MissionNotVerifying
      | Some n \<Rightarrow>
          (let current = kn_missions k ! n in
           if isSettledVerification current then Inr (current, k)
           else rbind (requireSameCandidateBatch expected current) (\<lambda>_.
             rbind (project_outcomes env goal current outcomes k) (\<lambda>((results, pages), k').
               let summary = \<lparr>rs_received = length (or_nil (am_candidates current)), rs_evidence = length (filter (\<lambda>p. \<not> pp_duplicate p) pages),
                     rs_promoted = length (filter (\<lambda>p. pp_opportunity p \<noteq> None) pages)\<rparr>;
                   settled = (if list_ex result_supported results
                     then current\<lparr>am_status := AgentCompleted, am_phase := Some PhaseForged, am_completed := Some now, am_forged := Some now,
                       am_limitation := ReadCompleted\<rparr>
                     else settleVerificationWithoutFind current results now);
                   m = settled\<lparr>am_results := Some results, am_seal := Some (verificationSealDigest (vv_sha env) (am_digest current) results),
                     am_candidates := Some (merge_results results (or_nil (am_candidates current))), am_summary := Some summary, am_read_block := None\<rparr> in
               Inr (m, k'\<lparr>kn_missions := (kn_missions k)[n := m]\<rparr>)))))"

definition recordFailures ::
  "verifier_env \<Rightarrow> int \<Rightarrow> string \<Rightarrow> agent_mission \<Rightarrow> read_outcome list \<Rightarrow> knowledge \<Rightarrow> mission_error + agent_mission \<times> knowledge" where
  "recordFailures env now mid expected outcomes k =
     (case index_where (\<lambda>m. am_id m = mid) (kn_missions k) of None \<Rightarrow> Inl MissionNotVerifying
      | Some n \<Rightarrow>
          (let current = kn_missions k ! n in
           rbind (requireSameCandidateBatch expected current) (\<lambda>_.
             let results = map (\<lambda>r. ReadFailed (sc_id (outcome_candidate r)) (case r of ReadBad _ reason \<Rightarrow> reason | ReadOk _ _ \<Rightarrow> [])) outcomes;
                 m = (settleVerificationWithoutFind current results now)\<lparr>am_results := Some results,
                   am_seal := Some (verificationSealDigest (vv_sha env) (am_digest current) results),
                   am_candidates := Some (merge_results results (or_nil (am_candidates current))),
                   am_summary := Some \<lparr>rs_received = length (or_nil (am_candidates current)), rs_evidence = 0, rs_promoted = 0\<rparr>\<rparr> in
             Inr (m, k\<lparr>kn_missions := (kn_missions k)[n := m]\<rparr>))))"

definition recordBlock :: "string \<Rightarrow> agent_mission \<Rightarrow> gate_denial \<Rightarrow> knowledge \<Rightarrow> mission_error + agent_mission \<times> knowledge" where
  "recordBlock mid expected reason k =
     (case index_where (\<lambda>m. am_id m = mid) (kn_missions k) of None \<Rightarrow> Inl MissionNotVerifying
      | Some n \<Rightarrow>
          (let current = kn_missions k ! n in
           rbind (requireSameCandidateBatch expected current) (\<lambda>_.
             if am_read_block current = Some reason then Inr (current, k)
             else (let m = current\<lparr>am_read_block := Some reason, am_limitation := ReadBlocked reason\<rparr> in
               Inr (m, k\<lparr>kn_missions := (kn_missions k)[n := m]\<rparr>)))))"

text \<open>The call as a whole, when nothing comes between its steps.\<close>

definition verify_outcomes ::
  "verifier_env \<Rightarrow> int \<Rightarrow> string \<Rightarrow> agent_mission \<Rightarrow> read_outcome list \<Rightarrow> stored_goal \<Rightarrow> knowledge \<Rightarrow> mission_error + agent_mission \<times> knowledge" where
  "verify_outcomes env now mid fresh outcomes goal k =
     (if list_ex (\<lambda>r. case r of ReadOk _ _ \<Rightarrow> True | ReadBad _ _ \<Rightarrow> False) outcomes
      then projectVerified env now mid fresh outcomes goal k else recordFailures env now mid fresh outcomes k)"

definition verify_mission ::
  "(stored_goal \<Rightarrow> agent_mission \<Rightarrow> gate_denial + continuation_grant) \<Rightarrow> verifier_env \<Rightarrow> (js_number \<Rightarrow> string) \<Rightarrow> (string \<Rightarrow> string + page_document)
   \<Rightarrow> int \<Rightarrow> string \<Rightarrow> knowledge \<Rightarrow> mission_error + agent_mission \<times> knowledge" where
  "verify_mission ask env show_num fetch now mid k = rbind (verify_begin ask mid k) (\<lambda>plan. case plan of
       AlreadySettled m \<Rightarrow> Inr (m, k)
     | MustBlock m reason \<Rightarrow> recordBlock mid m reason k
     | MayRead initial \<Rightarrow>
         (let outcomes = map (read_candidate show_num fetch) (or_nil (am_candidates initial)) in
          rbind (verify_recheck ask initial mid k) (\<lambda>again. case again of
              AlreadySettled m \<Rightarrow> Inr (m, k)
            | MustBlock m reason \<Rightarrow> recordBlock mid m reason k
            | MayRead fresh \<Rightarrow> rbind (find_goal (am_goal fresh) k) (\<lambda>g. verify_outcomes env now mid fresh outcomes g k))))"

end
