(* ===== verification/Goal_Revision.thy ===== *)
theory Goal_Revision
  imports Agent_Missions
begin

text \<open>
  The Goals of the local kernel (\<open>apps/local-kernel/goals.mjs\<close>, \<open>goal-intent-enrichment.mjs\<close>): creation and the revision
  of a Goal together with its missions. Parameters: \<open>infer\<close> (the categories the word patterns find in a
  text), \<open>numbers\<close> (the amounts in a title), \<open>fold_case\<close> (\<open>normalize('NFKC').toLocaleLowerCase('en')\<close>), \<open>nfd\<close> as in
  \<open>Evidence_Support\<close>, \<open>digest\<close>. Results: what a revision keeps and changes, when it is refused, and that it never
  comes between an agent or a verification and the Goal they work for.
\<close>

section \<open>Content\<close>

datatype goal_error =
  InvalidGoal string | GoalRevisionConfirmationRequired | GoalMissing | GoalRevisionUnsupported | GoalRevisionConflict js_number
| GoalMissionRunning | GoalReceipt receipt_error

record goal_content =
  gi_title :: string
  gi_categories :: "string list"
  gi_keywords :: "string list"
  gi_location :: "string option"

definition GOAL_CATEGORIES :: "string list" where
  "GOAL_CATEGORIES = [''job'', ''grant'', ''client'', ''offer'', ''tool'', ''food'', ''aid'', ''learning'', ''event'', ''housing'', ''travel'',
     ''collaboration'', ''money'']"

text \<open>\<open>clean\<close> of this file: the result may be empty.\<close>

definition clean_goal :: "nat \<Rightarrow> string \<Rightarrow> goal_error + string" where
  "clean_goal limit s = (let r = collapse_spaces (trim s) in
     if length r > limit \<or> list_ex js_control r then Inl (InvalidGoal ''text'') else Inr r)"

definition uniqueStrings :: "nat \<Rightarrow> nat \<Rightarrow> string list option \<Rightarrow> goal_error + string list" where
  "uniqueStrings limit len values = (case values of None \<Rightarrow> Inr []
     | Some vs \<Rightarrow> rbind (throw_if (length vs > limit) (InvalidGoal ''list'')) (\<lambda>_.
         rbind (map_res (clean_goal len) vs) (\<lambda>cs. Inr (uniq (filter (\<lambda>c. c \<noteq> []) cs)))))"

record enrichment =
  en_infer :: "string \<Rightarrow> string list"
  en_numbers :: "string \<Rightarrow> string list"
  en_nfd :: "string \<Rightarrow> string"

text \<open>The identifiers among the words of the title, as SUPPORT recognises them.\<close>

definition extractUniqueGoalKeywords :: "enrichment \<Rightarrow> string \<Rightarrow> string list" where
  "extractUniqueGoalKeywords en title = uniq (filter isUniqueGoalId (tokenize_text (en_nfd en) title))"

text \<open>\<open>unique\<close>: blank values are left out, the others trimmed.\<close>

definition unique_trimmed :: "string list \<Rightarrow> string list" where
  "unique_trimmed vs = uniq (map trim (filter (\<lambda>v. trim v \<noteq> []) vs))"

definition enrichGoalIntent :: "enrichment \<Rightarrow> string \<Rightarrow> string list \<Rightarrow> string list \<Rightarrow> string list \<times> string list" where
  "enrichGoalIntent en title categories keywords =
     (if categories \<noteq> [] then categories else en_infer en (title @ '' '' @ join_words keywords),
      take 12 (unique_trimmed (keywords @ en_numbers en title @ extractUniqueGoalKeywords en title)))"

definition validateGoalContent ::
  "enrichment \<Rightarrow> string \<Rightarrow> string list option \<Rightarrow> string list option \<Rightarrow> string option \<Rightarrow> goal_error + goal_content" where
  "validateGoalContent en title0 categories0 keywords0 location0 =
     rbind (clean_goal 120 title0) (\<lambda>title.
     rbind (throw_if (length title < 3) (InvalidGoal ''title'')) (\<lambda>_.
     rbind (uniqueStrings 13 32 categories0) (\<lambda>supplied.
     rbind (throw_if (\<not> set supplied \<subseteq> set GOAL_CATEGORIES) (InvalidGoal ''categories'')) (\<lambda>_.
     rbind (uniqueStrings 12 40 keywords0) (\<lambda>words.
     let intent = enrichGoalIntent en title supplied words in
     rbind (throw_if (fst intent = [] \<and> snd intent = []) (InvalidGoal ''content'')) (\<lambda>_.
     rbind (case location0 of None \<Rightarrow> Inr [] | Some l \<Rightarrow> clean_goal 80 l) (\<lambda>location.
     Inr \<lparr>gi_title = title, gi_categories = fst intent, gi_keywords = snd intent,
       gi_location = (if location = [] then None else Some location)\<rparr>)))))))"

section \<open>Creation\<close>

record create_input =
  ci_title :: string
  ci_categories :: "string list option"
  ci_keywords :: "string list option"
  ci_location :: "string option"
  ci_priority :: "js_number option"

definition goal_priority :: "js_number option \<Rightarrow> goal_error + nat" where
  "goal_priority p = (case p of None \<Rightarrow> Inr 2 | Some n \<Rightarrow> (case bounded_count 1 3 n of None \<Rightarrow> Inl (InvalidGoal ''priority'') | Some k \<Rightarrow> Inr k))"

definition validateGoal ::
  "(js_value \<Rightarrow> string) \<Rightarrow> (string \<Rightarrow> string) \<Rightarrow> enrichment \<Rightarrow> int \<Rightarrow> create_input \<Rightarrow> goal_error + local_goal" where
  "validateGoal digest fold_case en now i =
     rbind (validateGoalContent en (ci_title i) (ci_categories i) (ci_keywords i) (ci_location i)) (\<lambda>c.
     rbind (goal_priority (ci_priority i)) (\<lambda>priority.
     Inr \<lparr>lg_id = ''goal:'' @ digest (JObject [(''title'', JString (fold_case (gi_title c))),
            (''categories'', JArray (map JString (gi_categories c))), (''keywords'', JArray (map (\<lambda>w. JString (fold_case w)) (gi_keywords c))),
            (''location'', JString (fold_case (case gi_location c of None \<Rightarrow> [] | Some l \<Rightarrow> l)))]),
       lg_title = gi_title c, lg_categories = gi_categories c, lg_keywords = gi_keywords c, lg_location = gi_location c, lg_priority = priority,
       lg_active = True, lg_created = now, lg_revision = None, lg_revised = None, lg_history = []\<rparr>))"

definition create_goal ::
  "(js_value \<Rightarrow> string) \<Rightarrow> (string \<Rightarrow> string) \<Rightarrow> enrichment \<Rightarrow> int \<Rightarrow> create_input \<Rightarrow> knowledge \<Rightarrow> goal_error + stored_goal \<times> knowledge" where
  "create_goal digest fold_case en now i k = rbind (validateGoal digest fold_case en now i) (\<lambda>g.
     case List.find (\<lambda>x. stored_id x = lg_id g) (kn_goals k) of
       Some existing \<Rightarrow> Inr (existing, k)
     | None \<Rightarrow> Inr (LocalGoal g, k\<lparr>kn_goals := kn_goals k @ [LocalGoal g]\<rparr>))"

section \<open>Revision\<close>

datatype location_input = KeepLocation | ClearLocation | SetLocation string

record revise_input =
  ri_confirmed :: bool
  ri_expected :: "js_number option"
  ri_title :: "string option"
  ri_categories :: "string list option"
  ri_keywords :: "string list option"
  ri_location :: location_input

definition isVerificationPending :: "int \<Rightarrow> agent_mission \<Rightarrow> bool" where
  "isVerificationPending now m \<longleftrightarrow> am_status m = AgentRunning \<and> am_phase m = Some PhaseVerifying \<and> am_read_block m = None \<and> \<not> stranded now m"

definition goal_content_of :: "local_goal \<Rightarrow> goal_content" where
  "goal_content_of g = \<lparr>gi_title = lg_title g, gi_categories = lg_categories g, gi_keywords = lg_keywords g, gi_location = lg_location g\<rparr>"

definition changed_fields :: "goal_content \<Rightarrow> goal_content \<Rightarrow> string list" where
  "changed_fields new old = (if gi_title new \<noteq> gi_title old then [''title''] else []) @ (if gi_categories new \<noteq> gi_categories old then [''categories''] else [])
     @ (if gi_keywords new \<noteq> gi_keywords old then [''keywords''] else []) @ (if gi_location new \<noteq> gi_location old then [''location''] else [])"

definition revised_content ::
  "(string \<Rightarrow> string) \<Rightarrow> enrichment \<Rightarrow> revise_input \<Rightarrow> local_goal \<Rightarrow> goal_error + goal_content" where
  "revised_content fold_case en i g =
     (let title = (case ri_title i of None \<Rightarrow> lg_title g | Some t \<Rightarrow> t) in
      rbind (clean_goal 120 title) (\<lambda>cleaned.
        let same = (fold_case cleaned = fold_case (lg_title g)) in
        validateGoalContent en title
          (case ri_categories i of Some c \<Rightarrow> Some c | None \<Rightarrow> if same then Some (lg_categories g) else None)
          (case ri_keywords i of Some w \<Rightarrow> Some w | None \<Rightarrow> if same then Some (lg_keywords g) else None)
          (case ri_location i of ClearLocation \<Rightarrow> Some [] | SetLocation l \<Rightarrow> Some l | KeepLocation \<Rightarrow> lg_location g)))"

definition MAX_REVISION_HISTORY :: nat where "MAX_REVISION_HISTORY = 20"

definition apply_revision :: "goal_content \<Rightarrow> js_number \<Rightarrow> int \<Rightarrow> string \<Rightarrow> local_goal \<Rightarrow> local_goal" where
  "apply_revision c revision now by_whom g =
     g\<lparr>lg_title := gi_title c, lg_categories := gi_categories c, lg_keywords := gi_keywords c, lg_location := gi_location c,
       lg_revision := Some (num_succ revision), lg_revised := Some (now, by_whom),
       lg_history := last_n MAX_REVISION_HISTORY (lg_history g @ [\<lparr>gn_revision = revision, gn_title = lg_title g, gn_categories = lg_categories g,
         gn_keywords = lg_keywords g, gn_location = lg_location g, gn_changed = changed_fields c (goal_content_of g),
         gn_superseded_at = now, gn_superseded_by = by_whom\<rparr>])\<rparr>"

text \<open>The missions of the Goal that have not started follow it, with a fresh receipt when they had one.\<close>

definition rescope_mission ::
  "(js_value \<Rightarrow> string) \<Rightarrow> (int \<Rightarrow> string) \<Rightarrow> confirmation_actor \<times> string \<Rightarrow> int \<Rightarrow> local_goal \<Rightarrow> agent_mission \<Rightarrow> goal_error + agent_mission" where
  "rescope_mission digest show_time actor now g m =
     (if am_goal m \<noteq> lg_id g \<or> \<not> is_active now m then Inr m
      else rbind (case am_authorization m of None \<Rightarrow> Inr None
          | Some _ \<Rightarrow> (case createGoalExecutionAuthorizationReceipt digest show_time (LocalGoal g) now actor of Inl e \<Rightarrow> Inl (GoalReceipt e) | Inr r \<Rightarrow> Inr (Some r)))
        (\<lambda>a. Inr (m\<lparr>am_title := lg_title g, am_scope := goal_scope (LocalGoal g), am_authorization := a\<rparr>)))"

definition revise_goal ::
  "(js_value \<Rightarrow> string) \<Rightarrow> (int \<Rightarrow> string) \<Rightarrow> (string \<Rightarrow> string) \<Rightarrow> enrichment \<Rightarrow> int \<Rightarrow> string \<Rightarrow> revise_input \<Rightarrow> (confirmation_actor \<times> string) option
   \<Rightarrow> knowledge \<Rightarrow> goal_error + local_goal \<times> knowledge" where
  "revise_goal digest show_time fold_case en now gid i actor0 k =
     rbind (throw_if (\<not> ri_confirmed i) (InvalidGoal ''confirmed'')) (\<lambda>_.
     case actor0 of None \<Rightarrow> Inl GoalRevisionConfirmationRequired
     | Some actor \<Rightarrow>
         rbind (throw_if (case ri_expected i of None \<Rightarrow> False | Some n \<Rightarrow> \<not> positive_integer n) (InvalidGoal ''expectedRevision'')) (\<lambda>_.
         case index_where (\<lambda>g. stored_id g = gid) (kn_goals k) of None \<Rightarrow> Inl GoalMissing
         | Some n \<Rightarrow>
             rbind (throw_if (stored_status (kn_goals k ! n) \<noteq> GoalActive) GoalMissing) (\<lambda>_.
             case kn_goals k ! n of ContractGoal _ \<Rightarrow> Inl GoalRevisionUnsupported
             | LocalGoal g \<Rightarrow>
                 rbind (case currentGoalRevision (LocalGoal g) of Inl e \<Rightarrow> Inl (GoalReceipt e) | Inr r \<Rightarrow> Inr r) (\<lambda>revision.
                 rbind (throw_if (case ri_expected i of None \<Rightarrow> False | Some e \<Rightarrow> e \<noteq> revision) (GoalRevisionConflict revision)) (\<lambda>_.
                 rbind (revised_content fold_case en i g) (\<lambda>c.
                 if changed_fields c (goal_content_of g) = [] then Inr (g, k)
                 else
                   let mine = filter (\<lambda>m. am_goal m = gid) (kn_missions k) in
                   rbind (throw_if (list_ex (\<lambda>m. am_status m = AgentRunning \<and> is_active now m) mine) GoalMissionRunning) (\<lambda>_.
                   rbind (throw_if (list_ex (isVerificationPending now) mine) GoalMissionRunning) (\<lambda>_.
                   let g' = apply_revision c revision now (snd actor) g in
                   rbind (map_res (rescope_mission digest show_time actor now g') (kn_missions k)) (\<lambda>missions.
                   Inr (g', k\<lparr>kn_goals := (kn_goals k)[n := LocalGoal g'], kn_missions := missions\<rparr>))))))))))"

end
