(* ===== verification/Mission_Course.thy ===== *)
theory Mission_Course
  imports Mission_Verification Goal_Revision
begin

text \<open>
  The course of missions: every call of the local kernel that changes Goals, missions, Evidence or finds is one step of
  a relation, so calls may come in any order and between the transactions of a verification. The invariants say what a
  mission that runs, waits, failed or completed looks like, whatever happened before.
\<close>

section \<open>Steps\<close>

record course_env =
  ce_digest :: "js_value \<Rightarrow> string"
  ce_show_time :: "int \<Rightarrow> string"
  ce_fold_case :: "string \<Rightarrow> string"
  ce_enrich :: enrichment
  ce_verifier :: verifier_env
  ce_gate :: "(stored_goal option \<Rightarrow> agent_mission \<Rightarrow> gate_denial + continuation_grant) option"
  ce_lease_ms :: int

text \<open>
  A verification writes for the batch it read: \<open>initial\<close> is the mission it found first, \<open>fresh\<close> the mission it found
  after reading; the steps of others may lie between.
\<close>

inductive mission_step :: "course_env \<Rightarrow> knowledge \<Rightarrow> knowledge \<Rightarrow> bool" for env where
  step_create: "create_mission (ce_digest env) (ce_show_time env) ready now gid i actor k = Inr (m, k') \<Longrightarrow> mission_step env k k'"
| step_list: "list_missions ready now k = (shown, k') \<Longrightarrow> mission_step env k k'"
| step_claim: "claim_mission (ce_gate env) (ce_lease_ms env) lease now agent only k = (answer, k') \<Longrightarrow> mission_step env k k'"
| step_fail: "fail_mission now mid lease reason k = Inr (m, k') \<Longrightarrow> mission_step env k k'"
| step_record: "recordSearchCandidates (ce_digest env) (vv_sha (ce_verifier env)) now mid lease findings submitted telemetry k = Inr (m, k')
    \<Longrightarrow> mission_step env k k'"
| step_block: "recordBlock mid expected reason k = Inr (m, k') \<Longrightarrow> mission_step env k k'"
| step_verify: "map outcome_candidate outcomes = or_nil (am_candidates initial) \<Longrightarrow> requireSameCandidateBatch initial fresh = Inr ()
    \<Longrightarrow> verify_outcomes (ce_verifier env) now mid fresh outcomes g k = Inr (m, k') \<Longrightarrow> mission_step env k k'"
| step_goal: "create_goal (ce_digest env) (ce_fold_case env) (ce_enrich env) now gi k = Inr (answered, k') \<Longrightarrow> mission_step env k k'"
| step_revise: "revise_goal (ce_digest env) (ce_show_time env) (ce_fold_case env) (ce_enrich env) now gid ri actor k = Inr (l, k') \<Longrightarrow> mission_step env k k'"
| step_capture: "\<not> op_supported found \<Longrightarrow> projectClassified found (op_evidence found) k = (x, k') \<Longrightarrow> mission_step env k k'"

abbreviation mission_steps :: "course_env \<Rightarrow> knowledge \<Rightarrow> knowledge \<Rightarrow> bool" where
  "mission_steps env \<equiv> (mission_step env)\<^sup>*\<^sup>*"

definition no_knowledge :: knowledge where
  "no_knowledge = \<lparr>kn_goals = [], kn_missions = [], kn_cases = [], kn_evidence = [], kn_opportunities = []\<rparr>"

section \<open>What a mission looks like\<close>

text \<open>A result that stands on Evidence in the store and on a verdict of SUPPORT.\<close>

definition result_ok :: "course_env \<Rightarrow> verified_evidence list \<Rightarrow> candidate_result \<Rightarrow> bool" where
  "result_ok env evidence r \<longleftrightarrow> (case r of ReadFailed _ _ \<Rightarrow> True
     | PageVerified c url e b reason \<Rightarrow> e \<in> set (map ve_id evidence)
         \<and> (\<exists>g d. support_of (ce_verifier env) g d = (b, reason) \<and> url = trim (pd_source_url d)))"

definition unread :: "agent_mission \<Rightarrow> bool" where
  "unread m \<longleftrightarrow> am_results m = None \<and> am_seal m = None"

definition mission_ok :: "course_env \<Rightarrow> verified_evidence list \<Rightarrow> agent_mission \<Rightarrow> bool" where
  "mission_ok env evidence m \<longleftrightarrow> attempt_of m \<le> MAX_ATTEMPTS
     \<and> list_all (result_ok env evidence) (or_nil (am_results m))
     \<and> list_all (\<lambda>a. list_all (result_ok env evidence) (pa_results a)) (am_prior m)
     \<and> (case am_status m of
          WaitingForAgent \<Rightarrow> unread m \<and> am_lease m = None \<and> am_expires m = None \<and> am_candidates m = None \<and> attempt_of m = 0
        | AgentQueued \<Rightarrow> unread m \<and> am_lease m = None \<and> am_expires m = None \<and> am_candidates m = None \<and> attempt_of m < MAX_ATTEMPTS
        | AgentRunning \<Rightarrow> unread m \<and> 1 \<le> attempt_of m
            \<and> (am_phase m = Some PhaseInvestigating \<and> am_lease m \<noteq> None \<and> am_expires m \<noteq> None \<and> am_candidates m = None
               \<or> am_phase m = Some PhaseVerifying \<and> am_lease m = None \<and> am_expires m = None \<and> or_nil (am_candidates m) \<noteq> [] \<and> am_digest m \<noteq> None)
        | AgentCompleted \<Rightarrow> am_lease m = None
            \<and> (unread m \<and> am_phase m = None \<and> am_candidates m = None
               \<or> am_phase m = Some PhaseForged \<and> list_ex result_supported (or_nil (am_results m)) \<and> am_seal m \<noteq> None)
        | AgentFailed \<Rightarrow> am_lease m = None \<and> \<not> list_ex result_supported (or_nil (am_results m))
            \<and> (unread m \<and> am_candidates m = None \<and> attempt_of m = MAX_ATTEMPTS \<or> am_results m \<noteq> None \<and> am_seal m \<noteq> None))"

definition store_ok :: "course_env \<Rightarrow> knowledge \<Rightarrow> bool" where
  "store_ok env k \<longleftrightarrow> distinct (map am_id (kn_missions k)) \<and> distinct (map ve_id (kn_evidence k))
     \<and> list_all (mission_ok env (kn_evidence k)) (kn_missions k)
     \<and> list_all (\<lambda>x. op_supported x \<longrightarrow> op_reason x = Some SupportedPage) (kn_opportunities k)"

lemma index_where_Some: "index_where P xs = Some n \<Longrightarrow> n < length xs \<and> P (xs ! n)"
  by (induction xs arbitrary: n) (auto split: if_splits)

lemma index_where_None: "index_where P xs = None \<longleftrightarrow> (\<forall>x\<in>set xs. \<not> P x)"
  by (induction xs) auto

lemma index_where_first: "index_where P xs = Some n \<Longrightarrow> j < n \<Longrightarrow> \<not> P (xs ! j)"
  by (induction xs arbitrary: n j) (auto split: if_splits simp: nth_Cons')

lemma result_ok_mono: "result_ok env ev r \<Longrightarrow> set ev \<subseteq> set ev' \<Longrightarrow> result_ok env ev' r"
  by (auto simp: result_ok_def split: candidate_result.splits)

lemma mission_ok_mono: "mission_ok env ev m \<Longrightarrow> set ev \<subseteq> set ev' \<Longrightarrow> mission_ok env ev' m"
  unfolding mission_ok_def using result_ok_mono by (fastforce simp: list_all_iff)

text \<open>One mission is replaced by a well-formed one with the same id.\<close>

lemma store_ok_update:
  assumes "store_ok env k" "n < length (kn_missions k)" "am_id m = am_id (kn_missions k ! n)" "mission_ok env (kn_evidence k) m"
  shows "store_ok env (k\<lparr>kn_missions := (kn_missions k)[n := m]\<rparr>)"
proof -
  have "map am_id ((kn_missions k)[n := m]) = map am_id (kn_missions k)"
    using assms(2,3) by (simp add: map_update) (metis list_update_id map_update nth_map)
  then show ?thesis using assms by (auto simp: store_ok_def list_all_iff dest: set_update_subset_insert[THEN subsetD])
qed

lemma store_ok_mission: "store_ok env k \<Longrightarrow> n < length (kn_missions k) \<Longrightarrow> mission_ok env (kn_evidence k) (kn_missions k ! n)"
  by (simp add: store_ok_def list_all_iff)

section \<open>Every step keeps the invariant\<close>

lemmas mission_fields = attempt_of_def unread_def

lemma mission_ok_irrelevant:
  "mission_ok env ev (m\<lparr>am_authorization := a\<rparr>) = mission_ok env ev m"
  "mission_ok env ev (m\<lparr>am_title := t, am_scope := s\<rparr>) = mission_ok env ev m"
  "mission_ok env ev (m\<lparr>am_read_block := b, am_limitation := l\<rparr>) = mission_ok env ev m"
  "mission_ok env ev (m\<lparr>am_block := b, am_limitation := l\<rparr>) = mission_ok env ev m"
  by (simp_all add: mission_ok_def mission_fields cong: agent_status.case_cong)

lemma new_mission_ok:
  "attempt = None \<or> attempt = Some 0 \<Longrightarrow> mission_ok env ev (new_mission mid gid agent cadence g is_ready now a attempt)"
  by (auto simp: mission_ok_def mission_fields new_mission_def MAX_ATTEMPTS_def)

lemma restart_ok: "mission_ok env ev (restartMission m g is_ready now a)"
  by (simp add: restartMission_def new_mission_ok)

lemma list_all_take: "list_all P xs \<Longrightarrow> list_all P (take n xs)"
  by (auto simp: list_all_iff dest: in_set_takeD)

lemma list_all_drop: "list_all P xs \<Longrightarrow> list_all P (drop n xs)"
  by (auto simp: list_all_iff dest: in_set_dropD)

lemma search_more_ok:
  assumes "mission_ok env ev m"
  shows "mission_ok env ev (searchMoreMission m g is_ready now a)"
proof -
  have "list_all (result_ok env ev) (pa_results (archivedAttempt m))"
    using assms by (simp add: mission_ok_def archivedAttempt_def list_all_take)
  then have "list_all (\<lambda>p. list_all (result_ok env ev) (pa_results p)) (last_n MAX_PRIOR_ATTEMPTS (am_prior m @ [archivedAttempt m]))"
    using assms unfolding last_n_def by (intro list_all_drop) (simp add: mission_ok_def)
  moreover have "mission_ok env ev (restartMission m g is_ready now a)" by (rule restart_ok)
  ultimately show ?thesis
    by (simp add: searchMoreMission_def Let_def mission_ok_def mission_fields cong: agent_status.case_cong)
qed

lemma replaced_ids: "am_id (restartMission x g r t a) = am_id x" "am_id (searchMoreMission x g r t a) = am_id x"
  by (simp_all add: searchMoreMission_def restartMission_def new_mission_def Let_def)

lemma place_store_ok:
  assumes "store_ok env k" "place_mission digest show_time ready now gid agent cadence more_search actor k = Inr (m, k')"
  shows "store_ok env k'"
proof -
  let ?mid = "mission_id digest gid agent cadence"
  show ?thesis
  proof (cases "index_where (\<lambda>m. am_id m = ?mid) (kn_missions k)")
    case None
    then have "am_id x \<noteq> ?mid" if "x \<in> set (kn_missions k)" for x using that by (simp add: index_where_None)
    moreover have "am_id (new_mission ?mid gid agent cadence g r t a n) = ?mid" for g r t a n by (simp add: new_mission_def)
    ultimately show ?thesis
      using assms None new_mission_ok by (fastforce simp: place_mission_def rbind_Inr_iff Let_def store_ok_def split: option.splits)
  next
    case (Some n)
    note n = index_where_Some[OF Some]
    note up = store_ok_update[OF assms(1) n[THEN conjunct1]]
    note ok = store_ok_mission[OF assms(1) n[THEN conjunct1]]
    show ?thesis
      using assms Some ok
      by (auto simp: place_mission_def Let_def rbind_Inr_iff mission_ok_irrelevant replaced_ids
          intro!: up restart_ok search_more_ok split: option.splits if_splits)
  qed
qed

lemma create_store_ok:
  "store_ok env k \<Longrightarrow> create_mission digest show_time ready now gid i actor k = Inr (m, k') \<Longrightarrow> store_ok env k'"
  by (auto simp: create_mission_def Let_def rbind_Inr_iff intro: place_store_ok)

lemma reconcile_id: "am_id (reconcileMission ready now m) = am_id m"
  by (simp add: reconcileMission_def settleStrandedVerification_def settleVerificationWithoutFind_def reconcileExpiredMission_def Let_def)

lemma ok_not_stranded: "mission_ok env ev m \<Longrightarrow> \<not> stranded now m"
  by (auto simp: mission_ok_def stranded_def unread_def)

lemma reconcile_ok: "mission_ok env ev m \<Longrightarrow> mission_ok env ev (reconcileMission ready now m)"
  using ok_not_stranded[of env ev m now]
  by (cases "am_status m")
    (auto simp: reconcileMission_def reconcileExpiredMission_def Let_def mission_ok_def mission_fields MAX_ATTEMPTS_def split: option.splits)

lemma list_store_ok: "store_ok env k \<Longrightarrow> list_missions ready now k = (shown, k') \<Longrightarrow> store_ok env k'"
  by (auto simp: list_missions_def Let_def store_ok_def list_all_iff reconcile_ok comp_def reconcile_id)

lemma claim_store_ok:
  assumes "store_ok env k" "claim_mission gate lease_ms lease now agent only k = (answer, k')"
  shows "store_ok env k'"
proof (cases "index_where (\<lambda>m. am_agent m = agent \<and> (case only of None \<Rightarrow> True | Some i \<Rightarrow> am_id m = i) \<and> isClaimable now m) (kn_missions k)")
  case (Some n)
  note n = index_where_Some[OF Some]
  note up = store_ok_update[OF assms(1) n[THEN conjunct1]]
  note ok = store_ok_mission[OF assms(1) n[THEN conjunct1]]
  let ?m = "kn_missions k ! n"
  have "mission_ok env (kn_evidence k) (?m\<lparr>am_status := AgentRunning, am_phase := Some PhaseInvestigating, am_attempt := Some (attempt_of ?m + 1),
      am_claimed := Some now, am_expires := Some (now + lease_ms), am_lease := Some lease, am_limitation := DiscoveryOnly, am_block := None\<rparr>)"
    if "\<not> attempt_of ?m + 1 > MAX_ATTEMPTS"
    using ok n that by (auto simp: mission_ok_def mission_fields isClaimable_def split: option.splits)
  then show ?thesis
    using assms Some ok by (auto simp: claim_mission_def Let_def mission_ok_irrelevant intro!: up split: option.splits if_splits sum.splits)
qed (use assms in \<open>simp add: claim_mission_def\<close>)

lemma fail_store_ok:
  assumes "store_ok env k" "fail_mission now mid lease0 reason0 k = Inr (m, k')"
  shows "store_ok env k'"
proof (cases "index_where (\<lambda>m. am_id m = mid) (kn_missions k)")
  case (Some n)
  note n = index_where_Some[OF Some]
  note ok = store_ok_mission[OF assms(1) n[THEN conjunct1]]
  show ?thesis
    using assms Some ok
    by (auto simp: fail_mission_def rbind_Inr_iff Let_def lease_lost_def mission_ok_def mission_fields MAX_ATTEMPTS_def
        intro!: store_ok_update[OF assms(1) n[THEN conjunct1]] split: option.splits if_splits)
qed (use assms in \<open>auto simp: fail_mission_def rbind_Inr_iff\<close>)

lemma record_store_ok:
  assumes "store_ok env k" "recordSearchCandidates digest sha now mid lease0 findings submitted telemetry k = Inr (m, k')"
  shows "store_ok env k'"
proof (cases "index_where (\<lambda>m. am_id m = mid) (kn_missions k)")
  case (Some n)
  note n = index_where_Some[OF Some]
  note ok = store_ok_mission[OF assms(1) n[THEN conjunct1]]
  show ?thesis
    using assms Some ok
    by (auto simp: recordSearchCandidates_def rbind_Inr_iff Let_def lease_lost_def mission_ok_def mission_fields
        intro!: store_ok_update[OF assms(1) n[THEN conjunct1]] split: option.splits if_splits sum.splits)
qed (use assms in \<open>cases findings; auto simp: recordSearchCandidates_def rbind_Inr_iff Let_def\<close>)

lemma block_store_ok:
  assumes "store_ok env k" "recordBlock mid expected reason k = Inr (m, k')"
  shows "store_ok env k'"
proof (cases "index_where (\<lambda>m. am_id m = mid) (kn_missions k)")
  case (Some n)
  note n = index_where_Some[OF Some]
  show ?thesis
    using assms Some store_ok_mission[OF assms(1) n[THEN conjunct1]]
    by (auto simp: recordBlock_def rbind_Inr_iff Let_def mission_ok_irrelevant
        intro!: store_ok_update[OF assms(1) n[THEN conjunct1]] split: if_splits)
qed (use assms in \<open>auto simp: recordBlock_def\<close>)

text \<open>Finds that claim SUPPORT name it as their reason.\<close>

definition finds_ok :: "knowledge \<Rightarrow> bool" where
  "finds_ok k \<longleftrightarrow> list_all (\<lambda>x. op_supported x \<longrightarrow> op_reason x = Some SupportedPage) (kn_opportunities k)"

lemma store_ok_finds: "store_ok env k \<longleftrightarrow> distinct (map am_id (kn_missions k)) \<and> distinct (map ve_id (kn_evidence k))
    \<and> list_all (mission_ok env (kn_evidence k)) (kn_missions k) \<and> finds_ok k"
  by (simp add: store_ok_def finds_ok_def)

lemma projectClassified_find:
  assumes "projectClassified found e k = (x, k')"
  shows "kn_missions k' = kn_missions k \<and> kn_goals k' = kn_goals k \<and> kn_evidence k' = kn_evidence k \<and> kn_cases k' = kn_cases k
    \<and> (finds_ok k \<and> \<not> op_supported found \<longrightarrow> finds_ok k')"
  using assms by (auto simp: projectClassified_def finds_ok_def split: option.splits)

lemma support_reasoned: "support_of env g d = (b, reason) \<Longrightarrow> b = (reason = SupportedPage)"
  by (auto simp: support_of_def evidenceSupportsGoal_def explainEvidenceSupport_def Let_def support_against_spec(2))

definition grown :: "knowledge \<Rightarrow> knowledge \<Rightarrow> bool" where
  "grown k k' \<longleftrightarrow> kn_missions k' = kn_missions k \<and> kn_goals k' = kn_goals k \<and> prefix (kn_evidence k) (kn_evidence k')
     \<and> prefix (kn_cases k) (kn_cases k') \<and> (distinct (map ve_id (kn_evidence k)) \<longrightarrow> distinct (map ve_id (kn_evidence k')))
     \<and> (finds_ok k \<longrightarrow> finds_ok k')"

lemma grown_refl: "grown k k" and grown_trans: "grown k k1 \<Longrightarrow> grown k1 k2 \<Longrightarrow> grown k k2"
  by (auto simp: grown_def intro: prefix_order.trans)

lemma projectVerifiedDocument_grown:
  assumes "projectVerifiedDocument parse_url canonical label sha host_path m c d promote reason k = Inr (p, k')"
    and "promote \<longleftrightarrow> reason = SupportedPage"
  shows "grown k k' \<and> pp_evidence p \<in> set (map ve_id (kn_evidence k')) \<and> pp_source_url p = trim (pd_source_url d)
    \<and> (pp_opportunity p = None \<longleftrightarrow> \<not> promote)"
proof -
  let ?suffix = "verified_suffix sha (am_id m) (sc_id c)"
  define case_id where "case_id = ''case:verified:'' @ ?suffix"
  define eid where "eid = ''evidence:verified:'' @ ?suffix"
  define page where "page = document_context host_path d"
  define e where "e = \<lparr>ve_id = eid, ve_case = case_id, ve_source_url = pc_url page, ve_text = trim (pd_text d),
            ve_summary = or_else_text (take 240 (trim (pd_title d))) (or_else_text (take 500 (pc_text page)) (pc_title page)), ve_captured = pd_fetched d,
            ve_mission = am_id m, ve_candidate = sc_id c\<rparr>"
  define k1 where "k1 = (if list_ex (\<lambda>e. ve_id e = eid) (kn_evidence k) then k
    else k\<lparr>kn_cases := kn_cases k @ [(case_id, pc_title page)], kn_evidence := kn_evidence k @ [e]\<rparr>)"
  have k1: "grown k k1" "eid \<in> set (map ve_id (kn_evidence k1))"
    by (auto simp: k1_def grown_def finds_ok_def list_ex_iff e_def intro: rev_image_eqI)
  have url: "pc_url page = trim (pd_source_url d)" by (simp add: page_def document_context_def Let_def)
  show ?thesis
  proof (cases promote)
    case False
    then show ?thesis
      using assms(1) k1 url unfolding projectVerifiedDocument_def Let_def case_id_def[symmetric] eid_def[symmetric] page_def[symmetric] e_def[symmetric] k1_def[symmetric] by auto
  next
    case True
    obtain found k2 where f: "projectSupportedInto parse_url canonical label sha page case_id eid (ms_categories (am_scope m)) k1 = Inr (found, k2)"
      and p: "pp_evidence p = eid" "pp_source_url p = pc_url page" "pp_opportunity p \<noteq> None"
      and k': "k' = k2\<lparr>kn_opportunities := map (\<lambda>x. if op_id x = op_id found then found\<lparr>op_supported := True, op_reason := Some reason\<rparr> else x)
          (kn_opportunities k2)\<rparr>"
      using assms(1) True unfolding projectVerifiedDocument_def Let_def case_id_def[symmetric] eid_def[symmetric] page_def[symmetric] e_def[symmetric] k1_def[symmetric]
      by (auto simp: rbind_Inr_iff)
    obtain new where "projectClassified new eid k1 = (found, k2)" "\<not> op_supported new"
      using f by (auto simp: projectSupportedInto_def rbind_Inr_iff)
    note k2 = projectClassified_find[OF this(1)] this(2)
    have "grown k1 k'"
      using k2 assms(2) True by (auto simp: grown_def k' finds_ok_def list_all_iff)
    moreover have "kn_evidence k' = kn_evidence k1" using k2 k' by simp
    ultimately show ?thesis using k1 p url True grown_trans by simp
  qed
qed

lemma project_outcomes_grown:
  "project_outcomes (ce_verifier env) g m rs k = Inr ((results, pages), k') \<Longrightarrow>
     grown k k' \<and> list_all (result_ok env (kn_evidence k')) results
     \<and> map result_candidate results = map (sc_id \<circ> outcome_candidate) rs
     \<and> length (filter (\<lambda>p. pp_opportunity p \<noteq> None) pages) = length (filter result_supported results)
     \<and> length pages = length (filter result_verified results)"
proof (induction rs arbitrary: k results pages)
  case Nil
  then show ?case by (simp add: grown_refl)
next
  case (Cons r rs)
  show ?case
  proof (cases r)
    case (ReadBad c reason)
    then show ?thesis
      using Cons.prems by (auto simp: rbind_Inr_iff result_ok_def result_candidate_def outcome_candidate_def result_supported_def result_verified_def
          dest!: Cons.IH split: prod.splits)
  next
    case (ReadOk c d)
    define live where "live = (case List.find (\<lambda>g. stored_id g = am_goal m) (kn_goals k) of None \<Rightarrow> g | Some x \<Rightarrow> x)"
    obtain b reason where sup: "support_of (ce_verifier env) live d = (b, reason)" by fastforce
    from Cons.prems obtain p k1 rest pages' where
      p: "projectVerifiedDocument (vv_parse_url (ce_verifier env)) (vv_canonical (ce_verifier env)) (vv_label (ce_verifier env))
          (vv_sha (ce_verifier env)) (vv_host_path (ce_verifier env)) m c d b reason k = Inr (p, k1)"
      and rest: "project_outcomes (ce_verifier env) g m rs k1 = Inr ((rest, pages'), k')"
      and res: "results = PageVerified (sc_id c) (pp_source_url p) (pp_evidence p) b reason # rest" "pages = p # pages'"
      by (auto simp: ReadOk Let_def live_def[symmetric] sup rbind_Inr_iff)
    note grown1 = projectVerifiedDocument_grown[OF p support_reasoned[OF sup]]
    note tail = Cons.IH[OF rest]
    have "set (kn_evidence k1) \<subseteq> set (kn_evidence k')" using tail by (auto simp: grown_def dest: set_mono_prefix)
    then have "result_ok env (kn_evidence k') (hd results)"
      using grown1 sup by (auto simp: res result_ok_def)
    then show ?thesis
      using tail grown1 grown_trans
      by (auto simp: res ReadOk result_candidate_def outcome_candidate_def result_supported_def result_verified_def)
  qed
qed

lemma settled_ok:
  assumes "mission_ok env ev0 m" "verifying m" "set ev0 \<subseteq> set ev" "list_all (result_ok env ev) results"
  shows "mission_ok env ev ((if list_ex result_supported results
      then m\<lparr>am_status := AgentCompleted, am_phase := Some PhaseForged, am_completed := Some now, am_forged := Some now, am_limitation := ReadCompleted\<rparr>
      else settleVerificationWithoutFind m results now)\<lparr>am_results := Some results, am_seal := Some seal, am_candidates := cs, am_summary := sm, am_read_block := None\<rparr>)"
    and "\<not> list_ex result_supported results \<Longrightarrow> mission_ok env ev ((settleVerificationWithoutFind m results now)
      \<lparr>am_results := Some results, am_seal := Some seal, am_candidates := cs, am_summary := sm\<rparr>)"
  using mission_ok_mono[OF assms(1,3)] assms(2,4)
  by (auto simp: mission_ok_def mission_fields verifying_def settleVerificationWithoutFind_def Let_def)

lemma same_batch: "requireSameCandidateBatch expected m = Inr () \<Longrightarrow> verifying m \<and> am_digest m = am_digest expected"
  by (auto simp: requireSameCandidateBatch_def rbind_Inr_iff)

lemma verify_store_ok:
  assumes "store_ok env k" "verify_outcomes (ce_verifier env) now mid fresh outcomes g k = Inr (m, k')"
  shows "store_ok env k'"
proof (cases "index_where (\<lambda>m. am_id m = mid) (kn_missions k)")
  case None
  then show ?thesis using assms by (auto simp: verify_outcomes_def projectVerified_def recordFailures_def split: if_splits)
next
  case (Some n)
  note n = index_where_Some[OF Some]
  let ?c = "kn_missions k ! n"
  have ok: "mission_ok env (kn_evidence k) ?c" using store_ok_mission[OF assms(1)] n by blast
  show ?thesis
  proof (cases "list_ex (\<lambda>r. case r of ReadOk _ _ \<Rightarrow> True | ReadBad _ _ \<Rightarrow> False) outcomes")
    case False
    define results where "results = map (\<lambda>r. ReadFailed (sc_id (outcome_candidate r)) (case r of ReadBad _ reason \<Rightarrow> reason | ReadOk _ _ \<Rightarrow> [])) outcomes"
    have "list_all (result_ok env (kn_evidence k)) results" "\<not> list_ex result_supported results"
      by (auto simp: results_def list_all_iff list_ex_iff result_ok_def result_supported_def)
    then show ?thesis
      using assms False Some ok settled_ok(2)[OF ok _ order_refl] same_batch
      by (auto simp: verify_outcomes_def recordFailures_def rbind_Inr_iff Let_def results_def[symmetric] settleVerificationWithoutFind_def
          intro!: store_ok_update[OF assms(1) n[THEN conjunct1]])
  next
    case True
    show ?thesis
    proof (cases "isSettledVerification ?c")
      case True
      with assms \<open>list_ex _ outcomes\<close> Some show ?thesis by (simp add: verify_outcomes_def projectVerified_def)
    next
      case False
      from assms(2) True Some False obtain results pages k1 cs sm seal where batch: "requireSameCandidateBatch fresh ?c = Inr ()"
        and out: "project_outcomes (ce_verifier env) g ?c outcomes k = Inr ((results, pages), k1)"
        and k': "k' = k1\<lparr>kn_missions := (kn_missions k)[n := (if list_ex result_supported results
              then ?c\<lparr>am_status := AgentCompleted, am_phase := Some PhaseForged, am_completed := Some now, am_forged := Some now, am_limitation := ReadCompleted\<rparr>
              else settleVerificationWithoutFind ?c results now)\<lparr>am_results := Some results, am_seal := Some seal, am_candidates := cs, am_summary := sm, am_read_block := None\<rparr>]\<rparr>"
        unfolding verify_outcomes_def projectVerified_def Let_def by (auto simp: rbind_Inr_iff)
      note g1 = project_outcomes_grown[OF out]
      have "store_ok env k1"
        using assms(1) g1 mission_ok_mono[of env "kn_evidence k" _ "kn_evidence k1"]
        by (auto simp: store_ok_finds grown_def list_all_iff dest: set_mono_prefix)
      moreover have "kn_missions k1 = kn_missions k" using g1 by (simp add: grown_def)
      moreover have "set (kn_evidence k) \<subseteq> set (kn_evidence k1)" using g1 by (auto simp: grown_def dest: set_mono_prefix)
      ultimately show ?thesis
        using settled_ok(1)[OF ok same_batch[OF batch, THEN conjunct1]] g1 n store_ok_update[of env k1 n]
        unfolding k' by (simp add: settleVerificationWithoutFind_def Let_def)
    qed
  qed
qed

lemma goal_store_ok: "store_ok env k \<Longrightarrow> create_goal digest fold_case en now i k = Inr (g, k') \<Longrightarrow> store_ok env k'"
  by (auto simp: create_goal_def rbind_Inr_iff store_ok_def split: option.splits)

lemma rescope_ok:
  assumes "rescope_mission digest show_time actor now g m = Inr m'"
  shows "am_id m' = am_id m \<and> mission_ok env ev m' = mission_ok env ev m"
  using assms by (auto simp: rescope_mission_def rbind_Inr_iff mission_ok_irrelevant split: if_splits)

lemma rescoped_store_ok:
  assumes "store_ok env k" "map_res (rescope_mission digest show_time actor now g) (kn_missions k) = Inr ms"
  shows "store_ok env (k\<lparr>kn_goals := gs, kn_missions := ms\<rparr>)"
proof -
  have all: "list_all2 (\<lambda>m m'. rescope_mission digest show_time actor now g m = Inr m') (kn_missions k) ms"
    using assms(2) by (simp add: map_res_Inr_iff)
  then have "map am_id ms = map am_id (kn_missions k)"
    by (induction rule: list_all2_induct) (auto dest: rescope_ok)
  moreover have "list_all (mission_ok env (kn_evidence k)) ms"
    using all assms(1) unfolding store_ok_def
    by (auto simp: list_all_iff list_all2_conv_all_nth all_set_conv_all_nth rescope_ok)
  ultimately show ?thesis using assms(1) by (simp add: store_ok_def)
qed

lemma revise_store_ok:
  "store_ok env k \<Longrightarrow> revise_goal digest show_time fold_case en now gid i actor k = Inr (g, k') \<Longrightarrow> store_ok env k'"
  by (auto simp: revise_goal_def rbind_Inr_iff Let_def intro: rescoped_store_ok split: option.splits stored_goal.splits if_splits)

lemma capture_store_ok:
  "store_ok env k \<Longrightarrow> \<not> op_supported found \<Longrightarrow> projectClassified found e k = (x, k') \<Longrightarrow> store_ok env k'"
  by (auto simp: store_ok_finds dest: projectClassified_find)

lemma mission_step_ok: "mission_step env k k' \<Longrightarrow> store_ok env k \<Longrightarrow> store_ok env k'"
  by (induction rule: mission_step.induct)
    (blast intro: create_store_ok list_store_ok claim_store_ok fail_store_ok record_store_ok block_store_ok verify_store_ok
      goal_store_ok revise_store_ok capture_store_ok)+

lemma mission_steps_ok: "mission_steps env k k' \<Longrightarrow> store_ok env k \<Longrightarrow> store_ok env k'"
  by (induction rule: rtranclp_induct) (auto dest: mission_step_ok)

lemma no_knowledge_ok: "store_ok env no_knowledge"
  by (simp add: store_ok_def no_knowledge_def)

section \<open>The properties\<close>


text \<open>
  C9. The states of a mission. In every store that the calls can produce, mission ids are different, and each mission is
  as its status says: waiting or queued, without lease, candidates and results, and with attempts left; running, either
  under a lease with no candidates yet or, without lease, with a batch to be read; completed or failed, without lease,
  failed only after three attempts or with sealed results none of which is supported; never more than three attempts.
\<close>

theorem missions_well_formed:
  assumes "mission_steps env no_knowledge k"
  shows "distinct (map am_id (kn_missions k)) \<and> list_all (\<lambda>m. attempt_of m \<le> 3
     \<and> (case am_status m of
          WaitingForAgent \<Rightarrow> am_lease m = None \<and> am_candidates m = None \<and> am_results m = None \<and> attempt_of m = 0
        | AgentQueued \<Rightarrow> am_lease m = None \<and> am_candidates m = None \<and> am_results m = None \<and> attempt_of m < 3
        | AgentRunning \<Rightarrow> am_results m = None \<and> 1 \<le> attempt_of m
            \<and> (am_phase m = Some PhaseInvestigating \<and> am_lease m \<noteq> None \<and> am_expires m \<noteq> None \<and> am_candidates m = None
               \<or> am_phase m = Some PhaseVerifying \<and> am_lease m = None \<and> or_nil (am_candidates m) \<noteq> [])
        | AgentCompleted \<Rightarrow> am_lease m = None
        | AgentFailed \<Rightarrow> am_lease m = None \<and> \<not> list_ex result_supported (or_nil (am_results m))
            \<and> (attempt_of m = 3 \<and> am_results m = None \<or> am_results m \<noteq> None \<and> am_seal m \<noteq> None))) (kn_missions k)"
proof -
  have "store_ok env k" by (rule mission_steps_ok[OF assms no_knowledge_ok])
  then show ?thesis
    unfolding store_ok_def by (fastforce simp: list_all_iff mission_ok_def unread_def MAX_ATTEMPTS_def split: agent_status.splits)
qed

text \<open>What steps do to the Evidence: nothing that is in the store is changed or removed.\<close>

lemma place_evidence:
  "place_mission digest show_time ready now gid agent cadence b actor k = Inr (m, k') \<Longrightarrow> kn_evidence k' = kn_evidence k"
  by (auto simp: place_mission_def Let_def rbind_Inr_iff split: option.splits if_split_asm)

lemma list_evidence: "list_missions ready now k = (shown, k') \<Longrightarrow> kn_evidence k' = kn_evidence k"
  by (auto simp: list_missions_def Let_def)

lemma fail_evidence: "fail_mission now mid lease reason k = Inr (m, k') \<Longrightarrow> kn_evidence k' = kn_evidence k"
  by (cases "index_where (\<lambda>m. am_id m = mid) (kn_missions k)") (auto simp: fail_mission_def Let_def rbind_Inr_iff split: if_split_asm)

lemma block_evidence: "recordBlock mid expected denial k = Inr (m, k') \<Longrightarrow> kn_evidence k' = kn_evidence k"
  by (auto simp: recordBlock_def Let_def rbind_Inr_iff split: option.splits if_split_asm)

lemma goal_evidence: "create_goal digest fold_case en now gi k = Inr (g, k') \<Longrightarrow> kn_evidence k' = kn_evidence k"
  by (auto simp: create_goal_def rbind_Inr_iff split: option.splits)

lemmas kept_evidence = place_evidence list_evidence fail_evidence block_evidence goal_evidence

lemma claim_evidence: "claim_mission gate lease_ms lease now agent only k = (answer, k') \<Longrightarrow> kn_evidence k' = kn_evidence k"
  by (auto simp: claim_mission_def Let_def split: option.splits if_splits)

lemma record_evidence:
  "recordSearchCandidates digest sha now mid lease0 findings submitted telemetry k = Inr (m, k') \<Longrightarrow> kn_evidence k' = kn_evidence k"
  by (cases findings; cases "index_where (\<lambda>m. am_id m = mid) (kn_missions k)")
    (auto simp: recordSearchCandidates_def Let_def rbind_Inr_iff split: if_split_asm)

lemma revise_evidence:
  "revise_goal digest show_time fold_case en now gid ri actor k = Inr (l, k') \<Longrightarrow> kn_evidence k' = kn_evidence k"
  by (auto simp: revise_goal_def Let_def rbind_Inr_iff split: option.splits if_splits stored_goal.splits)

lemma outcomes_evidence: "project_outcomes (ce_verifier (env :: course_env)) g m rs k = Inr (x, k') \<Longrightarrow> prefix (kn_evidence k) (kn_evidence k')"
  by (cases x) (auto simp: grown_def dest: project_outcomes_grown)

lemma verify_evidence:
  assumes "verify_outcomes (ce_verifier (env :: course_env)) now mid fresh outcomes g k = Inr (m, k')"
  shows "prefix (kn_evidence k) (kn_evidence k')"
  using assms unfolding verify_outcomes_def projectVerified_def recordFailures_def
  by (auto simp: rbind_Inr_iff Let_def dest: outcomes_evidence split: option.splits if_split_asm)

lemma step_evidence: "mission_step env k k' \<Longrightarrow> prefix (kn_evidence k) (kn_evidence k')"
proof (induction rule: mission_step.induct)
  case (step_create ready now gid i actor k m k')
  then show ?case by (auto simp: create_mission_def rbind_Inr_iff Let_def dest: kept_evidence)
next
  case (step_verify outcomes initial fresh now mid g k m k')
  then show ?case by (blast intro: verify_evidence)
next
  case (step_capture found k x k')
  then show ?case by (auto dest: projectClassified_find)
qed (simp_all add: kept_evidence claim_evidence record_evidence revise_evidence)


section \<open>A run\<close>

definition run_env :: course_env where
  "run_env = \<lparr>ce_digest = (\<lambda>_. ''d1''), ce_show_time = (\<lambda>_. ''2026''), ce_fold_case = ascii_lower,
     ce_enrich = \<lparr>en_infer = (\<lambda>_. []), en_numbers = (\<lambda>_. []), en_nfd = ascii_lower\<rparr>,
     ce_verifier = \<lparr>vv_parse_url = sample_url, vv_canonical = (\<lambda>_. True), vv_label = (\<lambda>_ _. ''goal''), vv_sha = (\<lambda>s. s), vv_host_path = (\<lambda>u. u),
       vv_fold = ascii_lower, vv_path = (\<lambda>_. None)\<rparr>,
     ce_gate = None, ce_lease_ms = 1000\<rparr>"

definition run_page :: page_document where
  "run_page = \<lparr>pd_source_url = ''https://a.example/?q=1'', pd_title = ''Rust'', pd_text = ''Rust ownership'', pd_fetched = ''2026'', pd_type = ''text/html'',
     pd_status = Fin 200\<rparr>"

definition run_local :: local_goal where
  "run_local = \<lparr>lg_id = ''goal:d1'', lg_title = ''rust ownership'', lg_categories = [], lg_keywords = [''rust''], lg_location = None, lg_priority = 2,
     lg_active = True, lg_created = 0, lg_revision = None, lg_revised = None, lg_history = []\<rparr>"

definition run_goal :: knowledge where
  "run_goal = no_knowledge\<lparr>kn_goals := [LocalGoal run_local]\<rparr>"

definition run_queued :: agent_mission where
  "run_queued = new_mission ''mission:d1'' ''goal:d1'' ''hermes'' ''manual'' (LocalGoal run_local) True 1 None None"

definition run_mission :: knowledge where
  "run_mission = run_goal\<lparr>kn_missions := [run_queued]\<rparr>"

definition run_leased :: agent_mission where
  "run_leased = run_queued\<lparr>am_status := AgentRunning, am_phase := Some PhaseInvestigating, am_attempt := Some 1, am_claimed := Some 2,
     am_expires := Some 1002, am_lease := Some ''L'', am_limitation := DiscoveryOnly\<rparr>"

definition run_claimed :: knowledge where
  "run_claimed = run_goal\<lparr>kn_missions := [run_leased]\<rparr>"

definition run_candidate :: search_candidate where
  "run_candidate = \<lparr>sc_id = candidate_id (\<lambda>s. s) ''mission:d1'' (nc_url sample_candidate), sc_page = sample_candidate, sc_result = None\<rparr>"

definition run_fresh :: agent_mission where
  "run_fresh = run_leased\<lparr>am_phase := Some PhaseVerifying, am_expires := None, am_lease := None, am_verifying := Some 3,
     am_candidates := Some [run_candidate], am_digest := Some ''d1'', am_limitation := CandidatesAwaitRead,
     am_summary := Some \<lparr>rs_received = 1, rs_evidence = 0, rs_promoted = 0\<rparr>\<rparr>"

definition run_recorded :: knowledge where
  "run_recorded = run_goal\<lparr>kn_missions := [run_fresh]\<rparr>"

definition run_outcomes :: "read_outcome list" where
  "run_outcomes = [ReadOk run_candidate run_page]"

definition run_read :: "projected_page \<times> knowledge" where
  "run_read = projr (projectVerifiedDocument (vv_parse_url (ce_verifier run_env)) (vv_canonical (ce_verifier run_env)) (vv_label (ce_verifier run_env))
     (vv_sha (ce_verifier run_env)) (vv_host_path (ce_verifier run_env)) run_fresh run_candidate run_page True SupportedPage run_recorded)"

definition run_done :: knowledge where
  "run_done = snd (projr (verify_outcomes (ce_verifier run_env) 4 ''mission:d1'' run_fresh run_outcomes (LocalGoal run_local) run_recorded))"

lemma projr_step: "case x of Inl _ \<Rightarrow> False | Inr _ \<Rightarrow> True \<Longrightarrow> x = Inr (fst (projr x), snd (projr x))"
  by (cases x) auto

lemma run_created:
  "create_goal (ce_digest run_env) (ce_fold_case run_env) (ce_enrich run_env) 0
     \<lparr>ci_title = ''rust ownership'', ci_categories = None, ci_keywords = Some [''rust''], ci_location = None, ci_priority = None\<rparr> no_knowledge
   = Inr (LocalGoal run_local, run_goal)"
  by code_simp

lemma run_placed:
  "create_mission (ce_digest run_env) (ce_show_time run_env) (\<lambda>_. True) 1 ''goal:d1''
     \<lparr>mi_confirmed = True, mi_agent = None, mi_cadence = None, mi_mode = None\<rparr> None run_goal = Inr (run_queued, run_mission)"
  by code_simp

lemma run_taken: "claim_mission (ce_gate run_env) (ce_lease_ms run_env) ''L'' 2 ''hermes'' None run_mission = (Some run_leased, run_claimed)"
  by code_simp

lemma run_brought:
  "recordSearchCandidates (ce_digest run_env) (vv_sha (ce_verifier run_env)) 3 ''mission:d1'' ''L'' (Inr [sample_candidate]) 1 None run_claimed
   = Inr (run_fresh, run_recorded)"
  by code_simp

lemma run_document:
  "projectVerifiedDocument (vv_parse_url (ce_verifier run_env)) (vv_canonical (ce_verifier run_env)) (vv_label (ce_verifier run_env))
     (vv_sha (ce_verifier run_env)) (vv_host_path (ce_verifier run_env)) run_fresh run_candidate run_page True SupportedPage run_recorded = Inr run_read"
proof -
  have "case projectVerifiedDocument (vv_parse_url (ce_verifier run_env)) (vv_canonical (ce_verifier run_env)) (vv_label (ce_verifier run_env))
     (vv_sha (ce_verifier run_env)) (vv_host_path (ce_verifier run_env)) run_fresh run_candidate run_page True SupportedPage run_recorded of Inl _ \<Rightarrow> False | Inr _ \<Rightarrow> True"
    by code_simp
  from projr_step[OF this] show ?thesis unfolding run_read_def by simp
qed

lemma run_support: "support_of (ce_verifier run_env) (LocalGoal run_local) run_page = (True, SupportedPage)"
  by code_simp

lemma run_live: "List.find (\<lambda>g. stored_id g = am_goal run_fresh) (kn_goals run_recorded) = Some (LocalGoal run_local)"
  by code_simp

lemma run_outcome:
  "project_outcomes (ce_verifier run_env) (LocalGoal run_local) run_fresh run_outcomes run_recorded
   = Inr (([PageVerified (sc_id run_candidate) (pp_source_url (fst run_read)) (pp_evidence (fst run_read)) True SupportedPage], [fst run_read]), snd run_read)"
  by (simp add: run_outcomes_def run_live run_support run_document Let_def case_prod_beta)

lemma run_batch: "requireSameCandidateBatch run_fresh run_fresh = Inr ()" "\<not> isSettledVerification run_fresh"
    "index_where (\<lambda>m. am_id m = ''mission:d1'') (kn_missions run_recorded) = Some 0" "kn_missions run_recorded ! 0 = run_fresh"
  by code_simp+

lemma run_verify:
  "\<exists>m. verify_outcomes (ce_verifier run_env) 4 ''mission:d1'' run_fresh run_outcomes (LocalGoal run_local) run_recorded = Inr (m, run_done)
     \<and> kn_missions run_done = [m] \<and> am_status m = AgentCompleted \<and> am_results m \<noteq> None \<and> kn_evidence run_done = kn_evidence (snd run_read)"
  unfolding run_done_def verify_outcomes_def projectVerified_def
  by (simp add: run_batch run_outcome Let_def result_supported_def run_outcomes_def[THEN arg_cong[where f = "list_ex Q" for Q]]) (simp add: run_recorded_def)

lemma run_claims: "mission_steps run_env no_knowledge run_recorded"
proof -
  have "mission_step run_env no_knowledge run_goal" by (rule step_goal[OF run_created])
  moreover have "mission_step run_env run_goal run_mission" by (rule step_create[OF run_placed])
  moreover have "mission_step run_env run_mission run_claimed" by (rule step_claim[OF run_taken])
  moreover have "mission_step run_env run_claimed run_recorded" by (rule step_record[OF run_brought])
  ultimately show ?thesis by (meson rtranclp.rtrancl_into_rtrancl rtranclp.rtrancl_refl)
qed

lemma run_verified: "mission_step run_env run_recorded run_done"
proof -
  have "map outcome_candidate run_outcomes = or_nil (am_candidates run_fresh)" by code_simp
  moreover obtain m where "verify_outcomes (ce_verifier run_env) 4 ''mission:d1'' run_fresh run_outcomes (LocalGoal run_local) run_recorded = Inr (m, run_done)"
    using run_verify by blast
  ultimately show ?thesis using run_batch(1) step_verify by blast
qed

lemma run_reached: "mission_steps run_env no_knowledge run_done"
  using run_claims run_verified by (rule rtranclp.rtrancl_into_rtrancl)


theorem missions_well_formed_witness:
  "distinct (map am_id (kn_missions run_done)) \<and> am_lease (hd (kn_missions run_done)) = None"
proof -
  obtain m where "kn_missions run_done = [m]" "am_status m = AgentCompleted" using run_verify by blast
  with missions_well_formed[OF run_reached] show ?thesis by simp
qed


end
