(* ===== verification/Mission_Leases.thy ===== *)
theory Mission_Leases
  imports Mission_Course
begin

text \<open>
  What the calls of the mission store leave alone and what they bring about: an agent that holds a live lease is alone
  with its mission, a verification that may read settles its mission for good, a revision of a Goal touches only the missions
  that have not started, and a claim looks at the first claimable mission only.
\<close>

section \<open>The holder of a lease\<close>

text \<open>A mission that an agent works on.\<close>

definition leased :: "int \<Rightarrow> string \<Rightarrow> agent_mission \<Rightarrow> bool" where
  "leased now lease m \<longleftrightarrow> am_status m = AgentRunning \<and> am_lease m = Some lease \<and> (\<exists>t. am_expires m = Some t \<and> now < t)"

lemma reached_ok: "mission_steps env no_knowledge k \<Longrightarrow> store_ok env k"
  using mission_steps_ok no_knowledge_ok by blast

lemma index_where_id:
  assumes "distinct (map f xs)" "n < length xs"
  shows "index_where (\<lambda>x. f x = f (xs ! n)) xs = Some n"
proof (cases "index_where (\<lambda>x. f x = f (xs ! n)) xs")
  case None
  then show ?thesis using assms(2) by (auto simp: index_where_None)
next
  case (Some j)
  from index_where_Some[OF Some] assms have "j = n" by (metis distinct_conv_nth length_map nth_map)
  with Some show ?thesis by simp
qed

lemma leased_elsewhere: "leased now lease m \<Longrightarrow> lease' \<noteq> lease \<Longrightarrow> lease_lost lease' now m"
  by (auto simp: leased_def lease_lost_def)

lemma leased_investigating: "mission_ok env ev m \<Longrightarrow> leased now lease m \<Longrightarrow> am_phase m = Some PhaseInvestigating"
  by (auto simp: mission_ok_def leased_def)

lemma fail_needs_lease:
  assumes "distinct (map am_id (kn_missions k))" "n < length (kn_missions k)" "leased now lease (kn_missions k ! n)"
    and "clean_text_field 80 ''leaseId'' lease0 \<noteq> Inr lease"
  shows "\<exists>e. fail_mission now (am_id (kn_missions k ! n)) lease0 reason k = Inl e"
proof (cases "clean_text_field 80 ''leaseId'' lease0")
  case (Inr lease')
  then have "lease_lost lease' now (kn_missions k ! n)" using assms(3,4) leased_elsewhere by auto
  then show ?thesis
    by (cases "clean_text_field 500 ''reason'' reason") (simp_all add: fail_mission_def Inr Let_def index_where_id[OF assms(1,2)])
qed (simp add: fail_mission_def)

lemma record_needs_lease:
  assumes "store_ok env k" "n < length (kn_missions k)" "leased now lease (kn_missions k ! n)"
    and "clean_text_field 80 ''leaseId'' lease0 \<noteq> Inr lease"
  shows "\<exists>e. recordSearchCandidates digest sha now (am_id (kn_missions k ! n)) lease0 findings submitted telemetry k = Inl e"
proof (cases "clean_text_field 80 ''leaseId'' lease0")
  case (Inr lease')
  have d: "distinct (map am_id (kn_missions k))" using assms(1) by (simp add: store_ok_def)
  from Inr have "lease_lost lease' now (kn_missions k ! n)" using assms(3,4) leased_elsewhere by auto
  then show ?thesis
    using leased_investigating[OF store_ok_mission[OF assms(1,2)] assms(3)]
    by (cases findings) (simp_all add: recordSearchCandidates_def Inr Let_def index_where_id[OF d assms(2)])
qed (simp add: recordSearchCandidates_def)

lemma leased_untouched:
  assumes "leased now lease m"
  shows "\<not> isClaimable now m" "is_active now m" "reconcileMission ready now m = m" "\<not> stranded now m"
  using assms by (auto simp: leased_def isClaimable_def is_active_def reconcileMission_def reconcileExpiredMission_def stranded_def)

lemma claim_passes_over:
  assumes "claim_mission gate lease_ms lease now agent only k = (answer, k')" "n < length (kn_missions k)" "\<not> isClaimable now (kn_missions k ! n)"
  shows "kn_missions k' ! n = kn_missions k ! n"
proof (cases "index_where (\<lambda>m. am_agent m = agent \<and> (case only of None \<Rightarrow> True | Some i \<Rightarrow> am_id m = i) \<and> isClaimable now m) (kn_missions k)")
  case (Some j)
  then have "j \<noteq> n" using index_where_Some assms(3) by fastforce
  then show ?thesis using assms(1) Some by (auto simp: claim_mission_def Let_def split: option.splits if_splits sum.splits)
qed (use assms in \<open>simp add: claim_mission_def\<close>)

lemma place_passes_over:
  assumes "place_mission digest show_time ready now gid agent cadence more_search actor k = Inr (x, k')"
    and "n < length (kn_missions k)" "is_active now (kn_missions k ! n)"
  shows "\<exists>a. kn_missions k' ! n = (kn_missions k ! n)\<lparr>am_authorization := a\<rparr>"
proof -
  have same: "\<exists>a. m = m\<lparr>am_authorization := a\<rparr>" for m :: agent_mission by (rule exI[of _ "am_authorization m"]) simp
  show ?thesis
  proof (cases "index_where (\<lambda>m. am_id m = mission_id digest gid agent cadence) (kn_missions k)")
    case None
    then show ?thesis using assms same by (auto simp: place_mission_def Let_def rbind_Inr_iff nth_append split: option.splits)
  next
    case (Some j)
    then show ?thesis using assms same
      by (cases "j = n") (auto simp: place_mission_def Let_def rbind_Inr_iff split: option.splits if_splits)
  qed
qed

lemma create_passes_over:
  assumes "create_mission digest show_time ready now gid i actor k = Inr (x, k')"
    and "n < length (kn_missions k)" "is_active now (kn_missions k ! n)"
  shows "\<exists>a. kn_missions k' ! n = (kn_missions k ! n)\<lparr>am_authorization := a\<rparr>"
  using assms(1) place_passes_over[OF _ assms(2,3)] by (auto simp: create_mission_def Let_def rbind_Inr_iff)

lemma verify_needs_batch:
  assumes "store_ok env k" "n < length (kn_missions k)" "leased now lease (kn_missions k ! n)"
  shows "\<exists>e. verify_outcomes venv now' (am_id (kn_missions k ! n)) fresh outcomes g k = Inl e"
proof -
  have d: "distinct (map am_id (kn_missions k))" using assms(1) by (simp add: store_ok_def)
  note i = index_where_id[OF d assms(2)]
  have "\<not> verifying (kn_missions k ! n)" "\<not> isSettledVerification (kn_missions k ! n)"
    using assms(3) leased_investigating[OF store_ok_mission[OF assms(1,2)] assms(3)] by (auto simp: verifying_def isSettledVerification_def leased_def)
  then show ?thesis
    by (auto simp: verify_outcomes_def projectVerified_def recordFailures_def i Let_def requireSameCandidateBatch_def throw_if_def)
qed

lemma revise_needs_rest:
  assumes "n < length (kn_missions k)" "leased now lease (kn_missions k ! n)"
    and "revise_goal digest show_time fold_case en now (am_goal (kn_missions k ! n)) i actor k = Inr (g, k')"
  shows "k' = k"
proof -
  have "kn_missions k ! n \<in> set (filter (\<lambda>m. am_goal m = am_goal (kn_missions k ! n)) (kn_missions k))" using assms(1) by simp
  moreover have "am_status (kn_missions k ! n) = AgentRunning \<and> is_active now (kn_missions k ! n)"
    using assms(2) leased_untouched[OF assms(2)] by (simp add: leased_def)
  ultimately have "list_ex (\<lambda>m. am_status m = AgentRunning \<and> is_active now m)
      (filter (\<lambda>m. am_goal m = am_goal (kn_missions k ! n)) (kn_missions k))" unfolding list_ex_iff by blast
  then show ?thesis
    using assms(3) unfolding revise_goal_def by (auto simp: rbind_Inr_iff Let_def simp del: list_ex_iff list.simps split: option.splits stored_goal.splits if_splits)
qed

section \<open>The end of a verification\<close>

lemma find_index: "List.find P xs = map_option ((!) xs) (index_where P xs)"
  by (induction xs) (auto simp: option.map_comp comp_def)

lemma find_mission_at:
  assumes "distinct (map am_id (kn_missions k))" "n < length (kn_missions k)"
  shows "find_mission (am_id (kn_missions k ! n)) k = Inr (kn_missions k ! n)"
  by (simp add: find_mission_def find_index index_where_id[OF assms])

text \<open>A page that the checks of a page context accept.\<close>

definition page_accepted :: "verifier_env \<Rightarrow> page_document \<Rightarrow> bool" where
  "page_accepted env d \<longleftrightarrow> (case validatePageContext (vv_parse_url env) (vv_canonical env) (document_context (vv_host_path env) d) of Inl _ \<Rightarrow> False | Inr _ \<Rightarrow> True)"

definition outcome_supports :: "verifier_env \<Rightarrow> stored_goal \<Rightarrow> read_outcome \<Rightarrow> bool" where
  "outcome_supports env g r = (case r of ReadBad _ _ \<Rightarrow> False | ReadOk _ d \<Rightarrow> fst (support_of env g d))"

lemma outcome_supports_simps [simp]: "\<not> outcome_supports env g (ReadBad c e)" "outcome_supports env g (ReadOk c d) = fst (support_of env g d)"
  by (simp_all add: outcome_supports_def)

lemma result_supported_simps [simp]: "\<not> result_supported (ReadFailed c e)" "result_supported (PageVerified c u e b q) = b"
  by (simp_all add: result_supported_def)

lemma document_projected:
  assumes "page_accepted env d"
  shows "\<exists>y. projectVerifiedDocument (vv_parse_url env) (vv_canonical env) (vv_label env) (vv_sha env) (vv_host_path env) m c d promote reason k = Inr y"
proof -
  obtain v where v: "validatePageContext (vv_parse_url env) (vv_canonical env) (document_context (vv_host_path env) d) = Inr v"
    using assms by (auto simp: page_accepted_def split: sum.splits)
  show ?thesis
    by (cases promote) (simp_all only: projectVerifiedDocument_def projectSupportedInto_def v Let_def case_prod_beta rbind_simps if_True if_False
        not_True_eq_False not_False_eq_True sum.inject prod.inject simp_thms)
qed

lemma project_outcomes_total:
  assumes "\<forall>r\<in>set rs. case r of ReadBad _ _ \<Rightarrow> True | ReadOk _ d \<Rightarrow> page_accepted (ce_verifier (env :: course_env)) d"
    and "List.find (\<lambda>x. stored_id x = am_goal m) (kn_goals k) = Some g"
  shows "\<exists>results pages k'. project_outcomes (ce_verifier env) g0 m rs k = Inr ((results, pages), k')
    \<and> map result_supported results = map (outcome_supports (ce_verifier env) g) rs"
  using assms
proof (induction rs arbitrary: k)
  case (Cons r rs)
  show ?case
  proof (cases r)
    case (ReadBad c reason)
    obtain results pages k' where "project_outcomes (ce_verifier env) g0 m rs k = Inr ((results, pages), k')"
      "map result_supported results = map (outcome_supports (ce_verifier env) g) rs"
      using Cons.IH[of k] Cons.prems by auto
    then show ?thesis by (simp add: ReadBad)
  next
    case (ReadOk c d)
    obtain b reason where s: "support_of (ce_verifier env) g d = (b, reason)" by fastforce
    obtain p k1 where p: "projectVerifiedDocument (vv_parse_url (ce_verifier env)) (vv_canonical (ce_verifier env)) (vv_label (ce_verifier env))
        (vv_sha (ce_verifier env)) (vv_host_path (ce_verifier env)) m c d b reason k = Inr (p, k1)"
      using document_projected[of "ce_verifier env" d m c b reason k] Cons.prems(1) ReadOk by (metis list.set_intros(1) read_outcome.simps(5) surj_pair)
    have "kn_goals k1 = kn_goals k"
      using projectVerifiedDocument_grown[OF p support_reasoned[OF s]] by (simp add: grown_def)
    then obtain results pages k' where "project_outcomes (ce_verifier env) g0 m rs k1 = Inr ((results, pages), k')"
      "map result_supported results = map (outcome_supports (ce_verifier env) g) rs"
      using Cons.IH[of k1] Cons.prems by auto
    then show ?thesis using Cons.prems(2) p s by (simp add: ReadOk Let_def)
  qed
qed simp

lemma seal_nonempty: "\<forall>s. s \<noteq> [] \<longrightarrow> sha s \<noteq> [] \<Longrightarrow> verificationSealDigest sha batch results \<noteq> []"
  by (cases results) (simp_all add: verificationSealDigest_def)

lemma read_supports:
  "outcome_supports env g (read_candidate show_num fetch c) \<longleftrightarrow> (\<exists>d. read_candidate show_num fetch c = ReadOk c d \<and> fst (support_of env g d))"
  by (simp add: read_candidate_def split: sum.splits)

lemma verify_outcomes_settles:
  assumes "distinct (map am_id (kn_missions k))" "n < length (kn_missions k)" "verifying (kn_missions k ! n)"
    and "List.find (\<lambda>x. stored_id x = am_goal (kn_missions k ! n)) (kn_goals k) = Some g"
    and "\<forall>r\<in>set rs. case r of ReadBad _ _ \<Rightarrow> True | ReadOk _ d \<Rightarrow> page_accepted (ce_verifier env) d"
    and "\<forall>s. s \<noteq> [] \<longrightarrow> vv_sha (ce_verifier (env :: course_env)) s \<noteq> []"
  shows "\<exists>m' k'. verify_outcomes (ce_verifier env) now (am_id (kn_missions k ! n)) (kn_missions k ! n) rs g0 k = Inr (m', k')
    \<and> kn_missions k' = (kn_missions k)[n := m'] \<and> am_id m' = am_id (kn_missions k ! n) \<and> isSettledVerification m'
    \<and> (am_status m' = AgentCompleted \<longleftrightarrow> list_ex (outcome_supports (ce_verifier env) g) rs)
    \<and> map result_candidate (or_nil (am_results m')) = map (sc_id \<circ> outcome_candidate) rs"
proof -
  let ?m = "kn_missions k ! n"
  note i = index_where_id[OF assms(1,2)]
  have same: "requireSameCandidateBatch ?m ?m = Inr ()" using assms(3) by (simp add: requireSameCandidateBatch_def)
  have fresh: "\<not> isSettledVerification ?m" using assms(3) by (auto simp: verifying_def isSettledVerification_def)
  show ?thesis
  proof (cases "list_ex (\<lambda>r. case r of ReadOk _ _ \<Rightarrow> True | ReadBad _ _ \<Rightarrow> False) rs")
    case False
    then have "\<not> list_ex (outcome_supports (ce_verifier env) g) rs"
      by (auto simp: list_ex_iff outcome_supports_def split: read_outcome.splits)
    with False show ?thesis
      by (simp add: verify_outcomes_def recordFailures_def i same Let_def isSettledVerification_def settleVerificationWithoutFind_def
          seal_nonempty[OF assms(6)] result_candidate_def comp_def)
  next
    case True
    obtain results pages k1 where out: "project_outcomes (ce_verifier env) g0 ?m rs k = Inr ((results, pages), k1)"
      and sup: "map result_supported results = map (outcome_supports (ce_verifier env) g) rs"
      using project_outcomes_total[OF assms(5,4)] by blast
    have ex: "list_ex result_supported results \<longleftrightarrow> list_ex (outcome_supports (ce_verifier env) g) rs"
      using sup by (metis (no_types) list_ex_iff list.set_map image_iff)
    have ids: "map result_candidate results = map (sc_id \<circ> outcome_candidate) rs" using project_outcomes_grown[OF out] by blast
    from True show ?thesis
      by (simp add: verify_outcomes_def projectVerified_def i same fresh out Let_def)
        (simp add: isSettledVerification_def settleVerificationWithoutFind_def Let_def seal_nonempty[OF assms(6)] ids ex)
  qed
qed
text \<open>
  C8. A verification that may read ends the mission for good. For a mission with candidates under verification, whose
  Goal is in the store and whose authorization the read gate accepts, with pages whose texts the checks of a page context
  accept: one uninterrupted call reads every candidate, records one result per candidate in their order, and settles the mission - completed if
  some page that was read supports the Goal as it is now, failed otherwise. Any later call, whatever the gate says and
  whatever the pages hold by then, answers this mission again and writes nothing.
\<close>

theorem verification_settles:
  assumes "mission_steps env no_knowledge k" "n < length (kn_missions k)" "verifying (kn_missions k ! n)"
    and "List.find (\<lambda>x. stored_id x = am_goal (kn_missions k ! n)) (kn_goals k) = Some g" "ask g (kn_missions k ! n) = Inr grant"
    and "\<forall>c\<in>set (or_nil (am_candidates (kn_missions k ! n))). case read_candidate show_num fetch c of
        ReadBad _ _ \<Rightarrow> True | ReadOk _ d \<Rightarrow> page_accepted (ce_verifier env) d"
    and "\<forall>s. s \<noteq> [] \<longrightarrow> vv_sha (ce_verifier env) s \<noteq> []"
  shows "\<exists>m k'. verify_mission ask (ce_verifier env) show_num fetch now (am_id (kn_missions k ! n)) k = Inr (m, k')
    \<and> kn_missions k' = (kn_missions k)[n := m] \<and> am_status m \<in> {AgentCompleted, AgentFailed}
    \<and> (am_status m = AgentCompleted \<longleftrightarrow>
         (\<exists>c\<in>set (or_nil (am_candidates (kn_missions k ! n))). \<exists>d. read_candidate show_num fetch c = ReadOk c d \<and> fst (support_of (ce_verifier env) g d)))
    \<and> map result_candidate (or_nil (am_results m)) = map sc_id (or_nil (am_candidates (kn_missions k ! n)))
    \<and> (\<forall>ask' show_num' fetch' now'. verify_mission ask' (ce_verifier env) show_num' fetch' now' (am_id (kn_missions k ! n)) k' = Inr (m, k'))"
proof -
  let ?m = "kn_missions k ! n" and ?cs = "or_nil (am_candidates (kn_missions k ! n))"
  let ?rs = "map (read_candidate show_num fetch) ?cs"
  have d: "distinct (map am_id (kn_missions k))" using reached_ok[OF assms(1)] by (simp add: store_ok_def)
  have same: "requireSameCandidateBatch ?m ?m = Inr ()" using assms(3) by (simp add: requireSameCandidateBatch_def)
  have fresh: "\<not> isSettledVerification ?m" using assms(3) by (auto simp: verifying_def isSettledVerification_def)
  have g: "find_goal (am_goal ?m) k = Inr g" by (simp add: find_goal_def assms(4))
  have whole: "verify_mission ask (ce_verifier env) show_num fetch now (am_id ?m) k
      = verify_outcomes (ce_verifier env) now (am_id ?m) ?m ?rs g k"
    by (simp add: verify_mission_def verify_begin_def verify_recheck_def find_mission_at[OF d assms(2)] fresh assms(3) g assms(5) same Let_def)
  have reads: "outcome_candidate (read_candidate show_num fetch c) = c" for c
    by (simp add: read_candidate_def outcome_candidate_def split: sum.splits)
  obtain m k' where v: "verify_outcomes (ce_verifier env) now (am_id ?m) ?m ?rs g k = Inr (m, k')"
    and m: "kn_missions k' = (kn_missions k)[n := m]" "am_id m = am_id ?m" "isSettledVerification m"
    and c: "am_status m = AgentCompleted \<longleftrightarrow> list_ex (outcome_supports (ce_verifier env) g) ?rs"
    and r: "map result_candidate (or_nil (am_results m)) = map (sc_id \<circ> outcome_candidate) ?rs"
    using verify_outcomes_settles[OF d assms(2-4) _ assms(7), of ?rs now g] assms(6) by auto
  have ids: "map am_id (kn_missions k') = map am_id (kn_missions k)"
    using m(1,2) assms(2) by (simp add: map_update) (metis list_update_id map_update nth_map)
  have "find_mission (am_id ?m) k' = Inr m"
    using find_mission_at[of k' n] d assms(2) m ids by simp
  then have again: "verify_mission ask' (ce_verifier env) show_num' fetch' now' (am_id ?m) k' = Inr (m, k')" for ask' show_num' fetch' now'
    using m(3) by (simp add: verify_mission_def verify_begin_def)
  have "list_ex (outcome_supports (ce_verifier env) g) ?rs \<longleftrightarrow>
      (\<exists>c\<in>set ?cs. \<exists>d. read_candidate show_num fetch c = ReadOk c d \<and> fst (support_of (ce_verifier env) g d))"
    by (simp add: list_ex_iff read_supports)
  moreover have "map (sc_id \<circ> outcome_candidate) ?rs = map sc_id ?cs" using reads by simp
  moreover have "am_status m \<in> {AgentCompleted, AgentFailed}" using m(3) by (simp add: isSettledVerification_def)
  moreover have "verify_mission ask (ce_verifier env) show_num fetch now (am_id ?m) k = Inr (m, k')" using whole v by simp
  ultimately show ?thesis using m(1) c r again by (intro exI conjI allI) (assumption | simp only:)+
qed
lemma run_held: "mission_steps run_env no_knowledge run_claimed"
proof -
  have "mission_step run_env no_knowledge run_goal" by (rule step_goal[OF run_created])
  moreover have "mission_step run_env run_goal run_mission" by (rule step_create[OF run_placed])
  moreover have "mission_step run_env run_mission run_claimed" by (rule step_claim[OF run_taken])
  ultimately show ?thesis by (meson rtranclp.rtrancl_into_rtrancl rtranclp.rtrancl_refl)
qed


theorem verification_settles_witness:
  "\<exists>m k'. verify_mission (\<lambda>_ _. Inr \<lparr>ct_goal = ''goal:d1'', ct_capability = ''web.read'', ct_authorization = ''a''\<rparr>) (ce_verifier run_env)
      (\<lambda>_. ''200'') (\<lambda>_. Inr run_page) 4 ''mission:d1'' run_recorded = Inr (m, k') \<and> am_status m = AgentCompleted"
proof -
  let ?fetch = "\<lambda>_. Inr run_page" and ?show = "\<lambda>_. ''200''"
  have n: "kn_missions run_recorded ! 0 = run_fresh" "0 < length (kn_missions run_recorded)" "am_id run_fresh = ''mission:d1''"
    "or_nil (am_candidates run_fresh) = [run_candidate]" by code_simp+
  have v: "verifying (kn_missions run_recorded ! 0)" by code_simp
  have g: "List.find (\<lambda>x. stored_id x = am_goal (kn_missions run_recorded ! 0)) (kn_goals run_recorded) = Some (LocalGoal run_local)"
    unfolding n(1) by (rule run_live)
  have r: "read_candidate ?show ?fetch run_candidate = ReadOk run_candidate run_page" by code_simp
  have "page_accepted (ce_verifier run_env) run_page" by code_simp
  then have a: "\<forall>c\<in>set (or_nil (am_candidates (kn_missions run_recorded ! 0))). case read_candidate ?show ?fetch c of
      ReadBad _ _ \<Rightarrow> True | ReadOk _ d \<Rightarrow> page_accepted (ce_verifier run_env) d" by (simp add: n r)
  have "\<forall>s. s \<noteq> [] \<longrightarrow> vv_sha (ce_verifier run_env) s \<noteq> []" by (simp add: run_env_def)
  from verification_settles[where ask = "\<lambda>_ _. Inr \<lparr>ct_goal = ''goal:d1'', ct_capability = ''web.read'', ct_authorization = ''a''\<rparr>" and now = 4,
      OF run_claims n(2) v g refl a this] show ?thesis
    by (simp add: n r run_support) blast
qed
section \<open>A revision and the missions of the Goal\<close>

lemma last_n_length: "length (last_n n xs) \<le> n"
  by (simp add: last_n_def)

lemma receipt_fields:
  "createGoalExecutionAuthorizationReceipt digest show_time (LocalGoal g) now actor = Inr a \<Longrightarrow>
     currentGoalRevision (LocalGoal g) = Inr (xa_revision a) \<and> xa_goal a = trim (lg_id g)"
  by (auto simp: createGoalExecutionAuthorizationReceipt_def rbind_Inr_iff clean_within_Inr stored_id_def)

lemma current_revision_Some: "currentGoalRevision (LocalGoal g) = Inr r \<Longrightarrow> lg_revision g = Some n \<Longrightarrow> r = n"
  by (auto simp: currentGoalRevision_def split: if_splits)

text \<open>What becomes of a mission when its Goal \<open>gid\<close> changes to \<open>g\<close>.\<close>

definition follows_goal :: "int \<Rightarrow> local_goal \<Rightarrow> js_number \<Rightarrow> agent_mission \<Rightarrow> agent_mission \<Rightarrow> bool" where
  "follows_goal now g revision m m' \<longleftrightarrow>
     (if am_goal m = lg_id g \<and> is_active now m
      then m' = m\<lparr>am_title := lg_title g, am_scope := goal_scope (LocalGoal g), am_authorization := am_authorization m'\<rparr>
        \<and> (am_authorization m' = None \<longleftrightarrow> am_authorization m = None)
        \<and> (\<forall>a. am_authorization m' = Some a \<longrightarrow> xa_revision a = revision)
        \<and> (am_status m = WaitingForAgent \<or> am_status m = AgentQueued)
      else m' = m \<and> (am_goal m = lg_id g \<longrightarrow> \<not> isVerificationPending now m))"

lemma rescope_follows:
  assumes "rescope_mission digest show_time actor now g m = Inr m'" "lg_revision g = Some n"
    and "am_goal m = lg_id g \<longrightarrow> \<not> (am_status m = AgentRunning \<and> is_active now m) \<and> \<not> isVerificationPending now m"
  shows "follows_goal now g n m m'"
proof -
  have "xa_revision a = n" if "createGoalExecutionAuthorizationReceipt digest show_time (LocalGoal g) now actor = Inr a" for a
    using receipt_fields[OF that] current_revision_Some assms(2) by blast
  with assms(1,3) show ?thesis
    by (auto simp: rescope_mission_def follows_goal_def rbind_Inr_iff is_active_def split: option.splits sum.splits if_splits)
qed

lemma apply_revision_fields [simp]:
  "lg_id (apply_revision c r now who g) = lg_id g" "lg_revision (apply_revision c r now who g) = Some (num_succ r)"
  "lg_active (apply_revision c r now who g) = lg_active g" "length (lg_history (apply_revision c r now who g)) \<le> MAX_REVISION_HISTORY"
  "goal_content_of (apply_revision c r now who g) = c"
  by (simp_all add: apply_revision_def last_n_length goal_content_of_def)

lemma revise_changed:
  assumes "revise_goal digest show_time fold_case en now gid i actor k = Inr (g', k')" "k' \<noteq> k"
  obtains n g r c who where "n < length (kn_goals k)" "kn_goals k ! n = LocalGoal g" "lg_id g = gid" "lg_active g"
    and "currentGoalRevision (LocalGoal g) = Inr r" "\<forall>e. ri_expected i = Some e \<longrightarrow> e = r"
    and "revised_content fold_case en i g = Inr c" "changed_fields c (goal_content_of g) \<noteq> []" "ri_confirmed i" "actor \<noteq> None"
    and "g' = apply_revision c r now who g"
    and "\<forall>m\<in>set (kn_missions k). am_goal m = gid \<longrightarrow> \<not> (am_status m = AgentRunning \<and> is_active now m) \<and> \<not> isVerificationPending now m"
    and "map_res (rescope_mission digest show_time (the actor) now g') (kn_missions k) = Inr (kn_missions k')"
    and "k' = k\<lparr>kn_goals := (kn_goals k)[n := LocalGoal g'], kn_missions := kn_missions k'\<rparr>"
proof -
  obtain a where a: "ri_confirmed i" "actor = Some a" using assms(1) by (auto simp: revise_goal_def rbind_Inr_iff split: option.splits)
  obtain n where n: "index_where (\<lambda>g. stored_id g = gid) (kn_goals k) = Some n" "stored_status (kn_goals k ! n) = GoalActive"
    using assms(1) a by (auto simp: revise_goal_def rbind_Inr_iff split: option.splits)
  obtain g where g: "kn_goals k ! n = LocalGoal g"
    using assms(1) a n by (auto simp: revise_goal_def rbind_Inr_iff split: option.splits stored_goal.splits)
  obtain r c missions where r: "currentGoalRevision (LocalGoal g) = Inr r" "\<forall>e. ri_expected i = Some e \<longrightarrow> e = r"
    and c: "revised_content fold_case en i g = Inr c" "changed_fields c (goal_content_of g) \<noteq> []"
    and free: "\<not> list_ex (\<lambda>m. am_status m = AgentRunning \<and> is_active now m) (filter (\<lambda>m. am_goal m = gid) (kn_missions k))"
      "\<not> list_ex (isVerificationPending now) (filter (\<lambda>m. am_goal m = gid) (kn_missions k))"
    and g': "g' = apply_revision c r now (snd a) g"
    and ms: "map_res (rescope_mission digest show_time a now g') (kn_missions k) = Inr missions"
    and k': "k' = k\<lparr>kn_goals := (kn_goals k)[n := LocalGoal g'], kn_missions := missions\<rparr>"
    using assms a n g
    by (auto simp: revise_goal_def rbind_Inr_iff Let_def simp del: list_ex_iff split: option.splits sum.splits if_splits)
  have "lg_id g = gid" "lg_active g" "n < length (kn_goals k)"
    using index_where_Some[OF n(1)] n(2) g by (auto simp: stored_id_def stored_status_def split: if_splits)
  then show thesis
    using that[of n g r c "snd a"] a g r c g' ms k' free by (auto simp: list_ex_iff)
qed

text \<open>
  C17. A revision of a Goal is exact. When the call changes the store, the user confirmed it, the revision the caller expected is the
  current one, and no mission of the Goal is held by an agent or waits for a verification; the Goal keeps its id,
  its place and its state, gets the new content and the next revision number, and keeps at most twenty earlier versions; the
  missions of the Goal that have not started get the new title and scope and, when they carried a receipt, one for the
  new revision; every other mission, Goal, Evidence record, case and find stays as it was.
\<close>

theorem revision_exact:
  assumes "revise_goal digest show_time fold_case en now gid i actor k = Inr (g', k')" "k' \<noteq> k"
  shows "\<exists>n g r c. n < length (kn_goals k) \<and> kn_goals k ! n = LocalGoal g \<and> lg_id g = gid \<and> lg_active g \<and> ri_confirmed i \<and> actor \<noteq> None
    \<and> currentGoalRevision (LocalGoal g) = Inr r \<and> (\<forall>e. ri_expected i = Some e \<longrightarrow> e = r)
    \<and> revised_content fold_case en i g = Inr c \<and> goal_content_of g' = c \<and> c \<noteq> goal_content_of g
    \<and> lg_id g' = gid \<and> lg_active g' \<and> lg_revision g' = Some (num_succ r) \<and> length (lg_history g') \<le> 20
    \<and> list_all2 (follows_goal now g' (num_succ r)) (kn_missions k) (kn_missions k')
    \<and> k' = k\<lparr>kn_goals := (kn_goals k)[n := LocalGoal g'], kn_missions := kn_missions k'\<rparr>"
proof -
  obtain n g r c who where f: "n < length (kn_goals k)" "kn_goals k ! n = LocalGoal g" "lg_id g = gid" "lg_active g"
    "currentGoalRevision (LocalGoal g) = Inr r" "\<forall>e. ri_expected i = Some e \<longrightarrow> e = r"
    "revised_content fold_case en i g = Inr c" "changed_fields c (goal_content_of g) \<noteq> []" "ri_confirmed i" "actor \<noteq> None"
    "g' = apply_revision c r now who g"
    and free: "\<forall>m\<in>set (kn_missions k). am_goal m = gid \<longrightarrow> \<not> (am_status m = AgentRunning \<and> is_active now m) \<and> \<not> isVerificationPending now m"
    and ms: "map_res (rescope_mission digest show_time (the actor) now g') (kn_missions k) = Inr (kn_missions k')"
    and k': "k' = k\<lparr>kn_goals := (kn_goals k)[n := LocalGoal g'], kn_missions := kn_missions k'\<rparr>"
    by (rule revise_changed[OF assms])
  have "list_all2 (follows_goal now g' (num_succ r)) (kn_missions k) (kn_missions k')"
    by (rule list.rel_mono_strong[OF ms[unfolded map_res_Inr_iff]]) (use free f in \<open>auto intro: rescope_follows\<close>)
  moreover have "c \<noteq> goal_content_of g" using f(8) by (auto simp: changed_fields_def)
  moreover have "goal_content_of g' = c" "lg_id g' = gid" "lg_active g'" "lg_revision g' = Some (num_succ r)" "length (lg_history g') \<le> 20"
    using apply_revision_fields(4)[of c r now who g] f(3,4,11) by (simp_all add: MAX_REVISION_HISTORY_def)
  ultimately show ?thesis using f k' by blast
qed
definition run_revise :: "goal_error + local_goal \<times> knowledge" where
  "run_revise = revise_goal (ce_digest run_env) (ce_show_time run_env) ascii_lower (ce_enrich run_env) 3 ''goal:d1''
     \<lparr>ri_confirmed = True, ri_expected = Some (Fin 1), ri_title = Some ''go channels'', ri_categories = None, ri_keywords = Some [''go''], ri_location = KeepLocation\<rparr>
     (Some (InteractiveUser, ''ana'')) run_mission"

theorem revision_exact_witness:
  "\<exists>g' k'. run_revise = Inr (g', k') \<and> lg_revision g' = Some (Fin 2) \<and> lg_id g' = ''goal:d1''
     \<and> list_all2 (follows_goal 3 g' (Fin 2)) (kn_missions run_mission) (kn_missions k')"
proof -
  have "case run_revise of Inl _ \<Rightarrow> False | Inr (g', k') \<Rightarrow> stored_title (hd (kn_goals k')) = ''go channels''" by code_simp
  then obtain g' k' where r: "run_revise = Inr (g', k')" "stored_title (hd (kn_goals k')) = ''go channels''" by (auto split: sum.splits)
  have "stored_title (hd (kn_goals run_mission)) \<noteq> ''go channels''" by code_simp
  with r have "k' \<noteq> run_mission" by auto
  from revision_exact[OF r(1)[unfolded run_revise_def] this] obtain n g q where
    n: "n < length (kn_goals run_mission)" "kn_goals run_mission ! n = LocalGoal g" "currentGoalRevision (LocalGoal g) = Inr q"
    "lg_id g' = ''goal:d1''" "lg_revision g' = Some (num_succ q)" "list_all2 (follows_goal 3 g' (num_succ q)) (kn_missions run_mission) (kn_missions k')"
    by blast
  then have "g = run_local" by (simp add: run_mission_def run_goal_def no_knowledge_def)
  then have "q = Fin 1" using n(3) by (simp add: currentGoalRevision_def run_local_def)
  with n r(1) show ?thesis by (intro exI[of _ g'] exI[of _ k']) simp
qed

section \<open>The queue\<close>

definition claimable_for :: "int \<Rightarrow> string \<Rightarrow> agent_mission \<Rightarrow> bool" where
  "claimable_for now agent m \<longleftrightarrow> am_agent m = agent \<and> isClaimable now m"

text \<open>
  A mission the gate denies holds up the queue. A claim that names no mission looks at the first claimable mission of the
  agent only: while the gate denies that one, no claim returns any mission and no other mission of the store changes,
  however many claimable missions stand behind it that the gate would allow.
\<close>

theorem denied_mission_holds_up_queue:
  assumes "index_where (claimable_for now agent) (kn_missions k) = Some n"
    and "\<And>b l. ask (List.find (\<lambda>g. stored_id g = am_goal (kn_missions k ! n)) (kn_goals k)) ((kn_missions k ! n)\<lparr>am_block := b, am_limitation := l\<rparr>) = Inl e"
  shows "\<exists>k'. claim_mission (Some ask) lease_ms lease now agent None k = (None, k')
    \<and> index_where (claimable_for now agent) (kn_missions k') = Some n \<and> (\<forall>j. j \<noteq> n \<longrightarrow> kn_missions k' ! j = kn_missions k ! j)
    \<and> (\<forall>lease_ms' lease'. claim_mission (Some ask) lease_ms' lease' now agent None k' = (None, k'))"
proof -
  let ?m = "kn_missions k ! n"
  have n: "n < length (kn_missions k)" using index_where_Some[OF assms(1)] by blast
  have claimable: "(\<lambda>m. am_agent m = agent \<and> (case None :: string option of None \<Rightarrow> True | Some i \<Rightarrow> am_id m = i) \<and> isClaimable now m) = claimable_for now agent"
    by (auto simp: claimable_for_def)
  have deny: "ask (List.find (\<lambda>g. stored_id g = am_goal ?m) (kn_goals k)) ?m = Inl e"
    using assms(2)[where b = "am_block ?m" and l = "am_limitation ?m"] by simp
  let ?k' = "k\<lparr>kn_missions := (kn_missions k)[n := ?m\<lparr>am_block := Some e, am_limitation := ClaimBlocked e\<rparr>]\<rparr>"
  have same: "index_where P (xs[j := x]) = index_where P xs" if "P x = P (xs ! j)" "j < length xs" for P x j and xs :: "agent_mission list"
    using that by (induction xs arbitrary: j) (auto split: nat.splits)
  have first: "index_where (claimable_for now agent) (kn_missions ?k') = Some n"
    using n by (simp add: same assms(1) claimable_for_def isClaimable_def attempt_of_def)
  have once: "claim_mission (Some ask) lease_ms lease now agent None k = (None, if am_block ?m = Some e \<and> am_limitation ?m = ClaimBlocked e then k else ?k')"
    unfolding claim_mission_def claimable by (simp add: assms(1) Let_def deny)
  have again: "claim_mission (Some ask) lease_ms' lease' now agent None ?k' = (None, ?k')" for lease_ms' lease'
    unfolding claim_mission_def claimable first by (simp add: Let_def n assms(2))
  have still: "claim_mission (Some ask) lease_ms' lease' now agent None k = (None, k)" if "am_block ?m = Some e \<and> am_limitation ?m = ClaimBlocked e" for lease_ms' lease'
    unfolding claim_mission_def claimable using that by (simp add: assms(1) Let_def deny)
  show ?thesis
  proof (cases "am_block ?m = Some e \<and> am_limitation ?m = ClaimBlocked e")
    case True
    then show ?thesis using once still assms(1) by (intro exI[of _ k]) simp
  next
    case False
    then show ?thesis using once again first by (intro exI[of _ ?k']) (simp only: if_False if_not_P, simp)
  qed
qed

theorem denied_mission_holds_up_queue_witness:
  "\<exists>k'. claim_mission (Some (\<lambda>_ m. if am_id m = ''mission:d1'' then Inl GateInvalidGoal else Inr undefined)) 1000 ''L'' 3 ''hermes'' None
      (run_mission\<lparr>kn_missions := [run_queued, run_queued\<lparr>am_id := ''mission:d2''\<rparr>]\<rparr>) = (None, k')"
proof -
  let ?k = "run_mission\<lparr>kn_missions := [run_queued, run_queued\<lparr>am_id := ''mission:d2''\<rparr>]\<rparr>"
  have "index_where (claimable_for 3 ''hermes'') (kn_missions ?k) = Some 0" by code_simp
  from denied_mission_holds_up_queue[OF this, where e = GateInvalidGoal and
      ask = "\<lambda>_ m. if am_id m = ''mission:d1'' then Inl GateInvalidGoal else Inr undefined"]
  show ?thesis by (simp add: run_queued_def new_mission_def) blast
qed
section \<open>Limits of the verification\<close>

text \<open>
  One page can refuse a whole batch. When a page that was read supports the Goal but its texts are refused by the checks of a
  page context (a final URL of more than 2048 characters, for example), the verification fails as a whole: no result and no
  Evidence of any page is kept, and the mission stays under verification.
\<close>

theorem refused_page_stops_batch:
  assumes "mission_steps env no_knowledge k" "n < length (kn_missions k)" "verifying (kn_missions k ! n)"
    and "List.find (\<lambda>x. stored_id x = am_goal (kn_missions k ! n)) (kn_goals k) = Some g"
    and "ReadOk c d \<in> set rs" "fst (support_of (ce_verifier env) g d)" "\<not> page_accepted (ce_verifier env) d"
  shows "\<exists>e. verify_outcomes (ce_verifier env) now (am_id (kn_missions k ! n)) (kn_missions k ! n) rs g0 k = Inl e"
proof -
  let ?m = "kn_missions k ! n" and ?e = "ce_verifier env"
  have d: "distinct (map am_id (kn_missions k))" using reached_ok[OF assms(1)] by (simp add: store_ok_def)
  have refused: "\<exists>e. projectVerifiedDocument (vv_parse_url ?e) (vv_canonical ?e) (vv_label ?e) (vv_sha ?e) (vv_host_path ?e) m c d True r k1 = Inl e"
    for m r k1
  proof -
    obtain e where "validatePageContext (vv_parse_url ?e) (vv_canonical ?e) (document_context (vv_host_path ?e) d) = Inl e"
      using assms(7) by (auto simp: page_accepted_def split: sum.splits)
    then show ?thesis by (simp only: projectVerifiedDocument_def projectSupportedInto_def Let_def rbind_simps if_False not_True_eq_False sum.inject simp_thms)
  qed
  have "\<exists>e. project_outcomes ?e g0 ?m rs k1 = Inl e" if "ReadOk c d \<in> set rs" "kn_goals k1 = kn_goals k" for rs k1
    using that
  proof (induction rs arbitrary: k1)
    case (Cons r rs)
    show ?case
    proof (cases r)
      case (ReadBad c' reason)
      then show ?thesis using Cons.IH[of k1] Cons.prems by auto
    next
      case (ReadOk c' d')
      obtain b reason where s: "support_of ?e g d' = (b, reason)" by fastforce
      let ?p = "projectVerifiedDocument (vv_parse_url ?e) (vv_canonical ?e) (vv_label ?e) (vv_sha ?e) (vv_host_path ?e) ?m c' d' b reason k1"
      show ?thesis
      proof (cases ?p)
        case (Inl e)
        then show ?thesis using Cons.prems(2) assms(4) s by (simp add: ReadOk Let_def)
      next
        case (Inr y)
        obtain p k2 where y: "?p = Inr (p, k2)" using Inr by (cases y) simp
        have "r \<noteq> ReadOk c d" using y s assms(6) refused[of ?m reason k1] ReadOk by auto
        moreover have "kn_goals k2 = kn_goals k"
          using projectVerifiedDocument_grown[OF y support_reasoned[OF s]] Cons.prems(2) by (simp add: grown_def)
        ultimately obtain e where "project_outcomes ?e g0 ?m rs k2 = Inl e" using Cons.IH[of k2] Cons.prems(1) by auto
        then show ?thesis using Cons.prems(2) assms(4) s y by (simp add: ReadOk Let_def)
      qed
    qed
  qed simp
  from this[OF assms(5) refl] obtain e where "project_outcomes ?e g0 ?m rs k = Inl e" by blast
  moreover have "list_ex (\<lambda>r. case r of ReadOk _ _ \<Rightarrow> True | ReadBad _ _ \<Rightarrow> False) rs" using assms(5) by (force simp: list_ex_iff)
  moreover have "requireSameCandidateBatch ?m ?m = Inr ()" "\<not> isSettledVerification ?m"
    using assms(3) by (auto simp: requireSameCandidateBatch_def verifying_def isSettledVerification_def)
  ultimately show ?thesis by (simp add: verify_outcomes_def projectVerified_def index_where_id[OF d assms(2)])
qed

text \<open>
  A page that is read again keeps its first text. When the Evidence of a candidate of a mission is in the store, a later reading
  of the same candidate for the same mission writes no Evidence: its verdict is about the page as it is now, and is linked
  to the record of the page as it was.
\<close>

theorem reread_keeps_first_text:
  assumes "e \<in> set (kn_evidence k)" "ve_id e = ''evidence:verified:'' @ verified_suffix sha (am_id m) (sc_id c)"
    and "projectVerifiedDocument parse_url canonical label sha host_path m c d promote reason k = Inr (p, k')"
  shows "kn_evidence k' = kn_evidence k \<and> pp_evidence p = ve_id e \<and> pp_duplicate p"
proof -
  have "list_ex (\<lambda>x. ve_id x = ''evidence:verified:'' @ verified_suffix sha (am_id m) (sc_id c)) (kn_evidence k)"
    using assms(1,2) by (auto simp: list_ex_iff simp del: append.simps)
  with assms(3) show ?thesis
    by (cases promote) (auto simp: projectVerifiedDocument_def projectSupportedInto_def Let_def rbind_Inr_iff assms(2)
        simp del: append.simps list_ex_iff split: prod.splits dest!: projectClassified_find)
qed

text \<open>
  A long identifier freezes a Goal. The creation of a Goal adds the identifiers of its title to the keywords whatever
  their length, and a revision that keeps the title and the keywords checks them again against the limit of forty
  characters: a Goal with such a keyword refuses every revision of its location or categories.
\<close>

theorem long_keyword_freezes_goal:
  assumes "w \<in> set (lg_keywords g)" "40 < length (collapse_spaces (trim w))" "ri_keywords i = None" "ri_title i = None"
    and "clean_goal 120 (lg_title g) = Inr (lg_title g)"
  shows "\<exists>e. revised_content fold_case en i g = Inl e"
proof -
  have "clean_goal 40 w = Inl (InvalidGoal ''text'')" using assms(2) by (simp add: clean_goal_def Let_def)
  then have "\<nexists>cs. map_res (clean_goal 40) (lg_keywords g) = Inr cs"
    using assms(1) by (auto simp: map_res_Inr_iff list_all2_conv_all_nth in_set_conv_nth)
  then have "\<nexists>cs. uniqueStrings 12 40 (Some (lg_keywords g)) = Inr cs" by (auto simp: uniqueStrings_def rbind_Inr_iff)
  then have "\<nexists>x. revised_content fold_case en i g = Inr x"
    using assms(3-5) by (auto simp: revised_content_def validateGoalContent_def rbind_Inr_iff Let_def)
  then show ?thesis by (cases "revised_content fold_case en i g") auto
qed
definition run_long_page :: page_document where
  "run_long_page = run_page\<lparr>pd_source_url := ''https://a.example/'' @ replicate 2048 (CHR ''a'')\<rparr>"

theorem refused_page_stops_batch_witness:
  "\<exists>e. verify_outcomes (ce_verifier run_env) 4 ''mission:d1'' run_fresh [ReadOk run_candidate run_long_page] (LocalGoal run_local) run_recorded = Inl e"
proof -
  have n: "kn_missions run_recorded ! 0 = run_fresh" "0 < length (kn_missions run_recorded)" "am_id run_fresh = ''mission:d1''" by code_simp+
  have v: "verifying (kn_missions run_recorded ! 0)" by code_simp
  have g: "List.find (\<lambda>x. stored_id x = am_goal (kn_missions run_recorded ! 0)) (kn_goals run_recorded) = Some (LocalGoal run_local)"
    unfolding n(1) by (rule run_live)
  have s: "fst (support_of (ce_verifier run_env) (LocalGoal run_local) run_long_page)" by code_simp
  have r: "\<not> page_accepted (ce_verifier run_env) run_long_page" by code_simp
  from refused_page_stops_batch[OF run_claims n(2) v g _ s r, of run_candidate "[ReadOk run_candidate run_long_page]" 4] show ?thesis
    by (simp add: n)
qed

theorem reread_keeps_first_text_witness:
  "\<exists>e p k'. projectVerifiedDocument sample_url (\<lambda>_. True) (\<lambda>_ _. ''goal'') (\<lambda>s. s) (\<lambda>u. u) run_fresh run_candidate
       (run_page\<lparr>pd_text := ''Go channels''\<rparr>) False NoEvidence (snd run_read) = Inr (p, k')
     \<and> kn_evidence k' = kn_evidence (snd run_read) \<and> kn_evidence k' = [e] \<and> ve_text e = ''Rust ownership'' \<and> pp_evidence p = ve_id e"
proof -
  let ?d = "run_page\<lparr>pd_text := ''Go channels''\<rparr>" and ?k = "snd run_read"
  have "length (kn_evidence ?k) = 1 \<and> ve_text (hd (kn_evidence ?k)) = ''Rust ownership''
      \<and> ve_id (hd (kn_evidence ?k)) = ''evidence:verified:'' @ verified_suffix (\<lambda>s. s) (am_id run_fresh) (sc_id run_candidate)"
    unfolding run_read_def by code_simp
  then obtain e where e: "kn_evidence ?k = [e]" "ve_text e = ''Rust ownership''"
    "ve_id e = ''evidence:verified:'' @ verified_suffix (\<lambda>s. s) (am_id run_fresh) (sc_id run_candidate)"
    by (cases "kn_evidence ?k") auto
  obtain p k' where p: "projectVerifiedDocument sample_url (\<lambda>_. True) (\<lambda>_ _. ''goal'') (\<lambda>s. s) (\<lambda>u. u) run_fresh run_candidate ?d False NoEvidence ?k = Inr (p, k')"
    by (simp add: projectVerifiedDocument_def Let_def)
  have "e \<in> set (kn_evidence ?k)" by (simp add: e(1))
  from reread_keeps_first_text[OF this e(3) p] p e show ?thesis by (intro exI[of _ e] exI[of _ p] exI[of _ k']) simp
qed

definition long_input :: create_input where
  "long_input = \<lparr>ci_title = ''build 9f86d081884c7d659a2feaa0c55ad015a3bf4f1b2b0b822cd'', ci_categories = Some [''tool''], ci_keywords = None,
     ci_location = None, ci_priority = None\<rparr>"

theorem long_keyword_freezes_goal_witness:
  "\<exists>g k'. create_goal (ce_digest run_env) ascii_lower (ce_enrich run_env) 0 long_input no_knowledge = Inr (LocalGoal g, k')
     \<and> (\<exists>e. revised_content ascii_lower (ce_enrich run_env) \<lparr>ri_confirmed = True, ri_expected = None, ri_title = None, ri_categories = None,
         ri_keywords = None, ri_location = SetLocation ''Madrid''\<rparr> g = Inl e)"
proof -
  let ?c = "create_goal (ce_digest run_env) ascii_lower (ce_enrich run_env) 0 long_input no_knowledge"
  have "case ?c of Inr (LocalGoal g, _) \<Rightarrow> lg_keywords g = [''9f86d081884c7d659a2feaa0c55ad015a3bf4f1b2b0b822cd''] \<and> lg_title g = ci_title long_input | _ \<Rightarrow> False"
    by code_simp
  then obtain g k' where c: "?c = Inr (LocalGoal g, k')" "lg_keywords g = [''9f86d081884c7d659a2feaa0c55ad015a3bf4f1b2b0b822cd'']" "lg_title g = ci_title long_input"
    by (auto split: sum.splits stored_goal.splits prod.splits)
  have "40 < length (collapse_spaces (trim ''9f86d081884c7d659a2feaa0c55ad015a3bf4f1b2b0b822cd''))" by code_simp
  moreover have "clean_goal 120 (ci_title long_input) = Inr (ci_title long_input)" by code_simp
  ultimately show ?thesis
    using c long_keyword_freezes_goal[of "''9f86d081884c7d659a2feaa0c55ad015a3bf4f1b2b0b822cd''" g
        "\<lparr>ri_confirmed = True, ri_expected = None, ri_title = None, ri_categories = None, ri_keywords = None, ri_location = SetLocation ''Madrid''\<rparr>"]
    by (intro exI[of _ g] exI[of _ k']) simp
qed

end
