(* ===== verification/Case_Evidence.thy ===== *)
theory Case_Evidence
  imports Search_Candidates Goal_Contract
begin

text \<open>
  Cases and their Evidence (\<open>case/case-manager.ts\<close>, \<open>evidence/evidence-manager.ts\<close>, their normalisation and the repositories in
  memory). A repository is the list of its records in the order of insertion; one call of a manager is one step: calls do not overlap. Instants
  are the texts the source compares. Parameter: the URL parser. Results: what an archived Case keeps, that no
  Evidence names a Case that does not exist, that updates only go forward, and the normal form of Evidence.
\<close>

section \<open>Cases\<close>

datatype case_status = CaseDraft | CaseActive | CaseCompleted | CaseArchived

record case_record =
  ca_id :: string
  ca_title :: string
  ca_objective :: string
  ca_description :: "string option"
  ca_status :: case_status
  ca_tags :: "string list"
  ca_created :: string
  ca_updated :: string

datatype case_error =
  CaseAlreadyExists string | CaseNotFound string | InvalidCaseInput string | InvalidCaseTransition string case_status case_status
| ArchivedCaseMutation string | StaleCaseUpdate string string string

definition normalizeRequiredText :: "string \<Rightarrow> string \<Rightarrow> case_error + string" where
  "normalizeRequiredText field v = (let n = trim v in if n = [] then Inl (InvalidCaseInput field) else Inr n)"

definition normalizeDescription :: "string option \<Rightarrow> string option" where
  "normalizeDescription v = (case v of None \<Rightarrow> None | Some s \<Rightarrow> if trim s = [] then None else Some (trim s))"

definition normalizeTags :: "string list option \<Rightarrow> string list" where
  "normalizeTags tags = foldl (\<lambda>normalized raw. let tag = trim raw in if tag = [] \<or> tag \<in> set normalized then normalized else normalized @ [tag])
     [] (or_nil tags)"

definition case_transitions :: "case_status \<Rightarrow> case_status list" where
  "case_transitions s = (case s of CaseDraft \<Rightarrow> [CaseActive, CaseArchived] | CaseActive \<Rightarrow> [CaseCompleted, CaseArchived]
     | CaseCompleted \<Rightarrow> [CaseArchived] | CaseArchived \<Rightarrow> [])"

definition canTransition :: "case_status \<Rightarrow> case_status \<Rightarrow> bool" where
  "canTransition s t \<longleftrightarrow> t \<in> set (case_transitions s)"

text \<open>A field of an update: left out, \<open>null\<close>, or a value.\<close>

datatype 'a patch = Keep | Clear | Put 'a

record create_case_input =
  cc_id :: string
  cc_title :: string
  cc_objective :: string
  cc_description :: "string option"
  cc_tags :: "string list option"
  cc_created :: string

record update_case_input =
  uc_title :: "string option"
  uc_objective :: "string option"
  uc_description :: "string patch"
  uc_tags :: "string list option"
  uc_updated :: string

definition find_case :: "string \<Rightarrow> case_record list \<Rightarrow> case_record option" where
  "find_case i cs = List.find (\<lambda>c. ca_id c = i) cs"

text \<open>\<open>Map.set\<close> of a key that is there.\<close>

definition put_case :: "case_record \<Rightarrow> case_record list \<Rightarrow> case_record list" where
  "put_case c cs = map (\<lambda>x. if ca_id x = ca_id c then c else x) cs"

definition create_case :: "create_case_input \<Rightarrow> case_record list \<Rightarrow> case_error + case_record \<times> case_record list" where
  "create_case i cs =
     rbind (throw_if (find_case (cc_id i) cs \<noteq> None) (CaseAlreadyExists (cc_id i))) (\<lambda>_.
     rbind (normalizeRequiredText ''title'' (cc_title i)) (\<lambda>title.
     rbind (normalizeRequiredText ''objective'' (cc_objective i)) (\<lambda>objective.
     let c = \<lparr>ca_id = cc_id i, ca_title = title, ca_objective = objective, ca_description = normalizeDescription (cc_description i),
        ca_status = CaseDraft, ca_tags = normalizeTags (cc_tags i), ca_created = cc_created i, ca_updated = cc_created i\<rparr> in
     Inr (c, cs @ [c]))))"

definition require_mutable_case :: "string \<Rightarrow> string \<Rightarrow> case_record list \<Rightarrow> case_error + case_record" where
  "require_mutable_case i now cs = (case find_case i cs of None \<Rightarrow> Inl (CaseNotFound i)
     | Some c \<Rightarrow>
         rbind (throw_if (ca_status c = CaseArchived) (ArchivedCaseMutation i)) (\<lambda>_.
         rbind (throw_if (now \<le> ca_updated c) (StaleCaseUpdate i now (ca_updated c))) (\<lambda>_. Inr c)))"

definition update_case :: "string \<Rightarrow> update_case_input \<Rightarrow> case_record list \<Rightarrow> case_error + case_record \<times> case_record list" where
  "update_case i u cs = rbind (require_mutable_case i (uc_updated u) cs) (\<lambda>c.
     rbind (case uc_title u of None \<Rightarrow> Inr (ca_title c) | Some t \<Rightarrow> normalizeRequiredText ''title'' t) (\<lambda>title.
     rbind (case uc_objective u of None \<Rightarrow> Inr (ca_objective c) | Some t \<Rightarrow> normalizeRequiredText ''objective'' t) (\<lambda>objective.
     let c' = c\<lparr>ca_title := title, ca_objective := objective,
        ca_description := (case uc_description u of Keep \<Rightarrow> ca_description c | Clear \<Rightarrow> normalizeDescription None | Put d \<Rightarrow> normalizeDescription (Some d)),
        ca_tags := (case uc_tags u of None \<Rightarrow> ca_tags c | Some ts \<Rightarrow> normalizeTags (Some ts)), ca_updated := uc_updated u\<rparr> in
     Inr (c', put_case c' cs))))"

definition transition_case :: "string \<Rightarrow> case_status \<Rightarrow> string \<Rightarrow> case_record list \<Rightarrow> case_error + case_record \<times> case_record list" where
  "transition_case i t now cs = rbind (require_mutable_case i now cs) (\<lambda>c.
     rbind (throw_if (\<not> canTransition (ca_status c) t) (InvalidCaseTransition i (ca_status c) t)) (\<lambda>_.
     let c' = c\<lparr>ca_status := t, ca_updated := now\<rparr> in Inr (c', put_case c' cs)))"

definition archive_case :: "string \<Rightarrow> string \<Rightarrow> case_record list \<Rightarrow> case_error + case_record \<times> case_record list" where
  "archive_case i now cs = transition_case i CaseArchived now cs"

section \<open>Evidence\<close>

datatype content_type = ContentWebpage | ContentText | ContentPdf | ContentImage | ContentManual | ContentApi | ContentAudio | ContentVideo | ContentOther

record evidence =
  ed_id :: string
  ed_case :: "string option"
  ed_source_url :: "string option"
  ed_content_type :: content_type
  ed_mime :: "string option"
  ed_ref :: "string option"
  ed_hash :: "string option"
  ed_raw :: "string option"
  ed_summary :: "string option"
  ed_captured :: string
  ed_method :: "string option"
  ed_selector :: "string option"
  ed_confidence :: js_number
  ed_tags :: "string list"
  ed_entities :: "string list"
  ed_relationships :: "string list"

record evidence_entry =
  ee_evidence :: evidence
  ee_updated :: string

datatype evidence_error =
  EvidenceAlreadyExists string | EvidenceNotFound string | InvalidEvidenceInput string | StaleEvidenceUpdate string string string
| ArchivedCaseEvidenceLink string string | EvidenceCaseNotFound string

definition normalizeSourceUrl :: "(string \<Rightarrow> parsed_url option) \<Rightarrow> string option \<Rightarrow> evidence_error + string option" where
  "normalizeSourceUrl parse_url v = (case normalizeDescription v of None \<Rightarrow> Inr None
     | Some s \<Rightarrow> (case parse_url s of None \<Rightarrow> Inl (InvalidEvidenceInput ''sourceUrl'')
         | Some u \<Rightarrow> if pu_protocol u \<noteq> ''http:'' \<and> pu_protocol u \<noteq> ''https:'' then Inl (InvalidEvidenceInput ''sourceUrl'') else Inr (Some (pu_href u))))"

definition normalizeContentHash :: "string option \<Rightarrow> evidence_error + string option" where
  "normalizeContentHash v = (case map_option ascii_lower (normalizeDescription v) of None \<Rightarrow> Inr None
     | Some h \<Rightarrow> if length h \<noteq> 64 \<or> \<not> list_all is_hex h then Inl (InvalidEvidenceInput ''contentHash'') else Inr (Some h))"

definition validateConfidence :: "js_number \<Rightarrow> evidence_error + js_number" where
  "validateConfidence n = (if bad_unit_num n then Inl (InvalidEvidenceInput ''confidence'') else Inr n)"

text \<open>\<open>normalizeTags\<close> of this file, and the lists of ids.\<close>

definition evidence_tags :: "string list option \<Rightarrow> string list" where
  "evidence_tags vs = uniq (filter (\<lambda>t. t \<noteq> []) (map trim (or_nil vs)))"

definition normalize_ids :: "string list option \<Rightarrow> string list" where
  "normalize_ids vs = uniq (or_nil vs)"

record create_evidence_input =
  ce_id :: string
  ce_case :: "string option"
  ce_source_url :: "string option"
  ce_content_type :: content_type
  ce_mime :: "string option"
  ce_ref :: "string option"
  ce_hash :: "string option"
  ce_raw :: "string option"
  ce_summary :: "string option"
  ce_captured :: string
  ce_method :: "string option"
  ce_selector :: "string option"
  ce_confidence :: js_number
  ce_tags :: "string list option"
  ce_entities :: "string list option"
  ce_relationships :: "string list option"

record update_evidence_input =
  ue_summary :: "string patch"
  ue_confidence :: "js_number option"
  ue_tags :: "string list option"
  ue_entities :: "string list option"
  ue_relationships :: "string list option"
  ue_case :: "string patch"
  ue_updated :: string

definition find_evidence :: "string \<Rightarrow> evidence_entry list \<Rightarrow> evidence_entry option" where
  "find_evidence i es = List.find (\<lambda>e. ed_id (ee_evidence e) = i) es"

definition put_evidence :: "evidence_entry \<Rightarrow> evidence_entry list \<Rightarrow> evidence_entry list" where
  "put_evidence e es = map (\<lambda>x. if ed_id (ee_evidence x) = ed_id (ee_evidence e) then e else x) es"

definition assertCaseAcceptsEvidence :: "case_record list \<Rightarrow> string \<Rightarrow> string \<Rightarrow> evidence_error + unit" where
  "assertCaseAcceptsEvidence cs eid cid = (case find_case cid cs of None \<Rightarrow> Inl (EvidenceCaseNotFound cid)
     | Some c \<Rightarrow> throw_if (ca_status c = CaseArchived) (ArchivedCaseEvidenceLink eid cid))"

definition create_evidence ::
  "(string \<Rightarrow> parsed_url option) \<Rightarrow> case_record list \<Rightarrow> create_evidence_input \<Rightarrow> evidence_entry list
   \<Rightarrow> evidence_error + evidence \<times> evidence_entry list" where
  "create_evidence parse_url cs i es =
     rbind (throw_if (find_evidence (ce_id i) es \<noteq> None) (EvidenceAlreadyExists (ce_id i))) (\<lambda>_.
     rbind (case ce_case i of None \<Rightarrow> Inr () | Some c \<Rightarrow> if c = [] then Inr () else assertCaseAcceptsEvidence cs (ce_id i) c) (\<lambda>_.
     rbind (normalizeSourceUrl parse_url (ce_source_url i)) (\<lambda>url.
     rbind (normalizeContentHash (ce_hash i)) (\<lambda>hash.
     rbind (validateConfidence (ce_confidence i)) (\<lambda>confidence.
     let e = \<lparr>ed_id = ce_id i, ed_case = ce_case i, ed_source_url = url, ed_content_type = ce_content_type i, ed_mime = normalizeDescription (ce_mime i),
        ed_ref = normalizeDescription (ce_ref i), ed_hash = hash, ed_raw = ce_raw i, ed_summary = normalizeDescription (ce_summary i),
        ed_captured = ce_captured i, ed_method = normalizeDescription (ce_method i), ed_selector = normalizeDescription (ce_selector i),
        ed_confidence = confidence, ed_tags = evidence_tags (ce_tags i), ed_entities = normalize_ids (ce_entities i),
        ed_relationships = normalize_ids (ce_relationships i)\<rparr> in
     Inr (e, es @ [\<lparr>ee_evidence = e, ee_updated = ce_captured i\<rparr>]))))))"

definition require_evidence :: "string \<Rightarrow> evidence_entry list \<Rightarrow> evidence_error + evidence_entry" where
  "require_evidence i es = (case find_evidence i es of None \<Rightarrow> Inl (EvidenceNotFound i) | Some e \<Rightarrow> Inr e)"

definition next_case :: "update_evidence_input \<Rightarrow> evidence \<Rightarrow> string option" where
  "next_case u e = (case ue_case u of Keep \<Rightarrow> ed_case e | Clear \<Rightarrow> None | Put c \<Rightarrow> Some c)"

text \<open>The record the update builds, once its Case and its confidence are checked.\<close>

definition patched_evidence :: "update_evidence_input \<Rightarrow> js_number \<Rightarrow> evidence \<Rightarrow> evidence" where
  "patched_evidence u confidence e = e\<lparr>ed_case := next_case u e,
     ed_summary := (case ue_summary u of Keep \<Rightarrow> ed_summary e | Clear \<Rightarrow> normalizeDescription None | Put s \<Rightarrow> normalizeDescription (Some s)),
     ed_confidence := confidence,
     ed_tags := (case ue_tags u of None \<Rightarrow> ed_tags e | Some ts \<Rightarrow> evidence_tags (Some ts)),
     ed_entities := (case ue_entities u of None \<Rightarrow> ed_entities e | Some xs \<Rightarrow> normalize_ids (Some xs)),
     ed_relationships := (case ue_relationships u of None \<Rightarrow> ed_relationships e | Some xs \<Rightarrow> normalize_ids (Some xs))\<rparr>"

definition updateMetadata ::
  "case_record list \<Rightarrow> string \<Rightarrow> update_evidence_input \<Rightarrow> evidence_entry list \<Rightarrow> evidence_error + evidence \<times> evidence_entry list" where
  "updateMetadata cs i u es = rbind (require_evidence i es) (\<lambda>current.
     let e = ee_evidence current in
     rbind (throw_if (ue_updated u \<le> ee_updated current) (StaleEvidenceUpdate i (ue_updated u) (ee_updated current))) (\<lambda>_.
     rbind (case next_case u e of None \<Rightarrow> Inr () | Some c \<Rightarrow> if c = [] \<or> Some c = ed_case e then Inr () else assertCaseAcceptsEvidence cs i c) (\<lambda>_.
     rbind (case ue_confidence u of None \<Rightarrow> Inr (ed_confidence e) | Some n \<Rightarrow> validateConfidence n) (\<lambda>confidence.
     let e' = patched_evidence u confidence e in
     Inr (e', put_evidence \<lparr>ee_evidence = e', ee_updated = ue_updated u\<rparr> es)))))"

definition no_update :: "string \<Rightarrow> update_evidence_input" where
  "no_update now = \<lparr>ue_summary = Keep, ue_confidence = None, ue_tags = None, ue_entities = None, ue_relationships = None, ue_case = Keep, ue_updated = now\<rparr>"

definition attachToCase :: "case_record list \<Rightarrow> string \<Rightarrow> string \<Rightarrow> string \<Rightarrow> evidence_entry list \<Rightarrow> evidence_error + evidence \<times> evidence_entry list" where
  "attachToCase cs i c now es = updateMetadata cs i ((no_update now)\<lparr>ue_case := Put c\<rparr>) es"

definition detachFromCase :: "case_record list \<Rightarrow> string \<Rightarrow> string \<Rightarrow> evidence_entry list \<Rightarrow> evidence_error + evidence \<times> evidence_entry list" where
  "detachFromCase cs i now es = updateMetadata cs i ((no_update now)\<lparr>ue_case := Clear\<rparr>) es"

definition linkEntity :: "case_record list \<Rightarrow> string \<Rightarrow> string \<Rightarrow> string \<Rightarrow> evidence_entry list \<Rightarrow> evidence_error + evidence \<times> evidence_entry list" where
  "linkEntity cs i x now es = rbind (require_evidence i es) (\<lambda>current.
     updateMetadata cs i ((no_update now)\<lparr>ue_entities := Some (ed_entities (ee_evidence current) @ [x])\<rparr>) es)"

definition unlinkEntity :: "case_record list \<Rightarrow> string \<Rightarrow> string \<Rightarrow> string \<Rightarrow> evidence_entry list \<Rightarrow> evidence_error + evidence \<times> evidence_entry list" where
  "unlinkEntity cs i x now es = rbind (require_evidence i es) (\<lambda>current.
     updateMetadata cs i ((no_update now)\<lparr>ue_entities := Some (filter (\<lambda>v. v \<noteq> x) (ed_entities (ee_evidence current)))\<rparr>) es)"

definition linkRelationship :: "case_record list \<Rightarrow> string \<Rightarrow> string \<Rightarrow> string \<Rightarrow> evidence_entry list \<Rightarrow> evidence_error + evidence \<times> evidence_entry list" where
  "linkRelationship cs i x now es = rbind (require_evidence i es) (\<lambda>current.
     updateMetadata cs i ((no_update now)\<lparr>ue_relationships := Some (ed_relationships (ee_evidence current) @ [x])\<rparr>) es)"

definition unlinkRelationship :: "case_record list \<Rightarrow> string \<Rightarrow> string \<Rightarrow> string \<Rightarrow> evidence_entry list \<Rightarrow> evidence_error + evidence \<times> evidence_entry list" where
  "unlinkRelationship cs i x now es = rbind (require_evidence i es) (\<lambda>current.
     updateMetadata cs i ((no_update now)\<lparr>ue_relationships := Some (filter (\<lambda>v. v \<noteq> x) (ed_relationships (ee_evidence current)))\<rparr>) es)"
section \<open>Repositories of records\<close>

text \<open>What the managers rely on: a lookup by key, an update in place, insertion at the end.\<close>

locale record_repository =
  fixes find_record :: "'k \<Rightarrow> 'r list \<Rightarrow> 'r option" and put_record :: "'r \<Rightarrow> 'r list \<Rightarrow> 'r list" and key :: "'r \<Rightarrow> 'k"
  assumes find_key: "find_record i rs = Some r \<Longrightarrow> key r = i \<and> r \<in> set rs"
    and find_None: "find_record i rs = None \<longleftrightarrow> i \<notin> key ` set rs"
    and find_insert: "find_record (key r) rs = None \<Longrightarrow> find_record i (rs @ [r]) = (if key r = i then Some r else find_record i rs)"
    and find_put: "find_record (key r) rs \<noteq> None \<Longrightarrow> find_record i (put_record r rs) = (if key r = i then Some r else find_record i rs)"
    and put_keys: "map key (put_record r rs) = map key rs"
    and put_set: "set (put_record r rs) \<subseteq> insert r (set rs)"
begin

lemma insert_distinct: "find_record (key r) rs = None \<Longrightarrow> distinct (map key rs) \<Longrightarrow> distinct (map key (rs @ [r]))"
  by (simp add: find_None)

lemma put_distinct: "distinct (map key rs) \<Longrightarrow> distinct (map key (put_record r rs))"
  by (simp add: put_keys)

lemma put_all: "\<forall>x\<in>set rs. P x \<Longrightarrow> P r \<Longrightarrow> \<forall>x\<in>set (put_record r rs). P x"
  using put_set by blast

lemma insert_keeps: "find_record i rs = Some r \<Longrightarrow> find_record (key x) rs = None \<Longrightarrow> find_record i (rs @ [x]) = Some r"
  using find_key by (auto simp: find_insert)

lemma put_other: "find_record i rs = Some r \<Longrightarrow> find_record (key x) rs \<noteq> None \<Longrightarrow> key x \<noteq> i \<Longrightarrow> find_record i (put_record x rs) = Some r"
  by (simp add: find_put)

lemma put_domain: "find_record (key x) rs \<noteq> None \<Longrightarrow> find_record i (put_record x rs) = None \<longleftrightarrow> find_record i rs = None"
  by (auto simp: find_put)

lemma find_distinct:
  assumes "distinct (map key rs)" "r \<in> set rs"
  shows "find_record (key r) rs = Some r"
proof -
  obtain x where x: "find_record (key r) rs = Some x" using assms(2) find_None[of "key r" rs] by (cases "find_record (key r) rs") auto
  then have "key x = key r" "x \<in> set rs" using find_key by auto
  with assms have "x = r" by (simp add: distinct_map inj_on_def)
  with x show ?thesis by simp
qed

end

lemma find_mapped: "List.find (\<lambda>x. f x = i) (map (\<lambda>x. if f x = f r then r else x) rs)
    = (if f r = i \<and> (\<exists>x\<in>set rs. f x = f r) then Some r else List.find (\<lambda>x. f x = i) rs)"
  by (induction rs) auto

lemma find_appended: "List.find P (rs @ [r]) = (case List.find P rs of Some x \<Rightarrow> Some x | None \<Rightarrow> if P r then Some r else None)"
  by (induction rs) auto

lemma find_None_keys: "List.find (\<lambda>x. f x = i) rs = None \<longleftrightarrow> i \<notin> f ` set rs"
  by (auto simp: find_None_iff)

lemma keyed_list_repository:
  fixes key :: "'r \<Rightarrow> 'k"
  shows "record_repository (\<lambda>i. List.find (\<lambda>x. key x = i)) (\<lambda>r. map (\<lambda>x. if key x = key r then r else x)) key"
proof
  show "map key (map (\<lambda>x. if key x = key r then r else x) rs) = map key rs" for r rs by (induction rs) auto
next
  fix r rs i
  assume "List.find (\<lambda>x. key x = key r) rs = None"
  then show "List.find (\<lambda>x. key x = i) (rs @ [r]) = (if key r = i then Some r else List.find (\<lambda>x. key x = i) rs)"
    by (auto simp: find_appended split: option.splits)
next
  fix r rs i
  assume "List.find (\<lambda>x. key x = key r) rs \<noteq> None"
  then show "List.find (\<lambda>x. key x = i) (map (\<lambda>x. if key x = key r then r else x) rs) = (if key r = i then Some r else List.find (\<lambda>x. key x = i) rs)"
    using find_mapped[of key i r rs] find_None_keys[of key "key r" rs] by auto
qed (auto simp: find_None_keys dest: find_Some_D)

interpretation cases: record_repository find_case put_case ca_id
  using keyed_list_repository[where key = ca_id] unfolding find_case_def[abs_def] put_case_def[abs_def] .

interpretation entries: record_repository find_evidence put_evidence "\<lambda>e. ed_id (ee_evidence e)"
  using keyed_list_repository[where key = "\<lambda>e. ed_id (ee_evidence e)"] unfolding find_evidence_def[abs_def] put_evidence_def[abs_def] .

section \<open>Normal forms\<close>

definition tags_normal :: "string list \<Rightarrow> bool" where
  "tags_normal ts \<longleftrightarrow> distinct ts \<and> (\<forall>t\<in>set ts. t \<noteq> [] \<and> trim t = t)"

text \<open>The two ways the source writes the normalisation of tags agree.\<close>

lemma uniq_filter: "uniq (filter P xs) = filter P (uniq xs)"
  by (induction xs) (auto intro: filter_cong)

lemma foldl_uniq:
  "foldl (\<lambda>ys x. let t = f x in if t = z \<or> t \<in> set ys then ys else ys @ [t]) ys xs
   = ys @ filter (\<lambda>t. t \<notin> set ys) (uniq (filter (\<lambda>t. t \<noteq> z) (map f xs)))"
proof (induction xs arbitrary: ys)
  case (Cons x xs)
  have "filter (\<lambda>t. t \<noteq> f x \<and> t \<notin> set ys) ts = filter (\<lambda>t. t \<notin> set ys \<and> t \<noteq> f x) ts" for ts by (auto intro: filter_cong)
  with Cons show ?case by (auto simp: Let_def intro!: filter_cong)
qed simp

lemma normalizeTags_evidence_tags [simp]: "normalizeTags vs = evidence_tags vs"
  unfolding normalizeTags_def evidence_tags_def foldl_uniq[where f = trim and z = "[]"] by simp

lemma evidence_tags_normal [simp]: "tags_normal (evidence_tags vs)"
  by (auto simp: tags_normal_def evidence_tags_def)

lemma normalize_ids_distinct [simp]: "distinct (normalize_ids vs)"
  by (simp add: normalize_ids_def)

definition text_normal :: "string option \<Rightarrow> bool" where
  "text_normal v \<longleftrightarrow> (\<forall>t. v = Some t \<longrightarrow> t \<noteq> [] \<and> trim t = t)"

lemma text_normalized [simp]: "text_normal (normalizeDescription w)"
  by (auto simp: text_normal_def normalizeDescription_def split: option.splits)

definition case_normal :: "case_record \<Rightarrow> bool" where
  "case_normal c \<longleftrightarrow> ca_title c \<noteq> [] \<and> trim (ca_title c) = ca_title c \<and> ca_objective c \<noteq> [] \<and> trim (ca_objective c) = ca_objective c
     \<and> text_normal (ca_description c) \<and> tags_normal (ca_tags c)"

definition evidence_normal :: "evidence \<Rightarrow> bool" where
  "evidence_normal e \<longleftrightarrow> (\<forall>h. ed_hash e = Some h \<longrightarrow> length h = 64 \<and> list_all is_hex h) \<and> \<not> bad_unit_num (ed_confidence e)
     \<and> text_normal (ed_summary e)
     \<and> tags_normal (ed_tags e) \<and> distinct (ed_entities e) \<and> distinct (ed_relationships e)"

lemma required_normal: "normalizeRequiredText f v = Inr t \<Longrightarrow> t \<noteq> [] \<and> trim t = t"
  by (auto simp: normalizeRequiredText_def Let_def split: if_splits)

lemma normalized_evidence_fields:
  "normalizeContentHash v = Inr (Some h) \<Longrightarrow> length h = 64 \<and> list_all is_hex h"
  "validateConfidence n = Inr x \<Longrightarrow> x = n \<and> \<not> bad_unit_num n"
  by (auto simp: normalizeContentHash_def validateConfidence_def split: option.splits if_splits)

section \<open>Any calls\<close>

record case_store =
  cs_cases :: "case_record list"
  cs_evidence :: "evidence_entry list"

inductive case_step :: "(string \<Rightarrow> parsed_url option) \<Rightarrow> case_store \<Rightarrow> case_store \<Rightarrow> bool" for parse_url where
  step_create_case: "create_case i (cs_cases s) = Inr (c, cs) \<Longrightarrow> case_step parse_url s (s\<lparr>cs_cases := cs\<rparr>)"
| step_update_case: "update_case i u (cs_cases s) = Inr (c, cs) \<Longrightarrow> case_step parse_url s (s\<lparr>cs_cases := cs\<rparr>)"
| step_transition: "transition_case i t now (cs_cases s) = Inr (c, cs) \<Longrightarrow> case_step parse_url s (s\<lparr>cs_cases := cs\<rparr>)"
| step_create_evidence: "create_evidence parse_url (cs_cases s) ei (cs_evidence s) = Inr (e, es) \<Longrightarrow> case_step parse_url s (s\<lparr>cs_evidence := es\<rparr>)"
| step_update_evidence: "updateMetadata (cs_cases s) i eu (cs_evidence s) = Inr (e, es) \<Longrightarrow> case_step parse_url s (s\<lparr>cs_evidence := es\<rparr>)"

abbreviation case_steps :: "(string \<Rightarrow> parsed_url option) \<Rightarrow> case_store \<Rightarrow> case_store \<Rightarrow> bool" where
  "case_steps parse_url \<equiv> (case_step parse_url)\<^sup>*\<^sup>*"

definition no_cases :: case_store where
  "no_cases = \<lparr>cs_cases = [], cs_evidence = []\<rparr>"

text \<open>Attaching, detaching and linking are updates of the metadata.\<close>

lemma links_are_updates:
  "attachToCase cs i c now es = Inr r \<Longrightarrow> \<exists>u. updateMetadata cs i u es = Inr r"
  "detachFromCase cs i now es = Inr r \<Longrightarrow> \<exists>u. updateMetadata cs i u es = Inr r"
  "linkEntity cs i x now es = Inr r \<Longrightarrow> \<exists>u. updateMetadata cs i u es = Inr r"
  "unlinkEntity cs i x now es = Inr r \<Longrightarrow> \<exists>u. updateMetadata cs i u es = Inr r"
  "linkRelationship cs i x now es = Inr r \<Longrightarrow> \<exists>u. updateMetadata cs i u es = Inr r"
  "unlinkRelationship cs i x now es = Inr r \<Longrightarrow> \<exists>u. updateMetadata cs i u es = Inr r"
  by (auto simp: attachToCase_def detachFromCase_def linkEntity_def unlinkEntity_def linkRelationship_def unlinkRelationship_def rbind_Inr_iff)
section \<open>What every call keeps\<close>

definition store_normal :: "case_store \<Rightarrow> bool" where
  "store_normal s \<longleftrightarrow> distinct (map ca_id (cs_cases s)) \<and> distinct (map (\<lambda>e. ed_id (ee_evidence e)) (cs_evidence s))
     \<and> (\<forall>c\<in>set (cs_cases s). case_normal c)
     \<and> (\<forall>e\<in>set (cs_evidence s). evidence_normal (ee_evidence e)
          \<and> (\<forall>c. ed_case (ee_evidence e) = Some c \<longrightarrow> c \<noteq> [] \<longrightarrow> find_case c (cs_cases s) \<noteq> None))"

lemma require_mutable_Inr:
  "require_mutable_case i now cs = Inr c \<longleftrightarrow> find_case i cs = Some c \<and> ca_status c \<noteq> CaseArchived \<and> ca_updated c < now"
  by (auto simp: require_mutable_case_def rbind_Inr_iff split: option.splits)

lemma require_evidence_Inr: "require_evidence i es = Inr e \<longleftrightarrow> find_evidence i es = Some e"
  by (auto simp: require_evidence_def split: option.splits)

text \<open>A successful call on Cases inserts a new one or replaces one that may change.\<close>

definition case_rank :: "case_status \<Rightarrow> nat" where
  "case_rank s = (case s of CaseDraft \<Rightarrow> 0 | CaseActive \<Rightarrow> 1 | CaseCompleted \<Rightarrow> 2 | CaseArchived \<Rightarrow> 3)"

interpretation case_life: ranked_lifecycle case_transitions "\<lambda>s. s = CaseArchived" case_rank
  by unfold_locales (auto simp: case_transitions_def case_rank_def split: case_status.splits)

definition case_follows :: "case_record \<Rightarrow> case_record \<Rightarrow> bool" where
  "case_follows c c' \<longleftrightarrow> ca_id c' = ca_id c \<and> ca_created c' = ca_created c \<and> case_rank (ca_status c) \<le> case_rank (ca_status c')
     \<and> (c' = c \<or> ca_updated c < ca_updated c' \<and> ca_status c \<noteq> CaseArchived)"

lemma case_follows_refl [simp]: "case_follows c c"
  by (simp add: case_follows_def)

lemma case_follows_trans: "case_follows a b \<Longrightarrow> case_follows b c \<Longrightarrow> case_follows a c"
  by (auto simp: case_follows_def)

lemma created_case:
  assumes "create_case i cs = Inr (c, cs')"
  shows "cs' = cs @ [c] \<and> find_case (ca_id c) cs = None \<and> case_normal c"
  using assms by (auto simp: create_case_def rbind_Inr_iff Let_def case_normal_def dest: required_normal)

lemma updated_case:
  assumes "update_case i u cs = Inr (c', cs')"
  shows "\<exists>c. find_case i cs = Some c \<and> case_follows c c' \<and> cs' = put_case c' cs \<and> (case_normal c \<longrightarrow> case_normal c')"
proof -
  from assms obtain c where c: "find_case i cs = Some c" "ca_status c \<noteq> CaseArchived" "ca_updated c < uc_updated u"
    and rest: "rbind (case uc_title u of None \<Rightarrow> Inr (ca_title c) | Some t \<Rightarrow> normalizeRequiredText ''title'' t) (\<lambda>title.
     rbind (case uc_objective u of None \<Rightarrow> Inr (ca_objective c) | Some t \<Rightarrow> normalizeRequiredText ''objective'' t) (\<lambda>objective.
     let c' = c\<lparr>ca_title := title, ca_objective := objective,
        ca_description := (case uc_description u of Keep \<Rightarrow> ca_description c | Clear \<Rightarrow> normalizeDescription None | Put d \<Rightarrow> normalizeDescription (Some d)),
        ca_tags := (case uc_tags u of None \<Rightarrow> ca_tags c | Some ts \<Rightarrow> normalizeTags (Some ts)), ca_updated := uc_updated u\<rparr> in
     Inr (c', put_case c' cs))) = Inr (c', cs')"
    by (auto simp: update_case_def rbind_Inr_iff require_mutable_Inr)
  have "case_normal c \<longrightarrow> case_normal c'"
    using rest by (auto simp: rbind_Inr_iff Let_def case_normal_def dest: required_normal split: option.splits patch.splits)
  then show ?thesis using c rest by (auto simp: rbind_Inr_iff Let_def case_follows_def)
qed

lemma transitioned_case:
  assumes "transition_case i t now cs = Inr (c', cs')"
  shows "\<exists>c. find_case i cs = Some c \<and> case_follows c c' \<and> cs' = put_case c' cs \<and> (case_normal c \<longrightarrow> case_normal c')"
proof -
  from assms obtain c where c: "find_case i cs = Some c" "ca_status c \<noteq> CaseArchived" "ca_updated c < now" "canTransition (ca_status c) t"
    "c' = c\<lparr>ca_status := t, ca_updated := now\<rparr>" "cs' = put_case c' cs"
    by (auto simp: transition_case_def rbind_Inr_iff require_mutable_Inr Let_def)
  then have "case_rank (ca_status c) \<le> case_rank t" using case_life.step_rank by (simp add: canTransition_def less_imp_le)
  with c show ?thesis by (auto simp: case_follows_def case_normal_def)
qed

text \<open>What was captured never changes.\<close>

definition evidence_follows :: "evidence_entry \<Rightarrow> evidence_entry \<Rightarrow> bool" where
  "evidence_follows a b \<longleftrightarrow> (let e = ee_evidence a; e' = ee_evidence b in
     ed_id e' = ed_id e \<and> ed_source_url e' = ed_source_url e \<and> ed_content_type e' = ed_content_type e \<and> ed_mime e' = ed_mime e
     \<and> ed_ref e' = ed_ref e \<and> ed_hash e' = ed_hash e \<and> ed_raw e' = ed_raw e \<and> ed_captured e' = ed_captured e
     \<and> ed_method e' = ed_method e \<and> ed_selector e' = ed_selector e) \<and> (b = a \<or> ee_updated a < ee_updated b)"

lemma evidence_follows_refl [simp]: "evidence_follows a a"
  by (simp add: evidence_follows_def Let_def)

lemma evidence_follows_trans: "evidence_follows a b \<Longrightarrow> evidence_follows b c \<Longrightarrow> evidence_follows a c"
  by (auto simp: evidence_follows_def Let_def)

text \<open>A Case that may take the Evidence \<open>e\<close> is there and not archived.\<close>

definition case_accepts :: "case_record list \<Rightarrow> evidence \<Rightarrow> bool" where
  "case_accepts cs e \<longleftrightarrow> (\<forall>c. ed_case e = Some c \<longrightarrow> c \<noteq> [] \<longrightarrow> (\<exists>r. find_case c cs = Some r \<and> ca_status r \<noteq> CaseArchived))"

lemma accepts_Inr: "assertCaseAcceptsEvidence cs i c = Inr u \<longleftrightarrow> (\<exists>r. find_case c cs = Some r \<and> ca_status r \<noteq> CaseArchived)"
  by (auto simp: assertCaseAcceptsEvidence_def split: option.splits)

lemma created_evidence:
  assumes "create_evidence parse_url cs i es = Inr (e, es')"
  shows "\<exists>now. es' = es @ [\<lparr>ee_evidence = e, ee_updated = now\<rparr>] \<and> find_evidence (ed_id e) es = None \<and> evidence_normal e \<and> case_accepts cs e"
  using assms
  by (auto simp: create_evidence_def rbind_Inr_iff Let_def evidence_normal_def case_accepts_def accepts_Inr dest: normalized_evidence_fields
      split: option.splits if_splits)

lemma patched_fields [simp]:
  "ed_id (patched_evidence u n e) = ed_id e" "ed_case (patched_evidence u n e) = next_case u e" "ed_confidence (patched_evidence u n e) = n"
  "ed_hash (patched_evidence u n e) = ed_hash e" "ed_raw (patched_evidence u n e) = ed_raw e" "ed_captured (patched_evidence u n e) = ed_captured e"
  "ed_source_url (patched_evidence u n e) = ed_source_url e" "ed_content_type (patched_evidence u n e) = ed_content_type e"
  "ed_mime (patched_evidence u n e) = ed_mime e" "ed_ref (patched_evidence u n e) = ed_ref e" "ed_method (patched_evidence u n e) = ed_method e"
  "ed_selector (patched_evidence u n e) = ed_selector e"
  by (simp_all add: patched_evidence_def)

lemma patched_normal:
  assumes "evidence_normal e" "\<not> bad_unit_num n"
  shows "evidence_normal (patched_evidence u n e)"
proof -
  have "text_normal (ed_summary (patched_evidence u n e))"
    using assms by (auto simp: patched_evidence_def evidence_normal_def split: patch.splits)
  moreover have "tags_normal (ed_tags (patched_evidence u n e))" "distinct (ed_entities (patched_evidence u n e))" "distinct (ed_relationships (patched_evidence u n e))"
    using assms by (auto simp: patched_evidence_def evidence_normal_def split: option.splits)
  ultimately show ?thesis using assms by (simp add: evidence_normal_def)
qed

lemma updated_evidence:
  assumes "updateMetadata cs i u es = Inr (e', es')"
  shows "\<exists>a. find_evidence i es = Some a \<and> evidence_follows a \<lparr>ee_evidence = e', ee_updated = ue_updated u\<rparr>
    \<and> es' = put_evidence \<lparr>ee_evidence = e', ee_updated = ue_updated u\<rparr> es
    \<and> (evidence_normal (ee_evidence a) \<longrightarrow> evidence_normal e') \<and> (ed_case e' = ed_case (ee_evidence a) \<or> case_accepts cs e')"
proof -
  from assms obtain a n where a: "find_evidence i es = Some a" "ee_updated a < ue_updated u"
    and accepts: "(case next_case u (ee_evidence a) of None \<Rightarrow> Inr ()
        | Some c \<Rightarrow> if c = [] \<or> Some c = ed_case (ee_evidence a) then Inr () else assertCaseAcceptsEvidence cs i c) = Inr ()"
    and n: "(case ue_confidence u of None \<Rightarrow> Inr (ed_confidence (ee_evidence a)) | Some n \<Rightarrow> validateConfidence n) = Inr n"
    and e': "e' = patched_evidence u n (ee_evidence a)" and es': "es' = put_evidence \<lparr>ee_evidence = e', ee_updated = ue_updated u\<rparr> es"
    by (auto simp: updateMetadata_def rbind_Inr_iff require_evidence_Inr Let_def)
  have "evidence_normal (ee_evidence a) \<longrightarrow> evidence_normal e'"
    using n patched_normal e' by (auto simp: evidence_normal_def dest: normalized_evidence_fields split: option.splits)
  moreover have "evidence_follows a \<lparr>ee_evidence = e', ee_updated = ue_updated u\<rparr>"
    using a(2) by (simp add: evidence_follows_def e')
  moreover have "ed_case e' = ed_case (ee_evidence a) \<or> case_accepts cs e'"
    using accepts by (auto simp: e' case_accepts_def accepts_Inr split: if_splits)
  ultimately show ?thesis using a(1) es' by blast
qed
section \<open>Steps\<close>

lemma cases_put_follows:
  assumes "find_case i cs = Some a" "case_follows a c'" "find_case j cs = Some c"
  shows "\<exists>x. find_case j (put_case c' cs) = Some x \<and> case_follows c x"
proof (cases "ca_id c' = j")
  case True
  have "ca_id a = i" using cases.find_key assms(1) by blast
  moreover have "ca_id c' = ca_id a" using assms(2) by (simp add: case_follows_def)
  ultimately have "c = a" using True assms(1,3) by simp
  with True assms show ?thesis by (simp add: cases.find_put \<open>ca_id a = i\<close> \<open>ca_id c' = ca_id a\<close>)
next
  case False
  have "ca_id c' = i" using cases.find_key assms(1,2) by (auto simp: case_follows_def)
  with False assms show ?thesis by (simp add: cases.find_put)
qed

lemma step_case_follows:
  "case_step parse_url s s' \<Longrightarrow> find_case j (cs_cases s) = Some c \<Longrightarrow> \<exists>c'. find_case j (cs_cases s') = Some c' \<and> case_follows c c'"
proof (induction rule: case_step.induct)
  case (step_create_case i s x cs)
  then show ?case using created_case[OF step_create_case.hyps] cases.insert_keeps[of j "cs_cases s" c x] by auto
next
  case (step_update_case i u s x cs)
  then show ?case using updated_case[OF step_update_case.hyps] cases_put_follows by fastforce
next
  case (step_transition i t now s x cs)
  then show ?case using transitioned_case[OF step_transition.hyps] cases_put_follows by fastforce
qed auto

lemma entries_put_follows:
  assumes "find_evidence i es = Some a" "evidence_follows a b" "find_evidence j es = Some e"
  shows "\<exists>x. find_evidence j (put_evidence b es) = Some x \<and> evidence_follows e x"
proof -
  have i: "ed_id (ee_evidence b) = i" "ed_id (ee_evidence a) = i"
    using entries.find_key assms(1,2) by (auto simp: evidence_follows_def Let_def)
  then show ?thesis using assms by (cases "i = j") (simp_all add: entries.find_put)
qed

lemma step_evidence_follows:
  "case_step parse_url s s' \<Longrightarrow> find_evidence j (cs_evidence s) = Some e \<Longrightarrow> \<exists>e'. find_evidence j (cs_evidence s') = Some e' \<and> evidence_follows e e'"
proof (induction rule: case_step.induct)
  case (step_create_evidence s ei x es)
  then show ?case
    using created_evidence[OF step_create_evidence.hyps] entries.insert_keeps[of j "cs_evidence s" e "\<lparr>ee_evidence = x, ee_updated = now\<rparr>" for now] by auto
next
  case (step_update_evidence s i eu x es)
  then show ?case using updated_evidence[OF step_update_evidence.hyps] entries_put_follows by fastforce
qed auto

lemma steps_follow:
  assumes "case_steps parse_url s s'"
  shows "find_case i (cs_cases s) = Some c \<Longrightarrow> \<exists>c'. find_case i (cs_cases s') = Some c' \<and> case_follows c c'"
    and "find_evidence j (cs_evidence s) = Some e \<Longrightarrow> \<exists>e'. find_evidence j (cs_evidence s') = Some e' \<and> evidence_follows e e'"
  using assms
proof (induction rule: rtranclp_induct)
  case (step y z)
  { case 1 then show ?case using step.IH(1) step_case_follows[OF step.hyps(2)] case_follows_trans by blast }
  { case 2 then show ?case using step.IH(2) step_evidence_follows[OF step.hyps(2)] evidence_follows_trans by blast }
qed auto

lemma case_domain_mono: "case_step parse_url s s' \<Longrightarrow> find_case i (cs_cases s) \<noteq> None \<Longrightarrow> find_case i (cs_cases s') \<noteq> None"
  using step_case_follows by fastforce

lemma step_store_normal: "case_step parse_url s s' \<Longrightarrow> store_normal s \<Longrightarrow> store_normal s'"
proof (induction rule: case_step.induct)
  case (step_create_case i s c cs)
  note new = created_case[OF step_create_case.hyps]
  have "find_case j cs \<noteq> None" if "find_case j (cs_cases s) \<noteq> None" for j
    using new that by (auto simp: cases.find_insert)
  then show ?case using step_create_case.prems new cases.insert_distinct by (auto simp: store_normal_def)
next
  case (step_update_case i u s c' cs)
  then obtain c where c: "find_case i (cs_cases s) = Some c" "case_follows c c'" "cs = put_case c' (cs_cases s)" "case_normal c \<longrightarrow> case_normal c'"
    using updated_case by blast
  then have "find_case (ca_id c') (cs_cases s) \<noteq> None" "case_normal c'"
    using cases.find_key[OF c(1)] step_update_case.prems by (auto simp: case_follows_def store_normal_def)
  then show ?case using step_update_case.prems c(3) cases.put_all[of "cs_cases s" case_normal c'] cases.put_domain cases.put_distinct
    by (auto simp: store_normal_def)
next
  case (step_transition i t now s c' cs)
  then obtain c where c: "find_case i (cs_cases s) = Some c" "case_follows c c'" "cs = put_case c' (cs_cases s)" "case_normal c \<longrightarrow> case_normal c'"
    using transitioned_case by blast
  then have "find_case (ca_id c') (cs_cases s) \<noteq> None" "case_normal c'"
    using cases.find_key[OF c(1)] step_transition.prems by (auto simp: case_follows_def store_normal_def)
  then show ?case using step_transition.prems c(3) cases.put_all[of "cs_cases s" case_normal c'] cases.put_domain cases.put_distinct
    by (auto simp: store_normal_def)
next
  case (step_create_evidence s ei e es)
  then obtain now where "es = cs_evidence s @ [\<lparr>ee_evidence = e, ee_updated = now\<rparr>]" "find_evidence (ed_id e) (cs_evidence s) = None"
    "evidence_normal e" "case_accepts (cs_cases s) e" using created_evidence by blast
  then show ?case using step_create_evidence.prems entries.insert_distinct[of "\<lparr>ee_evidence = e, ee_updated = now\<rparr>"]
    by (auto simp: store_normal_def case_accepts_def)
next
  case (step_update_evidence s i u e' es)
  let ?P = "\<lambda>b. evidence_normal (ee_evidence b) \<and> (\<forall>c. ed_case (ee_evidence b) = Some c \<longrightarrow> c \<noteq> [] \<longrightarrow> find_case c (cs_cases s) \<noteq> None)"
  from step_update_evidence obtain a where a: "find_evidence i (cs_evidence s) = Some a" "evidence_normal (ee_evidence a) \<longrightarrow> evidence_normal e'"
    "es = put_evidence \<lparr>ee_evidence = e', ee_updated = ue_updated u\<rparr> (cs_evidence s)"
    "ed_case e' = ed_case (ee_evidence a) \<or> case_accepts (cs_cases s) e'" using updated_evidence by blast
  have "?P a" using step_update_evidence.prems entries.find_key[OF a(1)] by (auto simp: store_normal_def)
  then have "?P \<lparr>ee_evidence = e', ee_updated = ue_updated u\<rparr>" using a by (auto simp: case_accepts_def)
  then have "\<forall>b\<in>set es. ?P b" using step_update_evidence.prems unfolding a(3) by (intro entries.put_all) (auto simp: store_normal_def)
  then show ?case using step_update_evidence.prems entries.put_distinct by (auto simp: store_normal_def a(3))
qed

lemma reachable_store_normal: "case_steps parse_url no_cases s \<Longrightarrow> store_normal s"
proof (induction rule: rtranclp_induct)
  case base
  then show ?case by (simp add: store_normal_def no_cases_def)
qed (rule step_store_normal)

text \<open>The Evidence of a Case.\<close>

definition evidence_of :: "string \<Rightarrow> case_store \<Rightarrow> string set" where
  "evidence_of i s = {ed_id (ee_evidence e) | e. e \<in> set (cs_evidence s) \<and> ed_case (ee_evidence e) = Some i}"

lemma step_archived_shrinks:
  assumes "case_step parse_url s s'" "find_case i (cs_cases s) = Some c" "ca_status c = CaseArchived" "i \<noteq> []"
  shows "evidence_of i s' \<subseteq> evidence_of i s"
  using assms
proof (induction rule: case_step.induct)
  case (step_create_evidence s ei e es)
  then obtain now where "es = cs_evidence s @ [\<lparr>ee_evidence = e, ee_updated = now\<rparr>]" "case_accepts (cs_cases s) e" using created_evidence by blast
  then show ?case using step_create_evidence.prems by (auto simp: evidence_of_def case_accepts_def)
next
  case (step_update_evidence s j u e' es)
  then obtain a where a: "find_evidence j (cs_evidence s) = Some a" "evidence_follows a \<lparr>ee_evidence = e', ee_updated = ue_updated u\<rparr>"
    "es = put_evidence \<lparr>ee_evidence = e', ee_updated = ue_updated u\<rparr> (cs_evidence s)"
    "ed_case e' = ed_case (ee_evidence a) \<or> case_accepts (cs_cases s) e'" using updated_evidence by blast
  have "ed_id e' = ed_id (ee_evidence a)" "a \<in> set (cs_evidence s)"
    using a(2) entries.find_key[OF a(1)] by (auto simp: evidence_follows_def Let_def)
  moreover have "ed_case (ee_evidence a) = Some i" if "ed_case e' = Some i"
    using a(4) that step_update_evidence.prems by (auto simp: case_accepts_def)
  moreover have "set es \<subseteq> insert \<lparr>ee_evidence = e', ee_updated = ue_updated u\<rparr> (set (cs_evidence s))" using a(3) entries.put_set by blast
  ultimately show ?case by (fastforce simp: evidence_of_def)
qed (auto simp: evidence_of_def)

text \<open>
  C15. An archived Case is closed. Whatever calls follow, an archived Case stays as it is, and no Evidence is ever added to
  it: the Evidence it has can only leave it.
\<close>

theorem archived_case_closed:
  assumes "case_steps parse_url s s'" "find_case i (cs_cases s) = Some c" "ca_status c = CaseArchived" "i \<noteq> []"
  shows "find_case i (cs_cases s') = Some c \<and> evidence_of i s' \<subseteq> evidence_of i s"
  using assms(1)
proof (induction rule: rtranclp_induct)
  case (step y z)
  then have "find_case i (cs_cases z) = Some c"
    using step_case_follows[OF step.hyps(2)] assms(3) by (fastforce simp: case_follows_def)
  with step step_archived_shrinks[OF step.hyps(2) _ assms(3,4)] show ?case by blast
qed (use assms in simp)

text \<open>
  C16. Cases and Evidence stay in order. In every store that calls can reach, ids are different, the texts and tags of Cases are
  trimmed and without blanks or repetitions, Evidence has a confidence between 0 and 1, a SHA-256 digest or none and lists without
  repetitions, and the Case a record of Evidence names exists. Along every run a Case keeps its id and its creation, moves
  forward in its lifecycle and in time with every change, and a record of Evidence keeps everything that was captured.
\<close>

theorem cases_and_evidence_ordered:
  assumes "case_steps parse_url no_cases s" "case_steps parse_url s s'"
  shows "store_normal s' \<and> (\<forall>c\<in>set (cs_cases s). \<exists>c'. find_case (ca_id c) (cs_cases s') = Some c' \<and> case_follows c c')
    \<and> (\<forall>e\<in>set (cs_evidence s). \<exists>e'. find_evidence (ed_id (ee_evidence e)) (cs_evidence s') = Some e' \<and> evidence_follows e e')"
proof -
  have s: "store_normal s" "store_normal s'" using reachable_store_normal assms by (auto intro: rtranclp_trans)
  then have "find_case (ca_id c) (cs_cases s) = Some c" if "c \<in> set (cs_cases s)" for c
    using that cases.find_distinct by (simp add: store_normal_def)
  moreover have "find_evidence (ed_id (ee_evidence e)) (cs_evidence s) = Some e" if "e \<in> set (cs_evidence s)" for e
    using that s entries.find_distinct by (simp add: store_normal_def)
  ultimately show ?thesis using s steps_follow[OF assms(2)] by blast
qed
text \<open>
  Unlinking undoes linking. When an entity that the Evidence does not have is linked and then unlinked, at later and later
  instants, both calls succeed and the record is as before, but for the instant of its last update.
\<close>

theorem unlink_undoes_link:
  assumes "case_steps parse_url no_cases s" "find_evidence i (cs_evidence s) = Some a" "x \<notin> set (ed_entities (ee_evidence a))"
    and "ee_updated a < t1" "t1 < t2"
  shows "\<exists>e1 es1. linkEntity (cs_cases s) i x t1 (cs_evidence s) = Inr (e1, es1) \<and> ed_entities e1 = ed_entities (ee_evidence a) @ [x]
    \<and> unlinkEntity (cs_cases s) i x t2 es1 = Inr (ee_evidence a, put_evidence (a\<lparr>ee_updated := t2\<rparr>) es1)
    \<and> find_evidence i (put_evidence (a\<lparr>ee_updated := t2\<rparr>) es1) = Some (a\<lparr>ee_updated := t2\<rparr>)"
proof -
  let ?e = "ee_evidence a"
  have i: "ed_id ?e = i" "a \<in> set (cs_evidence s)" using entries.find_key[OF assms(2)] by auto
  then have d: "distinct (ed_entities ?e)"
    using reachable_store_normal[OF assms(1)] by (auto simp: store_normal_def evidence_normal_def)
  have link: "normalize_ids (Some (ed_entities ?e @ [x])) = ed_entities ?e @ [x]"
    using d assms(3) by (simp add: normalize_ids_def or_nil_def uniq_distinct)
  define e1 where "e1 = ?e\<lparr>ed_entities := ed_entities ?e @ [x]\<rparr>"
  define b where "b = \<lparr>ee_evidence = e1, ee_updated = t1\<rparr>"
  have later: "(t1 \<le> ee_updated a) = False" "(t2 \<le> t1) = False" using assms(4,5) by (simp_all add: not_le)
  have accept: "(case ed_case e of None \<Rightarrow> Inr () | Some c \<Rightarrow> if c = [] \<or> Some c = ed_case e then Inr () else assertCaseAcceptsEvidence cs i c) = Inr ()"
    for e cs by (simp split: option.splits)
  have "linkEntity (cs_cases s) i x t1 (cs_evidence s) = Inr (e1, put_evidence b (cs_evidence s))"
    using assms(2) by (simp add: later linkEntity_def require_evidence_def updateMetadata_def no_update_def next_case_def patched_evidence_def accept link
        Let_def e1_def b_def)
  moreover have fb: "find_evidence i (put_evidence b (cs_evidence s)) = Some b"
    using assms(2) i(1) by (simp add: entries.find_put b_def e1_def)
  have kept: "filter (\<lambda>v. v \<noteq> x) (ed_entities ?e @ [x]) = ed_entities ?e" using assms(3) by (simp add: filter_id_conv) blast
  have "normalize_ids (Some (ed_entities ?e)) = ed_entities ?e" using d by (simp add: normalize_ids_def or_nil_def uniq_distinct)
  note same = this
  have b: "ee_evidence b = e1" "ee_updated b = t1" "ed_entities e1 = ed_entities ?e @ [x]" "e1\<lparr>ed_entities := y\<rparr> = ?e\<lparr>ed_entities := y\<rparr>"
      "?e\<lparr>ed_entities := ed_entities ?e\<rparr> = ?e" "\<lparr>ee_evidence = ?e, ee_updated = t2\<rparr> = a\<lparr>ee_updated := t2\<rparr>" for y
    by (simp_all add: b_def e1_def)
  have "unlinkEntity (cs_cases s) i x t2 (put_evidence b (cs_evidence s)) = Inr (?e, put_evidence (a\<lparr>ee_updated := t2\<rparr>) (put_evidence b (cs_evidence s)))"
    using kept same by (simp add: later unlinkEntity_def require_evidence_def fb updateMetadata_def no_update_def next_case_def patched_evidence_def accept
        Let_def b)
  moreover have "find_evidence i (put_evidence (a\<lparr>ee_updated := t2\<rparr>) (put_evidence b (cs_evidence s))) = Some (a\<lparr>ee_updated := t2\<rparr>)"
    using fb i(1) by (simp add: entries.find_put)
  ultimately show ?thesis by (intro exI conjI) (auto simp: e1_def)
qed
section \<open>A run\<close>

definition case_one :: case_record where
  "case_one = \<lparr>ca_id = ''c1'', ca_title = ''Grants'', ca_objective = ''Find grants'', ca_description = None, ca_status = CaseDraft, ca_tags = [''eu''],
     ca_created = ''t1'', ca_updated = ''t1''\<rparr>"

definition evidence_one :: evidence where
  "evidence_one = \<lparr>ed_id = ''e1'', ed_case = Some ''c1'', ed_source_url = None, ed_content_type = ContentText, ed_mime = None, ed_ref = None, ed_hash = None,
     ed_raw = Some ''text'', ed_summary = None, ed_captured = ''t2'', ed_method = None, ed_selector = None, ed_confidence = Fin 1, ed_tags = [],
     ed_entities = [''x''], ed_relationships = []\<rparr>"

definition store_open :: case_store where
  "store_open = \<lparr>cs_cases = [case_one], cs_evidence = [\<lparr>ee_evidence = evidence_one, ee_updated = ''t2''\<rparr>]\<rparr>"

definition store_closed :: case_store where
  "store_closed = store_open\<lparr>cs_cases := [case_one\<lparr>ca_status := CaseArchived, ca_updated := ''t3''\<rparr>]\<rparr>"

definition store_detached :: case_store where
  "store_detached = store_closed\<lparr>cs_evidence := [\<lparr>ee_evidence = evidence_one\<lparr>ed_case := None\<rparr>, ee_updated = ''t4''\<rparr>]\<rparr>"

lemma sample_open: "case_steps (\<lambda>_. None) no_cases store_open"
proof -
  have "create_case \<lparr>cc_id = ''c1'', cc_title = '' Grants'', cc_objective = ''Find grants '', cc_description = Some '' '', cc_tags = Some [''eu'', '' eu'', []],
      cc_created = ''t1''\<rparr> (cs_cases no_cases) = Inr (case_one, [case_one])" by code_simp
  from step_create_case[OF this] have "case_step (\<lambda>_. None) no_cases (no_cases\<lparr>cs_cases := [case_one]\<rparr>)" .
  moreover have "create_evidence (\<lambda>_. None) (cs_cases (no_cases\<lparr>cs_cases := [case_one]\<rparr>)) \<lparr>ce_id = ''e1'', ce_case = Some ''c1'', ce_source_url = None,
      ce_content_type = ContentText, ce_mime = None, ce_ref = None, ce_hash = None, ce_raw = Some ''text'', ce_summary = None, ce_captured = ''t2'',
      ce_method = None, ce_selector = None, ce_confidence = Fin 1, ce_tags = None, ce_entities = Some [''x'', ''x''], ce_relationships = None\<rparr>
      (cs_evidence (no_cases\<lparr>cs_cases := [case_one]\<rparr>)) = Inr (evidence_one, cs_evidence store_open)" by code_simp
  from step_create_evidence[OF this] have "case_step (\<lambda>_. None) (no_cases\<lparr>cs_cases := [case_one]\<rparr>) store_open"
    by (simp add: store_open_def no_cases_def)
  ultimately show ?thesis by (meson rtranclp.rtrancl_into_rtrancl rtranclp.rtrancl_refl)
qed

lemma sample_closed: "case_step (\<lambda>_. None) store_open store_closed"
proof -
  have "transition_case ''c1'' CaseArchived ''t3'' (cs_cases store_open)
      = Inr (case_one\<lparr>ca_status := CaseArchived, ca_updated := ''t3''\<rparr>, cs_cases store_closed)" by code_simp
  from step_transition[OF this] show ?thesis by (simp add: store_closed_def)
qed

lemma sample_detached: "case_step (\<lambda>_. None) store_closed store_detached"
proof -
  have "updateMetadata (cs_cases store_closed) ''e1'' ((no_update ''t4'')\<lparr>ue_case := Clear\<rparr>) (cs_evidence store_closed)
      = Inr (evidence_one\<lparr>ed_case := None\<rparr>, cs_evidence store_detached)" by code_simp
  from step_update_evidence[OF this] show ?thesis by (simp add: store_detached_def)
qed

theorem archived_case_closed_witness:
  "find_case ''c1'' (cs_cases store_detached) = find_case ''c1'' (cs_cases store_closed) \<and> evidence_of ''c1'' store_detached \<subseteq> {''e1''}"
proof -
  have c: "find_case ''c1'' (cs_cases store_closed) = Some (case_one\<lparr>ca_status := CaseArchived, ca_updated := ''t3''\<rparr>)" by code_simp
  have "case_steps (\<lambda>_. None) store_closed store_detached" using sample_detached by (rule r_into_rtranclp)
  from archived_case_closed[OF this c] have "find_case ''c1'' (cs_cases store_detached) = find_case ''c1'' (cs_cases store_closed)"
    "evidence_of ''c1'' store_detached \<subseteq> evidence_of ''c1'' store_closed" by (simp_all add: c)
  moreover have "evidence_of ''c1'' store_closed \<subseteq> {''e1''}" by (auto simp: evidence_of_def store_closed_def store_open_def evidence_one_def)
  ultimately show ?thesis by blast
qed

theorem cases_and_evidence_ordered_witness:
  "store_normal store_detached
    \<and> (\<exists>e'. find_evidence ''e1'' (cs_evidence store_detached) = Some e' \<and> evidence_follows \<lparr>ee_evidence = evidence_one, ee_updated = ''t2''\<rparr> e')"
proof -
  have "case_steps (\<lambda>_. None) store_open store_detached"
    using sample_closed sample_detached by (meson rtranclp.rtrancl_into_rtrancl rtranclp.rtrancl_refl)
  from cases_and_evidence_ordered[OF sample_open this] show ?thesis by (simp add: store_open_def evidence_one_def)
qed

theorem unlink_undoes_link_witness:
  "\<exists>e1 es1. linkEntity (cs_cases store_open) ''e1'' ''y'' ''t3'' (cs_evidence store_open) = Inr (e1, es1) \<and> ed_entities e1 = [''x'', ''y'']
    \<and> (\<exists>es2. unlinkEntity (cs_cases store_open) ''e1'' ''y'' ''t4'' es1 = Inr (evidence_one, es2))"
proof -
  have "find_evidence ''e1'' (cs_evidence store_open) = Some \<lparr>ee_evidence = evidence_one, ee_updated = ''t2''\<rparr>" by code_simp
  moreover have "''y'' \<notin> set (ed_entities evidence_one)" by code_simp
  moreover have "''t2'' < ''t3''" "''t3'' < ''t4''" by code_simp+
  moreover have "ed_entities evidence_one = [''x'']" by code_simp
  ultimately show ?thesis
    using unlink_undoes_link[OF sample_open, of "''e1''" "\<lparr>ee_evidence = evidence_one, ee_updated = ''t2''\<rparr>" "''y''" "''t3''" "''t4''"] by auto
qed

end
