(* ===== verification/Spec2Isabelle.thy ===== *)
theory Spec2Isabelle
  imports Mission_Engine Gated_Plans Execution Memory_Service Memory_Records Memory_Reconciliation Scheduler Notification
    Trigger Hermes_Boundary Research Evidence_Planner Goal_Evaluation Memory_Recovery Failure_Prevention Evidence_Support
    Mission_Leases Case_Evidence
begin

text \<open>
  A verification development for Internet Brain OS: for its kernel (\<open>packages/kernel/src\<close>), the part of the repository that
  decides what an agent may do, records what it did and governs what it remembers, and for the missions of the local
  kernel (\<open>apps/local-kernel\<close>), which lets an agent search the public web for the Goals of a user.

  The program. A user's Goal (\<open>goal/goal-contract.ts\<close>) names the capabilities and data scopes it allows.
  A plan for the Goal is proposed in revisions (\<open>proposed-plan/proposed-plan-manager.ts\<close>), behind a gate
  that asks the capability registry (\<open>capability/capability-registry.ts\<close>) for every capability the plan
  requests (\<open>capability/capability-gated-proposed-plan-service.ts\<close>). The risk of a revision is assessed
  and a human decision is recorded for it (\<open>approval/\<close>). The execution engine (\<open>execution/execution-engine.ts\<close>)
  calls an adapter for one capability of an approved revision, at most once per idempotency key. Missions
  (\<open>mission/mission-engine.ts\<close>) are planned, run task by task against evidence, and produce claims that pass three gates before
  they count as knowledge; runs of the external agent Hermes come in through an authenticated boundary
  (\<open>orchestration/\<close>) and pass the same gates. The scheduler (\<open>scheduler/scheduler-engine.ts\<close>) claims runs of plans at due
  instants, triggers fire on observations, the notification gateway keeps what the user is told. Memories (\<open>memory/\<close>) are
  records with a lifecycle of authority: receipts of approved transitions, chained by revision and digest, from
  which the state of a memory is projected, reconciled at start-up, and used to gate retrieval. In the local kernel a
  mission is confirmed by the user, leased to an agent that returns candidate pages, and settled by the kernel, which
  reads the pages itself (\<open>web.read\<close>) and decides SUPPORT for the Goal.

  The theories, from the ground up.
  \<^item> \<open>Kernel_Prelude\<close>: results with an error on the left (\<open>rbind\<close>, \<open>map_res\<close>, \<open>each_res\<close> for \<open>throw\<close> in
    sequence and in loops), \<open>trim\<close> and the cleaning of text fields, insertion-ordered sets, sorting by code
    units and by a collation, JavaScript numbers (finite rationals, infinities, NaN); the interfaces
    \<open>append_log\<close>, \<open>keyed_log\<close>, \<open>lifecycle\<close>, \<open>ranked_lifecycle\<close>, interpreted by the components.
  \<^item> \<open>Stable_Hash\<close>, \<open>Stable_Injective\<close>: JavaScript values, their canonical serialisation (\<open>utils/hash.ts\<close>), and that it
    tells different values apart.
  \<^item> \<open>Goal_Contract\<close>, \<open>Capability\<close>, \<open>Gated_Plans\<close>: Goals, the registry and its authorization, the gate.
  \<^item> \<open>Mission_Types\<close>, \<open>Mission_Engine\<close>, \<open>Evidence_Planner\<close>: missions, plan validation with its depth-first cycle search, the
    lifecycle as functions and as a step relation; the planner that asks for evidence.
  \<^item> \<open>Mission_Execution\<close>, \<open>Claim_Pipeline\<close>: the tasks of a mission and their evidence; task results, claim validation,
    contradictions and admission to knowledge.
  \<^item> \<open>Proposed_Plan\<close>, \<open>Plan_Store\<close>, \<open>Goal_Evaluation\<close>: validation and revision of plans; the store of revisions over any calls;
    the evaluation of an outcome and the revision it asks for.
  \<^item> \<open>Approval\<close>: risk assessment, decisions and receipts.
  \<^item> \<open>Execution\<close>: the operations of the engine, and the engine as a step relation in which calls, crashes and
    reconciliations interleave at the transactions of the store.
  \<^item> \<open>Memory_Authority\<close>, \<open>Receipt_Repository\<close>, \<open>Memory_Service\<close>: the transition table and its validation, the
    receipts in memory and on disk (the locale \<open>receipt_repository\<close>, interpreted by both), the projector and
    the transition service.
  \<^item> \<open>Memory_Records\<close>, \<open>Memory_Reconciliation\<close>: memories, their confidence, consolidation and provenance;
    reconciliation, the retrieval gate and the migration plan.
  \<^item> \<open>Replay_Store\<close>, \<open>Memory_Quarantine\<close>, \<open>Memory_Recovery\<close>, \<open>Failure_Prevention\<close>: the stores that replay a file of records
    and their common interface, recommendations of quarantine, reviews of terminal memories, advice from repeated failures.
  \<^item> \<open>Scheduler\<close>, \<open>Trigger\<close>, \<open>Notification\<close>: schedules and claims; conditions and events; notification receipts and views.
  \<^item> \<open>Cognitive_Pipeline\<close>, \<open>Hermes_Ingestion\<close>, \<open>Hermes_Boundary\<close>: the pipeline of the three gates, idempotent ingestion of runs
    with recovery (functions, and steps with crashes and failing writes), the HTTP boundary and its signatures.
  \<^item> \<open>Research\<close>: the state machine of a research case, retries, the runtime.
  \<^item> \<open>Public_Address\<close>, \<open>Evidence_Support\<close>: reading the public web behind address filters; the decision whether a page supports a Goal.
  \<^item> \<open>Mission_Gate\<close>, \<open>Search_Candidates\<close>: receipts of the user's confirmation and the read-only gates; what an agent may hand in.
  \<^item> \<open>Agent_Missions\<close>, \<open>Mission_Verification\<close>, \<open>Goal_Revision\<close>: the operations of missions, of their verification and of
    Goals on one store (\<open>knowledge\<close>).
  \<^item> \<open>Mission_Course\<close>, \<open>Mission_Leases\<close>: these operations as one step relation, the invariants of every mission, Evidence record and
    find, and what the calls leave alone and bring about.

  Conventions. An operation that may throw answers \<open>Inl\<close> of the component's error type, which keeps the
  class and the fields of the source's error and leaves out its message for humans. A store behind a
  \<open>transaction\<close> is an argument that the operation returns updated; one call is one transaction, as in the
  source, and where a call spans several (the execution engine, the ingestion, a verification) the step relation lets others come
  between. Copies made to protect against aliasing are the identity: values are immutable here. A record field the
  source leaves out when undefined is an \<open>option\<close>. Numbers are rationals with the infinities and NaN where
  the source can be handed any number, and naturals or integers where the source only counts. Characters are those of \<open>char\<close>.

  Parameters of the model, for what is not code of the repository: SHA-256, HMAC and the digests over them, \<open>JSON.parse\<close>, the URL
  parser, DNS, the network and the text of a page, \<open>net.isIP\<close>, Unicode folding, the collation of \<open>localeCompare\<close> (a \<open>comparator\<close>, that is a
  total preorder), the rendering of numbers and instants, \<open>Date.parse\<close>, the clock, generated ids, the planner and the decomposer of
  missions, what an attempt of a research stage does, the adapters. Three pieces of the repository are parameters too: the categories
  and amounts a Goal's text suggests, the labels of the classifier of finds (they never decide whether a find exists), and
  the redaction of error texts. A property that needs more of one of them (that the digest or the collation tells different
  values apart) says so in a hypothesis, and its witness instantiates it.

  Fuel and termination. No definition uses invented fuel: the depth-first searches terminate because every entry
  marks a task that was not marked, the serialisation by the size of the value; the redirects (five) and the retries of a page are the
  bounds of the code; the retries of a research stage, whose bound comes from outside, are a \<open>partial_function (option)\<close>, and
  \<open>research_run_ends\<close> proves when they end; the rest is structural.

  Not modelled: the bytes of files and their atomic replacement (\<open>storage/\<close>); the adapters of language models; the interpretation of
  Goals from free text, which is a language model's answer put in shape; the read models and exports that only
  reformat records for display (replay lab, Hermes logs, Obsidian notes, product scorecard, ranking of finds); the dashboard, the browser
  extension, the HTTP routing of the local server and the scripts, which are user interface and glue around the kernel.
\<close>

end
